(* ===== verification/Prelude.thy ===== *)
theory Prelude
  imports Main "HOL-Library.AList" "HOL-Library.Multiset"
begin

section \<open>Shared types, collections and lemmas\<close>

text \<open>
  What every theory of the development shares: the domain errors of
  \<^verbatim>\<open>src/src/utils/domain.errors.ts\<close>, results as sums, the two containers the
  server is written with (the insertion-ordered \<^verbatim>\<open>Map\<close> and \<^verbatim>\<open>Set\<close> of JavaScript),
  the list helpers of \<^verbatim>\<open>src/src/utils/array.utils.ts\<close>, and the interfaces of a keyed
  store as locales.

  A JavaScript \<^verbatim>\<open>Map\<close> iterates in insertion order, keeps the slot of a key that is set
  again and appends a new key. It is an association list with distinct keys: reading is
  \<open>map_of\<close>, \<^verbatim>\<open>set\<close> is \<open>AList.update\<close> and \<^verbatim>\<open>delete\<close> is
  \<open>AList.delete\<close>. A \<^verbatim>\<open>Set\<close> is a distinct list.
  Instants and durations are unbounded integers (milliseconds unless a definition says
  seconds); the source keeps them far inside the exact range of a double.
\<close>

named_theorems frame \<open>fields an operation leaves alone\<close>
named_theorems inv_intros \<open>preservation of an invariant by one operation\<close>

subsection \<open>Errors\<close>

datatype error_category =
    Validation | Unauthorized | Forbidden | Not_found | Conflict | Timeout
  | Too_many_requests | Internal

text \<open>The message is for the server log only, so the model keeps the category and the code.\<close>

datatype domain_error = DomainError (category: error_category) (code: string)

type_synonym 'a result = "domain_error + 'a"

abbreviation Throw :: "domain_error \<Rightarrow> 'a result" where
  "Throw e \<equiv> Inl e"

abbreviation Return :: "'a \<Rightarrow> 'a result" where
  "Return x \<equiv> Inr x"

subsection \<open>Insertion-ordered maps\<close>

type_synonym ('k, 'v) jsmap = "('k \<times> 'v) list"

abbreviation keys :: "('k, 'v) jsmap \<Rightarrow> 'k list" where
  "keys m \<equiv> map fst m"

abbreviation wf_map :: "('k, 'v) jsmap \<Rightarrow> bool" where
  "wf_map m \<equiv> distinct (keys m)"

abbreviation has :: "'k \<Rightarrow> ('k, 'v) jsmap \<Rightarrow> bool" where
  "has k m \<equiv> map_of m k \<noteq> None"

lemma AList_delete_eq_filter: "AList.delete k m = filter (\<lambda>(k', _). k \<noteq> k') m"
  by (simp add: AList.delete_eq)

lemma update_fresh: "k \<notin> set (keys m) \<Longrightarrow> AList.update k v m = m @ [(k, v)]"
  by (induction m) auto

lemma keys_update: "keys (AList.update k v m) = (if k \<in> set (keys m) then keys m else keys m @ [k])"
  by (rule AList.update_keys)

lemma keys_delete: "keys (AList.delete k m) = filter (\<lambda>x. x \<noteq> k) (keys m)"
  by (simp add: AList.delete_keys removeAll_filter_not_eq eq_commute)

lemma wf_map_update [simp, intro]: "wf_map m \<Longrightarrow> wf_map (AList.update k v m)"
  by (rule AList.distinct_update)

lemma wf_map_delete [simp, intro]: "wf_map m \<Longrightarrow> wf_map (AList.delete k m)"
  by (rule AList.distinct_delete)

lemma map_of_update: "map_of (AList.update k v m) x = (if x = k then Some v else map_of m x)"
  by (simp add: AList.update_conv')

lemma map_of_delete_eq: "map_of (AList.delete k m) x = (if x = k then None else map_of m x)"
  by (simp add: AList.delete_conv')

lemma has_iff_keys: "has k m \<longleftrightarrow> k \<in> set (keys m)"
  by (simp add: map_of_eq_None_iff)

lemma length_delete_has:
  "wf_map m \<Longrightarrow> map_of m k = Some v \<Longrightarrow> length m = Suc (length (AList.delete k m))"
proof (induction m)
  case Nil
  then show ?case by simp
next
  case (Cons p m)
  then show ?case by (cases "fst p = k") (auto simp: AList.delete_id)
qed

lemma filter_map_of:
  "wf_map m \<Longrightarrow> map_of (filter (\<lambda>(k, v). P k v) m) x =
     (case map_of m x of None \<Rightarrow> None | Some v \<Rightarrow> if P x v then Some v else None)"
proof (induction m)
  case Nil
  then show ?case by simp
next
  case (Cons p m)
  obtain k v where p: "p = (k, v)" by fastforce
  from Cons.prems have "k \<notin> set (keys m)" and wf: "wf_map m" by (simp_all add: p)
  then have "map_of m k = None" by (simp add: map_of_eq_None_iff)
  with Cons.IH[OF wf] show ?case by (cases "x = k") (auto simp: p split: option.splits)
qed

lemma wf_map_filter [simp, intro]: "wf_map m \<Longrightarrow> wf_map (filter P m)"
  by (rule distinct_map_filter)

subsection \<open>Insertion-ordered sets\<close>

definition js_add :: "'a \<Rightarrow> 'a list \<Rightarrow> 'a list" where
  "js_add x xs = (if x \<in> set xs then xs else xs @ [x])"

lemma set_js_add [simp]: "set (js_add x xs) = insert x (set xs)"
  by (auto simp: js_add_def)

lemma distinct_js_add [simp, intro]: "distinct xs \<Longrightarrow> distinct (js_add x xs)"
  by (simp add: js_add_def)

text \<open>\<^verbatim>\<open>unique\<close>: the set of the items, in first-seen order.\<close>

definition unique :: "'a list \<Rightarrow> 'a list" where
  "unique xs = fold js_add xs []"

lemma fold_js_add_set: "set (fold js_add xs acc) = set acc \<union> set xs"
  by (induction xs arbitrary: acc) auto

lemma fold_js_add_distinct: "distinct acc \<Longrightarrow> distinct (fold js_add xs acc)"
  by (induction xs arbitrary: acc) auto

lemma set_unique [simp]: "set (unique xs) = set xs"
  by (simp add: unique_def fold_js_add_set)

lemma distinct_unique [simp, intro]: "distinct (unique xs)"
  by (simp add: unique_def fold_js_add_distinct)

subsection \<open>Lists\<close>

lemma in_set_tlD: "x \<in> set (tl xs) \<Longrightarrow> x \<in> set xs"
  by (cases xs) auto

text \<open>
  \<^verbatim>\<open>chunk\<close>: the loop steps by \<open>size\<close>, so it does not end on a size of 0; the model
  takes the sizes the callers use, \<open>size > 0\<close>, and returns one chunk otherwise.
\<close>

function chunk :: "'a list \<Rightarrow> nat \<Rightarrow> 'a list list" where
  "chunk xs sz = (if xs = [] then [] else if sz = 0 then [xs]
     else take sz xs # chunk (drop sz xs) sz)"
  by pat_completeness auto
termination
  by (relation "measure (\<lambda>(xs, sz). length xs)") auto

declare chunk.simps [simp del]

lemma concat_chunk [simp]: "concat (chunk xs sz) = xs"
  by (induction xs sz rule: chunk.induct) (subst chunk.simps, auto)

lemma chunk_bounds:
  "0 < sz \<Longrightarrow> c \<in> set (chunk xs sz) \<Longrightarrow> c \<noteq> [] \<and> length c \<le> sz"
proof (induction xs sz rule: chunk.induct)
  case (1 xs sz)
  then show ?case
    by (subst (asm) (2) chunk.simps) (auto split: if_splits)
qed

text \<open>\<^verbatim>\<open>toMap\<close>: a later item with the same key replaces the value, in the first slot.\<close>

definition to_map :: "('a \<Rightarrow> 'k) \<Rightarrow> 'a list \<Rightarrow> ('k, 'a) jsmap" where
  "to_map key xs = fold (\<lambda>x m. AList.update (key x) x m) xs []"

lemma fold_update_wf:
  "wf_map m \<Longrightarrow> wf_map (fold (\<lambda>x m. AList.update (f x) (g x) m) xs m)"
  by (induction xs arbitrary: m) (simp_all add: AList.distinct_update)

lemma wf_to_map [simp, intro]: "wf_map (to_map key xs)"
  by (simp add: to_map_def fold_update_wf)

lemma fold_update_keys:
  "set (keys (fold (\<lambda>x m. AList.update (f x) (g x) m) xs m)) = set (keys m) \<union> f ` set xs"
  by (induction xs arbitrary: m) (auto simp: AList.dom_update)

lemma set_keys_to_map [simp]: "set (keys (to_map key xs)) = key ` set xs"
  unfolding to_map_def by (subst fold_update_keys) simp

lemma fold_update_values:
  "(k, v) \<in> set (fold (\<lambda>x m. AList.update (key x) x m) xs m) \<Longrightarrow>
     (k, v) \<in> set m \<or> (v \<in> set xs \<and> k = key v)"
proof (induction xs arbitrary: m)
  case Nil
  then show ?case by simp
next
  case (Cons x xs)
  have upd: "(k, v) \<in> set (AList.update (key x) x m) \<Longrightarrow> (k, v) \<in> set m \<or> (k = key x \<and> v = x)"
    by (induction m) (auto split: if_splits)
  from Cons.prems Cons.IH[of "AList.update (key x) x m"] upd show ?case by auto
qed

lemma to_map_values: "(k, v) \<in> set (to_map key xs) \<Longrightarrow> v \<in> set xs \<and> k = key v"
  unfolding to_map_def by (drule fold_update_values) simp

text \<open>\<^verbatim>\<open>clamp\<close> of \<^verbatim>\<open>math.utils.ts\<close>.\<close>

definition clamp :: "'a::linorder \<Rightarrow> 'a \<Rightarrow> 'a \<Rightarrow> 'a" where
  "clamp value lo hi = min (max value lo) hi"

lemma clamp_bounds: "lo \<le> hi \<Longrightarrow> lo \<le> clamp x lo hi \<and> clamp x lo hi \<le> hi"
  by (auto simp: clamp_def)

lemma clamp_id: "lo \<le> x \<Longrightarrow> x \<le> hi \<Longrightarrow> clamp x lo hi = x"
  by (auto simp: clamp_def)

subsection \<open>The interfaces of a keyed store\<close>

text \<open>
  What a client of a bounded store may rely on: a value just stored is found, and the store
  may forget other keys but never invents or changes a value.
\<close>

locale lossy_store =
  fixes lookup :: "'s \<Rightarrow> 'k \<Rightarrow> 'v option"
    and put :: "'k \<Rightarrow> 'v \<Rightarrow> 's \<Rightarrow> 's"
    and drop_key :: "'k \<Rightarrow> 's \<Rightarrow> 's"
    and invar :: "'s \<Rightarrow> bool"
  assumes put_same: "invar s \<Longrightarrow> lookup (put k v s) k = Some v"
    and put_other: "invar s \<Longrightarrow> x \<noteq> k \<Longrightarrow> lookup (put k v s) x = Some w \<Longrightarrow> lookup s x = Some w"
    and drop_same: "invar s \<Longrightarrow> lookup (drop_key k s) k = None"
    and drop_other: "invar s \<Longrightarrow> x \<noteq> k \<Longrightarrow> lookup (drop_key k s) x = lookup s x"
    and invar_put: "invar s \<Longrightarrow> invar (put k v s)"
    and invar_drop: "invar s \<Longrightarrow> invar (drop_key k s)"
begin

text \<open>A run of stores: every value found was stored, or was there before.\<close>

fun put_all :: "('k \<times> 'v) list \<Rightarrow> 's \<Rightarrow> 's" where
  "put_all [] s = s"
| "put_all ((k, v) # kvs) s = put_all kvs (put k v s)"

lemma invar_put_all: "invar s \<Longrightarrow> invar (put_all kvs s)"
  by (induction kvs s rule: put_all.induct) (auto intro: invar_put)

lemma put_all_sound:
  "invar s \<Longrightarrow> lookup (put_all kvs s) x = Some w \<Longrightarrow> (x, w) \<in> set kvs \<or> lookup s x = Some w"
proof (induction kvs s rule: put_all.induct)
  case (1 s)
  then show ?case by simp
next
  case (2 k v kvs s)
  from 2 have "(x, w) \<in> set kvs \<or> lookup (put k v s) x = Some w"
    by (auto intro: invar_put)
  with 2(2) show ?case
    by (cases "x = k") (auto simp: put_same dest: put_other)
qed

lemma put_all_last: "invar s \<Longrightarrow> lookup (put_all (kvs @ [(k, v)]) s) k = Some v"
  by (induction kvs s rule: put_all.induct) (auto intro: invar_put put_same)

end

text \<open>A store that also forgets nothing.\<close>

locale exact_store = lossy_store +
  assumes put_keeps: "invar s \<Longrightarrow> x \<noteq> k \<Longrightarrow> lookup (put k v s) x = lookup s x"
begin

lemma put_all_keeps:
  "invar s \<Longrightarrow> x \<notin> fst ` set kvs \<Longrightarrow> lookup (put_all kvs s) x = lookup s x"
  by (induction kvs s rule: put_all.induct) (auto intro: invar_put simp: put_keeps)

end

text \<open>The JavaScript \<^verbatim>\<open>Map\<close> is an exact store.\<close>

interpretation js_map: exact_store map_of AList.update AList.delete wf_map
  by unfold_locales (auto simp: map_of_update map_of_delete_eq intro: AList.distinct_update AList.distinct_delete)

end
