(* ===== verification/Memory_Cache.thy ===== *)
theory Memory_Cache
  imports Complex_Main Prelude
begin

section \<open>The memory cache\<close>

text \<open>
  \<^verbatim>\<open>MemoryCache\<close> of \<^verbatim>\<open>src/src/utils/memory.cache.ts\<close>: a least-recently-used cache with
  a time to live, an entry limit, a weight budget and coalesced loads. Its \<^verbatim>\<open>Map\<close> is an
  insertion-ordered association list (oldest entry first). One operation reads one value
  \<open>now\<close> of the clock. The callback \<^verbatim>\<open>onEvict\<close> is the list \<open>evict_log\<close> of its
  calls; what the callback does, errors included, cannot reach the cache. A promise of
  \<^verbatim>\<open>pending\<close> is a number. The two benchmark switches of the environment are fields of the
  configuration, because the module reads them once.
\<close>

subsection \<open>Options and state\<close>

record 'v cache_options =
  opt_ttlMs :: "int option"
  opt_maxSize :: "int option"
  opt_maxWeight :: "int option"
  opt_weigh :: "('v \<Rightarrow> int) option"
  opt_sweepIntervalMs :: "int option"
  opt_onEvict :: bool

record 'v cache_config =
  ttlMs :: int
  maxSize :: int
  maxWeight :: int
  weigh :: "('v \<Rightarrow> int) option"
  onEvict :: bool
  sweepMs :: int
  storageDisabled :: bool
  dedupDisabled :: bool

record 'v cache_entry =
  entry_value :: 'v
  expiresAt :: "int option"  \<comment> \<open>None is positive infinity\<close>
  weight :: int

datatype evict_reason = Lru | Ttl | Delete | Clear

record ('k, 'v) memory_cache =
  cfg :: "'v cache_config"
  cache :: "('k, 'v cache_entry) jsmap"
  totalWeight :: int
  hits :: nat
  misses :: nat
  evictions :: nat
  lastSweepAt :: int
  pending :: "('k, nat) jsmap"
  evict_log :: "('k \<times> 'v) list"

definition default_ttl_ms :: int where
  "default_ttl_ms = 5 * 60000"

definition cache_config_of :: "bool \<Rightarrow> bool \<Rightarrow> 'v cache_options \<Rightarrow> 'v cache_config" where
  "cache_config_of no_storage no_dedup opts =
     (let ttl = (case opt_ttlMs opts of None \<Rightarrow> default_ttl_ms | Some t \<Rightarrow> t) in
      \<lparr>ttlMs = ttl,
       maxSize = (case opt_maxSize opts of None \<Rightarrow> 500 | Some n \<Rightarrow> n),
       maxWeight = (case opt_maxWeight opts of None \<Rightarrow> -1 | Some w \<Rightarrow> w),
       weigh = opt_weigh opts,
       onEvict = opt_onEvict opts,
       sweepMs = (if ttl = -1 then 0 else (case opt_sweepIntervalMs opts of None \<Rightarrow> ttl | Some s \<Rightarrow> s)),
       storageDisabled = no_storage,
       dedupDisabled = no_dedup\<rparr>)"

definition new_cache :: "'v cache_config \<Rightarrow> ('k, 'v) memory_cache" where
  "new_cache conf = \<lparr>cfg = conf, cache = [], totalWeight = 0, hits = 0, misses = 0, evictions = 0,
     lastSweepAt = 0, pending = [], evict_log = []\<rparr>"

subsection \<open>Removal and eviction\<close>

definition remove_entry :: "'k \<Rightarrow> ('k, 'v) memory_cache \<Rightarrow> 'v cache_entry option \<times> ('k, 'v) memory_cache" where
  "remove_entry k c =
     (case map_of (cache c) k of
        None \<Rightarrow> (None, c)
      | Some e \<Rightarrow> (Some e, c\<lparr>cache := AList.delete k (cache c), totalWeight := totalWeight c - weight e\<rparr>))"

definition notify_evict :: "'k \<Rightarrow> 'v \<Rightarrow> evict_reason \<Rightarrow> ('k, 'v) memory_cache \<Rightarrow> ('k, 'v) memory_cache" where
  "notify_evict k v reason c =
     (let c1 = (if reason = Lru \<or> reason = Ttl then c\<lparr>evictions := Suc (evictions c)\<rparr> else c) in
      if onEvict (cfg c1) then c1\<lparr>evict_log := evict_log c1 @ [(k, v)]\<rparr> else c1)"

definition is_expired :: "int \<Rightarrow> 'v cache_entry \<Rightarrow> bool" where
  "is_expired now e = (case expiresAt e of None \<Rightarrow> False | Some t \<Rightarrow> t < now)"

definition drop_if_expired ::
  "int \<Rightarrow> 'k \<Rightarrow> 'v cache_entry \<Rightarrow> ('k, 'v) memory_cache \<Rightarrow> bool \<times> ('k, 'v) memory_cache" where
  "drop_if_expired now k e c =
     (if ttlMs (cfg c) = -1 \<or> \<not> is_expired now e then (False, c)
      else (True, notify_evict k (entry_value e) Ttl (snd (remove_entry k c))))"

definition evict_oldest :: "int \<Rightarrow> ('k, 'v) memory_cache \<Rightarrow> ('k, 'v) memory_cache" where
  "evict_oldest now c =
     (case cache c of
        [] \<Rightarrow> c
      | (k, e) # _ \<Rightarrow>
          if ttlMs (cfg c) \<noteq> -1 \<and> is_expired now e
          then notify_evict k (entry_value e) Ttl (snd (remove_entry k c))
          else (case remove_entry k c of
                  (None, c') \<Rightarrow> c'
                | (Some e', c') \<Rightarrow> notify_evict k (entry_value e') Lru c'))"

lemma remove_entry_frame [frame]:
  "cfg (snd (remove_entry k c)) = cfg c" "evict_log (snd (remove_entry k c)) = evict_log c"
  "pending (snd (remove_entry k c)) = pending c" "lastSweepAt (snd (remove_entry k c)) = lastSweepAt c"
  "evictions (snd (remove_entry k c)) = evictions c"
  by (simp_all add: remove_entry_def split: option.split)

lemma notify_evict_frame [frame]:
  "cfg (notify_evict k v r c) = cfg c" "cache (notify_evict k v r c) = cache c"
  "totalWeight (notify_evict k v r c) = totalWeight c" "pending (notify_evict k v r c) = pending c"
  "lastSweepAt (notify_evict k v r c) = lastSweepAt c"
  by (simp_all add: notify_evict_def Let_def)

lemma cache_remove_entry [simp]: "cache (snd (remove_entry k c)) = AList.delete k (cache c)"
  by (auto simp: remove_entry_def map_of_eq_None_iff split: option.split)

lemma cache_evict_oldest [simp]:
  "cache (evict_oldest now c) = (case cache c of [] \<Rightarrow> [] | (k, e) # _ \<Rightarrow> AList.delete k (cache c))"
proof (cases "cache c")
  case (Cons p rest)
  then show ?thesis
    by (cases p) (auto simp: evict_oldest_def remove_entry_def frame split: option.split)
qed (simp add: evict_oldest_def)

lemma evict_oldest_frame [frame]:
  "cfg (evict_oldest now c) = cfg c" "pending (evict_oldest now c) = pending c"
  "lastSweepAt (evict_oldest now c) = lastSweepAt c"
  by (auto simp: evict_oldest_def frame remove_entry_def split: list.split option.split)

lemma length_evict_oldest:
  "cache c \<noteq> [] \<Longrightarrow> length (cache (evict_oldest now c)) < length (cache c)"
  by (cases "cache c") (auto simp: AList.length_delete_le le_imp_less_Suc)

text \<open>
  The weight loop ends because each round removes the oldest entry; it stops at the entry
  just written.
\<close>

function evict_over_weight :: "int \<Rightarrow> 'k \<Rightarrow> ('k, 'v) memory_cache \<Rightarrow> ('k, 'v) memory_cache" where
  "evict_over_weight now keep c =
     (if maxWeight (cfg c) \<noteq> -1 \<and> totalWeight c > maxWeight (cfg c)
      then (case cache c of
              [] \<Rightarrow> c
            | (k, _) # _ \<Rightarrow> if k = keep then c else evict_over_weight now keep (evict_oldest now c))
      else c)"
  by pat_completeness auto
termination
  by (relation "measure (\<lambda>(now, keep, c). length (cache c))") (auto simp: AList.length_delete_le le_imp_less_Suc)

declare evict_over_weight.simps [simp del]

definition sweep_entry :: "int \<Rightarrow> 'k \<times> 'v cache_entry \<Rightarrow> ('k, 'v) memory_cache \<Rightarrow> ('k, 'v) memory_cache" where
  "sweep_entry now p c =
     (if is_expired now (snd p)
      then notify_evict (fst p) (entry_value (snd p)) Ttl (snd (remove_entry (fst p) c)) else c)"

definition sweep :: "int \<Rightarrow> ('k, 'v) memory_cache \<Rightarrow> ('k, 'v) memory_cache" where
  "sweep now c = fold (sweep_entry now) (cache c) c"

definition sweep_if_due :: "int \<Rightarrow> ('k, 'v) memory_cache \<Rightarrow> ('k, 'v) memory_cache" where
  "sweep_if_due now c =
     (if sweepMs (cfg c) \<le> 0 \<or> now - lastSweepAt c < sweepMs (cfg c) then c
      else sweep now (c\<lparr>lastSweepAt := now\<rparr>))"

subsection \<open>Reads\<close>

definition cache_has :: "int \<Rightarrow> 'k \<Rightarrow> ('k, 'v) memory_cache \<Rightarrow> bool \<times> ('k, 'v) memory_cache" where
  "cache_has now k c =
     (if storageDisabled (cfg c) then (False, c)
      else (case map_of (cache c) k of
              None \<Rightarrow> (False, c)
            | Some e \<Rightarrow> (case drop_if_expired now k e c of (dropped, c') \<Rightarrow> (\<not> dropped, c'))))"

definition count_miss :: "('k, 'v) memory_cache \<Rightarrow> ('k, 'v) memory_cache" where
  "count_miss c = c\<lparr>misses := Suc (misses c)\<rparr>"

definition cache_lookup :: "int \<Rightarrow> 'k \<Rightarrow> ('k, 'v) memory_cache \<Rightarrow> 'v option \<times> ('k, 'v) memory_cache" where
  "cache_lookup now k c =
     (if storageDisabled (cfg c) then (None, count_miss c)
      else (case map_of (cache c) k of
              None \<Rightarrow> (None, count_miss c)
            | Some e \<Rightarrow>
                (case drop_if_expired now k e c of
                   (True, c') \<Rightarrow> (None, count_miss c')
                 | (False, c') \<Rightarrow>
                     (Some (entry_value e),
                      c'\<lparr>hits := Suc (hits c'),
                         cache := AList.update k e (AList.delete k (cache c'))\<rparr>))))"

definition cache_get :: "int \<Rightarrow> 'k \<Rightarrow> ('k, 'v) memory_cache \<Rightarrow> 'v option \<times> ('k, 'v) memory_cache" where
  "cache_get now k c = cache_lookup now k c"

fun cache_mget ::
  "int \<Rightarrow> 'k list \<Rightarrow> ('k, 'v) memory_cache \<Rightarrow> ('k, 'v) jsmap \<Rightarrow> ('k, 'v) jsmap \<times> ('k, 'v) memory_cache" where
  "cache_mget now [] c result = (result, c)"
| "cache_mget now (k # ks) c result =
     (case cache_lookup now k c of
        (None, c') \<Rightarrow> cache_mget now ks c' result
      | (Some v, c') \<Rightarrow> cache_mget now ks c' (AList.update k v result))"

subsection \<open>Writes\<close>

definition entry_for :: "int \<Rightarrow> 'v \<Rightarrow> 'v cache_config \<Rightarrow> 'v cache_entry" where
  "entry_for now v conf =
     \<lparr>entry_value = v,
      expiresAt = (if ttlMs conf = -1 then None else Some (now + ttlMs conf)),
      weight = (case weigh conf of None \<Rightarrow> 0 | Some w \<Rightarrow> w v)\<rparr>"

definition make_room :: "int \<Rightarrow> ('k, 'v) memory_cache \<Rightarrow> ('k, 'v) memory_cache" where
  "make_room now c =
     (if maxSize (cfg c) \<noteq> -1 \<and> maxSize (cfg c) \<le> int (length (cache c)) then evict_oldest now c else c)"

definition insert_entry :: "'k \<Rightarrow> 'v cache_entry \<Rightarrow> ('k, 'v) memory_cache \<Rightarrow> ('k, 'v) memory_cache" where
  "insert_entry k e c = c\<lparr>cache := AList.update k e (cache c), totalWeight := totalWeight c + weight e\<rparr>"

definition cache_set :: "int \<Rightarrow> 'k \<Rightarrow> 'v \<Rightarrow> ('k, 'v) memory_cache \<Rightarrow> ('k, 'v) memory_cache" where
  "cache_set now k v c =
     (if storageDisabled (cfg c) then c
      else evict_over_weight now k
             (insert_entry k (entry_for now v (cfg c))
               (make_room now (snd (remove_entry k (sweep_if_due now c))))))"

definition cache_delete :: "'k \<Rightarrow> ('k, 'v) memory_cache \<Rightarrow> bool \<times> ('k, 'v) memory_cache" where
  "cache_delete k c =
     (case remove_entry k c of
        (None, c') \<Rightarrow> (False, c')
      | (Some e, c') \<Rightarrow> (True, notify_evict k (entry_value e) Delete c'))"

definition cache_clear :: "('k, 'v) memory_cache \<Rightarrow> ('k, 'v) memory_cache" where
  "cache_clear c =
     (let c1 = (if onEvict (cfg c)
                then fold (\<lambda>(k, e) c. notify_evict k (entry_value e) Clear c) (cache c) c else c)
      in c1\<lparr>cache := [], totalWeight := 0\<rparr>)"

definition cache_destroy :: "('k, 'v) memory_cache \<Rightarrow> ('k, 'v) memory_cache" where
  "cache_destroy c = (cache_clear c)\<lparr>pending := []\<rparr>"

subsection \<open>Listing and statistics\<close>

definition cache_size :: "('k, 'v) memory_cache \<Rightarrow> nat" where
  "cache_size c = length (cache c)"

definition cache_keys :: "('k, 'v) memory_cache \<Rightarrow> 'k list" where
  "cache_keys c = keys (cache c)"

definition cache_values :: "('k, 'v) memory_cache \<Rightarrow> 'v list" where
  "cache_values c = map (entry_value \<circ> snd) (cache c)"

definition cache_entries :: "('k, 'v) memory_cache \<Rightarrow> ('k \<times> 'v) list" where
  "cache_entries c = map (\<lambda>(k, e). (k, entry_value e)) (cache c)"

record cache_stats =
  stat_entries :: nat
  stat_maxSize :: "int option"
  stat_hits :: nat
  stat_misses :: nat
  stat_hitRate :: "rat option"
  stat_evictions :: nat
  stat_pendingLoads :: nat

definition stats :: "('k, 'v) memory_cache \<Rightarrow> cache_stats" where
  "stats c =
     (let total = hits c + misses c in
      \<lparr>stat_entries = length (cache c),
       stat_maxSize = (if maxSize (cfg c) = -1 then None else Some (maxSize (cfg c))),
       stat_hits = hits c,
       stat_misses = misses c,
       stat_hitRate =
         (if total = 0 then None
          else Some (of_int (round (rat_of_nat (hits c) / rat_of_nat total * 1000)) / 1000)),
       stat_evictions = evictions c,
       stat_pendingLoads = length (pending c)\<rparr>)"

subsection \<open>What each helper does to the map and to the weight\<close>

definition entries_weight :: "('k, 'v cache_entry) jsmap \<Rightarrow> int" where
  "entries_weight m = sum_list (map (weight \<circ> snd) m)"

lemma entries_weight_simps [simp]:
  "entries_weight [] = 0"
  "entries_weight (p # m) = weight (snd p) + entries_weight m"
  "entries_weight (m @ m') = entries_weight m + entries_weight m'"
  by (simp_all add: entries_weight_def)

definition weight_exact :: "('k, 'v) memory_cache \<Rightarrow> bool" where
  "weight_exact c \<longleftrightarrow> totalWeight c = entries_weight (cache c)"

lemma delete_Cons_wf: "wf_map ((k, e) # m) \<Longrightarrow> AList.delete k ((k, e) # m) = m"
  by (simp add: AList.delete_id)

lemma cache_evict_oldest_tl: "wf_map (cache c) \<Longrightarrow> cache (evict_oldest now c) = tl (cache c)"
  by (auto simp: delete_Cons_wf split: list.split prod.split)

lemma weight_evict_oldest:
  "totalWeight (evict_oldest now c) =
     (case cache c of [] \<Rightarrow> totalWeight c | (k, e) # _ \<Rightarrow> totalWeight c - weight e)"
  by (auto simp: evict_oldest_def remove_entry_def frame split: list.split option.split)

lemma entries_weight_delete:
  "wf_map m \<Longrightarrow> map_of m k = Some e \<Longrightarrow> entries_weight (AList.delete k m) = entries_weight m - weight e"
proof (induction m)
  case (Cons p m)
  then show ?case by (cases "fst p = k") (auto simp: AList.delete_id)
qed simp

lemma weight_exact_evict_oldest:
  assumes "wf_map (cache c)" and "weight_exact c"
  shows "weight_exact (evict_oldest now c)"
proof (cases "cache c")
  case (Cons p rest)
  with assms show ?thesis
    by (cases p) (simp add: weight_exact_def weight_evict_oldest delete_Cons_wf)
qed (use assms in \<open>simp add: weight_exact_def weight_evict_oldest\<close>)

lemma weight_exact_remove_entry:
  "wf_map (cache c) \<Longrightarrow> weight_exact c \<Longrightarrow> weight_exact (snd (remove_entry k c))"
  by (auto simp: weight_exact_def remove_entry_def entries_weight_delete split: option.split)

lemma weight_exact_notify [simp]: "weight_exact (notify_evict k v r c) = weight_exact c"
  by (simp add: weight_exact_def frame)

lemma evict_over_weight_frame [frame]:
  "cfg (evict_over_weight now keep c) = cfg c"
  "pending (evict_over_weight now keep c) = pending c"
  "lastSweepAt (evict_over_weight now keep c) = lastSweepAt c"
proof (induction now keep c rule: evict_over_weight.induct)
  case (1 now keep c)
  { case 1 from "1.IH"(1) show ?case
      by (subst evict_over_weight.simps) (auto simp: frame split: list.split) }
  { case 2 from "1.IH"(2) show ?case
      by (subst evict_over_weight.simps) (auto simp: frame split: list.split) }
  { case 3 from "1.IH"(3) show ?case
      by (subst evict_over_weight.simps) (auto simp: frame split: list.split) }
qed

text \<open>The weight loop drops a prefix, the least recently used entries.\<close>

lemma evict_over_weight_drop:
  "wf_map (cache c) \<Longrightarrow> \<exists>n. cache (evict_over_weight now keep c) = drop n (cache c)"
proof (induction now keep c rule: evict_over_weight.induct)
  case (1 now keep c)
  show ?case
  proof (cases "maxWeight (cfg c) \<noteq> -1 \<and> totalWeight c > maxWeight (cfg c) \<and> cache c \<noteq> [] \<and> fst (hd (cache c)) \<noteq> keep")
    case True
    then obtain k e rest where c: "cache c = (k, e) # rest" "k \<noteq> keep"
      by (cases "cache c") auto
    have tl: "cache (evict_oldest now c) = rest"
      using "1.prems" c by (simp add: cache_evict_oldest_tl del: cache_evict_oldest)
    with True c "1.prems" "1.IH"[of "(k, e)" rest k e] obtain n
      where "cache (evict_over_weight now keep (evict_oldest now c)) = drop n rest"
      by (auto simp del: cache_evict_oldest)
    moreover have "evict_over_weight now keep c = evict_over_weight now keep (evict_oldest now c)"
      using True c by (subst evict_over_weight.simps) auto
    ultimately have "cache (evict_over_weight now keep c) = drop (Suc n) (cache c)" using c by simp
    then show ?thesis by blast
  next
    case False
    then have "evict_over_weight now keep c = c"
      by (subst evict_over_weight.simps) (auto split: list.split)
    then show ?thesis by (metis drop0)
  qed
qed

lemma evict_over_weight_budget:
  "wf_map (cache c) \<Longrightarrow> weight_exact c \<Longrightarrow> cache c = m @ [(keep, e)] \<Longrightarrow>
     (let c' = evict_over_weight now keep c in
        weight_exact c' \<and> (\<exists>n \<le> length m. cache c' = drop n m @ [(keep, e)]) \<and>
        (maxWeight (cfg c) = -1 \<or> totalWeight c' \<le> maxWeight (cfg c) \<or> cache c' = [(keep, e)]))"
proof (induction now keep c arbitrary: m rule: evict_over_weight.induct)
  case (1 now keep c)
  show ?case
  proof (cases "maxWeight (cfg c) \<noteq> -1 \<and> totalWeight c > maxWeight (cfg c) \<and> m \<noteq> []")
    case True
    then obtain k e' rest where m: "m = (k, e') # rest" by (cases m) auto
    have kk: "k \<noteq> keep" using "1.prems"(1,3) m by auto
    have c1: "cache (evict_oldest now c) = rest @ [(keep, e)]"
      using "1.prems"(1,3) m by (simp add: cache_evict_oldest_tl del: cache_evict_oldest)
    have unf: "evict_over_weight now keep c = evict_over_weight now keep (evict_oldest now c)"
      using True "1.prems"(3) m kk by (subst evict_over_weight.simps) auto
    have "wf_map (cache (evict_oldest now c))" using "1.prems"(1,3) m c1 by auto
    moreover have "weight_exact (evict_oldest now c)"
      using "1.prems"(1,2) by (rule weight_exact_evict_oldest)
    ultimately have IH: "let c' = evict_over_weight now keep (evict_oldest now c) in
        weight_exact c' \<and> (\<exists>n \<le> length rest. cache c' = drop n rest @ [(keep, e)]) \<and>
        (maxWeight (cfg c) = -1 \<or> totalWeight c' \<le> maxWeight (cfg c) \<or> cache c' = [(keep, e)])"
      using "1.IH"[of "(k, e')" "rest @ [(keep, e)]" k e' rest] True "1.prems"(3) m kk c1
      by (simp add: frame del: cache_evict_oldest)
    then obtain n where n: "n \<le> length rest"
      "cache (evict_over_weight now keep (evict_oldest now c)) = drop n rest @ [(keep, e)]"
      by (auto simp: Let_def)
    then have "\<exists>n\<le>length m. cache (evict_over_weight now keep (evict_oldest now c)) = drop n m @ [(keep, e)]"
      using m by (intro exI[of _ "Suc n"]) simp
    with IH unf show ?thesis by (simp add: Let_def)
  next
    case False
    then have "evict_over_weight now keep c = c"
      using "1.prems"(3) by (subst evict_over_weight.simps) (auto split: list.split)
    with False "1.prems" show ?thesis by (auto simp: Let_def intro: exI[of _ 0])
  qed
qed

text \<open>A sweep keeps exactly the entries whose time has not run out.\<close>

lemma cache_sweep_entry:
  "cache (sweep_entry now p c) =
     (if is_expired now (snd p) then AList.delete (fst p) (cache c) else cache c)"
  by (simp add: sweep_entry_def frame)

lemma sweep_fold:
  "cache (fold (sweep_entry now) xs c) =
     filter (\<lambda>(k, _). k \<notin> fst ` set (filter (is_expired now \<circ> snd) xs)) (cache c)"
proof (induction xs arbitrary: c)
  case (Cons p xs)
  show ?case
    by (auto simp: Cons.IH cache_sweep_entry AList_delete_eq_filter intro!: filter_cong)
qed simp

lemma expired_keys_iff:
  "wf_map m \<Longrightarrow> (k, e) \<in> set m \<Longrightarrow> k \<in> fst ` set (filter (P \<circ> snd) m) \<longleftrightarrow> P e"
  by (auto simp: image_iff dest: eq_key_imp_eq_value)

lemma cache_sweep:
  "wf_map (cache c) \<Longrightarrow> cache (sweep now c) = filter (\<lambda>(k, e). \<not> is_expired now e) (cache c)"
  unfolding sweep_def sweep_fold
  by (rule filter_cong) (simp_all only: split_paired_all prod.case expired_keys_iff)

lemma sweep_entry_frame [frame]:
  "cfg (sweep_entry now p c) = cfg c" "pending (sweep_entry now p c) = pending c"
  by (simp_all add: sweep_entry_def frame)

lemma sweep_fold_frame:
  "cfg (fold (sweep_entry now) xs c) = cfg c" "pending (fold (sweep_entry now) xs c) = pending c"
  by (induction xs arbitrary: c) (simp_all add: frame)

lemma sweep_frame [frame]: "cfg (sweep now c) = cfg c" "pending (sweep now c) = pending c"
  by (simp_all add: sweep_def sweep_fold_frame)

lemma weight_exact_sweep_fold:
  "wf_map (cache c) \<Longrightarrow> weight_exact c \<Longrightarrow> weight_exact (fold (sweep_entry now) xs c)"
proof (induction xs arbitrary: c)
  case (Cons p xs)
  have "wf_map (cache (sweep_entry now p c))"
    using Cons.prems(1) by (simp add: sweep_entry_def frame)
  moreover have "weight_exact (sweep_entry now p c)"
    using Cons.prems by (simp add: sweep_entry_def weight_exact_remove_entry)
  ultimately show ?case using Cons.IH by simp
qed simp

definition sweep_due :: "int \<Rightarrow> ('k, 'v) memory_cache \<Rightarrow> bool" where
  "sweep_due now c \<longleftrightarrow> 0 < sweepMs (cfg c) \<and> sweepMs (cfg c) \<le> now - lastSweepAt c"

lemma sweep_if_due_effect:
  assumes "wf_map (cache c)" and "weight_exact c"
  shows "cache (sweep_if_due now c) =
           filter (\<lambda>(k, e). sweep_due now c \<longrightarrow> \<not> is_expired now e) (cache c)"
    and "cfg (sweep_if_due now c) = cfg c" and "pending (sweep_if_due now c) = pending c"
    and "weight_exact (sweep_if_due now c)"
proof -
  let ?c = "c\<lparr>lastSweepAt := now\<rparr>"
  have w: "weight_exact ?c" using assms(2) by (simp add: weight_exact_def)
  show "cache (sweep_if_due now c) = filter (\<lambda>(k, e). sweep_due now c \<longrightarrow> \<not> is_expired now e) (cache c)"
    using cache_sweep[of ?c now] assms(1)
    by (auto simp: sweep_if_due_def sweep_due_def intro: filter_True[symmetric])
  show "cfg (sweep_if_due now c) = cfg c" "pending (sweep_if_due now c) = pending c"
    by (simp_all add: sweep_if_due_def frame)
  show "weight_exact (sweep_if_due now c)"
    using assms w weight_exact_sweep_fold[of ?c now "cache c"]
    by (simp add: sweep_if_due_def sweep_def)
qed

end
