(* ===== verification/Cache_Laws.thy ===== *)
theory Cache_Laws
  imports Memory_Cache
begin

section \<open>What the memory cache promises\<close>

text \<open>
  The effect of every operation of the cache on its map, the invariant of the reachable
  caches (distinct keys, exact total weight, entry limit and weight budget), what a read
  returns after a write, and the accounting of the evicted values.
\<close>

subsection \<open>The effect of the operations\<close>

lemma make_room_effect:
  assumes "wf_map (cache c)" and "weight_exact c"
  shows "cache (make_room now c) =
           (if maxSize (cfg c) \<noteq> -1 \<and> maxSize (cfg c) \<le> int (length (cache c)) then tl (cache c) else cache c)"
    and "weight_exact (make_room now c)" and "cfg (make_room now c) = cfg c"
    and "pending (make_room now c) = pending c"
  using assms
  by (auto simp: make_room_def cache_evict_oldest_tl weight_exact_evict_oldest frame simp del: cache_evict_oldest)

definition set_base :: "int \<Rightarrow> 'k \<Rightarrow> ('k, 'v) memory_cache \<Rightarrow> ('k, 'v cache_entry) jsmap" where
  "set_base now k c = filter (\<lambda>(x, e). x \<noteq> k \<and> (sweep_due now c \<longrightarrow> \<not> is_expired now e)) (cache c)"

lemma set_base_fresh: "k \<notin> set (keys (set_base now k c))"
  by (auto simp: set_base_def)

lemma wf_set_base [simp]: "wf_map (cache c) \<Longrightarrow> wf_map (set_base now k c)"
  by (simp add: set_base_def)

lemma weight_exact_insert:
  "k \<notin> set (keys (cache c)) \<Longrightarrow> weight_exact c \<Longrightarrow> weight_exact (insert_entry k e c)"
  by (simp add: weight_exact_def insert_entry_def update_fresh)

lemma cache_set_frame [frame]:
  "wf_map (cache c) \<Longrightarrow> weight_exact c \<Longrightarrow> cfg (cache_set now k v c) = cfg c"
  "wf_map (cache c) \<Longrightarrow> weight_exact c \<Longrightarrow> pending (cache_set now k v c) = pending c"
  by (simp_all add: cache_set_def frame insert_entry_def make_room_def sweep_if_due_effect)

lemma cache_set_effect:
  fixes c :: "('k, 'v) memory_cache" and now :: int and k :: 'k and v :: 'v
  assumes wf: "wf_map (cache c)" and ex: "weight_exact c" and on: "\<not> storageDisabled (cfg c)"
  defines "e \<equiv> entry_for now v (cfg c)" and "base \<equiv> set_base now k c"
  defines "roomy \<equiv> (if maxSize (cfg c) \<noteq> -1 \<and> maxSize (cfg c) \<le> int (length base) then tl base else base)"
  defines "c' \<equiv> cache_set now k v c"
  shows "\<exists>n \<le> length roomy. cache c' = drop n roomy @ [(k, e)]"
    and "weight_exact c'"
    and "maxWeight (cfg c) = -1 \<or> totalWeight c' \<le> maxWeight (cfg c) \<or> cache c' = [(k, e)]"
proof -
  let ?s = "sweep_if_due now c"
  let ?r = "snd (remove_entry k ?s)"
  let ?m = "make_room now ?r"
  let ?i = "insert_entry k e ?m"
  have s: "wf_map (cache ?s)" "weight_exact ?s" "cfg ?s = cfg c"
    using wf ex by (simp_all add: sweep_if_due_effect)
  have r: "cache ?r = base" "weight_exact ?r" "cfg ?r = cfg c"
    using s wf ex
    by (auto simp: base_def set_base_def sweep_if_due_effect weight_exact_remove_entry frame
        AList_delete_eq_filter intro!: filter_cong)
  have m: "cache ?m = roomy" "weight_exact ?m" "cfg ?m = cfg c"
    using wf r by (simp_all add: make_room_effect roomy_def base_def)
  have fresh: "k \<notin> set (keys roomy)"
    using set_base_fresh[of k now c] by (auto simp: roomy_def base_def dest: in_set_tlD)
  have wfr: "wf_map roomy" using wf by (auto simp: roomy_def base_def map_tl distinct_tl)
  have i: "cache ?i = roomy @ [(k, e)]" "weight_exact ?i" "cfg ?i = cfg c"
    using fresh m by (simp_all add: weight_exact_insert) (simp_all add: insert_entry_def update_fresh)
  have wfi: "wf_map (cache ?i)" using wfr fresh i(1) by auto
  have c': "c' = evict_over_weight now k ?i"
    using on s by (simp add: c'_def cache_set_def e_def)
  from evict_over_weight_budget[OF wfi i(2) i(1), of now] i(3)
  show "\<exists>n \<le> length roomy. cache c' = drop n roomy @ [(k, e)]" and "weight_exact c'"
    and "maxWeight (cfg c) = -1 \<or> totalWeight c' \<le> maxWeight (cfg c) \<or> cache c' = [(k, e)]"
    by (simp_all add: c' Let_def)
qed

lemma cache_lookup_effect:
  "cache (snd (cache_lookup now k c)) =
     (if storageDisabled (cfg c) then cache c
      else case map_of (cache c) k of
             None \<Rightarrow> cache c
           | Some e \<Rightarrow> if ttlMs (cfg c) \<noteq> -1 \<and> is_expired now e then AList.delete k (cache c)
                       else AList.delete k (cache c) @ [(k, e)])"
  "fst (cache_lookup now k c) =
     (if storageDisabled (cfg c) then None
      else case map_of (cache c) k of
             None \<Rightarrow> None
           | Some e \<Rightarrow> if ttlMs (cfg c) \<noteq> -1 \<and> is_expired now e then None else Some (entry_value e))"
  by (auto simp: cache_lookup_def drop_if_expired_def count_miss_def frame update_fresh AList.delete_keys
      split: option.split)

lemma cache_lookup_frame [frame]:
  "cfg (snd (cache_lookup now k c)) = cfg c" "pending (snd (cache_lookup now k c)) = pending c"
  by (auto simp: cache_lookup_def drop_if_expired_def count_miss_def frame split: option.split prod.split)

lemma cache_lookup_weight:
  "totalWeight (snd (cache_lookup now k c)) =
     (if storageDisabled (cfg c) then totalWeight c
      else case map_of (cache c) k of
             None \<Rightarrow> totalWeight c
           | Some e \<Rightarrow> if ttlMs (cfg c) \<noteq> -1 \<and> is_expired now e then totalWeight c - weight e
                       else totalWeight c)"
  by (auto simp: cache_lookup_def drop_if_expired_def count_miss_def frame remove_entry_def split: option.split)

subsection \<open>The invariant of the reachable caches\<close>

definition nonneg_weights :: "('k, 'v cache_entry) jsmap \<Rightarrow> bool" where
  "nonneg_weights m \<longleftrightarrow> (\<forall>e \<in> set (map snd m). 0 \<le> weight e)"

definition within_size :: "('k, 'v) memory_cache \<Rightarrow> bool" where
  "within_size c \<longleftrightarrow> maxSize (cfg c) = -1 \<or> int (length (cache c)) \<le> max 1 (maxSize (cfg c))"

definition within_weight :: "('k, 'v) memory_cache \<Rightarrow> bool" where
  "within_weight c \<longleftrightarrow> maxWeight (cfg c) = -1 \<or> totalWeight c \<le> maxWeight (cfg c) \<or> length (cache c) \<le> 1"

definition cache_inv :: "('k, 'v) memory_cache \<Rightarrow> bool" where
  "cache_inv c \<longleftrightarrow> wf_map (cache c) \<and> weight_exact c \<and> nonneg_weights (cache c)
     \<and> within_size c \<and> within_weight c"

definition weigh_nonneg :: "'v cache_config \<Rightarrow> bool" where
  "weigh_nonneg conf \<longleftrightarrow> (case weigh conf of None \<Rightarrow> True | Some w \<Rightarrow> \<forall>v. 0 \<le> w v)"

lemma entry_for_weight: "weigh_nonneg conf \<Longrightarrow> 0 \<le> weight (entry_for now v conf)"
  by (auto simp: weigh_nonneg_def entry_for_def split: option.split)

lemma cache_inv_new: "cache_inv (new_cache conf)"
  by (simp add: cache_inv_def new_cache_def weight_exact_def nonneg_weights_def within_size_def
      within_weight_def le_max_iff_disj)

text \<open>Forgetting one entry keeps the invariant, whatever else the step counts.\<close>

lemma cache_inv_forget:
  assumes inv: "cache_inv c" and e: "map_of (cache c) k = Some e"
    and c': "cache c' = AList.delete k (cache c)" "totalWeight c' = totalWeight c - weight e" "cfg c' = cfg c"
  shows "cache_inv c'"
proof -
  have nonneg: "0 \<le> weight e" and sub: "set (AList.delete k (cache c)) \<subseteq> set (cache c)"
    using inv e by (force simp: cache_inv_def nonneg_weights_def dest: map_of_SomeD)
      (auto simp: AList_delete_eq_filter)
  have len: "length (AList.delete k (cache c)) \<le> length (cache c)" by (rule AList.length_delete_le)
  show ?thesis
    using inv nonneg sub len e c'
    by (auto simp: cache_inv_def weight_exact_def entries_weight_delete nonneg_weights_def
        within_size_def within_weight_def)
qed

lemma cache_inv_same:
  "cache_inv c \<Longrightarrow> cache c' = cache c \<Longrightarrow> totalWeight c' = totalWeight c \<Longrightarrow> cfg c' = cfg c \<Longrightarrow> cache_inv c'"
  unfolding cache_inv_def weight_exact_def within_size_def within_weight_def by metis

lemma cache_inv_touch:
  assumes inv: "cache_inv c" and e: "map_of (cache c) k = Some e"
    and c': "cache c' = AList.delete k (cache c) @ [(k, e)]" "totalWeight c' = totalWeight c" "cfg c' = cfg c"
  shows "cache_inv c'"
proof -
  from inv have wf: "wf_map (cache c)" by (simp add: cache_inv_def)
  have len: "length (cache c') = length (cache c)"
    using length_delete_has[OF wf e] c'(1) by simp
  have w: "entries_weight (cache c') = entries_weight (cache c)"
    using entries_weight_delete[OF wf e] c'(1) by simp
  have "set (cache c') \<subseteq> set (cache c)"
    using e c'(1) by (auto simp: AList_delete_eq_filter dest: map_of_SomeD)
  moreover have "wf_map (cache c')" using wf c'(1) by (simp add: AList.delete_keys distinct_removeAll)
  ultimately show ?thesis using inv len w c'
    by (auto simp: cache_inv_def weight_exact_def nonneg_weights_def within_size_def within_weight_def)
qed

lemma cache_inv_lookup [inv_intros]: "cache_inv c \<Longrightarrow> cache_inv (snd (cache_lookup now k c))"
proof (cases "storageDisabled (cfg c) \<or> map_of (cache c) k = None")
  case True
  assume "cache_inv c"
  with True show ?thesis
    by (elim cache_inv_same) (auto simp: cache_lookup_effect cache_lookup_weight frame)
next
  case False
  then obtain e where e: "map_of (cache c) k = Some e" by auto
  assume inv: "cache_inv c"
  show ?thesis
  proof (cases "ttlMs (cfg c) \<noteq> -1 \<and> is_expired now e")
    case True
    with False e show ?thesis
      by (intro cache_inv_forget[OF inv e]) (auto simp: cache_lookup_effect cache_lookup_weight frame)
  next
    case False
    with \<open>\<not> (storageDisabled (cfg c) \<or> _)\<close> e show ?thesis
      by (intro cache_inv_touch[OF inv e]) (auto simp: cache_lookup_effect cache_lookup_weight frame)
  qed
qed

lemma cache_inv_has [inv_intros]: "cache_inv c \<Longrightarrow> cache_inv (snd (cache_has now k c))"
  by (auto simp: cache_has_def drop_if_expired_def frame remove_entry_def split: option.split
      intro: cache_inv_forget)

lemma cache_inv_delete [inv_intros]: "cache_inv c \<Longrightarrow> cache_inv (snd (cache_delete k c))"
  by (auto simp: cache_delete_def remove_entry_def frame split: option.split intro: cache_inv_forget)

lemma clear_fold_frame:
  "cfg (fold (\<lambda>(k, e) c. notify_evict k (entry_value e) Clear c) xs c) = cfg c"
  by (induction xs arbitrary: c) (auto simp: frame)

lemma cache_inv_clear [inv_intros]: "cache_inv (cache_clear c)"
  by (simp add: cache_clear_def Let_def cache_inv_def weight_exact_def nonneg_weights_def
      within_size_def within_weight_def le_max_iff_disj)

lemma cache_inv_destroy [inv_intros]: "cache_inv (cache_destroy c)"
  by (rule cache_inv_same[OF cache_inv_clear[of c]]) (simp_all add: cache_destroy_def)

lemma cache_clear_cfg [frame]: "cfg (cache_clear c) = cfg c" "cfg (cache_destroy c) = cfg c"
  by (simp_all add: cache_clear_def cache_destroy_def Let_def clear_fold_frame)

lemma cache_inv_set [inv_intros]:
  assumes inv: "cache_inv c" and nonneg: "weigh_nonneg (cfg c)"
  shows "cache_inv (cache_set now k v c)"
proof (cases "storageDisabled (cfg c)")
  case True
  with inv show ?thesis by (simp add: cache_set_def)
next
  case False
  let ?c' = "cache_set now k v c" and ?e = "entry_for now v (cfg c)"
  define base where "base = set_base now k c"
  define roomy where "roomy =
    (if maxSize (cfg c) \<noteq> -1 \<and> maxSize (cfg c) \<le> int (length base) then tl base else base)"
  from inv have wf: "wf_map (cache c)" and ex: "weight_exact c" by (simp_all add: cache_inv_def)
  note eff = cache_set_effect[OF wf ex False, of now k v, folded base_def, folded roomy_def]
  from eff(1) obtain n where n: "cache ?c' = drop n roomy @ [(k, ?e)]" by blast
  have len: "length base \<le> length (cache c)" by (simp add: base_def set_base_def)
  have rsub: "set roomy \<subseteq> set (cache c)"
    by (auto simp: roomy_def base_def set_base_def dest: in_set_tlD)
  then have csub: "set (cache ?c') \<subseteq> insert (k, ?e) (set (cache c))"
    using n set_drop_subset[of n roomy] by auto
  have wfr: "wf_map roomy" "k \<notin> set (keys roomy)"
    using wf set_base_fresh[of k now c] by (auto simp: roomy_def base_def map_tl distinct_tl dest: in_set_tlD)
  have "wf_map (cache ?c')"
    using wfr n by (auto simp: drop_map[symmetric] simp del: drop_map dest: in_set_dropD)
  moreover have "nonneg_weights (cache ?c')"
    using inv csub entry_for_weight[OF nonneg] by (fastforce simp: cache_inv_def nonneg_weights_def)
  moreover have "within_size ?c'"
    using inv len n wf ex by (auto simp: cache_inv_def within_size_def roomy_def frame)
  moreover have "within_weight ?c'"
    using eff(3) wf ex by (auto simp: within_weight_def frame)
  ultimately show ?thesis using eff(2) by (simp add: cache_inv_def)
qed

inductive cache_reach :: "'v cache_config \<Rightarrow> ('k, 'v) memory_cache \<Rightarrow> bool" for conf where
  reach_new: "cache_reach conf (new_cache conf)"
| reach_has: "cache_reach conf c \<Longrightarrow> cache_reach conf (snd (cache_has now k c))"
| reach_lookup: "cache_reach conf c \<Longrightarrow> cache_reach conf (snd (cache_lookup now k c))"
| reach_set: "cache_reach conf c \<Longrightarrow> cache_reach conf (cache_set now k v c)"
| reach_delete: "cache_reach conf c \<Longrightarrow> cache_reach conf (snd (cache_delete k c))"
| reach_clear: "cache_reach conf c \<Longrightarrow> cache_reach conf (cache_clear c)"
| reach_destroy: "cache_reach conf c \<Longrightarrow> cache_reach conf (cache_destroy c)"

lemma cache_has_cfg [frame]: "cfg (snd (cache_has now k c)) = cfg c"
  by (auto simp: cache_has_def drop_if_expired_def frame split: option.split)

lemma cache_delete_cfg [frame]: "cfg (snd (cache_delete k c)) = cfg c"
  by (auto simp: cache_delete_def remove_entry_def frame split: option.split)

lemma cache_reach_inv:
  assumes "cache_reach conf c" and "weigh_nonneg conf"
  shows "cache_inv c \<and> cfg c = conf"
  using assms
proof (induction rule: cache_reach.induct)
  case reach_new
  then show ?case by (simp add: cache_inv_new) (simp add: new_cache_def)
next
  case (reach_set c now k v)
  then have inv: "cache_inv c" and conf: "cfg c = conf" by simp_all
  with reach_set.prems have "cache_inv (cache_set now k v c)" by (simp add: cache_inv_set)
  with inv conf show ?case by (simp add: cache_inv_def frame)
qed (simp_all add: frame inv_intros)

text \<open>
  C1. In every cache reached by its operations from an empty one, no key is stored twice, the
  running total weight is the sum of the entries' weights, the entry count never passes the
  entry limit (a limit below 1 still holds one entry), and the weight budget is kept unless a
  single entry is alone in the cache.
\<close>

theorem cache_reach_bounded:
  assumes "cache_reach conf c" and "weigh_nonneg conf"
  shows "distinct (cache_keys c) \<and> totalWeight c = entries_weight (cache c)
     \<and> (maxSize conf = -1 \<or> int (cache_size c) \<le> max 1 (maxSize conf))
     \<and> (maxWeight conf = -1 \<or> totalWeight c \<le> maxWeight conf \<or> cache_size c \<le> 1)"
proof -
  from cache_reach_inv[OF assms] have "cache_inv c" "cfg c = conf" by simp_all
  then show ?thesis
    by (auto simp: cache_inv_def weight_exact_def within_size_def within_weight_def cache_keys_def cache_size_def)
qed

definition sample_config :: "nat cache_config" where
  "sample_config = \<lparr>ttlMs = 100, maxSize = 2, maxWeight = 10, weigh = Some int, onEvict = True,
     sweepMs = 100, storageDisabled = False, dedupDisabled = False\<rparr>"

definition sample_cache :: "(string, nat) memory_cache" where
  "sample_cache = cache_set 3 ''c'' 5 (cache_set 2 ''b'' 4 (cache_set 1 ''a'' 3 (new_cache sample_config)))"

lemmas cache_eval = cache_set_def sweep_if_due_def sweep_def sweep_entry_def is_expired_def remove_entry_def
  make_room_def evict_oldest_def notify_evict_def insert_entry_def entry_for_def new_cache_def
  evict_over_weight.simps

lemma sample_cache_reach: "cache_reach sample_config sample_cache"
  unfolding sample_cache_def by (intro cache_reach.intros)

theorem cache_reach_bounded_witness:
  "distinct (cache_keys sample_cache) \<and> int (cache_size sample_cache) \<le> 2 \<and> totalWeight sample_cache \<le> 10 \<or>
   cache_size sample_cache \<le> 1"
  using cache_reach_bounded[OF sample_cache_reach]
  by (auto simp: weigh_nonneg_def sample_config_def)

subsection \<open>Reads after writes\<close>

lemma cache_set_drops:
  assumes "wf_map (cache c)" and "weight_exact c" and "\<not> storageDisabled (cfg c)"
  shows "\<exists>n. cache (cache_set now k v c) = drop n (set_base now k c) @ [(k, entry_for now v (cfg c))]"
proof -
  have tl: "\<exists>m. drop n (if b then tl xs else xs) = drop m xs" for n b and xs :: "'z list"
    by (cases b) (auto simp: drop_Suc[symmetric])
  from cache_set_effect(1)[OF assms, of now k v] tl show ?thesis by metis
qed

lemma cache_set_map_of:
  assumes "wf_map (cache c)" and "weight_exact c" and "\<not> storageDisabled (cfg c)"
  shows "map_of (cache (cache_set now k v c)) k = Some (entry_for now v (cfg c))"
    and "x \<noteq> k \<Longrightarrow> map_of (cache (cache_set now k v c)) x = Some e \<Longrightarrow> map_of (cache c) x = Some e"
    and "wf_map (cache (cache_set now k v c))"
proof -
  define roomy where "roomy = set_base now k c"
  obtain n where n: "cache (cache_set now k v c) = drop n roomy @ [(k, entry_for now v (cfg c))]"
    using cache_set_drops[OF assms, of now k v] unfolding roomy_def by blast
  have wfr: "wf_map roomy" "k \<notin> set (keys roomy)" "set roomy \<subseteq> set (cache c)"
    using assms(1) set_base_fresh[of k now c] by (auto simp: roomy_def set_base_def)
  then have fresh: "k \<notin> set (keys (drop n roomy))" by (auto dest: in_set_dropD)
  then show "map_of (cache (cache_set now k v c)) k = Some (entry_for now v (cfg c))"
    by (simp add: n map_add_Some_iff map_of_eq_None_iff)
  show "wf_map (cache (cache_set now k v c))"
    using wfr(1) fresh by (simp add: n drop_map[symmetric] del: drop_map)
  show "map_of (cache c) x = Some e"
    if "x \<noteq> k" "map_of (cache (cache_set now k v c)) x = Some e"
  proof -
    from that have "(x, e) \<in> set (drop n roomy)"
      by (auto simp: n map_add_Some_iff dest: map_of_SomeD split: if_splits)
    with wfr(3) have "(x, e) \<in> set (cache c)" by (auto dest: in_set_dropD)
    with assms(1) show ?thesis by simp
  qed
qed

text \<open>The cache as a store that may forget: the interface its bounded clients rely on.\<close>

definition cached_value :: "('k, 'v) memory_cache \<Rightarrow> 'k \<Rightarrow> 'v option" where
  "cached_value c k = map_option entry_value (map_of (cache c) k)"

definition live_cache :: "('k, 'v) memory_cache \<Rightarrow> bool" where
  "live_cache c \<longleftrightarrow> wf_map (cache c) \<and> weight_exact c \<and> \<not> storageDisabled (cfg c)"

lemma live_cache_set: "live_cache c \<Longrightarrow> live_cache (cache_set now k v c)"
  by (auto simp: live_cache_def frame cache_set_map_of intro: cache_set_effect(2))

lemma live_cache_delete: "live_cache c \<Longrightarrow> live_cache (snd (cache_delete k c))"
  by (auto simp: live_cache_def cache_delete_def remove_entry_def frame weight_exact_def
      entries_weight_delete AList.delete_keys distinct_removeAll split: option.split)

lemma cache_delete_map_of:
  "map_of (cache (snd (cache_delete k c))) x = (if x = k then None else map_of (cache c) x)"
  by (auto simp: cache_delete_def remove_entry_def frame map_of_delete_eq split: option.split)

lemma cached_value_set_same: "live_cache c \<Longrightarrow> cached_value (cache_set now k v c) k = Some v"
  unfolding cached_value_def live_cache_def
  by (subst cache_set_map_of(1)) (simp_all add: entry_for_def)

lemma cached_value_set_other:
  assumes "live_cache c" and "x \<noteq> k" and "cached_value (cache_set now k v c) x = Some w"
  shows "cached_value c x = Some w"
proof -
  from assms(3) obtain e where e: "map_of (cache (cache_set now k v c)) x = Some e" "w = entry_value e"
    unfolding cached_value_def by blast
  have "map_of (cache c) x = Some e"
    using assms(1) by (intro cache_set_map_of(2)[OF _ _ _ assms(2) e(1)]) (simp_all add: live_cache_def)
  with e(2) show ?thesis unfolding cached_value_def by simp
qed

lemma cached_value_delete: "cached_value (snd (cache_delete k c)) x = (if x = k then None else cached_value c x)"
  unfolding cached_value_def cache_delete_map_of by simp

interpretation bounded_cache: lossy_store cached_value "cache_set now" "\<lambda>k c. snd (cache_delete k c)" live_cache
  for now
proof (rule lossy_store.intro, goal_cases)
  case (2 s x k v w)
  then show ?case by (rule cached_value_set_other)
qed (simp_all add: cached_value_set_same live_cache_set live_cache_delete cached_value_delete)

text \<open>
  A value just written is read back until its time to live is over, whatever the limits
  evicted to make room for it; after that the read is a miss that drops the entry.
\<close>

theorem get_after_set:
  assumes "live_cache c"
  shows "fst (cache_get later k (cache_set now k v c)) =
     (if ttlMs (cfg c) \<noteq> -1 \<and> now + ttlMs (cfg c) < later then None else Some v)"
  using assms cache_set_map_of(1)[of c now k v]
  by (auto simp: live_cache_def cache_get_def cache_lookup_effect frame entry_for_def is_expired_def)

theorem get_after_set_witness:
  "fst (cache_get 101 ''a'' (cache_set 1 ''a'' 3 (new_cache sample_config))) = Some 3 \<and>
   fst (cache_get 102 ''a'' (cache_set 1 ''a'' 3 (new_cache sample_config))) = None"
proof -
  have live: "live_cache (new_cache sample_config :: (string, nat) memory_cache)"
    by (simp add: live_cache_def new_cache_def weight_exact_def sample_config_def)
  show ?thesis
    using get_after_set[OF live, of 101 "''a''" 1 3] get_after_set[OF live, of 102 "''a''" 1 3]
    by (simp add: new_cache_def sample_config_def)
qed



subsection \<open>Every evicted value is reported once\<close>

definition account :: "('k, 'v) memory_cache \<Rightarrow> ('k \<times> 'v) multiset" where
  "account c = mset (cache_entries c) + mset (evict_log c)"

lemma entries_delete:
  "wf_map m \<Longrightarrow> map_of m k = Some e \<Longrightarrow>
     mset (map (\<lambda>(k, e). (k, entry_value e)) m) =
       add_mset (k, entry_value e) (mset (map (\<lambda>(k, e). (k, entry_value e)) (AList.delete k m)))"
proof (induction m)
  case (Cons p m)
  then show ?case by (cases p; cases "fst p = k") (auto simp: AList.delete_id)
qed simp

lemma account_remove_notify:
  assumes "wf_map (cache c)" and "onEvict (cfg c)" and "map_of (cache c) k = Some e"
  shows "account (notify_evict k (entry_value e) r (snd (remove_entry k c))) = account c"
proof -
  have log: "evict_log (notify_evict k (entry_value e) r d) = evict_log d @ [(k, entry_value e)]"
    if "onEvict (cfg d)" for d :: "('a, 'b) memory_cache"
    using that by (simp add: notify_evict_def Let_def)
  show ?thesis
    using assms entries_delete[OF assms(1,3)]
    by (simp add: account_def cache_entries_def log frame)
qed

lemma account_evict_oldest:
  assumes "wf_map (cache c)" and "onEvict (cfg c)"
  shows "account (evict_oldest now c) = account c"
proof (cases "cache c")
  case (Cons p rest)
  then obtain k e where c: "cache c = (k, e) # rest" by (cases p) auto
  then have m: "map_of (cache c) k = Some e" by simp
  have "evict_oldest now c = notify_evict k (entry_value e)
      (if ttlMs (cfg c) \<noteq> -1 \<and> is_expired now e then Ttl else Lru) (snd (remove_entry k c))"
    using c by (auto simp: evict_oldest_def remove_entry_def)
  then show ?thesis using account_remove_notify[OF assms m] by simp
qed (simp add: evict_oldest_def)

lemma account_evict_over_weight:
  "wf_map (cache c) \<Longrightarrow> onEvict (cfg c) \<Longrightarrow> account (evict_over_weight now keep c) = account c"
proof (induction now keep c rule: evict_over_weight.induct)
  case (1 now keep c)
  show ?case
  proof (cases "maxWeight (cfg c) \<noteq> -1 \<and> totalWeight c > maxWeight (cfg c) \<and> cache c \<noteq> [] \<and> fst (hd (cache c)) \<noteq> keep")
    case True
    then obtain k e rest where c: "cache c = (k, e) # rest" "k \<noteq> keep" by (cases "cache c") auto
    have unf: "evict_over_weight now keep c = evict_over_weight now keep (evict_oldest now c)"
      using True c by (subst evict_over_weight.simps) auto
    have "wf_map (cache (evict_oldest now c))"
      using 1(2) c by (simp add: cache_evict_oldest_tl del: cache_evict_oldest)
    with True c 1 show ?thesis
      by (simp add: unf frame account_evict_oldest del: cache_evict_oldest)
  next
    case False
    then have "evict_over_weight now keep c = c"
      by (subst evict_over_weight.simps) (auto split: list.split)
    then show ?thesis by simp
  qed
qed

lemma account_sweep_fold:
  "wf_map (cache c) \<Longrightarrow> onEvict (cfg c) \<Longrightarrow> wf_map xs \<Longrightarrow> set xs \<subseteq> set (cache c) \<Longrightarrow>
     account (fold (sweep_entry now) xs c) = account c"
proof (induction xs arbitrary: c)
  case (Cons p xs)
  then have m: "map_of (cache c) (fst p) = Some (snd p)" by (cases p) simp
  have "account (sweep_entry now p c) = account c"
    using Cons.prems account_remove_notify[OF _ _ m] by (simp add: sweep_entry_def)
  moreover have "set xs \<subseteq> set (cache (sweep_entry now p c))"
    using Cons.prems by (auto simp: cache_sweep_entry AList_delete_eq_filter rev_image_eqI)
  moreover have "wf_map (cache (sweep_entry now p c))"
    using Cons.prems(1) by (simp add: cache_sweep_entry AList.delete_keys distinct_removeAll)
  ultimately show ?case using Cons by (simp add: frame)
qed simp

lemma account_sweep_if_due:
  assumes "wf_map (cache c)" and "onEvict (cfg c)"
  shows "account (sweep_if_due now c) = account c"
proof -
  have "account (fold (sweep_entry now) (cache c) (c\<lparr>lastSweepAt := now\<rparr>)) = account c"
    using account_sweep_fold[of "c\<lparr>lastSweepAt := now\<rparr>" "cache c" now] assms
    by (simp add: account_def cache_entries_def)
  then show ?thesis by (simp add: sweep_if_due_def sweep_def)
qed

lemma account_remove:
  assumes "wf_map (cache c)"
  shows "account (snd (remove_entry k c)) +
     (case map_of (cache c) k of None \<Rightarrow> {#} | Some e \<Rightarrow> {#(k, entry_value e)#}) = account c"
  using entries_delete[OF assms, of k]
  by (auto simp: account_def cache_entries_def remove_entry_def split: option.split)

lemma account_insert:
  "k \<notin> set (keys (cache c)) \<Longrightarrow> account (insert_entry k e c) = account c + {#(k, entry_value e)#}"
  by (simp add: account_def cache_entries_def insert_entry_def update_fresh)

definition overwritten :: "int \<Rightarrow> 'k \<Rightarrow> ('k, 'v) memory_cache \<Rightarrow> ('k \<times> 'v) multiset" where
  "overwritten now k c =
     (case map_of (cache c) k of
        None \<Rightarrow> {#}
      | Some e \<Rightarrow> if sweep_due now c \<and> is_expired now e then {#} else {#(k, entry_value e)#})"

text \<open>
  With an eviction callback, a write accounts for every value: what is in the cache and
  what the callback has been told, together, change by the value written and by the value it
  overwrites, and by nothing else. The overwritten value is the one that is never reported.
\<close>

theorem set_accounts_for_every_value:
  assumes "live_cache c" and "onEvict (cfg c)"
  shows "account (cache_set now k v c) + overwritten now k c = account c + {#(k, v)#}"
proof -
  from assms have wf: "wf_map (cache c)" and ex: "weight_exact c" and on: "\<not> storageDisabled (cfg c)"
    by (simp_all add: live_cache_def)
  let ?s = "sweep_if_due now c"
  let ?r = "snd (remove_entry k ?s)"
  let ?m = "make_room now ?r"
  let ?i = "insert_entry k (entry_for now v (cfg ?s)) ?m"
  have s: "wf_map (cache ?s)" "cfg ?s = cfg c" using wf ex by (simp_all add: sweep_if_due_effect)
  have r: "wf_map (cache ?r)" "cfg ?r = cfg c" "k \<notin> set (keys (cache ?r))"
    using s by (simp_all add: frame AList.delete_keys distinct_removeAll)
  have m: "account ?m = account ?r" "cfg ?m = cfg c" "wf_map (cache ?m)" "k \<notin> set (keys (cache ?m))"
    using r assms(2)
    by (auto simp: make_room_def account_evict_oldest frame cache_evict_oldest_tl map_tl distinct_tl
        simp del: cache_evict_oldest cache_remove_entry dest: in_set_tlD)
  have i: "account ?i = account ?m + {#(k, v)#}" "cfg ?i = cfg c" "wf_map (cache ?i)"
    using m by (simp_all add: account_insert entry_for_def) (simp_all add: insert_entry_def)
  have "account (cache_set now k v c) = account ?i"
    using on s i assms(2) by (simp add: cache_set_def account_evict_over_weight)
  moreover have "overwritten now k c =
      (case map_of (cache ?s) k of None \<Rightarrow> {#} | Some e \<Rightarrow> {#(k, entry_value e)#})"
    using wf ex by (simp add: overwritten_def sweep_if_due_effect filter_map_of split: option.split)
  ultimately show ?thesis
    using i(1) m(1) account_remove[OF s(1), of k] account_sweep_if_due[OF wf assms(2), of now]
    by (simp add: add_ac)
qed

theorem set_accounts_for_every_value_witness:
  "account (cache_set 2 ''a'' 4 (cache_set 1 ''a'' 3 (new_cache sample_config)))
     + overwritten 2 ''a'' (cache_set 1 ''a'' 3 (new_cache sample_config))
   = account (cache_set 1 ''a'' 3 (new_cache sample_config)) + {#(''a'', 4)#}"
proof -
  have live: "live_cache (new_cache sample_config :: (string, nat) memory_cache)"
    by (simp add: live_cache_def new_cache_def weight_exact_def sample_config_def)
  then have "live_cache (cache_set 1 ''a'' 3 (new_cache sample_config))" by (rule live_cache_set)
  then show ?thesis
    by (rule set_accounts_for_every_value)
      (simp add: new_cache_def weight_exact_def sample_config_def frame)
qed

end
