(* ===== verification/Cache_Loads.thy ===== *)
theory Cache_Loads
  imports Cache_Laws
begin

section \<open>Coalesced loads of the memory cache\<close>

text \<open>
  The asynchronous half of \<^verbatim>\<open>MemoryCache\<close>: \<^verbatim>\<open>getOrSet\<close>, \<^verbatim>\<open>getOrRun\<close>,
  \<^verbatim>\<open>getOrSetMany\<close>, \<^verbatim>\<open>trackLoad\<close> and \<^verbatim>\<open>runBatchLoader\<close>. A call
  runs without interruption up to its first \<^verbatim>\<open>await\<close>; a load then makes two more steps,
  the end of its body (which stores the value) and its \<^verbatim>\<open>finally\<close> block (which clears
  \<^verbatim>\<open>pending\<close>). Every interleaving of those steps is a run of \<open>load_step\<close>.

  A promise is the number of its load; the per-key promises of one batch load share the number
  of the batch, as they settle with it. The loader is the caller's code: that it is called is a
  started load, what it returns is the argument of the step that ends the body.
\<close>

subsection \<open>State\<close>

datatype 'k load_kind = Store_one 'k | Run_one 'k | Store_many "'k list"

datatype load_phase = Loading | Body_done

record ('k, 'v) load_state =
  store :: "('k, 'v) memory_cache"
  loads :: "(nat, 'k load_kind \<times> load_phase) jsmap"
  next_promise :: nat

datatype 'v call_result = Value 'v | Promise nat

definition load_keys :: "'k load_kind \<Rightarrow> 'k list" where
  "load_keys l = (case l of Store_one k \<Rightarrow> [k] | Run_one k \<Rightarrow> [k] | Store_many ks \<Rightarrow> ks)"

subsection \<open>Starting a load\<close>

definition start_load :: "'k load_kind \<Rightarrow> ('k, 'v) load_state \<Rightarrow> ('k, 'v) load_state" where
  "start_load l s =
     s\<lparr>loads := AList.update (next_promise s) (l, Loading) (loads s), next_promise := Suc (next_promise s)\<rparr>"

definition register_pending :: "'k list \<Rightarrow> nat \<Rightarrow> ('k, 'v) load_state \<Rightarrow> ('k, 'v) load_state" where
  "register_pending ks p s =
     s\<lparr>store := (store s)\<lparr>pending := fold (\<lambda>k m. AList.update k p m) ks (pending (store s))\<rparr>\<rparr>"

definition trackLoad :: "'k load_kind \<Rightarrow> ('k, 'v) load_state \<Rightarrow> 'v call_result \<times> ('k, 'v) load_state" where
  "trackLoad l s =
     (let p = next_promise s; s1 = start_load l s in
      if dedupDisabled (cfg (store s)) then (Promise p, s1)
      else (Promise p, register_pending (load_keys l) p s1))"

definition getOrSet :: "int \<Rightarrow> 'k \<Rightarrow> ('k, 'v) load_state \<Rightarrow> 'v call_result \<times> ('k, 'v) load_state" where
  "getOrSet now k s =
     (case cache_lookup now k (store s) of
        (Some v, c) \<Rightarrow> (Value v, s\<lparr>store := c\<rparr>)
      | (None, c) \<Rightarrow>
          (case map_of (pending c) k of
             Some p \<Rightarrow> (Promise p, s\<lparr>store := c\<rparr>)
           | None \<Rightarrow> trackLoad (Store_one k) (s\<lparr>store := c\<rparr>)))"

definition getOrRun :: "'k \<Rightarrow> ('k, 'v) load_state \<Rightarrow> 'v call_result \<times> ('k, 'v) load_state" where
  "getOrRun k s =
     (case map_of (pending (store s)) k of
        Some p \<Rightarrow> (Promise p, s)
      | None \<Rightarrow> trackLoad (Run_one k) s)"

text \<open>
  A loader that throws before it returns a promise: the \<^verbatim>\<open>finally\<close> block of
  \<^verbatim>\<open>trackLoad\<close> then runs before \<^verbatim>\<open>pending\<close> is set, and no load is left that would
  clear it. Only \<^verbatim>\<open>getOrRun\<close> passes the caller's loader unwrapped.
\<close>

definition getOrRun_throwing :: "'k \<Rightarrow> ('k, 'v) load_state \<Rightarrow> 'v call_result \<times> ('k, 'v) load_state" where
  "getOrRun_throwing k s =
     (case map_of (pending (store s)) k of
        Some p \<Rightarrow> (Promise p, s)
      | None \<Rightarrow>
          (let p = next_promise s; c = store s in
           if dedupDisabled (cfg c) then (Promise p, s\<lparr>next_promise := Suc p\<rparr>)
           else (Promise p,
                 s\<lparr>store := c\<lparr>pending := AList.update k p (AList.delete k (pending c))\<rparr>,
                   next_promise := Suc p\<rparr>)))"

definition peekPending :: "'k \<Rightarrow> ('k, 'v) load_state \<Rightarrow> nat option" where
  "peekPending k s = map_of (pending (store s)) k"

definition createInFlightCache :: "bool \<Rightarrow> bool \<Rightarrow> ('k, 'v) load_state" where
  "createInFlightCache no_storage no_dedup =
     \<lparr>store = new_cache (cache_config_of no_storage no_dedup
        \<lparr>opt_ttlMs = Some (-1), opt_maxSize = Some (-1), opt_maxWeight = None, opt_weigh = None,
         opt_sweepIntervalMs = None, opt_onEvict = False\<rparr>),
      loads = [], next_promise = 0\<rparr>"

subsection \<open>The batch\<close>

text \<open>
  The first half of \<^verbatim>\<open>getOrSetMany\<close>: the cached values, the in-flight promises it shares
  and the keys it loads itself.
\<close>

definition split_missing :: "('k, nat) jsmap \<Rightarrow> 'k list \<Rightarrow> ('k \<times> nat) list \<times> 'k list" where
  "split_missing pend missing =
     (List.map_filter (\<lambda>k. map_option (\<lambda>p. (k, p)) (map_of pend k)) missing,
      filter (\<lambda>k. map_of pend k = None) missing)"

definition runBatchLoader :: "'k list \<Rightarrow> ('k, 'v) load_state \<Rightarrow> nat \<times> ('k, 'v) load_state" where
  "runBatchLoader ks s =
     (let p = next_promise s; s1 = start_load (Store_many ks) s in
      (p, if dedupDisabled (cfg (store s)) then s1 else register_pending ks p s1))"

record ('k, 'v) batch_wait =
  cached :: "('k, 'v) jsmap"
  awaiting :: "('k \<times> nat) list"
  batch :: "nat option"

definition getOrSetMany :: "int \<Rightarrow> 'k list \<Rightarrow> ('k, 'v) load_state \<Rightarrow> ('k, 'v) batch_wait \<times> ('k, 'v) load_state" where
  "getOrSetMany now ks s =
     (let (result, c) = cache_mget now ks (store s) [];
          missing = filter (\<lambda>k. map_of result k = None) ks;
          s1 = s\<lparr>store := c\<rparr> in
      if missing = [] then (\<lparr>cached = result, awaiting = [], batch = None\<rparr>, s1)
      else (let (wait, toLoad) = split_missing (pending c) missing in
            if toLoad = [] then (\<lparr>cached = result, awaiting = wait, batch = None\<rparr>, s1)
            else (case runBatchLoader toLoad s1 of
                    (p, s2) \<Rightarrow> (\<lparr>cached = result, awaiting = wait, batch = Some p\<rparr>, s2))))"

text \<open>
  The second half: all promises have settled; one rejection rejects the call. A key the batch
  loader left out is missing from \<open>loaded\<close>.
\<close>

fun all_settled :: "('k \<times> ('e + 'v)) list \<Rightarrow> 'e + ('k \<times> 'v) list" where
  "all_settled [] = Inr []"
| "all_settled ((k, Inl e) # rs) = Inl e"
| "all_settled ((k, Inr v) # rs) =
     (case all_settled rs of Inl e \<Rightarrow> Inl e | Inr kvs \<Rightarrow> Inr ((k, v) # kvs))"

definition getOrSetMany_result ::
  "('k, 'v) jsmap \<Rightarrow> ('k \<times> ('e + 'v)) list \<Rightarrow> 'e + ('k, 'v) jsmap \<Rightarrow> 'e + ('k, 'v) jsmap" where
  "getOrSetMany_result result shared loaded =
     (case all_settled shared of
        Inl e \<Rightarrow> Inl e
      | Inr kvs \<Rightarrow>
          (case loaded of
             Inl e \<Rightarrow> Inl e
           | Inr m \<Rightarrow> Inr (fold (\<lambda>(k, v). AList.update k v) m
                                (fold (\<lambda>(k, v). AList.update k v) kvs result))))"

subsection \<open>The end of a load\<close>

text \<open>The body of a batch load stores each requested key the loader returned a value for.\<close>

definition store_loaded ::
  "int \<Rightarrow> 'k list \<Rightarrow> ('k, 'v) jsmap \<Rightarrow> ('k, 'v) memory_cache \<Rightarrow> ('k, 'v) memory_cache" where
  "store_loaded now ks loaded c =
     fold (\<lambda>k c. case map_of loaded k of None \<Rightarrow> c | Some v \<Rightarrow> cache_set now k v c) ks c"

definition batch_settled :: "'k list \<Rightarrow> ('k, 'v) jsmap \<Rightarrow> ('k, 'v) jsmap" where
  "batch_settled ks loaded =
     fold (\<lambda>k m. case map_of loaded k of None \<Rightarrow> m | Some v \<Rightarrow> AList.update k v m) ks []"

text \<open>What another caller that shares the batch's promise for \<open>k\<close> receives.\<close>

definition per_key_outcome :: "'k \<Rightarrow> domain_error + ('k, 'v) jsmap \<Rightarrow> 'v result" where
  "per_key_outcome k outcome =
     (case outcome of
        Inl e \<Rightarrow> Inl e
      | Inr m \<Rightarrow> (case map_of m k of
                   None \<Rightarrow> Inl (DomainError Internal ''memory_cache.loader_value_missing'')
                 | Some v \<Rightarrow> Inr v))"

definition mark_done :: "nat \<Rightarrow> ('k, 'v) load_state \<Rightarrow> ('k, 'v) load_state" where
  "mark_done p s =
     (case map_of (loads s) p of
        None \<Rightarrow> s
      | Some (l, _) \<Rightarrow> s\<lparr>loads := AList.update p (l, Body_done) (loads s)\<rparr>)"

text \<open>\<open>values\<close>: the loader's values by key, or None when it rejected.\<close>

definition finish_body :: "int \<Rightarrow> nat \<Rightarrow> ('k, 'v) jsmap option \<Rightarrow> ('k, 'v) load_state \<Rightarrow> ('k, 'v) load_state" where
  "finish_body now p values s =
     (case map_of (loads s) p of
        Some (l, Loading) \<Rightarrow>
          (case values of
             None \<Rightarrow> mark_done p s
           | Some m \<Rightarrow>
               (case l of
                  Run_one k \<Rightarrow> mark_done p s
                | Store_one k \<Rightarrow>
                    (case map_of m k of
                       None \<Rightarrow> s
                     | Some v \<Rightarrow> mark_done p (s\<lparr>store := cache_set now k v (store s)\<rparr>))
                | Store_many ks \<Rightarrow> mark_done p (s\<lparr>store := store_loaded now ks m (store s)\<rparr>)))
      | _ \<Rightarrow> s)"

definition release_load :: "nat \<Rightarrow> ('k, 'v) load_state \<Rightarrow> ('k, 'v) load_state" where
  "release_load p s =
     (case map_of (loads s) p of
        Some (l, Body_done) \<Rightarrow>
          (let c = store s;
               clear = (case l of Store_many _ \<Rightarrow> True | _ \<Rightarrow> \<not> dedupDisabled (cfg c)) in
           s\<lparr>loads := AList.delete p (loads s),
             store := (if clear
               then c\<lparr>pending := fold AList.delete (load_keys l) (pending c)\<rparr> else c)\<rparr>)
      | _ \<Rightarrow> s)"

subsection \<open>Runs\<close>

inductive load_step :: "('k, 'v) load_state \<Rightarrow> ('k, 'v) load_state \<Rightarrow> bool" where
  step_getOrSet: "load_step s (snd (getOrSet now k s))"
| step_getOrRun: "load_step s (snd (getOrRun k s))"
| step_getOrSetMany: "load_step s (snd (getOrSetMany now ks s))"
| step_finish: "load_step s (finish_body now p values s)"
| step_release: "load_step s (release_load p s)"
| step_get: "load_step s (s\<lparr>store := snd (cache_lookup now k (store s))\<rparr>)"
| step_has: "load_step s (s\<lparr>store := snd (cache_has now k (store s))\<rparr>)"
| step_set: "load_step s (s\<lparr>store := cache_set now k v (store s)\<rparr>)"
| step_delete: "load_step s (s\<lparr>store := snd (cache_delete k (store s))\<rparr>)"
| step_clear: "load_step s (s\<lparr>store := cache_clear (store s)\<rparr>)"

inductive_cases load_stepE: "load_step s s'"

text \<open>The load \<open>p\<close> has not released the key \<open>k\<close> yet.\<close>

definition flying :: "('k, 'v) load_state \<Rightarrow> nat \<Rightarrow> 'k \<Rightarrow> bool" where
  "flying s p k = (case map_of (loads s) p of None \<Rightarrow> False | Some (l, _) \<Rightarrow> k \<in> set (load_keys l))"

definition loads_inv :: "('k, 'v) load_state \<Rightarrow> bool" where
  "loads_inv s \<longleftrightarrow>
     wf_map (cache (store s)) \<and> weight_exact (store s) \<and> \<not> dedupDisabled (cfg (store s))
     \<and> (\<forall>p. has p (loads s) \<longrightarrow> p < next_promise s)
     \<and> (\<forall>k p. map_of (pending (store s)) k = Some p \<longleftrightarrow> flying s p k)"

lemma fold_update_map_of:
  "map_of (fold (\<lambda>k. AList.update k p) ks m) k = (if k \<in> set ks then Some p else map_of m k)"
  by (induction ks arbitrary: m) (auto simp: map_of_update)

lemma fold_delete_map_of:
  "map_of (fold AList.delete ks m) k = (if k \<in> set ks then None else map_of m k)"
  by (induction ks arbitrary: m) (auto simp: map_of_delete_eq)

lemma loads_inv_frame:
  assumes "loads_inv s" and "wf_map (cache c)" and "weight_exact c" and "cfg c = cfg (store s)"
    and "pending c = pending (store s)"
  shows "loads_inv (s\<lparr>store := c\<rparr>)"
  using assms by (simp add: loads_inv_def flying_def)

lemma loads_inv_start:
  assumes inv: "loads_inv s" and new: "\<forall>k \<in> set (load_keys l). map_of (pending (store s)) k = None"
  shows "loads_inv (register_pending (load_keys l) (next_promise s) (start_load l s))"
proof -
  let ?s = "register_pending (load_keys l) (next_promise s) (start_load l s)"
  have fly: "flying ?s p k \<longleftrightarrow> (if p = next_promise s then k \<in> set (load_keys l) else flying s p k)" for p k
    by (simp add: flying_def register_pending_def start_load_def map_of_update)
  have "\<not> has (next_promise s) (loads s)" using inv by (auto simp: loads_inv_def)
  then have fresh: "\<not> flying s (next_promise s) k" for k by (auto simp: flying_def split: option.split)
  have "flying s p k \<Longrightarrow> map_of (pending (store s)) k = Some p" for p k
    using inv by (simp add: loads_inv_def)
  with new have other: "flying s p k \<Longrightarrow> k \<notin> set (load_keys l)" for p k by fastforce
  note old = fresh other
  have pend: "map_of (pending (store ?s)) k = (if k \<in> set (load_keys l) then Some (next_promise s) else map_of (pending (store s)) k)" for k
    by (simp add: register_pending_def start_load_def fold_update_map_of)
  have "(map_of (pending (store ?s)) k = Some p) = flying ?s p k" for k p
    using inv old by (auto simp: fly pend loads_inv_def)
  moreover have "has p (loads ?s) \<Longrightarrow> p < next_promise ?s" for p
    using inv by (auto simp: register_pending_def start_load_def map_of_update loads_inv_def less_Suc_eq split: if_splits)
  ultimately show ?thesis
    using inv by (simp add: loads_inv_def) (simp add: register_pending_def start_load_def weight_exact_def)
qed

lemma loads_inv_trackLoad:
  "loads_inv s \<Longrightarrow> \<forall>k \<in> set (load_keys l). map_of (pending (store s)) k = None \<Longrightarrow>
     loads_inv (snd (trackLoad l s))"
  using loads_inv_start[of s l] by (simp add: trackLoad_def Let_def) (simp add: loads_inv_def)

lemma wf_cache_lookup:
  "wf_map (cache c) \<Longrightarrow> wf_map (cache (snd (cache_lookup now k c)))"
  by (auto simp: cache_lookup_effect AList.delete_keys distinct_removeAll split: option.split)

lemma weight_cache_lookup:
  "wf_map (cache c) \<Longrightarrow> weight_exact c \<Longrightarrow> weight_exact (snd (cache_lookup now k c))"
  by (auto simp: weight_exact_def cache_lookup_effect cache_lookup_weight entries_weight_delete split: option.split)

lemma loads_inv_lookup: "loads_inv s \<Longrightarrow> loads_inv (s\<lparr>store := snd (cache_lookup now k (store s))\<rparr>)"
  by (rule loads_inv_frame) (simp_all add: frame wf_cache_lookup weight_cache_lookup loads_inv_def)

lemma loads_inv_mget:
  "loads_inv s \<Longrightarrow> store s = c \<Longrightarrow> loads_inv (s\<lparr>store := snd (cache_mget now ks c result)\<rparr>)
     \<and> pending (snd (cache_mget now ks c result)) = pending c"
proof (induction now ks c result arbitrary: s rule: cache_mget.induct)
  case (2 now k ks c result)
  obtain r c' where l: "cache_lookup now k c = (r, c')" by fastforce
  have inv: "loads_inv (s\<lparr>store := c'\<rparr>)" and p: "pending c' = pending c"
    using loads_inv_lookup[OF "2.prems"(1), of now k] "2.prems"(2) l cache_lookup_frame(2)[of now k c] by auto
  from 2(1,2)[OF l[symmetric]] inv p l show ?case by (cases r) force+
qed auto

text \<open>Changing the phase of a load, or its values, releases no key.\<close>

lemma loads_inv_mark_done: "loads_inv s \<Longrightarrow> loads_inv (mark_done p s)"
proof -
  assume inv: "loads_inv s"
  have "flying (mark_done p s) q k = flying s q k" for q k
    by (auto simp: mark_done_def flying_def map_of_update split: option.split)
  with inv show "loads_inv (mark_done p s)"
    by (auto simp: loads_inv_def) (auto simp: mark_done_def map_of_update split: option.splits if_splits)
qed

lemma loads_inv_set: "loads_inv s \<Longrightarrow> loads_inv (s\<lparr>store := cache_set now k v (store s)\<rparr>)"
proof (rule loads_inv_frame)
  assume inv: "loads_inv s"
  then have c: "wf_map (cache (store s))" "weight_exact (store s)" by (simp_all add: loads_inv_def)
  show "wf_map (cache (cache_set now k v (store s)))" "weight_exact (cache_set now k v (store s))"
    using c cache_set_map_of(3)[OF c] cache_set_effect(2)[OF c]
    by (cases "storageDisabled (cfg (store s))"; simp add: cache_set_def)+
qed (simp_all add: loads_inv_def frame)

lemma loads_inv_store_loaded:
  "loads_inv s \<Longrightarrow> loads_inv (s\<lparr>store := store_loaded now ks m (store s)\<rparr>)"
proof (induction ks arbitrary: s)
  case (Cons k ks)
  show ?case
  proof (cases "map_of m k")
    case (Some v)
    with Cons.IH[OF loads_inv_set[OF Cons.prems, of now k v]] show ?thesis by (simp add: store_loaded_def)
  qed (use Cons in \<open>simp add: store_loaded_def\<close>)
qed (simp add: store_loaded_def)

lemma loads_inv_finish: "loads_inv s \<Longrightarrow> loads_inv (finish_body now p values s)"
  by (auto simp: finish_body_def loads_inv_mark_done loads_inv_set loads_inv_store_loaded
      split: option.split load_phase.split load_kind.split)

lemma loads_inv_release:
  assumes inv: "loads_inv s"
  shows "loads_inv (release_load p s)"
proof (cases "\<exists>l. map_of (loads s) p = Some (l, Body_done)")
  case True
  then obtain l where l: "map_of (loads s) p = Some (l, Body_done)" by blast
  let ?s = "release_load p s"
  have s': "loads ?s = AList.delete p (loads s)" "next_promise ?s = next_promise s"
    "store ?s = (store s)\<lparr>pending := fold AList.delete (load_keys l) (pending (store s))\<rparr>"
    using l inv by (auto simp: release_load_def Let_def loads_inv_def split: load_kind.split)
  have fly: "flying ?s q k \<longleftrightarrow> q \<noteq> p \<and> flying s q k" for q k
    by (simp add: flying_def s' map_of_delete_eq)
  have flp: "flying s p k \<longleftrightarrow> k \<in> set (load_keys l)" for k by (simp add: flying_def l)
  have iff: "map_of (pending (store s)) k = Some q \<longleftrightarrow> flying s q k" for k q
    using inv by (simp add: loads_inv_def)
  have "map_of (pending (store ?s)) k = Some q \<longleftrightarrow> flying ?s q k" for k q
  proof (cases "k \<in> set (load_keys l)")
    case True
    then have "map_of (pending (store s)) k = Some p" using flp iff by simp
    with True iff[of k q] show ?thesis by (auto simp: fly s' fold_delete_map_of)
  next
    case False
    with flp iff show ?thesis by (auto simp: fly s' fold_delete_map_of)
  qed
  with inv show ?thesis
    by (auto simp: loads_inv_def s' weight_exact_def map_of_delete_eq split: if_splits)
next
  case False
  then have "release_load p s = s"
    by (auto simp: release_load_def split: option.split load_phase.split)
  with inv show ?thesis by simp
qed

lemma loads_inv_getOrSet: "loads_inv s \<Longrightarrow> loads_inv (snd (getOrSet now k s))"
  using loads_inv_lookup[of s now k] loads_inv_trackLoad[of "s\<lparr>store := snd (cache_lookup now k (store s))\<rparr>" "Store_one k"]
  by (auto simp: getOrSet_def load_keys_def split: prod.split option.split)

lemma loads_inv_getOrRun: "loads_inv s \<Longrightarrow> loads_inv (snd (getOrRun k s))"
  using loads_inv_trackLoad[of s "Run_one k"] by (auto simp: getOrRun_def load_keys_def split: option.split)

lemma loads_inv_getOrSetMany: "loads_inv s \<Longrightarrow> loads_inv (snd (getOrSetMany now ks s))"
proof -
  assume inv: "loads_inv s"
  obtain result c where m: "cache_mget now ks (store s) [] = (result, c)" by fastforce
  let ?s = "s\<lparr>store := c\<rparr>"
  let ?toLoad = "filter (\<lambda>k. map_of (pending c) k = None) (filter (\<lambda>k. map_of result k = None) ks)"
  have s: "loads_inv ?s" using loads_inv_mget[OF inv refl, of now ks "[]"] m by simp
  have "loads_inv (snd (runBatchLoader ?toLoad ?s))"
    using loads_inv_start[of ?s "Store_many ?toLoad"] s
    by (simp add: runBatchLoader_def Let_def load_keys_def) (simp add: loads_inv_def)
  with s show ?thesis
    by (auto simp: getOrSetMany_def m split_missing_def Let_def split: prod.split)
qed

lemma wf_cache_has: "wf_map (cache c) \<Longrightarrow> wf_map (cache (snd (cache_has now k c)))"
  by (auto simp: cache_has_def drop_if_expired_def frame AList.delete_keys distinct_removeAll split: option.split)

lemma cache_set_pending: "pending (cache_set now k v c) = pending c"
  by (simp add: cache_set_def frame insert_entry_def make_room_def sweep_if_due_def)

lemma clear_fold_pending:
  "pending (fold (\<lambda>(k, e). notify_evict k (entry_value e) Clear) xs c) = pending c"
  by (induction xs arbitrary: c) (auto simp: frame)

lemma other_ops_pending:
  "pending (snd (cache_has now k c)) = pending c" "pending (snd (cache_delete k c)) = pending c"
  "pending (cache_clear c) = pending c"
proof -
  show "pending (snd (cache_has now k c)) = pending c"
    by (auto simp: cache_has_def drop_if_expired_def frame split: option.split)
  show "pending (snd (cache_delete k c)) = pending c"
    by (auto simp: cache_delete_def remove_entry_def frame split: option.split)
  show "pending (cache_clear c) = pending c" by (simp add: cache_clear_def Let_def clear_fold_pending)
qed

lemma weight_cache_has:
  "wf_map (cache c) \<Longrightarrow> weight_exact c \<Longrightarrow> weight_exact (snd (cache_has now k c))"
  by (auto simp: cache_has_def drop_if_expired_def weight_exact_remove_entry split: option.split)

lemma delete_keeps:
  "wf_map (cache c) \<Longrightarrow> wf_map (cache (snd (cache_delete k c)))"
  "wf_map (cache c) \<Longrightarrow> weight_exact c \<Longrightarrow> weight_exact (snd (cache_delete k c))"
  by (auto simp: cache_delete_def remove_entry_def frame weight_exact_def entries_weight_delete
      AList.delete_keys distinct_removeAll split: option.split)

lemma clear_keeps: "wf_map (cache (cache_clear c))" "weight_exact (cache_clear c)"
  by (simp_all add: cache_clear_def Let_def weight_exact_def)

lemma load_step_inv: "load_step s s' \<Longrightarrow> loads_inv s \<Longrightarrow> loads_inv s'"
proof (induction rule: load_step.induct)
  case (step_has s now k)
  then show ?case
    by (intro loads_inv_frame) (simp_all add: frame other_ops_pending wf_cache_has weight_cache_has loads_inv_def)
next
  case (step_delete s k)
  then show ?case
    by (intro loads_inv_frame) (simp_all add: frame other_ops_pending delete_keeps loads_inv_def)
next
  case (step_clear s)
  then show ?case
    by (intro loads_inv_frame) (simp_all add: frame other_ops_pending clear_keeps)
qed (simp_all add: loads_inv_getOrSet loads_inv_getOrRun loads_inv_getOrSetMany loads_inv_finish
    loads_inv_release loads_inv_lookup loads_inv_set)

lemma load_run_inv: "load_step\<^sup>*\<^sup>* s s' \<Longrightarrow> loads_inv s \<Longrightarrow> loads_inv s'"
  by (induction rule: rtranclp_induct) (auto intro: load_step_inv)

definition idle :: "('k, 'v) memory_cache \<Rightarrow> ('k, 'v) load_state" where
  "idle c = \<lparr>store = c, loads = [], next_promise = 0\<rparr>"

lemma loads_inv_idle: "\<not> dedupDisabled conf \<Longrightarrow> loads_inv (idle (new_cache conf))"
  by (simp add: loads_inv_def idle_def new_cache_def weight_exact_def flying_def)



text \<open>
  A load that fails stores nothing, and once it has been released the next call for its key
  starts a fresh load: a failure is neither cached nor sticky.
\<close>

theorem failed_load_is_retried:
  assumes "load_step\<^sup>*\<^sup>* (idle (new_cache conf)) s" and "\<not> dedupDisabled conf"
    and "map_of (loads s) p = Some (l, Loading)" and "k \<in> set (load_keys l)"
  shows "let s' = release_load p (finish_body now p None s) in
     cache (store s') = cache (store s) \<and> peekPending k s' = None \<and>
     fst (getOrRun k s') = Promise (next_promise s) \<and> flying (snd (getOrRun k s')) (next_promise s) k"
proof -
  let ?f = "finish_body now p None s"
  let ?s = "release_load p ?f"
  have f: "?f = s\<lparr>loads := AList.update p (l, Body_done) (loads s)\<rparr>"
    using assms(3) by (simp add: finish_body_def mark_done_def)
  have inv: "loads_inv s" by (rule load_run_inv[OF assms(1) loads_inv_idle[OF assms(2)]])
  then have s': "cache (store ?s) = cache (store s)" "next_promise ?s = next_promise s"
    "dedupDisabled (cfg (store ?s)) = dedupDisabled (cfg (store s))"
    by (simp_all add: release_load_def f map_of_update Let_def)
  have "peekPending k ?s = None"
    using inv assms(4)
    by (simp add: peekPending_def release_load_def f map_of_update Let_def fold_delete_map_of loads_inv_def
        split: load_kind.split)
  with s' inv show ?thesis
    by (simp add: Let_def getOrRun_def peekPending_def trackLoad_def flying_def register_pending_def
        start_load_def map_of_update load_keys_def loads_inv_def)
qed

theorem failed_load_is_retried_witness:
  "let s = snd (getOrSet 1 ''a'' (idle (new_cache sample_config)));
       s' = release_load 0 (finish_body 2 0 None s) in
     peekPending ''a'' s' = None \<and> fst (getOrRun ''a'' s') = Promise 1"
proof -
  let ?s = "snd (getOrSet 1 ''a'' (idle (new_cache sample_config)))"
  have run: "load_step\<^sup>*\<^sup>* (idle (new_cache sample_config)) ?s"
    by (rule r_into_rtranclp) (rule step_getOrSet)
  have dedup: "\<not> dedupDisabled sample_config" by (simp add: sample_config_def)
  have l: "map_of (loads ?s) 0 = Some (Store_one ''a'', Loading)" "next_promise ?s = 1"
    by (simp_all add: getOrSet_def idle_def new_cache_def cache_lookup_def count_miss_def
        sample_config_def trackLoad_def start_load_def register_pending_def load_keys_def)
  show ?thesis
    using failed_load_is_retried[OF run dedup l(1), of "''a''" 2] l(2) by (simp add: Let_def load_keys_def)
qed

subsection \<open>A loader that throws before it returns a promise\<close>

definition orphaned :: "('k, 'v) load_state \<Rightarrow> nat \<Rightarrow> 'k \<Rightarrow> bool" where
  "orphaned s p k \<longleftrightarrow> peekPending k s = Some p \<and> p < next_promise s
     \<and> (\<forall>q. \<not> flying s q k)"

lemma orphaned_start:
  assumes "orphaned s p k" and "k \<notin> set (load_keys l)"
  shows "orphaned (register_pending (load_keys l) (next_promise s) (start_load l s)) p k"
    and "orphaned (start_load l s) p k"
  using assms
  by (auto simp: orphaned_def peekPending_def register_pending_def start_load_def flying_def
      fold_update_map_of map_of_update split: if_splits)

lemma orphaned_trackLoad: "orphaned s p k \<Longrightarrow> k \<notin> set (load_keys l) \<Longrightarrow> orphaned (snd (trackLoad l s)) p k"
  using orphaned_start[of s p k l] by (simp add: trackLoad_def Let_def)

lemma orphaned_store: "orphaned s p k \<Longrightarrow> pending c = pending (store s) \<Longrightarrow> orphaned (s\<lparr>store := c\<rparr>) p k"
  by (simp add: orphaned_def peekPending_def flying_def)

lemma orphaned_mark_done: "orphaned s p k \<Longrightarrow> orphaned (mark_done q s) p k"
  by (auto simp: orphaned_def peekPending_def mark_done_def flying_def map_of_update split: option.splits if_splits)

lemma store_loaded_pending: "pending (store_loaded now ks m c) = pending c"
  by (induction ks arbitrary: c) (auto simp: store_loaded_def cache_set_pending split: option.split)

lemma mget_pending: "pending (snd (cache_mget now ks c result)) = pending c"
  by (induction now ks c result rule: cache_mget.induct)
    (auto simp: split: prod.split option.split, (metis cache_lookup_frame(2) snd_conv)+)

lemma orphaned_getOrSetMany: "orphaned s p k \<Longrightarrow> orphaned (snd (getOrSetMany now ks s)) p k"
proof -
  assume o: "orphaned s p k"
  obtain result c where m: "cache_mget now ks (store s) [] = (result, c)" by fastforce
  let ?s = "s\<lparr>store := c\<rparr>"
  let ?toLoad = "filter (\<lambda>k. map_of (pending c) k = None) (filter (\<lambda>k. map_of result k = None) ks)"
  have c: "pending c = pending (store s)" using mget_pending[of now ks "store s" "[]"] m by simp
  with o have s: "orphaned ?s p k" by (rule orphaned_store)
  have "k \<notin> set ?toLoad" using s by (simp add: orphaned_def peekPending_def)
  then have "orphaned (snd (runBatchLoader ?toLoad ?s)) p k"
    using orphaned_start[OF s, of "Store_many ?toLoad"]
    by (simp add: runBatchLoader_def Let_def load_keys_def)
  with s show ?thesis by (auto simp: getOrSetMany_def m split_missing_def Let_def split: prod.split)
qed

lemma orphaned_finish: "orphaned s p k \<Longrightarrow> orphaned (finish_body now q values s) p k"
  by (auto simp: finish_body_def cache_set_pending store_loaded_pending
      intro!: orphaned_mark_done orphaned_store split: option.split load_phase.split load_kind.split)

lemma orphaned_release: "orphaned s p k \<Longrightarrow> orphaned (release_load q s) p k"
proof (cases "\<exists>l. map_of (loads s) q = Some (l, Body_done)")
  case True
  assume o: "orphaned s p k"
  from True obtain l where l: "map_of (loads s) q = Some (l, Body_done)" by blast
  with o have "\<not> flying s q k" by (simp add: orphaned_def)
  with l have "k \<notin> set (load_keys l)" by (simp add: flying_def)
  with o l show ?thesis
    by (simp add: orphaned_def peekPending_def release_load_def Let_def fold_delete_map_of flying_def map_of_delete_eq)
next
  case False
  then have "release_load q s = s"
    by (auto simp: release_load_def split: option.split load_phase.split)
  then show "orphaned s p k \<Longrightarrow> ?thesis" by simp
qed

lemma orphaned_getOrSet: "orphaned s p k \<Longrightarrow> orphaned (snd (getOrSet now x s)) p k"
proof -
  assume o: "orphaned s p k"
  obtain r c where m: "cache_lookup now x (store s) = (r, c)" by fastforce
  have c: "pending c = pending (store s)" using cache_lookup_frame(2)[of now x "store s"] m by simp
  with o have s: "orphaned (s\<lparr>store := c\<rparr>) p k" by (rule orphaned_store)
  then have "map_of (pending c) x = None \<Longrightarrow> x \<noteq> k" by (auto simp: orphaned_def peekPending_def)
  then have "map_of (pending c) x = None \<Longrightarrow> orphaned (snd (trackLoad (Store_one x) (s\<lparr>store := c\<rparr>))) p k"
    by (intro orphaned_trackLoad[OF s]) (simp add: load_keys_def)
  with s show ?thesis by (auto simp: getOrSet_def m split: option.split)
qed

lemma orphaned_getOrRun: "orphaned s p k \<Longrightarrow> orphaned (snd (getOrRun x s)) p k"
proof -
  assume o: "orphaned s p k"
  then have "map_of (pending (store s)) x = None \<Longrightarrow> x \<noteq> k" by (auto simp: orphaned_def peekPending_def)
  then have "map_of (pending (store s)) x = None \<Longrightarrow> orphaned (snd (trackLoad (Run_one x) s)) p k"
    by (intro orphaned_trackLoad[OF o]) (simp add: load_keys_def)
  with o show ?thesis by (auto simp: getOrRun_def split: option.split)
qed

lemma orphaned_step: "load_step s s' \<Longrightarrow> orphaned s p k \<Longrightarrow> orphaned s' p k"
  by (induction rule: load_step.induct)
    (simp_all add: orphaned_getOrSet orphaned_getOrRun orphaned_getOrSetMany orphaned_finish orphaned_release
      orphaned_store frame other_ops_pending cache_set_pending)

lemma orphaned_run: "load_step\<^sup>*\<^sup>* s s' \<Longrightarrow> orphaned s p k \<Longrightarrow> orphaned s' p k"
  by (induction rule: rtranclp_induct) (auto intro: orphaned_step)

text \<open>
  A loader given to \<^verbatim>\<open>getOrRun\<close> that throws before it returns a promise leaves its
  rejected promise registered: in every later run without \<^verbatim>\<open>destroy\<close> each call for the
  key is handed that same rejected promise and no load starts again.
\<close>

theorem throwing_loader_blocks_its_key:
  assumes "loads_inv s" and "peekPending k s = None"
    and "load_step\<^sup>*\<^sup>* (snd (getOrRun_throwing k s)) s'"
  shows "getOrRun k s' = (Promise (next_promise s), s')"
proof -
  have "\<not> flying s q k" for q
    using assms(1,2) by (metis loads_inv_def option.distinct(1) peekPending_def)
  then have "orphaned (snd (getOrRun_throwing k s)) (next_promise s) k"
    using assms(1,2)
    by (simp add: orphaned_def peekPending_def getOrRun_throwing_def Let_def map_of_update flying_def loads_inv_def)
  from orphaned_run[OF assms(3) this] show ?thesis
    by (simp add: orphaned_def peekPending_def getOrRun_def)
qed

theorem throwing_loader_blocks_its_key_witness:
  "fst (getOrRun ''a'' (snd (getOrRun_throwing ''a'' (idle (new_cache sample_config))))) = Promise 0"
proof -
  have inv: "loads_inv (idle (new_cache sample_config :: (string, nat) memory_cache))"
    by (rule loads_inv_idle) (simp add: sample_config_def)
  have idle: "peekPending ''a'' (idle (new_cache sample_config)) = None"
    by (simp add: peekPending_def idle_def new_cache_def)
  from throwing_loader_blocks_its_key[OF inv idle rtranclp.rtrancl_refl] show ?thesis
    by (simp add: idle_def)
qed

end
