(* ===== verification/Worker_Tables.thy ===== *)
theory Worker_Tables
  imports Complex_Main Prelude
begin

section \<open>The tables of the worker queue\<close>

text \<open>
  The rows of \<^verbatim>\<open>worker_jobs\<close> and \<^verbatim>\<open>worker_operations\<close>
  (\<^verbatim>\<open>integrations/drizzle-orm/schemas/worker.schema.ts\<close> and
  \<^verbatim>\<open>worker-operations.schema.ts\<close>), the counter updates of
  \<^verbatim>\<open>repositories/worker-operation/\<close>, and the contract the job transitions keep with them.

  A table is the list of its rows in insertion order. Row ids are opaque identifiers (the code
  draws time-ordered UUIDs) and are numbers here, so a test of an optional id for truthiness is
  a test for its presence. The columns declared with mode \<^verbatim>\<open>timestamp\<close> hold whole
  seconds: an instant in milliseconds is written and compared through \<open>secs\<close>. A SQL
  expression of an \<^verbatim>\<open>UPDATE\<close> reads the row before the update.
\<close>

type_synonym job_id = nat
type_synonym operation_id = nat

definition secs :: "int \<Rightarrow> int" where
  "secs ms = ms div 1000"

lemma secs_mono: "a \<le> b \<Longrightarrow> secs a \<le> secs b"
  by (simp add: secs_def zdiv_mono1)

datatype job_status = Pending | Running | Completed | Failed | Cancelled

datatype backoff_type = Fixed | Exponential

record job =
  job_id :: job_id
  workerId :: string
  operationId :: "operation_id option"
  dependsOnJobId :: "job_id option"
  dedupeKey :: "string option"
  referenceType :: "string option"
  referenceId :: "string option"
  data :: string
  status :: job_status
  progressPercent :: "rat option"
  priority :: int
  attempts :: int
  maxAttempts :: int
  backoffType :: backoff_type
  backoffDelayMs :: int
  leaseUntil :: "int option"
  runnerId :: "string option"
  claimToken :: "nat option"
  job_result :: "string option"
  job_error :: "string option"
  startedAt :: "int option"
  runAt :: int
  completedAt :: "int option"
  createdAt :: int
  updatedAt :: int

record operation =
  op_id :: operation_id
  op_type :: string
  op_status :: job_status
  op_referenceType :: "string option"
  op_referenceId :: "string option"
  cancelRequested :: bool
  totalItems :: int
  pendingItems :: int
  runningItems :: int
  completedItems :: int
  failedItems :: int
  cancelledItems :: int
  op_progress :: "int option"
  op_error :: "string option"
  op_startedAt :: "int option"
  op_completedAt :: "int option"
  retentionUntil :: "int option"
  op_createdAt :: int
  op_updatedAt :: int

record worker_db =
  jobs :: "job list"
  operations :: "operation list"

definition active :: "job_status \<Rightarrow> bool" where
  "active st \<longleftrightarrow> st = Pending \<or> st = Running"

definition terminal :: "job_status \<Rightarrow> bool" where
  "terminal st \<longleftrightarrow> st = Completed \<or> st = Failed \<or> st = Cancelled"

lemma terminal_iff_not_active: "terminal st \<longleftrightarrow> \<not> active st"
  by (cases st) (simp_all add: terminal_def active_def)

subsection \<open>Statements\<close>

text \<open>\<^verbatim>\<open>UPDATE ... SET ... WHERE ... RETURNING\<close> on one table.\<close>

definition update_where :: "('r \<Rightarrow> bool) \<Rightarrow> ('r \<Rightarrow> 'r) \<Rightarrow> 'r list \<Rightarrow> 'r list" where
  "update_where P f rows = map (\<lambda>r. if P r then f r else r) rows"

definition returning :: "('r \<Rightarrow> bool) \<Rightarrow> ('r \<Rightarrow> 'r) \<Rightarrow> 'r list \<Rightarrow> 'r list" where
  "returning P f rows = map f (filter P rows)"

definition update_jobs :: "(job \<Rightarrow> bool) \<Rightarrow> (job \<Rightarrow> job) \<Rightarrow> worker_db \<Rightarrow> worker_db" where
  "update_jobs P f db = db\<lparr>jobs := update_where P f (jobs db)\<rparr>"

definition updateOperation :: "operation_id \<Rightarrow> (operation \<Rightarrow> operation) \<Rightarrow> worker_db \<Rightarrow> worker_db" where
  "updateOperation oid f db = db\<lparr>operations := update_where (\<lambda>op. op_id op = oid) f (operations db)\<rparr>"

text \<open>Chunked statements: \<^verbatim>\<open>mapChunked\<close> and \<^verbatim>\<open>forEachChunked\<close> without a concurrency.\<close>

definition queryChunkSize :: nat where
  "queryChunkSize = 2000"

definition chunksFor :: "'a list \<Rightarrow> 'a list list" where
  "chunksFor xs = (if length xs \<le> queryChunkSize then [xs] else chunk xs queryChunkSize)"

definition mapChunked :: "'a list \<Rightarrow> ('a list \<Rightarrow> 'b list) \<Rightarrow> 'b list" where
  "mapChunked xs fn = (if xs = [] then [] else concat (map fn (chunksFor xs)))"

definition forEachChunked :: "'a list \<Rightarrow> ('a list \<Rightarrow> 's \<Rightarrow> 's) \<Rightarrow> 's \<Rightarrow> 's" where
  "forEachChunked xs fn s = (if xs = [] then s else fold fn (chunksFor xs) s)"

lemma concat_chunksFor [simp]: "concat (chunksFor xs) = xs"
  by (simp add: chunksFor_def)

text \<open>A query by membership returns the same rows chunked or not.\<close>

lemma in_mapChunked:
  assumes "\<And>c x. x \<in> set (fn c) \<longleftrightarrow> (\<exists>k \<in> set c. P k x)"
  shows "x \<in> set (mapChunked xs fn) \<longleftrightarrow> (\<exists>k \<in> set xs. P k x)"
proof (cases "xs = []")
  case False
  have "x \<in> set (concat (map fn cs)) \<longleftrightarrow> (\<exists>k \<in> set (concat cs). P k x)" for cs
    by (auto simp: assms)
  from this[of "chunksFor xs"] False show ?thesis by (simp add: mapChunked_def)
qed (simp add: mapChunked_def)

text \<open>An update by membership has the same effect chunked or not, when it leaves its own guard.\<close>

lemma update_where_chunks:
  assumes "\<And>r. \<not> Q (f r)"
  shows "fold (\<lambda>c. update_where (\<lambda>r. key r \<in> set c \<and> Q r) f) cs rows =
     update_where (\<lambda>r. key r \<in> set (concat cs) \<and> Q r) f rows"
proof (induction cs arbitrary: rows)
  case Nil
  then show ?case by (simp add: update_where_def)
next
  case (Cons c cs)
  then show ?case using assms by (auto simp: update_where_def)
qed

lemma fold_update_jobs:
  "jobs (fold (\<lambda>c. update_jobs (P c) f) cs db) = fold (\<lambda>c. update_where (P c) f) cs (jobs db)"
  "operations (fold (\<lambda>c. update_jobs (P c) f) cs db) = operations db"
  by (induction cs arbitrary: db) (simp_all add: update_jobs_def)

lemma forEachChunked_update_jobs:
  assumes "\<And>r. \<not> Q (f r)"
  shows "forEachChunked ids (\<lambda>c. update_jobs (\<lambda>r. job_id r \<in> set c \<and> Q r) f) db =
     update_jobs (\<lambda>r. job_id r \<in> set ids \<and> Q r) f db"
proof (cases "ids = []")
  case True
  then show ?thesis by (simp add: forEachChunked_def update_jobs_def update_where_def)
next
  case False
  then show ?thesis
    by (simp add: forEachChunked_def worker_db.equality fold_update_jobs update_jobs_def
        update_where_chunks[where Q = Q and f = f and key = job_id, OF assms])
qed

subsection \<open>Counter updates of an operation\<close>

text \<open>
  \<^verbatim>\<open>sql.builder.ts\<close>: the \<^verbatim>\<open>CASE\<close> frames shared by the writers. SQLite rounds
  half away from zero, which on a nonnegative ratio is the division below.
\<close>

definition progress_of :: "int \<Rightarrow> int \<Rightarrow> int" where
  "progress_of finished items = (200 * finished + items) div (2 * items)"

definition buildProgressPercentCase :: "int \<Rightarrow> int \<Rightarrow> operation \<Rightarrow> int option" where
  "buildProgressPercentCase running newFinished op =
     (if running > 0 then op_progress op
      else if totalItems op > 0 then Some (progress_of newFinished (totalItems op))
      else Some 100)"

definition buildStatusCase :: "int \<Rightarrow> job_status option \<Rightarrow> operation \<Rightarrow> job_status" where
  "buildStatusCase running branches op =
     (if op_status op = Cancelled then Cancelled
      else case branches of
             Some st \<Rightarrow> st
           | None \<Rightarrow> if running > 0 then Running else op_status op)"

definition buildCompletedAtCase :: "int \<Rightarrow> int \<Rightarrow> int \<Rightarrow> operation \<Rightarrow> int option" where
  "buildCompletedAtCase running newFinished now op =
     (if newFinished \<ge> totalItems op \<and> running = 0 then Some (secs now) else op_completedAt op)"

definition incrementTotalItems :: "int \<Rightarrow> int \<Rightarrow> operation \<Rightarrow> operation" where
  "incrementTotalItems now amount op =
     (if amount \<le> 0 then op
      else (let reopen = (op_status op = Completed \<or> op_status op = Failed) \<and> \<not> cancelRequested op in
        op\<lparr>totalItems := totalItems op + amount, pendingItems := pendingItems op + amount,
           op_status := (if reopen then Pending else op_status op),
           op_completedAt := (if reopen then None else op_completedAt op),
           op_updatedAt := secs now\<rparr>))"

definition op_updateProgress :: "int \<Rightarrow> rat \<Rightarrow> operation \<Rightarrow> operation" where
  "op_updateProgress now percent op =
     op\<lparr>op_progress := Some (clamp \<lfloor>percent + 1 / 2\<rfloor> 0 100), op_updatedAt := secs now\<rparr>"

definition markJobStarted :: "int \<Rightarrow> int \<Rightarrow> operation \<Rightarrow> operation" where
  "markJobStarted now amount op =
     (if amount \<le> 0 then op
      else op\<lparr>op_status := (if op_status op = Pending then Running else op_status op),
              pendingItems := max (pendingItems op - amount) 0,
              runningItems := runningItems op + amount,
              op_startedAt := (case op_startedAt op of None \<Rightarrow> Some (secs now) | Some t \<Rightarrow> Some t),
              op_updatedAt := secs now\<rparr>)"

definition markJobRetried :: "int \<Rightarrow> int \<Rightarrow> operation \<Rightarrow> operation" where
  "markJobRetried now amount op =
     (if amount \<le> 0 then op
      else op\<lparr>runningItems := max (runningItems op - amount) 0,
              pendingItems := pendingItems op + amount,
              op_status :=
                (if cancelRequested op \<or> op_status op = Cancelled then Cancelled
                 else if max (runningItems op - amount) 0 = 0 \<and> completedItems op = 0 then Pending
                 else op_status op),
              op_updatedAt := secs now\<rparr>)"

definition markJobFinished :: "job_status \<Rightarrow> int \<Rightarrow> int \<Rightarrow> operation \<Rightarrow> operation" where
  "markJobFinished jobStatus now amount op =
     (if amount \<le> 0 then op
      else
        (let newRunning = max (runningItems op - amount) 0;
             newCompleted = completedItems op + (if jobStatus = Completed then amount else 0);
             newFailed = failedItems op + (if jobStatus = Failed then amount else 0);
             newCancelled = cancelledItems op + (if jobStatus = Cancelled then amount else 0);
             newFinished = newCompleted + newFailed + newCancelled;
             branches =
               (if newFinished \<ge> totalItems op \<and> newRunning = 0 then
                  Some (if cancelRequested op \<or> newCancelled > 0 then Cancelled
                        else if newFailed > 0 then Failed else Completed)
                else if newRunning = 0 \<and> totalItems op - newFinished > 0 then Some Pending
                else None)
         in op\<lparr>runningItems := newRunning, completedItems := newCompleted, failedItems := newFailed,
               cancelledItems := newCancelled,
               op_progress := buildProgressPercentCase newRunning newFinished op,
               op_status := buildStatusCase newRunning branches op,
               op_completedAt := buildCompletedAtCase newRunning newFinished now op,
               op_updatedAt := secs now\<rparr>))"

definition markPendingJobsCancelled :: "int \<Rightarrow> int \<Rightarrow> operation \<Rightarrow> operation" where
  "markPendingJobsCancelled now amount op =
     (if amount \<le> 0 then op
      else
        (let newCancelled = cancelledItems op + amount;
             newFinished = completedItems op + failedItems op + newCancelled
         in op\<lparr>pendingItems := max (pendingItems op - amount) 0,
               cancelledItems := newCancelled,
               op_progress := buildProgressPercentCase (runningItems op) newFinished op,
               op_status := buildStatusCase (runningItems op)
                 (if newFinished \<ge> totalItems op \<and> runningItems op = 0 then Some Cancelled else None) op,
               op_completedAt := buildCompletedAtCase (runningItems op) newFinished now op,
               op_updatedAt := secs now\<rparr>))"

subsection \<open>Streaming slots and the life of an operation\<close>

definition attachable :: "operation_id \<Rightarrow> operation \<Rightarrow> bool" where
  "attachable oid op \<longleftrightarrow> op_id op = oid \<and> \<not> cancelRequested op \<and> op_status op \<noteq> Cancelled"

definition attach_slot :: "int \<Rightarrow> operation \<Rightarrow> operation" where
  "attach_slot now op =
     op\<lparr>op_status := Running, runningItems := runningItems op + 1, op_completedAt := None,
        op_updatedAt := secs now\<rparr>"

definition markStreamAttached :: "int \<Rightarrow> operation_id \<Rightarrow> worker_db \<Rightarrow> bool \<times> worker_db" where
  "markStreamAttached now oid db =
     (returning (attachable oid) (attach_slot now) (operations db) \<noteq> [],
      db\<lparr>operations := update_where (attachable oid) (attach_slot now) (operations db)\<rparr>)"

definition releaseStreamSlot :: "int \<Rightarrow> operation \<Rightarrow> operation" where
  "releaseStreamSlot now op =
     op\<lparr>runningItems := max (runningItems op - 1) 0, op_updatedAt := secs now\<rparr>"

definition completeStreamSlot :: "int \<Rightarrow> operation \<Rightarrow> operation" where
  "completeStreamSlot now op =
     (let newRunning = max (runningItems op - 1) 0;
          newFinished = completedItems op + failedItems op + cancelledItems op;
          isIdleAndDone = newRunning = 0 \<and> totalItems op > 0 \<and> newFinished \<ge> totalItems op
            \<and> \<not> cancelRequested op \<and> op_status op \<noteq> Cancelled
      in op\<lparr>runningItems := newRunning,
            op_status := (if isIdleAndDone then Completed else op_status op),
            op_completedAt := (if isIdleAndDone then Some (secs now) else op_completedAt op),
            op_updatedAt := secs now\<rparr>)"

definition createOperation ::
  "int \<Rightarrow> operation_id \<Rightarrow> string \<Rightarrow> (string \<times> string) option \<Rightarrow> string option \<Rightarrow> worker_db \<Rightarrow> worker_db" where
  "createOperation now oid ty ref err db =
     db\<lparr>operations := operations db @
       [\<lparr>op_id = oid, op_type = ty,
         op_status = (if err = None \<or> err = Some [] then Pending else Failed),
         op_referenceType = map_option fst ref, op_referenceId = map_option snd ref,
         cancelRequested = False, totalItems = 0, pendingItems = 0, runningItems = 0,
         completedItems = 0, failedItems = 0, cancelledItems = 0, op_progress = None, op_error = err,
         op_startedAt = None, op_completedAt = None, retentionUntil = None,
         op_createdAt = secs now, op_updatedAt = secs now\<rparr>]\<rparr>"

definition markResumed :: "int \<Rightarrow> int \<Rightarrow> operation \<Rightarrow> operation" where
  "markResumed now n op =
     op\<lparr>cancelRequested := False, op_status := Pending, op_completedAt := None, retentionUntil := None,
        totalItems := n, pendingItems := 0, runningItems := 0, completedItems := 0,
        failedItems := 0, cancelledItems := 0, op_progress := Some 0, op_updatedAt := secs now\<rparr>"

definition requestCancel :: "int \<Rightarrow> operation \<Rightarrow> operation" where
  "requestCancel now op =
     op\<lparr>cancelRequested := True, op_status := Cancelled, op_completedAt := Some (secs now),
        op_updatedAt := secs now\<rparr>"

subsection \<open>Counting the transitions of a batch by operation\<close>

definition toOperationCounts :: "operation_id option list \<Rightarrow> (operation_id, nat) jsmap" where
  "toOperationCounts rows =
     fold (\<lambda>row counts. case row of
             None \<Rightarrow> counts
           | Some oid \<Rightarrow> AList.update oid (case map_of counts oid of None \<Rightarrow> 1 | Some n \<Rightarrow> n + 1) counts)
       rows []"

definition applyOperationCounts ::
  "(operation_id, nat) jsmap \<Rightarrow> (int \<Rightarrow> operation \<Rightarrow> operation) \<Rightarrow> worker_db \<Rightarrow> worker_db" where
  "applyOperationCounts counts mark db =
     fold (\<lambda>(oid, amount). updateOperation oid (mark (int amount))) counts db"

definition amount_for :: "operation_id option list \<Rightarrow> operation_id \<Rightarrow> nat" where
  "amount_for rows oid = length (filter (\<lambda>row. row = Some oid) rows)"

lemma toOperationCounts_fold:
  fixes acc :: "(operation_id, nat) jsmap"
  assumes "wf_map acc" and "\<And>oid n. map_of acc oid = Some n \<Longrightarrow> 0 < n"
  defines "step \<equiv> (\<lambda>row counts. case row of
             None \<Rightarrow> counts
           | Some oid \<Rightarrow> AList.update oid (case map_of counts oid of None \<Rightarrow> 1 | Some n \<Rightarrow> n + 1) counts)"
  shows "wf_map (fold step rows acc) \<and>
     (\<forall>oid. map_of (fold step rows acc) oid =
        (let n = (case map_of acc oid of None \<Rightarrow> 0 | Some n \<Rightarrow> n) + amount_for rows oid
         in if n = 0 then None else Some n))"
  using assms(1,2)
proof (induction rows arbitrary: acc)
  case Nil
  then show ?case by (auto simp: amount_for_def Let_def split: option.split)
next
  case (Cons row rows)
  show ?case
  proof (cases row)
    case None
    then show ?thesis using Cons.IH[OF Cons.prems] by (simp add: step_def amount_for_def)
  next
    case (Some oid)
    have wf: "wf_map (step row acc)"
      using Cons.prems(1) by (simp add: step_def Some AList.distinct_update)
    have pos: "\<And>x n. map_of (step row acc) x = Some n \<Longrightarrow> 0 < n"
      using Cons.prems(2) by (auto simp: step_def Some map_of_update split: if_splits option.splits)
    from Cons.IH[OF wf pos] show ?thesis
      by (auto simp: Some step_def amount_for_def map_of_update Let_def split: option.split)
  qed
qed

lemma wf_toOperationCounts: "wf_map (toOperationCounts rows)"
  and map_of_toOperationCounts:
    "map_of (toOperationCounts rows) oid = (if amount_for rows oid = 0 then None else Some (amount_for rows oid))"
  using toOperationCounts_fold[of "[]" rows] by (simp_all add: toOperationCounts_def Let_def)

lemma jobs_applyOperationCounts [simp]: "jobs (applyOperationCounts counts mark db) = jobs db"
  unfolding applyOperationCounts_def
  by (induction counts arbitrary: db) (auto simp: updateOperation_def)

lemma operations_applyOperationCounts:
  assumes "wf_map counts" and "\<And>n op. op_id (mark n op) = op_id op"
  shows "operations (applyOperationCounts counts mark db) =
     map (\<lambda>op. case map_of counts (op_id op) of None \<Rightarrow> op | Some n \<Rightarrow> mark (int n) op) (operations db)"
  using assms(1) unfolding applyOperationCounts_def
proof (induction counts arbitrary: db)
  case Nil
  then show ?case by simp
next
  case (Cons p counts)
  obtain oid n where p: "p = (oid, n)" by fastforce
  with Cons.prems have fresh: "map_of counts oid = None" by (simp add: map_of_eq_None_iff)
  from Cons show ?case
    by (auto simp: p updateOperation_def update_where_def fresh assms(2) split: option.split)
qed

subsection \<open>The contract of the counters\<close>

definition counter :: "job_status \<Rightarrow> operation \<Rightarrow> int" where
  "counter st op =
     (case st of
        Pending \<Rightarrow> pendingItems op
      | Running \<Rightarrow> runningItems op
      | Completed \<Rightarrow> completedItems op
      | Failed \<Rightarrow> failedItems op
      | Cancelled \<Rightarrow> cancelledItems op)"

definition jobs_of :: "job list \<Rightarrow> operation_id \<Rightarrow> job_status \<Rightarrow> nat" where
  "jobs_of rows oid st = length (filter (\<lambda>j. operationId j = Some oid \<and> status j = st) rows)"

definition all_jobs_of :: "job list \<Rightarrow> operation_id \<Rightarrow> nat" where
  "all_jobs_of rows oid = length (filter (\<lambda>j. operationId j = Some oid) rows)"

text \<open>
  Two things make a counter differ from the number of jobs: a streaming session holds one unit
  of \<^verbatim>\<open>runningItems\<close> without a job, and the jobs cancelled before a resume stay in the
  table but are not counted any more.
\<close>

definition offset :: "(operation_id \<Rightarrow> int) \<Rightarrow> (operation_id \<Rightarrow> int) \<Rightarrow> operation_id \<Rightarrow> job_status \<Rightarrow> int" where
  "offset slots history oid st =
     (if st = Running then slots oid else if st = Cancelled then - history oid else 0)"

definition balanced :: "(operation_id \<Rightarrow> int) \<Rightarrow> (operation_id \<Rightarrow> int) \<Rightarrow> worker_db \<Rightarrow> bool" where
  "balanced slots history db \<longleftrightarrow>
     (\<forall>op \<in> set (operations db).
        0 \<le> slots (op_id op)
        \<and> (\<forall>st. counter st op = int (jobs_of (jobs db) (op_id op) st) + offset slots history (op_id op) st)
        \<and> totalItems op = int (all_jobs_of (jobs db) (op_id op)) - history (op_id op))"

definition moved :: "(job \<Rightarrow> bool) \<Rightarrow> job list \<Rightarrow> operation_id \<Rightarrow> nat" where
  "moved P rows oid = length (filter (\<lambda>j. P j \<and> operationId j = Some oid) rows)"

lemma jobs_of_update_where:
  assumes "\<forall>r \<in> set rows. P r \<longrightarrow> status r = src" and "src \<noteq> dst"
    and "\<And>r. status (f r) = dst" and "\<And>r. operationId (f r) = operationId r"
  shows "int (jobs_of (update_where P f rows) oid st) =
     int (jobs_of rows oid st) + (if st = dst then int (moved P rows oid) else 0)
       - (if st = src then int (moved P rows oid) else 0)"
  using assms(1)
proof (induction rows)
  case Nil
  then show ?case by (simp add: jobs_of_def moved_def update_where_def)
next
  case (Cons r rows)
  then have "P r \<Longrightarrow> status r = src" by simp
  with Cons show ?case
    using assms(2-4) by (auto simp: jobs_of_def moved_def update_where_def)
qed

lemma all_jobs_of_update_where:
  "(\<And>r. operationId (f r) = operationId r) \<Longrightarrow> all_jobs_of (update_where P f rows) oid = all_jobs_of rows oid"
  by (induction rows) (simp_all add: all_jobs_of_def update_where_def)

lemma moved_le: "\<forall>r \<in> set rows. P r \<longrightarrow> status r = src \<Longrightarrow> moved P rows oid \<le> jobs_of rows oid src"
  by (induction rows) (auto simp: moved_def jobs_of_def)

text \<open>
  An operation reported as completed or failed has nothing left to do, and a requested
  cancellation is always visible in the status.
\<close>

definition quiet :: "operation \<Rightarrow> bool" where
  "quiet op \<longleftrightarrow> ((op_status op = Completed \<or> op_status op = Failed) \<longrightarrow> pendingItems op = 0 \<and> runningItems op = 0)
     \<and> (cancelRequested op \<longrightarrow> op_status op = Cancelled)"

definition itemized :: "int \<Rightarrow> operation \<Rightarrow> bool" where
  "itemized slots op \<longleftrightarrow> 0 \<le> pendingItems op \<and> 0 \<le> slots \<and>
     totalItems op = pendingItems op + (runningItems op - slots) + completedItems op + failedItems op + cancelledItems op"

text \<open>
  A counter update that records the transition of \<open>n\<close> jobs from one status to another: the
  interface the job transitions rely on.
\<close>

locale job_mark =
  fixes mark :: "int \<Rightarrow> operation \<Rightarrow> operation" and src dst :: job_status
  assumes src_dst: "src \<noteq> dst"
    and src_active: "active src"
    and mark_none: "mark 0 op = op"
    and mark_id: "op_id (mark n op) = op_id op"
    and mark_total: "totalItems (mark n op) = totalItems op"
    and mark_counter: "0 \<le> n \<Longrightarrow> n \<le> counter src op \<Longrightarrow> counter st (mark n op) =
      counter st op + (if st = dst then n else 0) - (if st = src then n else 0)"
    and mark_cancelled: "op_status op = Cancelled \<Longrightarrow> op_status (mark n op) = Cancelled"
    and mark_request: "cancelRequested (mark n op) = cancelRequested op"
    and mark_quiet: "quiet op \<Longrightarrow> itemized slots op \<Longrightarrow> 0 \<le> n \<Longrightarrow>
      n + (if src = Running then slots else 0) \<le> counter src op \<Longrightarrow> quiet (mark n op)"
begin

text \<open>Moving the rows that satisfy a guard and marking their operations keeps the counters exact.\<close>

lemma balanced_transition:
  assumes bal: "balanced slots history db"
    and guard: "\<forall>r \<in> set (jobs db). P r \<longrightarrow> status r = src"
    and f: "\<And>r. status (f r) = dst" "\<And>r. operationId (f r) = operationId r"
    and jobs': "jobs db' = update_where P f (jobs db)"
    and ops': "operations db' = map (\<lambda>op. mark (int (moved P (jobs db) (op_id op))) op) (operations db)"
  shows "balanced slots history db'"
proof -
  have "0 \<le> slots (op_id op')
        \<and> (\<forall>st. counter st op' = int (jobs_of (jobs db') (op_id op') st) + offset slots history (op_id op') st)
        \<and> totalItems op' = int (all_jobs_of (jobs db') (op_id op')) - history (op_id op')"
    if op': "op' \<in> set (operations db')" for op'
  proof -
    from op' obtain op where op: "op \<in> set (operations db)"
      and eq: "op' = mark (int (moved P (jobs db) (op_id op))) op"
      unfolding ops' by auto
    let ?n = "moved P (jobs db) (op_id op)"
    from bal op have b: "0 \<le> slots (op_id op)"
      "\<And>st. counter st op = int (jobs_of (jobs db) (op_id op) st) + offset slots history (op_id op) st"
      "totalItems op = int (all_jobs_of (jobs db) (op_id op)) - history (op_id op)"
      by (auto simp: balanced_def)
    have le: "int ?n \<le> counter src op"
      using b(1) b(2)[of src] moved_le[OF guard, of "op_id op"] src_active
      by (auto simp: offset_def active_def)
    show ?thesis
      using b mark_counter[OF _ le] jobs_of_update_where[OF guard src_dst f, of "op_id op"]
      by (simp add: eq jobs' mark_id mark_total all_jobs_of_update_where[OF f(2)])
  qed
  then show ?thesis by (simp add: balanced_def)
qed

end

interpretation mark_started: job_mark "markJobStarted now" Pending Running for now
  by unfold_locales (auto simp: markJobStarted_def counter_def active_def quiet_def itemized_def split: job_status.split)

interpretation mark_retried: job_mark "markJobRetried now" Running Pending for now
  by unfold_locales (auto simp: markJobRetried_def counter_def active_def quiet_def itemized_def split: job_status.split)

interpretation mark_pending_cancelled: job_mark "markPendingJobsCancelled now" Pending Cancelled for now
  by unfold_locales
    (auto simp: markPendingJobsCancelled_def counter_def active_def Let_def buildStatusCase_def
      quiet_def itemized_def split: job_status.split)

lemma job_mark_finished: "terminal st \<Longrightarrow> job_mark (markJobFinished st now) Running st"
  by unfold_locales
    (auto simp: markJobFinished_def counter_def active_def terminal_def Let_def buildStatusCase_def
      quiet_def itemized_def split: job_status.split if_splits)

interpretation mark_completed: job_mark "markJobFinished Completed now" Running Completed for now
  by (rule job_mark_finished) (simp add: terminal_def)

interpretation mark_failed: job_mark "markJobFinished Failed now" Running Failed for now
  by (rule job_mark_finished) (simp add: terminal_def)

interpretation mark_cancelled: job_mark "markJobFinished Cancelled now" Running Cancelled for now
  by (rule job_mark_finished) (simp add: terminal_def)

end
