(* ===== verification/Worker_Jobs.thy ===== *)
theory Worker_Jobs
  imports Worker_Tables "HOL-Library.Product_Lexorder"
begin

section \<open>The job queue\<close>

text \<open>
  The writers of \<^verbatim>\<open>src/src/repositories/worker-jobs/\<close>: intake
  (\<^verbatim>\<open>intake.repository.ts\<close>), cancellation (\<^verbatim>\<open>cancellation.writer.ts\<close>), claims
  and recovery (\<^verbatim>\<open>claims.writer.ts\<close>) and maintenance
  (\<^verbatim>\<open>maintenance.writer.ts\<close>).

  A transaction is a function from the tables to the tables; one that throws leaves them
  unchanged, so it returns the error instead. Rows a query returns without an
  \<^verbatim>\<open>ORDER BY\<close> come in table order, and rows that tie under one stay in table order.
  \<open>clock\<close> and \<open>now\<close> are readings of the clock in milliseconds.
\<close>

subsection \<open>Intake\<close>

record enqueue_input =
  in_id :: job_id
  in_workerId :: string
  in_operationId :: "operation_id option"
  in_dependsOnJobId :: "job_id option"
  in_dependsOnTaskIds :: "job_id list option"
  in_data :: string
  in_dedupeKey :: "string option"
  in_referenceType :: "string option"
  in_referenceId :: "string option"
  in_priority :: int
  in_maxAttempts :: int
  in_backoffType :: backoff_type
  in_backoffDelayMs :: int
  in_runAt :: int

datatype failure = Domain domain_error | Constraint_failed

definition dependency_of :: "enqueue_input \<Rightarrow> job_id option" where
  "dependency_of i =
     (case in_dependsOnJobId i of
        Some d \<Rightarrow> Some d
      | None \<Rightarrow> (case in_dependsOnTaskIds i of Some (d # _) \<Rightarrow> Some d | _ \<Rightarrow> None))"

definition job_of_input :: "int \<Rightarrow> enqueue_input \<Rightarrow> job" where
  "job_of_input clock i =
     \<lparr>job_id = in_id i, workerId = in_workerId i, operationId = in_operationId i,
      dependsOnJobId = dependency_of i, dedupeKey = in_dedupeKey i,
      referenceType = in_referenceType i, referenceId = in_referenceId i,
      data = in_data i, status = Pending, progressPercent = None,
      priority = in_priority i, attempts = 0, maxAttempts = in_maxAttempts i,
      backoffType = in_backoffType i, backoffDelayMs = in_backoffDelayMs i,
      leaseUntil = None, runnerId = None, claimToken = None, job_result = None, job_error = None,
      startedAt = None, runAt = secs (in_runAt i), completedAt = None,
      createdAt = secs clock, updatedAt = secs clock\<rparr>"

fun first_error :: "('a \<Rightarrow> domain_error option) \<Rightarrow> 'a list \<Rightarrow> domain_error option" where
  "first_error check [] = None"
| "first_error check (x # xs) = (case check x of Some e \<Rightarrow> Some e | None \<Rightarrow> first_error check xs)"

definition assertDependencyValid ::
  "(job_id, operation_id option) jsmap \<Rightarrow> enqueue_input \<Rightarrow> domain_error option" where
  "assertDependencyValid dependencyById i =
     (case dependency_of i of
        None \<Rightarrow> None
      | Some depId \<Rightarrow>
          if in_operationId i = None then Some (DomainError Validation ''worker.dependency_invalid'')
          else if depId = in_id i then Some (DomainError Conflict ''worker.dependency_self'')
          else (case map_of dependencyById depId of
                  None \<Rightarrow> Some (DomainError Not_found ''worker.dependency_not_found'')
                | Some depOperation \<Rightarrow>
                    if depOperation \<noteq> in_operationId i
                    then Some (DomainError Validation ''worker.dependency_other_operation'') else None))"

definition check_operation :: "(operation_id, operation) jsmap \<Rightarrow> operation_id \<Rightarrow> domain_error option" where
  "check_operation operationById oid =
     (case map_of operationById oid of
        None \<Rightarrow> Some (DomainError Not_found ''worker.operation_not_found'')
      | Some op \<Rightarrow> if cancelRequested op then Some (DomainError Conflict ''worker.operation_cancelled'') else None)"

definition validateBatchRelations :: "enqueue_input list \<Rightarrow> worker_db \<Rightarrow> domain_error option" where
  "validateBatchRelations inputs db =
     (let operationIds = unique (List.map_filter in_operationId inputs);
          operationById = to_map op_id
            (mapChunked operationIds (\<lambda>c. filter (\<lambda>op. op_id op \<in> set c) (operations db)));
          dependencyIds = unique (List.map_filter dependency_of inputs);
          depRows = mapChunked dependencyIds (\<lambda>c. filter (\<lambda>r. job_id r \<in> set c) (jobs db));
          dependencyById = map (\<lambda>(k, r). (k, operationId r)) (to_map job_id depRows)
      in case first_error (check_operation operationById) operationIds of
           Some e \<Rightarrow> Some e
         | None \<Rightarrow> first_error (assertDependencyValid dependencyById) inputs)"

text \<open>
  \<^verbatim>\<open>INSERT ... ON CONFLICT DO NOTHING\<close>: the primary key and the partial unique index on
  the active dedupe keys skip a row; a violated \<^verbatim>\<open>CHECK\<close> fails the statement.
\<close>

definition conflicting :: "job \<Rightarrow> job \<Rightarrow> bool" where
  "conflicting row r \<longleftrightarrow>
     job_id r = job_id row
     \<or> (dedupeKey row \<noteq> None \<and> active (status row) \<and> active (status r)
        \<and> workerId r = workerId row \<and> dedupeKey r = dedupeKey row)"

definition row_checks :: "job \<Rightarrow> bool" where
  "row_checks r \<longleftrightarrow> 0 \<le> attempts r \<and> 0 < maxAttempts r \<and> 0 \<le> backoffDelayMs r
     \<and> (referenceType r = None \<longleftrightarrow> referenceId r = None)"

fun insert_ignoring :: "job list \<Rightarrow> job list \<Rightarrow> job list \<times> job list" where
  "insert_ignoring [] table = ([], table)"
| "insert_ignoring (row # rows) table =
     (if \<exists>r \<in> set table. conflicting row r then insert_ignoring rows table
      else (case insert_ignoring rows (table @ [row]) of (ins, table') \<Rightarrow> (row # ins, table')))"

definition insert_chunk :: "job list \<Rightarrow> job list \<times> worker_db \<Rightarrow> job list \<times> worker_db" where
  "insert_chunk rows st =
     (case insert_ignoring rows (jobs (snd st)) of
        (ins, table) \<Rightarrow> (fst st @ ins, (snd st)\<lparr>jobs := table\<rparr>))"

definition fetchDedupedExisting :: "enqueue_input list \<Rightarrow> job list \<Rightarrow> worker_db \<Rightarrow> job list" where
  "fetchDedupedExisting inputs inserted db =
     (if length inserted \<ge> length inputs then inserted
      else
        (let insertedIds = set (map job_id inserted);
             hasKey = (\<lambda>i. in_dedupeKey i \<noteq> None \<and> in_dedupeKey i \<noteq> Some []);
             missingInputs = filter (\<lambda>i. hasKey i \<and> in_id i \<notin> insertedIds) inputs;
             pairs = unique (map (\<lambda>i. (in_workerId i, in_dedupeKey i)) missingInputs)
         in if missingInputs = [] then inserted
            else inserted @ mapChunked pairs
              (\<lambda>c. filter (\<lambda>r. active (status r) \<and> (workerId r, dedupeKey r) \<in> set c) (jobs db))))"

definition enqueueMany ::
  "int \<Rightarrow> enqueue_input list \<Rightarrow> bool \<Rightarrow> worker_db \<Rightarrow> failure + (job list \<times> worker_db)" where
  "enqueueMany clock inputs countOperationTotals db =
     (if inputs = [] then Inr ([], db)
      else case validateBatchRelations inputs db of
        Some e \<Rightarrow> Inl (Domain e)
      | None \<Rightarrow>
          (let rows = map (job_of_input clock) inputs in
           if \<exists>r \<in> set rows. \<not> row_checks r then Inl Constraint_failed
           else
             (let (inserted, db1) = forEachChunked rows insert_chunk ([], db);
                  counts = toOperationCounts (map operationId inserted);
                  result = fetchDedupedExisting inputs inserted db1
              in Inr (result,
                   if countOperationTotals then applyOperationCounts counts (incrementTotalItems clock) db1
                   else db1))))"

definition enqueue :: "int \<Rightarrow> enqueue_input \<Rightarrow> worker_db \<Rightarrow> failure + (job \<times> worker_db)" where
  "enqueue clock input db =
     (case enqueueMany clock [input] True db of
        Inl e \<Rightarrow> Inl e
      | Inr ([], db') \<Rightarrow> Inl (Domain (DomainError Conflict ''worker.enqueue_failed''))
      | Inr (item # _, db') \<Rightarrow> Inr (item, db'))"

definition findItem :: "job_id \<Rightarrow> worker_db \<Rightarrow> job option" where
  "findItem i db = find (\<lambda>r. job_id r = i) (jobs db)"

definition findActiveByDedupeKey :: "string \<Rightarrow> string \<Rightarrow> worker_db \<Rightarrow> (job_id \<times> operation_id option) option" where
  "findActiveByDedupeKey w key db =
     map_option (\<lambda>r. (job_id r, operationId r))
       (find (\<lambda>r. workerId r = w \<and> dedupeKey r = Some key \<and> active (status r)) (jobs db))"

definition findActiveByWorkerAndDedupeKeys ::
  "string \<Rightarrow> string list \<Rightarrow> worker_db \<Rightarrow> (job_id \<times> operation_id option) list" where
  "findActiveByWorkerAndDedupeKeys w dedupeKeys db =
     (if dedupeKeys = [] then []
      else mapChunked (unique dedupeKeys) (\<lambda>c.
        map (\<lambda>r. (job_id r, operationId r))
          (filter (\<lambda>r. workerId r = w \<and> (\<exists>key \<in> set c. dedupeKey r = Some key) \<and> active (status r)) (jobs db))))"

definition findPendingWorkerIds :: "int \<Rightarrow> worker_db \<Rightarrow> string list" where
  "findPendingWorkerIds now db =
     unique (map workerId (filter (\<lambda>r. status r = Pending \<and> runAt r \<le> secs now) (jobs db)))"

definition loadParentStatuses :: "job list \<Rightarrow> worker_db \<Rightarrow> (job_id, job_status) jsmap" where
  "loadParentStatuses candidates db =
     (let dependencyIds = unique (List.map_filter dependsOnJobId candidates);
          parentRows = mapChunked dependencyIds (\<lambda>c. filter (\<lambda>r. job_id r \<in> set c) (jobs db))
      in fold (\<lambda>r m. AList.update (job_id r) (status r) m) parentRows [])"

subsection \<open>Cancellation\<close>

definition cancel_row :: "int \<Rightarrow> job \<Rightarrow> job" where
  "cancel_row now r = r\<lparr>status := Cancelled, completedAt := Some (secs now), updatedAt := secs now\<rparr>"

definition release_claim :: "job \<Rightarrow> job" where
  "release_claim r = r\<lparr>leaseUntil := None, runnerId := None, claimToken := None\<rparr>"

definition pending_dependents :: "job list \<Rightarrow> job_id list \<Rightarrow> job list" where
  "pending_dependents rows frontier =
     mapChunked frontier (\<lambda>c.
       filter (\<lambda>r. (\<exists>p \<in> set c. dependsOnJobId r = Some p) \<and> status r = Pending) rows)"

text \<open>One \<^verbatim>\<open>SELECT\<close> per dependency level. On a cyclic graph the loop does not end: None.\<close>

partial_function (option) cascade_levels :: "job list \<Rightarrow> job_id list \<Rightarrow> job list \<Rightarrow> job list option" where
  [code]: "cascade_levels rows frontier affected =
     (if frontier = [] then Some affected
      else (let dependents = pending_dependents rows frontier in
            if dependents = [] then Some affected
            else cascade_levels rows (map job_id dependents) (affected @ dependents)))"

definition cancel_pending_ids :: "int \<Rightarrow> job_id list \<Rightarrow> worker_db \<Rightarrow> worker_db" where
  "cancel_pending_ids now ids db =
     forEachChunked ids
       (\<lambda>c. update_jobs (\<lambda>r. job_id r \<in> set c \<and> status r = Pending) (cancel_row now)) db"

definition cascadeCancel :: "int \<Rightarrow> job_id list \<Rightarrow> worker_db \<Rightarrow> worker_db option" where
  "cascadeCancel now parentIds db =
     (case cascade_levels (jobs db) parentIds [] of
        None \<Rightarrow> None
      | Some affected \<Rightarrow>
          if affected = [] then Some db
          else
            (let uniqueAffected = map snd (to_map job_id affected);
                 db1 = cancel_pending_ids now (map job_id uniqueAffected) db
             in Some (applyOperationCounts (toOperationCounts (map operationId uniqueAffected))
                   (markPendingJobsCancelled now) db1)))"

definition cancelPending :: "int \<Rightarrow> job_id \<Rightarrow> worker_db \<Rightarrow> (bool \<times> worker_db) option" where
  "cancelPending now i db =
     (let guard = (\<lambda>r. job_id r = i \<and> status r = Pending) in
      case returning guard (cancel_row now) (jobs db) of
        [] \<Rightarrow> Some (False, db)
      | updated # _ \<Rightarrow>
          (let db1 = update_jobs guard (cancel_row now) db;
               db2 = (case operationId updated of
                        None \<Rightarrow> db1
                      | Some oid \<Rightarrow> updateOperation oid (markPendingJobsCancelled now 1) db1)
           in map_option (\<lambda>db3. (True, db3)) (cascadeCancel now [i] db2)))"

definition runningJobWhere :: "job_id \<Rightarrow> string option \<Rightarrow> nat option \<Rightarrow> job \<Rightarrow> bool" where
  "runningJobWhere i runner token r \<longleftrightarrow>
     job_id r = i \<and> status r = Running
     \<and> (case runner of None \<Rightarrow> True | Some x \<Rightarrow> runnerId r = Some x)
     \<and> (case token of None \<Rightarrow> True | Some t \<Rightarrow> claimToken r = Some t)"

text \<open>
  The guarded terminal transition: \<open>after\<close> is the bookkeeping that follows in the same
  transaction, given the operation of the row.
\<close>

definition terminalizeRunning ::
  "(job \<Rightarrow> bool) \<Rightarrow> (job \<Rightarrow> job) \<Rightarrow> (operation_id option \<Rightarrow> worker_db \<Rightarrow> worker_db option)
     \<Rightarrow> worker_db \<Rightarrow> (bool \<times> worker_db) option" where
  "terminalizeRunning guard values after db =
     (case returning guard values (jobs db) of
        [] \<Rightarrow> Some (False, db)
      | updatedJob # _ \<Rightarrow>
          map_option (\<lambda>db'. (True, db')) (after (operationId updatedJob) (update_jobs guard values db)))"

definition mark_operation :: "(int \<Rightarrow> operation \<Rightarrow> operation) \<Rightarrow> operation_id option \<Rightarrow> worker_db \<Rightarrow> worker_db" where
  "mark_operation mark oid db =
     (case oid of None \<Rightarrow> db | Some x \<Rightarrow> updateOperation x (mark 1) db)"

definition cancelRunning :: "int \<Rightarrow> job_id \<Rightarrow> nat option \<Rightarrow> worker_db \<Rightarrow> (bool \<times> worker_db) option" where
  "cancelRunning now i token =
     terminalizeRunning (runningJobWhere i None token) (cancel_row now \<circ> release_claim)
       (\<lambda>oid db. Some (mark_operation (markJobFinished Cancelled now) oid db))"

definition cancelPendingWhere ::
  "int \<Rightarrow> (job \<Rightarrow> bool) \<Rightarrow> (operation_id option list \<Rightarrow> worker_db \<Rightarrow> worker_db) \<Rightarrow> worker_db
     \<Rightarrow> (nat \<times> worker_db) option" where
  "cancelPendingWhere now guard applyCounts db =
     (let updated = returning guard (cancel_row now) (jobs db);
          db1 = update_jobs guard (cancel_row now) db
      in if updated = [] then Some (0, db1)
         else map_option (\<lambda>db2. (length updated, applyCounts (map operationId updated) db2))
           (cascadeCancel now (map job_id updated) db1))"

definition cancelPendingByOperation :: "int \<Rightarrow> operation_id \<Rightarrow> worker_db \<Rightarrow> (nat \<times> worker_db) option" where
  "cancelPendingByOperation now oid =
     cancelPendingWhere now (\<lambda>r. operationId r = Some oid \<and> status r = Pending)
       (\<lambda>rows. updateOperation oid (markPendingJobsCancelled now (int (length rows))))"

definition for_worker :: "string option \<Rightarrow> job \<Rightarrow> bool" where
  "for_worker w r \<longleftrightarrow> (case w of None \<Rightarrow> True | Some x \<Rightarrow> x = [] \<or> workerId r = x)"

definition cancelAllPending :: "int \<Rightarrow> string option \<Rightarrow> worker_db \<Rightarrow> (nat \<times> worker_db) option" where
  "cancelAllPending now w =
     cancelPendingWhere now (\<lambda>r. status r = Pending \<and> for_worker w r)
       (\<lambda>rows. applyOperationCounts (toOperationCounts rows) (markPendingJobsCancelled now))"

definition cancelAllRunning :: "int \<Rightarrow> string option \<Rightarrow> worker_db \<Rightarrow> nat \<times> worker_db" where
  "cancelAllRunning now w db =
     (let guard = (\<lambda>r. status r = Running \<and> for_worker w r);
          cancelled = returning guard (cancel_row now \<circ> release_claim) (jobs db)
      in (length cancelled,
          applyOperationCounts (toOperationCounts (map operationId cancelled)) (markJobFinished Cancelled now)
            (update_jobs guard (cancel_row now \<circ> release_claim) db)))"

definition findRunningByOperation :: "operation_id \<Rightarrow> worker_db \<Rightarrow> job list" where
  "findRunningByOperation oid db = filter (\<lambda>r. operationId r = Some oid \<and> status r = Running) (jobs db)"

definition findByOperation :: "operation_id \<Rightarrow> nat \<Rightarrow> worker_db \<Rightarrow> job list" where
  "findByOperation oid n db =
     take n (sort_key (\<lambda>r. - createdAt r) (filter (\<lambda>r. operationId r = Some oid) (jobs db)))"

definition findActiveOperations :: "operation_id list \<Rightarrow> worker_db \<Rightarrow> operation_id list" where
  "findActiveOperations operationIds db =
     (let ids = unique operationIds in
      if ids = [] then []
      else unique (mapChunked ids (\<lambda>c.
        unique (List.map_filter (\<lambda>r. if active (status r) then
            (case operationId r of Some oid \<Rightarrow> if oid \<in> set c then Some oid else None | None \<Rightarrow> None)
          else None) (jobs db)))))"

definition findCancelledByOperation :: "operation_id \<Rightarrow> nat \<Rightarrow> job_id option \<Rightarrow> worker_db \<Rightarrow> job list" where
  "findCancelledByOperation oid n afterId db =
     take n (sort_key job_id (filter (\<lambda>r. operationId r = Some oid \<and> status r = Cancelled
       \<and> (case afterId of None \<Rightarrow> True | Some a \<Rightarrow> a < job_id r)) (jobs db)))"

definition countCancelledByOperation :: "operation_id \<Rightarrow> worker_db \<Rightarrow> nat" where
  "countCancelledByOperation oid db =
     length (filter (\<lambda>r. operationId r = Some oid \<and> status r = Cancelled) (jobs db))"

subsection \<open>Recovery of expired leases\<close>

text \<open>A guarded update per chunk of ids, with the ids it moved.\<close>

definition updateRunningRowsChunked ::
  "job_id list \<Rightarrow> (job \<Rightarrow> job) \<Rightarrow> worker_db \<Rightarrow> job_id list \<times> worker_db" where
  "updateRunningRowsChunked ids values db =
     forEachChunked ids
       (\<lambda>c (updated, db).
          let guard = (\<lambda>r. job_id r \<in> set c \<and> status r = Running) in
          (fold js_add (map job_id (returning guard values (jobs db))) updated, update_jobs guard values db))
       ([], db)"

definition requeue_row :: "int \<Rightarrow> job \<Rightarrow> job" where
  "requeue_row now r = release_claim (r\<lparr>status := Pending, updatedAt := secs now\<rparr>)"

definition exhaust_row :: "int \<Rightarrow> job \<Rightarrow> job" where
  "exhaust_row now r =
     release_claim (r\<lparr>status := Failed, job_error := Some ''Lease expired after maximum attempts'',
       completedAt := Some (secs now), updatedAt := secs now\<rparr>)"

definition recoverRetryableRows :: "int \<Rightarrow> job list \<Rightarrow> worker_db \<Rightarrow> nat \<times> worker_db" where
  "recoverRetryableRows now rows db =
     (let (updated, db1) = updateRunningRowsChunked (map job_id rows) (requeue_row now) db;
          recovered = filter (\<lambda>r. job_id r \<in> set updated) rows
      in (length updated,
          applyOperationCounts (toOperationCounts (map operationId recovered)) (markJobRetried now) db1))"

definition recoverExhaustedRows :: "int \<Rightarrow> job list \<Rightarrow> worker_db \<Rightarrow> (nat \<times> worker_db) option" where
  "recoverExhaustedRows now rows db =
     (let (updated, db1) = updateRunningRowsChunked (map job_id rows) (exhaust_row now) db;
          failedRows = filter (\<lambda>r. job_id r \<in> set updated) rows;
          db2 = applyOperationCounts (toOperationCounts (map operationId failedRows)) (markJobFinished Failed now) db1
      in map_option (\<lambda>db3. (length updated, db3)) (cascadeCancel now (map job_id failedRows) db2))"

definition recoverExpiredRows :: "int \<Rightarrow> job list \<Rightarrow> worker_db \<Rightarrow> (nat \<times> worker_db) option" where
  "recoverExpiredRows now rows db =
     (let retryable = filter (\<lambda>r. attempts r < maxAttempts r) rows;
          exhausted = filter (\<lambda>r. attempts r \<ge> maxAttempts r) rows;
          (n, db1) = recoverRetryableRows now retryable db
      in map_option (\<lambda>(m, db2). (n + m, db2)) (recoverExhaustedRows now exhausted db1))"

definition lease_before :: "int \<Rightarrow> job \<Rightarrow> bool" where
  "lease_before now r \<longleftrightarrow> (case leaseUntil r of None \<Rightarrow> False | Some t \<Rightarrow> t < secs now)"

definition excluded :: "job_id list option \<Rightarrow> job \<Rightarrow> bool" where
  "excluded ids r \<longleftrightarrow> (case ids of None \<Rightarrow> False | Some xs \<Rightarrow> job_id r \<in> set xs)"

definition recoverExpired ::
  "string \<Rightarrow> int \<Rightarrow> job_id list option \<Rightarrow> worker_db \<Rightarrow> worker_db option" where
  "recoverExpired w now excludeActiveIds db =
     (let expiredRows = filter (\<lambda>r. workerId r = w \<and> status r = Running \<and> lease_before now r
            \<and> \<not> excluded excludeActiveIds r) (jobs db)
      in if expiredRows = [] then Some db
         else map_option snd (recoverExpiredRows now expiredRows db))"

record orphan_options =
  orphan_excludeActiveIds :: "job_id list option"
  orphan_currentRunnerId :: "string option"
  orphan_foreignGraceMs :: "int option"

definition started_by :: "int \<Rightarrow> job \<Rightarrow> bool" where
  "started_by t r \<longleftrightarrow> (case startedAt r of None \<Rightarrow> False | Some s \<Rightarrow> s \<le> secs t)"

text \<open>The rows are read before the transaction that recovers them.\<close>

definition orphan_rows :: "int \<Rightarrow> orphan_options \<Rightarrow> worker_db \<Rightarrow> job list" where
  "orphan_rows now opts db =
     filter (\<lambda>r. status r = Running
       \<and> (lease_before now r
          \<or> (leaseUntil r = None \<and> started_by (now - 5 * 60000) r)
          \<or> (case orphan_currentRunnerId opts of
               None \<Rightarrow> False
             | Some me \<Rightarrow> me \<noteq> [] \<and> runnerId r \<noteq> None \<and> runnerId r \<noteq> Some me
                 \<and> started_by (now - (case orphan_foreignGraceMs opts of None \<Rightarrow> 30000 | Some g \<Rightarrow> g)) r))
       \<and> \<not> excluded (orphan_excludeActiveIds opts) r) (jobs db)"

definition recoverOrphanedRunning :: "int \<Rightarrow> job list \<Rightarrow> worker_db \<Rightarrow> (nat \<times> worker_db) option" where
  "recoverOrphanedRunning now expiredRows db =
     (if expiredRows = [] then Some (0, db) else recoverExpiredRows now expiredRows db)"

subsection \<open>Claims\<close>

record claim_input =
  cl_workerId :: string
  cl_runnerId :: string
  cl_concurrency :: int
  cl_timeoutMs :: int
  cl_now :: int
  cl_excludeActiveIds :: "job_id list option"

definition claim_row :: "nat \<Rightarrow> claim_input \<Rightarrow> job \<Rightarrow> job" where
  "claim_row token input r =
     r\<lparr>status := Running, attempts := attempts r + 1, runnerId := Some (cl_runnerId input),
       claimToken := Some token, leaseUntil := Some (secs (cl_now input + cl_timeoutMs input)),
       startedAt := Some (secs (cl_now input)), updatedAt := secs (cl_now input)\<rparr>"

definition claimCandidate :: "nat \<Rightarrow> claim_input \<Rightarrow> job_id \<Rightarrow> worker_db \<Rightarrow> job option \<times> worker_db" where
  "claimCandidate token input i db =
     (let guard = (\<lambda>r. job_id r = i \<and> status r = Pending) in
      case returning guard (claim_row token input) (jobs db) of
        [] \<Rightarrow> (None, db)
      | claimed # _ \<Rightarrow> (Some claimed, update_jobs guard (claim_row token input) db))"

datatype blocker = Operation_cancelled | Parent_failed | Parent_pending

definition claimBlocker ::
  "job \<Rightarrow> (job_id, job_status) jsmap \<Rightarrow> operation_id list \<Rightarrow> blocker option" where
  "claimBlocker candidate parentStatuses cancelledOperations =
     (if (case operationId candidate of None \<Rightarrow> False | Some oid \<Rightarrow> oid \<in> set cancelledOperations)
      then Some Operation_cancelled
      else
        (let parentStatus = (case dependsOnJobId candidate of None \<Rightarrow> None | Some p \<Rightarrow> map_of parentStatuses p) in
         if parentStatus = Some Failed \<or> parentStatus = Some Cancelled then Some Parent_failed
         else if parentStatus = Some Pending \<or> parentStatus = Some Running then Some Parent_pending
         else None))"

definition claim_candidates :: "claim_input \<Rightarrow> nat \<Rightarrow> worker_db \<Rightarrow> job list" where
  "claim_candidates input n db =
     take (nat (max (max (int n) 20) (cl_concurrency input * 2)))
       (sort_key (\<lambda>r. (priority r, runAt r, createdAt r))
         (filter (\<lambda>r. workerId r = cl_workerId input \<and> status r = Pending \<and> runAt r \<le> secs (cl_now input))
           (jobs db)))"

definition cancelled_operations :: "job list \<Rightarrow> worker_db \<Rightarrow> operation_id list" where
  "cancelled_operations candidates db =
     (let operationIds = unique (List.map_filter operationId candidates) in
      map op_id (filter (\<lambda>op. op_id op \<in> set operationIds \<and> (cancelRequested op \<or> op_status op = Cancelled))
        (operations db)))"

text \<open>
  The loop over the candidates: \<open>claimed\<close> and \<open>running\<close> are the code's
  \<^verbatim>\<open>claimedItems\<close> and \<^verbatim>\<open>runningCount\<close>, \<open>token\<close> is the random token drawn for
  a row.
\<close>

fun claim_loop ::
  "(job_id \<Rightarrow> nat) \<Rightarrow> int \<Rightarrow> claim_input \<Rightarrow> nat \<Rightarrow> (job_id, job_status) jsmap \<Rightarrow> operation_id list
     \<Rightarrow> job list \<Rightarrow> job list \<Rightarrow> nat \<Rightarrow> worker_db \<Rightarrow> (job list \<times> worker_db) option" where
  "claim_loop token clock input n parents cancelledOps [] claimed running db = Some (claimed, db)"
| "claim_loop token clock input n parents cancelledOps (candidate # candidates) claimed running db =
     (if length claimed \<ge> n then Some (claimed, db)
      else (case claimBlocker candidate parents cancelledOps of
        Some Parent_pending \<Rightarrow> claim_loop token clock input n parents cancelledOps candidates claimed running db
      | Some _ \<Rightarrow>
          (case cancelPending clock (job_id candidate) db of
             None \<Rightarrow> None
           | Some (_, db') \<Rightarrow> claim_loop token clock input n parents cancelledOps candidates claimed running db')
      | None \<Rightarrow>
          if int running \<ge> cl_concurrency input then Some (claimed, db)
          else (case claimCandidate (token (job_id candidate)) input (job_id candidate) db of
            (None, db') \<Rightarrow> claim_loop token clock input n parents cancelledOps candidates claimed running db'
          | (Some row, db') \<Rightarrow>
              claim_loop token clock input n parents cancelledOps candidates (claimed @ [row]) (running + 1) db')))"

definition running_of :: "string \<Rightarrow> job list \<Rightarrow> nat" where
  "running_of w rows = length (filter (\<lambda>r. workerId r = w \<and> status r = Running) rows)"

definition claimRunnableItems ::
  "(job_id \<Rightarrow> nat) \<Rightarrow> int \<Rightarrow> claim_input \<Rightarrow> nat \<Rightarrow> worker_db \<Rightarrow> (job list \<times> worker_db) option" where
  "claimRunnableItems token clock input n db =
     (case recoverExpired (cl_workerId input) (cl_now input) (cl_excludeActiveIds input) db of
        None \<Rightarrow> None
      | Some db1 \<Rightarrow>
          (let candidates = claim_candidates input n db1;
               running = running_of (cl_workerId input) (jobs db1);
               parents = loadParentStatuses candidates db1;
               cancelledOps = cancelled_operations candidates db1
           in map_option
                (\<lambda>(claimed, db2). (claimed,
                   applyOperationCounts (toOperationCounts (map operationId claimed))
                     (markJobStarted (cl_now input)) db2))
                (claim_loop token clock input n parents cancelledOps candidates [] running db1)))"

definition claimNextBatch ::
  "(job_id \<Rightarrow> nat) \<Rightarrow> int \<Rightarrow> claim_input \<Rightarrow> int \<Rightarrow> worker_db \<Rightarrow> (job list \<times> worker_db) option" where
  "claimNextBatch token clock input n db =
     (if n \<le> 0 then Some ([], db)
      else if \<not> (\<exists>r \<in> set (jobs db). workerId r = cl_workerId input \<and> status r = Pending
                   \<and> runAt r \<le> secs (cl_now input))
      then Some ([], db)
      else claimRunnableItems token clock input (nat n) db)"

subsection \<open>The end of a run\<close>

definition updateProgress ::
  "int \<Rightarrow> job_id \<Rightarrow> rat \<Rightarrow> nat option \<Rightarrow> operation_id option \<Rightarrow> worker_db \<Rightarrow> worker_db" where
  "updateProgress now i percent token oid db =
     (let db1 = update_jobs
            (\<lambda>r. job_id r = i \<and> (case token of None \<Rightarrow> True | Some t \<Rightarrow> claimToken r = Some t))
            (\<lambda>r. r\<lparr>progressPercent := Some percent, updatedAt := secs now\<rparr>) db
      in (case oid of None \<Rightarrow> db1 | Some x \<Rightarrow> updateOperation x (op_updateProgress now percent) db1))"

definition complete_row :: "int \<Rightarrow> string \<Rightarrow> job \<Rightarrow> job" where
  "complete_row now res r =
     release_claim (r\<lparr>status := Completed, job_result := Some res, job_error := None,
       progressPercent := Some 100, completedAt := Some (secs now), updatedAt := secs now\<rparr>)"

definition complete ::
  "int \<Rightarrow> job_id \<Rightarrow> string \<Rightarrow> string \<Rightarrow> nat option \<Rightarrow> worker_db \<Rightarrow> (bool \<times> worker_db) option" where
  "complete now i runner res token =
     terminalizeRunning (runningJobWhere i (Some runner) token) (complete_row now res)
       (\<lambda>oid db. Some (mark_operation (markJobFinished Completed now) oid db))"

definition retry_row :: "int \<Rightarrow> int \<Rightarrow> string \<Rightarrow> job \<Rightarrow> job" where
  "retry_row now runAtMs err r =
     release_claim (r\<lparr>status := Pending, runAt := secs runAtMs, job_error := Some err,
       progressPercent := None, startedAt := None, job_result := None, updatedAt := secs now\<rparr>)"

definition retry ::
  "int \<Rightarrow> job_id \<Rightarrow> string \<Rightarrow> int \<Rightarrow> string \<Rightarrow> nat option \<Rightarrow> worker_db \<Rightarrow> (bool \<times> worker_db) option" where
  "retry now i runner runAtMs err token =
     terminalizeRunning (runningJobWhere i (Some runner) token) (retry_row now runAtMs err)
       (\<lambda>oid db. Some (mark_operation (markJobRetried now) oid db))"

definition fail_row :: "int \<Rightarrow> string \<Rightarrow> job \<Rightarrow> job" where
  "fail_row now err r =
     release_claim (r\<lparr>status := Failed, job_error := Some err, completedAt := Some (secs now),
       updatedAt := secs now\<rparr>)"

definition fail ::
  "int \<Rightarrow> job_id \<Rightarrow> string \<Rightarrow> string \<Rightarrow> nat option \<Rightarrow> worker_db \<Rightarrow> (bool \<times> worker_db) option" where
  "fail now i runner err token =
     terminalizeRunning (runningJobWhere i (Some runner) token) (fail_row now err)
       (\<lambda>oid db. cascadeCancel now [i] (mark_operation (markJobFinished Failed now) oid db))"

definition requeueRunning ::
  "int \<Rightarrow> job_id \<Rightarrow> string \<Rightarrow> string \<Rightarrow> nat option \<Rightarrow> worker_db \<Rightarrow> (bool \<times> worker_db) option" where
  "requeueRunning now i runner reason token = retry now i runner now reason token"

subsection \<open>Maintenance and retention\<close>

text \<open>Foreign keys are declared with \<^verbatim>\<open>ON DELETE SET NULL\<close>.\<close>

definition delete_jobs :: "(job \<Rightarrow> bool) \<Rightarrow> worker_db \<Rightarrow> nat \<times> worker_db" where
  "delete_jobs P db =
     (let gone = filter P (jobs db) in
      (length gone,
       db\<lparr>jobs := map (\<lambda>r. if \<exists>g \<in> set gone. dependsOnJobId r = Some (job_id g)
                          then r\<lparr>dependsOnJobId := None\<rparr> else r)
                    (filter (\<lambda>r. \<not> P r) (jobs db))\<rparr>))"

definition delete_operations :: "(operation \<Rightarrow> bool) \<Rightarrow> worker_db \<Rightarrow> worker_db" where
  "delete_operations P db =
     (let gone = filter P (operations db) in
      db\<lparr>operations := filter (\<lambda>op. \<not> P op) (operations db),
         jobs := map (\<lambda>r. if \<exists>g \<in> set gone. operationId r = Some (op_id g)
                       then r\<lparr>operationId := None\<rparr> else r) (jobs db)\<rparr>)"

definition newest_first :: "job \<Rightarrow> (int \<times> int) \<times> int" where
  "newest_first r =
     ((case completedAt r of None \<Rightarrow> (1, 0) | Some t \<Rightarrow> (0, - t)), - createdAt r)"

definition trim :: "string \<Rightarrow> job_status \<Rightarrow> nat \<Rightarrow> worker_db \<Rightarrow> nat \<times> worker_db" where
  "trim w st keepCount db =
     (let ids = map job_id (drop keepCount (sort_key newest_first
            (filter (\<lambda>r. workerId r = w \<and> status r = st \<and> operationId r = None) (jobs db))))
      in delete_jobs (\<lambda>r. job_id r \<in> set ids) db)"

definition trimMany :: "job_status \<Rightarrow> (string, nat) jsmap \<Rightarrow> worker_db \<Rightarrow> nat \<times> worker_db" where
  "trimMany st keepCounts db =
     (if keepCounts = [] then (0, db)
      else
        (let ids = concat (map (\<lambda>(w, keep). map job_id (drop keep (sort_key newest_first
               (filter (\<lambda>r. workerId r = w \<and> status r = st \<and> operationId r = None) (jobs db))))) keepCounts)
         in delete_jobs (\<lambda>r. job_id r \<in> set ids) db))"

definition terminalStandaloneJobsWhere :: "job_status option \<Rightarrow> int option \<Rightarrow> job \<Rightarrow> bool" where
  "terminalStandaloneJobsWhere st cutoff r \<longleftrightarrow>
     (case st of None \<Rightarrow> terminal (status r) | Some s \<Rightarrow> status r = s)
     \<and> operationId r = None
     \<and> (case cutoff of None \<Rightarrow> True | Some t \<Rightarrow> createdAt r < secs t)"

definition purgeTerminalJobs :: "job_status option \<Rightarrow> int option \<Rightarrow> worker_db \<Rightarrow> nat \<times> worker_db" where
  "purgeTerminalJobs st cutoff = delete_jobs (terminalStandaloneJobsWhere st cutoff)"

definition countTerminalJobs :: "job_status option \<Rightarrow> int option \<Rightarrow> worker_db \<Rightarrow> nat" where
  "countTerminalJobs st cutoff db = length (filter (terminalStandaloneJobsWhere st cutoff) (jobs db))"

definition finalizeTerminalOperations :: "int \<Rightarrow> int \<Rightarrow> worker_db \<Rightarrow> nat \<times> worker_db" where
  "finalizeTerminalOperations now retentionDays db =
     (let ids = map op_id (filter (\<lambda>op. terminal (op_status op) \<and> retentionUntil op = None) (operations db)) in
      if ids = [] then (0, db)
      else (length ids,
        forEachChunked ids (\<lambda>c db. db\<lparr>operations := update_where (\<lambda>op. op_id op \<in> set c)
          (\<lambda>op. op\<lparr>retentionUntil := Some (secs (now + retentionDays * 86400000)), op_updatedAt := secs now\<rparr>)
          (operations db)\<rparr>) db))"

text \<open>The deletion is a transaction of its own, on the ids read before it.\<close>

definition expired_operations :: "int \<Rightarrow> worker_db \<Rightarrow> operation_id list" where
  "expired_operations now db =
     map op_id (filter (\<lambda>op. (case retentionUntil op of None \<Rightarrow> False | Some t \<Rightarrow> t < secs now)
       \<and> terminal (op_status op)) (operations db))"

definition delete_with_jobs :: "operation_id list \<Rightarrow> worker_db \<Rightarrow> nat \<times> worker_db" where
  "delete_with_jobs ids db =
     (case delete_jobs (\<lambda>r. \<exists>oid \<in> set ids. operationId r = Some oid) db of
        (n, db1) \<Rightarrow> (n, delete_operations (\<lambda>op. op_id op \<in> set ids) db1))"

definition cleanupExpiredOperations :: "int \<Rightarrow> worker_db \<Rightarrow> nat \<times> worker_db" where
  "cleanupExpiredOperations now db =
     (let db1 = snd (finalizeTerminalOperations now 7 db);
          ids = expired_operations now db1
      in if ids = [] then (0, db1)
         else (length ids, forEachChunked ids (\<lambda>c db. snd (delete_with_jobs c db)) db1))"

definition terminalOperationsWhere :: "job_status option \<Rightarrow> int option \<Rightarrow> operation \<Rightarrow> bool" where
  "terminalOperationsWhere st cutoff op \<longleftrightarrow>
     (case st of None \<Rightarrow> terminal (op_status op) | Some s \<Rightarrow> op_status op = s)
     \<and> (case cutoff of None \<Rightarrow> True | Some t \<Rightarrow> op_createdAt op < secs t)"

definition removeOperation :: "operation_id \<Rightarrow> worker_db \<Rightarrow> worker_db" where
  "removeOperation oid = delete_operations (\<lambda>op. op_id op = oid)"

definition reconcile_status :: "bool \<Rightarrow> int \<Rightarrow> int \<Rightarrow> int \<Rightarrow> int \<Rightarrow> job_status" where
  "reconcile_status cancelled activeJobs running finished failed =
     (if activeJobs = 0 \<or> cancelled then Cancelled
      else if running > 0 then Running
      else if finished < activeJobs then Pending
      else if failed > 0 then Failed else Completed)"

definition reconcileFromJobs :: "int \<Rightarrow> operation_id \<Rightarrow> worker_db \<Rightarrow> int \<times> worker_db" where
  "reconcileFromJobs clock oid db =
     (let n = (\<lambda>st. int (jobs_of (jobs db) oid st));
          activeJobs = n Pending + n Running + n Completed + n Failed;
          finished = n Completed + n Failed;
          cancelled = (case find (\<lambda>op. op_id op = oid) (operations db) of
                         None \<Rightarrow> False | Some op \<Rightarrow> cancelRequested op);
          st = reconcile_status cancelled activeJobs (n Running) finished (n Failed)
      in (activeJobs,
          updateOperation oid (\<lambda>op.
            op\<lparr>totalItems := activeJobs, pendingItems := n Pending, runningItems := n Running,
               completedItems := n Completed, failedItems := n Failed, cancelledItems := 0,
               op_status := st,
               op_completedAt := (if st = Pending \<or> st = Running then None else Some (secs clock)),
               op_progress := Some (if activeJobs = 0 then 100
                 else clamp ((200 * finished + activeJobs) div (2 * activeJobs)) 0 100),
               op_updatedAt := secs clock\<rparr>) db))"

end
