(* ===== verification/Queue_Moves.thy ===== *)
theory Queue_Moves
  imports Worker_Jobs
begin

section \<open>Moves: the abstract steps of the job queue\<close>

text \<open>
  Every writer of the queue is a sequence of abstract steps: a \<open>move\<close> takes the rows that
  satisfy a guard from one status to another and marks their operations by the number of rows
  moved, a \<open>note\<close> changes no status and no counter. This theory states the invariant of the
  tables, shows that each abstract step keeps it, and refines the writers of
  \<^verbatim>\<open>cancellation.writer.ts\<close> and \<^verbatim>\<open>claims.writer.ts\<close> to sequences of steps.
\<close>

subsection \<open>The invariant\<close>

definition ids_distinct :: "worker_db \<Rightarrow> bool" where
  "ids_distinct db \<longleftrightarrow> distinct (map job_id (jobs db)) \<and> distinct (map op_id (operations db))"

definition dedupe_clash :: "job \<Rightarrow> job \<Rightarrow> bool" where
  "dedupe_clash r s \<longleftrightarrow> active (status r) \<and> active (status s) \<and> dedupeKey r \<noteq> None
     \<and> dedupeKey r = dedupeKey s \<and> workerId r = workerId s"

definition active_unique :: "job list \<Rightarrow> bool" where
  "active_unique rows \<longleftrightarrow>
     (\<forall>r \<in> set rows. \<forall>s \<in> set rows. dedupe_clash r s \<longrightarrow> job_id r = job_id s)"

text \<open>A row never depends on itself or on a later row.\<close>

fun deps_back :: "job list \<Rightarrow> bool" where
  "deps_back [] \<longleftrightarrow> True"
| "deps_back (r # rows) \<longleftrightarrow>
     (case dependsOnJobId r of None \<Rightarrow> True | Some d \<Rightarrow> d \<notin> set (map job_id (r # rows))) \<and> deps_back rows"

definition tables_ok :: "worker_db \<Rightarrow> bool" where
  "tables_ok db \<longleftrightarrow> ids_distinct db \<and> active_unique (jobs db) \<and> deps_back (jobs db)"

definition queue_inv :: "(operation_id \<Rightarrow> int) \<Rightarrow> (operation_id \<Rightarrow> int) \<Rightarrow> worker_db \<Rightarrow> bool" where
  "queue_inv slots history db \<longleftrightarrow>
     tables_ok db \<and> balanced slots history db \<and> (\<forall>op \<in> set (operations db). quiet op)"

subsection \<open>Moves\<close>

definition keeps :: "(job \<Rightarrow> job) \<Rightarrow> bool" where
  "keeps f \<longleftrightarrow> (\<forall>r. job_id (f r) = job_id r \<and> workerId (f r) = workerId r \<and> operationId (f r) = operationId r
     \<and> dependsOnJobId (f r) = dependsOnJobId r \<and> dedupeKey (f r) = dedupeKey r)"

definition op_keeps :: "(operation \<Rightarrow> operation) \<Rightarrow> bool" where
  "op_keeps g \<longleftrightarrow> (\<forall>op. op_id (g op) = op_id op \<and> (\<forall>st. counter st (g op) = counter st op)
     \<and> totalItems (g op) = totalItems op \<and> cancelRequested (g op) = cancelRequested op
     \<and> op_status (g op) = op_status op)"

definition transition ::
  "(int \<Rightarrow> operation \<Rightarrow> operation) \<Rightarrow> (job \<Rightarrow> bool) \<Rightarrow> (job \<Rightarrow> job) \<Rightarrow> worker_db \<Rightarrow> worker_db" where
  "transition mark P f db =
     \<lparr>jobs = update_where P f (jobs db),
      operations = map (\<lambda>op. mark (int (moved P (jobs db) (op_id op))) op) (operations db)\<rparr>"

inductive move :: "worker_db \<Rightarrow> worker_db \<Rightarrow> bool" where
  moveI: "job_mark mark src dst \<Longrightarrow> \<forall>r \<in> set (jobs db). P r \<longrightarrow> status r = src \<Longrightarrow>
    (\<And>r. status (f r) = dst) \<Longrightarrow> keeps f \<Longrightarrow> move db (transition mark P f db)"
| noteI: "keeps f \<Longrightarrow> (\<And>r. status (f r) = status r) \<Longrightarrow> (\<And>r. job_result (f r) = job_result r) \<Longrightarrow> op_keeps g \<Longrightarrow>
    move db \<lparr>jobs = update_where P f (jobs db), operations = update_where Q g (operations db)\<rparr>"

inductive_cases moveE: "move db db'"

abbreviation moves :: "worker_db \<Rightarrow> worker_db \<Rightarrow> bool" where
  "moves \<equiv> move\<^sup>*\<^sup>*"

lemma update_where_map:
  "(\<And>r. h (f r) = h r) \<Longrightarrow> map h (update_where P f rows) = map h rows"
  by (induction rows) (simp_all add: update_where_def)

lemma in_update_where: "s \<in> set (update_where P f rows) \<longleftrightarrow> (\<exists>r \<in> set rows. s = (if P r then f r else r))"
  by (auto simp: update_where_def)

lemma deps_back_update_where:
  assumes "\<And>r. job_id (f r) = job_id r" and "\<And>r. dependsOnJobId (f r) = dependsOnJobId r"
  shows "deps_back (update_where P f rows) = deps_back rows"
proof (induction rows)
  case Nil
  then show ?case by (simp add: update_where_def)
next
  case (Cons r rows)
  have "map job_id (update_where P f (r # rows)) = map job_id (r # rows)"
    by (rule update_where_map) (rule assms(1))
  then have "set (map job_id (update_where P f (r # rows))) = set (map job_id (r # rows))" by simp
  with Cons show ?case by (auto simp: update_where_def assms split: option.split)
qed

lemma active_unique_update_where:
  assumes "active_unique rows" and "keeps f"
    and "\<And>r. r \<in> set rows \<Longrightarrow> P r \<Longrightarrow> active (status (f r)) \<Longrightarrow> active (status r)"
  shows "active_unique (update_where P f rows)"
  unfolding active_unique_def
proof (intro ballI impI)
  fix r' s'
  assume "r' \<in> set (update_where P f rows)" "s' \<in> set (update_where P f rows)" and c: "dedupe_clash r' s'"
  then obtain r s where r: "r \<in> set rows" "r' = (if P r then f r else r)"
    and s: "s \<in> set rows" "s' = (if P s then f s else s)"
    by (auto simp: in_update_where)
  have "dedupe_clash r s"
    using c assms(2) assms(3)[OF r(1)] assms(3)[OF s(1)]
    by (auto simp: r(2) s(2) dedupe_clash_def keeps_def split: if_splits)
  then have "job_id r = job_id s" using assms(1) r(1) s(1) by (simp add: active_unique_def)
  then show "job_id r' = job_id s'"
    using assms(2) by (simp add: r(2) s(2) keeps_def)
qed

lemma move_jobs:
  assumes "move db db'"
  shows "\<exists>P f. keeps f \<and> jobs db' = update_where P f (jobs db)
     \<and> (\<forall>r \<in> set (jobs db). P r \<longrightarrow>
          (status (f r) = status r \<and> job_result (f r) = job_result r) \<or> active (status r))"
  using assms
proof cases
  case (moveI mark src dst P f)
  then have "active src" by (auto simp: job_mark_def)
  with moveI show ?thesis
    by (intro exI[of _ P] exI[of _ f]) (auto simp: transition_def)
next
  case (noteI f g P Q)
  then show ?thesis by (intro exI[of _ P] exI[of _ f]) auto
qed

lemma move_operations:
  assumes "move db db'"
  shows "map op_id (operations db') = map op_id (operations db)"
  using assms
proof cases
  case (moveI mark src dst P f)
  then show ?thesis by (simp add: transition_def job_mark.mark_id)
next
  case (noteI f g P Q)
  then show ?thesis by (simp add: update_where_map op_keeps_def)
qed

lemma move_tables_ok: "move db db' \<Longrightarrow> tables_ok db \<Longrightarrow> tables_ok db'"
proof -
  assume m: "move db db'" and ok: "tables_ok db"
  from move_jobs[OF m] obtain P f where f: "keeps f" and j: "jobs db' = update_where P f (jobs db)"
    and g: "\<forall>r \<in> set (jobs db). P r \<longrightarrow> (status (f r) = status r \<and> job_result (f r) = job_result r) \<or> active (status r)"
    by blast
  have "active_unique (jobs db')"
    unfolding j by (rule active_unique_update_where) (use ok f g in \<open>auto simp: tables_ok_def\<close>)
  moreover have "map job_id (jobs db') = map job_id (jobs db)" "deps_back (jobs db') = deps_back (jobs db)"
    using f unfolding j by (simp_all add: update_where_map deps_back_update_where keeps_def)
  ultimately show "tables_ok db'"
    using ok move_operations[OF m] by (simp add: tables_ok_def ids_distinct_def)
qed

lemma all_jobs_split:
  "all_jobs_of rows oid = jobs_of rows oid Pending + jobs_of rows oid Running + jobs_of rows oid Completed
     + jobs_of rows oid Failed + jobs_of rows oid Cancelled"
proof (induction rows)
  case (Cons r rows)
  then show ?case by (cases "status r") (auto simp: all_jobs_of_def jobs_of_def)
qed (simp add: all_jobs_of_def jobs_of_def)

lemma balanced_itemized:
  assumes "balanced slots history db" and "op \<in> set (operations db)"
  shows "itemized (slots (op_id op)) op"
proof -
  from assms have b: "0 \<le> slots (op_id op)"
    "\<And>st. counter st op = int (jobs_of (jobs db) (op_id op) st) + offset slots history (op_id op) st"
    "totalItems op = int (all_jobs_of (jobs db) (op_id op)) - history (op_id op)"
    by (auto simp: balanced_def)
  from b(1,3) b(2)[of Pending] b(2)[of Running] b(2)[of Completed] b(2)[of Failed] b(2)[of Cancelled]
  show ?thesis by (simp add: itemized_def offset_def counter_def all_jobs_split)
qed

lemma op_keeps_quiet: "op_keeps g \<Longrightarrow> quiet (g op) = quiet op"
proof -
  assume g: "op_keeps g"
  then have "counter Pending (g op) = counter Pending op" "counter Running (g op) = counter Running op"
    by (simp_all add: op_keeps_def)
  with g show ?thesis by (simp add: op_keeps_def quiet_def counter_def)
qed

lemma jobs_of_note:
  assumes "keeps f" and "\<And>r. status (f r) = status r"
  shows "jobs_of (update_where P f rows) oid st = jobs_of rows oid st"
    and "all_jobs_of (update_where P f rows) oid = all_jobs_of rows oid"
  by (induction rows) (use assms in \<open>auto simp: jobs_of_def all_jobs_of_def update_where_def keeps_def\<close>)

lemma move_inv: "move db db' \<Longrightarrow> queue_inv slots history db \<Longrightarrow> queue_inv slots history db'"
proof -
  assume m: "move db db'" and inv: "queue_inv slots history db"
  then have bal: "balanced slots history db" and q: "\<forall>op \<in> set (operations db). quiet op"
    by (simp_all add: queue_inv_def)
  from m have "balanced slots history db' \<and> (\<forall>op \<in> set (operations db'). quiet op)"
  proof cases
    case (moveI mark src dst P f)
    note job = moveI(2)
    have "quiet (mark (int (moved P (jobs db) (op_id op))) op)" if op: "op \<in> set (operations db)" for op
    proof (rule job_mark.mark_quiet[OF job])
      show "quiet op" using q op by blast
      show "itemized (slots (op_id op)) op" by (rule balanced_itemized[OF bal op])
      show "int (moved P (jobs db) (op_id op)) + (if src = Running then slots (op_id op) else 0) \<le> counter src op"
        using bal op moved_le[OF moveI(3), of "op_id op"] job_mark.src_active[OF job]
        by (auto simp: balanced_def offset_def active_def)
    qed simp
    moreover have "balanced slots history db'"
      using moveI by (intro job_mark.balanced_transition[OF job bal moveI(3)]) (auto simp: transition_def keeps_def)
    ultimately show ?thesis by (auto simp: moveI(1) transition_def)
  next
    case (noteI f g P Q)
    have "quiet op'" if "op' \<in> set (operations db')" for op'
      using that q op_keeps_quiet[OF noteI(5)] by (auto simp: noteI(1) in_update_where)
    moreover have "balanced slots history db'"
      using bal noteI(5)
      by (auto simp: noteI(1) balanced_def in_update_where op_keeps_def jobs_of_note[OF noteI(2,3)])
    ultimately show ?thesis by blast
  qed
  with move_tables_ok[OF m] inv show "queue_inv slots history db'" by (simp add: queue_inv_def)
qed

subsection \<open>The cascade\<close>

text \<open>The pending jobs that depend, through pending jobs, on one of the given parents.\<close>

inductive pending_below :: "job list \<Rightarrow> job_id set \<Rightarrow> job \<Rightarrow> bool" for rows parents where
  below_direct: "r \<in> set rows \<Longrightarrow> status r = Pending \<Longrightarrow> dependsOnJobId r = Some p \<Longrightarrow> p \<in> parents \<Longrightarrow>
    pending_below rows parents r"
| below_step: "pending_below rows parents s \<Longrightarrow> r \<in> set rows \<Longrightarrow> status r = Pending \<Longrightarrow>
    dependsOnJobId r = Some (job_id s) \<Longrightarrow> pending_below rows parents r"

lemma pending_below_row: "pending_below rows parents r \<Longrightarrow> r \<in> set rows \<and> status r = Pending"
  by (induction rule: pending_below.induct) auto

lemma set_pending_dependents:
  "set (pending_dependents rows frontier) =
     {r \<in> set rows. status r = Pending \<and> (\<exists>p \<in> set frontier. dependsOnJobId r = Some p)}"
proof -
  have "r \<in> set (pending_dependents rows frontier) \<longleftrightarrow>
      (\<exists>p \<in> set frontier. r \<in> set rows \<and> dependsOnJobId r = Some p \<and> status r = Pending)" for r
    unfolding pending_dependents_def by (rule in_mapChunked) auto
  then show ?thesis by auto
qed

lemma pending_below_unfold:
  "pending_below rows parents r \<longleftrightarrow>
     (\<exists>s \<in> set rows. status s = Pending \<and> (\<exists>p \<in> parents. dependsOnJobId s = Some p) \<and>
        (r = s \<or> pending_below rows {job_id s} r))"
proof
  show "pending_below rows parents r \<Longrightarrow> \<exists>s \<in> set rows. status s = Pending \<and>
      (\<exists>p \<in> parents. dependsOnJobId s = Some p) \<and> (r = s \<or> pending_below rows {job_id s} r)"
  proof (induction rule: pending_below.induct)
    case (below_step s r)
    then show ?case by (blast intro: pending_below.intros)
  qed blast
next
  have mono: "pending_below rows {job_id s} r \<Longrightarrow> pending_below rows parents s \<Longrightarrow> pending_below rows parents r" for s
    by (induction rule: pending_below.induct) (blast intro: pending_below.intros)+
  show "\<exists>s \<in> set rows. status s = Pending \<and> (\<exists>p \<in> parents. dependsOnJobId s = Some p) \<and>
      (r = s \<or> pending_below rows {job_id s} r) \<Longrightarrow> pending_below rows parents r"
    using mono by (blast intro: below_direct)
qed

lemma pending_below_levels:
  assumes "D = {s \<in> set rows. status s = Pending \<and> (\<exists>p \<in> parents. dependsOnJobId s = Some p)}"
  shows "{r. pending_below rows parents r} = D \<union> {r. pending_below rows (job_id ` D) r}"
proof -
  have "pending_below rows (job_id ` D) r \<longleftrightarrow> (\<exists>s \<in> D. pending_below rows {job_id s} r)" for r
    using pending_below_unfold[of rows "job_id ` D" r] pending_below_unfold[of rows "{job_id _}" r] by blast
  with assms show ?thesis by (subst pending_below_unfold) blast
qed

lemma pending_below_dependents:
  "{r. pending_below rows (set frontier) r} =
     set (pending_dependents rows frontier)
       \<union> {r. pending_below rows (set (map job_id (pending_dependents rows frontier))) r}"
  using pending_below_levels[of "set (pending_dependents rows frontier)" rows "set frontier"]
  by (simp add: set_pending_dependents)

lemma pending_below_none: "{r. pending_below rows {} r} = {}"
  using pending_below_unfold[of rows "{}"] by simp

lemma deps_back_split:
  "deps_back (ps @ rs) \<Longrightarrow> r \<in> set ps \<Longrightarrow> s \<in> set rs \<Longrightarrow> dependsOnJobId r \<noteq> Some (job_id s)"
  by (induction ps) auto

lemma deps_back_append: "deps_back (ps @ rs) \<Longrightarrow> deps_back rs"
  by (induction ps) auto

text \<open>
  The loop ends: the frontier only moves towards later rows. It collects exactly the pending
  jobs below the parents.
\<close>

lemma cascade_levels_result:
  assumes "rows = ps @ rs" and "deps_back rows" and "set (pending_dependents rows frontier) \<subseteq> set rs"
  shows "\<exists>res. cascade_levels rows frontier acc = Some res
     \<and> set res = set acc \<union> {r. pending_below rows (set frontier) r}"
  using assms
proof (induction rs arbitrary: ps frontier acc)
  case Nil
  then have none: "pending_dependents rows frontier = []" by simp
  then have "{r. pending_below rows (set frontier) r} = {}"
    by (subst pending_below_dependents) (simp add: none pending_below_none)
  with none show ?case by (subst cascade_levels.simps) (auto simp: Let_def)
next
  case (Cons r rs)
  let ?ds = "pending_dependents rows frontier"
  have below: "{r. pending_below rows (set frontier) r} =
      set ?ds \<union> {r. pending_below rows (set (map job_id ?ds)) r}"
    by (rule pending_below_dependents)
  show ?case
  proof (cases "?ds = []")
    case True
    then have "{r. pending_below rows (set frontier) r} = {}"
      using below by (simp add: pending_below_none)
    with True show ?thesis by (subst cascade_levels.simps) (auto simp: Let_def)
  next
    case False
    then have ne: "frontier \<noteq> []" by (auto simp: pending_dependents_def mapChunked_def)
    have "c \<in> set rs" if c: "c \<in> set (pending_dependents rows (map job_id ?ds))" for c
    proof -
      from c obtain d where d: "d \<in> set (r # rs)" and dep: "dependsOnJobId c = Some (job_id d)" and row: "c \<in> set rows"
        using Cons.prems(3) by (auto simp: set_pending_dependents)
      from deps_back_split[of ps "r # rs" c d] Cons.prems(1,2) d dep have "c \<notin> set ps" by auto
      moreover have "c \<noteq> r"
        using deps_back_append[of ps "r # rs"] Cons.prems(1,2) d dep by auto
      ultimately show ?thesis using row Cons.prems(1) by auto
    qed
    then obtain res where "cascade_levels rows (map job_id ?ds) (acc @ ?ds) = Some res"
      "set res = set (acc @ ?ds) \<union> {r. pending_below rows (set (map job_id ?ds)) r}"
      using Cons.IH[of "ps @ [r]" "map job_id ?ds" "acc @ ?ds"] Cons.prems(1,2) by auto
    with False ne below show ?thesis by (subst cascade_levels.simps) (auto simp: Let_def)
  qed
qed

lemma cascade_levels_ends:
  "deps_back rows \<Longrightarrow> \<exists>res. cascade_levels rows frontier [] = Some res
     \<and> set res = {r. pending_below rows (set frontier) r}"
  using cascade_levels_result[of rows "[]" rows frontier "[]"] by (auto simp: set_pending_dependents)

subsection \<open>The writers as moves\<close>

lemma transition_none:
  assumes "job_mark mark src dst" and "\<forall>r \<in> set (jobs db). \<not> P r"
  shows "transition mark P f db = db"
proof -
  have "update_where P f (jobs db) = jobs db"
    using assms(2) by (simp add: update_where_def map_idI)
  moreover have "moved P (jobs db) oid = 0" for oid using assms(2) by (simp add: moved_def)
  ultimately show ?thesis by (simp add: transition_def job_mark.mark_none[OF assms(1)])
qed

lemma update_where_cong:
  "(\<And>r. r \<in> set rows \<Longrightarrow> P r = Q r) \<Longrightarrow> update_where P f rows = update_where Q f rows"
  by (simp add: update_where_def)

lemma moved_cong: "(\<And>r. r \<in> set rows \<Longrightarrow> P r = Q r) \<Longrightarrow> moved P rows oid = moved Q rows oid"
  unfolding moved_def by (rule arg_cong[of _ _ length], rule filter_cong) auto

lemma transition_cong:
  "(\<And>r. r \<in> set (jobs db) \<Longrightarrow> P r = Q r) \<Longrightarrow> transition mark P f db = transition mark Q f db"
  unfolding transition_def
  by (simp add: update_where_cong[of "jobs db" P Q] moved_cong[of "jobs db" P Q])

text \<open>Counting the rows of a batch by operation gives the numbers of a move.\<close>

lemma amount_moved:
  fixes xs rows :: "job list"
  assumes "distinct (map job_id xs)" and "distinct (map job_id rows)"
    and "(\<lambda>r. (job_id r, operationId r)) ` set xs = (\<lambda>r. (job_id r, operationId r)) ` {r \<in> set rows. P r}"
  shows "amount_for (map operationId xs) oid = moved P rows oid"
proof -
  define key where "key = (\<lambda>r :: job. (job_id r, operationId r))"
  have len: "length (filter (\<lambda>p. snd p = Some oid) (map key ys)) = length (filter (\<lambda>r. operationId r = Some oid) ys)" for ys
    by (induction ys) (auto simp: key_def)
  have dist: "distinct (map key ys)" if "distinct (map job_id ys)" for ys
    using that by (auto simp: key_def distinct_map inj_on_def)
  have "distinct (map job_id (filter P rows))" using assms(2) by (rule distinct_map_filter)
  then have "mset (map key xs) = mset (map key (filter P rows))"
    using assms(1,3) dist by (subst set_eq_iff_mset_eq_distinct[symmetric]) (auto simp: key_def)
  then have "mset (filter (\<lambda>p. snd p = Some oid) (map key xs)) = mset (filter (\<lambda>p. snd p = Some oid) (map key (filter P rows)))"
    by (simp add: mset_filter)
  then have "length (filter (\<lambda>r. operationId r = Some oid) xs) = length (filter (\<lambda>r. operationId r = Some oid) (filter P rows))"
    unfolding len[symmetric] by (rule mset_eq_length)
  then show ?thesis by (simp add: amount_for_def moved_def filter_map o_def conj_commute)
qed

lemma amount_returning:
  assumes "keeps f"
  shows "amount_for (map operationId (returning P f rows)) oid = moved P rows oid"
  using assms by (simp add: amount_for_def moved_def returning_def keeps_def filter_map o_def conj_commute)

lemma counts_transition:
  assumes "job_mark mark src dst" and "\<And>oid. amount_for oids oid = moved P (jobs db) oid"
  shows "applyOperationCounts (toOperationCounts oids) mark (update_jobs P f db) = transition mark P f db"
proof -
  have mark0: "mark 0 op = op" for op by (rule job_mark.mark_none[OF assms(1)])
  show ?thesis
    by (rule worker_db.equality)
      (simp_all add: transition_def update_jobs_def operations_applyOperationCounts wf_toOperationCounts
        job_mark.mark_id[OF assms(1)] map_of_toOperationCounts assms(2) mark0)
qed

lemma single_guard:
  assumes "distinct (map job_id rows)" and "\<And>r. P r \<Longrightarrow> job_id r = i"
  shows "filter P rows = [] \<or> (\<exists>r. filter P rows = [r])"
  using assms(1)
proof (induction rows)
  case (Cons r rows)
  have "P r \<Longrightarrow> filter P rows = []"
    using Cons.prems assms(2) by (force simp: filter_empty_conv image_iff)
  with Cons show ?case by auto
qed simp

lemma single_transition:
  assumes "job_mark mark src dst" and "distinct (map job_id (jobs db))" and "\<And>r. P r \<Longrightarrow> job_id r = i"
    and "keeps f" and "returning P f (jobs db) = x # xs"
  shows "mark_operation mark (operationId x) (update_jobs P f db) = transition mark P f db"
proof -
  from single_guard[OF assms(2), of P i] assms(3,5) obtain r where r: "filter P (jobs db) = [r]" "x = f r"
    by (auto simp: returning_def)
  have op: "operationId x = operationId r" using assms(4) by (simp add: r(2) keeps_def)
  have "moved P (jobs db) oid = length (filter (\<lambda>r. operationId r = Some oid) (filter P (jobs db)))" for oid
    by (simp add: moved_def conj_commute)
  then have n: "moved P (jobs db) oid = (if operationId r = Some oid then 1 else 0)" for oid
    by (simp add: r(1))
  show ?thesis
    by (rule worker_db.equality)
      (auto simp: mark_operation_def op transition_def update_jobs_def updateOperation_def update_where_def n
        job_mark.mark_none[OF assms(1)] split: option.split)
qed

lemma keeps_rows:
  "keeps (cancel_row now)" "keeps (cancel_row now \<circ> release_claim)" "keeps (requeue_row now)"
  "keeps (exhaust_row now)" "keeps (claim_row token input)" "keeps (complete_row now res)"
  "keeps (retry_row now t err)" "keeps (fail_row now err)"
  by (simp_all add: keeps_def cancel_row_def release_claim_def requeue_row_def exhaust_row_def claim_row_def
      complete_row_def retry_row_def fail_row_def)

lemma status_rows:
  "status (cancel_row now r) = Cancelled" "status ((cancel_row now \<circ> release_claim) r) = Cancelled"
  "status (requeue_row now r) = Pending" "status (exhaust_row now r) = Failed"
  "status (claim_row token input r) = Running" "status (complete_row now res r) = Completed"
  "status (retry_row now t err r) = Pending" "status (fail_row now err r) = Failed"
  by (simp_all add: cancel_row_def release_claim_def requeue_row_def exhaust_row_def claim_row_def
      complete_row_def retry_row_def fail_row_def)

lemma tables_okD:
  assumes "tables_ok db"
  shows "distinct (map job_id (jobs db))" and "distinct (map op_id (operations db))"
    and "deps_back (jobs db)" and "active_unique (jobs db)"
  using assms by (simp_all add: tables_ok_def ids_distinct_def)

lemma same_row: "distinct (map job_id rows) \<Longrightarrow> r \<in> set rows \<Longrightarrow> s \<in> set rows \<Longrightarrow> job_id r = job_id s \<Longrightarrow> r = s"
  by (auto simp: distinct_map inj_on_def)

text \<open>The cascade is one move: it withdraws exactly the pending jobs below the parents.\<close>

lemma cascadeCancel_transition:
  assumes ok: "tables_ok db"
  shows "cascadeCancel now ps db =
     Some (transition (markPendingJobsCancelled now) (pending_below (jobs db) (set ps)) (cancel_row now) db)"
proof -
  let ?P = "pending_below (jobs db) (set ps)"
  note dist = tables_okD(1)[OF ok]
  obtain res where res: "cascade_levels (jobs db) ps [] = Some res" "set res = {r. ?P r}"
    using cascade_levels_ends[OF tables_okD(3)[OF ok]] by blast
  show ?thesis
  proof (cases "res = []")
    case True
    with res have "\<forall>r \<in> set (jobs db). \<not> ?P r" by auto
    then show ?thesis
      using res True by (simp add: cascadeCancel_def transition_none[OF mark_pending_cancelled.job_mark_axioms])
  next
    case False
    define uniq where "uniq = map snd (to_map job_id res)"
    have fst_snd: "\<And>p. p \<in> set (to_map job_id res) \<Longrightarrow> fst p = job_id (snd p) \<and> snd p \<in> set res"
      using to_map_values[of _ _ job_id res] by auto
    have "map job_id uniq = keys (to_map job_id res)"
      using fst_snd by (auto simp: uniq_def)
    then have ids: "distinct (map job_id uniq)" "set (map job_id uniq) = job_id ` set res"
      by (simp_all only: wf_to_map set_keys_to_map)
    have sub: "set res \<subseteq> set (jobs db)" using res(2) pending_below_row by blast
    have uniq_sub: "set uniq \<subseteq> set res" using fst_snd by (auto simp: uniq_def)
    have "r \<in> set uniq" if r: "r \<in> set res" for r
    proof -
      from r ids(2) obtain u where u: "u \<in> set uniq" "job_id u = job_id r" by (metis imageE image_eqI set_map)
      then have "u = r" using same_row[OF dist] uniq_sub sub r by blast
      with u show ?thesis by simp
    qed
    with uniq_sub have set_uniq: "set uniq = {r \<in> set (jobs db). ?P r}" using res(2) sub by blast
    have guard: "(job_id r \<in> set (map job_id uniq) \<and> status r = Pending) = ?P r" if r: "r \<in> set (jobs db)" for r
    proof
      assume "job_id r \<in> set (map job_id uniq) \<and> status r = Pending"
      then obtain u where "u \<in> set uniq" "job_id u = job_id r" by auto
      then have "u = r" "?P u" using same_row[OF dist _ r] set_uniq by auto
      then show "?P r" by simp
    next
      assume "?P r"
      then show "job_id r \<in> set (map job_id uniq) \<and> status r = Pending"
        using r set_uniq pending_below_row[of "jobs db" "set ps" r] by simp
    qed
    have "cancel_pending_ids now (map job_id uniq) db = update_jobs ?P (cancel_row now) db"
      using guard
      by (simp add: cancel_pending_ids_def status_rows
          forEachChunked_update_jobs[where Q = "\<lambda>r. status r = Pending" and f = "cancel_row now"]
          update_jobs_def update_where_def)
    moreover have "amount_for (map operationId uniq) oid = moved ?P (jobs db) oid" for oid
      by (rule amount_moved[OF ids(1) dist]) (simp add: set_uniq)
    ultimately show ?thesis
      using res(1) False
      by (simp add: cascadeCancel_def Let_def uniq_def[symmetric]
          counts_transition[OF mark_pending_cancelled.job_mark_axioms])
  qed
qed

lemma move_transition:
  "job_mark mark src dst \<Longrightarrow> \<forall>r \<in> set (jobs db). P r \<longrightarrow> status r = src \<Longrightarrow> (\<And>r. status (f r) = dst) \<Longrightarrow> keeps f
     \<Longrightarrow> moves db (transition mark P f db)"
  by (rule r_into_rtranclp) (rule moveI)

lemma moves_tables_ok: "moves db db' \<Longrightarrow> tables_ok db \<Longrightarrow> tables_ok db'"
  by (induction rule: rtranclp_induct) (auto intro: move_tables_ok)

lemma moves_inv: "moves db db' \<Longrightarrow> queue_inv slots history db \<Longrightarrow> queue_inv slots history db'"
  by (induction rule: rtranclp_induct) (auto intro: move_inv)

lemma cascade_moves: "tables_ok db \<Longrightarrow> \<exists>db'. cascadeCancel now ps db = Some db' \<and> moves db db'"
  using move_transition[OF mark_pending_cancelled.job_mark_axioms, of db "pending_below (jobs db) (set ps)" "cancel_row now" now]
  by (auto simp: cascadeCancel_transition status_rows keeps_rows dest: pending_below_row)

lemma cancelPending_moves:
  assumes ok: "tables_ok db"
  shows "\<exists>b db'. cancelPending now i db = Some (b, db') \<and> moves db db'"
proof -
  let ?P = "\<lambda>r. job_id r = i \<and> status r = Pending"
  show ?thesis
  proof (cases "returning ?P (cancel_row now) (jobs db)")
    case Nil
    then show ?thesis by (auto simp: cancelPending_def Let_def)
  next
    case (Cons x xs)
    let ?db = "transition (markPendingJobsCancelled now) ?P (cancel_row now) db"
    have eq: "(case operationId x of None \<Rightarrow> update_jobs ?P (cancel_row now) db
        | Some oid \<Rightarrow> updateOperation oid (markPendingJobsCancelled now 1) (update_jobs ?P (cancel_row now) db)) = ?db"
      using single_transition[OF mark_pending_cancelled.job_mark_axioms tables_okD(1)[OF ok] _ keeps_rows(1) Cons]
      by (simp add: mark_operation_def)
    have m: "moves db ?db"
      by (rule move_transition[OF mark_pending_cancelled.job_mark_axioms]) (auto simp: status_rows keeps_rows)
    then obtain db' where "cascadeCancel now [i] ?db = Some db'" "moves ?db db'"
      using cascade_moves[OF moves_tables_ok[OF m ok]] by blast
    with Cons eq m show ?thesis by (auto simp: cancelPending_def Let_def)
  qed
qed

lemma guarded_running_moves:
  assumes ok: "tables_ok db" and mark: "job_mark mark Running dst"
    and f: "keeps f" "\<And>r. status (f r) = dst"
    and x: "returning (runningJobWhere i runner token) f (jobs db) = x # xs"
  shows "moves db (mark_operation mark (operationId x) (update_jobs (runningJobWhere i runner token) f db))"
  using single_transition[OF mark tables_okD(1)[OF ok] _ f(1) x, of i]
    move_transition[OF mark _ f(2) f(1), of db "runningJobWhere i runner token"]
  by (auto simp: runningJobWhere_def)

lemma terminalize_moves:
  assumes ok: "tables_ok db" and mark: "job_mark mark Running dst"
    and f: "keeps f" "\<And>r. status (f r) = dst"
  shows "\<exists>b db'. terminalizeRunning (runningJobWhere i runner token) f
      (\<lambda>oid db. Some (mark_operation mark oid db)) db = Some (b, db') \<and> moves db db'"
  using guarded_running_moves[OF ok mark f, of i runner token]
  by (cases "returning (runningJobWhere i runner token) f (jobs db)") (auto simp: terminalizeRunning_def)

lemma complete_moves: "tables_ok db \<Longrightarrow> \<exists>b db'. complete now i runner res token db = Some (b, db') \<and> moves db db'"
  unfolding complete_def
  by (rule terminalize_moves[OF _ mark_completed.job_mark_axioms]) (simp_all add: keeps_rows status_rows)

lemma retry_moves: "tables_ok db \<Longrightarrow> \<exists>b db'. retry now i runner t err token db = Some (b, db') \<and> moves db db'"
  unfolding retry_def
  by (rule terminalize_moves[OF _ mark_retried.job_mark_axioms]) (simp_all add: keeps_rows status_rows)

lemma cancelRunning_moves: "tables_ok db \<Longrightarrow> \<exists>b db'. cancelRunning now i token db = Some (b, db') \<and> moves db db'"
  unfolding cancelRunning_def
  by (rule terminalize_moves[OF _ mark_cancelled.job_mark_axioms]) (simp_all only: keeps_rows status_rows)

lemma fail_moves:
  assumes ok: "tables_ok db"
  shows "\<exists>b db'. fail now i runner err token db = Some (b, db') \<and> moves db db'"
proof (cases "returning (runningJobWhere i (Some runner) token) (fail_row now err) (jobs db)")
  case (Cons x xs)
  let ?d = "mark_operation (markJobFinished Failed now) (operationId x)
    (update_jobs (runningJobWhere i (Some runner) token) (fail_row now err) db)"
  have m: "moves db ?d"
    by (rule guarded_running_moves[OF ok mark_failed.job_mark_axioms _ _ Cons]) (simp_all add: keeps_rows status_rows)
  then obtain db' where "cascadeCancel now [i] ?d = Some db'" "moves ?d db'"
    using cascade_moves[OF moves_tables_ok[OF m ok]] by blast
  with Cons m show ?thesis by (auto simp: fail_def terminalizeRunning_def)
qed (auto simp: fail_def terminalizeRunning_def)

lemma cancelAllRunning_moves:
  "moves db (snd (cancelAllRunning now w db))"
  using move_transition[OF mark_cancelled.job_mark_axioms, of db "\<lambda>r. status r = Running \<and> for_worker w r"
      "cancel_row now \<circ> release_claim" now]
    counts_transition[OF mark_cancelled.job_mark_axioms amount_returning[OF keeps_rows(2)]]
  by (simp add: cancelAllRunning_def Let_def keeps_rows(2) status_rows(2) del: comp_apply)

lemma moved_update_where:
  "keeps f \<Longrightarrow> moved B (update_where P f rows) oid = moved (\<lambda>r. if P r then B (f r) else B r) rows oid"
  by (induction rows) (simp_all add: moved_def update_where_def keeps_def)

text \<open>
  A bulk cancellation counts its own rows after the cascade: two moves, the cascade's rows
  first.
\<close>

lemma cancelPendingWhere_moves:
  assumes ok: "tables_ok db" and P: "\<And>r. P r \<Longrightarrow> status r = Pending"
    and counts: "\<And>d. applyCounts (map operationId (returning P (cancel_row now) (jobs db))) d =
      d\<lparr>operations := map (\<lambda>op. markPendingJobsCancelled now (int (moved P (jobs db) (op_id op))) op) (operations d)\<rparr>"
  shows "\<exists>n db'. cancelPendingWhere now P applyCounts db = Some (n, db') \<and> moves db db'"
proof (cases "returning P (cancel_row now) (jobs db) = []")
  case True
  then have "update_where P (cancel_row now) (jobs db) = jobs db"
    by (auto simp: returning_def filter_empty_conv update_where_def intro: map_idI)
  with True show ?thesis by (simp add: cancelPendingWhere_def Let_def update_jobs_def)
next
  case False
  let ?mark = "markPendingJobsCancelled now" and ?f = "cancel_row now"
  let ?ids = "map job_id (returning P ?f (jobs db))"
  define db1 where "db1 = update_jobs P ?f db"
  define Q where "Q = (\<lambda>r. pending_below (jobs db1) (set ?ids) r \<and> \<not> P r)"
  have j1: "jobs db1 = update_where P ?f (jobs db)" "operations db1 = operations db"
    by (simp_all add: db1_def update_jobs_def)
  have "active_unique (jobs db1)"
    unfolding j1 by (rule active_unique_update_where[OF tables_okD(4)[OF ok] keeps_rows(1)])
      (simp add: status_rows active_def)
  then have ok1: "tables_ok db1"
    using ok by (auto simp: tables_ok_def ids_distinct_def j1 update_where_map deps_back_update_where
        keeps_rows[unfolded keeps_def])
  define db2 where "db2 = transition ?mark (pending_below (jobs db1) (set ?ids)) ?f db1"
  have casc: "cascadeCancel now ?ids db1 = Some db2"
    unfolding db2_def by (rule cascadeCancel_transition[OF ok1])
  define db3 where "db3 = transition ?mark P ?f (transition ?mark Q ?f db)"
  have pend: "\<not> pending_below (jobs db1) (set ?ids) (?f r)" for r
    using pending_below_row[of "jobs db1" "set ?ids" "?f r"] by (auto simp: status_rows)
  have notP: "\<not> P (?f r)" for r using P[of "?f r"] by (auto simp: status_rows)
  have jobs3: "jobs db3 = jobs db2"
    by (simp add: db3_def db2_def transition_def j1 update_where_def Q_def) (auto simp: cancel_row_def notP)
  have mQ: "moved Q (jobs db) oid = moved (pending_below (jobs db1) (set ?ids)) (jobs db1) oid" for oid
    unfolding j1(1) moved_update_where[OF keeps_rows(1)] unfolding j1(1)[symmetric]
    by (rule moved_cong) (use pend in \<open>simp add: Q_def\<close>)
  have mP: "moved P (update_where Q ?f (jobs db)) oid = moved P (jobs db) oid" for oid
    unfolding moved_update_where[OF keeps_rows(1)]
    by (rule moved_cong) (auto simp: Q_def notP)
  have "operations db3 = operations (db2\<lparr>operations := map (\<lambda>op. ?mark (int (moved P (jobs db) (op_id op))) op) (operations db2)\<rparr>)"
    by (simp add: db3_def db2_def transition_def j1 mQ mP mark_pending_cancelled.mark_id)
  then have eq: "applyCounts (map operationId (returning P ?f (jobs db))) db2 = db3"
    using jobs3 by (simp add: counts)
  have Q: "\<forall>r \<in> set (jobs db). Q r \<longrightarrow> status r = Pending"
    by (auto simp: Q_def dest: pending_below_row)
  have "moves db (transition ?mark Q ?f db)"
    by (rule move_transition[OF mark_pending_cancelled.job_mark_axioms Q]) (simp_all add: status_rows keeps_rows)
  moreover have "moves (transition ?mark Q ?f db) db3"
    unfolding db3_def
    by (rule move_transition[OF mark_pending_cancelled.job_mark_axioms]) (use P in \<open>auto simp: status_rows keeps_rows\<close>)
  ultimately have "moves db db3" by (rule rtranclp_trans)
  with False casc eq show ?thesis
    by (simp add: cancelPendingWhere_def Let_def db1_def[symmetric])
qed

lemma cancelPendingByOperation_moves:
  "tables_ok db \<Longrightarrow> \<exists>n db'. cancelPendingByOperation now oid db = Some (n, db') \<and> moves db db'"
  unfolding cancelPendingByOperation_def
proof (rule cancelPendingWhere_moves)
  fix d
  let ?P = "\<lambda>r. operationId r = Some oid \<and> status r = Pending"
  have "moved ?P (jobs db) x = (if x = oid then length (returning ?P (cancel_row now) (jobs db)) else 0)" for x
    by (auto simp: moved_def returning_def intro!: arg_cong[of _ _ length] filter_cong)
  then show "updateOperation oid (markPendingJobsCancelled now (int (length (map operationId (returning ?P (cancel_row now) (jobs db)))))) d
      = d\<lparr>operations := map (\<lambda>op. markPendingJobsCancelled now (int (moved ?P (jobs db) (op_id op))) op) (operations d)\<rparr>"
    by (auto simp: updateOperation_def update_where_def mark_pending_cancelled.mark_none)
qed auto

lemma cancelAllPending_moves:
  "tables_ok db \<Longrightarrow> \<exists>n db'. cancelAllPending now w db = Some (n, db') \<and> moves db db'"
  unfolding cancelAllPending_def
proof (rule cancelPendingWhere_moves)
  fix d
  let ?P = "\<lambda>r. status r = Pending \<and> for_worker w r"
  have "map_of (toOperationCounts (map operationId (returning ?P (cancel_row now) (jobs db)))) x =
      (if moved ?P (jobs db) x = 0 then None else Some (moved ?P (jobs db) x))" for x
    by (simp add: map_of_toOperationCounts amount_returning[OF keeps_rows(1)])
  then show "applyOperationCounts (toOperationCounts (map operationId (returning ?P (cancel_row now) (jobs db))))
        (markPendingJobsCancelled now) d
      = d\<lparr>operations := map (\<lambda>op. markPendingJobsCancelled now (int (moved ?P (jobs db) (op_id op))) op) (operations d)\<rparr>"
    by (intro worker_db.equality)
      (auto simp: operations_applyOperationCounts wf_toOperationCounts mark_pending_cancelled.mark_id
        mark_pending_cancelled.mark_none)
qed auto

end
