(* ===== verification/Queue_Claims.thy ===== *)
theory Queue_Claims
  imports Queue_Moves "HOL-Library.Sublist"
begin

section \<open>Claims and recovery as moves\<close>

text \<open>
  The refinement of \<^verbatim>\<open>recoverExpiredRows\<close> and of the claim pass
  \<^verbatim>\<open>claimRunnableItems\<close> to moves, and what a claim pass returns.
\<close>

subsection \<open>Recovery\<close>

text \<open>
  The rows to recover were read before: their ids are distinct and an operation has not
  changed since. Their status may have.
\<close>

definition snapshot :: "job list \<Rightarrow> worker_db \<Rightarrow> bool" where
  "snapshot rows db \<longleftrightarrow> distinct (map job_id rows)
     \<and> (\<forall>r \<in> set rows. \<forall>s \<in> set (jobs db). job_id s = job_id r \<longrightarrow> operationId s = operationId r)"

lemma snapshot_filter: "snapshot rows db \<Longrightarrow> snapshot (filter P rows) db"
  by (auto simp: snapshot_def distinct_map_filter)

lemma snapshot_self: "tables_ok db \<Longrightarrow> snapshot (filter P (jobs db)) db"
  by (auto simp: snapshot_def tables_ok_def ids_distinct_def distinct_map_filter dest: same_row)

lemma snapshot_move: "move db db' \<Longrightarrow> snapshot rows db \<Longrightarrow> snapshot rows db'"
proof -
  assume m: "move db db'" and s: "snapshot rows db"
  obtain P f where f: "keeps f" "jobs db' = update_where P f (jobs db)"
    using move_jobs[OF m] by blast
  then have "\<exists>s \<in> set (jobs db). job_id s = job_id t \<and> operationId s = operationId t" if "t \<in> set (jobs db')" for t
    using that by (auto simp: in_update_where keeps_def)
  then show "snapshot rows db'"
    using s unfolding snapshot_def by metis
qed

lemma snapshot_moves: "moves db db' \<Longrightarrow> snapshot rows db \<Longrightarrow> snapshot rows db'"
  by (induction rule: rtranclp_induct) (auto intro: snapshot_move)

lemma fold_js_add_ids: "set (fold js_add xs acc) = set acc \<union> set xs" "distinct acc \<Longrightarrow> distinct (fold js_add xs acc)"
  by (rule fold_js_add_set, rule fold_js_add_distinct)

lemma update_chunks_running:
  assumes f: "keeps f" "\<And>r. status (f r) \<noteq> Running"
  defines "step \<equiv> (\<lambda>c (updated, db).
          let guard = (\<lambda>r. job_id r \<in> set c \<and> status r = Running) in
          (fold js_add (map job_id (returning guard f (jobs db))) updated, update_jobs guard f db))"
  shows "fold step cs (acc, db) =
     (fst (fold step cs (acc, db)), update_jobs (\<lambda>r. job_id r \<in> set (concat cs) \<and> status r = Running) f db)
     \<and> set (fst (fold step cs (acc, db))) =
         set acc \<union> job_id ` {r \<in> set (jobs db). job_id r \<in> set (concat cs) \<and> status r = Running}
     \<and> (distinct acc \<longrightarrow> distinct (fst (fold step cs (acc, db))))"
proof (induction cs arbitrary: acc db)
  case Nil
  then show ?case by (simp add: update_jobs_def update_where_def)
next
  case (Cons c cs)
  let ?g = "\<lambda>r. job_id r \<in> set c \<and> status r = Running"
  let ?acc = "fold js_add (map job_id (returning ?g f (jobs db))) acc" and ?db = "update_jobs ?g f db"
  have step: "step c (acc, db) = (?acc, ?db)" by (simp add: step_def Let_def)
  have ids: "set ?acc = set acc \<union> job_id ` {r \<in> set (jobs db). ?g r}"
    using f(1) by (auto simp: fold_js_add_set returning_def keeps_def image_iff)
  have upd: "update_jobs (\<lambda>r. job_id r \<in> set (concat cs) \<and> status r = Running) f ?db =
      update_jobs (\<lambda>r. job_id r \<in> set (concat (c # cs)) \<and> status r = Running) f db"
    using f by (auto simp: update_jobs_def update_where_def keeps_def)
  have rows: "job_id ` {r \<in> set (jobs db). ?g r} \<union>
      job_id ` {r \<in> set (jobs ?db). job_id r \<in> set (concat cs) \<and> status r = Running} =
      job_id ` {r \<in> set (jobs db). job_id r \<in> set (concat (c # cs)) \<and> status r = Running}"
  proof -
    have "{r \<in> set (jobs ?db). job_id r \<in> set (concat cs) \<and> status r = Running} =
        {r \<in> set (jobs db). \<not> ?g r \<and> job_id r \<in> set (concat cs) \<and> status r = Running}"
      using f by (auto simp: update_jobs_def in_update_where keeps_def)
    then show ?thesis by auto
  qed
  show ?case
    using Cons.IH[of ?acc ?db] ids upd rows fold_js_add_distinct[of acc]
    by (simp add: step Un_assoc)
qed

lemma updateRunningRowsChunked_effect:
  assumes f: "keeps f" "\<And>r. status (f r) \<noteq> Running"
  shows "snd (updateRunningRowsChunked ids f db) = update_jobs (\<lambda>r. job_id r \<in> set ids \<and> status r = Running) f db"
    and "set (fst (updateRunningRowsChunked ids f db)) =
      job_id ` {r \<in> set (jobs db). job_id r \<in> set ids \<and> status r = Running}"
    and "distinct (fst (updateRunningRowsChunked ids f db))"
proof -
  have "snd (updateRunningRowsChunked ids f db) = update_jobs (\<lambda>r. job_id r \<in> set ids \<and> status r = Running) f db
      \<and> set (fst (updateRunningRowsChunked ids f db)) =
        job_id ` {r \<in> set (jobs db). job_id r \<in> set ids \<and> status r = Running}
      \<and> distinct (fst (updateRunningRowsChunked ids f db))"
  proof (cases "ids = []")
    case True
    then show ?thesis
      by (simp add: updateRunningRowsChunked_def forEachChunked_def update_jobs_def update_where_def)
  next
    case False
    define step where "step = (\<lambda>c (updated, db).
          let guard = (\<lambda>r. job_id r \<in> set c \<and> status r = Running) in
          (fold js_add (map job_id (returning guard f (jobs db))) updated, update_jobs guard f db))"
    have eq: "updateRunningRowsChunked ids f db = fold step (chunksFor ids) ([], db)"
      using False by (simp add: updateRunningRowsChunked_def forEachChunked_def step_def)
    obtain a b where ab: "fold step (chunksFor ids) ([], db) = (a, b)" by fastforce
    from update_chunks_running[OF f, of "chunksFor ids" "[]" db, folded step_def] ab
    show ?thesis unfolding eq by simp
  qed
  then show "snd (updateRunningRowsChunked ids f db) = update_jobs (\<lambda>r. job_id r \<in> set ids \<and> status r = Running) f db"
    and "set (fst (updateRunningRowsChunked ids f db)) =
      job_id ` {r \<in> set (jobs db). job_id r \<in> set ids \<and> status r = Running}"
    and "distinct (fst (updateRunningRowsChunked ids f db))"
    by blast+
qed

lemma recovered_amount:
  assumes ok: "tables_ok db" and snap: "snapshot rows db"
    and upd: "set updated = job_id ` {r \<in> set (jobs db). job_id r \<in> set (map job_id rows) \<and> status r = Running}"
  shows "amount_for (map operationId (filter (\<lambda>r. job_id r \<in> set updated) rows)) oid =
     moved (\<lambda>r. job_id r \<in> set (map job_id rows) \<and> status r = Running) (jobs db) oid"
proof (rule amount_moved)
  show "distinct (map job_id (filter (\<lambda>r. job_id r \<in> set updated) rows))"
    using snap by (simp add: snapshot_def distinct_map_filter)
  show "distinct (map job_id (jobs db))" by (rule tables_okD(1)[OF ok])
  show "(\<lambda>r. (job_id r, operationId r)) ` set (filter (\<lambda>r. job_id r \<in> set updated) rows) =
      (\<lambda>r. (job_id r, operationId r)) ` {r \<in> set (jobs db). job_id r \<in> set (map job_id rows) \<and> status r = Running}"
    (is "?L = ?R")
  proof
    show "?L \<subseteq> ?R"
    proof (rule image_subsetI)
      fix r assume r: "r \<in> set (filter (\<lambda>r. job_id r \<in> set updated) rows)"
      then obtain s where s: "s \<in> set (jobs db)" "job_id s = job_id r" "status s = Running"
        unfolding upd by auto
      with r snap have "operationId s = operationId r" by (simp add: snapshot_def)
      with s r show "(job_id r, operationId r) \<in> ?R" by (intro image_eqI[of _ _ s]) auto
    qed
    show "?R \<subseteq> ?L"
    proof (rule image_subsetI)
      fix s assume s: "s \<in> {r \<in> set (jobs db). job_id r \<in> set (map job_id rows) \<and> status r = Running}"
      then obtain r where r: "r \<in> set rows" "job_id r = job_id s" by auto
      with s snap have "operationId s = operationId r" by (simp add: snapshot_def)
      moreover have "job_id r \<in> set updated" unfolding upd using s r(2) by (intro image_eqI[of _ _ s]) auto
      ultimately show "(job_id s, operationId s) \<in> ?L" using r by (intro image_eqI[of _ _ r]) auto
    qed
  qed
qed

text \<open>Recovery and cancellation start nothing.\<close>

definition calm :: "worker_db \<Rightarrow> worker_db \<Rightarrow> bool" where
  "calm db db' \<longleftrightarrow> (\<forall>w. running_of w (jobs db') \<le> running_of w (jobs db))"

lemma calm_refl [simp]: "calm db db" and calm_trans: "calm a b \<Longrightarrow> calm b c \<Longrightarrow> calm a c"
  by (auto simp: calm_def intro: order_trans)

lemma calm_transition:
  assumes "\<And>r. status (f r) \<noteq> Running"
  shows "calm db (transition mark P f db)"
proof -
  have "running_of w (update_where P f rows) \<le> running_of w rows" for w rows
    by (induction rows) (use assms in \<open>auto simp: running_of_def update_where_def le_SucI\<close>)
  then show ?thesis by (simp add: calm_def transition_def)
qed

lemma cascade_calm: "tables_ok db \<Longrightarrow> cascadeCancel now ps db = Some db' \<Longrightarrow> calm db db'"
  using calm_transition[of "cancel_row now"] by (auto simp: cascadeCancel_transition status_rows)

lemma recoverRetryableRows_moves:
  assumes ok: "tables_ok db" and snap: "snapshot rows db"
  shows "moves db (snd (recoverRetryableRows now rows db))" and "calm db (snd (recoverRetryableRows now rows db))"
proof -
  let ?P = "\<lambda>r. job_id r \<in> set (map job_id rows) \<and> status r = Running"
  obtain updated d where u: "updateRunningRowsChunked (map job_id rows) (requeue_row now) db = (updated, d)" by fastforce
  have eff: "d = update_jobs ?P (requeue_row now) db"
    "set updated = job_id ` {r \<in> set (jobs db). ?P r}"
    using updateRunningRowsChunked_effect(1,2)[of "requeue_row now" "map job_id rows" db] u
    by (simp_all add: keeps_rows status_rows)
  have "snd (recoverRetryableRows now rows db) = transition (markJobRetried now) ?P (requeue_row now) db"
    using counts_transition[OF mark_retried.job_mark_axioms recovered_amount[OF ok snap eff(2)]]
    by (simp add: recoverRetryableRows_def u Let_def eff(1))
  then show "moves db (snd (recoverRetryableRows now rows db))" "calm db (snd (recoverRetryableRows now rows db))"
    using move_transition[OF mark_retried.job_mark_axioms, of db ?P "requeue_row now"] calm_transition[of "requeue_row now"]
    by (simp_all add: status_rows keeps_rows)
qed

lemma recoverExhaustedRows_moves:
  assumes ok: "tables_ok db" and snap: "snapshot rows db"
  shows "\<exists>n db'. recoverExhaustedRows now rows db = Some (n, db') \<and> moves db db' \<and> calm db db'"
proof -
  let ?P = "\<lambda>r. job_id r \<in> set (map job_id rows) \<and> status r = Running"
  let ?db = "transition (markJobFinished Failed now) ?P (exhaust_row now) db"
  obtain updated d where u: "updateRunningRowsChunked (map job_id rows) (exhaust_row now) db = (updated, d)" by fastforce
  have eff: "d = update_jobs ?P (exhaust_row now) db"
    "set updated = job_id ` {r \<in> set (jobs db). ?P r}"
    using updateRunningRowsChunked_effect(1,2)[of "exhaust_row now" "map job_id rows" db] u
    by (simp_all add: keeps_rows status_rows)
  have t: "applyOperationCounts (toOperationCounts (map operationId (filter (\<lambda>r. job_id r \<in> set updated) rows)))
      (markJobFinished Failed now) d = ?db"
    using counts_transition[OF mark_failed.job_mark_axioms recovered_amount[OF ok snap eff(2)]]
    by (simp add: eff(1))
  have m: "moves db ?db"
    using move_transition[OF mark_failed.job_mark_axioms, of db ?P "exhaust_row now"]
    by (simp add: status_rows keeps_rows)
  obtain db' where "cascadeCancel now (map job_id (filter (\<lambda>r. job_id r \<in> set updated) rows)) ?db = Some db'"
    "moves ?db db'"
    using cascade_moves[OF moves_tables_ok[OF m ok]] by blast
  moreover have "calm db ?db" by (rule calm_transition) (simp add: status_rows)
  ultimately show ?thesis
    using m cascade_calm[OF moves_tables_ok[OF m ok]]
    by (auto simp: recoverExhaustedRows_def u Let_def t intro: calm_trans)
qed

lemma recoverExpiredRows_moves:
  assumes ok: "tables_ok db" and snap: "snapshot rows db"
  shows "\<exists>n db'. recoverExpiredRows now rows db = Some (n, db') \<and> moves db db' \<and> calm db db'"
proof -
  let ?retry = "filter (\<lambda>r. attempts r < maxAttempts r) rows"
  obtain n db1 where r: "recoverRetryableRows now ?retry db = (n, db1)" by fastforce
  have m: "moves db db1" and c: "calm db db1"
    using recoverRetryableRows_moves[OF ok snapshot_filter[OF snap], of now "\<lambda>r. attempts r < maxAttempts r"] r by simp_all
  obtain k db2 where "recoverExhaustedRows now (filter (\<lambda>r. attempts r \<ge> maxAttempts r) rows) db1 = Some (k, db2)"
    "moves db1 db2" "calm db1 db2"
    using recoverExhaustedRows_moves[OF moves_tables_ok[OF m ok] snapshot_filter[OF snapshot_moves[OF m snap]]] by blast
  with r m c show ?thesis by (auto simp: recoverExpiredRows_def Let_def intro: calm_trans)
qed

lemma recoverExpired_moves:
  "tables_ok db \<Longrightarrow> \<exists>db'. recoverExpired w now excl db = Some db' \<and> moves db db' \<and> calm db db'"
  using recoverExpiredRows_moves[OF _ snapshot_self, of db]
  by (fastforce simp: recoverExpired_def Let_def)

lemma recoverOrphanedRunning_moves:
  "tables_ok db \<Longrightarrow> snapshot rows db \<Longrightarrow> \<exists>n db'. recoverOrphanedRunning now rows db = Some (n, db') \<and> moves db db'"
  using recoverExpiredRows_moves[of db rows now] by (auto simp: recoverOrphanedRunning_def)

subsection \<open>The claim pass\<close>

text \<open>
  The pass counts the started jobs after the loop, so in between the tables are not balanced.
  Its moves are the cancellations, in the order of the loop, followed by one move that starts
  all the claimed rows. The \<open>shadow\<close> tables are those without the claims of the pass: a
  claimed row is still pending there, and nothing it depends on is active, so no cascade of
  the pass reaches it.
\<close>

definition start_row :: "(job_id \<Rightarrow> nat) \<Rightarrow> claim_input \<Rightarrow> job \<Rightarrow> job" where
  "start_row token input r = claim_row (token (job_id r)) input r"

definition unblocked :: "job list \<Rightarrow> job_id set \<Rightarrow> bool" where
  "unblocked rows ids \<longleftrightarrow>
     (\<forall>r \<in> set rows. job_id r \<in> ids \<longrightarrow> status r = Pending
        \<and> (\<forall>p. dependsOnJobId r = Some p \<longrightarrow> (\<forall>s \<in> set rows. job_id s = p \<longrightarrow> \<not> active (status s))))"

lemma keeps_start_row: "keeps (start_row token input)" "status (start_row token input r) = Running"
  using keeps_rows(5) by (simp_all add: start_row_def keeps_def status_rows)

text \<open>Between the shadow and the real rows the pending jobs below a parent are the same.\<close>

lemma below_shadow:
  assumes ub: "unblocked rows ids" and actual: "actual = update_where (\<lambda>r. job_id r \<in> ids) (start_row token input) rows"
    and ps: "\<And>r p. r \<in> set rows \<Longrightarrow> job_id r \<in> ids \<Longrightarrow> p \<in> ps \<Longrightarrow> dependsOnJobId r \<noteq> Some p"
  shows "pending_below actual ps r \<longleftrightarrow> pending_below rows ps r"
    and "pending_below rows ps r \<Longrightarrow> job_id r \<notin> ids"
proof -
  have bwd: "pending_below actual ps r \<Longrightarrow> pending_below rows ps r" for r
  proof (induction rule: pending_below.induct)
    case (below_direct r p)
    then have "r \<in> set rows" by (auto simp: actual in_update_where keeps_start_row)
    with below_direct show ?case by (auto intro: pending_below.below_direct)
  next
    case (below_step s r)
    then have "r \<in> set rows" by (auto simp: actual in_update_where keeps_start_row)
    with below_step show ?case by (auto intro: pending_below.below_step)
  qed
  have fwd: "pending_below rows ps r \<Longrightarrow> job_id r \<notin> ids \<and> pending_below actual ps r" for r
  proof (induction rule: pending_below.induct)
    case (below_direct r p)
    with ps have out: "job_id r \<notin> ids" by blast
    then have "r \<in> set actual" using below_direct(1) by (auto simp: actual in_update_where)
    with out below_direct show ?case by (auto intro: pending_below.below_direct)
  next
    case (below_step s r)
    then have "s \<in> set rows" "active (status s)" using pending_below_row by (auto simp: active_def)
    with ub below_step(2,4) have out: "job_id r \<notin> ids" by (auto simp: unblocked_def)
    then have "r \<in> set actual" using below_step(2) by (auto simp: actual in_update_where)
    with out below_step show ?case by (auto intro: pending_below.below_step)
  qed
  show "pending_below actual ps r \<longleftrightarrow> pending_below rows ps r"
    and "pending_below rows ps r \<Longrightarrow> job_id r \<notin> ids"
    using bwd fwd by blast+
qed

text \<open>A cancellation during the pass is the same cancellation of the shadow tables.\<close>

definition overlay :: "(job_id \<Rightarrow> nat) \<Rightarrow> claim_input \<Rightarrow> job_id set \<Rightarrow> worker_db \<Rightarrow> worker_db" where
  "overlay token input ids db =
     db\<lparr>jobs := update_where (\<lambda>r. job_id r \<in> ids) (start_row token input) (jobs db)\<rparr>"

lemma moved_overlay:
  assumes "\<And>r. r \<in> set rows \<Longrightarrow> (if job_id r \<in> ids then P (start_row token input r) else P r) = Q r"
  shows "moved P (update_where (\<lambda>r. job_id r \<in> ids) (start_row token input) rows) oid = moved Q rows oid"
  unfolding moved_update_where[OF keeps_start_row(1)] by (rule moved_cong) (rule assms)

lemma transition_overlay:
  assumes PQ: "\<And>r. r \<in> set (jobs db) \<Longrightarrow> job_id r \<notin> ids \<Longrightarrow> P r = Q r"
    and out: "\<And>r. r \<in> set (jobs db) \<Longrightarrow> job_id r \<in> ids \<Longrightarrow> \<not> P (start_row token input r) \<and> \<not> Q r"
    and f: "keeps f"
  shows "transition mark P f (overlay token input ids db) = overlay token input ids (transition mark Q f db)"
proof -
  have "moved P (jobs (overlay token input ids db)) oid = moved Q (jobs db) oid" for oid
  proof -
    have "jobs (overlay token input ids db) = update_where (\<lambda>r. job_id r \<in> ids) (start_row token input) (jobs db)"
      by (simp add: overlay_def)
    moreover have "moved P (update_where (\<lambda>r. job_id r \<in> ids) (start_row token input) (jobs db)) oid = moved Q (jobs db) oid"
    proof (rule moved_overlay)
      fix r assume r: "r \<in> set (jobs db)"
      show "(if job_id r \<in> ids then P (start_row token input r) else P r) = Q r"
        using PQ[OF r] out[OF r] by (cases "job_id r \<in> ids") simp_all
    qed
    ultimately show ?thesis by simp
  qed
  moreover have "update_where P f (jobs (overlay token input ids db)) = jobs (overlay token input ids (transition mark Q f db))"
    using PQ out f by (auto simp: overlay_def transition_def update_where_def keeps_def)
  ultimately show ?thesis by (simp add: transition_def overlay_def)
qed

lemma jobs_overlay:
  "jobs (overlay token input ids db) = update_where (\<lambda>r. job_id r \<in> ids) (start_row token input) (jobs db)"
  by (simp add: overlay_def)

lemma overlay_keeps:
  "map job_id (jobs (overlay token input ids db)) = map job_id (jobs db)"
  "operations (overlay token input ids db) = operations db"
  "deps_back (jobs (overlay token input ids db)) = deps_back (jobs db)"
  using keeps_start_row(1)[of token input]
  by (simp_all add: overlay_def update_where_map deps_back_update_where keeps_def)

lemma overlay_tables_ok:
  assumes ok: "tables_ok db" and ub: "unblocked (jobs db) ids"
  shows "tables_ok (overlay token input ids db)"
proof -
  have "active_unique (jobs (overlay token input ids db))"
    unfolding overlay_def
    using active_unique_update_where[OF tables_okD(4)[OF ok] keeps_start_row(1), of "\<lambda>r. job_id r \<in> ids"] ub
    by (auto simp: unblocked_def active_def)
  with ok show ?thesis by (simp add: tables_ok_def ids_distinct_def overlay_keeps)
qed

text \<open>What a withdrawal leaves unblocked stays unblocked.\<close>

lemma unblocked_withdraw:
  assumes "unblocked rows ids" and "\<And>r. r \<in> set rows \<Longrightarrow> P r \<Longrightarrow> job_id r \<notin> ids"
    and "\<And>r. \<not> active (status (f r))" and "keeps f"
  shows "unblocked (update_where P f rows) ids"
  unfolding unblocked_def
proof (intro ballI impI)
  fix r' assume r': "r' \<in> set (update_where P f rows)" "job_id r' \<in> ids"
  then obtain r where r: "r \<in> set rows" "r' = (if P r then f r else r)" by (auto simp: in_update_where)
  with assms(2)[OF r(1)] r'(2) assms(4) have eq: "r' = r" by (auto simp: keeps_def split: if_splits)
  with assms(1) r(1) r'(2) have ub: "status r = Pending"
    "\<And>p s. dependsOnJobId r = Some p \<Longrightarrow> s \<in> set rows \<Longrightarrow> job_id s = p \<Longrightarrow> \<not> active (status s)"
    by (auto simp: unblocked_def)
  have "\<not> active (status s')"
    if "dependsOnJobId r = Some p" "s' \<in> set (update_where P f rows)" "job_id s' = p" for p s'
  proof -
    from that(2) obtain s where s: "s \<in> set rows" "s' = (if P s then f s else s)" by (auto simp: in_update_where)
    with that(3) assms(4) have "job_id s = p" by (auto simp: keeps_def split: if_splits)
    with ub(2)[OF that(1) s(1)] assms(3) s(2) show ?thesis by auto
  qed
  with ub(1) eq show "status r' = Pending \<and> (\<forall>p. dependsOnJobId r' = Some p \<longrightarrow>
      (\<forall>s \<in> set (update_where P f rows). job_id s = p \<longrightarrow> \<not> active (status s)))"
    by blast
qed

lemma cancelPending_result:
  fixes i :: job_id and now :: int
  assumes ok: "tables_ok db"
  defines "P \<equiv> \<lambda>r :: job. job_id r = i \<and> status r = Pending"
  defines "d \<equiv> transition (markPendingJobsCancelled now) P (cancel_row now) db"
  shows "cancelPending now i db =
     Some (if filter P (jobs db) = [] then (False, db)
           else (True, transition (markPendingJobsCancelled now) (pending_below (jobs d) {i}) (cancel_row now) d))"
proof (cases "returning P (cancel_row now) (jobs db)")
  case Nil
  then show ?thesis by (simp add: cancelPending_def P_def returning_def)
next
  case (Cons x xs)
  have id: "\<And>r. P r \<Longrightarrow> job_id r = i" by (simp add: P_def)
  have eq: "(case operationId x of None \<Rightarrow> update_jobs P (cancel_row now) db
      | Some oid \<Rightarrow> updateOperation oid (markPendingJobsCancelled now 1) (update_jobs P (cancel_row now) db)) = d"
    using single_transition[OF mark_pending_cancelled.job_mark_axioms tables_okD(1)[OF ok] id keeps_rows(1) Cons, of now]
    by (simp add: mark_operation_def d_def)
  have "moves db d"
    unfolding d_def P_def
    by (rule move_transition[OF mark_pending_cancelled.job_mark_axioms]) (auto simp: status_rows keeps_rows)
  then have "cascadeCancel now [i] d =
      Some (transition (markPendingJobsCancelled now) (pending_below (jobs d) {i}) (cancel_row now) d)"
    using cascadeCancel_transition[OF moves_tables_ok[OF _ ok], of d now "[i]"] by simp
  moreover have "filter P (jobs db) \<noteq> []" using Cons by (auto simp: returning_def)
  ultimately show ?thesis
    using Cons eq by (simp add: cancelPending_def Let_def P_def[symmetric])
qed

lemma cancelPending_calm:
  "tables_ok db \<Longrightarrow> cancelPending now i db = Some (b, d) \<Longrightarrow> calm db d"
  using cancelPending_result[of db now i]
  by (auto split: if_splits intro!: calm_trans[OF calm_transition calm_transition] simp: status_rows)

text \<open>A cancellation leaves the rows that stay pending as they were.\<close>

definition pending_kept :: "worker_db \<Rightarrow> worker_db \<Rightarrow> bool" where
  "pending_kept db db' \<longleftrightarrow> (\<forall>r \<in> set (jobs db'). status r = Pending \<longrightarrow> r \<in> set (jobs db))"

lemma pending_kept_transition:
  "(\<And>r. status (f r) \<noteq> Pending) \<Longrightarrow> pending_kept db (transition mark P f db)"
  by (auto simp: pending_kept_def transition_def in_update_where split: if_splits)

lemma pending_kept_trans: "pending_kept a b \<Longrightarrow> pending_kept b c \<Longrightarrow> pending_kept a c"
  by (auto simp: pending_kept_def)

lemma cancelPending_kept:
  "tables_ok db \<Longrightarrow> cancelPending now i db = Some (b, d) \<Longrightarrow> pending_kept db d"
  using cancelPending_result[of db now i]
  by (auto split: if_splits intro!: pending_kept_trans[OF pending_kept_transition pending_kept_transition]
      simp: status_rows) (simp add: pending_kept_def)

lemma filter_update_where:
  "(\<And>r. r \<in> set rows \<Longrightarrow> Q r \<Longrightarrow> \<not> P r \<and> \<not> P (f r)) \<Longrightarrow> filter P (update_where Q f rows) = filter P rows"
  by (induction rows) (auto simp: update_where_def)

lemma cancelPending_overlay:
  assumes ok: "tables_ok db" and ub: "unblocked (jobs db) ids" and i: "i \<notin> ids"
  shows "\<exists>b d. cancelPending now i db = Some (b, d) \<and> moves db d \<and> unblocked (jobs d) ids
     \<and> (\<forall>r \<in> set (jobs db). job_id r \<in> ids \<longrightarrow> r \<in> set (jobs d))
     \<and> cancelPending now i (overlay token input ids db) = Some (b, overlay token input ids d)"
proof -
  define P where "P = (\<lambda>r :: job. job_id r = i \<and> status r = Pending)"
  let ?o = "overlay token input ids"
  define d1 where "d1 = transition (markPendingJobsCancelled now) P (cancel_row now) db"
  define d2 where "d2 = transition (markPendingJobsCancelled now) (pending_below (jobs d1) {i}) (cancel_row now) d1"
  have outP: "P r \<Longrightarrow> job_id r \<notin> ids" for r using i by (auto simp: P_def)
  have st: "job_id (start_row token input r) = job_id r" for r using keeps_start_row(1) by (simp add: keeps_def)
  have filt: "filter P (jobs (?o db)) = filter P (jobs db)"
    unfolding overlay_def by (simp, rule filter_update_where) (use i in \<open>auto simp: P_def st\<close>)
  show ?thesis
  proof (cases "filter P (jobs db) = []")
    case True
    with filt show ?thesis
      using cancelPending_result[OF ok, of now i] cancelPending_result[OF overlay_tables_ok[OF ok ub], of now i token input] ub
      by (auto simp: P_def)
  next
    case False
    then obtain x where x: "x \<in> set (jobs db)" "job_id x = i" "status x = Pending"
      by (auto simp: filter_empty_conv P_def)
    have m1: "moves db d1"
      unfolding d1_def P_def
      by (rule move_transition[OF mark_pending_cancelled.job_mark_axioms]) (auto simp: status_rows keeps_rows)
    have j1: "jobs d1 = update_where P (cancel_row now) (jobs db)" by (simp add: d1_def transition_def)
    have ub1: "unblocked (jobs d1) ids"
      unfolding j1 by (rule unblocked_withdraw[OF ub]) (simp_all add: outP keeps_rows status_rows active_def)
    have dep: "dependsOnJobId r \<noteq> Some p" if "r \<in> set (jobs d1)" "job_id r \<in> ids" "p \<in> {i}" for r p
    proof -
      from that(1) obtain r0 where "r0 \<in> set (jobs db)" "job_id r0 = job_id r" "dependsOnJobId r0 = dependsOnJobId r"
        using keeps_rows(1)[of now] by (auto simp: j1 in_update_where keeps_def)
      with ub that(2,3) x show ?thesis by (fastforce simp: unblocked_def active_def)
    qed
    have shadow1: "pending_below (update_where (\<lambda>r. job_id r \<in> ids) (start_row token input) (jobs d1)) {i} r =
        pending_below (jobs d1) {i} r" for r
      by (rule below_shadow(1)[OF ub1 refl]) (rule dep)
    have shadow2: "pending_below (jobs d1) {i} r \<Longrightarrow> job_id r \<notin> ids" for r
      by (rule below_shadow(2)[OF ub1 refl _ , of "{i}"]) (rule dep)
    have m2: "moves d1 d2"
      unfolding d2_def
      by (rule move_transition[OF mark_pending_cancelled.job_mark_axioms])
        (auto simp: status_rows keeps_rows dest: pending_below_row)
    have ub2: "unblocked (jobs d2) ids"
      unfolding d2_def transition_def
      using unblocked_withdraw[OF ub1, of "pending_below (jobs d1) {i}" "cancel_row now"] shadow2
      by (simp add: keeps_rows status_rows active_def)
    have t1: "transition (markPendingJobsCancelled now) P (cancel_row now) (?o db) = ?o d1"
      unfolding d1_def
      by (rule transition_overlay[OF _ _ keeps_rows(1)]) (use outP i in \<open>auto simp: P_def st\<close>)
    have below: "pending_below (jobs (?o d1)) {i} = pending_below (jobs d1) {i}"
      unfolding overlay_def using shadow1 by (auto simp: fun_eq_iff)
    have t2: "transition (markPendingJobsCancelled now) (pending_below (jobs d1) {i}) (cancel_row now) (?o d1) = ?o d2"
      unfolding d2_def
    proof (rule transition_overlay[OF _ _ keeps_rows(1)])
      fix r assume "r \<in> set (jobs d1)" and r: "job_id r \<in> ids"
      then show "\<not> pending_below (jobs d1) {i} (start_row token input r) \<and> \<not> pending_below (jobs d1) {i} r"
        using shadow2[of r] shadow2[of "start_row token input r"] by (auto simp: st)
    qed simp
    have kept: "\<forall>r \<in> set (jobs db). job_id r \<in> ids \<longrightarrow> r \<in> set (jobs d2)"
    proof (intro ballI impI)
      fix r assume r: "r \<in> set (jobs db)" "job_id r \<in> ids"
      then have "r \<in> set (jobs d1)" using outP by (auto simp: j1 in_update_where)
      then show "r \<in> set (jobs d2)"
        using shadow2[of r] r(2) by (auto simp: d2_def transition_def in_update_where)
    qed
    show ?thesis
      using cancelPending_result[OF ok, of now i] cancelPending_result[OF overlay_tables_ok[OF ok ub], of now i token input]
        False filt rtranclp_trans[OF m1 m2] ub2 t1 t2 below kept
      by (auto simp: P_def[symmetric] d1_def[symmetric] d2_def[symmetric])
  qed
qed

text \<open>
  The invariant of the loop: \<open>shadow\<close> is reached by moves from the tables the pass read,
  the real tables are the shadow with the claimed rows started.
\<close>

definition pass_inv ::
  "(job_id \<Rightarrow> nat) \<Rightarrow> claim_input \<Rightarrow> worker_db \<Rightarrow> worker_db \<Rightarrow> job list \<Rightarrow> worker_db \<Rightarrow> bool" where
  "pass_inv token input db1 shadow claimed db \<longleftrightarrow>
     moves db1 shadow \<and> calm db1 shadow \<and> pending_kept db1 shadow \<and> db = overlay token input (job_id ` set claimed) shadow
     \<and> distinct (map job_id claimed) \<and> unblocked (jobs shadow) (job_id ` set claimed)
     \<and> (\<forall>x \<in> set claimed. \<exists>r \<in> set (jobs shadow). x = start_row token input r)"

text \<open>The statuses of the parents, as loaded before the loop.\<close>

lemma in_depRows:
  "r \<in> set (mapChunked ids (\<lambda>c. filter (\<lambda>r. job_id r \<in> set c) rows)) \<longleftrightarrow> r \<in> set rows \<and> job_id r \<in> set ids"
  using in_mapChunked[of "\<lambda>c. filter (\<lambda>r. job_id r \<in> set c) rows" "\<lambda>k r. r \<in> set rows \<and> job_id r = k" r ids]
  by auto

lemma fold_status_map:
  "map_of (fold (\<lambda>r m. AList.update (job_id r) (status r) m) rows m) p =
     (case filter (\<lambda>r. job_id r = p) (rev rows) of [] \<Rightarrow> map_of m p | r # _ \<Rightarrow> Some (status r))"
proof (induction rows arbitrary: m)
  case (Cons r rows)
  then show ?case
    by (cases "filter (\<lambda>r. job_id r = p) (rev rows)") (auto simp: map_of_update)
qed simp

lemma loadParentStatuses_row:
  assumes dist: "distinct (map job_id (jobs db))" and s: "s \<in> set (jobs db)"
    and c: "c \<in> set candidates" and dep: "dependsOnJobId c = Some (job_id s)"
  shows "map_of (loadParentStatuses candidates db) (job_id s) = Some (status s)"
proof -
  let ?ids = "unique (List.map_filter dependsOnJobId candidates)"
  let ?rows = "mapChunked ?ids (\<lambda>c. filter (\<lambda>r. job_id r \<in> set c) (jobs db))"
  have "job_id s \<in> set ?ids" using c dep by (force simp: List.map_filter_def)
  then have srow: "s \<in> set (filter (\<lambda>r. job_id r = job_id s) (rev ?rows))" using s by (simp add: in_depRows)
  have "\<exists>rs. filter (\<lambda>r. job_id r = job_id s) (rev ?rows) = s # rs"
  proof (cases "filter (\<lambda>r. job_id r = job_id s) (rev ?rows)")
    case Nil
    then show ?thesis using srow by (simp only: list.set empty_iff)
  next
    case (Cons h t)
    have "h \<in> set (filter (\<lambda>r. job_id r = job_id s) (rev ?rows))" unfolding Cons by simp
    then have "h = s" using same_row[OF dist _ s] by (simp add: in_depRows)
    with Cons show ?thesis by blast
  qed
  then show ?thesis by (auto simp: loadParentStatuses_def Let_def fold_status_map)
qed

text \<open>A row that is not active before some moves is the same afterwards, up to progress notes.\<close>

lemma moves_row:
  assumes "moves db db'"
  shows "r' \<in> set (jobs db') \<Longrightarrow> \<exists>r \<in> set (jobs db). job_id r = job_id r' \<and> workerId r = workerId r'
    \<and> operationId r = operationId r' \<and> dependsOnJobId r = dependsOnJobId r' \<and> dedupeKey r = dedupeKey r'
    \<and> (\<not> active (status r) \<longrightarrow> status r' = status r \<and> job_result r' = job_result r)"
  using assms
proof (induction arbitrary: r' rule: rtranclp_induct)
  case base
  then show ?case by blast
next
  case (step d d')
  obtain P f where f: "keeps f" "jobs d' = update_where P f (jobs d)"
    "\<forall>r \<in> set (jobs d). P r \<longrightarrow> (status (f r) = status r \<and> job_result (f r) = job_result r) \<or> active (status r)"
    using move_jobs[OF step.hyps(2)] by blast
  then obtain s where s: "s \<in> set (jobs d)" "r' = (if P s then f s else s)"
    using step.prems by (auto simp: in_update_where)
  from step.IH[OF s(1)] obtain r where r: "r \<in> set (jobs db)" "job_id r = job_id s" "workerId r = workerId s"
    "operationId r = operationId s" "dependsOnJobId r = dependsOnJobId s" "dedupeKey r = dedupeKey s"
    "\<not> active (status r) \<longrightarrow> status s = status r \<and> job_result s = job_result r" by blast
  with s f show ?case by (intro bexI[of _ r]) (auto simp: keeps_def)
qed

text \<open>A candidate that is not blocked has no active parent, in any tables reached by moves.\<close>

lemma unblocked_candidate:
  assumes ok: "tables_ok db1" and mv: "moves db1 shadow"
    and c: "c \<in> set candidates" and free: "claimBlocker c (loadParentStatuses candidates db1) ops = None"
    and r: "r \<in> set (jobs shadow)" "dependsOnJobId r = dependsOnJobId c" "status r = Pending"
  shows "unblocked (jobs shadow) {job_id r}"
  unfolding unblocked_def
proof (intro ballI impI conjI allI)
  fix t assume t: "t \<in> set (jobs shadow)" "job_id t \<in> {job_id r}"
  then have tr: "t = r" using same_row[OF tables_okD(1)[OF moves_tables_ok[OF mv ok]] t(1) r(1)] by simp
  then show "status t = Pending" using r(3) by simp
  fix p s assume "dependsOnJobId t = Some p" "s \<in> set (jobs shadow)" "job_id s = p"
  then have dep: "dependsOnJobId c = Some (job_id s)" and s: "s \<in> set (jobs shadow)" using tr r(2) by simp_all
  obtain s0 where s0: "s0 \<in> set (jobs db1)" "job_id s0 = job_id s"
    "\<not> active (status s0) \<longrightarrow> status s = status s0"
    using moves_row[OF mv s] by blast
  then have "map_of (loadParentStatuses candidates db1) (job_id s) = Some (status s0)"
    using loadParentStatuses_row[OF tables_okD(1)[OF ok] s0(1) c] dep by simp
  with free dep have "\<not> active (status s0)"
    by (auto simp: claimBlocker_def active_def Let_def split: if_splits)
  with s0(3) show "\<not> active (status s)" by simp
qed

lemma unblocked_union: "unblocked rows A \<Longrightarrow> unblocked rows B \<Longrightarrow> unblocked rows (A \<union> B)"
  by (auto simp: unblocked_def)

lemma update_where_compose:
  "(\<And>t. t \<in> set rows \<Longrightarrow> (let t' = if Q t then g t else t in if P t' then f t' else t') = (if R t then g t else t)) \<Longrightarrow>
     update_where P f (update_where Q g rows) = update_where R g rows"
  by (induction rows) (simp_all add: update_where_def Let_def)

lemma claimCandidate_shadow:
  assumes inv: "pass_inv token input db1 shadow claimed db" and ok: "tables_ok db1"
    and c: "c \<in> set candidates" and free: "claimBlocker c (loadParentStatuses candidates db1) ops = None"
    and row: "c \<in> set (jobs db1)" and new: "job_id c \<notin> job_id ` set claimed"
  shows "case claimCandidate (token (job_id c)) input (job_id c) db of
      (None, db') \<Rightarrow> db' = db
    | (Some x, db') \<Rightarrow> job_id x = job_id c \<and> pass_inv token input db1 shadow (claimed @ [x]) db'"
proof -
  let ?P = "\<lambda>r :: job. job_id r = job_id c \<and> status r = Pending"
  have mv: "moves db1 shadow" and db: "db = overlay token input (job_id ` set claimed) shadow"
    using inv by (simp_all add: pass_inv_def)
  have ok': "tables_ok shadow" by (rule moves_tables_ok[OF mv ok])
  have st: "job_id (start_row token input r) = job_id r" for r using keeps_start_row(1) by (simp add: keeps_def)
  have filt: "filter ?P (jobs db) = filter ?P (jobs shadow)"
    unfolding db overlay_def by (simp, rule filter_update_where) (use new in \<open>auto simp: st\<close>)
  show ?thesis
  proof (cases "filter ?P (jobs shadow)")
    case Nil
    then show ?thesis by (simp add: claimCandidate_def Let_def returning_def filt)
  next
    case (Cons r rs)
    have "r \<in> set (filter ?P (jobs shadow))" unfolding Cons by simp
    then have r: "r \<in> set (jobs shadow)" "job_id r = job_id c" "status r = Pending" by simp_all
    obtain r0 where r0: "r0 \<in> set (jobs db1)" "job_id r0 = job_id r" "dependsOnJobId r0 = dependsOnJobId r"
      using moves_row[OF mv r(1)] by blast
    then have "r0 = c" using same_row[OF tables_okD(1)[OF ok] r0(1) row] r(2) by simp
    with r0 have dep: "dependsOnJobId r = dependsOnJobId c" by simp
    let ?x = "start_row token input r"
    have x: "claim_row (token (job_id c)) input r = ?x" by (simp add: start_row_def r(2))
    have upd: "update_jobs ?P (claim_row (token (job_id c)) input) db =
        overlay token input (job_id ` set (claimed @ [?x])) shadow"
    proof -
      have "update_where ?P (claim_row (token (job_id c)) input) (jobs db) =
          update_where (\<lambda>r. job_id r \<in> job_id ` set (claimed @ [?x])) (start_row token input) (jobs shadow)"
        unfolding db jobs_overlay
      proof (rule update_where_compose)
        fix t assume t: "t \<in> set (jobs shadow)"
        show "(let t' = if job_id t \<in> job_id ` set claimed then start_row token input t else t
            in if ?P t' then claim_row (token (job_id c)) input t' else t') =
          (if job_id t \<in> job_id ` set (claimed @ [?x]) then start_row token input t else t)"
          using same_row[OF tables_okD(1)[OF ok'] t r(1)] r new
          by (cases "job_id t \<in> job_id ` set claimed"; cases "job_id t = job_id c")
            (auto simp: start_row_def claim_row_def Let_def)
      qed
      then show ?thesis by (simp add: update_jobs_def db overlay_def)
    qed
    have ub: "unblocked (jobs shadow) (job_id ` set (claimed @ [?x]))"
      using unblocked_union[of "jobs shadow" "job_id ` set claimed" "{job_id r}"]
        unblocked_candidate[OF ok mv c free r(1) dep r(3)] inv
      by (simp add: pass_inv_def st)
    have "claimCandidate (token (job_id c)) input (job_id c) db =
        (Some ?x, update_jobs ?P (claim_row (token (job_id c)) input) db)"
      by (simp add: claimCandidate_def Let_def returning_def filt Cons x)
    with upd ub inv new r show ?thesis
      by (auto simp: pass_inv_def st)
  qed
qed

lemma cancelPending_pass:
  assumes inv: "pass_inv token input db1 shadow claimed db" and ok: "tables_ok db1"
    and new: "i \<notin> job_id ` set claimed"
  shows "\<exists>b d shadow'. cancelPending clock i db = Some (b, d) \<and> pass_inv token input db1 shadow' claimed d"
proof -
  let ?ids = "job_id ` set claimed"
  have mv: "moves db1 shadow" and db: "db = overlay token input ?ids shadow"
    and ub: "unblocked (jobs shadow) ?ids" and rows: "\<forall>x \<in> set claimed. \<exists>r \<in> set (jobs shadow). x = start_row token input r"
    using inv by (simp_all add: pass_inv_def)
  have ok': "tables_ok shadow" by (rule moves_tables_ok[OF mv ok])
  obtain b d where d: "cancelPending clock i shadow = Some (b, d)" "moves shadow d" "unblocked (jobs d) ?ids"
    "\<forall>r \<in> set (jobs shadow). job_id r \<in> ?ids \<longrightarrow> r \<in> set (jobs d)"
    "cancelPending clock i db = Some (b, overlay token input ?ids d)"
    using cancelPending_overlay[OF ok' ub new, of clock token input] db by blast
  have "\<exists>r \<in> set (jobs d). x = start_row token input r" if x: "x \<in> set claimed" for x
  proof -
    from rows x obtain r where r: "r \<in> set (jobs shadow)" "x = start_row token input r" by blast
    then have "job_id r = job_id x" by (simp add: start_row_def claim_row_def)
    then have "job_id r \<in> ?ids" using x by simp
    with d(4) r show ?thesis by blast
  qed
  moreover have "calm shadow d" "pending_kept shadow d"
    using cancelPending_calm[OF ok' d(1)] cancelPending_kept[OF ok' d(1)] by simp_all
  ultimately show ?thesis
    using d mv inv by (intro exI[of _ b] exI[of _ "overlay token input ?ids d"] exI[of _ d])
      (auto simp: pass_inv_def intro: rtranclp_trans calm_trans pending_kept_trans)
qed

text \<open>
  The loop keeps the invariant; what it claims are candidates without a blocker, in their
  order, within the batch size and the concurrency.
\<close>

lemma claim_loop_pass:
  assumes ok: "tables_ok db1" and sub: "set cs \<subseteq> set candidates" and rows: "set candidates \<subseteq> set (jobs db1)"
    and dist: "distinct (map job_id cs)" and fresh: "\<forall>c \<in> set cs. job_id c \<notin> job_id ` set claimed"
    and inv: "pass_inv token input db1 shadow claimed db"
  shows "\<exists>claimed' db' shadow'.
     claim_loop token clock input n (loadParentStatuses candidates db1) ops cs claimed running db = Some (claimed', db')
     \<and> pass_inv token input db1 shadow' claimed' db'"
  using assms(2,4-6)
proof (induction cs arbitrary: claimed running db shadow)
  case Nil
  then show ?case by auto
next
  case (Cons c cs)
  let ?parents = "loadParentStatuses candidates db1"
  show ?case
  proof (cases "n \<le> length claimed")
    case True
    with Cons.prems show ?thesis by auto
  next
    case False
    show ?thesis
    proof (cases "claimBlocker c ?parents ops")
      case None
      show ?thesis
      proof (cases "cl_concurrency input \<le> int running")
        case True
        with False None Cons.prems show ?thesis by auto
      next
        case room: False
        from claimCandidate_shadow[OF Cons.prems(4) ok _ None] Cons.prems rows
        have step: "case claimCandidate (token (job_id c)) input (job_id c) db of
            (None, db') \<Rightarrow> db' = db
          | (Some x, db') \<Rightarrow> job_id x = job_id c \<and> pass_inv token input db1 shadow (claimed @ [x]) db'" by auto
        show ?thesis
        proof (cases "claimCandidate (token (job_id c)) input (job_id c) db")
          case (Pair r d)
          show ?thesis
          proof (cases r)
            case rNone: None
            with step Pair have "d = db" by simp
            with Cons.IH[of claimed shadow db] Cons.prems False None room Pair rNone show ?thesis by auto
          next
            case (Some x)
            with step Pair have x: "job_id x = job_id c" "pass_inv token input db1 shadow (claimed @ [x]) d" by simp_all
            have other: "\<forall>e \<in> set cs. job_id e \<noteq> job_id c"
              using Cons.prems(2) by (auto simp: image_iff)
            with x Cons.IH[of "claimed @ [x]" shadow d "running + 1"] Cons.prems False None room Pair Some
            show ?thesis by auto
          qed
        qed
      qed
    next
      case (Some b)
      show ?thesis
      proof (cases "b = Parent_pending")
        case True
        with Some False Cons.IH[of claimed shadow db running] Cons.prems show ?thesis by auto
      next
        case notp: False
        obtain t d s where d: "cancelPending clock (job_id c) db = Some (t, d)" "pass_inv token input db1 s claimed d"
          using cancelPending_pass[OF Cons.prems(4) ok, of "job_id c" clock] Cons.prems(3) by auto
        with Cons.IH[of claimed s d running] Cons.prems obtain claimed' db' shadow' where
          "claim_loop token clock input n ?parents ops cs claimed running d = Some (claimed', db')"
          "pass_inv token input db1 shadow' claimed' db'" by auto
        with d(1) Some False notp show ?thesis by (cases b) auto
      qed
    qed
  qed
qed

lemma pass_result:
  assumes ok: "tables_ok db1" and inv: "pass_inv token input db1 shadow claimed db"
  shows "applyOperationCounts (toOperationCounts (map operationId claimed)) (markJobStarted now) db =
     transition (markJobStarted now) (\<lambda>r. job_id r \<in> job_id ` set claimed) (start_row token input) shadow"
    and "moves db1 (transition (markJobStarted now) (\<lambda>r. job_id r \<in> job_id ` set claimed) (start_row token input) shadow)"
proof -
  let ?P = "\<lambda>r :: job. job_id r \<in> job_id ` set claimed"
  have mv: "moves db1 shadow" and db: "db = update_jobs ?P (start_row token input) shadow"
    and dist: "distinct (map job_id claimed)" and ub: "unblocked (jobs shadow) (job_id ` set claimed)"
    and rows: "\<forall>x \<in> set claimed. \<exists>r \<in> set (jobs shadow). x = start_row token input r"
    using inv by (simp_all add: pass_inv_def overlay_def update_jobs_def)
  have ok': "tables_ok shadow" by (rule moves_tables_ok[OF mv ok])
  have kr: "job_id (start_row token input r) = job_id r" "operationId (start_row token input r) = operationId r" for r
    using keeps_start_row(1) by (simp_all add: keeps_def)
  have "(\<lambda>r. (job_id r, operationId r)) ` set claimed = (\<lambda>r. (job_id r, operationId r)) ` {r \<in> set (jobs shadow). ?P r}"
  proof (intro equalityI image_subsetI)
    fix x assume x: "x \<in> set claimed"
    with rows obtain r where "r \<in> set (jobs shadow)" "x = start_row token input r" by blast
    with x show "(job_id x, operationId x) \<in> (\<lambda>r. (job_id r, operationId r)) ` {r \<in> set (jobs shadow). ?P r}"
      by (intro image_eqI[of _ _ r]) (auto simp: kr intro!: image_eqI[of _ _ x])
  next
    fix r assume r: "r \<in> {r \<in> set (jobs shadow). ?P r}"
    then obtain x where x: "x \<in> set claimed" "job_id r = job_id x" by auto
    with rows obtain s where s: "s \<in> set (jobs shadow)" "x = start_row token input s" by blast
    with r x have "s = r" using same_row[OF tables_okD(1)[OF ok']] by (simp add: kr)
    with s x show "(job_id r, operationId r) \<in> (\<lambda>r. (job_id r, operationId r)) ` set claimed"
      by (intro image_eqI[of _ _ x]) (simp_all add: kr)
  qed
  then have "amount_for (map operationId claimed) oid = moved ?P (jobs shadow) oid" for oid
    by (rule amount_moved[OF dist tables_okD(1)[OF ok']])
  then show "applyOperationCounts (toOperationCounts (map operationId claimed)) (markJobStarted now) db =
     transition (markJobStarted now) ?P (start_row token input) shadow"
    unfolding db by (rule counts_transition[OF mark_started.job_mark_axioms])
  have "moves shadow (transition (markJobStarted now) ?P (start_row token input) shadow)"
    by (rule move_transition[OF mark_started.job_mark_axioms]) (use ub in \<open>auto simp: unblocked_def keeps_start_row\<close>)
  with mv show "moves db1 (transition (markJobStarted now) ?P (start_row token input) shadow)"
    by (rule rtranclp_trans)
qed

lemma claim_candidates_rows:
  assumes "tables_ok db"
  shows "set (claim_candidates input n db) \<subseteq> {r \<in> set (jobs db). workerId r = cl_workerId input
      \<and> status r = Pending \<and> runAt r \<le> secs (cl_now input)}"
    and "distinct (map job_id (claim_candidates input n db))"
proof -
  let ?rows = "filter (\<lambda>r. workerId r = cl_workerId input \<and> status r = Pending \<and> runAt r \<le> secs (cl_now input)) (jobs db)"
  show "set (claim_candidates input n db) \<subseteq> {r \<in> set (jobs db). workerId r = cl_workerId input
      \<and> status r = Pending \<and> runAt r \<le> secs (cl_now input)}"
    unfolding claim_candidates_def by (auto dest: in_set_takeD)
  have "distinct (map job_id (sort_key (\<lambda>r. (priority r, runAt r, createdAt r)) ?rows))"
    using tables_okD(1)[OF assms] by (auto simp: distinct_map inj_on_def)
  then show "distinct (map job_id (claim_candidates input n db))"
    unfolding claim_candidates_def take_map[symmetric] by (rule distinct_take)
qed

lemma pass_inv_start: "pass_inv token input db db [] db"
  by (simp add: pass_inv_def overlay_def unblocked_def update_where_def pending_kept_def)

text \<open>What the loop claims.\<close>

lemma claimCandidate_row:
  "claimCandidate t input i db = (Some x, d) \<Longrightarrow> job_id x = i"
  by (auto simp: claimCandidate_def Let_def returning_def claim_row_def filter_eq_Cons_iff split: list.splits)

lemma claim_loop_claims:
  assumes "claim_loop token clock input n parents ops cs claimed running db = Some (claimed', db')"
  shows "\<exists>new. claimed' = claimed @ new
     \<and> length claimed' \<le> max n (length claimed)
     \<and> int (running + length new) \<le> max (int running) (cl_concurrency input)
     \<and> subseq (map job_id new) (map job_id cs)
     \<and> (\<forall>x \<in> set new. \<exists>c \<in> set cs. job_id c = job_id x \<and> claimBlocker c parents ops = None)"
  using assms
proof (induction cs arbitrary: claimed running db)
  case (Cons c cs)
  note run = Cons.prems
  show ?case
  proof (cases "n \<le> length claimed")
    case more: False
    show ?thesis
    proof (cases "claimBlocker c parents ops")
      case free: None
      show ?thesis
      proof (cases "cl_concurrency input \<le> int running")
        case room: False
        obtain r d where cl: "claimCandidate (token (job_id c)) input (job_id c) db = (r, d)" by fastforce
        show ?thesis
        proof (cases r)
          case None
          with run more free room cl
          have "claim_loop token clock input n parents ops cs claimed running d = Some (claimed', db')" by simp
          from Cons.IH[OF this] show ?thesis by (auto intro: list_emb_Cons)
        next
          case (Some x)
          with run more free room cl
          have "claim_loop token clock input n parents ops cs (claimed @ [x]) (running + 1) d = Some (claimed', db')" by simp
          from Cons.IH[OF this] obtain new where
            "claimed' = (claimed @ [x]) @ new" "length claimed' \<le> max n (length (claimed @ [x]))"
            "int (running + 1 + length new) \<le> max (int (running + 1)) (cl_concurrency input)"
            "subseq (map job_id new) (map job_id cs)"
            "\<forall>x \<in> set new. \<exists>c \<in> set cs. job_id c = job_id x \<and> claimBlocker c parents ops = None"
            by blast
          with claimCandidate_row[of "token (job_id c)" input "job_id c" db x d] cl Some free room more
          show ?thesis by (intro exI[of _ "x # new"]) auto
        qed
      qed (use run more free in auto)
    next
      case (Some b)
      then obtain d where "claim_loop token clock input n parents ops cs claimed running d = Some (claimed', db')"
        using run more by (cases b) (auto split: option.splits prod.splits)
      from Cons.IH[OF this] show ?thesis by (auto intro: list_emb_Cons)
    qed
  qed (use run in auto)
qed auto

text \<open>The whole pass.\<close>

lemma claimRunnableItems_result:
  assumes ok: "tables_ok db"
  shows "\<exists>claimed db' db1.
     claimRunnableItems token clock input n db = Some (claimed, db') \<and> moves db db'
     \<and> recoverExpired (cl_workerId input) (cl_now input) (cl_excludeActiveIds input) db = Some db1
     \<and> moves db db1 \<and> moves db1 db' \<and> calm db db1
     \<and> length claimed \<le> n
     \<and> subseq (map job_id claimed) (map job_id (claim_candidates input n db1))
     \<and> int (running_of (cl_workerId input) (jobs db1) + length claimed)
         \<le> max (int (running_of (cl_workerId input) (jobs db1))) (cl_concurrency input)
     \<and> running_of (cl_workerId input) (jobs db') \<le> running_of (cl_workerId input) (jobs db1) + length claimed
     \<and> (\<forall>x \<in> set claimed. x \<in> set (jobs db') \<and>
          (\<exists>c \<in> set (claim_candidates input n db1). x = start_row token input c
             \<and> claimBlocker c (loadParentStatuses (claim_candidates input n db1) db1)
                 (cancelled_operations (claim_candidates input n db1) db1) = None))"
proof -
  let ?w = "cl_workerId input"
  obtain db1 where r: "recoverExpired ?w (cl_now input) (cl_excludeActiveIds input) db = Some db1"
    and m1: "moves db db1" and c1: "calm db db1"
    using recoverExpired_moves[OF ok] by blast
  have ok1: "tables_ok db1" by (rule moves_tables_ok[OF m1 ok])
  let ?cs = "claim_candidates input n db1"
  let ?parents = "loadParentStatuses ?cs db1" and ?ops = "cancelled_operations ?cs db1"
  have sub: "set ?cs \<subseteq> set (jobs db1)" using claim_candidates_rows(1)[OF ok1, of input n] by blast
  obtain claimed d shadow where
    loop: "claim_loop token clock input n ?parents ?ops ?cs [] (running_of ?w (jobs db1)) db1 = Some (claimed, d)"
    and inv: "pass_inv token input db1 shadow claimed d"
    using claim_loop_pass[where claimed = "[]" and token = token and input = input and running = "running_of ?w (jobs db1)"
        and clock = clock and n = n and ops = ?ops,
        OF ok1 subset_refl sub claim_candidates_rows(2)[OF ok1] _ pass_inv_start]
    by auto
  let ?db' = "transition (markJobStarted (cl_now input)) (\<lambda>r. job_id r \<in> job_id ` set claimed) (start_row token input) shadow"
  have res: "claimRunnableItems token clock input n db = Some (claimed, ?db')"
    using r loop pass_result(1)[OF ok1 inv, of "cl_now input"] by (simp add: claimRunnableItems_def Let_def)
  have mv: "moves db ?db'" using m1 pass_result(2)[OF ok1 inv, of "cl_now input"] by (rule rtranclp_trans)
  have claims: "length claimed \<le> n" "subseq (map job_id claimed) (map job_id ?cs)"
    "int (running_of ?w (jobs db1) + length claimed) \<le> max (int (running_of ?w (jobs db1))) (cl_concurrency input)"
    "\<forall>x \<in> set claimed. \<exists>c \<in> set ?cs. job_id c = job_id x \<and> claimBlocker c ?parents ?ops = None"
    using claim_loop_claims[OF loop] by auto
  have ids: "job_id (start_row token input r) = job_id r" for r by (simp add: start_row_def claim_row_def)
  have rows: "x \<in> set (jobs ?db') \<and> (\<exists>c \<in> set ?cs. x = start_row token input c \<and> claimBlocker c ?parents ?ops = None)"
    if x: "x \<in> set claimed" for x
  proof -
    from inv x obtain r where row: "r \<in> set (jobs shadow)" "x = start_row token input r"
      by (auto simp: pass_inv_def)
    with x have "job_id r \<in> job_id ` set claimed" by (auto simp: ids intro!: image_eqI[of _ _ x])
    with inv row have pend: "status r = Pending" "r \<in> set (jobs db1)"
      by (auto simp: pass_inv_def unblocked_def pending_kept_def)
    from claims(4) x obtain c where c: "c \<in> set ?cs" "job_id c = job_id x" "claimBlocker c ?parents ?ops = None" by blast
    then have "c = r" using same_row[OF tables_okD(1)[OF ok1] _ pend(2)] sub row(2) by (auto simp: ids)
    with c row \<open>job_id r \<in> _\<close> show ?thesis by (auto simp: transition_def in_update_where intro!: bexI[of _ r])
  qed
  have dist: "distinct (map job_id (jobs shadow))"
    using inv tables_okD(1)[OF moves_tables_ok[OF _ ok1]] by (simp add: pass_inv_def)
  have "running_of ?w (update_where (\<lambda>r. job_id r \<in> A) (start_row token input) rs) \<le>
      running_of ?w rs + card (A \<inter> job_id ` set rs)" if "distinct (map job_id rs)" for A rs
    using that
  proof (induction rs)
    case (Cons t rs)
    then have "A \<inter> job_id ` set (t # rs) = (if job_id t \<in> A then insert (job_id t) (A \<inter> job_id ` set rs) else A \<inter> job_id ` set rs)"
      "job_id t \<notin> job_id ` set rs" by auto
    with Cons show ?case by (auto simp: running_of_def update_where_def)
  qed (simp add: running_of_def update_where_def)
  from this[OF dist, of "job_id ` set claimed"]
  have "running_of ?w (jobs ?db') \<le> running_of ?w (jobs shadow) + card (job_id ` set claimed \<inter> job_id ` set (jobs shadow))"
    by (simp add: transition_def)
  also have "card (job_id ` set claimed \<inter> job_id ` set (jobs shadow)) \<le> length claimed"
    by (rule order_trans[OF card_mono[of "job_id ` set claimed"]]) (auto intro: order_trans[OF card_image_le] card_length)
  also have "running_of ?w (jobs shadow) \<le> running_of ?w (jobs db1)" using inv by (simp add: pass_inv_def calm_def)
  finally have "running_of ?w (jobs ?db') \<le> running_of ?w (jobs db1) + length claimed" by simp
  moreover have "moves db1 ?db'" by (rule pass_result(2)[OF ok1 inv])
  ultimately show ?thesis using res mv r m1 c1 claims rows by blast
qed

lemma claimRunnableItems_moves:
  "tables_ok db \<Longrightarrow> \<exists>claimed db'. claimRunnableItems token clock input n db = Some (claimed, db') \<and> moves db db'"
  using claimRunnableItems_result[of db token clock input n] by blast

lemma claimNextBatch_moves:
  "tables_ok db \<Longrightarrow> \<exists>claimed db'. claimNextBatch token clock input n db = Some (claimed, db') \<and> moves db db'"
  using claimRunnableItems_moves[of db token clock input "nat n"] by (auto simp: claimNextBatch_def)

end
