(* ===== verification/Queue_Intake.thy ===== *)
theory Queue_Intake
  imports Queue_Claims
begin

section \<open>Intake, deletion and the life of operations\<close>

text \<open>
  The steps of the queue that are not moves: the insertion of a batch, the deletion of rows
  with its foreign keys, and the changes of an operation that no job makes. Each keeps the
  invariant of the tables.
\<close>

text \<open>The foreign key of the dependencies: a parent that is not a row any more has been set to null.\<close>

definition deps_exist :: "job list \<Rightarrow> bool" where
  "deps_exist rows \<longleftrightarrow> (\<forall>r \<in> set rows. \<forall>d. dependsOnJobId r = Some d \<longrightarrow> d \<in> set (map job_id rows))"

definition full_inv :: "(operation_id \<Rightarrow> int) \<Rightarrow> worker_db \<Rightarrow> bool" where
  "full_inv slots db \<longleftrightarrow> queue_inv slots (\<lambda>_. 0) db \<and> deps_exist (jobs db)"

lemma moves_full_inv:
  assumes "moves db db'" and "full_inv slots db"
  shows "full_inv slots db'"
proof -
  have ids: "map job_id (jobs db') = map job_id (jobs db)"
    using assms(1)
  proof (induction rule: rtranclp_induct)
    case (step d d')
    from move_jobs[OF step.hyps(2)] obtain P f where "keeps f" "jobs d' = update_where P f (jobs d)" by blast
    with step.IH show ?case by (simp add: update_where_map keeps_def)
  qed simp
  have "deps_exist (jobs db')"
    unfolding deps_exist_def ids
  proof (intro ballI allI impI)
    fix r' d assume r': "r' \<in> set (jobs db')" "dependsOnJobId r' = Some d"
    obtain r where "r \<in> set (jobs db)" "dependsOnJobId r = dependsOnJobId r'" using moves_row[OF assms(1) r'(1)] by blast
    with r'(2) assms(2) show "d \<in> set (map job_id (jobs db))" by (simp add: full_inv_def deps_exist_def)
  qed
  with assms(2) moves_inv[OF assms(1)] show ?thesis by (simp add: full_inv_def)
qed

lemma full_inv_tables: "full_inv slots db \<Longrightarrow> tables_ok db"
  by (simp add: full_inv_def queue_inv_def)

subsection \<open>Validation\<close>

lemma first_error_none: "first_error check xs = None \<longleftrightarrow> (\<forall>x \<in> set xs. check x = None)"
  by (induction xs) (auto split: option.split)

lemma validated:
  assumes "validateBatchRelations inputs db = None" and "i \<in> set inputs"
  shows "dependency_of i = Some d \<Longrightarrow> d \<in> set (map job_id (jobs db)) \<and> d \<noteq> in_id i \<and> in_operationId i \<noteq> None"
    and "in_operationId i = Some oid \<Longrightarrow> \<exists>op \<in> set (operations db). op_id op = oid \<and> \<not> cancelRequested op"
proof -
  let ?ids = "unique (List.map_filter in_operationId inputs)"
  let ?ops = "to_map op_id (mapChunked ?ids (\<lambda>c. filter (\<lambda>op. op_id op \<in> set c) (operations db)))"
  let ?rows = "mapChunked (unique (List.map_filter dependency_of inputs)) (\<lambda>c. filter (\<lambda>r. job_id r \<in> set c) (jobs db))"
  let ?deps = "map (\<lambda>(k, r). (k, operationId r)) (to_map job_id ?rows)"
  have checks: "\<forall>x \<in> set ?ids. check_operation ?ops x = None" "\<forall>x \<in> set inputs. assertDependencyValid ?deps x = None"
    using assms(1) by (simp_all add: validateBatchRelations_def Let_def first_error_none split: option.splits)
  show "d \<in> set (map job_id (jobs db)) \<and> d \<noteq> in_id i \<and> in_operationId i \<noteq> None" if d: "dependency_of i = Some d"
  proof -
    have a: "assertDependencyValid ?deps i = None" using checks(2) assms(2) by blast
    then obtain x where "map_of ?deps d = Some x" and other: "d \<noteq> in_id i" "in_operationId i \<noteq> None"
      using d by (auto simp: assertDependencyValid_def split: if_splits option.splits)
    then have "(d, x) \<in> set ?deps" by (blast dest: map_of_SomeD)
    then obtain r where "(d, r) \<in> set (to_map job_id ?rows)" by auto
    then have "r \<in> set ?rows" "d = job_id r" by (auto dest: to_map_values)
    then show ?thesis using other by (simp add: in_depRows)
  qed
  show "\<exists>op \<in> set (operations db). op_id op = oid \<and> \<not> cancelRequested op" if "in_operationId i = Some oid"
  proof -
    have "oid \<in> set ?ids" using that assms(2) by (force simp: List.map_filter_def)
    then have "check_operation ?ops oid = None" using checks(1) by blast
    then obtain op where op: "map_of ?ops oid = Some op" "\<not> cancelRequested op"
      by (auto simp: check_operation_def split: option.splits if_splits)
    then have "(oid, op) \<in> set ?ops" by (blast dest: map_of_SomeD)
    then have "op \<in> set (mapChunked ?ids (\<lambda>c. filter (\<lambda>op. op_id op \<in> set c) (operations db)))" "oid = op_id op"
      by (auto dest: to_map_values)
    moreover from this have "op \<in> set (operations db)"
      using in_mapChunked[of "\<lambda>c. filter (\<lambda>op. op_id op \<in> set c) (operations db)"
          "\<lambda>k op. op \<in> set (operations db) \<and> op_id op = k" op ?ids] by auto
    ultimately show ?thesis using op(2) by blast
  qed
qed

subsection \<open>Insertion\<close>

lemma insert_ignoring_append:
  "insert_ignoring rows table = (ins, table') \<Longrightarrow> table' = table @ ins \<and> set ins \<subseteq> set rows"
  by (induction rows arbitrary: table ins table') (fastforce split: if_splits prod.splits)+

lemma insert_ignoring_inv:
  assumes "insert_ignoring rows table = (ins, table')" and "I table"
    and "\<And>row table. row \<in> set rows \<Longrightarrow> I table \<Longrightarrow> \<forall>r \<in> set table. \<not> conflicting row r \<Longrightarrow> I (table @ [row])"
  shows "I table'"
  using assms
proof (induction rows arbitrary: table ins)
  case (Cons row rows)
  show ?case
  proof (cases "\<exists>r \<in> set table. conflicting row r")
    case True
    with Cons.prems Cons.IH[of table ins] show ?thesis by auto
  next
    case False
    then obtain ins' where "insert_ignoring rows (table @ [row]) = (ins', table')"
      using Cons.prems(1) by (auto split: prod.splits)
    with Cons.IH[of "table @ [row]" ins'] Cons.prems(2,3) False show ?thesis by auto
  qed
qed simp

lemma insert_chunks:
  assumes "I (jobs db)"
    and "\<And>row table. row \<in> set (concat cs) \<Longrightarrow> I table \<Longrightarrow> \<forall>r \<in> set table. \<not> conflicting row r \<Longrightarrow> I (table @ [row])"
  shows "\<exists>ins. fold insert_chunk cs (acc, db) = (acc @ ins, db\<lparr>jobs := jobs db @ ins\<rparr>)
     \<and> set ins \<subseteq> set (concat cs) \<and> I (jobs db @ ins)"
  using assms
proof (induction cs arbitrary: acc db)
  case (Cons c cs)
  obtain ins table where i: "insert_ignoring c (jobs db) = (ins, table)" by fastforce
  have t: "table = jobs db @ ins" "set ins \<subseteq> set c" using insert_ignoring_append[OF i] by auto
  have "I table" by (rule insert_ignoring_inv[where I = I, OF i Cons.prems(1)]) (use Cons.prems(2) in auto)
  then obtain ins' where "fold insert_chunk cs (acc @ ins, db\<lparr>jobs := table\<rparr>) =
      ((acc @ ins) @ ins', (db\<lparr>jobs := table\<rparr>)\<lparr>jobs := table @ ins'\<rparr>)"
    "set ins' \<subseteq> set (concat cs)" "I (table @ ins')"
    using Cons.IH[of "db\<lparr>jobs := table\<rparr>" "acc @ ins"] Cons.prems(2) by auto
  moreover have "insert_chunk c (acc, db) = (acc @ ins, db\<lparr>jobs := table\<rparr>)"
    by (simp add: insert_chunk_def i)
  ultimately show ?case using t by (intro exI[of _ "ins @ ins'"]) auto
qed simp

lemma insert_all:
  assumes "I (jobs db)"
    and "\<And>row table. row \<in> set rows \<Longrightarrow> I table \<Longrightarrow> \<forall>r \<in> set table. \<not> conflicting row r \<Longrightarrow> I (table @ [row])"
  shows "\<exists>ins. forEachChunked rows insert_chunk ([], db) = (ins, db\<lparr>jobs := jobs db @ ins\<rparr>)
     \<and> set ins \<subseteq> set rows \<and> I (jobs db @ ins)"
  using insert_chunks[of I db "chunksFor rows" "[]"] assms
  by (cases "rows = []") (auto simp: forEachChunked_def)

definition rows_inv :: "job_id set \<Rightarrow> job list \<Rightarrow> bool" where
  "rows_inv ids rows \<longleftrightarrow> distinct (map job_id rows) \<and> active_unique rows \<and> deps_back rows \<and> deps_exist rows
     \<and> ids \<subseteq> set (map job_id rows)"

lemma deps_back_snoc:
  "deps_back (rows @ [row]) \<longleftrightarrow> deps_back rows \<and> dependsOnJobId row \<noteq> Some (job_id row)
     \<and> (\<forall>r \<in> set rows. dependsOnJobId r \<noteq> Some (job_id row))"
  by (induction rows) (auto split: option.splits)

lemma rows_inv_snoc:
  assumes inv: "rows_inv ids rows" and new: "\<forall>r \<in> set rows. \<not> conflicting row r"
    and dep: "\<And>d. dependsOnJobId row = Some d \<Longrightarrow> d \<in> ids"
  shows "rows_inv ids (rows @ [row])"
proof -
  have fresh: "job_id row \<notin> set (map job_id rows)" using new by (auto simp: conflicting_def)
  have apart: "\<not> dedupe_clash row r \<and> \<not> dedupe_clash r row" if "r \<in> set rows" for r
    using new that by (auto simp: conflicting_def dedupe_clash_def)
  have "active_unique (rows @ [row])"
    unfolding active_unique_def
  proof (intro ballI impI)
    fix r s assume rs: "r \<in> set (rows @ [row])" "s \<in> set (rows @ [row])" and c: "dedupe_clash r s"
    then consider "r \<in> set rows" "s \<in> set rows" | "r = row" "s = row"
      using apart by auto
    then show "job_id r = job_id s" using inv c by cases (auto simp: rows_inv_def active_unique_def)
  qed
  moreover have "deps_back (rows @ [row])"
    unfolding deps_back_snoc
    using inv fresh dep by (force simp: rows_inv_def deps_exist_def)
  moreover have "deps_exist (rows @ [row])"
    using inv dep by (auto simp: rows_inv_def deps_exist_def)
  ultimately show ?thesis using inv fresh by (auto simp: rows_inv_def)
qed

lemma enqueueMany_effect:
  assumes inv: "full_inv slots db" and res: "enqueueMany clock inputs totals db = Inr (items, db')"
  shows "\<exists>ins. jobs db' = jobs db @ ins \<and> rows_inv {} (jobs db @ ins)
     \<and> set ins \<subseteq> job_of_input clock ` set inputs
     \<and> (\<forall>x \<in> set ins. \<forall>oid. operationId x = Some oid \<longrightarrow> (\<exists>op \<in> set (operations db). op_id op = oid \<and> \<not> cancelRequested op))
     \<and> operations db' = (if totals then
          map (\<lambda>op. incrementTotalItems clock (int (amount_for (map operationId ins) (op_id op))) op) (operations db)
        else operations db)"
proof (cases "inputs = []")
  case True
  have "incrementTotalItems clock 0 op = op" for op by (simp add: incrementTotalItems_def)
  with True res inv show ?thesis
    by (auto simp: enqueueMany_def full_inv_def queue_inv_def rows_inv_def tables_ok_def ids_distinct_def
        amount_for_def intro!: exI[of _ "[]"])
next
  case False
  have v: "validateBatchRelations inputs db = None"
    using res False by (auto simp: enqueueMany_def split: option.splits)
  let ?rows = "map (job_of_input clock) inputs"
  have row: "row \<in> set ?rows \<Longrightarrow> dependsOnJobId row = Some d \<Longrightarrow> d \<in> set (map job_id (jobs db))" for row d
    using validated(1)[OF v] by (auto simp: job_of_input_def)
  have I0: "rows_inv (set (map job_id (jobs db))) (jobs db)"
    using inv by (simp add: full_inv_def queue_inv_def rows_inv_def tables_ok_def ids_distinct_def)
  obtain ins where ins: "forEachChunked ?rows insert_chunk ([], db) = (ins, db\<lparr>jobs := jobs db @ ins\<rparr>)"
    "set ins \<subseteq> set ?rows" "rows_inv (set (map job_id (jobs db))) (jobs db @ ins)"
    using insert_all[of "rows_inv (set (map job_id (jobs db)))" db ?rows, OF I0] rows_inv_snoc row by blast
  have ops: "\<exists>op \<in> set (operations db). op_id op = oid \<and> \<not> cancelRequested op"
    if "x \<in> set ins" "operationId x = Some oid" for x oid
  proof -
    from that(1) ins(2) obtain i where "i \<in> set inputs" "x = job_of_input clock i" by auto
    with that(2) validated(2)[OF v] show ?thesis by (simp add: job_of_input_def)
  qed
  have db': "db' = (if totals then applyOperationCounts (toOperationCounts (map operationId ins)) (incrementTotalItems clock)
      (db\<lparr>jobs := jobs db @ ins\<rparr>) else db\<lparr>jobs := jobs db @ ins\<rparr>)"
    using res False v ins(1) by (auto simp: enqueueMany_def Let_def split: if_splits)
  have inc: "op_id (incrementTotalItems clock n op) = op_id op" "incrementTotalItems clock 0 op = op" for n op
    by (simp_all add: incrementTotalItems_def Let_def)
  have "operations db' = (if totals then
          map (\<lambda>op. incrementTotalItems clock (int (amount_for (map operationId ins) (op_id op))) op) (operations db)
        else operations db)"
    by (simp add: db' operations_applyOperationCounts wf_toOperationCounts inc map_of_toOperationCounts)
  with db' ins ops show ?thesis
    by (intro exI[of _ ins]) (auto simp: rows_inv_def)
qed

lemma enqueueMany_inv:
  assumes inv: "full_inv slots db" and res: "enqueueMany clock inputs True db = Inr (items, db')"
  shows "full_inv slots db'"
proof -
  obtain ins where e: "jobs db' = jobs db @ ins" "rows_inv {} (jobs db @ ins)"
    "set ins \<subseteq> job_of_input clock ` set inputs"
    "operations db' = map (\<lambda>op. incrementTotalItems clock (int (amount_for (map operationId ins) (op_id op))) op) (operations db)"
    using enqueueMany_effect[OF inv res] by auto
  have pend: "\<forall>x \<in> set ins. status x = Pending" using e(3) by (auto simp: job_of_input_def)
  have cnt: "jobs_of (jobs db') oid st = jobs_of (jobs db) oid st + (if st = Pending then amount_for (map operationId ins) oid else 0)"
    "all_jobs_of (jobs db') oid = all_jobs_of (jobs db) oid + amount_for (map operationId ins) oid" for oid st
  proof -
    have "filter (\<lambda>j. operationId j = Some oid \<and> status j = st) ins =
        (if st = Pending then filter (\<lambda>j. operationId j = Some oid) ins else [])"
      using pend by (induction ins) auto
    then show "jobs_of (jobs db') oid st = jobs_of (jobs db) oid st + (if st = Pending then amount_for (map operationId ins) oid else 0)"
      by (simp add: jobs_of_def amount_for_def e(1) filter_map o_def)
    show "all_jobs_of (jobs db') oid = all_jobs_of (jobs db) oid + amount_for (map operationId ins) oid"
      by (simp add: all_jobs_of_def amount_for_def e(1) filter_map o_def)
  qed
  have inc: "op_id (incrementTotalItems clock n op) = op_id op"
    "0 \<le> n \<Longrightarrow> counter st (incrementTotalItems clock n op) = counter st op + (if st = Pending then n else 0)"
    "0 \<le> n \<Longrightarrow> totalItems (incrementTotalItems clock n op) = totalItems op + n"
    "quiet op \<Longrightarrow> quiet (incrementTotalItems clock n op)" for n st op
    by (auto simp: incrementTotalItems_def Let_def counter_def quiet_def split: job_status.split)
  have bal: "balanced slots (\<lambda>_. 0) db" and q: "\<forall>op \<in> set (operations db). quiet op"
    and ops: "distinct (map op_id (operations db))"
    using inv by (simp_all add: full_inv_def queue_inv_def tables_ok_def ids_distinct_def)
  have "balanced slots (\<lambda>_. 0) db'"
    using bal by (auto simp: balanced_def e(4) inc cnt)
  moreover have "\<forall>op \<in> set (operations db'). quiet op" using q by (auto simp: e(4) inc(4))
  moreover have "map op_id (operations db') = map op_id (operations db)" by (simp add: e(4) inc(1))
  ultimately show ?thesis
    using e(1,2) ops by (simp add: full_inv_def queue_inv_def tables_ok_def ids_distinct_def rows_inv_def)
qed

subsection \<open>Deletion\<close>

lemma deps_back_map_none:
  assumes "deps_back rows" and "\<And>r. job_id (f r) = job_id r"
    and "\<And>r. dependsOnJobId (f r) = dependsOnJobId r \<or> dependsOnJobId (f r) = None"
  shows "deps_back (map f (filter P rows))"
  using assms(1)
proof (induction rows)
  case (Cons r rows)
  have ids: "set (map job_id (map f (filter P rows))) \<subseteq> set (map job_id rows)" using assms(2) by auto
  have "deps_back rows" using Cons.prems by simp
  then show ?case
    using Cons ids assms(2) assms(3)[of r] by (auto split: option.splits)
qed simp

lemma active_unique_map:
  assumes "active_unique rows" and "\<And>r. job_id (f r) = job_id r \<and> workerId (f r) = workerId r
    \<and> dedupeKey (f r) = dedupeKey r \<and> status (f r) = status r"
  shows "active_unique (map f (filter P rows))"
  using assms by (auto simp: active_unique_def dedupe_clash_def)

text \<open>
  Rows without an operation, or whose operation is deleted with them, can go: the counters of
  the operations that stay do not change.
\<close>

lemma delete_inv:
  assumes inv: "full_inv slots db"
    and jobs': "jobs db' = map f (filter (\<lambda>r. \<not> P r) (jobs db))"
    and f: "\<And>r. job_id (f r) = job_id r \<and> workerId (f r) = workerId r \<and> dedupeKey (f r) = dedupeKey r \<and> status (f r) = status r"
    and dep: "\<And>r. dependsOnJobId (f r) = dependsOnJobId r \<or> dependsOnJobId (f r) = None"
    and gone: "\<And>r d. r \<in> set (jobs db) \<Longrightarrow> \<not> P r \<Longrightarrow> dependsOnJobId (f r) = Some d \<Longrightarrow> \<forall>g \<in> set (jobs db). P g \<longrightarrow> job_id g \<noteq> d"
    and ops': "operations db' = filter (\<lambda>op. \<not> Q op) (operations db)"
    and keep: "\<And>r op. r \<in> set (jobs db) \<Longrightarrow> op \<in> set (operations db) \<Longrightarrow> \<not> Q op \<Longrightarrow>
      (\<not> P r \<and> operationId (f r) = Some (op_id op)) = (operationId r = Some (op_id op))"
  shows "full_inv slots db'"
proof -
  have ok: "tables_ok db" by (rule full_inv_tables[OF inv])
  have ids: "map job_id (jobs db') = map job_id (filter (\<lambda>r. \<not> P r) (jobs db))"
    using f by (simp add: jobs' o_def)
  have "tables_ok db'"
    unfolding tables_ok_def ids_distinct_def ids
    using tables_okD[OF ok] deps_back_map_none[of "jobs db" f] active_unique_map[of "jobs db" f] f dep
    by (auto simp: jobs' ops' distinct_map_filter)
  moreover have "deps_exist (jobs db')"
    unfolding deps_exist_def
  proof (intro ballI allI impI)
    fix r' d assume "r' \<in> set (jobs db')" and d: "dependsOnJobId r' = Some d"
    then obtain r where r: "r \<in> set (jobs db)" "\<not> P r" "r' = f r" by (auto simp: jobs')
    with d dep[of r] have "dependsOnJobId r = Some d" by auto
    with inv r(1) have "d \<in> set (map job_id (jobs db))" by (simp add: full_inv_def deps_exist_def)
    then obtain p where p: "p \<in> set (jobs db)" "job_id p = d" by auto
    with gone[OF r(1,2)] d r(3) have "\<not> P p" by auto
    with p show "d \<in> set (map job_id (jobs db'))" unfolding ids by auto
  qed
  moreover have "jobs_of (jobs db') (op_id op) st = jobs_of (jobs db) (op_id op) st"
    "all_jobs_of (jobs db') (op_id op) = all_jobs_of (jobs db) (op_id op)"
    if op: "op \<in> set (operations db)" "\<not> Q op" for op st
  proof -
    have "filter (\<lambda>r. \<not> P r \<and> operationId (f r) = Some (op_id op) \<and> status (f r) = st) (jobs db) =
        filter (\<lambda>r. operationId r = Some (op_id op) \<and> status r = st) (jobs db)"
      by (rule filter_cong) (use keep[OF _ op] f in auto)
    then show "jobs_of (jobs db') (op_id op) st = jobs_of (jobs db) (op_id op) st"
      by (simp add: jobs_of_def jobs' filter_map o_def conj_commute conj_left_commute)
    have "filter (\<lambda>r. \<not> P r \<and> operationId (f r) = Some (op_id op)) (jobs db) =
        filter (\<lambda>r. operationId r = Some (op_id op)) (jobs db)"
      by (rule filter_cong) (use keep[OF _ op] in auto)
    then show "all_jobs_of (jobs db') (op_id op) = all_jobs_of (jobs db) (op_id op)"
      by (simp add: all_jobs_of_def jobs' filter_map o_def conj_commute)
  qed
  then have "balanced slots (\<lambda>_. 0) db'"
    using inv by (auto simp: full_inv_def queue_inv_def balanced_def ops')
  ultimately show ?thesis
    using inv by (auto simp: full_inv_def queue_inv_def ops')
qed

lemma delete_jobs_inv:
  assumes inv: "full_inv slots db" and P: "\<And>r. r \<in> set (jobs db) \<Longrightarrow> P r \<Longrightarrow> operationId r = None"
  shows "full_inv slots (snd (delete_jobs P db))"
proof (rule delete_inv[OF inv])
  let ?f = "\<lambda>r. if \<exists>g \<in> set (filter P (jobs db)). dependsOnJobId r = Some (job_id g) then r\<lparr>dependsOnJobId := None\<rparr> else r"
  show "jobs (snd (delete_jobs P db)) = map ?f (filter (\<lambda>r. \<not> P r) (jobs db))"
    by (simp add: delete_jobs_def Let_def)
  show "operations (snd (delete_jobs P db)) = filter (\<lambda>op. \<not> False) (operations db)"
    by (simp add: delete_jobs_def Let_def)
qed (use P in \<open>auto split: if_splits\<close>)

text \<open>The standalone rows of the retention trims have no operation.\<close>

lemma trimmed_rows:
  assumes ok: "tables_ok db" and r: "r \<in> set (jobs db)"
    and i: "job_id r \<in> set (map job_id (drop n (sort_key key (filter (\<lambda>r. P r \<and> operationId r = None) (jobs db)))))"
  shows "operationId r = None"
proof -
  from i obtain s where "s \<in> set (drop n (sort_key key (filter (\<lambda>r. P r \<and> operationId r = None) (jobs db))))" "job_id s = job_id r"
    by auto
  then have "s \<in> set (jobs db)" "operationId s = None" "job_id s = job_id r" by (auto dest: in_set_dropD)
  with same_row[OF tables_okD(1)[OF ok]] r show ?thesis by metis
qed

lemma trim_inv:
  assumes inv: "full_inv slots db"
  shows "full_inv slots (snd (trim w st n db))"
  unfolding trim_def Let_def
proof (rule delete_jobs_inv[OF inv])
  fix r
  assume "r \<in> set (jobs db)"
    and "job_id r \<in> set (map job_id (drop n (sort_key newest_first
      (filter (\<lambda>r. workerId r = w \<and> status r = st \<and> operationId r = None) (jobs db)))))"
  then show "operationId r = None"
    by (rule trimmed_rows[OF full_inv_tables[OF inv], where P = "\<lambda>r. workerId r = w \<and> status r = st", unfolded conj_assoc])
qed

lemma trimMany_inv:
  assumes inv: "full_inv slots db"
  shows "full_inv slots (snd (trimMany st keep db))"
proof (cases "keep = []")
  case True
  with inv show ?thesis by (simp add: trimMany_def)
next
  case False
  let ?ids = "concat (map (\<lambda>(w, n). map job_id (drop n (sort_key newest_first
      (filter (\<lambda>r. workerId r = w \<and> status r = st \<and> operationId r = None) (jobs db))))) keep)"
  have "full_inv slots (snd (delete_jobs (\<lambda>r. job_id r \<in> set ?ids) db))"
  proof (rule delete_jobs_inv[OF inv])
    fix r assume r: "r \<in> set (jobs db)" and i: "job_id r \<in> set ?ids"
    then obtain w n where "job_id r \<in> set (map job_id (drop n (sort_key newest_first
      (filter (\<lambda>r. workerId r = w \<and> status r = st \<and> operationId r = None) (jobs db)))))" by fastforce
    then show "operationId r = None"
      by (rule trimmed_rows[OF full_inv_tables[OF inv] r, where P = "\<lambda>r. workerId r = w \<and> status r = st", unfolded conj_assoc])
  qed
  with False show ?thesis by (simp only: trimMany_def Let_def if_False)
qed

lemma purge_inv: "full_inv slots db \<Longrightarrow> full_inv slots (snd (purgeTerminalJobs st cutoff db))"
  unfolding purgeTerminalJobs_def by (rule delete_jobs_inv) (auto simp: terminalStandaloneJobsWhere_def)

lemma delete_operations_inv: "full_inv slots db \<Longrightarrow> full_inv slots (delete_operations P db)"
proof (rule delete_inv)
  let ?f = "\<lambda>r. if \<exists>g \<in> set (filter P (operations db)). operationId r = Some (op_id g) then r\<lparr>operationId := None\<rparr> else r"
  assume inv: "full_inv slots db"
  show "jobs (delete_operations P db) = map ?f (filter (\<lambda>r. \<not> False) (jobs db))"
    by (simp add: delete_operations_def Let_def)
  show "operations (delete_operations P db) = filter (\<lambda>op. \<not> P op) (operations db)"
    by (simp add: delete_operations_def Let_def)
  fix r op assume op: "op \<in> set (operations db)" "\<not> P op"
  have "distinct (map op_id (operations db))" using tables_okD(2)[OF full_inv_tables[OF inv]] .
  then have "\<forall>g \<in> set (operations db). P g \<longrightarrow> op_id g \<noteq> op_id op"
    using op by (auto simp: distinct_map inj_on_def)
  then show "(\<not> False \<and> operationId (?f r) = Some (op_id op)) = (operationId r = Some (op_id op))" by auto
qed auto

text \<open>The jobs go with their operations, chunk by chunk.\<close>

lemma delete_with_jobs_inv:
  assumes inv: "full_inv slots db"
  shows "full_inv slots (snd (delete_with_jobs ids db))"
proof -
  let ?P = "\<lambda>r. \<exists>oid \<in> set ids. operationId r = Some oid"
  let ?d = "snd (delete_jobs ?P db)"
  let ?f = "\<lambda>r. if \<exists>g \<in> set (filter ?P (jobs db)). dependsOnJobId r = Some (job_id g) then r\<lparr>dependsOnJobId := None\<rparr> else r"
  let ?h = "\<lambda>r. if \<exists>g \<in> set (filter (\<lambda>op. op_id op \<in> set ids) (operations db)). operationId r = Some (op_id g)
    then r\<lparr>operationId := None\<rparr> else r"
  have d: "jobs ?d = map ?f (filter (\<lambda>r. \<not> ?P r) (jobs db))" "operations ?d = operations db"
    by (simp_all add: delete_jobs_def Let_def)
  have eq: "snd (delete_with_jobs ids db) = delete_operations (\<lambda>op. op_id op \<in> set ids) ?d"
    by (simp add: delete_with_jobs_def split: prod.split)
  show ?thesis
  proof (rule delete_inv[OF inv])
    show "jobs (snd (delete_with_jobs ids db)) = map (?h \<circ> ?f) (filter (\<lambda>r. \<not> ?P r) (jobs db))"
      unfolding eq by (simp add: delete_operations_def Let_def d)
    show "operations (snd (delete_with_jobs ids db)) = filter (\<lambda>op. \<not> op_id op \<in> set ids) (operations db)"
      unfolding eq by (simp add: delete_operations_def Let_def d)
  qed (auto split: if_splits)
qed

lemma delete_chunks_inv:
  "full_inv slots db \<Longrightarrow> full_inv slots (forEachChunked ids (\<lambda>c db. snd (delete_with_jobs c db)) db)"
proof -
  have "full_inv slots db \<Longrightarrow> full_inv slots (fold (\<lambda>c db. snd (delete_with_jobs c db)) cs db)" for cs
    by (induction cs arbitrary: db) (simp_all add: delete_with_jobs_inv)
  then show "full_inv slots db \<Longrightarrow> ?thesis" by (simp add: forEachChunked_def)
qed

subsection \<open>The life of an operation\<close>

lemma operation_note_moves:
  assumes "op_keeps g"
  shows "moves db (db\<lparr>operations := update_where Q g (operations db)\<rparr>)"
proof -
  have "move db \<lparr>jobs = update_where (\<lambda>r. False) id (jobs db), operations = update_where Q g (operations db)\<rparr>"
    by (rule noteI) (simp_all add: keeps_def assms)
  then show ?thesis by (simp add: update_where_def) (metis r_into_rtranclp worker_db.surjective worker_db.update_convs(2) old.unit.exhaust)
qed

lemma finalize_moves: "moves db (snd (finalizeTerminalOperations now days db))"
proof -
  let ?g = "\<lambda>op. op\<lparr>retentionUntil := Some (secs (now + days * 86400000)), op_updatedAt := secs now\<rparr>"
  have g: "op_keeps ?g" by (auto simp: op_keeps_def counter_def split: job_status.split)
  have "moves db (fold (\<lambda>c db. db\<lparr>operations := update_where (\<lambda>op. op_id op \<in> set c) ?g (operations db)\<rparr>) cs db)" for cs
  proof (induction cs arbitrary: db)
    case (Cons c cs)
    show ?case using rtranclp_trans[OF operation_note_moves[OF g] Cons.IH] by simp
  qed simp
  then show ?thesis by (simp add: finalizeTerminalOperations_def Let_def forEachChunked_def)
qed

lemma cleanup_inv: "full_inv slots db \<Longrightarrow> full_inv slots (snd (cleanupExpiredOperations now db))"
  using delete_chunks_inv[OF moves_full_inv[OF finalize_moves]]
  by (auto simp: cleanupExpiredOperations_def Let_def intro: moves_full_inv[OF finalize_moves])

lemma updateProgress_moves: "moves db (updateProgress now i percent token oid db)"
proof -
  let ?P = "\<lambda>r. job_id r = i \<and> (case token of None \<Rightarrow> True | Some t \<Rightarrow> claimToken r = Some t)"
  let ?f = "\<lambda>r. r\<lparr>progressPercent := Some percent, updatedAt := secs now\<rparr>"
  have g: "op_keeps (op_updateProgress now percent)"
    by (auto simp: op_keeps_def op_updateProgress_def counter_def split: job_status.split)
  have "move db \<lparr>jobs = update_where ?P ?f (jobs db),
      operations = update_where (\<lambda>op. oid = Some (op_id op)) (op_updateProgress now percent) (operations db)\<rparr>"
    by (rule noteI[OF _ _ _ g]) (simp_all add: keeps_def)
  moreover have "updateProgress now i percent token oid db = \<lparr>jobs = update_where ?P ?f (jobs db),
      operations = update_where (\<lambda>op. oid = Some (op_id op)) (op_updateProgress now percent) (operations db)\<rparr>"
    by (rule worker_db.equality)
      (auto simp: updateProgress_def update_jobs_def updateOperation_def update_where_def Let_def
        map_idI split: option.split)
  ultimately show ?thesis by (metis r_into_rtranclp)
qed

text \<open>A change of one operation that keeps its items, with the streaming slots it gains or loses.\<close>

lemma operation_change_inv:
  assumes inv: "full_inv slots db"
    and ops: "operations db' = update_where P g (operations db)" and jobs: "jobs db' = jobs db"
    and P: "\<And>op. P op \<Longrightarrow> op_id op = oid"
    and slots: "\<And>x. x \<noteq> oid \<Longrightarrow> slots' x = slots x"
    and none: "\<And>op. op \<in> set (operations db) \<Longrightarrow> op_id op = oid \<Longrightarrow> \<not> P op \<Longrightarrow> slots' oid = slots oid"
    and g: "\<And>op. op \<in> set (operations db) \<Longrightarrow> P op \<Longrightarrow> 0 \<le> slots' oid \<and> op_id (g op) = op_id op \<and> totalItems (g op) = totalItems op
      \<and> (\<forall>st. counter st (g op) = counter st op + (if st = Running then slots' oid - slots oid else 0))
      \<and> quiet (g op)"
  shows "full_inv slots' db'"
proof -
  have ids: "map op_id (operations db') = map op_id (operations db)"
    unfolding ops update_where_def using g by auto
  have "0 \<le> slots' (op_id op') \<and> (\<forall>st. counter st op' = int (jobs_of (jobs db') (op_id op') st) + offset slots' (\<lambda>_. 0) (op_id op') st)
      \<and> totalItems op' = int (all_jobs_of (jobs db') (op_id op')) \<and> quiet op'"
    if "op' \<in> set (operations db')" for op'
  proof -
    from that obtain op where op: "op \<in> set (operations db)" "op' = (if P op then g op else op)"
      by (auto simp: ops in_update_where)
    have b: "0 \<le> slots (op_id op)" "\<And>st. counter st op = int (jobs_of (jobs db) (op_id op) st) + offset slots (\<lambda>_. 0) (op_id op) st"
      "totalItems op = int (all_jobs_of (jobs db) (op_id op))" "quiet op"
      using inv op(1) by (auto simp: full_inv_def queue_inv_def balanced_def)
    show ?thesis
    proof (cases "P op")
      case True
      then show ?thesis using b g[OF op(1)] P[OF True] op(2) by (auto simp: jobs offset_def)
    next
      case False
      then have "slots' (op_id op) = slots (op_id op)" using slots none[OF op(1)] by (cases "op_id op = oid") auto
      with False b op(2) show ?thesis by (auto simp: jobs offset_def)
    qed
  qed
  then show ?thesis
    using inv ids by (simp add: full_inv_def queue_inv_def balanced_def tables_ok_def ids_distinct_def jobs)
qed

end
