(* ===== verification/Queue_Laws.thy ===== *)
theory Queue_Laws
  imports Queue_Intake
begin

section \<open>What the job queue promises\<close>

text \<open>
  The runs of the queue from empty tables, with the streaming slots held as a ghost, and the
  properties of every reachable queue: exact counters, one active job per dedupe key, quiet
  finished operations, final terminal jobs, safe claims, complete cascades.
\<close>

subsection \<open>Runs\<close>

definition unused_operation :: "operation_id \<Rightarrow> worker_db \<Rightarrow> bool" where
  "unused_operation oid db \<longleftrightarrow>
     oid \<notin> set (map op_id (operations db)) \<and> (\<forall>r \<in> set (jobs db). operationId r \<noteq> Some oid)"

inductive queue_step ::
  "(operation_id \<Rightarrow> int) \<times> worker_db \<Rightarrow> (operation_id \<Rightarrow> int) \<times> worker_db \<Rightarrow> bool" where
  q_enqueue: "enqueueMany clock inputs True db = Inr (res, db') \<Longrightarrow> queue_step (slots, db) (slots, db')"
| q_cancelPending: "cancelPending now i db = Some (b, db') \<Longrightarrow> queue_step (slots, db) (slots, db')"
| q_cancelRunning: "cancelRunning now i token db = Some (b, db') \<Longrightarrow> queue_step (slots, db) (slots, db')"
| q_cancelPendingByOperation: "cancelPendingByOperation now oid db = Some (n, db') \<Longrightarrow> queue_step (slots, db) (slots, db')"
| q_cancelAllPending: "cancelAllPending now w db = Some (n, db') \<Longrightarrow> queue_step (slots, db) (slots, db')"
| q_cancelAllRunning: "queue_step (slots, db) (slots, snd (cancelAllRunning now w db))"
| q_claim: "claimNextBatch token clock input n db = Some (claimed, db') \<Longrightarrow> queue_step (slots, db) (slots, db')"
| q_progress: "queue_step (slots, db) (slots, updateProgress now i percent tok oid db)"
| q_complete: "complete now i runner out tok db = Some (b, db') \<Longrightarrow> queue_step (slots, db) (slots, db')"
| q_retry: "retry now i runner t err tok db = Some (b, db') \<Longrightarrow> queue_step (slots, db) (slots, db')"
| q_fail: "fail now i runner err tok db = Some (b, db') \<Longrightarrow> queue_step (slots, db) (slots, db')"
| q_recover: "snapshot rows db \<Longrightarrow> recoverOrphanedRunning now rows db = Some (n, db') \<Longrightarrow>
    queue_step (slots, db) (slots, db')"
| q_create: "unused_operation oid db \<Longrightarrow>
    queue_step (slots, db) (slots(oid := 0), createOperation clock oid ty ref err db)"
| q_remove: "queue_step (slots, db) (slots, removeOperation oid db)"
| q_requestCancel: "queue_step (slots, db) (slots, updateOperation oid (requestCancel now) db)"
| q_attach: "markStreamAttached now oid db = (b, db') \<Longrightarrow>
    queue_step (slots, db) (if b then slots(oid := slots oid + 1) else slots, db')"
| q_release: "0 < slots oid \<Longrightarrow>
    queue_step (slots, db) (slots(oid := slots oid - 1), updateOperation oid (releaseStreamSlot now) db)"
| q_completeSlot: "0 < slots oid \<Longrightarrow>
    queue_step (slots, db) (slots(oid := slots oid - 1), updateOperation oid (completeStreamSlot now) db)"
| q_trim: "queue_step (slots, db) (slots, snd (trim w st n db))"
| q_trimMany: "queue_step (slots, db) (slots, snd (trimMany st keep db))"
| q_purge: "queue_step (slots, db) (slots, snd (purgeTerminalJobs stopt cutoff db))"
| q_cleanup: "queue_step (slots, db) (slots, snd (cleanupExpiredOperations now db))"

inductive_cases queue_stepE: "queue_step s s'"

definition empty_queue :: "(operation_id \<Rightarrow> int) \<times> worker_db" where
  "empty_queue = (\<lambda>_. 0, \<lparr>jobs = [], operations = []\<rparr>)"

abbreviation queue_reach :: "(operation_id \<Rightarrow> int) \<Rightarrow> worker_db \<Rightarrow> bool" where
  "queue_reach slots db \<equiv> queue_step\<^sup>*\<^sup>* empty_queue (slots, db)"

lemma full_inv_empty: "full_inv (fst empty_queue) (snd empty_queue)"
  by (simp add: empty_queue_def full_inv_def queue_inv_def tables_ok_def ids_distinct_def active_unique_def
      balanced_def deps_exist_def)

lemma create_inv:
  assumes inv: "full_inv slots db" and new: "unused_operation oid db"
  shows "full_inv (slots(oid := 0)) (createOperation clock oid ty ref err db)"
proof -
  let ?db = "createOperation clock oid ty ref err db"
  obtain op where op: "operations ?db = operations db @ [op]" "op_id op = oid" "\<not> cancelRequested op"
    "\<forall>st. counter st op = 0" "totalItems op = 0" "pendingItems op = 0" "runningItems op = 0" "jobs ?db = jobs db"
    by (simp add: createOperation_def counter_def split: job_status.split)
  have none: "jobs_of (jobs db) oid st = 0" "all_jobs_of (jobs db) oid = 0" for st
    using new by (auto simp: unused_operation_def jobs_of_def all_jobs_of_def)
  have other: "\<And>x. x \<in> set (operations db) \<Longrightarrow> op_id x \<noteq> oid" using new by (auto simp: unused_operation_def)
  have "quiet op" using op(3,6,7) by (simp add: quiet_def)
  moreover have "balanced (slots(oid := 0)) (\<lambda>_. 0) ?db"
    using inv other op none by (auto simp: balanced_def full_inv_def queue_inv_def offset_def)
  moreover have "distinct (map op_id (operations ?db))"
    using inv new op(1,2) by (auto simp: unused_operation_def full_inv_def queue_inv_def tables_ok_def ids_distinct_def)
  ultimately show ?thesis
    using inv op by (auto simp: full_inv_def queue_inv_def tables_ok_def ids_distinct_def)
qed

lemma op_in_inv:
  assumes "full_inv slots db" and "op \<in> set (operations db)"
  shows "quiet op" and "itemized (slots (op_id op)) op" and "slots (op_id op) \<le> runningItems op" and "0 \<le> slots (op_id op)"
proof -
  from assms have b: "balanced slots (\<lambda>_. 0) db" by (simp add: full_inv_def queue_inv_def)
  show "quiet op" using assms by (simp add: full_inv_def queue_inv_def)
  show "itemized (slots (op_id op)) op" by (rule balanced_itemized[OF b assms(2)])
  have c: "counter Running op = int (jobs_of (jobs db) (op_id op) Running) + slots (op_id op)" "0 \<le> slots (op_id op)"
    using b assms(2) by (auto simp: balanced_def offset_def)
  then show "slots (op_id op) \<le> runningItems op" "0 \<le> slots (op_id op)" by (simp_all add: counter_def)
qed

lemma attach_inv:
  assumes inv: "full_inv slots db" and res: "markStreamAttached now oid db = (b, db')"
  shows "full_inv (if b then slots(oid := slots oid + 1) else slots) db'"
proof (rule operation_change_inv[OF inv, where P = "attachable oid" and g = "attach_slot now" and oid = oid])
  show "operations db' = update_where (attachable oid) (attach_slot now) (operations db)" "jobs db' = jobs db"
    using res by (auto simp: markStreamAttached_def)
  have b: "b \<longleftrightarrow> (\<exists>op \<in> set (operations db). attachable oid op)"
    using res by (auto simp: markStreamAttached_def returning_def filter_empty_conv)
  have dist: "distinct (map op_id (operations db))" using tables_okD(2)[OF full_inv_tables[OF inv]] .
  fix op assume op: "op \<in> set (operations db)"
  show "(if b then slots(oid := slots oid + 1) else slots) oid = slots oid" if "op_id op = oid" "\<not> attachable oid op"
    using that op b dist by (auto simp: attachable_def distinct_map inj_on_def)
  show "0 \<le> (if b then slots(oid := slots oid + 1) else slots) oid \<and> op_id (attach_slot now op) = op_id op \<and>
      totalItems (attach_slot now op) = totalItems op \<and>
      (\<forall>st. counter st (attach_slot now op) = counter st op + (if st = Running then
         (if b then slots(oid := slots oid + 1) else slots) oid - slots oid else 0)) \<and> quiet (attach_slot now op)"
    if "attachable oid op"
    using that op b op_in_inv(4)[OF inv op]
    by (auto simp: attachable_def attach_slot_def quiet_def counter_def split: job_status.split)
qed (auto simp: attachable_def)

lemma slot_release_inv:
  assumes inv: "full_inv slots db" and slot: "0 < slots oid"
    and g: "\<And>op. op_id (g op) = op_id op \<and> totalItems (g op) = totalItems op \<and> pendingItems (g op) = pendingItems op
      \<and> runningItems (g op) = max (runningItems op - 1) 0 \<and> completedItems (g op) = completedItems op
      \<and> failedItems (g op) = failedItems op \<and> cancelledItems (g op) = cancelledItems op"
    and q: "\<And>op. quiet op \<Longrightarrow> itemized (slots oid) op \<Longrightarrow> slots oid \<le> runningItems op \<Longrightarrow> quiet (g op)"
  shows "full_inv (slots(oid := slots oid - 1)) (updateOperation oid g db)"
proof (rule operation_change_inv[OF inv, where P = "\<lambda>op. op_id op = oid" and g = g and oid = oid])
  fix op assume op: "op \<in> set (operations db)" and o: "op_id op = oid"
  have "slots oid \<le> runningItems op" "quiet (g op)"
    using op_in_inv[OF inv op] q[of op] by (simp_all add: o)
  with slot g[of op] show "0 \<le> (slots(oid := slots oid - 1)) oid \<and> op_id (g op) = op_id op \<and> totalItems (g op) = totalItems op
      \<and> (\<forall>st. counter st (g op) = counter st op + (if st = Running then (slots(oid := slots oid - 1)) oid - slots oid else 0))
      \<and> quiet (g op)"
    by (auto simp: counter_def split: job_status.split)
qed (auto simp: updateOperation_def)

lemma requestCancel_inv: "full_inv slots db \<Longrightarrow> full_inv slots (updateOperation oid (requestCancel now) db)"
  by (rule operation_change_inv[where P = "\<lambda>op. op_id op = oid" and g = "requestCancel now" and oid = oid])
    (auto simp: updateOperation_def requestCancel_def counter_def quiet_def dest: op_in_inv(4) split: job_status.split)

lemma some_result: "\<exists>a b. f = Some (a, b) \<and> Q b \<Longrightarrow> f = Some (x, y) \<Longrightarrow> Q y"
  by auto

lemma queue_step_inv:
  "queue_step s s' \<Longrightarrow> full_inv (fst s) (snd s) \<Longrightarrow> full_inv (fst s') (snd s')"
proof (induction rule: queue_step.induct)
  case (q_enqueue clock inputs db res db' slots)
  then show ?case by (simp add: enqueueMany_inv)
next
  case (q_cancelPending now i db b db' slots)
  then show ?case using some_result[OF cancelPending_moves] moves_full_inv full_inv_tables by fastforce
next
  case (q_cancelRunning now i token db b db' slots)
  then show ?case using some_result[OF cancelRunning_moves] moves_full_inv full_inv_tables by fastforce
next
  case (q_cancelPendingByOperation now oid db n db' slots)
  then show ?case using some_result[OF cancelPendingByOperation_moves] moves_full_inv full_inv_tables by fastforce
next
  case (q_cancelAllPending now w db n db' slots)
  then show ?case using some_result[OF cancelAllPending_moves] moves_full_inv full_inv_tables by fastforce
next
  case (q_cancelAllRunning slots db now w)
  then show ?case using moves_full_inv[OF cancelAllRunning_moves] by simp
next
  case (q_claim token clock input n db claimed db' slots)
  then show ?case using some_result[OF claimNextBatch_moves] moves_full_inv full_inv_tables by fastforce
next
  case (q_progress slots db now i percent tok oid)
  then show ?case using moves_full_inv[OF updateProgress_moves] by simp
next
  case (q_complete now i runner res tok db b db' slots)
  then show ?case using some_result[OF complete_moves] moves_full_inv full_inv_tables by fastforce
next
  case (q_retry now i runner t err tok db b db' slots)
  then show ?case using some_result[OF retry_moves] moves_full_inv full_inv_tables by fastforce
next
  case (q_fail now i runner err tok db b db' slots)
  then show ?case using some_result[OF fail_moves] moves_full_inv full_inv_tables by fastforce
next
  case (q_recover rows db now n db' slots)
  then obtain m d where "recoverOrphanedRunning now rows db = Some (m, d)" "moves db d"
    using recoverOrphanedRunning_moves[OF full_inv_tables, of slots db rows now] by auto
  with q_recover show ?case using moves_full_inv by auto
next
  case (q_create oid db slots clock ty ref err)
  then show ?case unfolding fst_conv snd_conv by (intro create_inv)
next
  case (q_remove slots db oid)
  then show ?case by (simp add: removeOperation_def delete_operations_inv)
next
  case (q_requestCancel slots db oid now)
  then show ?case by (simp add: requestCancel_inv)
next
  case (q_attach now oid db b db' slots)
  then show ?case using attach_inv[of slots db now oid b db'] by simp
next
  case (q_release slots oid db now)
  then show ?case unfolding fst_conv snd_conv
    by (intro slot_release_inv) (auto simp: releaseStreamSlot_def quiet_def)
next
  case (q_completeSlot slots oid db now)
  then show ?case unfolding fst_conv snd_conv
    by (intro slot_release_inv) (auto simp: completeStreamSlot_def Let_def quiet_def itemized_def)
next
  case (q_trim slots db w st n)
  then show ?case by (simp add: trim_inv)
next
  case (q_trimMany slots db st keep)
  then show ?case by (simp add: trimMany_inv)
next
  case (q_purge slots db stopt cutoff)
  then show ?case by (simp add: purge_inv)
next
  case (q_cleanup slots db now)
  then show ?case by (simp add: cleanup_inv)
qed

lemma queue_reach_inv: "queue_reach slots db \<Longrightarrow> full_inv slots db"
proof -
  have "queue_step\<^sup>*\<^sup>* empty_queue s \<Longrightarrow> full_inv (fst s) (snd s)" for s
    by (induction rule: rtranclp_induct) (auto intro: full_inv_empty queue_step_inv)
  then show "queue_reach slots db \<Longrightarrow> ?thesis" by force
qed

subsection \<open>A sample queue\<close>

definition sample_input :: "job_id \<Rightarrow> job_id option \<Rightarrow> string option \<Rightarrow> enqueue_input" where
  "sample_input i dep key =
     \<lparr>in_id = i, in_workerId = ''scan'', in_operationId = Some 1, in_dependsOnJobId = dep, in_dependsOnTaskIds = None,
      in_data = ''null'', in_dedupeKey = key, in_referenceType = None, in_referenceId = None, in_priority = 0,
      in_maxAttempts = 3, in_backoffType = Exponential, in_backoffDelayMs = 1000, in_runAt = 0\<rparr>"

definition sample_claim :: claim_input where
  "sample_claim = \<lparr>cl_workerId = ''scan'', cl_runnerId = ''r1'', cl_concurrency = 1, cl_timeoutMs = 60000,
     cl_now = 5000, cl_excludeActiveIds = None\<rparr>"

definition after_intake :: "failure + 'a \<times> worker_db \<Rightarrow> worker_db" where
  "after_intake r = (case r of Inr (_, db) \<Rightarrow> db | Inl _ \<Rightarrow> \<lparr>jobs = [], operations = []\<rparr>)"

text \<open>An operation with two jobs, the second one waiting for the first, and a claim pass.\<close>

definition sample_one :: worker_db where
  "sample_one = after_intake (enqueueMany 1000 [sample_input 10 None (Some ''k'')] True
     (createOperation 0 1 ''scan'' None None (snd empty_queue)))"

definition sample_two :: worker_db where
  "sample_two = after_intake (enqueueMany 2000 [sample_input 11 (Some 10) None] True sample_one)"

definition sample_claimed :: "(job list \<times> worker_db) option" where
  "sample_claimed = claimNextBatch (\<lambda>i. 100 + i) 5000 sample_claim 5 sample_two"

definition sample_running :: worker_db where
  "sample_running = (case sample_claimed of Some (_, db) \<Rightarrow> db | None \<Rightarrow> \<lparr>jobs = [], operations = []\<rparr>)"

lemma sample_eval:
  "map (\<lambda>r. (job_id r, status r)) (jobs sample_running) = [(10, Running), (11, Pending)]"
  by code_simp

lemma intake_step:
  "\<not> isl (enqueueMany clock inputs True db) \<Longrightarrow>
     queue_step (slots, db) (slots, after_intake (enqueueMany clock inputs True db))"
  by (cases "enqueueMany clock inputs True db") (auto simp: after_intake_def intro: q_enqueue)

lemma reach_intake:
  "queue_reach slots db \<Longrightarrow> \<not> isl (enqueueMany clock inputs True db) \<Longrightarrow>
     queue_reach slots (after_intake (enqueueMany clock inputs True db))"
  by (erule rtranclp.rtrancl_into_rtrancl) (rule intake_step)

lemma sample_created: "queue_reach (\<lambda>_. 0) (createOperation 0 1 ''scan'' None None (snd empty_queue))"
proof -
  have "queue_step ((\<lambda>_. 0), snd empty_queue) ((\<lambda>_. 0)(1 := 0), createOperation 0 1 ''scan'' None None (snd empty_queue))"
    by (rule q_create) (simp add: unused_operation_def empty_queue_def)
  moreover have "(\<lambda>_. 0 :: int)(x := 0) = (\<lambda>_. 0)" for x :: operation_id by (simp add: fun_eq_iff)
  moreover have "empty_queue = ((\<lambda>_. 0), snd empty_queue)" by (simp add: empty_queue_def)
  ultimately have "queue_step empty_queue ((\<lambda>_. 0), createOperation 0 1 ''scan'' None None (snd empty_queue))" by simp
  then show ?thesis by (rule r_into_rtranclp)
qed

lemma sample_reach: "queue_reach (\<lambda>_. 0) sample_two" "queue_reach (\<lambda>_. 0) sample_running"
proof -
  have "\<not> isl (enqueueMany 1000 [sample_input 10 None (Some ''k'')] True
     (createOperation 0 1 ''scan'' None None (snd empty_queue)))" by code_simp
  with sample_created have one: "queue_reach (\<lambda>_. 0) sample_one"
    unfolding sample_one_def by (rule reach_intake)
  have "\<not> isl (enqueueMany 2000 [sample_input 11 (Some 10) None] True sample_one)" by code_simp
  with one show two: "queue_reach (\<lambda>_. 0) sample_two"
    unfolding sample_two_def by (rule reach_intake)
  have "sample_claimed \<noteq> None" by code_simp
  then have "\<exists>cs. claimNextBatch (\<lambda>i. 100 + i) 5000 sample_claim 5 sample_two = Some (cs, sample_running)"
    by (auto simp: sample_claimed_def sample_running_def split: option.splits)
  then have "queue_step ((\<lambda>_. 0), sample_two) ((\<lambda>_. 0), sample_running)" by (auto intro: q_claim)
  with two show "queue_reach (\<lambda>_. 0) sample_running" by (rule rtranclp.rtrancl_into_rtrancl)
qed

subsection \<open>Counters and operations\<close>




definition sample_done :: worker_db where
  "sample_done = (case complete 6000 10 ''r1'' ''ok'' (Some 110) sample_running of Some (_, db) \<Rightarrow> db | None \<Rightarrow> sample_running)"

lemma sample_done_reach: "queue_reach (\<lambda>_. 0) sample_done"
proof -
  have "complete 6000 10 ''r1'' ''ok'' (Some 110) sample_running \<noteq> None" by code_simp
  then obtain b db where r: "complete 6000 10 ''r1'' ''ok'' (Some 110) sample_running = Some (b, db)" by auto
  then have "sample_done = db" by (simp add: sample_done_def)
  with r have "queue_step ((\<lambda>_. 0), sample_running) ((\<lambda>_. 0), sample_done)" by (auto intro: q_complete)
  with sample_reach(2) show ?thesis by (rule rtranclp.rtrancl_into_rtrancl)
qed


subsection \<open>Jobs\<close>

text \<open>
  In every reachable queue at most one pending or running job of a worker carries a given
  dedupe key, and job ids are distinct.
\<close>

theorem one_active_job_per_dedupe_key:
  assumes "queue_reach slots db" and "r \<in> set (jobs db)" and "s \<in> set (jobs db)"
    and "active (status r)" and "active (status s)" and "workerId r = workerId s"
    and "dedupeKey r = Some key" and "dedupeKey s = Some key"
  shows "r = s"
proof -
  have ok: "tables_ok db" by (rule full_inv_tables[OF queue_reach_inv[OF assms(1)]])
  have "dedupe_clash r s" using assms(4-8) by (simp add: dedupe_clash_def)
  then have "job_id r = job_id s"
    using tables_okD(4)[OF ok] assms(2,3) unfolding active_unique_def by blast
  with same_row[OF tables_okD(1)[OF ok] assms(2,3)] show ?thesis by simp
qed

theorem one_active_job_per_dedupe_key_witness:
  "\<exists>r \<in> set (jobs sample_running). \<exists>s \<in> set (jobs sample_running).
     dedupeKey r = Some ''k'' \<and> dedupeKey s = Some ''k'' \<and> r = s"
proof -
  have "map (\<lambda>r. (status r, dedupeKey r)) (jobs sample_running) = [(Running, Some ''k''), (Pending, None)]" by code_simp
  then obtain r rest where "jobs sample_running = r # rest" "status r = Running" "dedupeKey r = Some ''k''"
    by (auto simp: map_eq_Cons_conv)
  then have r: "r \<in> set (jobs sample_running)" "status r = Running" "dedupeKey r = Some ''k''" by simp_all
  then have "r = r"
    by (intro one_active_job_per_dedupe_key[OF sample_reach(2)]) (simp_all add: active_def)
  with r show ?thesis by blast
qed

end
