(* ===== verification/Queue_Safety.thy ===== *)
theory Queue_Safety
  imports Queue_Laws
begin

section \<open>Safety of the job queue\<close>

text \<open>
  Terminal jobs are final, claims respect the concurrency, the priorities, the cancellations
  and the dependencies, a failure cancels exactly the jobs that wait for it, a stale claim
  changes nothing, and retention touches no live operation.
\<close>

subsection \<open>Terminal jobs are final\<close>

definition row_follows :: "worker_db \<Rightarrow> job \<Rightarrow> bool" where
  "row_follows db r' \<longleftrightarrow>
     (\<exists>r \<in> set (jobs db). job_id r = job_id r'
        \<and> (\<not> active (status r) \<longrightarrow> status r' = status r \<and> job_result r' = job_result r))
     \<or> job_id r' \<notin> set (map job_id (jobs db))"

lemma moves_follow: "moves db db' \<Longrightarrow> r' \<in> set (jobs db') \<Longrightarrow> row_follows db r'"
  using moves_row[of db db' r'] by (auto simp: row_follows_def)

lemma same_rows_follow: "r' \<in> set (jobs db) \<Longrightarrow> row_follows db r'"
  by (auto simp: row_follows_def)

lemma delete_jobs_follow: "r' \<in> set (jobs (snd (delete_jobs P db))) \<Longrightarrow> row_follows db r'"
  by (auto simp: delete_jobs_def Let_def row_follows_def split: if_splits)

lemma delete_operations_rows:
  "r' \<in> set (jobs (delete_operations P db)) \<Longrightarrow>
     \<exists>r \<in> set (jobs db). job_id r = job_id r' \<and> status r = status r' \<and> job_result r = job_result r'"
  by (auto simp: delete_operations_def Let_def split: if_splits)

lemma delete_jobs_rows:
  "r' \<in> set (jobs (snd (delete_jobs P db))) \<Longrightarrow>
     \<exists>r \<in> set (jobs db). job_id r = job_id r' \<and> status r = status r' \<and> job_result r = job_result r'"
  by (auto simp: delete_jobs_def Let_def split: if_splits)

lemma delete_with_jobs_rows:
  "r' \<in> set (jobs (snd (delete_with_jobs ids db))) \<Longrightarrow>
     \<exists>r \<in> set (jobs db). job_id r = job_id r' \<and> status r = status r' \<and> job_result r = job_result r'"
proof -
  let ?d = "snd (delete_jobs (\<lambda>r. \<exists>oid \<in> set ids. operationId r = Some oid) db)"
  assume "r' \<in> set (jobs (snd (delete_with_jobs ids db)))"
  then have "r' \<in> set (jobs (delete_operations (\<lambda>op. op_id op \<in> set ids) ?d))"
    by (simp add: delete_with_jobs_def split: prod.splits)
  from delete_operations_rows[OF this] obtain s where s: "s \<in> set (jobs ?d)"
    "job_id s = job_id r' \<and> status s = status r' \<and> job_result s = job_result r'" by blast
  from delete_jobs_rows[OF s(1)] obtain r where "r \<in> set (jobs db)"
    "job_id r = job_id s \<and> status r = status s \<and> job_result r = job_result s" by blast
  with s(2) show ?thesis by (intro bexI[of _ r]) simp_all
qed

lemma delete_chunks_rows:
  "r' \<in> set (jobs (forEachChunked ids (\<lambda>c db. snd (delete_with_jobs c db)) db)) \<Longrightarrow>
     \<exists>r \<in> set (jobs db). job_id r = job_id r' \<and> status r = status r' \<and> job_result r = job_result r'"
proof -
  have "r' \<in> set (jobs (fold (\<lambda>c db. snd (delete_with_jobs c db)) cs db)) \<Longrightarrow>
     \<exists>r \<in> set (jobs db). job_id r = job_id r' \<and> status r = status r' \<and> job_result r = job_result r'" for cs
  proof (induction cs arbitrary: db)
    case (Cons c cs)
    then obtain s where s: "s \<in> set (jobs (snd (delete_with_jobs c db)))"
      "job_id s = job_id r' \<and> status s = status r' \<and> job_result s = job_result r'" by auto
    from delete_with_jobs_rows[OF s(1)] obtain r where "r \<in> set (jobs db)"
      "job_id r = job_id s \<and> status r = status s \<and> job_result r = job_result s" by blast
    with s(2) show ?case by (intro bexI[of _ r]) simp_all
  qed auto
  then show "r' \<in> set (jobs (forEachChunked ids (\<lambda>c db. snd (delete_with_jobs c db)) db)) \<Longrightarrow> ?thesis"
    by (auto simp: forEachChunked_def split: if_splits)
qed

lemma rows_follow:
  "\<exists>r \<in> set (jobs db). job_id r = job_id r' \<and> status r = status r' \<and> job_result r = job_result r' \<Longrightarrow> row_follows db r'"
  by (auto simp: row_follows_def)

lemma cleanup_follow: "r' \<in> set (jobs (snd (cleanupExpiredOperations now db))) \<Longrightarrow> row_follows db r'"
proof -
  let ?d = "snd (finalizeTerminalOperations now 7 db)"
  assume "r' \<in> set (jobs (snd (cleanupExpiredOperations now db)))"
  then have "\<exists>r \<in> set (jobs ?d). job_id r = job_id r' \<and> status r = status r' \<and> job_result r = job_result r'"
    using delete_chunks_rows[of r' "expired_operations now ?d" ?d]
    by (auto simp: cleanupExpiredOperations_def Let_def split: if_splits)
  then show ?thesis
    using moves_follow[OF finalize_moves[of db now 7]] by (fastforce simp: row_follows_def)
qed

lemma queue_step_follow:
  "queue_step s s' \<Longrightarrow> full_inv (fst s) (snd s) \<Longrightarrow> r' \<in> set (jobs (snd s')) \<Longrightarrow> row_follows (snd s) r'"
proof (induction rule: queue_step.induct)
  case (q_enqueue clock inputs db res db' slots)
  then obtain ins where e: "jobs db' = jobs db @ ins" "rows_inv {} (jobs db @ ins)"
    using enqueueMany_effect[of slots db clock inputs True res db'] by auto
  with q_enqueue(3) show ?case by (auto simp: row_follows_def rows_inv_def)
next
  case (q_cancelPending now i db b db' slots)
  then show ?case using some_result[OF cancelPending_moves] moves_follow full_inv_tables by fastforce
next
  case (q_cancelRunning now i token db b db' slots)
  then show ?case using some_result[OF cancelRunning_moves] moves_follow full_inv_tables by fastforce
next
  case (q_cancelPendingByOperation now oid db n db' slots)
  then show ?case using some_result[OF cancelPendingByOperation_moves] moves_follow full_inv_tables by fastforce
next
  case (q_cancelAllPending now w db n db' slots)
  then show ?case using some_result[OF cancelAllPending_moves] moves_follow full_inv_tables by fastforce
next
  case (q_cancelAllRunning slots db now w)
  then show ?case using moves_follow[OF cancelAllRunning_moves] by simp
next
  case (q_claim token clock input n db claimed db' slots)
  then show ?case using some_result[OF claimNextBatch_moves] moves_follow full_inv_tables by fastforce
next
  case (q_progress slots db now i percent tok oid)
  then show ?case using moves_follow[OF updateProgress_moves] by simp
next
  case (q_complete now i runner res tok db b db' slots)
  then show ?case using some_result[OF complete_moves] moves_follow full_inv_tables by fastforce
next
  case (q_retry now i runner t err tok db b db' slots)
  then show ?case using some_result[OF retry_moves] moves_follow full_inv_tables by fastforce
next
  case (q_fail now i runner err tok db b db' slots)
  then show ?case using some_result[OF fail_moves] moves_follow full_inv_tables by fastforce
next
  case (q_recover rows db now n db' slots)
  then obtain m d where "recoverOrphanedRunning now rows db = Some (m, d)" "moves db d"
    using recoverOrphanedRunning_moves[OF full_inv_tables, of slots db rows now] by auto
  with q_recover show ?case using moves_follow by auto
next
  case (q_remove slots db oid)
  then show ?case using delete_operations_rows by (auto simp: removeOperation_def intro!: rows_follow)
next
  case (q_cleanup slots db now)
  then show ?case using cleanup_follow by simp
qed (auto simp: createOperation_def updateOperation_def markStreamAttached_def trim_def trimMany_def purgeTerminalJobs_def
    Let_def intro: same_rows_follow delete_jobs_follow split: if_splits)

text \<open>
  C6. A job that has ended keeps its status and its result: whatever step the queue takes, its
  row is unchanged in both, or deleted.
\<close>

theorem terminal_jobs_are_final:
  assumes "queue_reach slots db" and "queue_step (slots, db) (slots', db')"
    and "r \<in> set (jobs db)" and "terminal (status r)"
    and "r' \<in> set (jobs db')" and "job_id r' = job_id r"
  shows "status r' = status r \<and> job_result r' = job_result r"
proof -
  have inv: "full_inv slots db" by (rule queue_reach_inv[OF assms(1)])
  have "row_follows db r'" using queue_step_follow[OF assms(2)] inv assms(5) by simp
  moreover have "job_id r' \<in> set (map job_id (jobs db))" using assms(3,6) by simp
  ultimately obtain s where s: "s \<in> set (jobs db)" "job_id s = job_id r'"
    "\<not> active (status s) \<longrightarrow> status r' = status s \<and> job_result r' = job_result s"
    by (auto simp: row_follows_def)
  with same_row[OF tables_okD(1)[OF full_inv_tables[OF inv]] s(1) assms(3)] assms(4,6)
  show ?thesis by (simp add: terminal_iff_not_active)
qed

theorem terminal_jobs_are_final_witness:
  "\<exists>r \<in> set (jobs sample_done). \<exists>r' \<in> set (jobs (snd (cancelAllRunning 8000 None sample_done))).
     job_id r = 10 \<and> status r = Completed \<and> job_id r' = 10 \<and> status r' = Completed \<and> job_result r' = Some ''ok''"
proof -
  let ?db = "snd (cancelAllRunning 8000 None sample_done)"
  have "map (\<lambda>r. (job_id r, status r, job_result r)) (jobs sample_done) = [(10, Completed, Some ''ok''), (11, Pending, None)]"
    by code_simp
  then obtain r rs where "jobs sample_done = r # rs" "job_id r = 10" "status r = Completed" "job_result r = Some ''ok''"
    by (auto simp: map_eq_Cons_conv)
  then have r: "r \<in> set (jobs sample_done)" "job_id r = 10" "status r = Completed" "job_result r = Some ''ok''" by simp_all
  have "map job_id (jobs ?db) = [10, 11]" by code_simp
  then obtain r' rs' where "jobs ?db = r' # rs'" "job_id r' = 10" by (auto simp: map_eq_Cons_conv)
  then have r': "r' \<in> set (jobs ?db)" "job_id r' = 10" by simp_all
  have step: "queue_step ((\<lambda>_. 0), sample_done) ((\<lambda>_. 0), ?db)" by (rule q_cancelAllRunning)
  have "status r' = status r \<and> job_result r' = job_result r"
    by (rule terminal_jobs_are_final[OF sample_done_reach step r(1) _ r'(1)]) (simp_all add: r r' terminal_def)
  with r r' show ?thesis by auto
qed

subsection \<open>Claims\<close>

lemma subseq_of_map: "subseq xs (map f ys) \<Longrightarrow> \<exists>zs. subseq zs ys \<and> xs = map f zs"
proof (induction ys arbitrary: xs)
  case Nil
  then show ?case by (intro exI[of _ "[]"]) simp
next
  case (Cons y ys)
  show ?case
  proof (cases xs)
    case (Cons x xs')
    show ?thesis
    proof (cases "x = f y")
      case True
      with Cons Cons.prems have "subseq xs' (map f ys)" by simp
      then obtain zs where "subseq zs ys" "xs' = map f zs" using Cons.IH by blast
      with True Cons show ?thesis by (intro exI[of _ "y # zs"]) simp
    next
      case False
      with Cons Cons.prems have "subseq xs (map f ys)" by simp
      then obtain zs where "subseq zs ys" "xs = map f zs" using Cons.IH by blast
      then show ?thesis by (intro exI[of _ zs]) auto
    qed
  qed (simp add: exI[of _ "[]"])
qed

lemma sorted_subseq: "subseq xs ys \<Longrightarrow> sorted (map key ys) \<Longrightarrow> sorted (map key xs)"
  by (induction rule: list_emb.induct) (auto dest: list_emb_set)

lemma distinct_subseq: "subseq xs ys \<Longrightarrow> distinct ys \<Longrightarrow> distinct xs"
  by (induction rule: list_emb.induct) (auto dest: list_emb_set)

lemma moves_operation:
  assumes "moves db db'" and "op \<in> set (operations db)"
  shows "\<exists>op' \<in> set (operations db'). op_id op' = op_id op \<and> cancelRequested op' = cancelRequested op
     \<and> (op_status op = Cancelled \<longrightarrow> op_status op' = Cancelled)"
  using assms(1)
proof (induction rule: rtranclp_induct)
  case base
  with assms(2) show ?case by blast
next
  case (step d d')
  then obtain o1 where o1: "o1 \<in> set (operations d)" "op_id o1 = op_id op" "cancelRequested o1 = cancelRequested op"
    "op_status op = Cancelled \<longrightarrow> op_status o1 = Cancelled" by blast
  from step.hyps(2) show ?case
  proof cases
    case (moveI mark src dst P f)
    let ?o = "mark (int (moved P (jobs d) (op_id o1))) o1"
    have "?o \<in> set (operations d')" using o1(1) by (auto simp: moveI(1) transition_def)
    with o1 show ?thesis
      by (intro bexI[of _ ?o]) (auto simp: job_mark.mark_id[OF moveI(2)] job_mark.mark_request[OF moveI(2)]
          job_mark.mark_cancelled[OF moveI(2)])
  next
    case (noteI f g P Q)
    let ?o = "if Q o1 then g o1 else o1"
    have "?o \<in> set (operations d')" using o1(1) by (auto simp: noteI(1) in_update_where)
    with o1 noteI(5) show ?thesis by (intro bexI[of _ ?o]) (auto simp: op_keeps_def)
  qed
qed

definition claim_key :: "job \<Rightarrow> int \<times> int \<times> int" where
  "claim_key r = (priority r, runAt r, createdAt r)"

text \<open>
  C7. One claim pass takes at most the asked number of jobs and never runs more jobs of the
  worker than its concurrency allows (unless more were running already). The claimed jobs are
  due jobs of the worker, in the order of priority, due time and age, each with the token drawn
  for it; none belongs to an operation that was cancelled, and what a claimed job depends on
  has completed or is gone.
\<close>

theorem claim_pass_is_safe:
  assumes "queue_reach slots db" and "claimNextBatch token clock input n db = Some (claimed, db')"
  shows "distinct (map job_id claimed) \<and> int (length claimed) \<le> max 0 n
     \<and> int (running_of (cl_workerId input) (jobs db'))
         \<le> max (int (running_of (cl_workerId input) (jobs db))) (cl_concurrency input)
     \<and> sorted (map claim_key claimed)
     \<and> (\<forall>x \<in> set claimed. x \<in> set (jobs db') \<and> status x = Running \<and> workerId x = cl_workerId input
          \<and> runAt x \<le> secs (cl_now input) \<and> claimToken x = Some (token (job_id x))
          \<and> (\<forall>op \<in> set (operations db). cancelRequested op \<or> op_status op = Cancelled \<longrightarrow> operationId x \<noteq> Some (op_id op))
          \<and> (\<forall>p \<in> set (jobs db'). dependsOnJobId x = Some (job_id p) \<longrightarrow> status p = Completed))"
proof (cases "n \<le> 0 \<or> \<not> (\<exists>r \<in> set (jobs db). workerId r = cl_workerId input \<and> status r = Pending
                   \<and> runAt r \<le> secs (cl_now input))")
  case True
  with assms(2) have "claimed = []" "db' = db" by (simp_all add: claimNextBatch_def split: if_splits)
  then show ?thesis by simp
next
  case False
  let ?w = "cl_workerId input"
  have ok: "tables_ok db" by (rule full_inv_tables[OF queue_reach_inv[OF assms(1)]])
  have run: "claimRunnableItems token clock input (nat n) db = Some (claimed, db')"
    using assms(2) False unfolding claimNextBatch_def by (simp only: de_Morgan_disj not_not if_False if_True not_True_eq_False)
  then obtain db1 where m1: "moves db db1" and mv1: "moves db1 db'" and calm: "calm db db1"
    and len: "length claimed \<le> nat n"
    and sub: "subseq (map job_id claimed) (map job_id (claim_candidates input (nat n) db1))"
    and conc: "int (running_of ?w (jobs db1) + length claimed) \<le> max (int (running_of ?w (jobs db1))) (cl_concurrency input)"
    and after: "running_of ?w (jobs db') \<le> running_of ?w (jobs db1) + length claimed"
    and rows: "\<forall>x \<in> set claimed. x \<in> set (jobs db') \<and>
          (\<exists>c \<in> set (claim_candidates input (nat n) db1). x = start_row token input c
             \<and> claimBlocker c (loadParentStatuses (claim_candidates input (nat n) db1) db1)
                 (cancelled_operations (claim_candidates input (nat n) db1) db1) = None)"
    using claimRunnableItems_result[OF ok, of token clock input "nat n"] by auto
  let ?cs = "claim_candidates input (nat n) db1"
  have ok1: "tables_ok db1" by (rule moves_tables_ok[OF m1 ok])
  note cands = claim_candidates_rows[OF ok1, of input "nat n"]
  have running: "int (running_of ?w (jobs db')) \<le> max (int (running_of ?w (jobs db))) (cl_concurrency input)"
    using conc after calm unfolding calm_def by (smt (verit) of_nat_mono)
  obtain zs where zs: "subseq zs ?cs" "map job_id claimed = map job_id zs"
    using subseq_of_map[OF sub] by blast
  have "claimed = map (start_row token input) zs"
  proof (rule nth_equalityI)
    show len_eq: "length claimed = length (map (start_row token input) zs)"
      using arg_cong[OF zs(2), of length] by simp
    fix k assume k: "k < length claimed"
    then have kz: "k < length zs" using len_eq by simp
    have id: "job_id (claimed ! k) = job_id (zs ! k)"
      using arg_cong[OF zs(2), of "\<lambda>l. l ! k"] k kz by simp
    obtain c where c: "c \<in> set ?cs" "claimed ! k = start_row token input c" using rows k nth_mem by blast
    have "zs ! k \<in> set ?cs" using list_emb_set[OF zs(1), of "zs ! k"] kz by auto
    with c id cands have "c = zs ! k"
      by (auto simp: start_row_def claim_row_def distinct_map dest: inj_onD)
    with c kz show "claimed ! k = map (start_row token input) zs ! k" by simp
  qed
  moreover have "sorted (map claim_key ?cs)"
    unfolding claim_candidates_def claim_key_def take_map[symmetric] by (rule sorted_wrt_take) simp
  ultimately have order: "sorted (map claim_key claimed)"
    using sorted_subseq[OF zs(1), of claim_key] by (simp add: claim_key_def[abs_def] start_row_def claim_row_def o_def)
  have dist: "distinct (map job_id claimed)" by (rule distinct_subseq[OF sub cands(2)])
  have each: "x \<in> set (jobs db') \<and> status x = Running \<and> workerId x = ?w \<and> runAt x \<le> secs (cl_now input)
      \<and> claimToken x = Some (token (job_id x))
      \<and> (\<forall>op \<in> set (operations db). cancelRequested op \<or> op_status op = Cancelled \<longrightarrow> operationId x \<noteq> Some (op_id op))
      \<and> (\<forall>p \<in> set (jobs db'). dependsOnJobId x = Some (job_id p) \<longrightarrow> status p = Completed)"
    if x: "x \<in> set claimed" for x
  proof -
    from rows x obtain c where c: "c \<in> set ?cs" "x = start_row token input c"
      "claimBlocker c (loadParentStatuses ?cs db1) (cancelled_operations ?cs db1) = None" "x \<in> set (jobs db')" by blast
    have cdb: "c \<in> set (jobs db1)" "workerId c = ?w" "runAt c \<le> secs (cl_now input)"
      using cands(1) c(1) by auto
    have ops: "operationId c \<noteq> Some (op_id op)"
      if op: "op \<in> set (operations db)" "cancelRequested op \<or> op_status op = Cancelled" for op
    proof
      assume o: "operationId c = Some (op_id op)"
      obtain op1 where op1: "op1 \<in> set (operations db1)" "op_id op1 = op_id op" "cancelRequested op1 \<or> op_status op1 = Cancelled"
        using moves_operation[OF m1 op(1)] op(2) by blast
      have "op_id op \<in> set (unique (List.map_filter operationId ?cs))"
        using c(1) o by (force simp: List.map_filter_def)
      with op1 have "op_id op \<in> set (cancelled_operations ?cs db1)"
        unfolding cancelled_operations_def Let_def by (auto intro!: image_eqI[of _ _ op1])
      with c(3) o show False by (simp add: claimBlocker_def)
    qed
    have parents: "status p = Completed" if p: "p \<in> set (jobs db')" "dependsOnJobId c = Some (job_id p)" for p
    proof -
      obtain q where q: "q \<in> set (jobs db1)" "job_id q = job_id p" "\<not> active (status q) \<longrightarrow> status p = status q"
        using moves_row[OF mv1 p(1)] by blast
      have "map_of (loadParentStatuses ?cs db1) (job_id p) = Some (status q)"
        using loadParentStatuses_row[OF tables_okD(1)[OF ok1] q(1) c(1)] p(2) q(2) by simp
      with c(3) p(2) have "status q = Completed"
        by (cases "status q") (auto simp: claimBlocker_def Let_def split: if_splits)
      with q(3) show ?thesis by (simp add: active_def)
    qed
    show ?thesis
      using c(4) cdb ops parents
      by (auto simp: c(2) start_row_def claim_row_def)
  qed
  from dist len running order each False show ?thesis by auto
qed

theorem claim_pass_is_safe_witness:
  "\<exists>claimed db'. claimNextBatch (\<lambda>i. 100 + i) 5000 sample_claim 5 sample_two = Some (claimed, db')
     \<and> map job_id claimed = [10] \<and> (\<forall>x \<in> set claimed. status x = Running \<and> claimToken x = Some 110)"
proof -
  have "map_option (map job_id \<circ> fst) sample_claimed = Some [10]" by code_simp
  then obtain claimed db' where r: "claimNextBatch (\<lambda>i. 100 + i) 5000 sample_claim 5 sample_two = Some (claimed, db')"
    "map job_id claimed = [10]" by (auto simp: sample_claimed_def)
  moreover have "\<forall>x \<in> set claimed. job_id x = 10" using r(2) by (auto simp: map_eq_Cons_conv)
  ultimately show ?thesis using claim_pass_is_safe[OF sample_reach(1) r(1)] by auto
qed

subsection \<open>Failures and stale claims\<close>

lemma pending_below_mono:
  assumes "pending_below rows parents r" and "{s \<in> set rows. status s = Pending} \<subseteq> set rows'"
  shows "pending_below rows' parents r"
  using assms by (induction rule: pending_below.induct) (blast intro: pending_below.intros)+

lemma pending_below_update:
  assumes "\<And>r. P r \<Longrightarrow> status r \<noteq> Pending" and "\<And>r. status (f r) \<noteq> Pending"
  shows "pending_below (update_where P f rows) = pending_below rows"
proof (intro ext iffI)
  fix parents r
  show "pending_below (update_where P f rows) parents r \<Longrightarrow> pending_below rows parents r"
    by (erule pending_below_mono) (auto simp: update_where_def assms(2) split: if_splits)
  show "pending_below rows parents r \<Longrightarrow> pending_below (update_where P f rows) parents r"
    by (erule pending_below_mono) (use assms(1) in \<open>force simp: update_where_def\<close>)
qed

text \<open>
  C8. The failure of a job always returns. With a stale claim (another runner or another token,
  or a job that no longer runs) it answers false and changes nothing. Otherwise it fails the
  job and cancels exactly the pending jobs that wait for it, directly or through other pending
  jobs, and touches no other job.
\<close>

theorem failure_cancels_exactly_the_dependents:
  assumes "queue_reach slots db"
  shows "\<exists>b db'. fail now i runner err token db = Some (b, db')
     \<and> b = (\<exists>r \<in> set (jobs db). runningJobWhere i (Some runner) token r)
     \<and> (b = False \<and> db' = db \<or> b = True \<and>
        jobs db' = map (\<lambda>r. if runningJobWhere i (Some runner) token r then fail_row now err r
                      else if pending_below (jobs db) {i} r then cancel_row now r else r) (jobs db))"
proof -
  let ?P = "runningJobWhere i (Some runner) token"
  have ok: "tables_ok db" by (rule full_inv_tables[OF queue_reach_inv[OF assms]])
  show ?thesis
  proof (cases "returning ?P (fail_row now err) (jobs db)")
    case Nil
    then have "\<not> (\<exists>r \<in> set (jobs db). ?P r)" by (auto simp: returning_def filter_empty_conv)
    with Nil have "fail now i runner err token db = Some (False, db)"
      "False = (\<exists>r \<in> set (jobs db). ?P r)" by (simp_all add: fail_def terminalizeRunning_def)
    then show ?thesis by blast
  next
    case (Cons x xs)
    let ?d = "transition (markJobFinished Failed now) ?P (fail_row now err) db"
    have d: "mark_operation (markJobFinished Failed now) (operationId x) (update_jobs ?P (fail_row now err) db) = ?d"
      by (rule single_transition[OF mark_failed.job_mark_axioms tables_okD(1)[OF ok] _ keeps_rows(8) Cons])
        (simp add: runningJobWhere_def)
    have "moves db ?d"
      by (rule move_transition[OF mark_failed.job_mark_axioms]) (auto simp: status_rows keeps_rows runningJobWhere_def)
    then have okd: "tables_ok ?d" by (rule moves_tables_ok[OF _ ok])
    have jd: "jobs ?d = update_where ?P (fail_row now err) (jobs db)" by (simp add: transition_def)
    have below: "pending_below (jobs ?d) = pending_below (jobs db)"
      unfolding jd by (rule pending_below_update) (auto simp: runningJobWhere_def status_rows)
    let ?d2 = "transition (markPendingJobsCancelled now) (pending_below (jobs db) {i}) (cancel_row now) ?d"
    have "cascadeCancel now [i] ?d = Some ?d2"
      using cascadeCancel_transition[OF okd, of now "[i]"] by (simp add: below)
    then have eq: "fail now i runner err token db = Some (True, ?d2)"
      using Cons d by (simp add: fail_def terminalizeRunning_def)
    have "\<not> pending_below (jobs db) {i} (fail_row now err r)" for r
      using pending_below_row[of "jobs db" "{i}" "fail_row now err r"] by (auto simp: status_rows)
    then have "jobs ?d2 = map (\<lambda>r. if ?P r then fail_row now err r
                  else if pending_below (jobs db) {i} r then cancel_row now r else r) (jobs db)"
      by (simp add: transition_def update_where_def)
    moreover have "True = (\<exists>r \<in> set (jobs db). ?P r)" using Cons by (auto simp: returning_def filter_eq_Cons_iff)
    ultimately show ?thesis using eq by blast
  qed
qed

theorem failure_cancels_exactly_the_dependents_witness:
  "\<exists>db'. fail 6000 10 ''r1'' ''e'' (Some 110) sample_running = Some (True, db')
     \<and> map status (jobs db') = [Failed, Cancelled] \<and> length (jobs db') = length (jobs sample_running)"
proof -
  have v: "map_option (\<lambda>x. (fst x, map status (jobs (snd x)))) (fail 6000 10 ''r1'' ''e'' (Some 110) sample_running)
     = Some (True, [Failed, Cancelled])" by code_simp
  with failure_cancels_exactly_the_dependents[OF sample_reach(2), of 6000 10 "''r1''" "''e''" "Some 110"]
  show ?thesis by auto
qed

subsection \<open>Retention\<close>

definition kept_row :: "job \<Rightarrow> worker_db \<Rightarrow> bool" where
  "kept_row r db \<longleftrightarrow> (\<exists>r' \<in> set (jobs db). job_id r' = job_id r \<and> operationId r' = operationId r \<and> status r' = status r)"

lemma delete_with_jobs_spares:
  assumes "oid \<notin> set ids"
  shows "op \<in> set (operations db) \<Longrightarrow> op_id op = oid \<Longrightarrow> op \<in> set (operations (snd (delete_with_jobs ids db)))"
    and "kept_row r db \<Longrightarrow> operationId r = Some oid \<Longrightarrow> kept_row r (snd (delete_with_jobs ids db))"
proof -
  show "op \<in> set (operations db) \<Longrightarrow> op_id op = oid \<Longrightarrow> op \<in> set (operations (snd (delete_with_jobs ids db)))"
    using assms by (simp add: delete_with_jobs_def delete_jobs_def delete_operations_def Let_def)
next
  assume k: "kept_row r db" "operationId r = Some oid"
  let ?d = "snd (delete_jobs (\<lambda>r. \<exists>oid \<in> set ids. operationId r = Some oid) db)"
  from k obtain s where s: "s \<in> set (jobs db)" "job_id s = job_id r" "operationId s = Some oid" "status s = status r"
    by (auto simp: kept_row_def)
  let ?gone = "\<exists>g \<in> set (filter (\<lambda>r. \<exists>oid \<in> set ids. operationId r = Some oid) (jobs db)). dependsOnJobId s = Some (job_id g)"
  have "(if ?gone then s\<lparr>dependsOnJobId := None\<rparr> else s) \<in> set (jobs ?d)"
    using s(1,3) assms by (auto simp: delete_jobs_def Let_def intro!: image_eqI[of _ _ s])
  moreover have "job_id (if ?gone then s\<lparr>dependsOnJobId := None\<rparr> else s) = job_id r
      \<and> operationId (if ?gone then s\<lparr>dependsOnJobId := None\<rparr> else s) = Some oid
      \<and> status (if ?gone then s\<lparr>dependsOnJobId := None\<rparr> else s) = status r" using s by simp
  ultimately obtain t where t: "t \<in> set (jobs ?d)" "job_id t = job_id r" "operationId t = Some oid" "status t = status r" by blast
  with assms have "t \<in> set (jobs (delete_operations (\<lambda>op. op_id op \<in> set ids) ?d))"
    by (auto simp: delete_operations_def Let_def intro!: image_eqI[of _ _ t])
  with t k(2) show "kept_row r (snd (delete_with_jobs ids db))"
    by (auto simp: kept_row_def delete_with_jobs_def split: prod.splits)
qed

lemma delete_fold_spares:
  "\<forall>c \<in> set cs. oid \<notin> set c \<Longrightarrow> op \<in> set (operations db) \<Longrightarrow> op_id op = oid \<Longrightarrow>
     op \<in> set (operations (fold (\<lambda>c db. snd (delete_with_jobs c db)) cs db))
     \<and> (\<forall>r. kept_row r db \<longrightarrow> operationId r = Some oid \<longrightarrow> kept_row r (fold (\<lambda>c db. snd (delete_with_jobs c db)) cs db))"
proof (induction cs arbitrary: db)
  case (Cons c cs)
  then have "oid \<notin> set c" by simp
  note spares = delete_with_jobs_spares[OF this]
  show ?case using Cons.IH[OF _ spares(1)[OF Cons.prems(2,3)] Cons.prems(3)] Cons.prems(1) spares(2) by simp
qed simp

lemma finalize_spares:
  assumes "distinct (map op_id (operations db))" and "op \<in> set (operations db)" and "\<not> terminal (op_status op)"
  shows "op \<in> set (operations (snd (finalizeTerminalOperations now days db)))"
    and "jobs (snd (finalizeTerminalOperations now days db)) = jobs db"
proof -
  let ?step = "\<lambda>c db. db\<lparr>operations := update_where (\<lambda>op. op_id op \<in> set c)
      (\<lambda>op. op\<lparr>retentionUntil := Some (secs (now + days * 86400000)), op_updatedAt := secs now\<rparr>) (operations db)\<rparr>"
  let ?ids = "map op_id (filter (\<lambda>op. terminal (op_status op) \<and> retentionUntil op = None) (operations db))"
  have fold: "\<forall>c \<in> set cs. op_id op \<notin> set c \<Longrightarrow> op \<in> set (operations d) \<Longrightarrow>
      op \<in> set (operations (fold ?step cs d)) \<and> jobs (fold ?step cs d) = jobs d" for cs d
  proof (induction cs arbitrary: d)
    case (Cons c cs)
    then have "op \<in> set (operations (?step c d))" by (auto simp: in_update_where intro!: bexI[of _ op])
    with Cons show ?case by simp
  qed simp
  have "op_id op \<notin> set ?ids" using assms by (auto simp: distinct_map dest: inj_onD)
  then have "\<forall>c \<in> set (chunksFor ?ids). op_id op \<notin> set c"
    using arg_cong[OF concat_chunksFor[of ?ids], of set] by (auto simp del: concat_chunksFor)
  from fold[OF this assms(2)]
  show "op \<in> set (operations (snd (finalizeTerminalOperations now days db)))"
    and "jobs (snd (finalizeTerminalOperations now days db)) = jobs db"
    using assms(2) by (simp_all add: finalizeTerminalOperations_def Let_def forEachChunked_def)
qed

text \<open>
  The retention pass never deletes live work: an operation that has not ended stays as it
  is, and every job of it stays, in its operation and with its status.
\<close>

theorem retention_spares_live_operations:
  assumes "queue_reach slots db" and "op \<in> set (operations db)" and "\<not> terminal (op_status op)"
  shows "op \<in> set (operations (snd (cleanupExpiredOperations now db)))
     \<and> (\<forall>r \<in> set (jobs db). operationId r = Some (op_id op) \<longrightarrow> kept_row r (snd (cleanupExpiredOperations now db)))"
proof -
  have ok: "tables_ok db" by (rule full_inv_tables[OF queue_reach_inv[OF assms(1)]])
  let ?d = "snd (finalizeTerminalOperations now 7 db)"
  let ?ids = "expired_operations now ?d"
  note fin = finalize_spares[OF tables_okD(2)[OF ok] assms(2,3), of now 7]
  have okd: "tables_ok ?d" by (rule moves_tables_ok[OF finalize_moves ok])
  have "op_id op \<notin> set ?ids"
    using tables_okD(2)[OF okd] fin(1) assms(3) by (auto simp: expired_operations_def distinct_map dest: inj_onD)
  then have "\<forall>c \<in> set (chunksFor ?ids). op_id op \<notin> set c"
    using arg_cong[OF concat_chunksFor[of ?ids], of set] by (auto simp del: concat_chunksFor)
  from delete_fold_spares[OF this fin(1)]
  have "op \<in> set (operations (snd (cleanupExpiredOperations now db)))
     \<and> (\<forall>r. kept_row r ?d \<longrightarrow> operationId r = Some (op_id op) \<longrightarrow> kept_row r (snd (cleanupExpiredOperations now db)))"
    using fin(1) by (simp add: cleanupExpiredOperations_def Let_def forEachChunked_def)
  moreover have "kept_row r ?d" if "r \<in> set (jobs db)" for r
    using that by (auto simp: kept_row_def fin(2))
  ultimately show ?thesis by blast
qed

theorem retention_spares_live_operations_witness:
  "\<exists>op \<in> set (operations sample_running). op_status op = Running
     \<and> op \<in> set (operations (snd (cleanupExpiredOperations 900000000 sample_running)))"
proof -
  have "map op_status (operations sample_running) = [Running]" by code_simp
  then obtain op where op: "op \<in> set (operations sample_running)" "op_status op = Running" by auto
  with retention_spares_live_operations[OF sample_reach(2) op(1), of 900000000] show ?thesis
    by (auto simp: terminal_def)
qed

end
