(* ===== verification/Js_String.thy ===== *)
theory Js_String
  imports Prelude "HOL-Library.Sublist" "HOL-Library.List_Lexorder" "HOL-Library.Char_ord"
begin

section \<open>Strings\<close>

text \<open>
  A string is the list of its bytes in UTF-8. The names the server compares (codecs, pixel
  formats, languages, identifiers) are ASCII; on those the operations below are the ones of
  JavaScript, and on other bytes they are the identity. Sources: \<^verbatim>\<open>utils/type.utils.ts\<close>,
  \<^verbatim>\<open>streaming/utils/string-list.utils.ts\<close> and \<^verbatim>\<open>streaming/sessions/session-request.mapper.ts\<close>.
\<close>

definition lower_char :: "char \<Rightarrow> char" where
  "lower_char c = (let n = (of_char c :: nat) in if 65 \<le> n \<and> n \<le> 90 then char_of (n + 32) else c)"

definition to_lower :: "string \<Rightarrow> string" where
  "to_lower = map lower_char"

definition upper_char :: "char \<Rightarrow> char" where
  "upper_char c = (let n = (of_char c :: nat) in if 97 \<le> n \<and> n \<le> 122 then char_of (n - 32) else c)"

definition to_upper :: "string \<Rightarrow> string" where
  "to_upper = map upper_char"

definition is_space :: "char \<Rightarrow> bool" where
  "is_space c = (let n = (of_char c :: nat) in 9 \<le> n \<and> n \<le> 13 \<or> n = 32)"

definition trim_text :: "string \<Rightarrow> string" where
  "trim_text s = rev (dropWhile is_space (rev (dropWhile is_space s)))"

definition normalizeLower :: "string \<Rightarrow> string" where
  "normalizeLower s = to_lower (trim_text s)"

fun split_on :: "char \<Rightarrow> string \<Rightarrow> string list" where
  "split_on c [] = [[]]"
| "split_on c (x # xs) =
     (if x = c then [] # split_on c xs
      else case split_on c xs of [] \<Rightarrow> [[x]] | w # ws \<Rightarrow> (x # w) # ws)"

fun show_nat :: "nat \<Rightarrow> string" where
  "show_nat n = (if n < 10 then [] else show_nat (n div 10)) @ [char_of (48 + n mod 10)]"

declare show_nat.simps [simp del]

definition show_int :: "int \<Rightarrow> string" where
  "show_int i = (if i < 0 then ''-'' @ show_nat (nat (- i)) else show_nat (nat i))"

text \<open>Trims and folds every entry, drops blanks, then dedupes and sorts.\<close>

definition normalizeStringList :: "string list \<Rightarrow> string list" where
  "normalizeStringList values =
     sort (fold (\<lambda>v acc. let t = normalizeLower v in if t = [] then acc else js_add t acc) values [])"

definition parseList :: "string option \<Rightarrow> string list" where
  "parseList val = (case val of None \<Rightarrow> [] | Some v \<Rightarrow> if v = [] then [] else normalizeStringList (split_on CHR '','' v))"

text \<open>The pattern \<^verbatim>\<open>[A-Za-z0-9_-]{1,128}\<close>.\<close>

definition safe_char :: "char \<Rightarrow> bool" where
  "safe_char c = (let n = (of_char c :: nat) in
     65 \<le> n \<and> n \<le> 90 \<or> 97 \<le> n \<and> n \<le> 122 \<or> 48 \<le> n \<and> n \<le> 57 \<or> n = 95 \<or> n = 45)"

definition assertSafeId :: "string \<Rightarrow> unit result" where
  "assertSafeId i =
     (if i \<noteq> [] \<and> length i \<le> 128 \<and> list_all safe_char i then Return ()
      else Throw (DomainError Validation ''stream.id_invalid''))"

subsection \<open>Normal forms\<close>

lemma lower_char_code: "(of_char (lower_char c) :: nat) =
    (let n = of_char c in if 65 \<le> n \<and> n \<le> 90 then n + 32 else n)"
  by (simp add: lower_char_def Let_def of_char_of take_bit_nat_def)

lemma lower_char_idem [simp]: "lower_char (lower_char c) = lower_char c"
proof -
  have "\<not> (65 \<le> (of_char (lower_char c) :: nat) \<and> (of_char (lower_char c) :: nat) \<le> 90)"
    by (simp add: lower_char_code Let_def)
  then show ?thesis by (subst lower_char_def) (simp only: Let_def if_False)
qed

lemma to_lower_idem [simp]: "to_lower (to_lower s) = to_lower s"
  by (simp add: to_lower_def)

lemma is_space_lower [simp]: "is_space (lower_char c) = is_space c"
  by (auto simp: is_space_def lower_char_code Let_def)

lemma dropWhile_lower: "dropWhile is_space (to_lower s) = to_lower (dropWhile is_space s)"
  by (induction s) (simp_all add: to_lower_def)

lemma trim_lower: "trim_text (to_lower s) = to_lower (trim_text s)"
proof -
  have "rev (to_lower t) = to_lower (rev t)" for t by (simp add: to_lower_def rev_map)
  then show ?thesis by (simp add: trim_text_def dropWhile_lower)
qed

lemma dropWhile_keeps_last:
  assumes "\<not> P (last xs)" and "xs \<noteq> []"
  shows "dropWhile P xs \<noteq> [] \<and> last (dropWhile P xs) = last xs"
  using assms by (induction xs) (auto split: if_splits)

lemma dropWhile_idem: "dropWhile P (dropWhile P xs) = dropWhile P xs"
  by (induction xs) auto

lemma trim_ends: "trim_text s = [] \<or> \<not> is_space (hd (trim_text s)) \<and> \<not> is_space (last (trim_text s))"
proof (cases "trim_text s = []")
  case False
  let ?d = "dropWhile is_space s" and ?r = "dropWhile is_space (rev (dropWhile is_space s))"
  from False have r: "?r \<noteq> []" by (simp add: trim_text_def)
  have l: "\<not> is_space (hd ?r)" using hd_dropWhile[OF r] .
  have "?d \<noteq> []" using r by (cases ?d) simp_all
  then have "\<not> is_space (hd ?d)" by (rule hd_dropWhile)
  moreover have "last (rev ?d) = hd ?d" using \<open>?d \<noteq> []\<close> by (simp add: last_rev)
  ultimately have "last ?r = hd ?d" using dropWhile_keeps_last[of is_space "rev ?d"] \<open>?d \<noteq> []\<close> by simp
  with l r \<open>\<not> is_space (hd ?d)\<close> show ?thesis by (simp add: trim_text_def hd_rev last_rev)
qed simp

lemma trim_idem [simp]: "trim_text (trim_text s) = trim_text s"
proof -
  have id: "dropWhile is_space t = t" if "t = [] \<or> \<not> is_space (hd t)" for t
    using that by (cases t) auto
  show ?thesis
  proof (cases "trim_text s = []")
    case True
    then show ?thesis by (simp only: True) (simp add: trim_text_def)
  next
    case False
    with trim_ends[of s] have h: "\<not> is_space (hd (trim_text s))" "\<not> is_space (last (trim_text s))" by auto
    have "trim_text (trim_text s) = rev (dropWhile is_space (rev (trim_text s)))"
      by (subst trim_text_def) (simp add: id h)
    also have "\<dots> = trim_text s"
      using id[of "rev (trim_text s)"] h(2) False by (simp add: hd_rev)
    finally show ?thesis .
  qed
qed

lemma normalizeLower_idem [simp]: "normalizeLower (normalizeLower s) = normalizeLower s"
  by (simp add: normalizeLower_def trim_lower)

lemma in_normalizeStringList:
  "t \<in> set (normalizeStringList vs) \<longleftrightarrow> t \<noteq> [] \<and> (\<exists>v \<in> set vs. t = normalizeLower v)"
proof -
  have "set (fold (\<lambda>v acc. let t = normalizeLower v in if t = [] then acc else js_add t acc) vs acc) =
      set acc \<union> {t. t \<noteq> [] \<and> (\<exists>v \<in> set vs. t = normalizeLower v)}" for acc
    by (induction vs arbitrary: acc) (auto simp: Let_def)
  then show ?thesis by (simp add: normalizeStringList_def)
qed

lemma normalizeStringList_canonical: "sorted (normalizeStringList vs)" "distinct (normalizeStringList vs)"
proof -
  have "distinct acc \<Longrightarrow>
      distinct (fold (\<lambda>v acc. let t = normalizeLower v in if t = [] then acc else js_add t acc) vs acc)" for acc
    by (induction vs arbitrary: acc) (auto simp: Let_def)
  then show "distinct (normalizeStringList vs)" by (simp add: normalizeStringList_def)
qed (simp add: normalizeStringList_def)

text \<open>Two lists with the same normalized entries have one normal form.\<close>

lemma normalizeStringList_cong:
  assumes "normalizeLower ` set vs = normalizeLower ` set ws"
  shows "normalizeStringList vs = normalizeStringList ws"
proof (rule sorted_distinct_set_unique)
  have "set (normalizeStringList xs) = normalizeLower ` set xs - {[]}" for xs
    using in_normalizeStringList[of _ xs] by auto
  with assms show "set (normalizeStringList vs) = set (normalizeStringList ws)" by simp
qed (simp_all add: normalizeStringList_canonical)

lemma parseList_entries: "t \<in> set (parseList v) \<Longrightarrow> t \<noteq> [] \<and> normalizeLower t = t"
  by (auto simp: parseList_def in_normalizeStringList split: option.splits if_splits)

lemma show_nat_nonempty [simp]: "show_nat n \<noteq> []"
  by (subst show_nat.simps) simp

end
