(* ===== verification/Stream_Preferences.thy ===== *)
theory Stream_Preferences
  imports Js_String
begin

section \<open>Languages and preferred tracks\<close>

text \<open>
  The choice of the audio track and of the subtitles:
  \<^verbatim>\<open>streaming/decisions/language-codes.utils.ts\<close> and
  \<^verbatim>\<open>streaming/decisions/stream-preferences.resolver.ts\<close>. A field that may be null or
  undefined is an option; the code reads both the same way.
\<close>

subsection \<open>Language codes\<close>

definition ISO_639_PAIRS :: "(string \<times> string \<times> string option) list" where
  "ISO_639_PAIRS =
   [(''aa'', ''aar'', None), (''ab'', ''abk'', None), (''ae'', ''ave'', None), (''af'', ''afr'', None),
    (''ak'', ''aka'', None), (''am'', ''amh'', None), (''an'', ''arg'', None), (''ar'', ''ara'', None),
    (''as'', ''asm'', None), (''av'', ''ava'', None), (''ay'', ''aym'', None), (''az'', ''aze'', None),
    (''ba'', ''bak'', None), (''be'', ''bel'', None), (''bg'', ''bul'', None), (''bh'', ''bih'', None),
    (''bi'', ''bis'', None), (''bm'', ''bam'', None), (''bn'', ''ben'', None),
    (''bo'', ''bod'', Some ''tib''), (''br'', ''bre'', None), (''bs'', ''bos'', None),
    (''ca'', ''cat'', None), (''ce'', ''che'', None), (''ch'', ''cha'', None), (''co'', ''cos'', None),
    (''cr'', ''cre'', None), (''cs'', ''ces'', Some ''cze''), (''cu'', ''chu'', None),
    (''cv'', ''chv'', None), (''cy'', ''cym'', Some ''wel''), (''da'', ''dan'', None),
    (''de'', ''deu'', Some ''ger''), (''dv'', ''div'', None), (''dz'', ''dzo'', None),
    (''ee'', ''ewe'', None), (''el'', ''ell'', Some ''gre''), (''en'', ''eng'', None),
    (''eo'', ''epo'', None), (''es'', ''spa'', None), (''et'', ''est'', None),
    (''eu'', ''eus'', Some ''baq''), (''fa'', ''fas'', Some ''per''), (''ff'', ''ful'', None),
    (''fi'', ''fin'', None), (''fj'', ''fij'', None), (''fo'', ''fao'', None),
    (''fr'', ''fra'', Some ''fre''), (''fy'', ''fry'', None), (''ga'', ''gle'', None),
    (''gd'', ''gla'', None), (''gl'', ''glg'', None), (''gn'', ''grn'', None), (''gu'', ''guj'', None),
    (''gv'', ''glv'', None), (''ha'', ''hau'', None), (''he'', ''heb'', None), (''hi'', ''hin'', None),
    (''ho'', ''hmo'', None), (''hr'', ''hrv'', None), (''ht'', ''hat'', None), (''hu'', ''hun'', None),
    (''hy'', ''hye'', Some ''arm''), (''hz'', ''her'', None), (''ia'', ''ina'', None),
    (''id'', ''ind'', None), (''ie'', ''ile'', None), (''ig'', ''ibo'', None), (''ii'', ''iii'', None),
    (''ik'', ''ipk'', None), (''io'', ''ido'', None), (''is'', ''isl'', Some ''ice''),
    (''it'', ''ita'', None), (''iu'', ''iku'', None), (''ja'', ''jpn'', None), (''jv'', ''jav'', None),
    (''ka'', ''kat'', Some ''geo''), (''kg'', ''kon'', None), (''ki'', ''kik'', None),
    (''kj'', ''kua'', None), (''kk'', ''kaz'', None), (''kl'', ''kal'', None), (''km'', ''khm'', None),
    (''kn'', ''kan'', None), (''ko'', ''kor'', None), (''kr'', ''kau'', None), (''ks'', ''kas'', None),
    (''ku'', ''kur'', None), (''kv'', ''kom'', None), (''kw'', ''cor'', None), (''ky'', ''kir'', None),
    (''la'', ''lat'', None), (''lb'', ''ltz'', None), (''lg'', ''lug'', None), (''li'', ''lim'', None),
    (''ln'', ''lin'', None), (''lo'', ''lao'', None), (''lt'', ''lit'', None), (''lu'', ''lub'', None),
    (''lv'', ''lav'', None), (''mg'', ''mlg'', None), (''mh'', ''mah'', None),
    (''mi'', ''mri'', Some ''mao''), (''mk'', ''mkd'', Some ''mac''), (''ml'', ''mal'', None),
    (''mn'', ''mon'', None), (''mr'', ''mar'', None), (''ms'', ''msa'', Some ''may''),
    (''mt'', ''mlt'', None), (''my'', ''mya'', Some ''bur''), (''na'', ''nau'', None),
    (''nb'', ''nob'', None), (''nd'', ''nde'', None), (''ne'', ''nep'', None), (''ng'', ''ndo'', None),
    (''nl'', ''nld'', Some ''dut''), (''nn'', ''nno'', None), (''no'', ''nor'', None),
    (''nr'', ''nbl'', None), (''nv'', ''nav'', None), (''ny'', ''nya'', None), (''oc'', ''oci'', None),
    (''oj'', ''oji'', None), (''om'', ''orm'', None), (''os'', ''oss'', None), (''pa'', ''pan'', None),
    (''pi'', ''pli'', None), (''pl'', ''pol'', None), (''ps'', ''pus'', None), (''pt'', ''por'', None),
    (''qu'', ''que'', None), (''rm'', ''roh'', None), (''rn'', ''run'', None),
    (''ro'', ''ron'', Some ''rum''), (''ru'', ''rus'', None), (''rw'', ''kin'', None),
    (''sa'', ''san'', None), (''sc'', ''srd'', None), (''sd'', ''snd'', None), (''se'', ''sme'', None),
    (''sg'', ''sag'', None), (''si'', ''sin'', None), (''sk'', ''slk'', Some ''slo''),
    (''sl'', ''slv'', None), (''sm'', ''smo'', None), (''sn'', ''sna'', None), (''so'', ''som'', None),
    (''sq'', ''sqi'', Some ''alb''), (''sr'', ''srp'', None), (''ss'', ''ssw'', None),
    (''st'', ''sot'', None), (''su'', ''sun'', None), (''sv'', ''swe'', None), (''sw'', ''swa'', None),
    (''ta'', ''tam'', None), (''te'', ''tel'', None), (''tg'', ''tgk'', None), (''th'', ''tha'', None),
    (''ti'', ''tir'', None), (''tk'', ''tuk'', None), (''tl'', ''tgl'', None), (''tn'', ''tsn'', None),
    (''to'', ''ton'', None), (''tr'', ''tur'', None), (''ts'', ''tso'', None), (''tt'', ''tat'', None),
    (''tw'', ''twi'', None), (''ty'', ''tah'', None), (''ug'', ''uig'', None), (''uk'', ''ukr'', None),
    (''ur'', ''urd'', None), (''uz'', ''uzb'', None), (''ve'', ''ven'', None), (''vi'', ''vie'', None),
    (''vo'', ''vol'', None), (''wa'', ''wln'', None), (''wo'', ''wol'', None), (''xh'', ''xho'', None),
    (''yi'', ''yid'', None), (''yo'', ''yor'', None), (''za'', ''zha'', None),
    (''zh'', ''zho'', Some ''chi''), (''zu'', ''zul'', None)]"

definition iso_entries :: "(string \<times> string \<times> string option) list \<Rightarrow> (string \<times> string) list" where
  "iso_entries rows = concat (map (\<lambda>(c, b, t). (b, c) # (case t of None \<Rightarrow> [] | Some x \<Rightarrow> [(x, c)])) rows)"

text \<open>A map built from entries keeps the last one of a key.\<close>

definition toIso639_1 :: "string \<Rightarrow> string" where
  "toIso639_1 language =
     (case map_of (rev (iso_entries ISO_639_PAIRS)) language of Some c \<Rightarrow> c | None \<Rightarrow> language)"

definition normalizeLanguage :: "string option \<Rightarrow> string option" where
  "normalizeLanguage language =
     (case language of None \<Rightarrow> None
      | Some l \<Rightarrow> if l = [] then None
          else (let n = normalizeLower l in if n = [] then None else Some (toIso639_1 n)))"

lemma in_iso_entries:
  "(k, c) \<in> set (iso_entries rows) \<longleftrightarrow> (\<exists>b t. (c, b, t) \<in> set rows \<and> (k = b \<or> t = Some k))"
  by (induction rows) (auto simp: iso_entries_def split: option.splits)

lemma iso_rows: "list_all (\<lambda>(c, b, t). length c = 2 \<and> length b = 3 \<and> (t = None \<or> length (the t) = 3)
    \<and> normalizeLower c = c \<and> normalizeLower b = b \<and> (t = None \<or> normalizeLower (the t) = the t)) ISO_639_PAIRS"
  unfolding ISO_639_PAIRS_def by code_simp

text \<open>The keys are pairwise distinct: compared as numbers, which is fast.\<close>

definition word_code :: "string \<Rightarrow> nat" where
  "word_code s = foldl (\<lambda>n c. 256 * n + of_char c) 0 s"

lemma iso_distinct: "distinct (map fst (iso_entries ISO_639_PAIRS))"
proof -
  have "distinct (map word_code (map fst (iso_entries ISO_639_PAIRS)))"
    unfolding ISO_639_PAIRS_def by (simp add: iso_entries_def word_code_def)
  then show ?thesis by (simp only: distinct_map)
qed

lemma toIso639_1_entry: "(k, c) \<in> set (iso_entries ISO_639_PAIRS) \<Longrightarrow> toIso639_1 k = c"
proof -
  assume "(k, c) \<in> set (iso_entries ISO_639_PAIRS)"
  then have "map_of (rev (iso_entries ISO_639_PAIRS)) k = Some c"
    using iso_distinct by (intro map_of_is_SomeI) (simp_all add: rev_map[symmetric])
  then show ?thesis by (simp add: toIso639_1_def)
qed

lemma toIso639_1_other: "k \<notin> set (map fst (iso_entries ISO_639_PAIRS)) \<Longrightarrow> toIso639_1 k = k"
proof -
  assume "k \<notin> set (map fst (iso_entries ISO_639_PAIRS))"
  then have "map_of (rev (iso_entries ISO_639_PAIRS)) k = None" by (simp add: map_of_eq_None_iff)
  then show ?thesis by (simp add: toIso639_1_def)
qed

lemma iso_entry_row:
  assumes "(k, c) \<in> set (iso_entries ISO_639_PAIRS)"
  shows "length k = 3 \<and> length c = 2 \<and> normalizeLower c = c"
  using assms iso_rows by (fastforce simp: in_iso_entries list_all_iff)

lemma toIso639_1_short: "length k = 2 \<Longrightarrow> toIso639_1 k = k"
  using iso_entry_row by (fastforce intro: toIso639_1_other)

lemma toIso639_1_cases:
  obtains (entry) "(k, toIso639_1 k) \<in> set (iso_entries ISO_639_PAIRS)" | (other) "toIso639_1 k = k"
proof (cases "k \<in> set (map fst (iso_entries ISO_639_PAIRS))")
  case True
  then obtain c where "(k, c) \<in> set (iso_entries ISO_639_PAIRS)" by auto
  with toIso639_1_entry[OF this] entry show thesis by simp
next
  case False
  with toIso639_1_other other show thesis by blast
qed

lemma normalizeLanguage_some: "normalizeLanguage l = Some n \<Longrightarrow>
    n \<noteq> [] \<and> normalizeLower n = n \<and> toIso639_1 n = n"
proof -
  assume "normalizeLanguage l = Some n"
  then obtain x where x: "l = Some x" "normalizeLower x \<noteq> []" "n = toIso639_1 (normalizeLower x)"
    by (auto simp: normalizeLanguage_def Let_def split: option.splits if_splits)
  show ?thesis
  proof (cases "normalizeLower x" rule: toIso639_1_cases)
    case entry
    from iso_entry_row[OF this] x(3) toIso639_1_short show ?thesis by auto
  next
    case other
    with x show ?thesis by simp
  qed
qed

text \<open>
  A language is compared in one normal form: normalizing twice is normalizing once, and the
  two-letter code of every listed language, its bibliographic and its terminologic three-letter
  codes all have the same normal form.
\<close>

theorem language_normal_form:
  "normalizeLanguage (normalizeLanguage l) = normalizeLanguage l
   \<and> list_all (\<lambda>(c, b, t). normalizeLanguage (Some c) = Some c \<and> normalizeLanguage (Some b) = Some c
        \<and> normalizeLanguage t = (if t = None then None else Some c)) ISO_639_PAIRS"
proof (rule conjI)
  show "normalizeLanguage (normalizeLanguage l) = normalizeLanguage l"
  proof (cases "normalizeLanguage l")
    case (Some n)
    with normalizeLanguage_some[OF Some] show ?thesis by (simp add: normalizeLanguage_def[of "Some n"])
  qed (simp add: normalizeLanguage_def)
  have key: "normalizeLanguage (Some k) = Some c"
    if "(k, c) \<in> set (iso_entries ISO_639_PAIRS)" "normalizeLower k = k" for k c
  proof -
    from iso_entry_row[OF that(1)] have "k \<noteq> []" by auto
    with that toIso639_1_entry[OF that(1)] show ?thesis by (simp add: normalizeLanguage_def)
  qed
  have short: "normalizeLanguage (Some c) = Some c" if "length c = 2" "normalizeLower c = c" for c
  proof -
    from that have "c \<noteq> []" by auto
    with that toIso639_1_short[OF that(1)] show ?thesis by (simp add: normalizeLanguage_def)
  qed
  show "list_all (\<lambda>(c, b, t). normalizeLanguage (Some c) = Some c \<and> normalizeLanguage (Some b) = Some c
        \<and> normalizeLanguage t = (if t = None then None else Some c)) ISO_639_PAIRS"
    unfolding list_all_iff
  proof (clarify, intro conjI)
    fix c b t assume row: "(c, b, t) \<in> set ISO_639_PAIRS"
    with iso_rows have r: "length c = 2" "normalizeLower c = c" "normalizeLower b = b"
      "t = None \<or> normalizeLower (the t) = the t"
      by (auto simp: list_all_iff)
    show "normalizeLanguage (Some c) = Some c" by (rule short[OF r(1,2)])
    show "normalizeLanguage (Some b) = Some c" using row by (intro key[OF _ r(3)]) (auto simp only: in_iso_entries)
    show "normalizeLanguage t = (if t = None then None else Some c)"
    proof (cases t)
      case (Some x)
      with r(4) have "normalizeLower x = x" by simp
      moreover have "(x, c) \<in> set (iso_entries ISO_639_PAIRS)" using row Some by (auto simp only: in_iso_entries)
      ultimately show ?thesis using Some key by simp
    qed (simp add: normalizeLanguage_def)
  qed
qed

subsection \<open>Audio tracks\<close>

record audio_stream =
  a_index :: int
  a_language :: "string option"
  a_title :: "string option"
  a_isDefault :: bool
  a_isCommentary :: bool
  a_codecName :: string
  a_channels :: "int option"

text \<open>The default stream, or the one with the least index.\<close>

fun default_or_first :: "('s \<Rightarrow> int) \<Rightarrow> ('s \<Rightarrow> bool) \<Rightarrow> 's option \<Rightarrow> 's list \<Rightarrow> 's option" where
  "default_or_first index isDefault firstByIndex [] = firstByIndex"
| "default_or_first index isDefault firstByIndex (x # xs) =
     (if isDefault x then Some x
      else default_or_first index isDefault
        (case firstByIndex of None \<Rightarrow> Some x | Some f \<Rightarrow> if index x < index f then Some x else Some f) xs)"

definition selectDefaultOrFirstStream :: "('s \<Rightarrow> int) \<Rightarrow> ('s \<Rightarrow> bool) \<Rightarrow> 's list \<Rightarrow> 's option" where
  "selectDefaultOrFirstStream index isDefault = default_or_first index isDefault None"

definition normalized_languages :: "('s \<Rightarrow> 'k) \<Rightarrow> ('s \<Rightarrow> string option) \<Rightarrow> 's list \<Rightarrow> ('k, string option) jsmap" where
  "normalized_languages key language xs =
     fold (\<lambda>x m. AList.update (key x) (normalizeLanguage (language x)) m) xs []"

definition looked_up :: "('k, string option) jsmap \<Rightarrow> 'k \<Rightarrow> string option" where
  "looked_up m k = (case map_of m k of None \<Rightarrow> None | Some v \<Rightarrow> v)"

definition text_or_blank :: "string option \<Rightarrow> string" where
  "text_or_blank t = (case t of None \<Rightarrow> [] | Some x \<Rightarrow> x)"

definition compatible_stream ::
  "(int, string option) jsmap \<Rightarrow> audio_stream \<Rightarrow> string list \<Rightarrow> audio_stream \<Rightarrow> bool" where
  "compatible_stream normalizedLangByIndex baseline supportedCodecs s \<longleftrightarrow>
     a_index s \<noteq> a_index baseline
     \<and> to_lower (a_codecName s) \<in> set supportedCodecs
     \<and> (let baselineLang = looked_up normalizedLangByIndex (a_index baseline);
            streamLang = looked_up normalizedLangByIndex (a_index s);
            baselineTitle = normalizeLower (text_or_blank (a_title baseline));
            streamTitle = normalizeLower (text_or_blank (a_title s))
        in baselineLang \<noteq> None \<and> baselineLang \<noteq> Some [] \<and> baselineLang = streamLang
           \<or> streamLang \<noteq> None \<and> baselineTitle \<noteq> [] \<and> streamTitle \<noteq> [] \<and> baselineTitle = streamTitle)"

definition findCompatibleStream :: "audio_stream list \<Rightarrow> audio_stream \<Rightarrow> string list \<Rightarrow> audio_stream option" where
  "findCompatibleStream candidates baseline supportedCodecs =
     find (compatible_stream (normalized_languages a_index a_language candidates) baseline supportedCodecs) candidates"

definition audio_candidates :: "audio_stream list \<Rightarrow> audio_stream list" where
  "audio_candidates streams =
     (let withoutCommentary = filter (\<lambda>s. \<not> a_isCommentary s) streams
      in if withoutCommentary \<noteq> [] then withoutCommentary else streams)"

definition baseline_stream :: "audio_stream list \<Rightarrow> string option \<Rightarrow> audio_stream option" where
  "baseline_stream candidates preferredLanguage =
     (let byLanguage = (case normalizeLanguage preferredLanguage of
            None \<Rightarrow> None
          | Some l \<Rightarrow> if l = [] then None else find (\<lambda>s. normalizeLanguage (a_language s) = Some l) candidates)
      in case byLanguage of Some s \<Rightarrow> Some s
         | None \<Rightarrow> selectDefaultOrFirstStream a_index a_isDefault candidates)"

text \<open>\<open>clientAudioCodecs\<close> and \<open>smartSelectionEnabled\<close> are the fields of the optional \<^verbatim>\<open>options\<close>.\<close>

definition selectPreferredAudioStream ::
  "audio_stream list \<Rightarrow> string option \<Rightarrow> int option \<Rightarrow> string list option \<Rightarrow> bool \<Rightarrow> audio_stream option" where
  "selectPreferredAudioStream streams preferredLanguage explicitStreamIndex clientAudioCodecs smartSelectionEnabled =
     (case explicitStreamIndex of
        Some i \<Rightarrow> find (\<lambda>s. a_index s = i) streams
      | None \<Rightarrow>
          (let candidates = audio_candidates streams in
           case baseline_stream candidates preferredLanguage of
             None \<Rightarrow> None
           | Some b \<Rightarrow>
               (case clientAudioCodecs of
                  None \<Rightarrow> Some b
                | Some codecs \<Rightarrow>
                    if \<not> smartSelectionEnabled \<or> codecs = [] then Some b
                    else (let supported = map to_lower codecs in
                      if to_lower (a_codecName b) \<in> set supported then Some b
                      else case findCompatibleStream candidates b supported of Some s \<Rightarrow> Some s | None \<Rightarrow> Some b))))"

lemma default_or_first_cases:
  "default_or_first index isDefault acc xs = Some s \<Longrightarrow>
     s \<in> set xs \<and> isDefault s \<or> (\<forall>x \<in> set xs. \<not> isDefault x) \<and>
       (s \<in> set xs \<or> acc = Some s) \<and> (\<forall>x \<in> set xs \<union> set_option acc. index s \<le> index x)"
proof (induction xs arbitrary: acc)
  case (Cons x xs)
  show ?case
  proof (cases "isDefault x")
    case False
    let ?acc = "case acc of None \<Rightarrow> Some x | Some f \<Rightarrow> if index x < index f then Some x else Some f"
    from Cons.prems False have "default_or_first index isDefault ?acc xs = Some s" by simp
    from Cons.IH[OF this] False show ?thesis by (cases acc) (auto split: if_splits)
  qed (use Cons.prems in auto)
qed auto

lemma default_or_first_none: "default_or_first index isDefault acc xs = None \<longleftrightarrow> acc = None \<and> xs = []"
  by (induction xs arbitrary: acc) (auto split: option.splits)

lemma selectDefaultOrFirstStream_cases:
  assumes "selectDefaultOrFirstStream index isDefault xs = Some s"
  shows "s \<in> set xs \<and> ((\<exists>x \<in> set xs. isDefault x) \<longrightarrow> isDefault s)
     \<and> ((\<forall>x \<in> set xs. \<not> isDefault x) \<longrightarrow> (\<forall>x \<in> set xs. index s \<le> index x))"
  using default_or_first_cases[of index isDefault None xs s] assms
  by (auto simp: selectDefaultOrFirstStream_def)

lemma find_someD: "find P xs = Some x \<Longrightarrow> x \<in> set xs \<and> P x"
  by (auto simp: find_Some_iff)

lemma baseline_stream_some: "xs \<noteq> [] \<Longrightarrow> \<exists>b. baseline_stream xs l = Some b"
  using default_or_first_none[of a_index a_isDefault None xs]
  by (auto simp: baseline_stream_def selectDefaultOrFirstStream_def Let_def not_None_eq split: option.splits)

lemma baseline_stream_in: "baseline_stream xs l = Some b \<Longrightarrow> b \<in> set xs"
  by (auto simp: baseline_stream_def Let_def split: option.splits if_splits
      dest!: find_someD selectDefaultOrFirstStream_cases)

lemma baseline_stream_language:
  assumes "baseline_stream xs l = Some b" and "normalizeLanguage l = Some n"
    and "x \<in> set xs" and "normalizeLanguage (a_language x) = Some n"
  shows "normalizeLanguage (a_language b) = Some n"
proof -
  from normalizeLanguage_some[OF assms(2)] have "n \<noteq> []" by simp
  moreover have "find (\<lambda>s. normalizeLanguage (a_language s) = Some n) xs \<noteq> None"
    using assms(3,4) by (auto simp: find_None_iff)
  ultimately show ?thesis
    using assms(1,2) by (auto simp: baseline_stream_def Let_def dest!: find_someD split: option.splits)
qed

lemma audio_candidates_in: "s \<in> set (audio_candidates streams) \<Longrightarrow> s \<in> set streams"
  by (auto simp: audio_candidates_def Let_def split: if_splits)

lemma audio_candidates_empty [simp]: "audio_candidates streams = [] \<longleftrightarrow> streams = []"
  by (auto simp: audio_candidates_def Let_def)

lemma audio_candidates_commentary:
  "s \<in> set (audio_candidates streams) \<Longrightarrow> a_isCommentary s \<Longrightarrow> x \<in> set streams \<Longrightarrow> a_isCommentary x"
  by (auto simp: audio_candidates_def Let_def filter_empty_conv split: if_splits)

lemma looked_up_language:
  assumes "distinct (map key xs)" and "x \<in> set xs"
  shows "looked_up (normalized_languages key language xs) (key x) = normalizeLanguage (language x)"
proof -
  have other: "map_of (fold (\<lambda>x m. AList.update (key x) (normalizeLanguage (language x)) m) ys m) k = map_of m k"
    if "k \<notin> key ` set ys" for ys m k
    using that by (induction ys arbitrary: m) (simp_all add: map_of_update)
  have "map_of (fold (\<lambda>x m. AList.update (key x) (normalizeLanguage (language x)) m) xs m) (key x)
      = Some (normalizeLanguage (language x))" for m
    using assms
  proof (induction xs arbitrary: m)
    case (Cons y ys)
    then show ?case by (cases "x = y") (auto simp: other map_of_update)
  qed simp
  then show ?thesis by (simp add: looked_up_def normalized_languages_def)
qed

definition playable :: "string list \<Rightarrow> audio_stream \<Rightarrow> bool" where
  "playable codecs s \<longleftrightarrow> to_lower (a_codecName s) \<in> set (map to_lower codecs)"

definition same_title :: "audio_stream \<Rightarrow> audio_stream \<Rightarrow> bool" where
  "same_title s b \<longleftrightarrow> normalizeLower (text_or_blank (a_title s)) \<noteq> []
     \<and> normalizeLower (text_or_blank (a_title s)) = normalizeLower (text_or_blank (a_title b))"

text \<open>What the smart selection does to the baseline.\<close>

lemma smart_selection_cases:
  assumes "selectPreferredAudioStream streams pref None (Some codecs) smart = Some s"
    and "distinct (map a_index streams)"
  obtains b where "baseline_stream (audio_candidates streams) pref = Some b"
    and "s = b \<and> (smart \<and> codecs \<noteq> [] \<and> \<not> playable codecs b \<longrightarrow>
           (\<forall>x \<in> set (audio_candidates streams). playable codecs x \<longrightarrow>
              normalizeLanguage (a_language b) = None \<or> normalizeLanguage (a_language x) \<noteq> normalizeLanguage (a_language b)))
       \<or> s \<in> set (audio_candidates streams) \<and> playable codecs s \<and> \<not> playable codecs b
         \<and> (normalizeLanguage (a_language s) = normalizeLanguage (a_language b) \<or> same_title s b)"
proof -
  let ?cs = "audio_candidates streams"
  let ?m = "normalized_languages a_index a_language ?cs"
  have dist: "distinct (map a_index ?cs)"
    using assms(2) by (auto simp: audio_candidates_def Let_def distinct_map_filter)
  from assms(1) obtain b where b: "baseline_stream ?cs pref = Some b"
    by (auto simp: selectPreferredAudioStream_def Let_def split: option.splits)
  have lang: "looked_up ?m (a_index x) = normalizeLanguage (a_language x)" if "x \<in> set ?cs" for x
    by (rule looked_up_language[OF dist that])
  note bin = baseline_stream_in[OF b]
  show thesis
  proof (cases "smart \<and> codecs \<noteq> [] \<and> \<not> playable codecs b")
    case False
    then have "s = b" using assms(1) b
      by (auto simp: selectPreferredAudioStream_def Let_def playable_def split: if_splits)
    with False b that show thesis by blast
  next
    case True
    show thesis
    proof (cases "findCompatibleStream ?cs b (map to_lower codecs)")
      case None
      with assms(1) b True have "s = b"
        by (auto simp: selectPreferredAudioStream_def Let_def playable_def)
      moreover have "normalizeLanguage (a_language b) = None \<or> normalizeLanguage (a_language x) \<noteq> normalizeLanguage (a_language b)"
        if x: "x \<in> set ?cs" "playable codecs x" for x
      proof -
        have "\<not> compatible_stream ?m b (map to_lower codecs) x"
          using None x(1) by (auto simp: findCompatibleStream_def find_None_iff)
        moreover have "a_index x \<noteq> a_index b"
          using dist x bin True by (auto simp: distinct_map dest: inj_onD)
        ultimately show ?thesis
          using x normalizeLanguage_some[of "a_language b"]
          by (auto simp: compatible_stream_def Let_def playable_def lang[OF x(1)] lang[OF bin])
      qed
      ultimately show thesis using b that by blast
    next
      case (Some t)
      with assms(1) b True have "s = t"
        by (auto simp: selectPreferredAudioStream_def Let_def playable_def)
      with Some have s: "s \<in> set ?cs" "compatible_stream ?m b (map to_lower codecs) s"
        by (auto simp: findCompatibleStream_def dest!: find_someD)
      then have "playable codecs s \<and> (normalizeLanguage (a_language s) = normalizeLanguage (a_language b) \<or> same_title s b)"
        by (auto simp: compatible_stream_def Let_def playable_def same_title_def lang[OF s(1)] lang[OF bin])
      with s True b that show thesis by blast
    qed
  qed
qed

lemma preferred_stream_in:
  assumes "selectPreferredAudioStream streams pref explicit codecs smart = Some s"
  shows "s \<in> set streams \<and> (\<forall>i. explicit = Some i \<longrightarrow> a_index s = i)"
proof (cases explicit)
  case (Some i)
  with assms show ?thesis by (auto simp: selectPreferredAudioStream_def dest!: find_someD)
next
  case None
  from assms None obtain b where b: "baseline_stream (audio_candidates streams) pref = Some b"
    and s: "s = b \<or> (\<exists>cs. findCompatibleStream (audio_candidates streams) b cs = Some s)"
    by (auto simp: selectPreferredAudioStream_def Let_def split: option.splits if_splits)
  have "s \<in> set (audio_candidates streams)"
    using s baseline_stream_in[OF b] by (auto simp: findCompatibleStream_def dest!: find_someD)
  with None audio_candidates_in show ?thesis by blast
qed


definition sample_tracks :: "audio_stream list" where
  "sample_tracks =
     [\<lparr>a_index = 1, a_language = Some ''pol'', a_title = None, a_isDefault = True, a_isCommentary = False,
       a_codecName = ''eac3'', a_channels = Some 6\<rparr>,
      \<lparr>a_index = 2, a_language = Some ''pl'', a_title = None, a_isDefault = False, a_isCommentary = False,
       a_codecName = ''AAC'', a_channels = Some 2\<rparr>]"


subsection \<open>Preferences\<close>

text \<open>The operator \<^verbatim>\<open>??\<close>.\<close>

fun or_else :: "'a option \<Rightarrow> 'a option \<Rightarrow> 'a option" where
  "or_else (Some x) y = Some x"
| "or_else None y = y"

lemma or_else_some: "or_else x y = Some z \<longleftrightarrow> x = Some z \<or> x = None \<and> y = Some z"
  by (cases x) auto

lemma or_else_none: "or_else x y = None \<longleftrightarrow> x = None \<and> y = None"
  by (cases x) auto

definition or_value :: "'a option \<Rightarrow> 'a \<Rightarrow> 'a" where
  "or_value x d = (case x of Some v \<Rightarrow> v | None \<Rightarrow> d)"

record profile_preferences =
  pr_audioLanguage :: "string option"
  pr_subtitleLanguage :: "string option"
  pr_subtitleFallbackLanguages :: "string option"
  pr_subtitlesEnabled :: bool
  pr_forcedSubtitlesOnly :: bool
  pr_autoForcedSubtitles :: "bool option"
  pr_preferHearingImpaired :: "bool option"
  pr_toneMapToSdr :: bool
  pr_maxStreamingBitrateKbps :: "int option"

record preference_overrides =
  ov_audioLanguage :: "string option"
  ov_subtitleLanguage :: "string option"
  ov_subtitlesEnabled :: "bool option"
  ov_forcedSubtitlesOnly :: "bool option"

record title_languages =
  ti_audioLanguage :: "string option"
  ti_subtitleLanguage :: "string option"

record playback_preferences =
  pp_audioLanguage :: "string option"
  pp_subtitleLanguage :: "string option"
  pp_subtitleFallbackLanguages :: "string option"
  pp_subtitlesEnabled :: bool
  pp_forcedSubtitlesOnly :: bool
  pp_autoForcedSubtitles :: bool
  pp_preferHearingImpaired :: bool

definition resolvePlaybackPreferences ::
  "playback_preferences \<Rightarrow> profile_preferences option \<Rightarrow> preference_overrides \<Rightarrow> title_languages option \<Rightarrow> playback_preferences" where
  "resolvePlaybackPreferences defaults preferences overrides perTitle =
     \<lparr>pp_audioLanguage =
        or_else (ov_audioLanguage overrides) (or_else (Option.bind preferences pr_audioLanguage)
          (or_else (Option.bind perTitle ti_audioLanguage) (pp_audioLanguage defaults))),
      pp_subtitleLanguage =
        or_else (ov_subtitleLanguage overrides) (or_else (Option.bind preferences pr_subtitleLanguage)
          (or_else (Option.bind perTitle ti_subtitleLanguage) (pp_subtitleLanguage defaults))),
      pp_subtitleFallbackLanguages =
        or_else (Option.bind preferences pr_subtitleFallbackLanguages) (pp_subtitleFallbackLanguages defaults),
      pp_subtitlesEnabled =
        or_value (or_else (ov_subtitlesEnabled overrides) (map_option pr_subtitlesEnabled preferences)) (pp_subtitlesEnabled defaults),
      pp_forcedSubtitlesOnly =
        or_value (or_else (ov_forcedSubtitlesOnly overrides) (map_option pr_forcedSubtitlesOnly preferences))
          (pp_forcedSubtitlesOnly defaults),
      pp_autoForcedSubtitles = or_value (Option.bind preferences pr_autoForcedSubtitles) (pp_autoForcedSubtitles defaults),
      pp_preferHearingImpaired = or_value (Option.bind preferences pr_preferHearingImpaired) (pp_preferHearingImpaired defaults)\<rparr>"

subsection \<open>Subtitles\<close>

datatype subtitle_type = Embedded | External

record subtitle =
  sub_id :: string
  sub_language :: string
  sub_isDefault :: bool
  sub_isForced :: bool
  sub_isHearingImpaired :: bool
  sub_streamIndex :: "int option"
  sub_type :: subtitle_type

definition subtitle_languages :: "subtitle list \<Rightarrow> (string, string option) jsmap" where
  "subtitle_languages = normalized_languages sub_id (\<lambda>s. Some (sub_language s))"

definition parseLanguageList :: "string option \<Rightarrow> string list" where
  "parseLanguageList value =
     (case value of None \<Rightarrow> []
      | Some v \<Rightarrow> if v = [] then [] else List.map_filter (\<lambda>e. normalizeLanguage (Some e)) (split_on CHR '','' v))"

definition pickSubtitleInLanguage ::
  "subtitle list \<Rightarrow> (string, string option) jsmap \<Rightarrow> string \<Rightarrow> playback_preferences \<Rightarrow> subtitle option" where
  "pickSubtitleInLanguage subtitles normalizedLangById language preferences =
     (let matchingLanguage = filter (\<lambda>s. looked_up normalizedLangById (sub_id s) = Some language) subtitles;
          fullSubtitles = filter (\<lambda>s. \<not> sub_isForced s) matchingLanguage
      in if pp_forcedSubtitlesOnly preferences then find sub_isForced matchingLanguage
         else
           or_else (if pp_preferHearingImpaired preferences then find sub_isHearingImpaired fullSubtitles else None)
             (case fullSubtitles of s # _ \<Rightarrow> Some s | [] \<Rightarrow> find sub_isForced matchingLanguage))"

fun first_match :: "('a \<Rightarrow> 'b option) \<Rightarrow> 'a list \<Rightarrow> 'b option" where
  "first_match f [] = None"
| "first_match f (x # xs) = (case f x of Some y \<Rightarrow> Some y | None \<Rightarrow> first_match f xs)"

definition subtitle_preference_languages :: "playback_preferences \<Rightarrow> string list" where
  "subtitle_preference_languages p =
     (case normalizeLanguage (or_else (pp_subtitleLanguage p) (pp_audioLanguage p)) of
        None \<Rightarrow> []
      | Some l \<Rightarrow> unique (l # parseLanguageList (pp_subtitleFallbackLanguages p)))"

definition selectPreferredSubtitle :: "subtitle list \<Rightarrow> playback_preferences \<Rightarrow> subtitle option" where
  "selectPreferredSubtitle subtitles preferences =
     (if \<not> pp_subtitlesEnabled preferences then None
      else
        (let normalizedLangById = subtitle_languages subtitles;
             preferredLanguage = normalizeLanguage (or_else (pp_subtitleLanguage preferences) (pp_audioLanguage preferences));
             audioLanguage = normalizeLanguage (pp_audioLanguage preferences)
         in case preferredLanguage of
              None \<Rightarrow> None
            | Some l \<Rightarrow>
                if audioLanguage = Some l then
                  (if \<not> pp_autoForcedSubtitles preferences then None
                   else find (\<lambda>s. sub_isForced s \<and> looked_up normalizedLangById (sub_id s) = Some l) subtitles)
                else
                  first_match (\<lambda>language. if Some language = audioLanguage then None
                      else pickSubtitleInLanguage subtitles normalizedLangById language preferences)
                    (subtitle_preference_languages preferences)))"

abbreviation subtitle_language :: "subtitle \<Rightarrow> string option" where
  "subtitle_language s \<equiv> normalizeLanguage (Some (sub_language s))"

lemma looked_up_subtitle:
  "distinct (map sub_id subs) \<Longrightarrow> s \<in> set subs \<Longrightarrow> looked_up (subtitle_languages subs) (sub_id s) = subtitle_language s"
  unfolding subtitle_languages_def by (rule looked_up_language)

lemma first_match_some:
  assumes "first_match f xs = Some y"
  shows "\<exists>as x bs. xs = as @ x # bs \<and> f x = Some y \<and> (\<forall>a \<in> set as. f a = None)"
  using assms
proof (induction xs)
  case (Cons x xs)
  show ?case
  proof (cases "f x")
    case None
    with Cons obtain as z bs where "xs = as @ z # bs" "f z = Some y" "\<forall>a \<in> set as. f a = None" by auto
    with None show ?thesis by (intro exI[of _ "x # as"] exI[of _ z] exI[of _ bs]) simp
  next
    case (Some z)
    with Cons.prems show ?thesis by (intro exI[of _ "[]"]) auto
  qed
qed simp

lemma pickSubtitle_some:
  assumes "pickSubtitleInLanguage subs m l p = Some s"
  shows "s \<in> set subs \<and> looked_up m (sub_id s) = Some l \<and> (pp_forcedSubtitlesOnly p \<longrightarrow> sub_isForced s)"
proof -
  have hd: "s \<in> set subs \<and> looked_up m (sub_id s) = Some l"
    if "filter (\<lambda>s. \<not> sub_isForced s) (filter (\<lambda>s. looked_up m (sub_id s) = Some l) subs) = s # ss" for s ss
  proof -
    have "s \<in> set (filter (\<lambda>s. \<not> sub_isForced s) (filter (\<lambda>s. looked_up m (sub_id s) = Some l) subs))"
      by (simp only: that list.set_intros)
    then show ?thesis by simp
  qed
  show ?thesis
  proof (cases "pp_forcedSubtitlesOnly p")
    case True
    with assms show ?thesis by (auto simp: pickSubtitleInLanguage_def Let_def dest!: find_someD)
  next
    case False
    let ?full = "filter (\<lambda>s. \<not> sub_isForced s) (filter (\<lambda>s. looked_up m (sub_id s) = Some l) subs)"
    let ?hi = "if pp_preferHearingImpaired p then find sub_isHearingImpaired ?full else None"
    have "or_else ?hi (case ?full of s # _ \<Rightarrow> Some s
        | [] \<Rightarrow> find sub_isForced (filter (\<lambda>s. looked_up m (sub_id s) = Some l) subs)) = Some s"
      using assms False by (simp add: pickSubtitleInLanguage_def Let_def)
    then consider "?hi = Some s"
      | "(case ?full of s # _ \<Rightarrow> Some s
        | [] \<Rightarrow> find sub_isForced (filter (\<lambda>s. looked_up m (sub_id s) = Some l) subs)) = Some s"
      by (auto simp: or_else_some)
    then have "s \<in> set subs \<and> looked_up m (sub_id s) = Some l"
    proof cases
      case 1
      then show ?thesis by (auto dest!: find_someD split: if_splits)
    next
      case 2
      then show ?thesis using hd[of s] by (cases ?full) (auto dest!: find_someD)
    qed
    with False show ?thesis by simp
  qed
qed

lemma pickSubtitle_none:
  assumes "pickSubtitleInLanguage subs m l p = None" and "s \<in> set subs" and "looked_up m (sub_id s) = Some l"
  shows "pp_forcedSubtitlesOnly p \<and> \<not> sub_isForced s"
proof (cases "pp_forcedSubtitlesOnly p")
  case True
  with assms show ?thesis by (auto simp: pickSubtitleInLanguage_def Let_def find_None_iff)
next
  case False
  let ?full = "filter (\<lambda>s. \<not> sub_isForced s) (filter (\<lambda>s. looked_up m (sub_id s) = Some l) subs)"
  have "?full = [] \<and> find sub_isForced (filter (\<lambda>s. looked_up m (sub_id s) = Some l) subs) = None"
    using assms(1) False by (auto simp: pickSubtitleInLanguage_def Let_def or_else_none split: list.splits)
  with assms(2,3) show ?thesis by (auto simp: filter_empty_conv find_None_iff)
qed

definition acceptable :: "playback_preferences \<Rightarrow> string \<Rightarrow> subtitle \<Rightarrow> bool" where
  "acceptable p l s \<longleftrightarrow> subtitle_language s = Some l \<and> (pp_forcedSubtitlesOnly p \<longrightarrow> sub_isForced s)"

lemma unique_split_head:
  "unique (l # ls) = as @ x # bs \<Longrightarrow> (as = [] \<and> x = l) \<or> l \<in> set as"
proof -
  assume "unique (l # ls) = as @ x # bs"
  moreover have "\<exists>zs. fold js_add ls [l] = l # zs"
  proof -
    have "\<exists>zs. fold js_add ls (l # acc) = l # zs" for acc
      by (induction ls arbitrary: acc) (simp_all add: js_add_def)
    then show ?thesis by blast
  qed
  ultimately show ?thesis by (cases as) (auto simp: unique_def js_add_def)
qed

lemma languages_tail_subset:
  "x \<in> set (subtitle_preference_languages p) \<Longrightarrow>
     normalizeLanguage (or_else (pp_subtitleLanguage p) (pp_audioLanguage p)) = Some x
     \<or> x \<in> set (parseLanguageList (pp_subtitleFallbackLanguages p))"
  by (auto simp: subtitle_preference_languages_def set_unique split: option.splits)

lemma selected_subtitle_in:
  assumes "selectPreferredSubtitle subs p = Some s"
  shows "s \<in> set subs \<and> pp_subtitlesEnabled p"
proof -
  let ?m = "subtitle_languages subs" and ?audio = "normalizeLanguage (pp_audioLanguage p)"
  from assms obtain l where en: "pp_subtitlesEnabled p"
    and l: "normalizeLanguage (or_else (pp_subtitleLanguage p) (pp_audioLanguage p)) = Some l"
    by (auto simp: selectPreferredSubtitle_def Let_def split: if_splits option.splits)
  show ?thesis
  proof (cases "?audio = Some l")
    case True
    with assms en l show ?thesis
      by (auto simp: selectPreferredSubtitle_def Let_def dest!: find_someD split: if_splits)
  next
    case False
    with assms en l have "first_match (\<lambda>language. if Some language = ?audio then None
        else pickSubtitleInLanguage subs ?m language p) (subtitle_preference_languages p) = Some s"
      by (simp add: selectPreferredSubtitle_def Let_def)
    from first_match_some[OF this] obtain x where "pickSubtitleInLanguage subs ?m x p = Some s"
      by (elim exE conjE) (simp only: option.distinct split: if_splits)
    with en pickSubtitle_some show ?thesis by blast
  qed
qed

text \<open>
  Subtitles are shown only when they are enabled, and only in the preferred language or one
  of its fallbacks. A subtitle in the language of the audio is shown only when it is forced and
  forced subtitles are automatic. With forced subtitles only, none other is shown. When the
  preferred language is not the audio's and an acceptable subtitle has it, the shown one has it.
\<close>

theorem preferred_subtitle:
  assumes "selectPreferredSubtitle subs p = Some s" and "distinct (map sub_id subs)"
  shows "s \<in> set subs \<and> pp_subtitlesEnabled p
     \<and> (\<exists>l \<in> set (subtitle_preference_languages p). subtitle_language s = Some l)
     \<and> (subtitle_language s = normalizeLanguage (pp_audioLanguage p) \<longrightarrow> sub_isForced s \<and> pp_autoForcedSubtitles p)
     \<and> (pp_forcedSubtitlesOnly p \<longrightarrow> sub_isForced s)
     \<and> (\<forall>l x. normalizeLanguage (or_else (pp_subtitleLanguage p) (pp_audioLanguage p)) = Some l
          \<and> normalizeLanguage (pp_audioLanguage p) \<noteq> Some l \<and> x \<in> set subs \<and> acceptable p l x
          \<longrightarrow> subtitle_language s = Some l)"
proof -
  let ?m = "subtitle_languages subs" and ?audio = "normalizeLanguage (pp_audioLanguage p)"
  let ?pick = "\<lambda>language. if Some language = ?audio then None else pickSubtitleInLanguage subs ?m language p"
  note lang = looked_up_subtitle[OF assms(2)]
  from assms(1) obtain l where en: "pp_subtitlesEnabled p"
    and l: "normalizeLanguage (or_else (pp_subtitleLanguage p) (pp_audioLanguage p)) = Some l"
    by (auto simp: selectPreferredSubtitle_def Let_def split: if_splits option.splits)
  have lin: "l \<in> set (subtitle_preference_languages p)"
    by (simp add: subtitle_preference_languages_def l set_unique)
  show ?thesis
  proof (cases "?audio = Some l")
    case True
    with assms(1) en l have auto: "pp_autoForcedSubtitles p"
      and f: "find (\<lambda>s. sub_isForced s \<and> looked_up ?m (sub_id s) = Some l) subs = Some s"
      by (auto simp: selectPreferredSubtitle_def Let_def split: if_splits)
    from find_someD[OF f] have s: "s \<in> set subs" "sub_isForced s" "looked_up ?m (sub_id s) = Some l" by auto
    have sl: "subtitle_language s = Some l" using lang[OF s(1)] s(3) by simp
    then have "\<exists>l \<in> set (subtitle_preference_languages p). subtitle_language s = Some l" using lin by blast
    moreover have "\<forall>l' x. normalizeLanguage (or_else (pp_subtitleLanguage p) (pp_audioLanguage p)) = Some l'
        \<and> ?audio \<noteq> Some l' \<and> x \<in> set subs \<and> acceptable p l' x \<longrightarrow> subtitle_language s = Some l'"
      using l True by auto
    ultimately show ?thesis using s(1,2) en auto by (intro conjI impI)
  next
    case False
    with assms(1) en l have "first_match ?pick (subtitle_preference_languages p) = Some s"
      by (simp add: selectPreferredSubtitle_def Let_def)
    from first_match_some[OF this] obtain as x bs
      where split: "subtitle_preference_languages p = as @ x # bs" "?pick x = Some s"
      and none: "\<forall>a \<in> set as. ?pick a = None" by (elim exE conjE) (rule that)
    from split(2) have x: "Some x \<noteq> ?audio" and pick: "pickSubtitleInLanguage subs ?m x p = Some s"
      by (simp_all only: if_split_eq1 option.distinct simp_thms split: if_splits)
    from pickSubtitle_some[OF pick] have s: "s \<in> set subs" "looked_up ?m (sub_id s) = Some x"
      "pp_forcedSubtitlesOnly p \<longrightarrow> sub_isForced s" by auto
    have sl: "subtitle_language s = Some x" using lang[OF s(1)] s(2) by simp
    have first: "x = l" if y: "y \<in> set subs" "acceptable p l y" for y
    proof (rule ccontr)
      assume "x \<noteq> l"
      with split(1) l have "l \<in> set as"
        using unique_split_head[of l _ as x bs] by (auto simp: subtitle_preference_languages_def)
      with none False have "pickSubtitleInLanguage subs ?m l p = None" by (auto split: if_splits)
      from pickSubtitle_none[OF this y(1)] lang[OF y(1)] y(2) show False by (auto simp: acceptable_def)
    qed
    have xin: "x \<in> set (subtitle_preference_languages p)" using split(1) by simp
    show ?thesis
      using s(1,3) sl en x xin first l by auto
  qed
qed

definition sample_subtitles :: "subtitle list" where
  "sample_subtitles =
     [\<lparr>sub_id = ''s1'', sub_language = ''eng'', sub_isDefault = True, sub_isForced = False,
       sub_isHearingImpaired = False, sub_streamIndex = Some 3, sub_type = Embedded\<rparr>,
      \<lparr>sub_id = ''s2'', sub_language = ''ger'', sub_isDefault = False, sub_isForced = False,
       sub_isHearingImpaired = False, sub_streamIndex = None, sub_type = External\<rparr>]"

definition sample_preferences :: playback_preferences where
  "sample_preferences =
     \<lparr>pp_audioLanguage = Some ''eng'', pp_subtitleLanguage = Some ''pl'', pp_subtitleFallbackLanguages = Some ''en, DE'',
      pp_subtitlesEnabled = True, pp_forcedSubtitlesOnly = False, pp_autoForcedSubtitles = True,
      pp_preferHearingImpaired = False\<rparr>"

theorem preferred_subtitle_witness:
  "\<exists>s. selectPreferredSubtitle sample_subtitles sample_preferences = Some s \<and> sub_id s = ''s2'' \<and> s \<in> set sample_subtitles"
proof -
  have "map_option sub_id (selectPreferredSubtitle sample_subtitles sample_preferences) = Some ''s2''" by code_simp
  then obtain s where s: "selectPreferredSubtitle sample_subtitles sample_preferences = Some s" "sub_id s = ''s2''" by auto
  have "distinct (map sub_id sample_subtitles)" by (simp add: sample_subtitles_def)
  with preferred_subtitle[OF s(1)] s show ?thesis by blast
qed

text \<open>
  The language of a request beats the one of the profile, which beats the remembered
  language of the title: a remembered language never replaces one the profile sets.
\<close>

lemma language_precedence:
  "pp_subtitleLanguage (resolvePlaybackPreferences d prefs ov ti) =
     (if ov_subtitleLanguage ov \<noteq> None then ov_subtitleLanguage ov
      else if \<exists>p. prefs = Some p \<and> pr_subtitleLanguage p \<noteq> None then pr_subtitleLanguage (the prefs)
      else if \<exists>t. ti = Some t \<and> ti_subtitleLanguage t \<noteq> None then ti_subtitleLanguage (the ti)
      else pp_subtitleLanguage d)
   \<and> pp_audioLanguage (resolvePlaybackPreferences d prefs ov ti) =
     (if ov_audioLanguage ov \<noteq> None then ov_audioLanguage ov
      else if \<exists>p. prefs = Some p \<and> pr_audioLanguage p \<noteq> None then pr_audioLanguage (the prefs)
      else if \<exists>t. ti = Some t \<and> ti_audioLanguage t \<noteq> None then ti_audioLanguage (the ti)
      else pp_audioLanguage d)"
  by (cases prefs; cases ti; cases "ov_subtitleLanguage ov"; cases "ov_audioLanguage ov")
    (auto simp: resolvePlaybackPreferences_def not_None_eq or_else_some or_else_none intro!: or_else.simps
       split: option.splits elim!: option.exhaust)

end
