(* ===== verification/Playback_Decision.thy ===== *)
theory Playback_Decision
  imports Stream_Preferences Complex_Main
begin

section \<open>Playback decisions\<close>

text \<open>
  Whether a file is remuxed or transcoded for a client:
  \<^verbatim>\<open>streaming/decisions/codec-maps.constants.ts\<close>,
  \<^verbatim>\<open>streaming/decisions/playback-decision.resolver.ts\<close>,
  \<^verbatim>\<open>streaming/ffmpeg/software-fallback.policy.ts\<close> and the capability parser of
  \<^verbatim>\<open>streaming/sessions/session-request.mapper.ts\<close>. Bit rates are rationals until they are
  rounded. The server's per-stream limit and the default capabilities of the SDK are arguments.
\<close>

subsection \<open>Codecs\<close>

definition VIDEO_CODEC_MAP :: "(string, string) jsmap" where
  "VIDEO_CODEC_MAP =
     [(''h264'', ''h264''), (''avc'', ''h264''), (''avc1'', ''h264''), (''h265'', ''h265''), (''hevc'', ''h265''),
      (''hvc1'', ''h265''), (''av1'', ''av1''), (''av01'', ''av1''), (''vp9'', ''vp9''), (''vp09'', ''vp9''),
      (''vp8'', ''vp8''), (''vp08'', ''vp8''), (''mpeg2video'', ''mpeg2''), (''mpeg4'', ''mpeg4''),
      (''xvid'', ''mpeg4''), (''divx'', ''mpeg4''), (''wmv3'', ''wmv'')]"

definition AUDIO_CODEC_MAP :: "(string, string) jsmap" where
  "AUDIO_CODEC_MAP =
     [(''aac'', ''aac''), (''mp3'', ''mp3''), (''mp2'', ''mp3''), (''opus'', ''opus''), (''vorbis'', ''vorbis''),
      (''ac3'', ''ac3''), (''eac3'', ''eac3''), (''e-ac-3'', ''eac3''), (''truehd'', ''truehd''), (''dts'', ''dts''),
      (''dca'', ''dts''), (''dtshd'', ''dts''), (''flac'', ''flac''), (''pcm_s16le'', ''pcm''), (''pcm_s24le'', ''pcm''),
      (''pcm_s32le'', ''pcm''), (''alac'', ''alac'')]"

definition normalizeCodec :: "string option \<Rightarrow> (string, string) jsmap \<Rightarrow> string option" where
  "normalizeCodec codec m =
     (case codec of None \<Rightarrow> None
      | Some c \<Rightarrow> if c = [] then None else Some (or_value (map_of m (to_lower c)) (to_lower c)))"

definition HDR_TRANSFER_ALLOWLIST :: "string list" where
  "HDR_TRANSFER_ALLOWLIST = [''smpte2084'', ''arib-std-b67'']"

subsection \<open>Text patterns\<close>

definition starts_with :: "string \<Rightarrow> string \<Rightarrow> bool" where
  "starts_with p s \<longleftrightarrow> take (length p) s = p"

definition ends_with :: "string \<Rightarrow> string \<Rightarrow> bool" where
  "ends_with p s \<longleftrightarrow> starts_with (rev p) (rev s)"

fun some_tail :: "(string \<Rightarrow> bool) \<Rightarrow> string \<Rightarrow> bool" where
  "some_tail P [] = P []"
| "some_tail P (x # xs) = (P (x # xs) \<or> some_tail P xs)"

text \<open>The case-insensitive patterns \<^verbatim>\<open>(?:10)(?:le|be)$|p010\<close>, the same for 12 bits, and \<^verbatim>\<open>high\s*10\<close>.\<close>

definition bit_depth_pattern :: "string \<Rightarrow> string \<Rightarrow> string \<Rightarrow> bool" where
  "bit_depth_pattern depth packed s =
     (let l = to_lower s in ends_with (depth @ ''le'') l \<or> ends_with (depth @ ''be'') l \<or> some_tail (starts_with packed) l)"

definition TEN_BIT_PIXEL_FORMAT_REGEX :: "string \<Rightarrow> bool" where
  "TEN_BIT_PIXEL_FORMAT_REGEX = bit_depth_pattern ''10'' ''p010''"

definition TWELVE_BIT_PIXEL_FORMAT_REGEX :: "string \<Rightarrow> bool" where
  "TWELVE_BIT_PIXEL_FORMAT_REGEX = bit_depth_pattern ''12'' ''p016''"

definition HIGH_TEN_H264_PROFILE_REGEX :: "string \<Rightarrow> bool" where
  "HIGH_TEN_H264_PROFILE_REGEX s =
     some_tail (\<lambda>t. starts_with ''high'' t \<and> starts_with ''10'' (dropWhile is_space (drop 4 t))) (to_lower s)"

subsection \<open>Inputs and the verdict on the video\<close>

record media_file_info =
  mf_videoCodec :: "string option"
  mf_audioCodec :: "string option"
  mf_audioChannels :: "int option"
  mf_bitRate :: "rat option"
  mf_formatName :: "string option"
  mf_durationSeconds :: "rat option"
  mf_sourceFps :: "string option"
  mf_videoProfile :: "string option"
  mf_videoPixelFormat :: "string option"
  mf_videoColorTransfer :: "string option"
  mf_doviProfile :: "int option"

record client_capabilities =
  cc_videoCodecs :: "string list"
  cc_audioCodecs :: "string list"
  cc_hdrTransfers :: "string list option"
  cc_maxBitrate :: "rat option"

definition parseCapabilities ::
  "client_capabilities \<Rightarrow> string option \<Rightarrow> string option \<Rightarrow> rat option \<Rightarrow> string option \<Rightarrow> client_capabilities" where
  "parseCapabilities defaults videoCodecs audioCodecs maxBitrate hdrTransfers =
     (let v = parseList videoCodecs; a = parseList audioCodecs in
      \<lparr>cc_videoCodecs = (if v \<noteq> [] then v else cc_videoCodecs defaults),
       cc_audioCodecs = (if a \<noteq> [] then a else cc_audioCodecs defaults),
       cc_hdrTransfers = Some (filter (\<lambda>t. t \<in> set HDR_TRANSFER_ALLOWLIST) (parseList hdrTransfers)),
       cc_maxBitrate = maxBitrate\<rparr>)"

record video_verdict =
  vv_videoOk :: bool
  vv_isHdr :: bool
  vv_hdrTransfer :: "string option"
  vv_hdrLabel :: string
  vv_hdrPassthrough :: bool
  vv_isHighTenH264 :: bool
  vv_isTwelveBit :: bool
  vv_bitDepthUnsupported :: bool

definition buildCodecSet :: "string list \<Rightarrow> string list" where
  "buildCodecSet codecs = map to_lower codecs"

definition resolveHdrLabel :: "int option \<Rightarrow> string option \<Rightarrow> string" where
  "resolveHdrLabel doviProfile hdrTransfer =
     (case doviProfile of Some p \<Rightarrow> ''DV'' @ show_int p
      | None \<Rightarrow> if hdrTransfer = Some ''arib-std-b67'' then ''HLG'' else ''HDR10'')"

definition resolvePassthroughTransfer :: "int option \<Rightarrow> string option \<Rightarrow> string option" where
  "resolvePassthroughTransfer doviProfile hdrTransfer =
     (case doviProfile of None \<Rightarrow> hdrTransfer | Some p \<Rightarrow> if p = 8 then Some ''smpte2084'' else None)"

definition judgeVideo :: "media_file_info \<Rightarrow> string option \<Rightarrow> client_capabilities \<Rightarrow> video_verdict" where
  "judgeVideo file videoCodec capabilities =
     (let videoCodecSet = set (buildCodecSet (cc_videoCodecs capabilities));
          pixelFormat = or_value (mf_videoPixelFormat file) [];
          isTwelveBit = TWELVE_BIT_PIXEL_FORMAT_REGEX pixelFormat;
          isTenBit = TEN_BIT_PIXEL_FORMAT_REGEX pixelFormat;
          reportsTenBit = (case videoCodec of None \<Rightarrow> False
             | Some c \<Rightarrow> c = ''av1'' \<or> c @ ''-10bit'' \<in> videoCodecSet);
          bitDepthUnsupported = (isTwelveBit \<or> (isTenBit \<and> \<not> reportsTenBit));
          isHighTenH264 = (videoCodec = Some ''h264'' \<and> HIGH_TEN_H264_PROFILE_REGEX (or_value (mf_videoProfile file) []));
          hdrTransfer = (case mf_videoColorTransfer file of None \<Rightarrow> None
             | Some t \<Rightarrow> if to_lower t \<in> set HDR_TRANSFER_ALLOWLIST then Some (to_lower t) else None);
          isHdr = (hdrTransfer \<noteq> None \<or> mf_doviProfile file \<noteq> None);
          passthroughTransfer = resolvePassthroughTransfer (mf_doviProfile file) hdrTransfer;
          hdrPassthrough = (isHdr \<and> (case passthroughTransfer of None \<Rightarrow> False
             | Some t \<Rightarrow> t \<in> set (or_value (cc_hdrTransfers capabilities) [])));
          videoOk = ((case videoCodec of None \<Rightarrow> True | Some c \<Rightarrow> c = [] \<or> c \<in> videoCodecSet)
             \<and> \<not> bitDepthUnsupported \<and> \<not> isHighTenH264 \<and> (\<not> isHdr \<or> hdrPassthrough))
      in \<lparr>vv_videoOk = videoOk, vv_isHdr = isHdr, vv_hdrTransfer = hdrTransfer,
          vv_hdrLabel = resolveHdrLabel (mf_doviProfile file) hdrTransfer, vv_hdrPassthrough = hdrPassthrough,
          vv_isHighTenH264 = isHighTenH264, vv_isTwelveBit = isTwelveBit, vv_bitDepthUnsupported = bitDepthUnsupported\<rparr>)"

subsection \<open>Reasons\<close>

definition bitDepthSuffix :: "video_verdict \<Rightarrow> string" where
  "bitDepthSuffix video =
     (if vv_isHighTenH264 video then '' High10''
      else if vv_isTwelveBit video then '' 12-bit''
      else if vv_bitDepthUnsupported video then '' 10-bit'' else [])"

text \<open>The arrow of the messages, U+2192 in UTF-8.\<close>

definition arrow :: string where
  "arrow = [CHR 0xE2, CHR 0x86, CHR 0x92]"

definition truthy :: "int option \<Rightarrow> bool" where
  "truthy n \<longleftrightarrow> n \<noteq> None \<and> n \<noteq> Some 0"

definition bitrateSuffix :: "int option \<Rightarrow> string option \<Rightarrow> string" where
  "bitrateSuffix videoBitrateKbps bandwidthCappedReason =
     (if \<not> truthy videoBitrateKbps then []
      else '' ('' @ show_int (the videoBitrateKbps) @ ''kbps'' @
        (case bandwidthCappedReason of None \<Rightarrow> [] | Some r \<Rightarrow> if r = [] then [] else '' ['' @ r @ '']'') @ '')'')"

definition videoTranscodeReason :: "video_verdict \<Rightarrow> string \<Rightarrow> string \<Rightarrow> string \<Rightarrow> bool \<Rightarrow> string" where
  "videoTranscodeReason video displayVideoCodec depth bitrate toneMapAvailable =
     (if \<not> vv_isHdr video then ''video:'' @ displayVideoCodec @ depth @ '' '' @ arrow @ '' H.264'' @ bitrate
      else ''video:'' @ displayVideoCodec @ '' '' @ vv_hdrLabel video @ depth @ '' '' @ arrow @ '' H.264'' @ bitrate @ '', '' @
        (if toneMapAvailable then ''tone-mapped to SDR'' else ''no tone-mapping available''))"

datatype reason_param = Text "string option" | Number "int option" | Flag bool

record reason_part =
  rp_code :: string
  rp_params :: "(string \<times> reason_param) list"

definition videoReasonPart ::
  "video_verdict \<Rightarrow> bool \<Rightarrow> string option \<Rightarrow> string \<Rightarrow> int option \<Rightarrow> bool \<Rightarrow> reason_part" where
  "videoReasonPart video videoTranscode videoCodec depth videoBitrateKbps toneMapAvailable =
     (if \<not> videoTranscode then \<lparr>rp_code = ''video.copy'', rp_params = [(''codec'', Text videoCodec)]\<rparr>
      else if vv_isHdr video then
        \<lparr>rp_code = ''video.transcode_hdr'',
         rp_params = [(''codec'', Text videoCodec), (''hdr'', Text (Some (vv_hdrLabel video))),
           (''bitrateKbps'', Number videoBitrateKbps), (''toneMapped'', Flag toneMapAvailable)]\<rparr>
      else
        \<lparr>rp_code = ''video.transcode'',
         rp_params = [(''codec'', Text videoCodec),
           (''bitDepth'', Text (if trim_text depth = [] then None else Some (trim_text depth))),
           (''bitrateKbps'', Number videoBitrateKbps)]\<rparr>)"

subsection \<open>The bit rate\<close>

text \<open>The plan is the effective rate and the reason of a cap.\<close>

definition planBitrate :: "int option \<Rightarrow> int option \<Rightarrow> int \<Rightarrow> int option \<times> string option" where
  "planBitrate clientRequestedBitrate sourceBitrateKbps serverPerStreamLimit =
     (if truthy clientRequestedBitrate then
        (let requested = the clientRequestedBitrate;
             effective = (if serverPerStreamLimit > 0 then min requested serverPerStreamLimit else requested)
         in (case sourceBitrateKbps of
               Some b \<Rightarrow> (if b \<le> effective then None else Some effective, None)
             | None \<Rightarrow> (Some effective, None)))
      else if serverPerStreamLimit > 0 \<and> truthy sourceBitrateKbps \<and> the sourceBitrateKbps > serverPerStreamLimit then
        (Some serverPerStreamLimit,
         Some (''source bitrate ('' @ show_int (the sourceBitrateKbps) @ ''kbps) exceeds server bandwidth limit ('' @
           show_int serverPerStreamLimit @ ''kbps)''))
      else (None, None))"

subsection \<open>The decision\<close>

datatype stream_mode = Direct_stream | Transcode

record playback_decision =
  pd_mode :: stream_mode
  pd_videoTranscode :: bool
  pd_audioTranscode :: bool
  pd_videoCodec :: "string option"
  pd_videoBitrateKbps :: "int option"
  pd_tonemap :: "bool option"
  pd_tonemapTransfer :: "string option"
  pd_audioStreamIndex :: "int option"
  pd_audioChannels :: "int option"
  pd_hdrPassthrough :: bool
  pd_forceSoftware :: bool
  pd_reason :: string
  pd_videoReason :: reason_part
  pd_audioReason :: reason_part
  pd_formatName :: "string option"
  pd_durationSeconds :: "rat option"
  pd_sourceFps :: "string option"

definition directStreamDecision ::
  "media_file_info \<Rightarrow> int option \<Rightarrow> string option \<Rightarrow> string option \<Rightarrow> video_verdict \<Rightarrow> playback_decision" where
  "directStreamDecision file audioStreamIndex videoCodec audioCodec video =
     (let displayVideoCodec = or_value videoCodec ''?''; displayAudioCodec = or_value audioCodec ''?'' in
      \<lparr>pd_mode = Direct_stream, pd_videoTranscode = False, pd_audioTranscode = False, pd_videoCodec = videoCodec,
       pd_videoBitrateKbps = None, pd_tonemap = None, pd_tonemapTransfer = None,
       pd_audioStreamIndex = audioStreamIndex, pd_audioChannels = mf_audioChannels file,
       pd_hdrPassthrough = vv_hdrPassthrough video, pd_forceSoftware = False,
       pd_reason = ''Remuxing to fMP4 HLS (video:'' @ displayVideoCodec @
         (if vv_hdrPassthrough video then '' '' @ vv_hdrLabel video @ '' passthrough'' else []) @
         '' + audio:'' @ displayAudioCodec @ '' copied)'',
       pd_videoReason =
         (if vv_hdrPassthrough video
          then \<lparr>rp_code = ''video.copy_hdr'', rp_params = [(''codec'', Text videoCodec), (''hdr'', Text (Some (vv_hdrLabel video)))]\<rparr>
          else \<lparr>rp_code = ''video.copy'', rp_params = [(''codec'', Text videoCodec)]\<rparr>),
       pd_audioReason = \<lparr>rp_code = ''audio.copy'', rp_params = [(''codec'', Text audioCodec)]\<rparr>,
       pd_formatName = mf_formatName file, pd_durationSeconds = mf_durationSeconds file, pd_sourceFps = mf_sourceFps file\<rparr>)"

definition transcodeDecision ::
  "media_file_info \<Rightarrow> int option \<Rightarrow> string option \<Rightarrow> string option \<Rightarrow> video_verdict \<Rightarrow> bool \<Rightarrow> int option
     \<Rightarrow> string option \<Rightarrow> bool \<Rightarrow> playback_decision" where
  "transcodeDecision file audioStreamIndex videoCodec audioCodec video audioTranscode videoBitrateKbps
       bandwidthCappedReason toneMapAvailable =
     (let displayVideoCodec = or_value videoCodec ''?''; displayAudioCodec = or_value audioCodec ''?'';
          videoTranscode = (\<not> vv_videoOk video \<or> truthy videoBitrateKbps);
          depthSuffix = bitDepthSuffix video;
          rateSuffix = bitrateSuffix videoBitrateKbps bandwidthCappedReason;
          videoReason = (if videoTranscode
             then videoTranscodeReason video displayVideoCodec depthSuffix rateSuffix toneMapAvailable
             else ''video:'' @ displayVideoCodec @ '' copied'');
          audioReason = (if audioTranscode then ''audio:'' @ displayAudioCodec @ '' '' @ arrow @ '' AAC''
             else ''audio:'' @ displayAudioCodec @ '' copied'')
      in \<lparr>pd_mode = Transcode, pd_videoTranscode = videoTranscode, pd_audioTranscode = audioTranscode,
          pd_videoCodec = videoCodec, pd_videoBitrateKbps = videoBitrateKbps,
          pd_tonemap = Some (vv_isHdr video),
          pd_tonemapTransfer = (if vv_isHdr video then Some (or_value (vv_hdrTransfer video) ''smpte2084'') else None),
          pd_audioStreamIndex = audioStreamIndex, pd_audioChannels = mf_audioChannels file,
          pd_hdrPassthrough = False, pd_forceSoftware = False,
          pd_reason = videoReason @ ''; '' @ audioReason,
          pd_videoReason = videoReasonPart video videoTranscode videoCodec depthSuffix videoBitrateKbps toneMapAvailable,
          pd_audioReason = (if audioTranscode then \<lparr>rp_code = ''audio.transcode'', rp_params = [(''codec'', Text audioCodec)]\<rparr>
             else \<lparr>rp_code = ''audio.copy'', rp_params = [(''codec'', Text audioCodec)]\<rparr>),
          pd_formatName = mf_formatName file, pd_durationSeconds = mf_durationSeconds file,
          pd_sourceFps = mf_sourceFps file\<rparr>)"

text \<open>\<^verbatim>\<open>Math.round\<close> rounds a half up.\<close>

definition math_round :: "rat \<Rightarrow> int" where
  "math_round x = \<lfloor>x + 1 / 2\<rfloor>"

definition requested_bitrate :: "client_capabilities \<Rightarrow> int option" where
  "requested_bitrate capabilities =
     (case cc_maxBitrate capabilities of None \<Rightarrow> None | Some b \<Rightarrow> if b > 0 then Some \<lfloor>b\<rfloor> else None)"

definition source_bitrate :: "media_file_info \<Rightarrow> int option" where
  "source_bitrate file =
     (case mf_bitRate file of None \<Rightarrow> None | Some b \<Rightarrow> if b = 0 then None else Some (math_round (b / 1000)))"

definition decidePlaybackMode ::
  "int \<Rightarrow> media_file_info \<Rightarrow> client_capabilities \<Rightarrow> int option \<Rightarrow> bool \<Rightarrow> playback_decision" where
  "decidePlaybackMode serverPerStreamLimit file capabilities audioStreamIndex toneMapAvailable =
     (let videoCodec = normalizeCodec (mf_videoCodec file) VIDEO_CODEC_MAP;
          audioCodec = normalizeCodec (mf_audioCodec file) AUDIO_CODEC_MAP;
          video = judgeVideo file videoCodec capabilities;
          audioOk = (case audioCodec of None \<Rightarrow> True
             | Some c \<Rightarrow> c = [] \<or> c \<in> set (buildCodecSet (cc_audioCodecs capabilities)));
          audioTranscode = (\<not> audioOk)
      in case planBitrate (requested_bitrate capabilities) (source_bitrate file) serverPerStreamLimit of
           (videoBitrateKbps, bandwidthCappedReason) \<Rightarrow>
             if vv_videoOk video \<and> \<not> audioTranscode \<and> \<not> truthy videoBitrateKbps
             then directStreamDecision file audioStreamIndex videoCodec audioCodec video
             else transcodeDecision file audioStreamIndex videoCodec audioCodec video audioTranscode
               videoBitrateKbps bandwidthCappedReason toneMapAvailable)"

definition isSoftwareFallbackEligible :: "playback_decision \<Rightarrow> string \<Rightarrow> bool" where
  "isSoftwareFallbackEligible decision hwaccelType \<longleftrightarrow>
     pd_mode decision = Transcode \<and> pd_videoTranscode decision \<and> \<not> pd_forceSoftware decision \<and> hwaccelType \<noteq> ''none''"

definition usesSoftwareVideoEncode :: "playback_decision \<Rightarrow> string \<Rightarrow> bool" where
  "usesSoftwareVideoEncode decision hwaccelType \<longleftrightarrow>
     pd_videoTranscode decision \<and> (pd_forceSoftware decision \<or> hwaccelType = ''none'')"

subsection \<open>What a client can play as it is\<close>

text \<open>The reference: the demands on the client and on the rate, one by one.\<close>

definition ten_bit_reported :: "client_capabilities \<Rightarrow> string \<Rightarrow> bool" where
  "ten_bit_reported cap c \<longleftrightarrow> c = ''av1'' \<or> c @ ''-10bit'' \<in> to_lower ` set (cc_videoCodecs cap)"

definition decodable_video :: "media_file_info \<Rightarrow> client_capabilities \<Rightarrow> bool" where
  "decodable_video file cap \<longleftrightarrow>
     (let px = or_value (mf_videoPixelFormat file) [];
          ten = TEN_BIT_PIXEL_FORMAT_REGEX px in
      \<not> TWELVE_BIT_PIXEL_FORMAT_REGEX px \<and>
      (case normalizeCodec (mf_videoCodec file) VIDEO_CODEC_MAP of
         None \<Rightarrow> \<not> ten
       | Some c \<Rightarrow> c \<in> to_lower ` set (cc_videoCodecs cap) \<and> (ten \<longrightarrow> ten_bit_reported cap c)
           \<and> \<not> (c = ''h264'' \<and> HIGH_TEN_H264_PROFILE_REGEX (or_value (mf_videoProfile file) []))))"

definition decodable_audio :: "media_file_info \<Rightarrow> client_capabilities \<Rightarrow> bool" where
  "decodable_audio file cap \<longleftrightarrow>
     (case normalizeCodec (mf_audioCodec file) AUDIO_CODEC_MAP of
        None \<Rightarrow> True | Some c \<Rightarrow> c \<in> to_lower ` set (cc_audioCodecs cap))"

definition hdr_transfer :: "media_file_info \<Rightarrow> string option" where
  "hdr_transfer file =
     (case mf_videoColorTransfer file of None \<Rightarrow> None
      | Some t \<Rightarrow> if to_lower t \<in> set HDR_TRANSFER_ALLOWLIST then Some (to_lower t) else None)"

definition is_hdr :: "media_file_info \<Rightarrow> bool" where
  "is_hdr file \<longleftrightarrow> hdr_transfer file \<noteq> None \<or> mf_doviProfile file \<noteq> None"

definition renders_hdr :: "media_file_info \<Rightarrow> client_capabilities \<Rightarrow> bool" where
  "renders_hdr file cap \<longleftrightarrow>
     (\<exists>t \<in> set (or_value (cc_hdrTransfers cap) []).
        mf_doviProfile file = None \<and> hdr_transfer file = Some t
        \<or> mf_doviProfile file = Some 8 \<and> t = ''smpte2084'')"

definition fits_bitrate :: "int \<Rightarrow> media_file_info \<Rightarrow> client_capabilities \<Rightarrow> bool" where
  "fits_bitrate limit file cap \<longleftrightarrow>
     (case source_bitrate file of
        None \<Rightarrow> \<not> truthy (requested_bitrate cap)
      | Some b \<Rightarrow> (limit > 0 \<longrightarrow> b \<le> limit) \<and> (truthy (requested_bitrate cap) \<longrightarrow> b \<le> the (requested_bitrate cap)))"

lemma normalizeCodec_some:
  assumes "normalizeCodec c m = Some x" and "[] \<notin> snd ` set m"
  shows "x \<noteq> []"
proof -
  from assms(1) obtain t where t: "c = Some t" "t \<noteq> []" "x = or_value (map_of m (to_lower t)) (to_lower t)"
    by (auto simp: normalizeCodec_def split: option.splits if_splits)
  show ?thesis
  proof (cases "map_of m (to_lower t)")
    case None
    with t show ?thesis by (simp add: or_value_def to_lower_def)
  next
    case (Some v)
    then have "v \<in> snd ` set m" by (force dest: map_of_SomeD)
    with assms(2) have "v \<noteq> []" by blast
    with Some t show ?thesis by (simp add: or_value_def)
  qed
qed

lemma codec_maps_nonempty: "[] \<notin> snd ` set VIDEO_CODEC_MAP" "[] \<notin> snd ` set AUDIO_CODEC_MAP"
  by (simp_all add: VIDEO_CODEC_MAP_def AUDIO_CODEC_MAP_def)

lemma judgeVideo_hdr:
  "vv_isHdr (judgeVideo file c cap) = is_hdr file" "vv_hdrTransfer (judgeVideo file c cap) = hdr_transfer file"
  "vv_hdrPassthrough (judgeVideo file c cap) = (is_hdr file \<and> renders_hdr file cap)"
  by (auto simp: judgeVideo_def Let_def is_hdr_def hdr_transfer_def renders_hdr_def resolvePassthroughTransfer_def
      split: option.splits if_splits)

lemma judgeVideo_ok:
  assumes "c = normalizeCodec (mf_videoCodec file) VIDEO_CODEC_MAP"
  shows "vv_videoOk (judgeVideo file c cap) \<longleftrightarrow> decodable_video file cap \<and> (is_hdr file \<longrightarrow> renders_hdr file cap)"
proof -
  have ok: "vv_videoOk (judgeVideo file c cap) \<longleftrightarrow>
      (case c of None \<Rightarrow> True | Some x \<Rightarrow> x = [] \<or> x \<in> to_lower ` set (cc_videoCodecs cap))
      \<and> \<not> (TWELVE_BIT_PIXEL_FORMAT_REGEX (or_value (mf_videoPixelFormat file) [])
           \<or> TEN_BIT_PIXEL_FORMAT_REGEX (or_value (mf_videoPixelFormat file) [])
             \<and> \<not> (case c of None \<Rightarrow> False | Some x \<Rightarrow> ten_bit_reported cap x))
      \<and> \<not> (c = Some ''h264'' \<and> HIGH_TEN_H264_PROFILE_REGEX (or_value (mf_videoProfile file) []))
      \<and> (is_hdr file \<longrightarrow> vv_hdrPassthrough (judgeVideo file c cap))"
    by (cases c) (simp_all add: judgeVideo_def Let_def is_hdr_def hdr_transfer_def buildCodecSet_def ten_bit_reported_def
        del: not_None_eq)
  have "c = Some x \<Longrightarrow> x \<noteq> []" for x
    using normalizeCodec_some[OF _ codec_maps_nonempty(1)] assms by metis
  then show ?thesis
    unfolding ok judgeVideo_hdr decodable_video_def Let_def assms[symmetric]
    by (cases c) auto
qed

lemma planBitrate_result:
  assumes "planBitrate req src limit = (k, r)" and "\<And>q. req = Some q \<Longrightarrow> q \<ge> 0"
  shows "truthy k \<longleftrightarrow> \<not> (case src of None \<Rightarrow> \<not> truthy req
       | Some b \<Rightarrow> (limit > 0 \<longrightarrow> b \<le> limit) \<and> (truthy req \<longrightarrow> b \<le> the req))"
    and "k = Some n \<Longrightarrow> n > 0 \<and> (limit > 0 \<longrightarrow> n \<le> limit) \<and> (\<forall>q. req = Some q \<and> q \<noteq> 0 \<longrightarrow> n \<le> q) \<and> (\<forall>b. src = Some b \<longrightarrow> n < b)"
proof -
  have pos: "truthy req \<Longrightarrow> \<exists>q. req = Some q \<and> q > 0"
    using assms(2) by (cases req) (force simp: truthy_def)+
  show "truthy k \<longleftrightarrow> \<not> (case src of None \<Rightarrow> \<not> truthy req
       | Some b \<Rightarrow> (limit > 0 \<longrightarrow> b \<le> limit) \<and> (truthy req \<longrightarrow> b \<le> the req))"
    using assms(1) pos
    by (cases "truthy req"; cases src) (auto simp: planBitrate_def truthy_def Let_def split: if_splits)
  show "k = Some n \<Longrightarrow> n > 0 \<and> (limit > 0 \<longrightarrow> n \<le> limit) \<and> (\<forall>q. req = Some q \<and> q \<noteq> 0 \<longrightarrow> n \<le> q) \<and> (\<forall>b. src = Some b \<longrightarrow> n < b)"
    using assms(1) pos
    by (cases "truthy req"; cases src) (auto simp: planBitrate_def truthy_def Let_def split: if_splits)
qed

lemma requested_nonneg: "requested_bitrate cap = Some q \<Longrightarrow> q \<ge> 0"
  by (auto simp: requested_bitrate_def split: option.splits if_splits)

lemma decidePlaybackMode_flags:
  assumes d_def: "d = decidePlaybackMode limit file cap idx tm"
  shows "pd_videoTranscode d \<longleftrightarrow> \<not> (decodable_video file cap \<and> (is_hdr file \<longrightarrow> renders_hdr file cap) \<and> fits_bitrate limit file cap)"
    and "pd_audioTranscode d \<longleftrightarrow> \<not> decodable_audio file cap"
    and "pd_mode d = Direct_stream \<longleftrightarrow> \<not> pd_videoTranscode d \<and> \<not> pd_audioTranscode d"
    and "pd_videoBitrateKbps d = Some n \<Longrightarrow> n > 0 \<and> (limit > 0 \<longrightarrow> n \<le> limit)
      \<and> (\<forall>q. requested_bitrate cap = Some q \<and> q \<noteq> 0 \<longrightarrow> n \<le> q) \<and> (\<forall>b. source_bitrate file = Some b \<longrightarrow> n < b)"
    and "pd_mode d = Transcode \<Longrightarrow> pd_tonemap d = Some (is_hdr file) \<and> \<not> pd_hdrPassthrough d"
    and "pd_mode d = Direct_stream \<Longrightarrow> pd_hdrPassthrough d = is_hdr file"
proof -
  obtain k r where plan: "planBitrate (requested_bitrate cap) (source_bitrate file) limit = (k, r)" by fastforce
  let ?v = "normalizeCodec (mf_videoCodec file) VIDEO_CODEC_MAP" and ?a = "normalizeCodec (mf_audioCodec file) AUDIO_CODEC_MAP"
  let ?j = "judgeVideo file ?v cap"
  note fits = planBitrate_result(1)[OF plan requested_nonneg, folded fits_bitrate_def]
  have ok: "vv_videoOk ?j \<longleftrightarrow> decodable_video file cap \<and> (is_hdr file \<longrightarrow> renders_hdr file cap)"
    by (rule judgeVideo_ok[OF refl])
  have audio: "(case ?a of None \<Rightarrow> True | Some c \<Rightarrow> c = [] \<or> c \<in> set (buildCodecSet (cc_audioCodecs cap))) \<longleftrightarrow> decodable_audio file cap"
    using normalizeCodec_some[OF _ codec_maps_nonempty(2)]
    by (fastforce simp: decodable_audio_def buildCodecSet_def split: option.splits)
  have d: "d = (if vv_videoOk ?j \<and> decodable_audio file cap \<and> \<not> truthy k then directStreamDecision file idx ?v ?a ?j
      else transcodeDecision file idx ?v ?a ?j (\<not> decodable_audio file cap) k r tm)"
    by (simp add: d_def decidePlaybackMode_def Let_def plan audio)
  note defs = directStreamDecision_def transcodeDecision_def Let_def
  show "pd_videoTranscode d \<longleftrightarrow> \<not> (decodable_video file cap \<and> (is_hdr file \<longrightarrow> renders_hdr file cap) \<and> fits_bitrate limit file cap)"
    using fits ok by (auto simp: d defs)
  show "pd_audioTranscode d \<longleftrightarrow> \<not> decodable_audio file cap" by (simp add: d defs)
  show "pd_mode d = Direct_stream \<longleftrightarrow> \<not> pd_videoTranscode d \<and> \<not> pd_audioTranscode d" by (auto simp: d defs)
  show "pd_videoBitrateKbps d = Some n \<Longrightarrow> n > 0 \<and> (limit > 0 \<longrightarrow> n \<le> limit)
      \<and> (\<forall>q. requested_bitrate cap = Some q \<and> q \<noteq> 0 \<longrightarrow> n \<le> q) \<and> (\<forall>b. source_bitrate file = Some b \<longrightarrow> n < b)"
    using planBitrate_result(2)[OF plan requested_nonneg] by (auto simp: d defs split: if_splits)
  show "pd_mode d = Transcode \<Longrightarrow> pd_tonemap d = Some (is_hdr file) \<and> \<not> pd_hdrPassthrough d"
    by (auto simp: d defs judgeVideo_hdr split: if_splits)
  show "pd_mode d = Direct_stream \<Longrightarrow> pd_hdrPassthrough d = is_hdr file"
    using ok by (auto simp: d defs judgeVideo_hdr split: if_splits)
qed

text \<open>
  C11. A stream is re-encoded exactly when it has to be: the video when the client cannot decode
  it, cannot render its HDR, or the file does not fit the rate limits; the audio when the client
  cannot decode it; and the file is remuxed untouched when neither is. A remux of an HDR file is
  always announced as an HDR passthrough.
\<close>

theorem decision_is_minimal:
  "pd_videoTranscode (decidePlaybackMode limit file cap idx tm) =
     (\<not> (decodable_video file cap \<and> (\<not> is_hdr file \<or> renders_hdr file cap) \<and> fits_bitrate limit file cap))
   \<and> pd_audioTranscode (decidePlaybackMode limit file cap idx tm) = (\<not> decodable_audio file cap)
   \<and> (pd_mode (decidePlaybackMode limit file cap idx tm) = Direct_stream) =
       (decodable_video file cap \<and> decodable_audio file cap \<and> (\<not> is_hdr file \<or> renders_hdr file cap) \<and> fits_bitrate limit file cap)
   \<and> pd_hdrPassthrough (decidePlaybackMode limit file cap idx tm) =
       (pd_mode (decidePlaybackMode limit file cap idx tm) = Direct_stream \<and> is_hdr file)"
  using decidePlaybackMode_flags[OF refl, of limit _ cap idx tm]
    stream_mode.exhaust[of "pd_mode (decidePlaybackMode limit file cap idx tm)"]
  by blast

theorem decision_is_minimal_witness:
  "pd_mode (decidePlaybackMode 0
       \<lparr>mf_videoCodec = Some ''HEVC'', mf_audioCodec = Some ''aac'', mf_audioChannels = Some 2, mf_bitRate = Some 4000000,
        mf_formatName = None, mf_durationSeconds = None, mf_sourceFps = None, mf_videoProfile = None,
        mf_videoPixelFormat = Some ''yuv420p'', mf_videoColorTransfer = None, mf_doviProfile = None\<rparr>
       \<lparr>cc_videoCodecs = [''H265''], cc_audioCodecs = [''aac''], cc_hdrTransfers = None, cc_maxBitrate = Some 5000\<rparr>
       (Some 1) True) = Direct_stream"
  unfolding conjunct1[OF conjunct2[OF conjunct2[OF decision_is_minimal]]]
  by code_simp

text \<open>
  The rate of a re-encoded video is positive, stays within the server's limit and within the
  rate the client asked for, and is always lower than the rate of the source.
\<close>

theorem bitrate_within_limits:
  assumes "pd_videoBitrateKbps (decidePlaybackMode limit file cap idx tm) = Some n"
  shows "n > 0 \<and> (limit > 0 \<longrightarrow> n \<le> limit)
     \<and> (\<forall>q. requested_bitrate cap = Some q \<and> q \<noteq> 0 \<longrightarrow> n \<le> q)
     \<and> (\<forall>b. source_bitrate file = Some b \<longrightarrow> n < b)
     \<and> pd_videoTranscode (decidePlaybackMode limit file cap idx tm)"
proof -
  note flags = decidePlaybackMode_flags[OF refl, of limit _ cap idx tm]
  have n: "n > 0 \<and> (limit > 0 \<longrightarrow> n \<le> limit) \<and> (\<forall>q. requested_bitrate cap = Some q \<and> q \<noteq> 0 \<longrightarrow> n \<le> q)
      \<and> (\<forall>b. source_bitrate file = Some b \<longrightarrow> n < b)" by (rule flags(4)[OF assms])
  obtain k r where plan: "planBitrate (requested_bitrate cap) (source_bitrate file) limit = (k, r)" by fastforce
  have "k = Some n" using assms plan
    by (auto simp: decidePlaybackMode_def Let_def directStreamDecision_def transcodeDecision_def split: if_splits)
  then have "truthy k" using n by (simp add: truthy_def)
  then have "\<not> fits_bitrate limit file cap"
    using planBitrate_result(1)[OF plan requested_nonneg] by (simp add: fits_bitrate_def)
  with n flags(1) show ?thesis by blast
qed

definition sample_hdr_file :: media_file_info where
  "sample_hdr_file =
     \<lparr>mf_videoCodec = Some ''hevc'', mf_audioCodec = Some ''eac3'', mf_audioChannels = Some 6, mf_bitRate = Some 20000000,
      mf_formatName = None, mf_durationSeconds = None, mf_sourceFps = None, mf_videoProfile = Some ''Main 10'',
      mf_videoPixelFormat = Some ''yuv420p10le'', mf_videoColorTransfer = Some ''smpte2084'', mf_doviProfile = None\<rparr>"

definition sample_client :: client_capabilities where
  "sample_client =
     \<lparr>cc_videoCodecs = [''h265'', ''h265-10bit''], cc_audioCodecs = [''aac''], cc_hdrTransfers = Some [''smpte2084''],
      cc_maxBitrate = Some 8000\<rparr>"

theorem bitrate_within_limits_witness:
  "pd_videoBitrateKbps (decidePlaybackMode 5000 sample_hdr_file sample_client None True) = Some 5000
   \<and> pd_videoTranscode (decidePlaybackMode 5000 sample_hdr_file sample_client None True)"
proof -
  have "planBitrate (requested_bitrate sample_client) (source_bitrate sample_hdr_file) 5000 = (Some 5000, None)"
    by (simp add: sample_client_def sample_hdr_file_def requested_bitrate_def source_bitrate_def math_round_def
        planBitrate_def truthy_def)
  then have "pd_videoBitrateKbps (decidePlaybackMode 5000 sample_hdr_file sample_client None True) = Some 5000"
    by (simp add: decidePlaybackMode_def Let_def truthy_def transcodeDecision_def)
  from bitrate_within_limits[OF this] this show ?thesis by blast
qed

text \<open>
  An HDR stream that is copied next to re-encoded audio is reported as tone-mapped, and not as a
  passthrough: the fields say how the video would be re-encoded, which it is not.
\<close>

lemma copied_hdr_reports_tone_mapping:
  assumes "d = decidePlaybackMode limit file cap idx tm" and "is_hdr file" and "\<not> pd_videoTranscode d" and "pd_audioTranscode d"
  shows "pd_tonemap d = Some True \<and> \<not> pd_hdrPassthrough d"
proof -
  note flags = decidePlaybackMode_flags[OF assms(1)]
  have "pd_mode d = Transcode" using assms(4) flags(3) by (cases "pd_mode d") auto
  from flags(5)[OF this] assms(2) show ?thesis by simp
qed

lemma copied_hdr_example:
  "(let d = decidePlaybackMode 0 sample_hdr_file (sample_client\<lparr>cc_maxBitrate := None\<rparr>) None True
    in (pd_videoTranscode d, pd_audioTranscode d, pd_tonemap d)) = (False, True, Some True)"
  by code_simp

text \<open>The decision of the sample runs of the other theories.\<close>

definition sample_decision :: playback_decision where
  "sample_decision =
     \<lparr>pd_mode = Direct_stream, pd_videoTranscode = False, pd_audioTranscode = False, pd_videoCodec = Some ''h264'',
      pd_videoBitrateKbps = None, pd_tonemap = None, pd_tonemapTransfer = None, pd_audioStreamIndex = None,
      pd_audioChannels = Some 2, pd_hdrPassthrough = False, pd_forceSoftware = False, pd_reason = ''remux'',
      pd_videoReason = \<lparr>rp_code = ''videoCopy'', rp_params = []\<rparr>,
      pd_audioReason = \<lparr>rp_code = ''audioCopy'', rp_params = []\<rparr>,
      pd_formatName = None, pd_durationSeconds = None, pd_sourceFps = None\<rparr>"

end
