(* ===== verification/Session_Selection.thy ===== *)
theory Session_Selection
  imports Playback_Decision
begin

section \<open>What a session plays\<close>

text \<open>
  The tracks and the decision of a new session, from the file, the profile, the request and the
  saved progress: \<^verbatim>\<open>streaming/decisions/session-selection.resolver.ts\<close>. The frame rate of a
  video stream is kept as text, the source converts it to a number.
\<close>

record video_stream =
  v_index :: int
  v_isDefault :: bool
  v_codecName :: "string option"
  v_profile :: "string option"
  v_pixelFormat :: "string option"
  v_frameRate :: "string option"
  v_colorTransfer :: "string option"
  v_doviProfile :: "int option"

record selection_file =
  sf_duration :: "rat option"
  sf_bitRate :: "rat option"
  sf_formatName :: "string option"
  sf_videoStreams :: "video_stream list"
  sf_audioStreams :: "audio_stream list"
  sf_subtitles :: "subtitle list"

text \<open>A saved subtitle choice is absent, a subtitle, or none.\<close>

datatype saved_subtitle = No_choice | Turned_off | Pinned string

record selection_input =
  si_file :: selection_file
  si_preferences :: "profile_preferences option"
  si_perTitle :: "title_languages option"
  si_overrides :: preference_overrides
  si_audioStreamIndex :: "int option"
  si_capabilities :: client_capabilities
  si_smartSelectionEnabled :: bool
  si_savedAudioStreamIndex :: "int option"
  si_savedSubtitle :: saved_subtitle
  si_hasActiveProgress :: bool

record playback_selection =
  ps_videoCodec :: "string option"
  ps_audioStream :: "audio_stream option"
  ps_subtitle :: "subtitle option"
  ps_decision :: playback_decision
  ps_preferences :: playback_preferences

definition profile_cap :: "profile_preferences option \<Rightarrow> int" where
  "profile_cap preferences = or_value (Option.bind preferences pr_maxStreamingBitrateKbps) 0"

definition hides_hdr :: "profile_preferences option \<Rightarrow> bool" where
  "hides_hdr preferences \<longleftrightarrow> (case preferences of None \<Rightarrow> False | Some p \<Rightarrow> pr_toneMapToSdr p)"

definition applyProfileLimits :: "client_capabilities \<Rightarrow> profile_preferences option \<Rightarrow> client_capabilities" where
  "applyProfileLimits capabilities preferences =
     (let limited = (if hides_hdr preferences then capabilities\<lparr>cc_hdrTransfers := Some []\<rparr> else capabilities);
          cap = of_int (profile_cap preferences)
      in if cap > 0 then
           (let clientCap = (case cc_maxBitrate capabilities of
                  None \<Rightarrow> cap | Some b \<Rightarrow> if b > 0 then b else cap)
            in limited\<lparr>cc_maxBitrate := Some (min clientCap cap)\<rparr>)
         else limited)"

definition resume_audio_stream :: "selection_input \<Rightarrow> audio_stream option" where
  "resume_audio_stream input =
     (case si_audioStreamIndex input of
        Some _ \<Rightarrow> None
      | None \<Rightarrow>
          (case si_savedAudioStreamIndex input of
             None \<Rightarrow> None
           | Some i \<Rightarrow>
               if si_hasActiveProgress input then find (\<lambda>s. a_index s = i) (sf_audioStreams (si_file input)) else None))"

definition effective_audio_stream :: "playback_preferences \<Rightarrow> selection_input \<Rightarrow> audio_stream option" where
  "effective_audio_stream preferences input =
     or_else (resume_audio_stream input)
       (selectPreferredAudioStream (sf_audioStreams (si_file input)) (pp_audioLanguage preferences)
          (si_audioStreamIndex input) (Some (cc_audioCodecs (si_capabilities input))) (si_smartSelectionEnabled input))"

definition choose_subtitle ::
  "selection_input \<Rightarrow> playback_preferences \<Rightarrow> subtitle option \<Rightarrow> subtitle option \<times> playback_preferences" where
  "choose_subtitle input preferences selected =
     (let savedSubtitleId = (if si_hasActiveProgress input then si_savedSubtitle input else No_choice) in
      case savedSubtitleId of
        No_choice \<Rightarrow> (selected, preferences)
      | Turned_off \<Rightarrow> (None, preferences\<lparr>pp_subtitlesEnabled := False\<rparr>)
      | Pinned i \<Rightarrow>
          (case find (\<lambda>s. sub_id s = i) (sf_subtitles (si_file input)) of
             Some saved \<Rightarrow> (Some saved, preferences\<lparr>pp_subtitlesEnabled := True\<rparr>)
           | None \<Rightarrow> (selected, preferences)))"

definition decision_info :: "selection_file \<Rightarrow> audio_stream option \<Rightarrow> media_file_info" where
  "decision_info f audio =
     (let v = selectDefaultOrFirstStream v_index v_isDefault (sf_videoStreams f) in
      \<lparr>mf_videoCodec = Option.bind v v_codecName, mf_audioCodec = map_option a_codecName audio,
       mf_audioChannels = Option.bind audio a_channels, mf_bitRate = sf_bitRate f,
       mf_formatName = sf_formatName f, mf_durationSeconds = sf_duration f,
       mf_sourceFps = (case Option.bind v v_frameRate of None \<Rightarrow> None | Some r \<Rightarrow> if r = [] then None else Some r),
       mf_videoProfile = Option.bind v v_profile, mf_videoPixelFormat = Option.bind v v_pixelFormat,
       mf_videoColorTransfer = Option.bind v v_colorTransfer, mf_doviProfile = Option.bind v v_doviProfile\<rparr>)"

definition resolveSessionSelection ::
  "playback_preferences \<Rightarrow> int \<Rightarrow> bool \<Rightarrow> selection_input \<Rightarrow> playback_selection" where
  "resolveSessionSelection defaults serverPerStreamLimit toneMapAvailable input =
     (let f = si_file input;
          preferences = resolvePlaybackPreferences defaults (si_preferences input) (si_overrides input) (si_perTitle input);
          audio = effective_audio_stream preferences input;
          selected = selectPreferredSubtitle (sf_subtitles f)
            (preferences\<lparr>pp_audioLanguage := Option.bind audio a_language\<rparr>);
          (subtitle, effectivePreferences) = choose_subtitle input preferences selected
      in \<lparr>ps_videoCodec = Option.bind (selectDefaultOrFirstStream v_index v_isDefault (sf_videoStreams f)) v_codecName,
          ps_audioStream = audio, ps_subtitle = subtitle,
          ps_decision = decidePlaybackMode serverPerStreamLimit (decision_info f audio)
            (applyProfileLimits (si_capabilities input) (si_preferences input)) (map_option a_index audio) toneMapAvailable,
          ps_preferences = effectivePreferences\<rparr>)"

subsection \<open>Profile limits\<close>

lemma profile_requested:
  assumes "profile_cap prefs > 0"
  shows "\<exists>q. requested_bitrate (applyProfileLimits cap prefs) = Some q \<and> 0 \<le> q \<and> q \<le> profile_cap prefs"
proof -
  define m where "m = min (case cc_maxBitrate cap of None \<Rightarrow> of_int (profile_cap prefs)
     | Some b \<Rightarrow> if b > 0 then b else of_int (profile_cap prefs)) (of_int (profile_cap prefs) :: rat)"
  have pos: "m > 0" using assms by (auto simp: m_def split: option.splits)
  have le: "m \<le> of_int (profile_cap prefs)" by (simp add: m_def)
  have "cc_maxBitrate (applyProfileLimits cap prefs) = Some m"
    using assms by (simp add: applyProfileLimits_def Let_def m_def)
  then have "requested_bitrate (applyProfileLimits cap prefs) = Some \<lfloor>m\<rfloor>" using pos by (simp add: requested_bitrate_def)
  moreover have "0 \<le> \<lfloor>m\<rfloor>" using pos by simp
  moreover have "\<lfloor>m\<rfloor> \<le> profile_cap prefs" using le by (simp add: floor_le_iff)
  ultimately show ?thesis by blast
qed

lemma profile_hides_hdr: "hides_hdr prefs \<Longrightarrow> \<not> renders_hdr f (applyProfileLimits cap prefs)"
  by (simp add: applyProfileLimits_def Let_def renders_hdr_def or_value_def)

lemma selection_decision:
  "ps_decision (resolveSessionSelection defaults limit tm input) =
     decidePlaybackMode limit (decision_info (si_file input) (ps_audioStream (resolveSessionSelection defaults limit tm input)))
       (applyProfileLimits (si_capabilities input) (si_preferences input))
       (map_option a_index (ps_audioStream (resolveSessionSelection defaults limit tm input))) tm"
  by (simp add: resolveSessionSelection_def Let_def split: prod.splits)


definition sample_selection :: selection_input where
  "sample_selection =
     \<lparr>si_file = \<lparr>sf_duration = Some 3600, sf_bitRate = Some 20000000, sf_formatName = None,
        sf_videoStreams = [\<lparr>v_index = 0, v_isDefault = True, v_codecName = Some ''hevc'', v_profile = None,
          v_pixelFormat = Some ''yuv420p10le'', v_frameRate = Some ''24'', v_colorTransfer = Some ''SMPTE2084'', v_doviProfile = None\<rparr>],
        sf_audioStreams = sample_tracks, sf_subtitles = sample_subtitles\<rparr>,
      si_preferences = Some \<lparr>pr_audioLanguage = Some ''pl'', pr_subtitleLanguage = Some ''en'',
        pr_subtitleFallbackLanguages = None, pr_subtitlesEnabled = False, pr_forcedSubtitlesOnly = False,
        pr_autoForcedSubtitles = None, pr_preferHearingImpaired = None, pr_toneMapToSdr = True,
        pr_maxStreamingBitrateKbps = Some 6000\<rparr>,
      si_perTitle = None,
      si_overrides = \<lparr>ov_audioLanguage = None, ov_subtitleLanguage = None, ov_subtitlesEnabled = None, ov_forcedSubtitlesOnly = None\<rparr>,
      si_audioStreamIndex = None, si_capabilities = sample_client, si_smartSelectionEnabled = False,
      si_savedAudioStreamIndex = Some 2, si_savedSubtitle = Pinned ''s2'', si_hasActiveProgress = True\<rparr>"

definition sample_selected :: playback_selection where
  "sample_selected = resolveSessionSelection sample_preferences 0 True sample_selection"

lemma selection_parts:
  "ps_audioStream (resolveSessionSelection defaults limit tm input) =
     effective_audio_stream (resolvePlaybackPreferences defaults (si_preferences input) (si_overrides input) (si_perTitle input)) input"
  by (simp add: resolveSessionSelection_def Let_def split: prod.splits)

lemma sample_selected_eval:
  "map_option a_index (ps_audioStream sample_selected) = Some 2"
  "is_hdr (decision_info (si_file sample_selection) (ps_audioStream sample_selected))"
  unfolding sample_selected_def selection_parts by code_simp+


lemma choose_subtitle_shown:
  assumes "choose_subtitle input p selected = (Some x, p')"
    and "\<And>y. selected = Some y \<Longrightarrow> y \<in> set (sf_subtitles (si_file input)) \<and> pp_subtitlesEnabled p"
  shows "x \<in> set (sf_subtitles (si_file input)) \<and> pp_subtitlesEnabled p'"
proof (cases "if si_hasActiveProgress input then si_savedSubtitle input else No_choice")
  case (Pinned i)
  with assms show ?thesis
    by (cases "find (\<lambda>s. sub_id s = i) (sf_subtitles (si_file input))")
      (auto simp: choose_subtitle_def dest!: find_someD split: if_splits)
qed (use assms in \<open>auto simp: choose_subtitle_def split: if_splits\<close>)

text \<open>
  C13. What a session plays comes from its file and agrees with what it reports: the audio track
  is the one the decision maps, an asked-for track index is honoured, subtitles are shown only
  with the preference on. The saved choices of a title count only while it has active progress;
  then a saved subtitle is shown and a saved refusal shows none.
\<close>

theorem selection_is_consistent:
  assumes "sel = resolveSessionSelection defaults limit tm input"
  shows "(\<forall>a. ps_audioStream sel = Some a \<longrightarrow> a \<in> set (sf_audioStreams (si_file input))
            \<and> pd_audioStreamIndex (ps_decision sel) = Some (a_index a)
            \<and> (\<forall>i. si_audioStreamIndex input = Some i \<longrightarrow> a_index a = i))
     \<and> (\<forall>s. ps_subtitle sel = Some s \<longrightarrow> s \<in> set (sf_subtitles (si_file input)) \<and> pp_subtitlesEnabled (ps_preferences sel))
     \<and> (\<not> si_hasActiveProgress input \<longrightarrow>
          sel = resolveSessionSelection defaults limit tm
                  (input\<lparr>si_savedSubtitle := No_choice, si_savedAudioStreamIndex := None\<rparr>))
     \<and> (si_hasActiveProgress input \<and> si_savedSubtitle input = Turned_off \<longrightarrow>
          ps_subtitle sel = None \<and> \<not> pp_subtitlesEnabled (ps_preferences sel))
     \<and> (\<forall>i. si_hasActiveProgress input \<and> si_savedSubtitle input = Pinned i
          \<and> i \<in> sub_id ` set (sf_subtitles (si_file input)) \<longrightarrow> map_option sub_id (ps_subtitle sel) = Some i)"
proof -
  let ?p = "resolvePlaybackPreferences defaults (si_preferences input) (si_overrides input) (si_perTitle input)"
  let ?a = "effective_audio_stream ?p input"
  let ?s = "selectPreferredSubtitle (sf_subtitles (si_file input)) (?p\<lparr>pp_audioLanguage := Option.bind ?a a_language\<rparr>)"
  have audio: "ps_audioStream sel = ?a" and sub: "(ps_subtitle sel, ps_preferences sel) = choose_subtitle input ?p ?s"
    by (simp_all add: assms resolveSessionSelection_def Let_def split: prod.splits)
  have index: "pd_audioStreamIndex (ps_decision sel) = map_option a_index (ps_audioStream sel)"
    unfolding assms selection_decision
    by (simp add: decidePlaybackMode_def Let_def directStreamDecision_def transcodeDecision_def split: prod.splits)
  have preferred: "x \<in> set (sf_audioStreams (si_file input)) \<and> (\<forall>i. si_audioStreamIndex input = Some i \<longrightarrow> a_index x = i)"
    if x: "selectPreferredAudioStream (sf_audioStreams (si_file input)) (pp_audioLanguage ?p) (si_audioStreamIndex input)
       (Some (cc_audioCodecs (si_capabilities input))) (si_smartSelectionEnabled input) = Some x" for x
    by (rule preferred_stream_in[OF x])
  have a: "x \<in> set (sf_audioStreams (si_file input)) \<and> (\<forall>i. si_audioStreamIndex input = Some i \<longrightarrow> a_index x = i)"
    if "?a = Some x" for x
    using that preferred[of x]
    by (auto simp: effective_audio_stream_def or_else_some resume_audio_stream_def dest!: find_someD split: option.splits if_splits)
  have enabled: "x \<in> set (sf_subtitles (si_file input)) \<and> pp_subtitlesEnabled ?p" if "?s = Some x" for x
    using selected_subtitle_in[OF that] by simp
  have s: "x \<in> set (sf_subtitles (si_file input)) \<and> pp_subtitlesEnabled (ps_preferences sel)" if "ps_subtitle sel = Some x" for x
    by (rule choose_subtitle_shown[OF sub[symmetric, unfolded that]]) (rule enabled)
  show ?thesis
  proof (intro conjI allI impI)
    fix x assume x: "ps_audioStream sel = Some x"
    show "x \<in> set (sf_audioStreams (si_file input))" using a[OF x[unfolded audio]] by blast
    show "pd_audioStreamIndex (ps_decision sel) = Some (a_index x)" by (simp only: index x option.map)
  next
    fix x i assume x: "ps_audioStream sel = Some x" "si_audioStreamIndex input = Some i"
    show "a_index x = i" using a[OF x(1)[unfolded audio]] x(2) by blast
  next
    let ?blank = "input\<lparr>si_savedSubtitle := No_choice, si_savedAudioStreamIndex := None\<rparr>"
    assume off: "\<not> si_hasActiveProgress input"
    then have "resume_audio_stream input = None" "resume_audio_stream ?blank = None"
      by (simp_all add: resume_audio_stream_def split: option.splits)
    then have eff: "effective_audio_stream p ?blank = effective_audio_stream p input" for p
      by (simp add: effective_audio_stream_def)
    have "choose_subtitle ?blank p x = choose_subtitle input p x" for p x
      using off by (simp add: choose_subtitle_def)
    with eff show "sel = resolveSessionSelection defaults limit tm
                  (input\<lparr>si_savedSubtitle := No_choice, si_savedAudioStreamIndex := None\<rparr>)"
      by (simp add: assms resolveSessionSelection_def)
  next
    assume "si_hasActiveProgress input \<and> si_savedSubtitle input = Turned_off"
    with sub show "ps_subtitle sel = None" "\<not> pp_subtitlesEnabled (ps_preferences sel)"
      by (simp_all add: choose_subtitle_def)
  next
    fix i assume i: "si_hasActiveProgress input \<and> si_savedSubtitle input = Pinned i
          \<and> i \<in> sub_id ` set (sf_subtitles (si_file input))"
    then have "find (\<lambda>s. sub_id s = i) (sf_subtitles (si_file input)) \<noteq> None" by (auto simp: find_None_iff)
    then obtain x where x: "find (\<lambda>s. sub_id s = i) (sf_subtitles (si_file input)) = Some x" by blast
    with i sub have "ps_subtitle sel = Some x" by (simp add: choose_subtitle_def)
    with find_someD[OF x] show "map_option sub_id (ps_subtitle sel) = Some i" by simp
  qed (use s in blast)+
qed

theorem selection_is_consistent_witness:
  "pd_audioStreamIndex (ps_decision sample_selected) = Some 2 \<and> map_option sub_id (ps_subtitle sample_selected) = Some ''s2''
   \<and> pp_subtitlesEnabled (ps_preferences sample_selected)"
proof -
  note facts = selection_is_consistent[OF sample_selected_def]
  obtain a where a: "ps_audioStream sample_selected = Some a" "a_index a = 2" using sample_selected_eval(1) by auto
  have "''s2'' \<in> sub_id ` set (sf_subtitles (si_file sample_selection))" "si_hasActiveProgress sample_selection"
    "si_savedSubtitle sample_selection = Pinned ''s2''"
    by (simp_all add: sample_selection_def sample_subtitles_def)
  with facts have s: "map_option sub_id (ps_subtitle sample_selected) = Some ''s2''" by blast
  with facts a show ?thesis by auto
qed

end
