(* ===== verification/Session_Store.thy ===== *)
theory Session_Store
  imports Playback_Decision
begin

section \<open>The session store\<close>

text \<open>
  \<^verbatim>\<open>streaming/runtime/session-state/session.store.ts\<close> with the positions of
  \<^verbatim>\<open>streaming/utils/playback-position.utils.ts\<close>: the live sessions, the history of the
  terminated ones with its index by profile and file, the played time, and the software
  transcode slots. A session object is held by the store alone, so an in-place mutation is an
  update of its entry, and membership in the weak set of software sessions is a field of it.
  A process handle is a number. Instants are milliseconds; positions are rationals.
\<close>

datatype session_state = Creating | Live | Ending

record session =
  s_id :: string
  s_mediaFileId :: string
  s_profileId :: string
  s_decision :: playback_decision
  s_inputPath :: string
  s_mode :: stream_mode
  s_tempDir :: string
  s_operationId :: "string option"
  s_createdAt :: int
  s_generation :: nat
  s_process :: "nat option"
  s_startTime :: rat
  s_lastActivity :: int
  s_state :: session_state
  s_durationMs :: "rat option"
  s_transcodePositionMs :: "rat option"
  s_transcodePercent :: "rat option"
  s_transcodeSpeed :: "string option"
  s_lastPositionSeconds :: "rat option"
  s_lastPaused :: "bool option"
  s_softwareVideo :: bool

record played_time =
  pl_playedSeconds :: rat
  pl_furthestPosition :: rat
  pl_position :: rat
  pl_at :: int

record terminated_session =
  t_mediaFileId :: string
  t_profileId :: string
  t_reason :: string
  t_terminatedAt :: int

record session_store =
  st_sessions :: "(string, session) jsmap"
  st_terminated :: "(string, terminated_session) jsmap"
  st_byProfileFile :: "(string, string list) jsmap"
  st_playedTime :: "(string, played_time) jsmap"
  st_pendingSoftware :: "string list"

record registration =
  rg_id :: string
  rg_mediaFileId :: string
  rg_profileId :: string
  rg_decision :: playback_decision
  rg_inputPath :: string
  rg_tempDir :: string
  rg_softwareVideoTranscode :: bool
  rg_durationMs :: "rat option"

definition RESERVATION_DEADLINE_MS :: int where
  "RESERVATION_DEADLINE_MS = 60000"

definition MAX_TERMINATED_SESSIONS :: nat where
  "MAX_TERMINATED_SESSIONS = 1000"

definition empty_store :: session_store where
  "empty_store = \<lparr>st_sessions = [], st_terminated = [], st_byProfileFile = [], st_playedTime = [], st_pendingSoftware = []\<rparr>"

text \<open>An in-place change of the session's object.\<close>

definition update_session :: "string \<Rightarrow> (session \<Rightarrow> session) \<Rightarrow> session_store \<Rightarrow> session_store" where
  "update_session i f st =
     (case map_of (st_sessions st) i of
        None \<Rightarrow> st | Some s \<Rightarrow> st\<lparr>st_sessions := AList.update i (f s) (st_sessions st)\<rparr>)"

subsection \<open>Entities\<close>

definition new_session :: "int \<Rightarrow> registration \<Rightarrow> session" where
  "new_session now r =
     \<lparr>s_id = rg_id r, s_mediaFileId = rg_mediaFileId r, s_profileId = rg_profileId r, s_decision = rg_decision r,
      s_inputPath = rg_inputPath r, s_mode = pd_mode (rg_decision r), s_tempDir = rg_tempDir r, s_operationId = None,
      s_createdAt = now, s_generation = 0, s_process = None, s_startTime = 0, s_lastActivity = now, s_state = Creating,
      s_durationMs = rg_durationMs r, s_transcodePositionMs = None, s_transcodePercent = None,
      s_transcodeSpeed = None, s_lastPositionSeconds = None, s_lastPaused = None,
      s_softwareVideo = rg_softwareVideoTranscode r\<rparr>"

definition register :: "int \<Rightarrow> registration \<Rightarrow> session_store \<Rightarrow> session_store result" where
  "register now r st =
     (if has (rg_id r) (st_sessions st) then Throw (DomainError Conflict ''stream.session_exists'')
      else Return (st\<lparr>st_sessions := AList.update (rg_id r) (new_session now r) (st_sessions st),
                      st_pendingSoftware := removeAll (rg_id r) (st_pendingSoftware st)\<rparr>))"

definition get_session :: "string \<Rightarrow> session_store \<Rightarrow> session option" where
  "get_session i st = map_of (st_sessions st) i"

definition has_session :: "string \<Rightarrow> session_store \<Rightarrow> bool" where
  "has_session i st \<longleftrightarrow> has i (st_sessions st)"

definition session_values :: "session_store \<Rightarrow> session list" where
  "session_values st = map snd (st_sessions st)"

definition mediaFileIds :: "session_store \<Rightarrow> string list" where
  "mediaFileIds st = unique (map s_mediaFileId (session_values st))"

definition attachedCount :: "session_store \<Rightarrow> nat" where
  "attachedCount st = length (filter (\<lambda>s. s_process s \<noteq> None) (session_values st))"

definition isAttached :: "string \<Rightarrow> session_store \<Rightarrow> bool" where
  "isAttached i st \<longleftrightarrow> (case get_session i st of None \<Rightarrow> False | Some s \<Rightarrow> s_process s \<noteq> None)"

definition playedSecondsBetween :: "played_time option \<Rightarrow> rat \<Rightarrow> int \<Rightarrow> rat" where
  "playedSecondsBetween previous position now =
     (case previous of None \<Rightarrow> 0
      | Some p \<Rightarrow> clamp (position - pl_position p) 0 (max 0 (of_int (now - pl_at p) / 1000)))"

definition recordPlayedPosition :: "string \<Rightarrow> rat \<Rightarrow> bool option \<Rightarrow> int \<Rightarrow> session_store \<Rightarrow> session_store" where
  "recordPlayedPosition i position paused now st =
     (if \<not> has i (st_sessions st) then st
      else
        (let tracked = map_of (st_playedTime st) i;
             played = (if paused = Some True then 0 else playedSecondsBetween tracked position now)
         in st\<lparr>st_playedTime := AList.update i
              \<lparr>pl_playedSeconds = (case tracked of None \<Rightarrow> 0 | Some t \<Rightarrow> pl_playedSeconds t) + played,
               pl_furthestPosition = max (case tracked of None \<Rightarrow> 0 | Some t \<Rightarrow> pl_furthestPosition t) position,
               pl_position = position, pl_at = now\<rparr> (st_playedTime st)\<rparr>))"

definition playbackOf :: "string \<Rightarrow> session_store \<Rightarrow> rat \<times> rat" where
  "playbackOf i st =
     (case map_of (st_playedTime st) i of None \<Rightarrow> (0, 0) | Some t \<Rightarrow> (pl_playedSeconds t, pl_furthestPosition t))"

definition delete_session :: "string \<Rightarrow> session_store \<Rightarrow> session_store" where
  "delete_session i st =
     st\<lparr>st_pendingSoftware := removeAll i (st_pendingSoftware st),
        st_sessions := AList.delete i (st_sessions st),
        st_playedTime := AList.delete i (st_playedTime st)\<rparr>"

definition clear_store :: "session_store \<Rightarrow> session_store" where
  "clear_store st = empty_store"

subsection \<open>Software transcodes\<close>

definition countSoftwareVideoTranscodes :: "session_store \<Rightarrow> nat" where
  "countSoftwareVideoTranscodes st =
     length (st_pendingSoftware st) + length (filter s_softwareVideo (session_values st))"

definition tryReserveSoftwareTranscode :: "string \<Rightarrow> int \<Rightarrow> session_store \<Rightarrow> bool \<times> session_store" where
  "tryReserveSoftwareTranscode i limit st =
     (if i \<in> set (st_pendingSoftware st) then (True, st)
      else if int (countSoftwareVideoTranscodes st) \<ge> limit then (False, st)
      else (True, st\<lparr>st_pendingSoftware := js_add i (st_pendingSoftware st)\<rparr>))"

definition releaseSoftwareTranscode :: "string \<Rightarrow> session_store \<Rightarrow> session_store" where
  "releaseSoftwareTranscode i st = st\<lparr>st_pendingSoftware := removeAll i (st_pendingSoftware st)\<rparr>"

definition markSoftwareVideoSession :: "string \<Rightarrow> session_store \<Rightarrow> session_store" where
  "markSoftwareVideoSession i = update_session i (\<lambda>s. s\<lparr>s_softwareVideo := True\<rparr>)"

subsection \<open>The process and the life cycle\<close>

definition attachProcess :: "string \<Rightarrow> nat \<Rightarrow> rat \<Rightarrow> session_store \<Rightarrow> session_store result" where
  "attachProcess i process startTime st =
     (case get_session i st of
        None \<Rightarrow> Throw (DomainError Not_found ''stream.session_not_found'')
      | Some s \<Rightarrow>
          if s_state s = Ending then Throw (DomainError Internal ''stream.session_released'')
          else Return (update_session i (\<lambda>s. s\<lparr>s_process := Some process, s_generation := s_generation s + 1,
                 s_state := Live, s_startTime := startTime, s_transcodePositionMs := None,
                 s_transcodePercent := None, s_transcodeSpeed := None\<rparr>) st))"

definition detachProcess :: "string \<Rightarrow> nat \<Rightarrow> session_store \<Rightarrow> session_store" where
  "detachProcess i process =
     update_session i (\<lambda>s. if s_process s = Some process then s\<lparr>s_process := None\<rparr> else s)"

definition touch :: "string \<Rightarrow> int \<Rightarrow> session_store \<Rightarrow> session_store" where
  "touch i now = update_session i (\<lambda>s. if s_state s = Ending then s else s\<lparr>s_lastActivity := now\<rparr>)"

definition claimRelease :: "string \<Rightarrow> (session \<Rightarrow> bool) option \<Rightarrow> session_store \<Rightarrow> bool \<times> session_store" where
  "claimRelease i shouldRelease st =
     (case get_session i st of
        None \<Rightarrow> (False, st)
      | Some s \<Rightarrow>
          if s_state s = Ending then (False, st)
          else if (case shouldRelease of None \<Rightarrow> False | Some p \<Rightarrow> \<not> p s) then (False, st)
          else (True, update_session i (\<lambda>s. s\<lparr>s_state := Ending\<rparr>) st))"

definition getSessionAccess :: "string \<Rightarrow> session_store \<Rightarrow> (string \<times> string) option" where
  "getSessionAccess i st =
     (case get_session i st of
        None \<Rightarrow> None
      | Some s \<Rightarrow> if s_state s = Ending then None else Some (s_mediaFileId s, s_profileId s))"

definition setSessionOperation :: "string \<Rightarrow> string \<Rightarrow> session_store \<Rightarrow> session_store result" where
  "setSessionOperation i operationId st =
     (if get_session i st = None then Throw (DomainError Not_found ''stream.session_not_found'')
      else Return (update_session i (\<lambda>s. s\<lparr>s_operationId := Some operationId\<rparr>) st))"

definition setTranscodeProgress ::
  "string \<Rightarrow> rat \<Rightarrow> rat option \<Rightarrow> string option \<Rightarrow> session_store \<Rightarrow> session_store" where
  "setTranscodeProgress i positionMs percent speed =
     update_session i (\<lambda>s. s\<lparr>s_transcodePositionMs := Some positionMs, s_transcodePercent := percent,
       s_transcodeSpeed := speed\<rparr>)"

definition setDecision :: "string \<Rightarrow> playback_decision \<Rightarrow> session_store \<Rightarrow> session_store" where
  "setDecision i decision = update_session i (\<lambda>s. s\<lparr>s_decision := decision\<rparr>)"

definition isSessionActive :: "string \<Rightarrow> session_store \<Rightarrow> bool" where
  "isSessionActive i st \<longleftrightarrow>
     (case get_session i st of None \<Rightarrow> False | Some s \<Rightarrow> s_state s = Live \<and> s_process s \<noteq> None)"

definition findStaleReservations :: "int \<Rightarrow> int \<Rightarrow> session_store \<Rightarrow> string list" where
  "findStaleReservations now deadlineMs st =
     map s_id (filter (\<lambda>s. s_state s = Creating \<and> now - s_createdAt s > deadlineMs) (session_values st))"

subsection \<open>Terminated history\<close>

definition profile_file_key :: "string \<Rightarrow> string \<Rightarrow> string" where
  "profile_file_key profileId mediaFileId = profileId @ '':'' @ mediaFileId"

definition deleteTerminated :: "string \<Rightarrow> session_store \<Rightarrow> session_store" where
  "deleteTerminated i st =
     (case map_of (st_terminated st) i of
        None \<Rightarrow> st
      | Some item \<Rightarrow>
          (let st1 = st\<lparr>st_terminated := AList.delete i (st_terminated st)\<rparr>;
               key = profile_file_key (t_profileId item) (t_mediaFileId item)
           in case map_of (st_byProfileFile st1) key of
                None \<Rightarrow> st1
              | Some sessionIds \<Rightarrow>
                  (let left = removeAll i sessionIds in
                   st1\<lparr>st_byProfileFile :=
                     (if left = [] then AList.delete key (st_byProfileFile st1)
                      else AList.update key left (st_byProfileFile st1))\<rparr>)))"

definition drop_oldest_terminated :: "session_store \<Rightarrow> session_store" where
  "drop_oldest_terminated st =
     (if length (st_terminated st) \<ge> MAX_TERMINATED_SESSIONS then
        (case keys (st_terminated st) of
           [] \<Rightarrow> st
         | oldestKey # _ \<Rightarrow> if oldestKey = [] then st else deleteTerminated oldestKey st)
      else st)"

definition storeTerminated :: "string \<Rightarrow> string \<Rightarrow> string \<Rightarrow> string \<Rightarrow> int \<Rightarrow> session_store \<Rightarrow> session_store" where
  "storeTerminated i mediaFileId profileId reason now st =
     (let st1 = drop_oldest_terminated st;
          key = profile_file_key profileId mediaFileId;
          ids = (case map_of (st_byProfileFile st1) key of None \<Rightarrow> [i] | Some sessionIds \<Rightarrow> js_add i sessionIds)
      in st1\<lparr>st_terminated := AList.update i
               \<lparr>t_mediaFileId = mediaFileId, t_profileId = profileId, t_reason = reason, t_terminatedAt = now\<rparr> (st_terminated st1),
             st_byProfileFile := AList.update key ids (st_byProfileFile st1)\<rparr>)"

definition getTerminatedSession :: "string \<Rightarrow> session_store \<Rightarrow> terminated_session option" where
  "getTerminatedSession i st = map_of (st_terminated st) i"

fun first_recent :: "(string, terminated_session) jsmap \<Rightarrow> int \<Rightarrow> string list \<Rightarrow> string option" where
  "first_recent terminated cutoff [] = None"
| "first_recent terminated cutoff (i # ids) =
     (case map_of terminated i of
        Some item \<Rightarrow> if t_terminatedAt item \<ge> cutoff then Some (t_reason item) else first_recent terminated cutoff ids
      | None \<Rightarrow> first_recent terminated cutoff ids)"

definition isProfileTerminatedRecently :: "string \<Rightarrow> string \<Rightarrow> int \<Rightarrow> int \<Rightarrow> session_store \<Rightarrow> string option" where
  "isProfileTerminatedRecently profileId mediaFileId withinMs now st =
     first_recent (st_terminated st) (now - withinMs)
       (case map_of (st_byProfileFile st) (profile_file_key profileId mediaFileId) of None \<Rightarrow> [] | Some ids \<Rightarrow> ids)"

definition cleanupTerminatedSessions :: "int \<Rightarrow> int \<Rightarrow> session_store \<Rightarrow> session_store" where
  "cleanupTerminatedSessions maxAge now st =
     fold (\<lambda>(i, item) st. if t_terminatedAt item < now - maxAge then deleteTerminated i st else st)
       (st_terminated st) st"

subsection \<open>The index of the history\<close>

abbreviation key_of :: "terminated_session \<Rightarrow> string" where
  "key_of t \<equiv> profile_file_key (t_profileId t) (t_mediaFileId t)"

definition listed :: "session_store \<Rightarrow> string \<Rightarrow> string list" where
  "listed st key = (case map_of (st_byProfileFile st) key of None \<Rightarrow> [] | Some ids \<Rightarrow> ids)"

definition history_inv :: "session_store \<Rightarrow> bool" where
  "history_inv st \<longleftrightarrow>
     wf_map (st_terminated st) \<and> length (st_terminated st) \<le> MAX_TERMINATED_SESSIONS \<and> [] \<notin> set (keys (st_terminated st))
     \<and> (\<forall>key. map_of (st_byProfileFile st) key \<noteq> Some [])
     \<and> (\<forall>i key. i \<in> set (listed st key) \<longleftrightarrow> (\<exists>t. map_of (st_terminated st) i = Some t \<and> key_of t = key))"

lemma listed_deleteTerminated:
  "set (listed (deleteTerminated i st) key) =
     (case map_of (st_terminated st) i of
        None \<Rightarrow> set (listed st key)
      | Some t \<Rightarrow> if key = key_of t then set (listed st key) - {i} else set (listed st key))"
proof (cases "map_of (st_terminated st) i")
  case (Some t)
  show ?thesis
  proof (cases "map_of (st_byProfileFile st) (key_of t)")
    case None
    with Some show ?thesis by (auto simp: deleteTerminated_def listed_def Let_def)
  next
    case (Some ids)
    with \<open>map_of (st_terminated st) i = Some t\<close> show ?thesis
      by (cases "removeAll i ids = []")
        (auto simp: deleteTerminated_def listed_def Let_def map_of_update map_of_delete_eq removeAll_filter_not_eq
          filter_empty_conv split: option.splits)
  qed
qed (simp add: deleteTerminated_def)

lemma nonempty_deleteTerminated:
  "(\<forall>key. map_of (st_byProfileFile st) key \<noteq> Some []) \<Longrightarrow>
     map_of (st_byProfileFile (deleteTerminated i st)) key \<noteq> Some []"
  by (auto simp: deleteTerminated_def Let_def map_of_update map_of_delete_eq split: option.splits)

lemma terminated_deleteTerminated:
  "st_terminated (deleteTerminated i st) = AList.delete i (st_terminated st)"
proof (cases "map_of (st_terminated st) i")
  case None
  then have "i \<notin> set (keys (st_terminated st))" by (simp add: map_of_eq_None_iff)
  with None show ?thesis by (simp add: deleteTerminated_def AList.delete_id)
qed (auto simp: deleteTerminated_def Let_def split: option.splits)

lemma history_inv_deleteTerminated:
  assumes "history_inv st"
  shows "history_inv (deleteTerminated i st)"
proof -
  have "length (AList.delete i (st_terminated st)) \<le> length (st_terminated st)"
    by (simp add: AList_delete_eq_filter)
  with assms show ?thesis
    unfolding history_inv_def terminated_deleteTerminated listed_deleteTerminated
    by (auto simp: map_of_delete_eq keys_delete nonempty_deleteTerminated split: option.splits if_splits)
qed

lemma drop_oldest_room:
  assumes "history_inv st"
  shows "history_inv (drop_oldest_terminated st) \<and> length (st_terminated (drop_oldest_terminated st)) < MAX_TERMINATED_SESSIONS
    \<and> set (keys (st_terminated (drop_oldest_terminated st))) \<subseteq> set (keys (st_terminated st))"
proof (cases "length (st_terminated st) \<ge> MAX_TERMINATED_SESSIONS")
  case True
  then obtain p ps where p: "st_terminated st = p # ps" by (cases "st_terminated st") (auto simp: MAX_TERMINATED_SESSIONS_def)
  with assms have ne: "fst p \<noteq> []" by (auto simp: history_inv_def)
  with p True have eq: "drop_oldest_terminated st = deleteTerminated (fst p) st" by (simp add: drop_oldest_terminated_def)
  have len: "length (st_terminated st) = Suc (length (AList.delete (fst p) (st_terminated st)))"
    by (rule length_delete_has[of _ _ "snd p"]) (use assms p in \<open>auto simp: history_inv_def\<close>)
  with assms True history_inv_deleteTerminated[OF assms] show ?thesis
    by (auto simp: eq terminated_deleteTerminated keys_delete history_inv_def)
next
  case False
  with assms show ?thesis by (simp add: drop_oldest_terminated_def)
qed

lemma history_inv_storeTerminated:
  assumes "history_inv st" and "i \<noteq> []" and "i \<notin> set (keys (st_terminated st))"
  shows "history_inv (storeTerminated i m p reason now st)"
proof -
  let ?st = "drop_oldest_terminated st" and ?key = "profile_file_key p m"
  let ?t = "\<lparr>t_mediaFileId = m, t_profileId = p, t_reason = reason, t_terminatedAt = now\<rparr>"
  note room = drop_oldest_room[OF assms(1)]
  have fresh: "i \<notin> set (keys (st_terminated ?st))" using room assms(3) by blast
  have inv: "history_inv ?st" using room by blast
  have hist: "st_terminated (storeTerminated i m p reason now st) = st_terminated ?st @ [(i, ?t)]"
    using fresh by (simp add: storeTerminated_def Let_def update_fresh)
  have idx: "set (listed (storeTerminated i m p reason now st) key) =
      (if key = ?key then insert i (set (listed ?st key)) else set (listed ?st key))" for key
    by (auto simp: storeTerminated_def Let_def listed_def map_of_update split: option.splits)
  have ne: "map_of (st_byProfileFile (storeTerminated i m p reason now st)) key \<noteq> Some []" for key
    using inv by (auto simp: storeTerminated_def Let_def map_of_update history_inv_def js_add_def split: option.splits)
  have mi: "map_of (st_terminated ?st) i = None" using fresh by (simp add: map_of_eq_None_iff)
  have lookup: "map_of (st_terminated ?st @ [(i, ?t)]) j = (if j = i then Some ?t else map_of (st_terminated ?st) j)" for j
    using mi by (auto simp: map_of_append map_add_def split: option.splits)
  have old: "j \<in> set (listed ?st key) \<longleftrightarrow> (\<exists>t. map_of (st_terminated ?st) j = Some t \<and> key_of t = key)" for j key
    using inv by (simp add: history_inv_def)
  have index: "j \<in> (if key = ?key then insert i (set (listed ?st key)) else set (listed ?st key)) \<longleftrightarrow>
      (\<exists>t. (if j = i then Some ?t else map_of (st_terminated ?st) j) = Some t \<and> key_of t = key)" for j key
    using old[of i key] mi by (cases "j = i") (auto simp: old)
  show ?thesis
    unfolding history_inv_def hist idx lookup
  proof (intro conjI allI)
    show "[] \<notin> set (keys (st_terminated ?st @ [(i, ?t)]))" using inv assms(2) by (simp add: history_inv_def)
  qed (use inv ne room fresh index in \<open>simp_all add: history_inv_def\<close>)
qed

lemma history_inv_cleanup: "history_inv st \<Longrightarrow> history_inv (cleanupTerminatedSessions maxAge now st)"
proof -
  have "history_inv st \<Longrightarrow> history_inv (fold (\<lambda>(i, item) st. if t_terminatedAt item < now - maxAge then deleteTerminated i st else st) xs st)" for xs
    by (induction xs arbitrary: st) (auto simp: history_inv_deleteTerminated)
  then show "history_inv st \<Longrightarrow> ?thesis" by (simp add: cleanupTerminatedSessions_def)
qed

lemma first_recent_some:
  "first_recent terminated cutoff ids = Some r \<Longrightarrow>
     \<exists>i \<in> set ids. \<exists>t. map_of terminated i = Some t \<and> t_terminatedAt t \<ge> cutoff \<and> t_reason t = r"
  by (induction ids) (auto split: option.splits if_splits)

lemma first_recent_none:
  "first_recent terminated cutoff ids = None \<Longrightarrow> i \<in> set ids \<Longrightarrow> map_of terminated i = Some t \<Longrightarrow> t_terminatedAt t < cutoff"
  by (induction ids) (auto split: option.splits if_splits)

lemma profile_file_key_inject:
  assumes "CHR '':'' \<notin> set p" and "CHR '':'' \<notin> set p'" and "profile_file_key p m = profile_file_key p' m'"
  shows "p = p' \<and> m = m'"
proof -
  have "takeWhile (\<lambda>c. c \<noteq> CHR '':'') (profile_file_key p m) = p"
    "takeWhile (\<lambda>c. c \<noteq> CHR '':'') (profile_file_key p' m') = p'"
    using assms(1,2) by (auto simp: profile_file_key_def takeWhile_append)
  with assms(3) have "p = p'" by simp
  with assms(3) show ?thesis by (simp add: profile_file_key_def)
qed

text \<open>The index answers what a scan of the whole history would.\<close>

lemma recent_termination:
  assumes "history_inv st"
  shows "(isProfileTerminatedRecently p m window now st \<noteq> None) \<longleftrightarrow>
     (\<exists>i t. map_of (st_terminated st) i = Some t \<and> key_of t = profile_file_key p m \<and> t_terminatedAt t \<ge> now - window)"
proof -
  have r: "isProfileTerminatedRecently p m window now st =
      first_recent (st_terminated st) (now - window) (listed st (profile_file_key p m))"
    by (simp add: isProfileTerminatedRecently_def listed_def)
  have idx: "i \<in> set (listed st key) \<longleftrightarrow> (\<exists>t. map_of (st_terminated st) i = Some t \<and> key_of t = key)" for i key
    using assms by (simp add: history_inv_def)
  show ?thesis
  proof
    assume "isProfileTerminatedRecently p m window now st \<noteq> None"
    then obtain reason where "first_recent (st_terminated st) (now - window) (listed st (profile_file_key p m)) = Some reason"
      unfolding r by blast
    from first_recent_some[OF this] idx
    show "\<exists>i t. map_of (st_terminated st) i = Some t \<and> key_of t = profile_file_key p m \<and> t_terminatedAt t \<ge> now - window"
      by fastforce
  next
    assume "\<exists>i t. map_of (st_terminated st) i = Some t \<and> key_of t = profile_file_key p m \<and> t_terminatedAt t \<ge> now - window"
    then obtain i t where t: "map_of (st_terminated st) i = Some t" "key_of t = profile_file_key p m" "t_terminatedAt t \<ge> now - window"
      by blast
    then have i: "i \<in> set (listed st (profile_file_key p m))" unfolding idx by blast
    show "isProfileTerminatedRecently p m window now st \<noteq> None"
    proof
      assume "isProfileTerminatedRecently p m window now st = None"
      from first_recent_none[OF this[unfolded r] i t(1)] t(3) show False by simp
    qed
  qed
qed

end
