(* ===== verification/Session_Runtime.thy ===== *)
theory Session_Runtime
  imports Session_Store
begin

section \<open>The streaming runtime\<close>

text \<open>
  The reservations (\<^verbatim>\<open>session-reservation.tracker.ts\<close>, \<^verbatim>\<open>session-capacity.policy.ts\<close>), the
  release and the reaper (\<^verbatim>\<open>session.reaper.ts\<close>) and the manager that composes them with the
  store (\<^verbatim>\<open>streaming.manager.ts\<close>, \<^verbatim>\<open>ffmpeg/process.manager.ts\<close>), all under
  \<^verbatim>\<open>modules/streaming\<close>.

  JavaScript runs one synchronous segment at a time. Every segment of an asynchronous method is
  an event: the stop of a process ends in \<open>E_stop\<close>, the rest of \<^verbatim>\<open>prepareSession\<close> is
  \<open>E_prepare\<close>, a start ends in \<open>E_attach\<close> or \<open>E_start_failed\<close>, and a release is
  claimed by \<open>E_release\<close> and completed by \<open>E_finalize\<close>. What happens outside the process
  (ffmpeg, files, the database) decides which event comes next.
\<close>

subsection \<open>Reservations\<close>

record tracker =
  rs_reservedIds :: "string list"
  rs_sessionUsers :: "(string, string) jsmap"

record capacity =
  maxSessions :: int
  maxSessionsPerUser :: "int option"

definition canReserveStreamingSession ::
  "int \<Rightarrow> int \<Rightarrow> int \<Rightarrow> int option \<Rightarrow> int option \<Rightarrow> int option \<Rightarrow> bool \<Rightarrow> bool" where
  "canReserveStreamingSession activeSessions reservedSessions maxS activeUser reservedUser maxUser alreadyAllocated =
     (if alreadyAllocated then True
      else if activeSessions + reservedSessions \<ge> maxS then False
      else (case (maxUser, activeUser, reservedUser) of
              (Some m, Some a, Some r) \<Rightarrow> \<not> a + r \<ge> m
            | _ \<Rightarrow> True))"

definition countReservedNotActive :: "session_store \<Rightarrow> tracker \<Rightarrow> nat" where
  "countReservedNotActive st tr = length (filter (\<lambda>i. \<not> isAttached i st) (rs_reservedIds tr))"

text \<open>A user id that is absent or empty is no user.\<close>

definition user_id :: "string option \<Rightarrow> string option" where
  "user_id u = (case u of None \<Rightarrow> None | Some x \<Rightarrow> if x = [] then None else Some x)"

definition activeUserSessions :: "session_store \<Rightarrow> tracker \<Rightarrow> string \<Rightarrow> nat" where
  "activeUserSessions st tr u = length (filter (\<lambda>(i, uid). uid = u \<and> isAttached i st) (rs_sessionUsers tr))"

definition reservedUserSessions :: "session_store \<Rightarrow> tracker \<Rightarrow> string \<Rightarrow> string \<Rightarrow> nat" where
  "reservedUserSessions st tr sessionId u =
     length (filter (\<lambda>(i, uid). uid = u \<and> \<not> isAttached i st \<and> i \<in> set (rs_reservedIds tr) \<and> i \<noteq> sessionId)
       (rs_sessionUsers tr))"

definition bind_user :: "string \<Rightarrow> string option \<Rightarrow> tracker \<Rightarrow> tracker" where
  "bind_user i u tr =
     (case user_id u of None \<Rightarrow> tr | Some x \<Rightarrow> tr\<lparr>rs_sessionUsers := AList.update i x (rs_sessionUsers tr)\<rparr>)"

definition reserve :: "capacity \<Rightarrow> session_store \<Rightarrow> string \<Rightarrow> string option \<Rightarrow> tracker \<Rightarrow> bool \<times> tracker" where
  "reserve cap st sessionId userId tr =
     (let alreadyAllocated = (isAttached sessionId st \<or> sessionId \<in> set (rs_reservedIds tr));
          u = (if maxSessionsPerUser cap = None then None else user_id userId);
          canReserve = canReserveStreamingSession (int (attachedCount st)) (int (countReservedNotActive st tr)) (maxSessions cap)
            (map_option (\<lambda>x. int (activeUserSessions st tr x)) u)
            (map_option (\<lambda>x. int (reservedUserSessions st tr sessionId x)) u)
            (maxSessionsPerUser cap) alreadyAllocated
      in if \<not> canReserve then (False, tr)
         else
           (let tr1 = (if alreadyAllocated then tr else tr\<lparr>rs_reservedIds := js_add sessionId (rs_reservedIds tr)\<rparr>)
            in (True, bind_user sessionId userId tr1)))"

datatype limit_scope = User_limit | Server_limit

definition explainCapacityLimit :: "capacity \<Rightarrow> session_store \<Rightarrow> tracker \<Rightarrow> string option \<Rightarrow> limit_scope \<times> int \<times> int" where
  "explainCapacityLimit cap st tr userId =
     (let server = (Server_limit, maxSessions cap, int (attachedCount st) + int (countReservedNotActive st tr)) in
      case (user_id userId, maxSessionsPerUser cap) of
        (Some u, Some perUserLimit) \<Rightarrow>
          (let userActive = int (length (filter (\<lambda>(i, uid). uid = u \<and> (isAttached i st \<or> i \<in> set (rs_reservedIds tr)))
                 (rs_sessionUsers tr)))
           in if userActive \<ge> perUserLimit then (User_limit, perUserLimit, userActive) else server)
      | _ \<Rightarrow> server)"

definition release_reservation :: "session_store \<Rightarrow> string \<Rightarrow> tracker \<Rightarrow> tracker" where
  "release_reservation st i tr =
     (let tr1 = tr\<lparr>rs_reservedIds := removeAll i (rs_reservedIds tr)\<rparr>
      in if has_session i st then tr1 else tr1\<lparr>rs_sessionUsers := AList.delete i (rs_sessionUsers tr1)\<rparr>)"

definition forceReserve :: "string \<Rightarrow> string option \<Rightarrow> tracker \<Rightarrow> tracker" where
  "forceReserve i u tr = bind_user i u (tr\<lparr>rs_reservedIds := js_add i (rs_reservedIds tr)\<rparr>)"

definition markStarted :: "string \<Rightarrow> tracker \<Rightarrow> tracker" where
  "markStarted i tr = tr\<lparr>rs_reservedIds := removeAll i (rs_reservedIds tr)\<rparr>"

definition isPending :: "session_store \<Rightarrow> tracker \<Rightarrow> string \<Rightarrow> bool" where
  "isPending st tr i \<longleftrightarrow> i \<in> set (rs_reservedIds tr) \<and> \<not> isAttached i st"

definition unbindUser :: "string \<Rightarrow> tracker \<Rightarrow> tracker" where
  "unbindUser i tr = tr\<lparr>rs_sessionUsers := AList.delete i (rs_sessionUsers tr)\<rparr>"

definition clear_tracker :: "tracker \<Rightarrow> tracker" where
  "clear_tracker tr = \<lparr>rs_reservedIds = [], rs_sessionUsers = []\<rparr>"

subsection \<open>The manager\<close>

text \<open>What the end of a session is announced with.\<close>

record session_end =
  se_id :: string
  se_mediaFileId :: string
  se_profileId :: string
  se_reason :: string
  se_startedAt :: int
  se_operationId :: "string option"
  se_playedSeconds :: rat
  se_furthestPositionSeconds :: rat
  se_durationSeconds :: "int option"

text \<open>A release in flight holds the session and its playback as they were when it was claimed.\<close>

record releasing =
  re_id :: string
  re_reason :: string
  re_session :: session
  re_playback :: "rat \<times> rat"

record runtime =
  rt_store :: session_store
  rt_reservations :: tracker
  rt_inflight :: "(string, nat) jsmap"
  rt_softwareFallback :: "string list"
  rt_releasing :: "releasing list"
  rt_ended :: "session_end list"

definition initial_runtime :: runtime where
  "initial_runtime = \<lparr>rt_store = empty_store, rt_reservations = \<lparr>rs_reservedIds = [], rs_sessionUsers = []\<rparr>,
     rt_inflight = [], rt_softwareFallback = [], rt_releasing = [], rt_ended = []\<rparr>"

definition beginSegment :: "string \<Rightarrow> (string, nat) jsmap \<Rightarrow> (string, nat) jsmap" where
  "beginSegment i m = AList.update i ((case map_of m i of None \<Rightarrow> 0 | Some n \<Rightarrow> n) + 1) m"

definition endSegment :: "string \<Rightarrow> (string, nat) jsmap \<Rightarrow> (string, nat) jsmap" where
  "endSegment i m =
     (let count = (case map_of m i of None \<Rightarrow> 0 | Some n \<Rightarrow> n) in
      if count \<le> 1 then AList.delete i m else AList.update i (count - 1) m)"

definition hasInflightSegment :: "string \<Rightarrow> (string, nat) jsmap \<Rightarrow> bool" where
  "hasInflightSegment i m \<longleftrightarrow> (case map_of m i of None \<Rightarrow> False | Some n \<Rightarrow> n > 0)"

text \<open>The first check of \<^verbatim>\<open>ProcessManager.startSession\<close>.\<close>

definition start_check :: "capacity \<Rightarrow> string \<Rightarrow> session_store \<Rightarrow> unit result" where
  "start_check cap i st =
     (case get_session i st of
        None \<Rightarrow> Throw (DomainError Not_found ''stream.session_not_found'')
      | Some s \<Rightarrow>
          if s_generation s = 0 \<and> int (attachedCount st) \<ge> maxSessions cap
          then Throw (DomainError Too_many_requests ''stream.limit_reached'')
          else Return ())"

text \<open>The operation is noted on the session's object before ffmpeg is spawned.\<close>

definition start_operation :: "string \<Rightarrow> string option \<Rightarrow> session_store \<Rightarrow> session_store" where
  "start_operation i operationId st =
     (case operationId of
        None \<Rightarrow> st
      | Some oid \<Rightarrow> if oid = [] then st else update_session i (\<lambda>s. s\<lparr>s_operationId := Some oid\<rparr>) st)"

text \<open>Its end, when ffmpeg runs: a refused process is killed and the start fails.\<close>

definition start_attached :: "string \<Rightarrow> nat \<Rightarrow> rat \<Rightarrow> runtime \<Rightarrow> runtime" where
  "start_attached i process timelineStart rt =
     (case attachProcess i process timelineStart (rt_store rt) of
        Inl _ \<Rightarrow> rt
      | Inr st \<Rightarrow> rt\<lparr>rt_store := st, rt_reservations := markStarted i (rt_reservations rt)\<rparr>)"

definition assertSeekStillValid :: "string \<Rightarrow> nat \<Rightarrow> session_store \<Rightarrow> unit result" where
  "assertSeekStillValid i generation st =
     (case get_session i st of
        None \<Rightarrow> Throw (DomainError Not_found ''stream.session_released'')
      | Some s \<Rightarrow> if s_state s \<noteq> Live \<or> s_generation s \<noteq> generation
          then Throw (DomainError Not_found ''stream.session_released'') else Return ())"

definition prepare_reserve :: "string \<Rightarrow> runtime \<Rightarrow> runtime" where
  "prepare_reserve i rt =
     (if has_session i (rt_store rt) then rt\<lparr>rt_reservations := forceReserve i None (rt_reservations rt)\<rparr> else rt)"

definition recordHeartbeatPosition :: "string \<Rightarrow> rat \<Rightarrow> bool option \<Rightarrow> int \<Rightarrow> session_store \<Rightarrow> session_store" where
  "recordHeartbeatPosition i position paused now st =
     (if get_session i st = None then st
      else recordPlayedPosition i position paused now
        (update_session i (\<lambda>s. s\<lparr>s_lastPositionSeconds := Some position, s_lastPaused := paused\<rparr>) st))"

text \<open>The synchronous head of the software fallback; the restart that follows is made of other events.\<close>

definition software_fallback :: "string \<Rightarrow> string \<Rightarrow> runtime \<Rightarrow> runtime" where
  "software_fallback i hwaccelType rt =
     (case get_session i (rt_store rt) of
        None \<Rightarrow> rt
      | Some s \<Rightarrow>
          if i \<in> set (rt_softwareFallback rt) \<or> \<not> isSoftwareFallbackEligible (s_decision s) hwaccelType then rt
          else rt\<lparr>rt_softwareFallback := js_add i (rt_softwareFallback rt),
                  rt_store := markSoftwareVideoSession i
                    (setDecision i ((s_decision s)\<lparr>pd_forceSoftware := True\<rparr>) (rt_store rt))\<rparr>)"

definition discardSession :: "string \<Rightarrow> runtime \<Rightarrow> runtime" where
  "discardSession i rt =
     (case get_session i (rt_store rt) of
        None \<Rightarrow> rt
      | Some s \<Rightarrow>
          if s_state s \<noteq> Creating \<or> s_process s \<noteq> None then rt
          else if isPending (rt_store rt) (rt_reservations rt) i then rt
          else rt\<lparr>rt_store := delete_session i (rt_store rt), rt_reservations := unbindUser i (rt_reservations rt)\<rparr>)"

datatype release_outcome = Released | Already_ended | Unknown_session

text \<open>\<^verbatim>\<open>releaseSession\<close> up to its first wait, and the \<^verbatim>\<open>finally\<close> block of \<^verbatim>\<open>finalizeRelease\<close>.\<close>

definition releaseSession :: "string \<Rightarrow> string \<Rightarrow> (session \<Rightarrow> bool) option \<Rightarrow> runtime \<Rightarrow> release_outcome \<times> runtime" where
  "releaseSession i reason shouldRelease rt =
     (case claimRelease i shouldRelease (rt_store rt) of
        (False, st) \<Rightarrow>
          (if has_session i st \<or> getTerminatedSession i st \<noteq> None then Already_ended else Unknown_session, rt)
      | (True, st) \<Rightarrow>
          (case get_session i st of
             None \<Rightarrow> (Released, rt)
           | Some s \<Rightarrow>
               (Released, rt\<lparr>rt_store := st,
                  rt_releasing := rt_releasing rt @ [\<lparr>re_id = i, re_reason = reason, re_session = s,
                    re_playback = playbackOf i st\<rparr>]\<rparr>)))"

text \<open>
  The session's object is shared with the store, so what is announced is read when the release
  ends; the playback was copied when it began.
\<close>

definition end_of :: "releasing \<Rightarrow> session \<Rightarrow> session_end" where
  "end_of r s =
     \<lparr>se_id = re_id r, se_mediaFileId = s_mediaFileId s, se_profileId = s_profileId s,
      se_reason = re_reason r, se_startedAt = s_createdAt s, se_operationId = s_operationId s,
      se_playedSeconds = fst (re_playback r), se_furthestPositionSeconds = snd (re_playback r),
      se_durationSeconds = map_option (\<lambda>ms. round (ms / 1000)) (s_durationMs s)\<rparr>"

definition finalizeRelease :: "releasing \<Rightarrow> int \<Rightarrow> runtime \<Rightarrow> runtime" where
  "finalizeRelease r now rt =
     (let i = re_id r;
          s = (case get_session i (rt_store rt) of None \<Rightarrow> re_session r | Some s \<Rightarrow> s);
          st = delete_session i (rt_store rt);
          tr = unbindUser i (release_reservation st i (rt_reservations rt))
      in rt\<lparr>rt_store := storeTerminated i (s_mediaFileId s) (s_profileId s) (re_reason r) now st,
            rt_softwareFallback := removeAll i (rt_softwareFallback rt),
            rt_reservations := tr,
            rt_releasing := filter (\<lambda>x. re_id x \<noteq> i) (rt_releasing rt),
            rt_ended := (if s_generation s > 0 then rt_ended rt @ [end_of r s] else rt_ended rt)\<rparr>)"

subsection \<open>The reaper\<close>

definition inactive_sessions :: "int \<Rightarrow> int \<Rightarrow> (string \<Rightarrow> bool) \<Rightarrow> (string, nat) jsmap \<Rightarrow> session_store \<Rightarrow> string list" where
  "inactive_sessions now timeout seeking inflight st =
     map s_id (filter (\<lambda>s. s_state s = Live \<and> \<not> seeking (s_id s) \<and> \<not> hasInflightSegment (s_id s) inflight
       \<and> now - s_lastActivity s > timeout) (session_values st))"

definition stale_candidates :: "int \<Rightarrow> int \<Rightarrow> session_store \<Rightarrow> string list" where
  "stale_candidates now deadlineMs st = filter (\<lambda>i. \<not> isAttached i st) (findStaleReservations now deadlineMs st)"

definition stale_reservations :: "(string \<Rightarrow> bool) \<Rightarrow> string list \<Rightarrow> session_store \<Rightarrow> string list" where
  "stale_reservations activeOperation candidates st =
     filter (\<lambda>i. \<not> (case Option.bind (get_session i st) s_operationId of None \<Rightarrow> False
        | Some oid \<Rightarrow> oid \<noteq> [] \<and> activeOperation oid)) candidates"

definition fresh_enough :: "int \<Rightarrow> int \<Rightarrow> session \<Rightarrow> bool" where
  "fresh_enough now timeout s \<longleftrightarrow> now - s_lastActivity s > timeout"

subsection \<open>Events\<close>

datatype runtime_event =
    E_reserve string "string option"
  | E_release_reservation string
  | E_register int registration
  | E_operation string string
  | E_stop string nat
  | E_prepare string
  | E_start_operation string "string option"
  | E_attach string nat rat
  | E_start_failed string
  | E_touch string int
  | E_heartbeat string rat "bool option" int
  | E_begin_segment string
  | E_end_segment string
  | E_progress string rat "rat option" "string option"
  | E_fallback string string
  | E_fallback_failed string
  | E_software_reserve string int
  | E_software_release string
  | E_release string string
  | E_release_inactive string int int
  | E_finalize releasing int
  | E_discard string
  | E_cleanup int int
  | E_shutdown

fun exec :: "capacity \<Rightarrow> runtime_event \<Rightarrow> runtime \<Rightarrow> runtime" where
  "exec cap (E_reserve i u) rt = rt\<lparr>rt_reservations := snd (reserve cap (rt_store rt) i u (rt_reservations rt))\<rparr>"
| "exec cap (E_release_reservation i) rt = rt\<lparr>rt_reservations := release_reservation (rt_store rt) i (rt_reservations rt)\<rparr>"
| "exec cap (E_register now r) rt = (case register now r (rt_store rt) of Inl _ \<Rightarrow> rt | Inr st \<Rightarrow> rt\<lparr>rt_store := st\<rparr>)"
| "exec cap (E_operation i oid) rt =
     (case setSessionOperation i oid (rt_store rt) of Inl _ \<Rightarrow> rt | Inr st \<Rightarrow> rt\<lparr>rt_store := st\<rparr>)"
| "exec cap (E_stop i p) rt = rt\<lparr>rt_store := detachProcess i p (rt_store rt)\<rparr>"
| "exec cap (E_prepare i) rt = prepare_reserve i rt"
| "exec cap (E_start_operation i oid) rt = rt\<lparr>rt_store := start_operation i oid (rt_store rt)\<rparr>"
| "exec cap (E_attach i p t) rt = start_attached i p t rt"
| "exec cap (E_start_failed i) rt = rt\<lparr>rt_reservations := release_reservation (rt_store rt) i (rt_reservations rt)\<rparr>"
| "exec cap (E_touch i now) rt = rt\<lparr>rt_store := touch i now (rt_store rt)\<rparr>"
| "exec cap (E_heartbeat i pos paused now) rt = rt\<lparr>rt_store := recordHeartbeatPosition i pos paused now (rt_store rt)\<rparr>"
| "exec cap (E_begin_segment i) rt = rt\<lparr>rt_inflight := beginSegment i (rt_inflight rt)\<rparr>"
| "exec cap (E_end_segment i) rt = rt\<lparr>rt_inflight := endSegment i (rt_inflight rt)\<rparr>"
| "exec cap (E_progress i pos pct speed) rt = rt\<lparr>rt_store := setTranscodeProgress i pos pct speed (rt_store rt)\<rparr>"
| "exec cap (E_fallback i hw) rt = software_fallback i hw rt"
| "exec cap (E_fallback_failed i) rt = rt\<lparr>rt_softwareFallback := removeAll i (rt_softwareFallback rt)\<rparr>"
| "exec cap (E_software_reserve i limit) rt = rt\<lparr>rt_store := snd (tryReserveSoftwareTranscode i limit (rt_store rt))\<rparr>"
| "exec cap (E_software_release i) rt = rt\<lparr>rt_store := releaseSoftwareTranscode i (rt_store rt)\<rparr>"
| "exec cap (E_release i reason) rt = snd (releaseSession i reason None rt)"
| "exec cap (E_release_inactive i now timeout) rt =
     snd (releaseSession i ''inactivity-timeout'' (Some (fresh_enough now timeout)) rt)"
| "exec cap (E_finalize r now) rt = finalizeRelease r now rt"
| "exec cap (E_discard i) rt = discardSession i rt"
| "exec cap (E_cleanup maxAge now) rt = rt\<lparr>rt_store := cleanupTerminatedSessions maxAge now (rt_store rt)\<rparr>"
| "exec cap E_shutdown rt = rt\<lparr>rt_store := clear_store (rt_store rt), rt_reservations := clear_tracker (rt_reservations rt)\<rparr>"

definition run_events :: "capacity \<Rightarrow> runtime_event list \<Rightarrow> runtime" where
  "run_events cap es = fold (exec cap) es initial_runtime"

end
