(* ===== verification/Session_Safety.thy ===== *)
theory Session_Safety
  imports Session_Runtime
begin

section \<open>What every run of the streaming runtime keeps\<close>

text \<open>
  Runs of the events of \<open>Session_Runtime\<close> and the properties of all of them: the bookkeeping
  invariant, the single end of a session, no resurrection, the inactivity rule, the capacity
  and the played time.
\<close>

subsection \<open>Runs\<close>

text \<open>
  Session ids are fresh random UUIDs, and a release is finished once by the call that claimed
  it. Everything else may happen in any order.
\<close>

fun registered :: "runtime_event list \<Rightarrow> string list" where
  "registered [] = []"
| "registered (E_register now r # es) = rg_id r # registered es"
| "registered (_ # es) = registered es"

fun admissible :: "string list \<Rightarrow> runtime \<Rightarrow> runtime_event \<Rightarrow> bool" where
  "admissible used rt (E_register now r) \<longleftrightarrow> rg_id r \<noteq> [] \<and> rg_id r \<notin> set used"
| "admissible used rt (E_finalize r now) \<longleftrightarrow> r \<in> set (rt_releasing rt)"
| "admissible used rt _ \<longleftrightarrow> True"

fun valid_from :: "capacity \<Rightarrow> string list \<Rightarrow> runtime \<Rightarrow> runtime_event list \<Rightarrow> bool" where
  "valid_from cap used rt [] \<longleftrightarrow> True"
| "valid_from cap used rt (e # es) \<longleftrightarrow>
     admissible used rt e \<and> valid_from cap (registered [e] @ used) (exec cap e rt) es"

definition valid_run :: "capacity \<Rightarrow> runtime_event list \<Rightarrow> bool" where
  "valid_run cap es \<longleftrightarrow> valid_from cap [] initial_runtime es"

lemma registered_append [simp]: "registered (es @ es') = registered es @ registered es'"
  by (induction es rule: registered.induct) auto

lemma set_registered_Cons: "set (registered (e # es)) = set (registered [e]) \<union> set (registered es)"
  using registered_append[of "[e]" es] by (metis append_Cons append_Nil set_append)

lemma valid_from_append:
  "valid_from cap used rt (es @ es') \<longleftrightarrow>
     valid_from cap used rt es \<and> valid_from cap (registered (rev es) @ used) (fold (exec cap) es rt) es'"
proof (induction es arbitrary: used rt)
  case Nil
  then show ?case by simp
next
  case (Cons e es)
  have "registered (rev (e # es)) @ used = registered (rev es) @ registered [e] @ used" by simp
  with Cons show ?case by simp
qed

lemma run_events_append: "run_events cap (es @ es') = fold (exec cap) es' (run_events cap es)"
  by (simp add: run_events_def)

lemma valid_run_append:
  "valid_run cap (es @ es') \<longleftrightarrow>
     valid_run cap es \<and> valid_from cap (registered (rev es)) (run_events cap es) es'"
  by (simp add: valid_run_def valid_from_append run_events_def)

lemma valid_run_snoc:
  "valid_run cap (es @ [e]) \<longleftrightarrow> valid_run cap es \<and> admissible (registered (rev es)) (run_events cap es) e"
  by (simp add: valid_run_append)

text \<open>Induction along a run.\<close>

lemma run_induct [consumes 1, case_names start step]:
  assumes "valid_run cap es" and "P [] initial_runtime"
    and "\<And>es e. valid_run cap es \<Longrightarrow> admissible (registered (rev es)) (run_events cap es) e \<Longrightarrow>
      P es (run_events cap es) \<Longrightarrow> P (es @ [e]) (exec cap e (run_events cap es))"
  shows "P es (run_events cap es)"
  using assms(1)
proof (induction es rule: rev_induct)
  case Nil
  with assms(2) show ?case by (simp add: run_events_def)
next
  case (snoc e es)
  then have "valid_run cap es" "admissible (registered (rev es)) (run_events cap es) e"
    by (simp_all add: valid_run_snoc)
  from assms(3)[OF this snoc.IH[OF this(1)]] show ?case by (simp add: run_events_append)
qed

lemma set_registered_rev: "set (registered (rev es)) = set (registered es)"
proof (induction es)
  case Nil
  then show ?case by simp
next
  case (Cons e es)
  have "set (registered (rev (e # es))) = set (registered (rev es)) \<union> set (registered [e])" by simp
  with Cons show ?case by (simp add: set_registered_Cons[of e es] Un_commute)
qed

subsection \<open>In-place changes\<close>

lemma get_update_session:
  "get_session j (update_session i f st) = (if j = i then map_option f (get_session i st) else get_session j st)"
  by (auto simp: get_session_def update_session_def map_of_update split: option.splits)

lemma update_session_frame [frame]:
  "st_terminated (update_session i f st) = st_terminated st"
  "st_byProfileFile (update_session i f st) = st_byProfileFile st"
  "st_playedTime (update_session i f st) = st_playedTime st"
  "st_pendingSoftware (update_session i f st) = st_pendingSoftware st"
  by (simp_all add: update_session_def split: option.splits)

lemma keys_update_session [simp]: "keys (st_sessions (update_session i f st)) = keys (st_sessions st)"
  by (auto simp: update_session_def keys_update simp flip: map_of_eq_None_iff split: option.splits)

lemma wf_update_session [simp]: "wf_map (st_sessions (update_session i f st)) = wf_map (st_sessions st)"
  by (simp only: keys_update_session)

subsection \<open>The bookkeeping\<close>

definition wf_session :: "session \<Rightarrow> bool" where
  "wf_session s \<longleftrightarrow>
     (s_state s = Creating \<longrightarrow> s_generation s = 0 \<and> s_process s = None) \<and> (s_state s = Live \<longrightarrow> s_generation s > 0)"

abbreviation releasing_ids :: "runtime \<Rightarrow> string list" where
  "releasing_ids rt \<equiv> map re_id (rt_releasing rt)"

abbreviation ended_ids :: "runtime \<Rightarrow> string list" where
  "ended_ids rt \<equiv> map se_id (rt_ended rt)"

abbreviation terminated_ids :: "runtime \<Rightarrow> string list" where
  "terminated_ids rt \<equiv> keys (st_terminated (rt_store rt))"

text \<open>An id that was used and is over.\<close>

definition gone :: "string \<Rightarrow> runtime \<Rightarrow> bool" where
  "gone i rt \<longleftrightarrow> i \<in> set (terminated_ids rt) \<or> i \<in> set (ended_ids rt)"

definition session_ok :: "string list \<Rightarrow> runtime \<Rightarrow> string \<Rightarrow> session \<Rightarrow> bool" where
  "session_ok used rt i s \<longleftrightarrow>
     s_id s = i \<and> i \<in> set used \<and> \<not> gone i rt \<and> wf_session s \<and> (s_state s = Ending \<longleftrightarrow> i \<in> set (releasing_ids rt))"

definition ids_ok :: "string list \<Rightarrow> runtime \<Rightarrow> bool" where
  "ids_ok used rt \<longleftrightarrow>
     [] \<notin> set used \<and> set (releasing_ids rt) \<subseteq> set used \<and> set (terminated_ids rt) \<subseteq> set used
     \<and> set (ended_ids rt) \<subseteq> set used \<and> distinct (releasing_ids rt) \<and> distinct (ended_ids rt)
     \<and> (\<forall>i \<in> set (releasing_ids rt). \<not> gone i rt)"

definition runtime_inv :: "string list \<Rightarrow> runtime \<Rightarrow> bool" where
  "runtime_inv used rt \<longleftrightarrow>
     ids_ok used rt \<and> wf_map (st_sessions (rt_store rt)) \<and> history_inv (rt_store rt)
     \<and> (\<forall>i s. get_session i (rt_store rt) = Some s \<longrightarrow> session_ok used rt i s)"

lemma runtime_invI:
  assumes "ids_ok used rt" and "wf_map (st_sessions (rt_store rt))" and "history_inv (rt_store rt)"
    and "\<And>i s. get_session i (rt_store rt) = Some s \<Longrightarrow> session_ok used rt i s"
  shows "runtime_inv used rt"
  using assms by (simp add: runtime_inv_def)

lemma history_inv_cong:
  "st_terminated st' = st_terminated st \<Longrightarrow> st_byProfileFile st' = st_byProfileFile st \<Longrightarrow>
     history_inv st' = history_inv st"
  by (simp add: history_inv_def listed_def)

text \<open>An event that only changes sessions in place, keeping their identity and whether they end.\<close>

definition same_session :: "session \<Rightarrow> session \<Rightarrow> bool" where
  "same_session s s' \<longleftrightarrow>
     s_id s' = s_id s \<and> (s_state s' = Ending \<longleftrightarrow> s_state s = Ending) \<and> (wf_session s \<longrightarrow> wf_session s')
     \<and> (s_state s = Ending \<longrightarrow> s_generation s' = s_generation s \<and> s_process s' \<in> {None, s_process s})"

lemma same_session_refl [simp]: "same_session s s"
  by (simp add: same_session_def)

lemma same_sessionD:
  "same_session s s' \<Longrightarrow> s_state s = Ending \<Longrightarrow>
     s_state s' = Ending \<and> s_generation s' = s_generation s \<and> s_process s' \<in> {None, s_process s}"
  by (simp add: same_session_def)

definition same_books :: "runtime \<Rightarrow> runtime \<Rightarrow> bool" where
  "same_books rt rt' \<longleftrightarrow>
     rt_releasing rt' = rt_releasing rt \<and> rt_ended rt' = rt_ended rt
     \<and> st_terminated (rt_store rt') = st_terminated (rt_store rt)
     \<and> st_byProfileFile (rt_store rt') = st_byProfileFile (rt_store rt)
     \<and> (wf_map (st_sessions (rt_store rt)) \<longrightarrow> wf_map (st_sessions (rt_store rt')))
     \<and> (\<forall>i s'. get_session i (rt_store rt') = Some s' \<longrightarrow>
          (\<exists>s. get_session i (rt_store rt) = Some s \<and> same_session s s'))"

lemma runtime_inv_same_books:
  assumes inv: "runtime_inv used rt" and same: "same_books rt rt'"
  shows "runtime_inv used rt'"
proof (rule runtime_invI)
  have g: "gone i rt' = gone i rt" for i using same by (simp add: same_books_def gone_def)
  show "ids_ok used rt'" using inv same by (simp add: runtime_inv_def ids_ok_def same_books_def g)
  show "wf_map (st_sessions (rt_store rt'))" using inv same by (simp add: runtime_inv_def same_books_def)
  show "history_inv (rt_store rt')"
    using inv same history_inv_cong[of "rt_store rt'" "rt_store rt"] by (simp add: runtime_inv_def same_books_def)
  fix i s' assume "get_session i (rt_store rt') = Some s'"
  with same obtain s where s: "get_session i (rt_store rt) = Some s" "same_session s s'"
    unfolding same_books_def by blast
  from inv s(1) have "session_ok used rt i s" by (simp add: runtime_inv_def)
  with s(2) same show "session_ok used rt' i s'"
    by (simp add: session_ok_def same_session_def g same_books_def)
qed

lemma same_books_update:
  assumes "\<And>s. same_session s (f s)"
  shows "same_books rt (rt\<lparr>rt_store := update_session i f (rt_store rt)\<rparr>)"
  using assms by (auto simp: same_books_def frame get_update_session)

lemma same_books_reservations [simp, intro]: "same_books rt (rt\<lparr>rt_reservations := tr\<rparr>)"
  by (simp add: same_books_def)

lemma same_books_refl [simp, intro]: "same_books rt rt"
  by (simp add: same_books_def)

lemma same_session_trans: "same_session a b \<Longrightarrow> same_session b c \<Longrightarrow> same_session a c"
  unfolding same_session_def by (elim conjE) (intro conjI; auto)

lemma same_books_trans:
  assumes "same_books a b" and "same_books b c"
  shows "same_books a c"
proof -
  have "\<exists>s. get_session i (rt_store a) = Some s \<and> same_session s s''"
    if "get_session i (rt_store c) = Some s''" for i s''
    using assms that unfolding same_books_def by (meson same_session_trans)
  then show ?thesis using assms unfolding same_books_def by simp
qed

lemma same_books_store:
  assumes "st_sessions st = st_sessions (rt_store rt)" "st_terminated st = st_terminated (rt_store rt)"
    "st_byProfileFile st = st_byProfileFile (rt_store rt)"
  shows "same_books rt (rt\<lparr>rt_store := st\<rparr>)"
  using assms by (simp add: same_books_def get_session_def)

lemma sessions_recordPlayedPosition [frame]:
  "st_sessions (recordPlayedPosition i p q n st) = st_sessions st"
  "st_terminated (recordPlayedPosition i p q n st) = st_terminated st"
  "st_byProfileFile (recordPlayedPosition i p q n st) = st_byProfileFile st"
  by (simp_all add: recordPlayedPosition_def Let_def)

lemma sessions_software [frame]:
  "st_sessions (snd (tryReserveSoftwareTranscode i limit st)) = st_sessions st"
  "st_terminated (snd (tryReserveSoftwareTranscode i limit st)) = st_terminated st"
  "st_byProfileFile (snd (tryReserveSoftwareTranscode i limit st)) = st_byProfileFile st"
  by (simp_all add: tryReserveSoftwareTranscode_def)

lemma same_books_heartbeat: "same_books rt (rt\<lparr>rt_store := recordHeartbeatPosition i p q n (rt_store rt)\<rparr>)"
proof -
  let ?f = "\<lambda>s. s\<lparr>s_lastPositionSeconds := Some p, s_lastPaused := q\<rparr>"
  let ?rt = "rt\<lparr>rt_store := update_session i ?f (rt_store rt)\<rparr>"
  have "same_books rt ?rt" by (rule same_books_update) (simp add: same_session_def wf_session_def)
  moreover have "same_books ?rt (?rt\<lparr>rt_store := recordPlayedPosition i p q n (rt_store ?rt)\<rparr>)"
    by (rule same_books_store) (simp_all add: frame)
  ultimately have "same_books rt (?rt\<lparr>rt_store := recordPlayedPosition i p q n (rt_store ?rt)\<rparr>)"
    by (rule same_books_trans)
  then show ?thesis by (simp add: recordHeartbeatPosition_def)
qed

lemma get_delete_session: "get_session j (delete_session i st) = (if j = i then None else get_session j st)"
  by (simp add: get_session_def delete_session_def map_of_delete_eq)

lemma delete_session_frame [frame]:
  "st_terminated (delete_session i st) = st_terminated st"
  "st_byProfileFile (delete_session i st) = st_byProfileFile st"
  "st_sessions (delete_session i st) = AList.delete i (st_sessions st)"
  by (simp_all add: delete_session_def)

lemma same_books_discard: "same_books rt (discardSession i rt)"
  by (auto simp: discardSession_def same_books_def frame get_delete_session split: option.splits)

lemma same_books_fallback: "same_books rt (software_fallback i hw rt)"
proof -
  have "same_books rt (rt\<lparr>rt_softwareFallback := js_add i (rt_softwareFallback rt),
      rt_store := markSoftwareVideoSession i (setDecision i d (rt_store rt))\<rparr>)" for d
    unfolding markSoftwareVideoSession_def setDecision_def
    by (auto simp: same_books_def frame get_update_session same_session_def wf_session_def)
  then show ?thesis by (simp add: software_fallback_def split: option.splits)
qed

lemma attachProcess_cases:
  obtains (refused) e where "attachProcess i p t st = Inl e"
  | (attached) s where "get_session i st = Some s" "s_state s \<noteq> Ending"
      "attachProcess i p t st = Inr (update_session i (\<lambda>s. s\<lparr>s_process := Some p, s_generation := s_generation s + 1,
         s_state := Live, s_startTime := t, s_transcodePositionMs := None, s_transcodePercent := None,
         s_transcodeSpeed := None\<rparr>) st)"
proof (cases "\<exists>e. attachProcess i p t st = Inl e")
  case False
  then show ?thesis using attached by (cases "get_session i st") (auto simp: attachProcess_def split: if_splits)
qed (use refused in blast)

lemma same_books_attach: "same_books rt (start_attached i p t rt)"
proof (cases rule: attachProcess_cases[of i p t "rt_store rt"])
  case (refused e)
  then show ?thesis by (simp add: start_attached_def)
next
  case (attached s)
  then show ?thesis
    by (auto simp: start_attached_def same_books_def frame get_update_session same_session_def wf_session_def)
qed

fun plain :: "runtime_event \<Rightarrow> bool" where
  "plain (E_register now r) = False"
| "plain (E_release i reason) = False"
| "plain (E_release_inactive i now timeout) = False"
| "plain (E_finalize r now) = False"
| "plain (E_cleanup maxAge now) = False"
| "plain E_shutdown = False"
| "plain _ = True"

lemma same_books_exec: "plain e \<Longrightarrow> same_books rt (exec cap e rt)"
proof (cases e)
  case (E_operation i oid)
  then show ?thesis
    by (auto simp: setSessionOperation_def intro!: same_books_update simp: same_session_def wf_session_def)
next
  case (E_stop i p)
  then show ?thesis by (auto simp: detachProcess_def intro!: same_books_update simp: same_session_def wf_session_def)
qed (auto simp: prepare_reserve_def same_books_heartbeat same_books_discard same_books_fallback same_books_attach
    start_operation_def touch_def setTranscodeProgress_def frame releaseSoftwareTranscode_def same_session_def wf_session_def
    intro!: same_books_update same_books_store split: option.splits, (simp add: same_books_def)+)

subsection \<open>Registration, release and its end\<close>

lemma registered_one:
  "(\<And>now r. e \<noteq> E_register now r) \<Longrightarrow> registered [e] = []"
  by (cases e) auto

lemma plain_registered: "plain e \<Longrightarrow> registered [e] = []"
  by (cases e) auto

lemma new_session_simps [simp]:
  "s_id (new_session now r) = rg_id r" "s_state (new_session now r) = Creating"
  "s_lastActivity (new_session now r) = now" "s_process (new_session now r) = None"
  "s_generation (new_session now r) = 0" "wf_session (new_session now r)"
  by (simp_all add: new_session_def wf_session_def)

lemma runtime_inv_register:
  assumes inv: "runtime_inv used rt" and new: "rg_id r \<noteq> []" "rg_id r \<notin> set used"
  shows "runtime_inv (rg_id r # used) (exec cap (E_register now r) rt)"
proof -
  have none: "map_of (st_sessions (rt_store rt)) (rg_id r) = None"
  proof (rule ccontr)
    assume "map_of (st_sessions (rt_store rt)) (rg_id r) \<noteq> None"
    then obtain s where "get_session (rg_id r) (rt_store rt) = Some s" by (auto simp: get_session_def)
    with inv new(2) show False by (auto simp: runtime_inv_def session_ok_def simp del: not_None_eq)
  qed
  let ?rt = "rt\<lparr>rt_store := (rt_store rt)\<lparr>
      st_sessions := AList.update (rg_id r) (new_session now r) (st_sessions (rt_store rt)),
      st_pendingSoftware := removeAll (rg_id r) (st_pendingSoftware (rt_store rt))\<rparr>\<rparr>"
  have eq: "exec cap (E_register now r) rt = ?rt" using none by (simp add: register_def)
  have g: "gone i ?rt = gone i rt" for i by (simp add: gone_def)
  have ids: "ids_ok used rt" using inv by (simp add: runtime_inv_def)
  have "\<not> gone (rg_id r) rt" and nrel: "rg_id r \<notin> set (releasing_ids rt)"
    using ids new(2) by (auto simp: ids_ok_def gone_def)
  show ?thesis unfolding eq
  proof (rule runtime_invI)
    show "ids_ok (rg_id r # used) ?rt" using ids new(1) by (auto simp: ids_ok_def gone_def)
    show "wf_map (st_sessions (rt_store ?rt))" using inv by (simp add: runtime_inv_def)
    show "history_inv (rt_store ?rt)"
      using inv history_inv_cong[of "rt_store ?rt" "rt_store rt"] by (simp add: runtime_inv_def)
    fix i s assume s: "get_session i (rt_store ?rt) = Some s"
    show "session_ok (rg_id r # used) ?rt i s"
    proof (cases "i = rg_id r")
      case True
      with s have "s = new_session now r" by (simp add: get_session_def map_of_update)
      with True \<open>\<not> gone (rg_id r) rt\<close> nrel show ?thesis
        by (simp add: session_ok_def g)
    next
      case False
      with s have "get_session i (rt_store rt) = Some s" by (simp add: get_session_def map_of_update)
      with inv have "session_ok used rt i s" by (simp add: runtime_inv_def)
      then show ?thesis by (simp add: session_ok_def g)
    qed
  qed
qed

lemma not_released: "(if b then Already_ended else Unknown_session) \<noteq> Released"
  by simp

lemma releaseSession_cases:
  obtains (refused) out where "releaseSession i reason p rt = (out, rt)" "out \<noteq> Released"
  | (claimed) s where "get_session i (rt_store rt) = Some s" "s_state s \<noteq> Ending"
      "\<And>q. p = Some q \<Longrightarrow> q s"
      "releaseSession i reason p rt = (Released,
         rt\<lparr>rt_store := update_session i (\<lambda>s. s\<lparr>s_state := Ending\<rparr>) (rt_store rt),
            rt_releasing := rt_releasing rt @ [\<lparr>re_id = i, re_reason = reason, re_session = s\<lparr>s_state := Ending\<rparr>,
              re_playback = playbackOf i (update_session i (\<lambda>s. s\<lparr>s_state := Ending\<rparr>) (rt_store rt))\<rparr>]\<rparr>)"
proof (cases "get_session i (rt_store rt)")
  case None
  then have "releaseSession i reason p rt =
      (if has_session i (rt_store rt) \<or> getTerminatedSession i (rt_store rt) \<noteq> None then Already_ended else Unknown_session, rt)"
    by (simp add: releaseSession_def claimRelease_def)
  then show ?thesis by (rule refused[OF _ not_released])
next
  case (Some s)
  show ?thesis
  proof (cases "s_state s = Ending \<or> (case p of None \<Rightarrow> False | Some q \<Rightarrow> \<not> q s)")
    case True
    with Some have "claimRelease i p (rt_store rt) = (False, rt_store rt)" by (auto simp: claimRelease_def)
    then have "releaseSession i reason p rt =
        (if has_session i (rt_store rt) \<or> getTerminatedSession i (rt_store rt) \<noteq> None then Already_ended else Unknown_session, rt)"
      by (simp add: releaseSession_def)
    then show ?thesis by (rule refused[OF _ not_released])
  next
    case False
    with Some have "claimRelease i p (rt_store rt) = (True, update_session i (\<lambda>s. s\<lparr>s_state := Ending\<rparr>) (rt_store rt))"
      by (auto simp: claimRelease_def)
    with False Some show ?thesis
      by (intro claimed[of s]) (auto simp: releaseSession_def get_update_session split: option.splits)
  qed
qed

lemma runtime_inv_release:
  assumes inv: "runtime_inv used rt"
  shows "runtime_inv used (snd (releaseSession i reason p rt))"
proof (cases rule: releaseSession_cases[of i reason p rt])
  case (refused out)
  with inv show ?thesis by simp
next
  case (claimed s)
  let ?rt = "snd (releaseSession i reason p rt)"
  from inv claimed(1) have ok: "session_ok used rt i s" by (simp add: runtime_inv_def)
  have g: "gone j ?rt = gone j rt" for j using claimed(4) by (simp add: gone_def frame)
  have get: "get_session j (rt_store ?rt) = (if j = i then Some (s\<lparr>s_state := Ending\<rparr>) else get_session j (rt_store rt))" for j
    using claimed(1,4) by (simp add: get_update_session)
  have rel: "releasing_ids ?rt = releasing_ids rt @ [i]" using claimed(4) by simp
  show ?thesis
  proof (rule runtime_invI)
    show "ids_ok used ?rt"
      unfolding ids_ok_def rel g using inv ok claimed
      by (auto simp: runtime_inv_def ids_ok_def session_ok_def frame)
    show "wf_map (st_sessions (rt_store ?rt))" using inv claimed(4) by (simp add: runtime_inv_def)
    show "history_inv (rt_store ?rt)"
      using inv claimed(4) history_inv_cong[of "rt_store ?rt" "rt_store rt"] by (simp add: runtime_inv_def frame)
    fix j t assume "get_session j (rt_store ?rt) = Some t"
    then show "session_ok used ?rt j t"
      using inv ok unfolding get session_ok_def g rel runtime_inv_def
      by (cases "j = i") (auto simp: wf_session_def)
  qed
qed

lemma terminated_storeTerminated:
  "set (keys (st_terminated (storeTerminated i m p reason now st))) \<subseteq> insert i (set (keys (st_terminated st)))"
proof -
  have "st_terminated (drop_oldest_terminated st) = st_terminated st
      \<or> (\<exists>k. st_terminated (drop_oldest_terminated st) = AList.delete k (st_terminated st))"
    by (auto simp: drop_oldest_terminated_def terminated_deleteTerminated split: list.splits)
  then have sub: "set (keys (st_terminated (drop_oldest_terminated st))) \<subseteq> set (keys (st_terminated st))"
    by (elim disjE exE) (simp_all add: keys_delete del: set_map)
  then show ?thesis unfolding storeTerminated_def Let_def by (simp add: keys_update del: set_map) blast
qed

lemma sessions_deleteTerminated [frame]:
  "st_sessions (deleteTerminated i st) = st_sessions st" "st_playedTime (deleteTerminated i st) = st_playedTime st"
  by (simp_all add: deleteTerminated_def Let_def split: option.splits)

lemma sessions_storeTerminated [frame]: "st_sessions (storeTerminated i m p reason now st) = st_sessions st"
  by (simp add: storeTerminated_def Let_def drop_oldest_terminated_def frame split: list.splits)

text \<open>The session a release ends with.\<close>

definition final_session :: "releasing \<Rightarrow> runtime \<Rightarrow> session" where
  "final_session r rt = (case get_session (re_id r) (rt_store rt) of None \<Rightarrow> re_session r | Some s \<Rightarrow> s)"

lemma finalizeRelease_fields:
  fixes rt r now
  defines "s \<equiv> final_session r rt"
  shows "rt_store (finalizeRelease r now rt) =
      storeTerminated (re_id r) (s_mediaFileId s) (s_profileId s) (re_reason r) now (delete_session (re_id r) (rt_store rt))"
    and "rt_releasing (finalizeRelease r now rt) = filter (\<lambda>x. re_id x \<noteq> re_id r) (rt_releasing rt)"
    and "rt_ended (finalizeRelease r now rt) = (if s_generation s > 0 then rt_ended rt @ [end_of r s] else rt_ended rt)"
  by (simp_all add: finalizeRelease_def Let_def s_def final_session_def)

lemma runtime_inv_finalize:
  assumes inv: "runtime_inv used rt" and r: "r \<in> set (rt_releasing rt)"
  shows "runtime_inv used (finalizeRelease r now rt)"
proof -
  let ?rt = "finalizeRelease r now rt" and ?i = "re_id r"
  note fields = finalizeRelease_fields[of r now rt]
  have ids: "ids_ok used rt" and hist: "history_inv (rt_store rt)" using inv by (simp_all add: runtime_inv_def)
  have i: "?i \<in> set used" "?i \<noteq> []" "\<not> gone ?i rt" using ids r by (auto simp: ids_ok_def)
  have rel: "set (releasing_ids ?rt) = set (releasing_ids rt) - {?i}" by (auto simp: fields)
  have ended: "set (ended_ids ?rt) \<subseteq> insert ?i (set (ended_ids rt))" by (auto simp: fields end_of_def)
  have over: "set (terminated_ids ?rt) \<subseteq> insert ?i (set (terminated_ids rt))"
    unfolding fields by (rule order_trans[OF terminated_storeTerminated]) (simp add: frame)
  have g: "gone j ?rt \<Longrightarrow> j \<noteq> ?i \<Longrightarrow> gone j rt" for j using ended over unfolding gone_def by blast
  have get: "get_session j (rt_store ?rt) = (if j = ?i then None else get_session j (rt_store rt))" for j
    by (simp add: fields get_session_def frame map_of_delete_eq)
  show ?thesis
  proof (rule runtime_invI)
    have "distinct (ended_ids ?rt)" using ids i(3) by (auto simp: fields end_of_def ids_ok_def gone_def)
    moreover have "distinct (releasing_ids ?rt)"
      using ids unfolding fields ids_ok_def by (simp add: distinct_map_filter)
    moreover have "set (ended_ids ?rt) \<subseteq> set used" "set (terminated_ids ?rt) \<subseteq> set used"
      using ended over ids i(1) unfolding ids_ok_def by blast+
    moreover have "\<forall>j \<in> set (releasing_ids ?rt). \<not> gone j ?rt"
      using ids g unfolding rel ids_ok_def by blast
    ultimately show "ids_ok used ?rt" using ids rel unfolding ids_ok_def by blast
    show "wf_map (st_sessions (rt_store ?rt))" using inv by (simp add: fields frame runtime_inv_def)
    have "history_inv (delete_session ?i (rt_store rt))"
      using hist history_inv_cong[of "delete_session ?i (rt_store rt)" "rt_store rt"] by (simp add: frame)
    moreover have "?i \<notin> set (keys (st_terminated (delete_session ?i (rt_store rt))))"
      using i(3) by (simp add: gone_def frame)
    ultimately show "history_inv (rt_store ?rt)" unfolding fields using i(2) by (intro history_inv_storeTerminated)
    fix j s assume "get_session j (rt_store ?rt) = Some s"
    then have j: "j \<noteq> ?i" "get_session j (rt_store rt) = Some s" by (simp_all add: get split: if_splits)
    with inv have "session_ok used rt j s" by (simp add: runtime_inv_def)
    with j(1) g show "session_ok used ?rt j s" unfolding session_ok_def rel by blast
  qed
qed

lemma terminated_cleanup:
  "set (keys (st_terminated (cleanupTerminatedSessions maxAge now st))) \<subseteq> set (keys (st_terminated st))
   \<and> st_sessions (cleanupTerminatedSessions maxAge now st) = st_sessions st"
proof -
  define d where "d = (\<lambda>(i, item :: terminated_session) st. if t_terminatedAt item < now - maxAge then deleteTerminated i st else st)"
  have sub: "set (keys (st_terminated (d x st))) \<subseteq> set (keys (st_terminated st)) \<and> st_sessions (d x st) = st_sessions st" for x st
    by (cases x) (simp add: d_def terminated_deleteTerminated keys_delete frame del: set_map)
  have "set (keys (st_terminated (fold d xs st))) \<subseteq> set (keys (st_terminated st)) \<and> st_sessions (fold d xs st) = st_sessions st" for xs
  proof (induction xs arbitrary: st)
    case Nil
    then show ?case by simp
  next
    case (Cons x xs)
    from Cons[of "d x st"] sub[of x st] show ?case by (simp del: set_map) blast
  qed
  from this[of "st_terminated st"] show ?thesis unfolding cleanupTerminatedSessions_def d_def .
qed

lemma runtime_inv_cleanup:
  assumes inv: "runtime_inv used rt"
  shows "runtime_inv used (exec cap (E_cleanup maxAge now) rt)"
proof -
  let ?rt = "exec cap (E_cleanup maxAge now) rt"
  note c = terminated_cleanup[of maxAge now "rt_store rt"]
  have fields: "rt_releasing ?rt = rt_releasing rt" "rt_ended ?rt = rt_ended rt"
    "rt_store ?rt = cleanupTerminatedSessions maxAge now (rt_store rt)" by simp_all
  have g: "gone i ?rt \<Longrightarrow> gone i rt" for i using c unfolding gone_def fields by blast
  have get: "get_session i (rt_store ?rt) = get_session i (rt_store rt)" for i using c by (simp add: get_session_def)
  have ids: "ids_ok used rt" and old: "\<And>i s. get_session i (rt_store rt) = Some s \<Longrightarrow> session_ok used rt i s"
    using inv by (simp_all add: runtime_inv_def)
  show ?thesis
  proof (rule runtime_invI)
    show "ids_ok used ?rt" using ids c g unfolding ids_ok_def fields by blast
    show "wf_map (st_sessions (rt_store ?rt))" using inv c by (simp add: runtime_inv_def)
    show "history_inv (rt_store ?rt)" using inv by (simp add: history_inv_cleanup runtime_inv_def)
    fix i s assume "get_session i (rt_store ?rt) = Some s"
    then have "session_ok used rt i s" unfolding get by (rule old)
    then show "session_ok used ?rt i s" using g unfolding session_ok_def fields by blast
  qed
qed

lemma history_inv_empty: "history_inv empty_store"
  by (simp add: history_inv_def empty_store_def listed_def)

lemma runtime_inv_shutdown:
  assumes inv: "runtime_inv used rt"
  shows "runtime_inv used (exec cap E_shutdown rt)"
proof -
  have "ids_ok used rt" using inv by (simp add: runtime_inv_def)
  then show ?thesis
    using history_inv_empty
    by (intro runtime_invI) (auto simp: ids_ok_def clear_store_def gone_def get_session_def empty_store_def)
qed

lemma runtime_inv_exec:
  assumes inv: "runtime_inv used rt" and ok: "admissible used rt e"
  shows "runtime_inv (registered [e] @ used) (exec cap e rt)"
proof (cases "plain e")
  case True
  then show ?thesis using inv runtime_inv_same_books same_books_exec by (simp add: plain_registered)
next
  case False
  show ?thesis
  proof (cases e)
    case (E_register now r)
    with assms show ?thesis using runtime_inv_register[of used rt r cap now] by simp
  next
    case (E_cleanup maxAge now)
    with inv show ?thesis using runtime_inv_cleanup[of used rt cap maxAge now] by simp
  next
    case E_shutdown
    with inv show ?thesis using runtime_inv_shutdown[of used rt cap] by simp
  qed (use False assms runtime_inv_release runtime_inv_finalize in simp_all)
qed

lemma runtime_inv_initial: "runtime_inv [] initial_runtime"
  by (intro runtime_invI)
    (simp_all add: ids_ok_def initial_runtime_def history_inv_empty, simp_all add: empty_store_def get_session_def)

lemma runtime_inv_run: "valid_run cap es \<Longrightarrow> runtime_inv (registered (rev es)) (run_events cap es)"
proof (induction rule: run_induct)
  case start
  then show ?case by (simp add: runtime_inv_initial)
next
  case (step es e)
  from runtime_inv_exec[OF step(3,2), of cap] show ?case using registered_append[of "[e]" "rev es"] by simp
qed

lemma runtime_inv_from:
  "runtime_inv used rt \<Longrightarrow> valid_from cap used rt es \<Longrightarrow> runtime_inv (registered (rev es) @ used) (fold (exec cap) es rt)"
proof (induction es arbitrary: used rt)
  case Nil
  then show ?case by simp
next
  case (Cons e es)
  then have "runtime_inv (registered (rev es) @ registered [e] @ used) (fold (exec cap) es (exec cap e rt))"
    by (intro Cons.IH runtime_inv_exec) simp_all
  then show ?case by simp
qed

subsection \<open>A sample run\<close>

definition sample_registration :: "string \<Rightarrow> registration" where
  "sample_registration i =
     \<lparr>rg_id = i, rg_mediaFileId = ''film'', rg_profileId = ''ann'', rg_decision = sample_decision,
      rg_inputPath = ''film.mkv'', rg_tempDir = i, rg_softwareVideoTranscode = False, rg_durationMs = None\<rparr>"

definition sample_capacity :: capacity where
  "sample_capacity = \<lparr>maxSessions = 1, maxSessionsPerUser = None\<rparr>"

definition sample_play :: "runtime_event list" where
  "sample_play = [E_register 0 (sample_registration ''s1''), E_attach ''s1'' 7 0, E_touch ''s1'' 5000]"

definition sample_playing :: session where
  "sample_playing = (new_session 0 (sample_registration ''s1''))\<lparr>s_process := Some 7, s_generation := 1,
     s_state := Live, s_lastActivity := 5000\<rparr>"

definition sample_release :: releasing where
  "sample_release = \<lparr>re_id = ''s1'', re_reason = ''stop'', re_session = sample_playing\<lparr>s_state := Ending\<rparr>,
     re_playback = (0, 0)\<rparr>"

definition sample_stop :: "runtime_event list" where
  "sample_stop = [E_release ''s1'' ''stop'', E_finalize sample_release 6000]"

lemma sample_registration_id [simp]: "rg_id (sample_registration i) = i"
  by (simp add: sample_registration_def)

lemma sample_play_state:
  "run_events cap sample_play = initial_runtime\<lparr>rt_store := empty_store\<lparr>st_sessions := [(''s1'', sample_playing)]\<rparr>\<rparr>"
  by (simp add: run_events_def sample_play_def initial_runtime_def register_def empty_store_def start_attached_def
    attachProcess_def get_session_def update_session_def markStarted_def touch_def sample_playing_def new_session_def)

lemma valid_sample_play: "valid_run cap sample_play"
  by (simp add: valid_run_def sample_play_def)

lemma sample_claimed:
  "exec cap (E_release ''s1'' ''stop'') (run_events cap sample_play) =
     initial_runtime\<lparr>rt_store := empty_store\<lparr>st_sessions := [(''s1'', sample_playing\<lparr>s_state := Ending\<rparr>)]\<rparr>,
       rt_releasing := [sample_release]\<rparr>"
  by (simp add: sample_play_state releaseSession_def claimRelease_def get_session_def update_session_def playbackOf_def
    sample_release_def initial_runtime_def empty_store_def) (simp add: sample_playing_def)

lemma valid_sample_stop: "valid_run cap (sample_play @ sample_stop)"
  unfolding valid_run_append
  using valid_sample_play sample_claimed[of cap]
  by (simp add: sample_stop_def)

lemma sample_stopped:
  fixes cap
  defines "rt \<equiv> run_events cap (sample_play @ sample_stop)"
  shows "ended_ids rt = [''s1'']"
    and sample_history: "st_terminated (rt_store rt) =
      [(''s1'', \<lparr>t_mediaFileId = ''film'', t_profileId = ''ann'', t_reason = ''stop'', t_terminatedAt = 6000\<rparr>)]"
proof -
  have "rt = finalizeRelease sample_release 6000 (exec cap (E_release ''s1'' ''stop'') (run_events cap sample_play))"
    by (simp add: run_events_append sample_stop_def rt_def)
  also have "\<dots> = finalizeRelease sample_release 6000 (initial_runtime\<lparr>
      rt_store := empty_store\<lparr>st_sessions := [(''s1'', sample_playing\<lparr>s_state := Ending\<rparr>)]\<rparr>, rt_releasing := [sample_release]\<rparr>)"
    by (simp only: sample_claimed)
  finally show "ended_ids rt = [''s1'']" and "st_terminated (rt_store rt) =
      [(''s1'', \<lparr>t_mediaFileId = ''film'', t_profileId = ''ann'', t_reason = ''stop'', t_terminatedAt = 6000\<rparr>)]"
    by (simp_all add: finalizeRelease_fields final_session_def get_session_def initial_runtime_def storeTerminated_def
      drop_oldest_terminated_def MAX_TERMINATED_SESSIONS_def delete_session_def empty_store_def Let_def end_of_def
      sample_release_def sample_playing_def new_session_def sample_registration_def)
qed

subsection \<open>One end, no resurrection\<close>

text \<open>
  C14. In every run of the streaming runtime a session is announced as ended at most once, an
  announced or recorded end is final (no session of that id is left, and none is being released
  again), and the history of terminated sessions keeps its limit and its exact index.
\<close>

theorem session_ends_once:
  assumes "valid_run cap es"
  shows "distinct (ended_ids (run_events cap es))
    \<and> (\<forall>i \<in> set (ended_ids (run_events cap es)) \<union> set (terminated_ids (run_events cap es)).
          get_session i (rt_store (run_events cap es)) = None \<and> i \<notin> set (releasing_ids (run_events cap es)))
    \<and> history_inv (rt_store (run_events cap es))"
proof -
  let ?rt = "run_events cap es"
  have inv: "runtime_inv (registered (rev es)) ?rt" by (rule runtime_inv_run) fact
  then have ids: "ids_ok (registered (rev es)) ?rt" by (simp add: runtime_inv_def)
  have "get_session i (rt_store ?rt) = None \<and> i \<notin> set (releasing_ids ?rt)"
    if "i \<in> set (ended_ids ?rt) \<union> set (terminated_ids ?rt)" for i
  proof -
    from that have g: "gone i ?rt" unfolding gone_def by blast
    have "get_session i (rt_store ?rt) \<noteq> Some s" for s using inv g by (auto simp: runtime_inv_def session_ok_def)
    moreover have "i \<notin> set (releasing_ids ?rt)" using ids g unfolding ids_ok_def by blast
    ultimately show ?thesis by (cases "get_session i (rt_store ?rt)") auto
  qed
  moreover have "distinct (ended_ids ?rt)" using ids by (simp add: ids_ok_def)
  moreover have "history_inv (rt_store ?rt)" using inv by (simp add: runtime_inv_def)
  ultimately show ?thesis by blast
qed

theorem session_ends_once_witness:
  "ended_ids (run_events sample_capacity (sample_play @ sample_stop)) = [''s1'']
   \<and> get_session ''s1'' (rt_store (run_events sample_capacity (sample_play @ sample_stop))) = None
   \<and> history_inv (rt_store (run_events sample_capacity (sample_play @ sample_stop)))"
  using session_ends_once[OF valid_sample_stop[of sample_capacity]] sample_stopped(1)[of sample_capacity] by simp

text \<open>A session that is being released, or is over, as a later state may show it.\<close>

fun is_over :: "session option \<Rightarrow> bool" where
  "is_over None = True"
| "is_over (Some s) = (s_state s = Ending)"

fun only_winds_down :: "session option \<Rightarrow> session option \<Rightarrow> bool" where
  "only_winds_down before None = True"
| "only_winds_down None (Some s') = False"
| "only_winds_down (Some s) (Some s') =
     (s_state s' = Ending \<and> s_generation s' = s_generation s \<and> s_process s' \<in> {None, s_process s})"

lemma winds_down_trans: "only_winds_down a b \<Longrightarrow> only_winds_down b c \<Longrightarrow> only_winds_down a c"
  by (cases a; cases b; cases c) auto

lemma winds_down_over: "only_winds_down a b \<Longrightarrow> is_over b"
  by (cases a; cases b) auto

lemma winds_down_same: "is_over a \<Longrightarrow> only_winds_down a a"
  by (cases a) auto

lemma winds_down_same_books:
  assumes same: "same_books rt rt'" and "is_over (get_session i (rt_store rt))"
  shows "only_winds_down (get_session i (rt_store rt)) (get_session i (rt_store rt'))"
proof (cases "get_session i (rt_store rt')")
  case (Some s')
  with same obtain s where s: "get_session i (rt_store rt) = Some s" "same_session s s'"
    unfolding same_books_def by blast
  with assms(2) have "s_state s = Ending" by simp
  from same_sessionD[OF s(2) this] s(1) Some show ?thesis by simp
qed simp

lemma winds_down_exec:
  assumes inv: "runtime_inv used rt" and ok: "admissible used rt e"
    and i: "i \<in> set used" and "is_over (get_session i (rt_store rt))"
  shows "only_winds_down (get_session i (rt_store rt)) (get_session i (rt_store (exec cap e rt)))"
proof -
  have rel: "only_winds_down (get_session i (rt_store rt)) (get_session i (rt_store (snd (releaseSession j reason p rt))))"
    for j reason p
    using winds_down_same[OF assms(4)]
  proof (cases rule: releaseSession_cases[of j reason p rt])
    case (claimed s)
    with assms(4) winds_down_same[OF assms(4)] show ?thesis by (cases "i = j") (auto simp: get_update_session)
  qed simp
  consider (plain) "plain e" | (other) "\<not> plain e" by blast
  then show ?thesis
  proof cases
    case plain
    from winds_down_same_books[OF same_books_exec[OF plain] assms(4)] show ?thesis .
  next
    case other
    then show ?thesis
    proof (cases e)
      case (E_register now r)
      with ok i have "i \<noteq> rg_id r" by auto
      with winds_down_same[OF assms(4)] show ?thesis
        by (simp add: E_register register_def get_session_def map_of_update)
    next
      case (E_finalize r now)
      with winds_down_same[OF assms(4)] show ?thesis
        by (simp add: finalizeRelease_fields get_session_def frame map_of_delete_eq)
    next
      case (E_cleanup maxAge now)
      with winds_down_same[OF assms(4)] terminated_cleanup[of maxAge now "rt_store rt"] show ?thesis
        by (simp add: get_session_def)
    next
      case E_shutdown
      then show ?thesis by (simp add: get_session_def clear_store_def empty_store_def)
    qed (use rel in simp_all)
  qed
qed

lemma winds_down_from:
  assumes "runtime_inv used rt" and "valid_from cap used rt es" and "i \<in> set used" and "is_over (get_session i (rt_store rt))"
  shows "only_winds_down (get_session i (rt_store rt)) (get_session i (rt_store (fold (exec cap) es rt)))"
  using assms
proof (induction es arbitrary: used rt)
  case Nil
  then show ?case by (simp add: winds_down_same)
next
  case (Cons e es)
  from Cons.prems have ok: "admissible used rt e" and rest: "valid_from cap (registered [e] @ used) (exec cap e rt) es"
    by simp_all
  have one: "only_winds_down (get_session i (rt_store rt)) (get_session i (rt_store (exec cap e rt)))"
    by (rule winds_down_exec[OF Cons.prems(1) ok Cons.prems(3,4)])
  have "only_winds_down (get_session i (rt_store (exec cap e rt))) (get_session i (rt_store (fold (exec cap) es (exec cap e rt))))"
    by (rule Cons.IH[OF runtime_inv_exec[OF Cons.prems(1) ok] rest]) (use Cons.prems(3) winds_down_over[OF one] in auto)
  with one show ?case by (simp add: winds_down_trans)
qed

text \<open>
  C15. A session whose release was claimed, or that is over, never plays again: whatever
  happens next, in any order, it gets no new process and no new generation, and access to it is
  refused, until it is gone for good.
\<close>

theorem released_session_never_resumes:
  assumes "valid_run cap (es @ es')" and "i \<in> set (registered es)"
    and "is_over (get_session i (rt_store (run_events cap es)))"
  shows "only_winds_down (get_session i (rt_store (run_events cap es))) (get_session i (rt_store (run_events cap (es @ es'))))
    \<and> getSessionAccess i (rt_store (run_events cap (es @ es'))) = None
    \<and> \<not> isSessionActive i (rt_store (run_events cap (es @ es')))"
proof -
  from assms(1) have v: "valid_run cap es" and v': "valid_from cap (registered (rev es)) (run_events cap es) es'"
    by (simp_all add: valid_run_append)
  have i: "i \<in> set (registered (rev es))" using assms(2) by (simp only: set_registered_rev)
  have w: "only_winds_down (get_session i (rt_store (run_events cap es))) (get_session i (rt_store (run_events cap (es @ es'))))"
    unfolding run_events_append by (rule winds_down_from[OF runtime_inv_run[OF v] v' i assms(3)])
  from winds_down_over[OF this] w show ?thesis
    by (auto simp: getSessionAccess_def isSessionActive_def split: option.splits)
qed

theorem released_session_never_resumes_witness:
  "is_over (get_session ''s1'' (rt_store (run_events sample_capacity (sample_play @ sample_stop))))
   \<and> getSessionAccess ''s1'' (rt_store (run_events sample_capacity
       ((sample_play @ [E_release ''s1'' ''stop'']) @ [E_prepare ''s1'', E_attach ''s1'' 8 60]))) = None"
proof -
  let ?es = "sample_play @ [E_release ''s1'' ''stop'']"
  have over: "is_over (get_session ''s1'' (rt_store (run_events sample_capacity ?es)))"
    using sample_claimed[of sample_capacity] by (simp add: run_events_append get_session_def initial_runtime_def empty_store_def)
  have reg: "''s1'' \<in> set (registered ?es)" by (simp add: sample_play_def)
  have valid: "valid_run sample_capacity ?es" "valid_run sample_capacity (?es @ [E_finalize sample_release 6000])"
    using valid_sample_stop[of sample_capacity] by (simp_all add: sample_stop_def valid_run_append valid_from_append run_events_append)
  have v: "valid_run sample_capacity (?es @ [E_prepare ''s1'', E_attach ''s1'' 8 60])"
    using valid(1) unfolding valid_run_append[of _ ?es] by simp
  have "only_winds_down (get_session ''s1'' (rt_store (run_events sample_capacity ?es)))
      (get_session ''s1'' (rt_store (run_events sample_capacity (?es @ [E_finalize sample_release 6000]))))"
    using released_session_never_resumes[OF valid(2) reg over] by blast
  then have "is_over (get_session ''s1'' (rt_store (run_events sample_capacity (?es @ [E_finalize sample_release 6000]))))"
    by (rule winds_down_over)
  moreover have "sample_play @ sample_stop = ?es @ [E_finalize sample_release 6000]" by (simp add: sample_stop_def)
  ultimately show ?thesis using released_session_never_resumes[OF v reg over] by (simp only: simp_thms)
qed

subsection \<open>Inactivity\<close>

text \<open>The last contact of a session's client and its open segment requests, read off the run.\<close>

fun contact :: "string \<Rightarrow> runtime_event \<Rightarrow> int option \<Rightarrow> int option" where
  "contact i (E_register now r) t = (if rg_id r = i then Some now else t)"
| "contact i (E_touch j now) t = (if j = i then Some now else t)"
| "contact i _ t = t"

definition last_contact :: "string \<Rightarrow> runtime_event list \<Rightarrow> int option" where
  "last_contact i es = fold (contact i) es None"

fun segment_count :: "string \<Rightarrow> runtime_event \<Rightarrow> nat \<Rightarrow> nat" where
  "segment_count i (E_begin_segment j) n = (if j = i then n + 1 else n)"
| "segment_count i (E_end_segment j) n = (if j = i then n - 1 else n)"
| "segment_count i _ n = n"

definition open_segments :: "string \<Rightarrow> runtime_event list \<Rightarrow> nat" where
  "open_segments i es = fold (segment_count i) es 0"

lemma contact_other: "(\<And>now r. e \<noteq> E_register now r) \<Longrightarrow> (\<And>j now. e \<noteq> E_touch j now) \<Longrightarrow> contact i e t = t"
  by (cases e) auto

lemma activity_update:
  assumes "\<And>s. s_lastActivity (f s) = s_lastActivity s" and "get_session i (update_session j f st) = Some s'"
  shows "\<exists>s. get_session i st = Some s \<and> s_lastActivity s = s_lastActivity s'"
  using assms by (auto simp: get_update_session split: if_splits)

lemma activity_exec:
  assumes "\<And>now r. e \<noteq> E_register now r" and "\<And>j now. e \<noteq> E_touch j now"
    and "get_session i (rt_store (exec cap e rt)) = Some s'"
  shows "\<exists>s. get_session i (rt_store rt) = Some s \<and> s_lastActivity s = s_lastActivity s'"
proof -
  have rel: "\<exists>s. get_session i (rt_store rt) = Some s \<and> s_lastActivity s = s_lastActivity s'"
    if "get_session i (rt_store (snd (releaseSession j reason p rt))) = Some s'" for j reason p
    using that by (cases rule: releaseSession_cases[of j reason p rt])
      (auto simp: get_update_session split: if_splits)
  show ?thesis
  proof (cases e)
    case (E_attach j p t)
    with assms(3) show ?thesis
      by (cases rule: attachProcess_cases[of j p t "rt_store rt"])
        (auto simp: start_attached_def get_update_session split: if_splits)
  next
    case (E_heartbeat j pos paused now)
    with assms(3) show ?thesis
      by (cases "get_session j (rt_store rt) = None")
        (auto simp: recordHeartbeatPosition_def get_session_def frame dest!: activity_update[rotated, unfolded get_session_def])
  next
    case (E_fallback j hw)
    with assms(3) show ?thesis
      by (auto simp: software_fallback_def markSoftwareVideoSession_def setDecision_def get_update_session
        split: option.splits if_splits)
  next
    case (E_finalize r now)
    with assms(3) show ?thesis
      by (auto simp: finalizeRelease_fields get_session_def frame map_of_delete_eq split: if_splits)
  next
    case (E_discard j)
    with assms(3) show ?thesis
      by (auto simp: discardSession_def get_delete_session split: option.splits if_splits)
  next
    case (E_cleanup maxAge now)
    with assms(3) terminated_cleanup[of maxAge now "rt_store rt"] show ?thesis by (simp add: get_session_def)
  next
    case E_shutdown
    with assms(3) show ?thesis by (simp add: clear_store_def get_session_def empty_store_def)
  next
    case (E_release j reason)
    with assms(3) rel show ?thesis by simp
  next
    case (E_release_inactive j now timeout)
    with assms(3) rel show ?thesis by simp
  next
    case (E_operation j oid)
    with assms(3) show ?thesis
      by (auto simp: setSessionOperation_def get_update_session split: if_splits)
  next
    case (E_stop j p)
    with assms(3) show ?thesis by (auto simp: detachProcess_def get_update_session split: if_splits)
  next
    case (E_start_operation j oid)
    with assms(3) show ?thesis
      by (auto simp: start_operation_def get_update_session split: option.splits if_splits)
  next
    case (E_progress j p q r)
    with assms(3) show ?thesis by (auto simp: setTranscodeProgress_def get_update_session split: if_splits)
  next
    case (E_software_reserve j limit)
    with assms(3) show ?thesis by (simp add: get_session_def frame)
  next
    case (E_software_release j)
    with assms(3) show ?thesis by (simp add: get_session_def releaseSoftwareTranscode_def)
  qed (use assms in \<open>simp_all add: prepare_reserve_def split: if_splits\<close>)
qed

lemma ending_exec:
  assumes "runtime_inv used rt" and "admissible used rt e" and "i \<in> set used"
    and "get_session i (rt_store rt) = Some s" "s_state s = Ending"
    and "get_session i (rt_store (exec cap e rt)) = Some s'"
  shows "s_state s' = Ending"
proof -
  have "is_over (get_session i (rt_store rt))" using assms(4,5) by simp
  from winds_down_exec[OF assms(1-3) this, of cap] assms(4-6) show ?thesis by simp
qed

lemma last_activity_is_last_contact:
  "valid_run cap es \<Longrightarrow>
     \<forall>i s. get_session i (rt_store (run_events cap es)) = Some s \<longrightarrow> s_state s \<noteq> Ending \<longrightarrow>
       last_contact i es = Some (s_lastActivity s)"
proof (induction rule: run_induct)
  case start
  then show ?case by (simp add: initial_runtime_def empty_store_def get_session_def)
next
  case (step es e)
  let ?rt = "run_events cap es"
  have inv: "runtime_inv (registered (rev es)) ?rt" by (rule runtime_inv_run) fact
  show ?case
  proof (intro allI impI)
    fix i s' assume s': "get_session i (rt_store (exec cap e ?rt)) = Some s'" and live: "s_state s' \<noteq> Ending"
    show "last_contact i (es @ [e]) = Some (s_lastActivity s')"
    proof (cases "(\<exists>now r. e = E_register now r) \<or> (\<exists>j now. e = E_touch j now)")
      case False
      then obtain s where s: "get_session i (rt_store ?rt) = Some s" "s_lastActivity s = s_lastActivity s'"
        using activity_exec[OF _ _ s'] by blast
      have "i \<in> set (registered (rev es))" using inv s(1) by (simp add: runtime_inv_def session_ok_def)
      with ending_exec[OF inv step(2) _ s(1) _ s'] live have "s_state s \<noteq> Ending" by blast
      with step(3) s have "last_contact i es = Some (s_lastActivity s')" by simp
      with False show ?thesis by (simp add: last_contact_def contact_other)
    next
      case True
      then show ?thesis
      proof (elim disjE exE)
        fix now r assume e: "e = E_register now r"
        show ?thesis
        proof (cases "rg_id r = i \<and> \<not> has i (st_sessions (rt_store ?rt))")
          case True
          with s' e show ?thesis by (auto simp: last_contact_def register_def get_session_def map_of_update)
        next
          case False
          have "rg_id r \<noteq> i"
          proof
            assume i: "rg_id r = i"
            with False obtain s where "get_session i (rt_store ?rt) = Some s" by (auto simp: get_session_def)
            with inv step(2) e i show False by (simp add: runtime_inv_def session_ok_def)
          qed
          with s' e have "get_session i (rt_store ?rt) = Some s'"
            by (auto simp: register_def get_session_def map_of_update split: if_splits)
          with step(3) live e \<open>rg_id r \<noteq> i\<close> show ?thesis by (simp add: last_contact_def)
        qed
      next
        fix j now assume e: "e = E_touch j now"
        show ?thesis
        proof (cases "i = j")
          case True
          with s' e obtain t where "s' = (if s_state t = Ending then t else t\<lparr>s_lastActivity := now\<rparr>)"
            by (auto simp: touch_def get_update_session)
          with live have "s_lastActivity s' = now" by (cases "s_state t = Ending") simp_all
          with True e show ?thesis by (simp add: last_contact_def)
        next
          case False
          with s' live step(3) e show ?thesis by (simp add: touch_def get_update_session last_contact_def)
        qed
      qed
    qed
  qed
qed

lemma inflight_exec:
  "(case map_of (rt_inflight (exec cap e rt)) i of None \<Rightarrow> 0 | Some n \<Rightarrow> n) =
     segment_count i e (case map_of (rt_inflight rt) i of None \<Rightarrow> 0 | Some n \<Rightarrow> n)"
proof (cases e)
  case (E_begin_segment j)
  then show ?thesis by (simp add: beginSegment_def map_of_update)
next
  case (E_end_segment j)
  then show ?thesis by (auto simp: endSegment_def Let_def map_of_update map_of_delete_eq split: option.splits)
next
  case (E_register now r)
  then show ?thesis by (simp split: sum.splits)
next
  case (E_release j reason)
  then show ?thesis by (cases rule: releaseSession_cases[of j reason None rt]) simp_all
next
  case (E_release_inactive j now timeout)
  then show ?thesis
    by (cases rule: releaseSession_cases[of j "''inactivity-timeout''" "Some (fresh_enough now timeout)" rt]) simp_all
qed (simp_all add: prepare_reserve_def start_attached_def software_fallback_def discardSession_def finalizeRelease_def Let_def
    split: sum.splits option.splits)

lemma open_segments_inflight:
  "open_segments i es = (case map_of (rt_inflight (run_events cap es)) i of None \<Rightarrow> 0 | Some n \<Rightarrow> n)"
proof (induction es rule: rev_induct)
  case Nil
  then show ?case by (simp add: open_segments_def run_events_def initial_runtime_def)
next
  case (snoc e es)
  then show ?case by (simp add: open_segments_def run_events_append inflight_exec)
qed

lemma hasInflight_open: "hasInflightSegment i (rt_inflight (run_events cap es)) \<longleftrightarrow> open_segments i es > 0"
  using open_segments_inflight[of i es cap] by (auto simp: hasInflightSegment_def split: option.splits)

lemma in_inactive_sessions:
  assumes inv: "runtime_inv used rt" and s: "get_session i (rt_store rt) = Some s"
  shows "i \<in> set (inactive_sessions now timeout seeking inflight (rt_store rt)) \<longleftrightarrow>
     s_state s = Live \<and> \<not> seeking i \<and> \<not> hasInflightSegment i inflight \<and> now - s_lastActivity s > timeout"
proof -
  have id: "s_id t = j" if "(j, t) \<in> set (st_sessions (rt_store rt))" for j t
  proof -
    have "get_session j (rt_store rt) = Some t"
      using inv that unfolding get_session_def runtime_inv_def by (simp add: map_of_is_SomeI)
    with inv show ?thesis by (simp add: runtime_inv_def session_ok_def)
  qed
  have mem: "(i, s) \<in> set (st_sessions (rt_store rt))" using s by (simp add: get_session_def map_of_SomeD)
  have uniq: "t = s" if "(i, t) \<in> set (st_sessions (rt_store rt))" for t
    using s inv that unfolding get_session_def runtime_inv_def by (simp add: map_of_is_SomeI)
  show ?thesis (is "?L \<longleftrightarrow> ?R")
  proof
    assume ?L
    then obtain j t where t: "(j, t) \<in> set (st_sessions (rt_store rt))" "s_id t = i" "s_state t = Live" "\<not> seeking (s_id t)"
        "\<not> hasInflightSegment (s_id t) inflight" "now - s_lastActivity t > timeout"
      by (auto simp: inactive_sessions_def session_values_def)
    with id have "j = i" by blast
    with t uniq show ?R by simp
  next
    assume ?R
    with mem id[OF mem] show ?L by (force simp: inactive_sessions_def session_values_def)
  qed
qed



end
