(* ===== verification/Session_Capacity.thy ===== *)
theory Session_Capacity
  imports Session_Safety
begin

section \<open>Capacity, played time and recent terminations\<close>

text \<open>
  How far the slots of the server are respected along the runs of \<open>Session_Safety\<close>, the
  bounds of the played time a session reports, and what the index of the terminated sessions
  answers.
\<close>

subsection \<open>Slots\<close>

text \<open>The sessions that hold a slot: a process is attached, or one is reserved for it.\<close>

definition slots :: "runtime \<Rightarrow> string set" where
  "slots rt = {i. isAttached i (rt_store rt)} \<union> set (rs_reservedIds (rt_reservations rt))"

lemma attached_keys: "isAttached i st \<Longrightarrow> i \<in> set (keys (st_sessions st))"
  using has_iff_keys[of "st_sessions st" i] by (auto simp: isAttached_def get_session_def split: option.splits)

lemma finite_attached [simp]: "finite {i. isAttached i st}"
  by (rule finite_subset[OF _ finite_set[of "keys (st_sessions st)"]]) (use attached_keys in blast)

lemma finite_slots [simp]: "finite (slots rt)"
  by (simp add: slots_def)

lemma card_attached:
  assumes "wf_map (st_sessions st)"
  shows "card {i. isAttached i st} = attachedCount st"
proof -
  let ?l = "filter (\<lambda>(i, s). s_process s \<noteq> None) (st_sessions st)"
  have "isAttached i st \<longleftrightarrow> i \<in> set (map fst ?l)" for i
  proof
    assume "isAttached i st"
    then obtain s where "map_of (st_sessions st) i = Some s" "s_process s \<noteq> None"
      by (auto simp: isAttached_def get_session_def split: option.splits)
    then show "i \<in> set (map fst ?l)" by (force dest: map_of_SomeD)
  next
    assume "i \<in> set (map fst ?l)"
    then obtain s where "(i, s) \<in> set (st_sessions st)" "s_process s \<noteq> None" by auto
    with assms show "isAttached i st" by (simp add: isAttached_def get_session_def map_of_is_SomeI)
  qed
  then have "{i. isAttached i st} = set (map fst ?l)" by blast
  moreover have "distinct (map fst ?l)" using assms by (rule distinct_map_filter)
  ultimately have "card {i. isAttached i st} = length ?l" using distinct_card[of "map fst ?l"] by simp
  also have "\<dots> = attachedCount st"
    unfolding attachedCount_def session_values_def by (induction "st_sessions st" arbitrary: st rule: list.induct) (simp_all add: filter_map comp_def case_prod_unfold)
  finally show ?thesis .
qed

lemma slots_count:
  assumes "wf_map (st_sessions (rt_store rt))" and "distinct (rs_reservedIds (rt_reservations rt))"
  shows "attachedCount (rt_store rt) + countReservedNotActive (rt_store rt) (rt_reservations rt) = card (slots rt)"
proof -
  let ?a = "{i. isAttached i (rt_store rt)}"
  let ?r = "filter (\<lambda>i. \<not> isAttached i (rt_store rt)) (rs_reservedIds (rt_reservations rt))"
  have "slots rt = ?a \<union> set ?r" by (auto simp: slots_def)
  moreover have "?a \<inter> set ?r = {}" by auto
  ultimately have "card (slots rt) = card ?a + card (set ?r)" by (simp add: card_Un_disjoint)
  moreover have "card (set ?r) = length ?r" using assms(2) by (intro distinct_card) simp
  ultimately show ?thesis using card_attached[OF assms(1)] by (simp add: countReservedNotActive_def)
qed

lemma bind_user_reserved [simp]: "rs_reservedIds (bind_user i u tr) = rs_reservedIds tr"
  by (simp add: bind_user_def split: option.splits)

lemma forceReserve_reserved: "rs_reservedIds (forceReserve i u tr) = js_add i (rs_reservedIds tr)"
  by (simp add: forceReserve_def)

lemma release_reservation_reserved: "rs_reservedIds (release_reservation st i tr) = removeAll i (rs_reservedIds tr)"
  by (simp add: release_reservation_def Let_def)

text \<open>A slot is granted only while one is free, or to its holder.\<close>

lemma reserve_cases:
  obtains (denied) "reserve cap st i u tr = (False, tr)" "\<not> isAttached i st" "i \<notin> set (rs_reservedIds tr)"
  | (held) "reserve cap st i u tr = (True, bind_user i u tr)" "isAttached i st \<or> i \<in> set (rs_reservedIds tr)"
  | (granted) "reserve cap st i u tr = (True, bind_user i u (tr\<lparr>rs_reservedIds := js_add i (rs_reservedIds tr)\<rparr>))"
      "\<not> isAttached i st" "i \<notin> set (rs_reservedIds tr)"
      "int (attachedCount st + countReservedNotActive st tr) < maxSessions cap"
proof (cases "isAttached i st \<or> i \<in> set (rs_reservedIds tr)")
  case True
  then show ?thesis using held by (simp add: reserve_def Let_def canReserveStreamingSession_def)
next
  case False
  define ok where "ok = canReserveStreamingSession (int (attachedCount st)) (int (countReservedNotActive st tr)) (maxSessions cap)
    (map_option (\<lambda>x. int (activeUserSessions st tr x)) (if maxSessionsPerUser cap = None then None else user_id u))
    (map_option (\<lambda>x. int (reservedUserSessions st tr i x)) (if maxSessionsPerUser cap = None then None else user_id u))
    (maxSessionsPerUser cap) False"
  have eq: "reserve cap st i u tr =
      (if ok then (True, bind_user i u (tr\<lparr>rs_reservedIds := js_add i (rs_reservedIds tr)\<rparr>)) else (False, tr))"
    using False unfolding reserve_def Let_def ok_def by (simp only: simp_thms if_False if_not_P if_cancel split: if_split) simp
  have "ok \<Longrightarrow> int (attachedCount st + countReservedNotActive st tr) < maxSessions cap"
    by (simp add: ok_def canReserveStreamingSession_def split: if_splits)
  with False eq show ?thesis using denied granted by (cases ok) simp_all
qed

lemma reserve_distinct:
  "distinct (rs_reservedIds tr) \<Longrightarrow> distinct (rs_reservedIds (snd (reserve cap st i u tr)))"
  by (cases rule: reserve_cases[of cap st i u tr]) simp_all

lemma reserved_distinct:
  "valid_run cap es \<Longrightarrow> distinct (rs_reservedIds (rt_reservations (run_events cap es)))"
proof (induction rule: run_induct)
  case start
  then show ?case by (simp add: initial_runtime_def)
next
  case (step es e)
  have rel: "rt_reservations (snd (releaseSession i reason p rt)) = rt_reservations rt" for i reason p rt
    by (cases rule: releaseSession_cases[of i reason p rt]) simp_all
  show ?case using step(3)
    by (cases e) (auto simp: reserve_distinct release_reservation_reserved forceReserve_reserved prepare_reserve_def
      start_attached_def markStarted_def software_fallback_def discardSession_def unbindUser_def finalizeRelease_def
      Let_def rel clear_tracker_def distinct_removeAll split: sum.splits option.splits)
qed

subsection \<open>The limit\<close>

lemma isAttached_update:
  assumes "\<And>s. s_process (f s) = None \<or> s_process (f s) = s_process s"
  shows "isAttached j (update_session i f st) \<Longrightarrow> isAttached j st"
  using assms[of "the (get_session j st)"]
  by (cases "get_session j st") (auto simp: isAttached_def get_update_session split: if_splits)

lemma slots_sub:
  assumes "\<And>i. isAttached i (rt_store rt') \<Longrightarrow> isAttached i (rt_store rt)"
    and "set (rs_reservedIds (rt_reservations rt')) \<subseteq> set (rs_reservedIds (rt_reservations rt))"
  shows "slots rt' \<subseteq> slots rt"
  using assms by (auto simp: slots_def)

lemma slots_attach: "slots (start_attached i p t rt) \<subseteq> insert i (slots rt)"
proof (cases rule: attachProcess_cases[of i p t "rt_store rt"])
  case (refused e)
  then show ?thesis by (auto simp: start_attached_def)
next
  case (attached s)
  then show ?thesis
    by (auto simp: start_attached_def slots_def markStarted_def isAttached_def get_update_session split: if_splits)
qed

lemma slots_prepare: "slots (prepare_reserve i rt) \<subseteq> insert i (slots rt)"
  by (auto simp: prepare_reserve_def slots_def forceReserve_reserved)

lemma slots_release: "slots (snd (releaseSession i reason p rt)) \<subseteq> slots rt"
proof (cases rule: releaseSession_cases[of i reason p rt])
  case (claimed s)
  then show ?thesis by (intro slots_sub) (auto dest: isAttached_update[rotated])
qed simp

lemma isAttached_sessions: "st_sessions st' = st_sessions st \<Longrightarrow> isAttached i st' = isAttached i st"
  by (simp add: isAttached_def get_session_def)

lemma slots_register: "slots (exec cap (E_register now r) rt) \<subseteq> slots rt"
proof (cases "register now r (rt_store rt)")
  case (Inr st)
  then have "isAttached i st \<Longrightarrow> isAttached i (rt_store rt)" for i
    by (auto simp: register_def isAttached_def get_session_def map_of_update new_session_def split: if_splits option.splits)
  with Inr show ?thesis by (auto simp: slots_def)
qed simp

lemma isAttached_delete: "isAttached j (delete_session i st) \<longleftrightarrow> j \<noteq> i \<and> isAttached j st"
  by (simp add: isAttached_def get_delete_session)

lemma slots_finalize: "slots (finalizeRelease r now rt) \<subseteq> slots rt - {re_id r}"
proof -
  have "isAttached j (rt_store (finalizeRelease r now rt)) \<longleftrightarrow> j \<noteq> re_id r \<and> isAttached j (rt_store rt)" for j
    by (simp add: finalizeRelease_fields isAttached_def get_session_def frame map_of_delete_eq)
  moreover have "rs_reservedIds (rt_reservations (finalizeRelease r now rt)) =
      removeAll (re_id r) (rs_reservedIds (rt_reservations rt))"
    by (simp add: finalizeRelease_def Let_def unbindUser_def release_reservation_reserved)
  ultimately show ?thesis by (auto simp: slots_def)
qed

text \<open>The events that take a slot without asking for one.\<close>

fun takes_slot :: "runtime_event \<Rightarrow> string option" where
  "takes_slot (E_prepare i) = Some i"
| "takes_slot (E_attach i p t) = Some i"
| "takes_slot _ = None"

lemma slots_exec:
  assumes "takes_slot e = None"
  shows "slots (exec cap e rt) \<subseteq> slots rt
     \<or> (\<exists>i. slots (exec cap e rt) \<subseteq> insert i (slots rt)
          \<and> int (attachedCount (rt_store rt) + countReservedNotActive (rt_store rt) (rt_reservations rt)) < maxSessions cap)"
proof (cases e)
  case (E_reserve i u)
  show ?thesis
  proof (cases rule: reserve_cases[of cap "rt_store rt" i u "rt_reservations rt"])
    case granted
    with E_reserve have "slots (exec cap e rt) \<subseteq> insert i (slots rt)" by (auto simp: slots_def)
    with granted show ?thesis by blast
  qed (use E_reserve in \<open>simp_all add: slots_def\<close>)
next
  case (E_heartbeat i p q now)
  have "isAttached j (recordHeartbeatPosition i p q now (rt_store rt)) \<Longrightarrow> isAttached j (rt_store rt)" for j
    by (auto simp: recordHeartbeatPosition_def isAttached_sessions[OF sessions_recordPlayedPosition(1)] split: if_splits
      dest: isAttached_update[rotated])
  with E_heartbeat show ?thesis by (intro disjI1 slots_sub) simp_all
next
  case (E_fallback i hw)
  have "isAttached j (rt_store (software_fallback i hw rt)) \<Longrightarrow> isAttached j (rt_store rt)" for j
    by (auto simp: software_fallback_def markSoftwareVideoSession_def setDecision_def split: option.splits if_splits
      dest!: isAttached_update[rotated])
  with E_fallback show ?thesis by (intro disjI1 slots_sub) (simp_all add: software_fallback_def split: option.splits)
next
  case (E_discard i)
  then show ?thesis
    by (intro disjI1 slots_sub) (auto simp: discardSession_def unbindUser_def isAttached_delete split: option.splits if_splits)
next
  case (E_finalize r now)
  with slots_finalize[of r now rt] show ?thesis by auto
next
  case (E_cleanup maxAge now)
  with isAttached_sessions[of "cleanupTerminatedSessions maxAge now (rt_store rt)" "rt_store rt"]
    terminated_cleanup[of maxAge now "rt_store rt"]
  show ?thesis by (intro disjI1 slots_sub) simp_all
next
  case (E_software_reserve i limit)
  with isAttached_sessions[OF sessions_software(1)] show ?thesis by (intro disjI1 slots_sub) simp_all
next
  case (E_software_release i)
  then show ?thesis
    by (intro disjI1 slots_sub) (simp_all add: releaseSoftwareTranscode_def isAttached_def get_session_def)
next
  case E_shutdown
  then show ?thesis
    by (intro disjI1 slots_sub) (simp_all add: clear_store_def clear_tracker_def isAttached_def get_session_def empty_store_def)
next
  case (E_register now r)
  with slots_register show ?thesis by blast
next
  case (E_operation i oid)
  then show ?thesis
    by (intro disjI1 slots_sub) (auto simp: setSessionOperation_def dest: isAttached_update[rotated] split: if_splits)
next
  case (E_stop i p)
  have "isAttached j (detachProcess i p (rt_store rt)) \<Longrightarrow> isAttached j (rt_store rt)" for j
    unfolding detachProcess_def by (rule isAttached_update) simp_all
  with E_stop show ?thesis by (intro disjI1 slots_sub) simp_all
next
  case (E_start_operation i oid)
  then show ?thesis
    by (intro disjI1 slots_sub) (auto simp: start_operation_def dest: isAttached_update[rotated] split: option.splits if_splits)
next
  case (E_touch i now)
  have "isAttached j (touch i now (rt_store rt)) \<Longrightarrow> isAttached j (rt_store rt)" for j
    unfolding touch_def by (rule isAttached_update) simp_all
  with E_touch show ?thesis by (intro disjI1 slots_sub) simp_all
next
  case (E_progress i p q r)
  then show ?thesis by (intro disjI1 slots_sub) (auto simp: setTranscodeProgress_def dest: isAttached_update[rotated])
next
  case (E_release i reason)
  with slots_release show ?thesis by simp
next
  case (E_release_inactive i now timeout)
  with slots_release show ?thesis by simp
qed (use assms in \<open>auto simp: slots_def release_reservation_reserved\<close>)

text \<open>A restart prepares and attaches only where the session still holds its slot.\<close>

fun slot_kept :: "runtime \<Rightarrow> runtime_event \<Rightarrow> bool" where
  "slot_kept rt e = (case takes_slot e of None \<Rightarrow> True
     | Some i \<Rightarrow> isAttached i (rt_store rt) \<or> i \<in> set (rs_reservedIds (rt_reservations rt)))"

fun slots_kept :: "capacity \<Rightarrow> runtime \<Rightarrow> runtime_event list \<Rightarrow> bool" where
  "slots_kept cap rt [] = True"
| "slots_kept cap rt (e # es) = (slot_kept rt e \<and> slots_kept cap (exec cap e rt) es)"

lemma slots_kept_snoc: "slots_kept cap rt (es @ [e]) \<longleftrightarrow> slots_kept cap rt es \<and> slot_kept (fold (exec cap) es rt) e"
  by (induction es arbitrary: rt) auto

lemma slots_exec_kept:
  assumes "slot_kept rt e" and "takes_slot e = Some i"
  shows "slots (exec cap e rt) \<subseteq> slots rt"
proof -
  have "i \<in> slots rt" using assms by (simp add: slots_def)
  moreover have "slots (exec cap e rt) \<subseteq> insert i (slots rt)"
    using assms(2) slots_prepare slots_attach by (cases e) auto
  ultimately show ?thesis by blast
qed



text \<open>
  A restart that failed has lost its slot: another session takes it, and the next seek of the
  first one reserves without a check. Two sessions play on a server limited to one.
\<close>

definition overbooking :: "runtime_event list" where
  "overbooking =
     [E_reserve ''s1'' None, E_register 0 (sample_registration ''s1''), E_attach ''s1'' 7 0,
      E_stop ''s1'' 7, E_prepare ''s1'', E_start_failed ''s1'',
      E_reserve ''s2'' None, E_register 1 (sample_registration ''s2''), E_attach ''s2'' 8 0,
      E_prepare ''s1'', E_attach ''s1'' 9 60]"

lemma failed_restart_overbooks:
  "valid_run sample_capacity overbooking \<and> maxSessions sample_capacity = 1
   \<and> attachedCount (rt_store (run_events sample_capacity overbooking)) = 2"
  by (simp add: valid_run_def overbooking_def run_events_def sample_capacity_def initial_runtime_def empty_store_def
    reserve_def Let_def canReserveStreamingSession_def attachedCount_def session_values_def countReservedNotActive_def
    isAttached_def get_session_def js_add_def bind_user_def user_id_def register_def start_attached_def attachProcess_def
    update_session_def markStarted_def detachProcess_def prepare_reserve_def has_session_def forceReserve_def
    release_reservation_def new_session_def)

subsection \<open>Played time\<close>

type_synonym heartbeat = "rat \<times> bool option \<times> int"

definition beat :: "string \<Rightarrow> heartbeat \<Rightarrow> session_store \<Rightarrow> session_store" where
  "beat i b st = (case b of (position, paused, now) \<Rightarrow> recordPlayedPosition i position paused now st)"

abbreviation beat_time :: "heartbeat \<Rightarrow> int" where
  "beat_time b \<equiv> snd (snd b)"

lemma beat_tracks:
  assumes "has i (st_sessions st)"
  shows "map_of (st_playedTime (beat i b st)) i =
      Some (let tracked = map_of (st_playedTime st) i in
        \<lparr>pl_playedSeconds = (case tracked of None \<Rightarrow> 0 | Some t \<Rightarrow> pl_playedSeconds t) +
           (if fst (snd b) = Some True then 0 else playedSecondsBetween tracked (fst b) (beat_time b)),
         pl_furthestPosition = max (case tracked of None \<Rightarrow> 0 | Some t \<Rightarrow> pl_furthestPosition t) (fst b),
         pl_position = fst b, pl_at = beat_time b\<rparr>)"
    and "has i (st_sessions (beat i b st))"
  using assms by (simp_all add: beat_def recordPlayedPosition_def Let_def map_of_update case_prod_unfold)

lemma played_between_bounds:
  "0 \<le> playedSecondsBetween tracked position now"
  "tracked = Some t \<Longrightarrow> pl_at t \<le> now \<Longrightarrow> playedSecondsBetween tracked position now \<le> of_int (now - pl_at t) / 1000"
proof -
  show "0 \<le> playedSecondsBetween tracked position now"
    by (auto simp: playedSecondsBetween_def clamp_def split: option.splits)
  assume t: "tracked = Some t" "pl_at t \<le> now"
  then have "max 0 (of_int (now - pl_at t) / 1000) = (of_int (now - pl_at t) / 1000 :: rat)" by (simp add: max_def)
  moreover have "clamp (position - pl_position t) 0 (max 0 (of_int (now - pl_at t) / 1000)) \<le> max 0 (of_int (now - pl_at t) / 1000)"
    unfolding clamp_def by (rule min.cobounded2)
  ultimately show "playedSecondsBetween tracked position now \<le> of_int (now - pl_at t) / 1000"
    using t(1) by (simp add: playedSecondsBetween_def)
qed

text \<open>What the heartbeats so far have established.\<close>

definition played_ok :: "int \<Rightarrow> heartbeat list \<Rightarrow> played_time \<Rightarrow> bool" where
  "played_ok start bs t \<longleftrightarrow>
     0 \<le> pl_playedSeconds t \<and> pl_playedSeconds t \<le> of_int (pl_at t - start) / 1000
     \<and> pl_furthestPosition t = Max (insert 0 (fst ` set bs)) \<and> pl_at t = beat_time (last bs)"

lemma played_ok_step:
  assumes "has i (st_sessions st)" and "map_of (st_playedTime st) i = Some t"
    and "played_ok start bs t" and "beat_time (last bs) \<le> beat_time b"
  shows "\<exists>t'. map_of (st_playedTime (beat i b st)) i = Some t' \<and> played_ok start (bs @ [b]) t'"
proof -
  let ?gap = "if fst (snd b) = Some True then 0 else playedSecondsBetween (Some t) (fst b) (beat_time b)"
  have at: "pl_at t \<le> beat_time b" using assms(3,4) by (simp add: played_ok_def)
  have gap: "0 \<le> ?gap" "?gap \<le> of_int (beat_time b - pl_at t) / 1000"
    using played_between_bounds(1)[of "Some t" "fst b" "beat_time b"]
      played_between_bounds(2)[of "Some t" t "beat_time b" "fst b"] at by auto
  have played: "0 \<le> pl_playedSeconds t + ?gap"
    "pl_playedSeconds t + ?gap \<le> of_int (beat_time b - start) / 1000"
    using gap assms(3) by (auto simp: played_ok_def diff_divide_distrib)
  have furthest: "max (Max (insert 0 (fst ` set bs))) (fst b) = Max (insert 0 (fst ` set (bs @ [b])))"
    by (simp add: insert_commute[of 0 "fst b"] max.commute)
  show ?thesis
    using beat_tracks(1)[OF assms(1), of b] assms(2,3) played furthest by (simp add: played_ok_def Let_def)
qed

lemma played_ok_beats:
  assumes "has i (st_sessions st)" and "map_of (st_playedTime st) i = None"
    and "sorted (map beat_time bs)" and "bs \<noteq> []"
  shows "has i (st_sessions (fold (beat i) bs st)) \<and>
    (\<exists>t. map_of (st_playedTime (fold (beat i) bs st)) i = Some t \<and> played_ok (beat_time (hd bs)) bs t)"
  using assms(3,4)
proof (induction bs rule: rev_induct)
  case Nil
  then show ?case by simp
next
  case (snoc b bs)
  show ?case
  proof (cases "bs = []")
    case True
    with assms(1,2) beat_tracks[OF assms(1), of b] show ?thesis
      by (simp add: played_ok_def playedSecondsBetween_def Let_def)
  next
    case False
    with snoc obtain t where t: "has i (st_sessions (fold (beat i) bs st))"
        "map_of (st_playedTime (fold (beat i) bs st)) i = Some t" "played_ok (beat_time (hd bs)) bs t"
      by (auto simp: sorted_append)
    moreover have "beat_time (last bs) \<le> beat_time b" using snoc.prems False by (simp add: sorted_append)
    ultimately show ?thesis using played_ok_step[OF t] beat_tracks(2)[OF t(1)] False by simp
  qed
qed

text \<open>
  The media time a session reports is never negative and never more than the wall-clock
  time between its first and its last heartbeat, whatever positions, seeks and pauses the
  client reports, and the furthest position is the largest one reported.
\<close>

theorem played_time_bounds:
  assumes "has_session i st" and "map_of (st_playedTime st) i = None"
    and "sorted (map beat_time bs)" and "bs \<noteq> []"
  shows "0 \<le> fst (playbackOf i (fold (beat i) bs st))
    \<and> fst (playbackOf i (fold (beat i) bs st)) \<le> of_int (beat_time (last bs) - beat_time (hd bs)) / 1000
    \<and> snd (playbackOf i (fold (beat i) bs st)) = Max (insert 0 (fst ` set bs))"
proof -
  from played_ok_beats[of st i bs] assms obtain t where
      "map_of (st_playedTime (fold (beat i) bs st)) i = Some t" "played_ok (beat_time (hd bs)) bs t"
    by (auto simp: has_session_def)
  then show ?thesis by (simp add: playbackOf_def played_ok_def)
qed

theorem played_time_bounds_witness:
  "fst (playbackOf ''s1'' (fold (beat ''s1'') [(10, None, 0), (500, Some False, 8000), (900, Some True, 9000)]
     (empty_store\<lparr>st_sessions := [(''s1'', sample_playing)]\<rparr>))) \<le> 9"
  using played_time_bounds[of "''s1''" "empty_store\<lparr>st_sessions := [(''s1'', sample_playing)]\<rparr>"
      "[(10, None, 0), (500, Some False, 8000), (900, Some True, 9000)]"]
  by (simp add: has_session_def empty_store_def)

subsection \<open>Recent terminations\<close>

text \<open>
  After every run, the index by profile and file answers exactly what a scan of the whole
  history would: whether a session of that profile and file was terminated within the window
  (profile ids hold no colon).
\<close>

theorem recent_termination_exact:
  assumes "valid_run cap es" and "CHR '':'' \<notin> set p"
    and "\<forall>t \<in> snd ` set (st_terminated (rt_store (run_events cap es))). CHR '':'' \<notin> set (t_profileId t)"
  shows "isProfileTerminatedRecently p m window now (rt_store (run_events cap es)) \<noteq> None \<longleftrightarrow>
    (\<exists>(i, t) \<in> set (st_terminated (rt_store (run_events cap es))).
       t_profileId t = p \<and> t_mediaFileId t = m \<and> t_terminatedAt t \<ge> now - window)"
proof -
  let ?st = "rt_store (run_events cap es)"
  have hist: "history_inv ?st" using runtime_inv_run[OF assms(1)] by (simp add: runtime_inv_def)
  have look: "map_of (st_terminated ?st) i = Some t \<longleftrightarrow> (i, t) \<in> set (st_terminated ?st)" for i t
    using hist by (simp add: history_inv_def)
  have key: "key_of t = profile_file_key p m \<longleftrightarrow> t_profileId t = p \<and> t_mediaFileId t = m"
    if "(i, t) \<in> set (st_terminated ?st)" for i t
    using profile_file_key_inject[of "t_profileId t" p "t_mediaFileId t" m] assms(2,3) that by force
  show ?thesis unfolding recent_termination[OF hist] look using key by blast
qed

theorem recent_termination_exact_witness:
  "isProfileTerminatedRecently ''ann'' ''film'' 20000 7000
     (rt_store (run_events sample_capacity (sample_play @ sample_stop))) \<noteq> None"
proof -
  have "st_terminated (rt_store (run_events sample_capacity (sample_play @ sample_stop))) =
      [(''s1'', \<lparr>t_mediaFileId = ''film'', t_profileId = ''ann'', t_reason = ''stop'', t_terminatedAt = 6000\<rparr>)]"
    by (simp add: sample_history)
  with recent_termination_exact[OF valid_sample_stop[of sample_capacity], of "''ann''" "''film''" 20000 7000]
  show ?thesis by simp
qed

end
