(* ===== verification/Paths.thy ===== *)
theory Paths
  imports Js_String
begin

section \<open>Paths\<close>

text \<open>
  \<^verbatim>\<open>utils/path.utils.ts\<close> and \<^verbatim>\<open>plugin-package/extraction.guard.ts\<close> with what they use of
  \<^verbatim>\<open>node:path\<close> (POSIX). A path the server has resolved is absolute and normalized: it is the
  list of its segments. A path that comes from outside is a string.
\<close>

type_synonym path = "string list"

definition path_step :: "string \<Rightarrow> path \<Rightarrow> path" where
  "path_step seg p = (if seg = [] \<or> seg = ''.'' then p else if seg = ''..'' then butlast p else p @ [seg])"

text \<open>\<^verbatim>\<open>resolve(base, p)\<close>: an absolute \<open>p\<close> starts over.\<close>

definition resolve_path :: "path \<Rightarrow> string \<Rightarrow> path" where
  "resolve_path base p = fold path_step (split_on CHR ''/'' p) (if take 1 p = ''/'' then [] else base)"

text \<open>\<^verbatim>\<open>join(base, p)\<close>: \<open>p\<close> is appended even when it is absolute.\<close>

definition join_path :: "path \<Rightarrow> string \<Rightarrow> path" where
  "join_path base p = fold path_step (split_on CHR ''/'' p) base"

definition dirname :: "path \<Rightarrow> path" where
  "dirname p = butlast p"

text \<open>The root alone ends in the separator, so every path, itself included, is below it.\<close>

definition isSubpath :: "path \<Rightarrow> path \<Rightarrow> bool" where
  "isSubpath candidate parent \<longleftrightarrow> (if parent = [] then True else strict_prefix parent candidate)"

definition resolveWithin :: "path \<Rightarrow> string \<Rightarrow> path option" where
  "resolveWithin root candidate =
     (let target = join_path root candidate in if isSubpath target root then Some target else None)"

text \<open>\<^verbatim>\<open>normalizePath\<close>: every run of backslashes is one slash, then every run of slashes is.\<close>

fun squeeze :: "char \<Rightarrow> string \<Rightarrow> string" where
  "squeeze c (x # y # xs) = (if x = c \<and> y = c then squeeze c (y # xs) else x # squeeze c (y # xs))"
| "squeeze c xs = xs"

definition normalizePath :: "string \<Rightarrow> string" where
  "normalizePath p =
     squeeze CHR ''/'' (map (\<lambda>c. if c = CHR 0x5C then CHR ''/'' else c) (squeeze CHR 0x5C p))"

subsection \<open>The guard of archive entries\<close>

definition unsafeEntryPath :: domain_error where
  "unsafeEntryPath = DomainError Validation ''plugin.package_path_unsafe''"

definition unpackedTooLarge :: domain_error where
  "unpackedTooLarge = DomainError Validation ''plugin.package_unpacked_too_large''"

definition invalidSymlink :: domain_error where
  "invalidSymlink = DomainError Validation ''plugin.package_symlink_invalid''"

definition conflictingEntry :: domain_error where
  "conflictingEntry = DomainError Validation ''plugin.package_path_conflict''"

definition slashes :: "string \<Rightarrow> string" where
  "slashes = map (\<lambda>c. if c = CHR 0x5C then CHR ''/'' else c)"

definition assertSafeDestination :: "path \<Rightarrow> string \<Rightarrow> path result" where
  "assertSafeDestination workRoot entryPath =
     (let normalized = slashes entryPath in
      if CHR 0x00 \<in> set entryPath \<or> take 1 normalized = ''/'' \<or> ''..'' \<in> set (split_on CHR ''/'' normalized)
      then Throw unsafeEntryPath
      else (let target = resolve_path workRoot normalized in
            if target \<noteq> workRoot \<and> \<not> isSubpath target workRoot then Throw unsafeEntryPath else Return target))"

subsection \<open>Paths without a way up\<close>

lemma fold_path_step_down:
  "''..'' \<notin> set segs \<Longrightarrow> fold path_step segs p = p @ filter (\<lambda>s. s \<noteq> [] \<and> s \<noteq> ''.'') segs"
  by (induction segs arbitrary: p) (auto simp: path_step_def)

lemma resolve_path_down:
  "take 1 p \<noteq> ''/'' \<Longrightarrow> ''..'' \<notin> set (split_on CHR ''/'' p) \<Longrightarrow>
     resolve_path base p = base @ filter (\<lambda>s. s \<noteq> [] \<and> s \<noteq> ''.'') (split_on CHR ''/'' p)"
  by (simp add: resolve_path_def fold_path_step_down)

lemma isSubpath_prefix: "isSubpath c p \<Longrightarrow> prefix p c"
  by (auto simp: isSubpath_def split: if_splits)

lemma isSubpath_iff: "isSubpath c p \<longleftrightarrow> prefix p c \<and> (c \<noteq> p \<or> p = [])"
  by (auto simp: isSubpath_def strict_prefix_def)

text \<open>A path string has no separator inside a segment and no segment that points elsewhere.\<close>

definition proper_segment :: "string \<Rightarrow> bool" where
  "proper_segment s \<longleftrightarrow> s \<noteq> [] \<and> s \<noteq> ''.'' \<and> s \<noteq> ''..'' \<and> CHR ''/'' \<notin> set s"

lemma split_on_no_sep: "s \<in> set (split_on c xs) \<Longrightarrow> c \<notin> set s"
  by (induction c xs arbitrary: s rule: split_on.induct) (auto split: if_splits list.splits)

lemma fold_path_step_proper:
  "list_all proper_segment base \<Longrightarrow> \<forall>s \<in> set segs. CHR ''/'' \<notin> set s \<Longrightarrow>
     list_all proper_segment (fold path_step segs base)"
proof (induction segs arbitrary: base)
  case Nil
  then show ?case by simp
next
  case (Cons s segs)
  have "list_all proper_segment (path_step s base)"
    using Cons.prems by (auto simp: path_step_def proper_segment_def list_all_iff dest: in_set_butlastD)
  with Cons show ?case by simp
qed

lemma proper_resolve: "list_all proper_segment base \<Longrightarrow> list_all proper_segment (resolve_path base p)"
  unfolding resolve_path_def by (rule fold_path_step_proper) (auto dest: split_on_no_sep)

lemma proper_join: "list_all proper_segment base \<Longrightarrow> list_all proper_segment (join_path base p)"
  unfolding join_path_def by (rule fold_path_step_proper) (auto dest: split_on_no_sep)

text \<open>What the guard lets through lies in the root; what it refuses has a reason in the entry's path.\<close>

lemma assertSafeDestination_iff:
  "assertSafeDestination root p = Return t \<longleftrightarrow>
     CHR 0x00 \<notin> set p \<and> take 1 (slashes p) \<noteq> ''/'' \<and> ''..'' \<notin> set (split_on CHR ''/'' (slashes p))
     \<and> t = root @ filter (\<lambda>s. s \<noteq> [] \<and> s \<noteq> ''.'') (split_on CHR ''/'' (slashes p))"
proof (cases "CHR 0x00 \<in> set p \<or> take 1 (slashes p) = ''/'' \<or> ''..'' \<in> set (split_on CHR ''/'' (slashes p))")
  case True
  then have "assertSafeDestination root p = Throw unsafeEntryPath" by (simp add: assertSafeDestination_def)
  with True show ?thesis by auto
next
  case False
  let ?t = "root @ filter (\<lambda>s. s \<noteq> [] \<and> s \<noteq> ''.'') (split_on CHR ''/'' (slashes p))"
  have t: "resolve_path root (slashes p) = ?t" using False by (intro resolve_path_down) simp_all
  have "isSubpath ?t root \<or> ?t = root" by (auto simp: isSubpath_iff)
  with False t show ?thesis by (auto simp: assertSafeDestination_def Let_def)
qed

lemma assertSafeDestination_inside: "assertSafeDestination root p = Return t \<Longrightarrow> prefix root t"
  by (auto simp: assertSafeDestination_iff)

lemma assertSafeDestination_proper:
  assumes "assertSafeDestination root p = Return t" and "list_all proper_segment root"
  shows "list_all proper_segment t"
proof -
  let ?segs = "split_on CHR ''/'' (slashes p)"
  have "''..'' \<notin> set ?segs" and t: "t = root @ filter (\<lambda>s. s \<noteq> [] \<and> s \<noteq> ''.'') ?segs"
    using assms(1) by (simp_all add: assertSafeDestination_iff)
  then have "list_all proper_segment (filter (\<lambda>s. s \<noteq> [] \<and> s \<noteq> ''.'') ?segs)"
    by (auto simp: list_all_iff proper_segment_def dest: split_on_no_sep)
  with t assms(2) show ?thesis by simp
qed

end
