(* ===== verification/Tar_Extractor.thy ===== *)
theory Tar_Extractor
  imports Paths "HOL-Library.Word" "HOL-Library.Monad_Syntax"
begin

section \<open>The streaming tar reader\<close>

text \<open>
  \<^verbatim>\<open>plugins/catalog/plugin-package/tar.extractor.ts\<close>. The archive arrives in chunks of any
  size; the reader's state is carried across them. What it does to the file system is a log of
  effects in the order of the calls, with an error the log up to it. Bytes are 8-bit words; a
  decoded name is the list of its bytes (the decoder drops a byte order mark; the replacement
  of invalid UTF-8 is not modelled: no decision of the reader looks at such bytes).
\<close>

unbundle bit_operations_syntax

type_synonym byte = "8 word"

datatype fs_effect =
    Make_dir path
  | Create_file path "nat option"
  | Append_bytes path "byte list"
  | Make_symlink path string

definition TAR_BLOCK_SIZE :: nat where
  "TAR_BLOCK_SIZE = 512"

definition TAR_TYPE_REGULAR :: "char list" where
  "TAR_TYPE_REGULAR = [CHR ''0'', CHR 0x00]"

definition TAR_TYPE_DIRECTORY :: char where
  "TAR_TYPE_DIRECTORY = CHR ''5''"

definition TAR_TYPE_SYMLINK :: char where
  "TAR_TYPE_SYMLINK = CHR ''2''"

definition TAR_TYPE_LONG_NAME :: char where
  "TAR_TYPE_LONG_NAME = CHR ''L''"

datatype payload_kind = File_data path | Long_name | Discard

record tar_payload =
  py_kind :: payload_kind
  py_remaining :: nat
  py_padding :: nat

record tar_reader =
  tr_workRoot :: path
  tr_maxUncompressedBytes :: nat
  tr_header :: "byte list"
  tr_payload :: "tar_payload option"
  tr_longNameParts :: "byte list list"
  tr_pendingLongName :: "string option"
  tr_symlinks :: "(path \<times> string) list"
  tr_total :: nat
  tr_ended :: bool
  tr_effects :: "fs_effect list"

type_synonym tar_result = "(domain_error \<times> fs_effect list) + tar_reader"

definition createTarReader :: "path \<Rightarrow> nat \<Rightarrow> tar_reader" where
  "createTarReader workRoot maxUncompressedBytes =
     \<lparr>tr_workRoot = workRoot, tr_maxUncompressedBytes = maxUncompressedBytes, tr_header = [], tr_payload = None,
      tr_longNameParts = [], tr_pendingLongName = None, tr_symlinks = [], tr_total = 0, tr_ended = False,
      tr_effects = []\<rparr>"

abbreviation failed_at :: "tar_reader \<Rightarrow> domain_error \<Rightarrow> tar_result" where
  "failed_at r e \<equiv> Inl (e, tr_effects r)"

definition emit :: "fs_effect list \<Rightarrow> tar_reader \<Rightarrow> tar_reader" where
  "emit es r = r\<lparr>tr_effects := tr_effects r @ es\<rparr>"

subsection \<open>Fields of a header\<close>

definition decode_text :: "byte list \<Rightarrow> string" where
  "decode_text bs =
     map (\<lambda>b. char_of (unat b)) (if take 3 bs = [0xEF, 0xBB, 0xBF] then drop 3 bs else bs)"

definition readTarString :: "byte list \<Rightarrow> nat \<Rightarrow> nat \<Rightarrow> string" where
  "readTarString block offset len = decode_text (takeWhile (\<lambda>b. b \<noteq> 0) (take len (drop offset block)))"

definition is_octal :: "char \<Rightarrow> bool" where
  "is_octal c = (let n = (of_char c :: nat) in 48 \<le> n \<and> n \<le> 55)"

text \<open>No digit at all parses as NaN and counts as 0.\<close>

definition parseTarNumber :: "byte list \<Rightarrow> nat \<Rightarrow> nat \<Rightarrow> nat" where
  "parseTarNumber block offset len =
     fold (\<lambda>c n. n * 8 + (of_char c - 48)) (filter is_octal (readTarString block offset len)) 0"

definition decodeTarLongName :: "byte list list \<Rightarrow> string" where
  "decodeTarLongName parts = readTarString (concat parts) 0 (length (concat parts))"

definition readTarName :: "byte list \<Rightarrow> string" where
  "readTarName header =
     (let name = readTarString header 0 100; prefix = readTarString header 345 155 in
      if length prefix > 0 then prefix @ ''/'' @ name else name)"

subsection \<open>Entries\<close>

record tar_entry =
  te_name :: string
  te_size :: nat
  te_padding :: nat

definition entry_payload :: "payload_kind \<Rightarrow> tar_entry \<Rightarrow> tar_payload" where
  "entry_payload kind entry = \<lparr>py_kind = kind, py_remaining = te_size entry, py_padding = te_padding entry\<rparr>"

definition beginDirectory :: "tar_reader \<Rightarrow> tar_entry \<Rightarrow> tar_result" where
  "beginDirectory r entry =
     (case assertSafeDestination (tr_workRoot r) (te_name entry) of
        Inl e \<Rightarrow> failed_at r e
      | Inr target \<Rightarrow> Inr ((emit [Make_dir target] r)\<lparr>tr_payload := Some (entry_payload Discard entry)\<rparr>))"

definition beginSymlink :: "tar_reader \<Rightarrow> byte list \<Rightarrow> tar_entry \<Rightarrow> tar_result" where
  "beginSymlink r header entry =
     (case assertSafeDestination (tr_workRoot r) (te_name entry) of
        Inl e \<Rightarrow> failed_at r e
      | Inr linkPath \<Rightarrow>
          (let target = readTarString header 157 100 in
           if length target = 0 then failed_at r invalidSymlink
           else if take 1 target = ''/'' then failed_at r invalidSymlink
           else if \<not> isSubpath (resolve_path (dirname linkPath) target) (tr_workRoot r) then failed_at r invalidSymlink
           else Inr (r\<lparr>tr_symlinks := tr_symlinks r @ [(linkPath, target)],
                       tr_payload := Some (entry_payload Discard entry)\<rparr>)))"

definition beginRegularFile :: "tar_reader \<Rightarrow> byte list \<Rightarrow> tar_entry \<Rightarrow> tar_result" where
  "beginRegularFile r header entry =
     (let r1 = r\<lparr>tr_total := tr_total r + te_size entry\<rparr> in
      if tr_total r1 > tr_maxUncompressedBytes r1 then failed_at r1 unpackedTooLarge
      else (case assertSafeDestination (tr_workRoot r1) (te_name entry) of
              Inl e \<Rightarrow> failed_at r1 e
            | Inr target \<Rightarrow>
                (let mode = parseTarNumber header 100 8 in
                 Inr ((emit [Make_dir (dirname target), Create_file target (if mode = 0 then None else Some (mode AND 0x1FF))] r1)
                   \<lparr>tr_payload := Some (entry_payload (File_data target) entry)\<rparr>))))"

definition unsupportedEntry :: domain_error where
  "unsupportedEntry = DomainError Validation ''plugin.package_entry_unsupported''"

text \<open>One complete header block; the marker of the end is a block of zeros.\<close>

definition consumeHeader :: "tar_reader \<Rightarrow> tar_result" where
  "consumeHeader r0 =
     (let header = tr_header r0; r = r0\<lparr>tr_header := []\<rparr> in
      if list_all (\<lambda>b. b = 0) header then Inr (r\<lparr>tr_ended := True\<rparr>)
      else
        (let sz = parseTarNumber header 124 12;
             padding = (TAR_BLOCK_SIZE - sz mod TAR_BLOCK_SIZE) mod TAR_BLOCK_SIZE;
             typeFlag = (char_of (unat (header ! 156)) :: char)
         in if typeFlag = TAR_TYPE_LONG_NAME
            then Inr (r\<lparr>tr_payload := Some \<lparr>py_kind = Long_name, py_remaining = sz, py_padding = padding\<rparr>\<rparr>)
            else
              (let name = (case tr_pendingLongName r of None \<Rightarrow> readTarName header | Some n \<Rightarrow> n);
                   r1 = r\<lparr>tr_pendingLongName := None\<rparr>;
                   entry = \<lparr>te_name = name, te_size = sz, te_padding = padding\<rparr>
               in if typeFlag = TAR_TYPE_DIRECTORY then beginDirectory r1 entry
                  else if typeFlag = TAR_TYPE_SYMLINK then beginSymlink r1 header entry
                  else if typeFlag \<in> set TAR_TYPE_REGULAR then beginRegularFile r1 header entry
                  else failed_at r1 unsupportedEntry)))"

subsection \<open>Payloads\<close>

text \<open>What the payload does with a run of its data.\<close>

definition payload_data :: "payload_kind \<Rightarrow> byte list \<Rightarrow> tar_reader \<Rightarrow> tar_reader" where
  "payload_data kind data r =
     (case kind of
        File_data target \<Rightarrow> emit [Append_bytes target data] r
      | Long_name \<Rightarrow> r\<lparr>tr_longNameParts := tr_longNameParts r @ [data]\<rparr>
      | Discard \<Rightarrow> r)"

definition payload_done :: "payload_kind \<Rightarrow> tar_reader \<Rightarrow> tar_reader" where
  "payload_done kind r =
     (case kind of
        Long_name \<Rightarrow> r\<lparr>tr_pendingLongName := Some (decodeTarLongName (tr_longNameParts r)), tr_longNameParts := [],
          tr_payload := None\<rparr>
      | _ \<Rightarrow> r\<lparr>tr_payload := None\<rparr>)"

text \<open>The rest of the chunk, or \<open>None\<close> when the payload needs more chunks.\<close>

definition consumePayload :: "tar_payload \<Rightarrow> byte list \<Rightarrow> tar_reader \<Rightarrow> tar_reader \<times> byte list option" where
  "consumePayload p data r =
     (let n = min (py_remaining p) (length data);
          r1 = (if n > 0 then payload_data (py_kind p) (take n data) r else r);
          p1 = p\<lparr>py_remaining := py_remaining p - n\<rparr>;
          data1 = drop n data
      in if py_remaining p1 > 0 then (r1\<lparr>tr_payload := Some p1\<rparr>, None)
         else
           (let skip = min (py_padding p1) (length data1);
                p2 = p1\<lparr>py_padding := py_padding p1 - skip\<rparr>;
                data2 = drop skip data1
            in if py_padding p2 > 0 then (r1\<lparr>tr_payload := Some p2\<rparr>, None)
               else (payload_done (py_kind p) r1, Some data2)))"

subsection \<open>The loop\<close>

text \<open>
  The loop over one chunk. A payload that is complete is cleared without reading a byte, so
  that the loop ends is not obvious; here a run that does not end is the value \<open>None\<close>.
\<close>

partial_function (option) push_loop :: "tar_reader \<Rightarrow> byte list \<Rightarrow> tar_result option" where
  "push_loop r data =
     (if data = [] then Some (Inr r)
      else case tr_payload r of
        Some p \<Rightarrow>
          (case consumePayload p data r of
             (r1, None) \<Rightarrow> Some (Inr r1)
           | (r1, Some rest) \<Rightarrow> push_loop r1 rest)
      | None \<Rightarrow>
          (let n = min (TAR_BLOCK_SIZE - length (tr_header r)) (length data);
               r1 = r\<lparr>tr_header := tr_header r @ take n data\<rparr>
           in if length (tr_header r1) < TAR_BLOCK_SIZE then Some (Inr r1)
              else case consumeHeader r1 of
                Inl e \<Rightarrow> Some (Inl e)
              | Inr r2 \<Rightarrow> if tr_ended r2 then Some (Inr r2) else push_loop r2 (drop n data)))"

definition pushTarChunk :: "tar_reader \<Rightarrow> byte list \<Rightarrow> tar_result option" where
  "pushTarChunk r data = (if tr_ended r then Some (Inr r) else push_loop r data)"

definition truncatedArchive :: domain_error where
  "truncatedArchive = DomainError Validation ''plugin.archive_truncated''"

definition finishTarReader :: "tar_reader \<Rightarrow> tar_result" where
  "finishTarReader r =
     (if \<not> tr_ended r \<and> (tr_payload r \<noteq> None \<or> length (tr_header r) > 0) then failed_at r truncatedArchive
      else Inr (emit (concat (map (\<lambda>(linkPath, target). [Make_dir (dirname linkPath), Make_symlink linkPath target])
             (tr_symlinks r))) r))"

text \<open>The chunks of an archive, one after the other; an error ends the extraction.\<close>

fun push_all :: "tar_reader \<Rightarrow> byte list list \<Rightarrow> tar_result option" where
  "push_all r [] = Some (Inr r)"
| "push_all r (c # cs) =
     (case pushTarChunk r c of None \<Rightarrow> None | Some (Inl e) \<Rightarrow> Some (Inl e) | Some (Inr r1) \<Rightarrow> push_all r1 cs)"

definition extract_tar :: "path \<Rightarrow> nat \<Rightarrow> byte list list \<Rightarrow> tar_result option" where
  "extract_tar workRoot maxBytes chunks =
     (case push_all (createTarReader workRoot maxBytes) chunks of
        None \<Rightarrow> None | Some (Inl e) \<Rightarrow> Some (Inl e) | Some (Inr r) \<Rightarrow> Some (finishTarReader r))"

end
