(* ===== verification/Tar_Refinement.thy ===== *)
theory Tar_Refinement
  imports Tar_Extractor
begin

section \<open>The tar reader refines a byte automaton\<close>

text \<open>
  The specification reads one byte at a time and knows nothing of chunks. The streaming reader
  of \<open>Tar_Extractor\<close> implements it for every way to cut the archive: it always returns, and
  what it does to the file system is the same up to joining the appends of adjacent bytes.
\<close>

subsection \<open>The automaton\<close>

text \<open>A payload without a byte left is over.\<close>

definition settle :: "tar_reader \<Rightarrow> tar_reader" where
  "settle r =
     (case tr_payload r of
        None \<Rightarrow> r
      | Some p \<Rightarrow> if py_remaining p = 0 \<and> py_padding p = 0 then payload_done (py_kind p) r else r)"

definition payload_byte :: "tar_payload \<Rightarrow> byte \<Rightarrow> tar_reader \<Rightarrow> tar_reader" where
  "payload_byte p b r =
     (if py_remaining p > 0
      then (payload_data (py_kind p) [b] r)\<lparr>tr_payload := Some (p\<lparr>py_remaining := py_remaining p - 1\<rparr>)\<rparr>
      else r\<lparr>tr_payload := Some (p\<lparr>py_padding := py_padding p - 1\<rparr>)\<rparr>)"

definition byte_step :: "byte \<Rightarrow> tar_reader \<Rightarrow> tar_result" where
  "byte_step b r0 =
     (if tr_ended r0 then Inr r0
      else (let r = settle r0 in
        case tr_payload r of
          Some p \<Rightarrow> Inr (settle (payload_byte p b r))
        | None \<Rightarrow>
            (let r1 = r\<lparr>tr_header := tr_header r @ [b]\<rparr> in
             if length (tr_header r1) < TAR_BLOCK_SIZE then Inr r1 else consumeHeader r1)))"

fun run_bytes :: "byte list \<Rightarrow> tar_reader \<Rightarrow> tar_result" where
  "run_bytes [] r = Inr r"
| "run_bytes (b # bs) r = (case byte_step b r of Inl e \<Rightarrow> Inl e | Inr r1 \<Rightarrow> run_bytes bs r1)"

definition extract_bytes :: "path \<Rightarrow> nat \<Rightarrow> byte list \<Rightarrow> tar_result" where
  "extract_bytes workRoot maxBytes archive =
     (case run_bytes archive (createTarReader workRoot maxBytes) of
        Inl e \<Rightarrow> Inl e | Inr r \<Rightarrow> finishTarReader r)"

subsection \<open>The abstraction\<close>

text \<open>Appends byte by byte.\<close>

fun expand :: "fs_effect \<Rightarrow> fs_effect list" where
  "expand (Append_bytes p bs) = map (\<lambda>b. Append_bytes p [b]) bs"
| "expand e = [e]"

definition expand_all :: "fs_effect list \<Rightarrow> fs_effect list" where
  "expand_all es = concat (map expand es)"

definition abs_reader :: "tar_reader \<Rightarrow> tar_reader" where
  "abs_reader r = r\<lparr>tr_longNameParts := map (\<lambda>b. [b]) (concat (tr_longNameParts r)),
     tr_effects := expand_all (tr_effects r)\<rparr>"

fun abs_result :: "tar_result \<Rightarrow> tar_result" where
  "abs_result (Inl (e, es)) = Inl (e, expand_all es)"
| "abs_result (Inr r) = Inr (abs_reader r)"

lemma expand_all_append [simp]: "expand_all (es @ es') = expand_all es @ expand_all es'"
  by (simp add: expand_all_def)

lemma abs_fields [simp]:
  "tr_workRoot (abs_reader r) = tr_workRoot r" "tr_header (abs_reader r) = tr_header r"
  "tr_payload (abs_reader r) = tr_payload r" "tr_pendingLongName (abs_reader r) = tr_pendingLongName r"
  "tr_symlinks (abs_reader r) = tr_symlinks r" "tr_total (abs_reader r) = tr_total r"
  "tr_ended (abs_reader r) = tr_ended r" "tr_maxUncompressedBytes (abs_reader r) = tr_maxUncompressedBytes r"
  "tr_effects (abs_reader r) = expand_all (tr_effects r)"
  "tr_longNameParts (abs_reader r) = map (\<lambda>b. [b]) (concat (tr_longNameParts r))"
  by (simp_all add: abs_reader_def)

lemma abs_updates:
  "abs_reader (r\<lparr>tr_header := h\<rparr>) = (abs_reader r)\<lparr>tr_header := h\<rparr>"
  "abs_reader (r\<lparr>tr_payload := p\<rparr>) = (abs_reader r)\<lparr>tr_payload := p\<rparr>"
  "abs_reader (r\<lparr>tr_pendingLongName := n\<rparr>) = (abs_reader r)\<lparr>tr_pendingLongName := n\<rparr>"
  "abs_reader (r\<lparr>tr_symlinks := l\<rparr>) = (abs_reader r)\<lparr>tr_symlinks := l\<rparr>"
  "abs_reader (r\<lparr>tr_total := t\<rparr>) = (abs_reader r)\<lparr>tr_total := t\<rparr>"
  "abs_reader (r\<lparr>tr_ended := e\<rparr>) = (abs_reader r)\<lparr>tr_ended := e\<rparr>"
  "abs_reader (r\<lparr>tr_longNameParts := []\<rparr>) = (abs_reader r)\<lparr>tr_longNameParts := []\<rparr>"
  by (simp_all add: abs_reader_def)

lemma abs_emit: "abs_reader (emit es r) = emit (expand_all es) (abs_reader r)"
  by (simp add: abs_reader_def emit_def)

lemma concat_singletons [simp]: "concat (map (\<lambda>b. [b]) bs) = bs"
  by (induction bs) simp_all

lemma abs_payload_done: "abs_reader (payload_done k r) = payload_done k (abs_reader r)"
  by (cases k) (simp_all add: payload_done_def abs_updates decodeTarLongName_def)

lemma abs_settle: "abs_reader (settle r) = settle (abs_reader r)"
  by (simp add: settle_def abs_payload_done split: option.splits)

lemma abs_payload_data:
  "abs_reader (payload_data k data r) = fold (\<lambda>b. payload_data k [b]) data (abs_reader r)"
proof (cases k)
  case (File_data t)
  have "fold (\<lambda>b. emit [Append_bytes t [b]]) data r' = emit (map (\<lambda>b. Append_bytes t [b]) data) r'" for r'
    by (induction data arbitrary: r') (simp_all add: emit_def)
  moreover have "payload_data k [b] = emit [Append_bytes t [b]]" for b
    by (rule ext) (simp add: payload_data_def File_data)
  ultimately show ?thesis by (simp add: payload_data_def File_data abs_emit expand_all_def)
next
  case Long_name
  have "fold (\<lambda>b r. r\<lparr>tr_longNameParts := tr_longNameParts r @ [[b]]\<rparr>) data r'
      = r'\<lparr>tr_longNameParts := tr_longNameParts r' @ map (\<lambda>b. [b]) data\<rparr>" for r' :: tar_reader
    by (induction data arbitrary: r') simp_all
  moreover have "payload_data k [b] = (\<lambda>r. r\<lparr>tr_longNameParts := tr_longNameParts r @ [[b]]\<rparr>)" for b
    by (rule ext) (simp add: payload_data_def Long_name)
  ultimately show ?thesis by (simp add: payload_data_def Long_name abs_reader_def)
next
  case Discard
  then show ?thesis by (induction data) (simp_all add: payload_data_def)
qed

lemma abs_consumeHeader: "consumeHeader (abs_reader r) = abs_result (consumeHeader r)"
  by (simp add: consumeHeader_def Let_def abs_updates beginDirectory_def beginSymlink_def beginRegularFile_def abs_emit
    expand_all_def split: option.splits sum.splits)

lemma abs_finish: "finishTarReader (abs_reader r) = abs_result (finishTarReader r)"
proof -
  have "expand_all (concat (map (\<lambda>(linkPath, target). [Make_dir (dirname linkPath), Make_symlink linkPath target]) ls))
      = concat (map (\<lambda>(linkPath, target). [Make_dir (dirname linkPath), Make_symlink linkPath target]) ls)" for ls
    by (induction ls) (auto simp: expand_all_def)
  then show ?thesis by (simp add: finishTarReader_def abs_emit)
qed

lemma expand_all_idem [simp]: "expand_all (expand_all es) = expand_all es"
proof -
  have "expand_all (expand e) = expand e" for e by (cases e) (simp_all add: expand_all_def comp_def)
  then show ?thesis by (induction es) (simp_all add: expand_all_def)
qed

lemma abs_result_idem [simp]: "abs_result (abs_result x) = abs_result x"
  by (cases x) (auto simp: abs_reader_def)

lemma abs_create [simp]: "abs_reader (createTarReader root m) = createTarReader root m"
  by (simp add: abs_reader_def createTarReader_def expand_all_def)

subsection \<open>A run of payload bytes\<close>

lemma payload_data_fields [simp]:
  "tr_payload (payload_data k d r) = tr_payload r" "tr_ended (payload_data k d r) = tr_ended r"
  "tr_header (payload_data k d r) = tr_header r"
  by (simp_all add: payload_data_def emit_def split: payload_kind.splits)

lemma payload_data_payload:
  "payload_data k d (r\<lparr>tr_payload := p\<rparr>) = (payload_data k d r)\<lparr>tr_payload := p\<rparr>"
  by (simp add: payload_data_def emit_def split: payload_kind.splits)

lemma payload_done_fields [simp]:
  "tr_payload (payload_done k r) = None" "tr_ended (payload_done k r) = tr_ended r"
  "tr_header (payload_done k r) = tr_header r"
  by (simp_all add: payload_done_def split: payload_kind.splits)

lemma payload_done_ignores [simp]: "payload_done k (r\<lparr>tr_payload := p\<rparr>) = payload_done k r"
  by (simp add: payload_done_def split: payload_kind.splits)

lemma settle_fields [simp]: "tr_ended (settle r) = tr_ended r" "tr_header (settle r) = tr_header r"
  by (simp_all add: settle_def split: option.splits)

lemma settle_open:
  "tr_payload r = Some p \<Longrightarrow> py_remaining p + py_padding p > 0 \<Longrightarrow> settle r = r"
  by (auto simp: settle_def)

lemma fold_payload_data_fields [simp]:
  "tr_ended (fold (\<lambda>b. payload_data k [b]) ds r) = tr_ended r"
  by (induction ds arbitrary: r) simp_all

lemma fold_payload_data_payload:
  "fold (\<lambda>b. payload_data k [b]) ds (r\<lparr>tr_payload := p\<rparr>) = (fold (\<lambda>b. payload_data k [b]) ds r)\<lparr>tr_payload := p\<rparr>"
  by (induction ds arbitrary: r) (simp_all add: payload_data_payload)

text \<open>What is left of a payload after so many bytes, and the state then.\<close>

definition after_bytes :: "tar_payload \<Rightarrow> byte list \<Rightarrow> tar_reader \<Rightarrow> tar_reader" where
  "after_bytes p ds r =
     (fold (\<lambda>b. payload_data (py_kind p) [b]) (take (py_remaining p) ds) r)
       \<lparr>tr_payload := Some (p\<lparr>py_remaining := py_remaining p - length ds,
          py_padding := py_padding p - (length ds - py_remaining p)\<rparr>)\<rparr>"

lemma byte_step_payload:
  assumes "tr_payload r = Some p" and "\<not> tr_ended r" and "py_remaining p + py_padding p > 0"
  shows "byte_step b r = Inr (settle (payload_byte p b r))"
  using assms by (simp add: byte_step_def settle_open[OF assms(1,3)])

lemma after_bytes_Cons:
  "after_bytes p (d # ds) r =
     (if py_remaining p > 0 then after_bytes (p\<lparr>py_remaining := py_remaining p - 1\<rparr>) ds (payload_data (py_kind p) [d] r)
      else after_bytes (p\<lparr>py_padding := py_padding p - 1\<rparr>) ds r)"
  by (cases "py_remaining p") (simp_all add: after_bytes_def)

lemma after_bytes_payload [simp]: "after_bytes p ds (r\<lparr>tr_payload := q\<rparr>) = after_bytes p ds r"
  by (simp add: after_bytes_def fold_payload_data_payload)

lemma run_payload:
  assumes "tr_payload r = Some p" and "\<not> tr_ended r"
    and "ds \<noteq> []" and "length ds \<le> py_remaining p + py_padding p"
  shows "run_bytes ds r = Inr (settle (after_bytes p ds r))"
  using assms
proof (induction ds arbitrary: p r)
  case Nil
  then show ?case by simp
next
  case (Cons d ds)
  have step: "byte_step d r = Inr (settle (payload_byte p d r))"
    using Cons.prems by (intro byte_step_payload) auto
  define q where "q = (if py_remaining p > 0 then p\<lparr>py_remaining := py_remaining p - 1\<rparr> else p\<lparr>py_padding := py_padding p - 1\<rparr>)"
  have q: "tr_payload (payload_byte p d r) = Some q" by (simp add: payload_byte_def q_def)
  have after: "after_bytes p (d # ds) r = after_bytes q ds (payload_byte p d r)"
    by (simp add: after_bytes_Cons payload_byte_def q_def)
  show ?case
  proof (cases "ds = []")
    case True
    have "after_bytes q [] (payload_byte p d r) = payload_byte p d r"
      by (simp add: after_bytes_def payload_byte_def q_def)
    with step after True show ?thesis by simp
  next
    case False
    have open_q: "length ds \<le> py_remaining q + py_padding q" using Cons.prems by (auto simp: q_def)
    with False have "settle (payload_byte p d r) = payload_byte p d r"
      by (intro settle_open[OF q]) (cases ds; simp; linarith)
    moreover have "run_bytes ds (payload_byte p d r) = Inr (settle (after_bytes q ds (payload_byte p d r)))"
      by (rule Cons.IH[OF q _ False open_q]) (use Cons.prems in \<open>simp add: payload_byte_def\<close>)
    ultimately show ?thesis using step after by simp
  qed
qed

lemma run_append:
  "run_bytes (ds @ es) r = (case run_bytes ds r of Inl e \<Rightarrow> Inl e | Inr r1 \<Rightarrow> run_bytes es r1)"
  by (induction ds arbitrary: r) (simp_all split: sum.splits)

lemma run_settle: "ds \<noteq> [] \<Longrightarrow> \<not> tr_ended r \<Longrightarrow> run_bytes ds (settle r) = run_bytes ds r"
proof -
  have "settle (settle r) = settle r" by (auto simp: settle_def split: option.splits)
  then show "ds \<noteq> [] \<Longrightarrow> \<not> tr_ended r \<Longrightarrow> ?thesis" by (cases ds) (simp_all add: byte_step_def)
qed

subsection \<open>One chunk\<close>

lemma consumePayload_open:
  assumes "consumePayload p data r = (r1, None)"
  shows "length data < py_remaining p + py_padding p \<and> abs_reader r1 = after_bytes p data (abs_reader r)
    \<and> tr_ended r1 = tr_ended r \<and> tr_header r1 = tr_header r"
proof (cases "py_remaining p > length data")
  case True
  with assms have "r1 = (if length data > 0 then payload_data (py_kind p) data r else r)
      \<lparr>tr_payload := Some (p\<lparr>py_remaining := py_remaining p - length data\<rparr>)\<rparr>"
    by (simp add: consumePayload_def Let_def min_def split: if_splits)
  with True show ?thesis
    by (auto simp: after_bytes_def abs_updates abs_payload_data)
next
  case False
  let ?n = "py_remaining p" and ?m = "length data - py_remaining p"
  have m: "?m < py_padding p" using assms False by (auto simp: consumePayload_def Let_def min_def split: if_splits)
  with assms False have "r1 = (if ?n > 0 then payload_data (py_kind p) (take ?n data) r else r)
      \<lparr>tr_payload := Some (p\<lparr>py_remaining := 0, py_padding := py_padding p - ?m\<rparr>)\<rparr>"
    by (simp add: consumePayload_def Let_def min_def split: if_splits)
  with False m show ?thesis
    by (auto simp: after_bytes_def abs_updates abs_payload_data)
qed

lemma consumePayload_done:
  assumes "consumePayload p data r = (r1, Some rest)" and "tr_payload r = Some p"
  shows "rest = drop (py_remaining p + py_padding p) data \<and> py_remaining p + py_padding p \<le> length data
    \<and> abs_reader r1 = settle (after_bytes p (take (py_remaining p + py_padding p) data) (abs_reader r))
    \<and> tr_ended r1 = tr_ended r \<and> tr_header r1 = tr_header r \<and> tr_payload r1 = None"
proof -
  let ?n = "py_remaining p" and ?m = "py_padding p"
  have len: "?n + ?m \<le> length data" using assms by (auto simp: consumePayload_def Let_def min_def split: if_splits)
  have r1: "r1 = payload_done (py_kind p) (if ?n > 0 then payload_data (py_kind p) (take ?n data) r else r)"
    and rest: "rest = drop (?n + ?m) data"
    using assms len by (auto simp: consumePayload_def Let_def min_def add.commute split: if_splits)
  have abs: "abs_reader (if ?n > 0 then payload_data (py_kind p) (take ?n data) r else r)
      = fold (\<lambda>b. payload_data (py_kind p) [b]) (take ?n data) (abs_reader r)"
    by (simp add: abs_payload_data)
  have "abs_reader r1 = settle (after_bytes p (take (?n + ?m) data) (abs_reader r))"
    unfolding r1 abs_payload_done abs using len by (simp add: after_bytes_def settle_def min_def)
  with r1 rest len show ?thesis by simp
qed

lemma run_payload_all:
  assumes "tr_payload r = Some p" and "\<not> tr_ended r" and "data \<noteq> []" and "py_remaining p + py_padding p \<le> length data"
  shows "run_bytes data r =
    run_bytes (drop (py_remaining p + py_padding p) data) (settle (after_bytes p (take (py_remaining p + py_padding p) data) r))"
proof (cases "py_remaining p + py_padding p = 0")
  case True
  have "after_bytes p [] r = r" using assms(1) by (simp add: after_bytes_def)
  with True assms show ?thesis by (simp add: run_settle)
next
  case False
  let ?k = "py_remaining p + py_padding p"
  have "run_bytes data r = run_bytes (take ?k data @ drop ?k data) r" by simp
  also have "\<dots> = (case run_bytes (take ?k data) r of Inl e \<Rightarrow> Inl e | Inr r1 \<Rightarrow> run_bytes (drop ?k data) r1)"
    by (rule run_append)
  also have "run_bytes (take ?k data) r = Inr (settle (after_bytes p (take ?k data) r))"
    using assms False by (intro run_payload) auto
  finally show ?thesis by simp
qed

lemma run_header:
  assumes "tr_payload r = None" and "\<not> tr_ended r" and "length (tr_header r) + length ds < TAR_BLOCK_SIZE"
  shows "run_bytes ds r = Inr (r\<lparr>tr_header := tr_header r @ ds\<rparr>)"
  using assms
proof (induction ds arbitrary: r)
  case Nil
  then show ?case by simp
next
  case (Cons d ds)
  have "byte_step d r = Inr (r\<lparr>tr_header := tr_header r @ [d]\<rparr>)"
    using Cons.prems by (simp add: byte_step_def settle_def)
  with Cons show ?case by simp
qed

lemma run_header_full:
  assumes "tr_payload r = None" and "\<not> tr_ended r" and "ds \<noteq> []" and "length (tr_header r) + length ds = TAR_BLOCK_SIZE"
  shows "run_bytes ds r = consumeHeader (r\<lparr>tr_header := tr_header r @ ds\<rparr>)"
proof -
  have ds: "ds = butlast ds @ [last ds]" using assms(3) by simp
  have len: "length (tr_header r) + length (butlast ds) < TAR_BLOCK_SIZE" using assms(3,4) by (cases ds) simp_all
  have "run_bytes ds r = run_bytes [last ds] (r\<lparr>tr_header := tr_header r @ butlast ds\<rparr>)"
    by (subst ds, subst run_append) (simp add: run_header[OF assms(1,2) len])
  also have "\<dots> = consumeHeader (r\<lparr>tr_header := tr_header r @ ds\<rparr>)"
    using assms ds by (simp add: byte_step_def settle_def split: sum.splits)
  finally show ?thesis .
qed

lemma run_ended: "tr_ended r \<Longrightarrow> run_bytes ds r = Inr r"
  by (induction ds) (simp_all add: byte_step_def)

subsection \<open>The refinement\<close>

text \<open>The header is never full between two calls, and no append is empty.\<close>

fun nonvoid :: "fs_effect \<Rightarrow> bool" where
  "nonvoid (Append_bytes p bs) = (bs \<noteq> [])"
| "nonvoid _ = True"

fun effects_of :: "tar_result \<Rightarrow> fs_effect list" where
  "effects_of (Inl (e, es)) = es"
| "effects_of (Inr r) = tr_effects r"

definition reader_ok :: "tar_reader \<Rightarrow> bool" where
  "reader_ok r \<longleftrightarrow> length (tr_header r) < TAR_BLOCK_SIZE \<and> list_all nonvoid (tr_effects r)"

fun result_ok :: "tar_result \<Rightarrow> bool" where
  "result_ok (Inl (e, es)) = list_all nonvoid es"
| "result_ok (Inr r) = reader_ok r"

lemma result_ok_header: "list_all nonvoid (tr_effects r) \<Longrightarrow> result_ok (consumeHeader r)"
  by (auto simp: consumeHeader_def Let_def beginDirectory_def beginSymlink_def beginRegularFile_def emit_def
    reader_ok_def TAR_BLOCK_SIZE_def split: option.splits sum.splits)

lemma payload_data_nonvoid:
  "data \<noteq> [] \<Longrightarrow> list_all nonvoid (tr_effects (payload_data k data r)) = list_all nonvoid (tr_effects r)"
  by (cases k) (simp_all add: payload_data_def emit_def)

lemma payload_done_effects [simp]: "tr_effects (payload_done k r) = tr_effects r"
  by (simp add: payload_done_def split: payload_kind.splits)

lemma consumePayload_nonvoid:
  assumes "consumePayload p data r = (r1, res)" and "list_all nonvoid (tr_effects r)"
  shows "list_all nonvoid (tr_effects r1)"
proof -
  let ?n = "min (py_remaining p) (length data)"
  let ?r = "if ?n > 0 then payload_data (py_kind p) (take ?n data) r else r"
  have "list_all nonvoid (tr_effects ?r)"
    using assms(2) payload_data_nonvoid[of "take ?n data" "py_kind p" r] by (auto simp del: take_eq_Nil2)
  moreover have "tr_effects r1 = tr_effects ?r"
    using assms(1) by (auto simp: consumePayload_def Let_def split: if_splits)
  ultimately show ?thesis by simp
qed

text \<open>The loop returns, and does what the automaton does; a cleared payload costs a turn and no byte.\<close>

lemma push_loop_refines:
  assumes "reader_ok r" and "\<not> tr_ended r"
  shows "\<exists>out. push_loop r data = Some out \<and> abs_result out = run_bytes data (abs_reader r) \<and> result_ok out"
  using assms
proof (induction "2 * length data + (if tr_payload r = None then 0 else 1)" arbitrary: r data rule: less_induct)
  case less
  show ?case
  proof (cases "data = []")
    case True
    with less.prems show ?thesis by (simp add: push_loop.simps)
  next
    case False
    show ?thesis
    proof (cases "tr_payload r")
      case (Some p)
      obtain r1 res where c: "consumePayload p data r = (r1, res)" by fastforce
      show ?thesis
      proof (cases res)
        case None
        with consumePayload_open[of p data r r1] c
        have o: "length data < py_remaining p + py_padding p" "abs_reader r1 = after_bytes p data (abs_reader r)"
            "tr_header r1 = tr_header r" by simp_all
        have "settle (abs_reader r1) = abs_reader r1"
          unfolding o(2) by (rule settle_open) (use o(1) in \<open>auto simp: after_bytes_def\<close>)
        moreover have "run_bytes data (abs_reader r) = Inr (settle (after_bytes p data (abs_reader r)))"
          using Some less.prems(2) False o(1) by (intro run_payload) simp_all
        moreover have "push_loop r data = Some (Inr r1)" using False Some c None by (simp add: push_loop.simps)
        ultimately show ?thesis using less.prems(1) o(2,3) consumePayload_nonvoid[OF c] by (simp add: reader_ok_def)
      next
        case (Some rest)
        have d: "rest = drop (py_remaining p + py_padding p) data" "py_remaining p + py_padding p \<le> length data"
            "abs_reader r1 = settle (after_bytes p (take (py_remaining p + py_padding p) data) (abs_reader r))"
            "tr_ended r1 = tr_ended r" "tr_header r1 = tr_header r" "tr_payload r1 = None"
          using consumePayload_done[of p data r r1 rest] c Some \<open>tr_payload r = Some p\<close> by simp_all
        have smaller: "2 * length rest + (if tr_payload r1 = None then 0 else 1) < 2 * length data + (if tr_payload r = None then 0 else 1)"
          using d \<open>tr_payload r = Some p\<close> by simp
        have "\<exists>out. push_loop r1 rest = Some out \<and> abs_result out = run_bytes rest (abs_reader r1) \<and> result_ok out"
          by (rule less.hyps[OF smaller]) (use d less.prems consumePayload_nonvoid[OF c] in \<open>simp_all add: reader_ok_def\<close>)
        moreover have "run_bytes rest (abs_reader r1) = run_bytes data (abs_reader r)"
          using run_payload_all[of "abs_reader r" p data] \<open>tr_payload r = Some p\<close> less.prems(2) False d by simp
        moreover have "push_loop r data = push_loop r1 rest"
          using False \<open>tr_payload r = Some p\<close> c Some by (simp add: push_loop.simps[of r data])
        ultimately show ?thesis by simp
      qed
    next
      case None
      define n where "n = min (TAR_BLOCK_SIZE - length (tr_header r)) (length data)"
      define r1 where "r1 = r\<lparr>tr_header := tr_header r @ take n data\<rparr>"
      have len1: "length (tr_header r) + min (length data) n = length (tr_header r1)" by (simp add: r1_def)
      have n: "n > 0" "n \<le> length data" using False less.prems(1) by (auto simp: n_def reader_ok_def)
      show ?thesis
      proof (cases "length (tr_header r1) < TAR_BLOCK_SIZE")
        case True
        then have "n = length data" using n(2) less.prems(1) by (auto simp: n_def r1_def reader_ok_def min_def split: if_splits)
        with True None less.prems(2) have "run_bytes data (abs_reader r) = Inr (abs_reader r1)"
          by (subst run_header) (simp_all add: r1_def abs_updates)
        moreover have "push_loop r data = Some (Inr r1)"
          using False None True len1 by (simp add: push_loop.simps[of r data] Let_def n_def[symmetric] r1_def[symmetric])
        ultimately show ?thesis using True less.prems(1) by (simp add: reader_ok_def r1_def)
      next
        case full: False
        then have len: "length (tr_header r) + length (take n data) = TAR_BLOCK_SIZE"
          using n less.prems(1) by (auto simp: n_def r1_def reader_ok_def min_def split: if_splits)
        have "run_bytes data (abs_reader r) = run_bytes (take n data @ drop n data) (abs_reader r)" by simp
        also have "\<dots> = (case run_bytes (take n data) (abs_reader r) of Inl e \<Rightarrow> Inl e | Inr r2 \<Rightarrow> run_bytes (drop n data) r2)"
          by (rule run_append)
        also have "run_bytes (take n data) (abs_reader r) = abs_result (consumeHeader r1)"
          using None less.prems(2) len n
          by (subst run_header_full) (auto simp: r1_def abs_updates abs_consumeHeader[symmetric])
        finally have run: "run_bytes data (abs_reader r) =
            (case abs_result (consumeHeader r1) of Inl e \<Rightarrow> Inl e | Inr r2 \<Rightarrow> run_bytes (drop n data) r2)" .
        have loop: "push_loop r data = (case consumeHeader r1 of Inl e \<Rightarrow> Some (Inl e)
            | Inr r2 \<Rightarrow> if tr_ended r2 then Some (Inr r2) else push_loop r2 (drop n data))"
          using False None full len1 by (simp add: push_loop.simps[of r data] Let_def n_def[symmetric] r1_def[symmetric])
        have ok1: "result_ok (consumeHeader r1)"
          using less.prems(1) by (intro result_ok_header) (simp add: r1_def reader_ok_def)
        show ?thesis
        proof (cases "consumeHeader r1")
          case (Inl e)
          with run loop ok1 show ?thesis by (cases e) simp
        next
          case (Inr r2)
          have ok: "reader_ok r2" using ok1 Inr by simp
          show ?thesis
          proof (cases "tr_ended r2")
            case True
            with run loop Inr ok show ?thesis by (simp add: run_ended)
          next
            case open_r2: False
            have "length (drop n data) < length data" using n by simp
            then have "2 * length (drop n data) + (if tr_payload r2 = None then 0 else 1)
                < 2 * length data + (if tr_payload r = None then 0 else 1)"
              using None by (auto simp del: length_drop)
            from less.hyps[OF this ok open_r2] run loop Inr open_r2 show ?thesis by simp
          qed
        qed
      qed
    qed
  qed
qed

lemma pushTarChunk_refines:
  assumes "reader_ok r"
  shows "\<exists>out. pushTarChunk r data = Some out \<and> abs_result out = run_bytes data (abs_reader r) \<and> result_ok out"
  using assms push_loop_refines[OF assms, of data] by (cases "tr_ended r") (simp_all add: pushTarChunk_def run_ended)

lemma push_all_refines:
  "reader_ok r \<Longrightarrow> \<exists>out. push_all r chunks = Some out \<and> abs_result out = run_bytes (concat chunks) (abs_reader r) \<and> result_ok out"
proof (induction chunks arbitrary: r)
  case Nil
  then show ?case by simp
next
  case (Cons c cs)
  from pushTarChunk_refines[OF Cons.prems, of c] obtain out where
    out: "pushTarChunk r c = Some out" "abs_result out = run_bytes c (abs_reader r)" "result_ok out" by blast
  show ?case
  proof (cases out)
    case (Inl e)
    with out show ?thesis by (cases e) (simp add: run_append flip: out(2))
  next
    case (Inr r1)
    with out Cons.IH[of r1] show ?thesis by (simp add: run_append flip: out(2))
  qed
qed

lemma nonvoid_finish: "reader_ok r \<Longrightarrow> list_all nonvoid (effects_of (finishTarReader r))"
proof -
  have "list_all nonvoid (concat (map (\<lambda>(linkPath, target). [Make_dir (dirname linkPath), Make_symlink linkPath target]) ls))" for ls
    by (induction ls) auto
  then show "reader_ok r \<Longrightarrow> ?thesis" by (simp add: finishTarReader_def emit_def reader_ok_def)
qed

lemma extract_tar_bytes:
  "\<exists>out. extract_tar workRoot maxBytes chunks = Some out
     \<and> abs_result out = abs_result (extract_bytes workRoot maxBytes (concat chunks))
     \<and> list_all nonvoid (effects_of out)"
proof -
  have "reader_ok (createTarReader workRoot maxBytes)"
    by (simp add: reader_ok_def createTarReader_def TAR_BLOCK_SIZE_def)
  from push_all_refines[OF this, of chunks] obtain out where
    out: "push_all (createTarReader workRoot maxBytes) chunks = Some out"
      "abs_result out = run_bytes (concat chunks) (createTarReader workRoot maxBytes)" "result_ok out" by auto
  show ?thesis
  proof (cases out)
    case (Inl e)
    with out show ?thesis by (cases e) (simp add: extract_tar_def extract_bytes_def flip: out(2))
  next
    case (Inr r)
    with out show ?thesis by (simp add: extract_tar_def extract_bytes_def abs_finish nonvoid_finish flip: out(2))
  qed
qed

text \<open>
  C18. Extracting a tar archive returns, and does exactly what reading the archive byte by byte
  does, however the bytes are cut into chunks: the same error, or the same directories, files,
  contents and links in the same order.
\<close>

theorem tar_chunks_refine_bytes:
  "map_option abs_result (extract_tar workRoot maxBytes chunks) =
     Some (abs_result (extract_bytes workRoot maxBytes (concat chunks)))"
  using extract_tar_bytes[of workRoot maxBytes chunks] by auto

end
