(* ===== verification/Tar_Safety.thy ===== *)
theory Tar_Safety
  imports Tar_Refinement
begin

section \<open>What a tar archive can do to the file system\<close>

text \<open>
  Every effect of an extraction names a path below the extraction root, every link points, as
  its path reads, below it, and the written bytes respect the limit, whatever the archive holds
  and wherever it fails. Two gaps are shown as well: a link below a link, and long names.
\<close>

definition link_inside :: "path \<Rightarrow> path \<Rightarrow> string \<Rightarrow> bool" where
  "link_inside root linkPath target \<longleftrightarrow> prefix root linkPath \<and> isSubpath (resolve_path (dirname linkPath) target) root"

text \<open>The parent of a file at the root is the root's own parent, which exists.\<close>

fun inside :: "path \<Rightarrow> fs_effect \<Rightarrow> bool" where
  "inside root (Make_dir p) = (prefix root p \<or> p = dirname root)"
| "inside root (Create_file p mode) = prefix root p"
| "inside root (Append_bytes p bs) = prefix root p"
| "inside root (Make_symlink p target) = link_inside root p target"

fun bytes_of :: "fs_effect \<Rightarrow> nat" where
  "bytes_of (Append_bytes p bs) = length bs"
| "bytes_of _ = 0"

definition bytes_written :: "fs_effect list \<Rightarrow> nat" where
  "bytes_written es = sum_list (map bytes_of es)"

subsection \<open>The invariant of the reader\<close>

definition pending_bytes :: "tar_reader \<Rightarrow> nat" where
  "pending_bytes r =
     (case tr_payload r of
        None \<Rightarrow> 0
      | Some p \<Rightarrow> (case py_kind p of File_data t \<Rightarrow> py_remaining p | _ \<Rightarrow> 0))"

definition payload_inside :: "path \<Rightarrow> tar_reader \<Rightarrow> bool" where
  "payload_inside root r \<longleftrightarrow>
     (case tr_payload r of None \<Rightarrow> True | Some p \<Rightarrow> (case py_kind p of File_data t \<Rightarrow> prefix root t | _ \<Rightarrow> True))"

definition effects_ok :: "path \<Rightarrow> nat \<Rightarrow> fs_effect list \<Rightarrow> bool" where
  "effects_ok root m es \<longleftrightarrow> list_all (inside root) es \<and> bytes_written es \<le> m"

definition safe_reader :: "path \<Rightarrow> nat \<Rightarrow> tar_reader \<Rightarrow> bool" where
  "safe_reader root m r \<longleftrightarrow>
     tr_workRoot r = root \<and> tr_maxUncompressedBytes r = m \<and> list_all (inside root) (tr_effects r)
     \<and> list_all (\<lambda>(p, t). link_inside root p t) (tr_symlinks r) \<and> payload_inside root r
     \<and> bytes_written (tr_effects r) + pending_bytes r \<le> tr_total r \<and> tr_total r \<le> m"

fun safe_result :: "path \<Rightarrow> nat \<Rightarrow> tar_result \<Rightarrow> bool" where
  "safe_result root m (Inl (e, es)) = effects_ok root m es"
| "safe_result root m (Inr r) = safe_reader root m r"

lemma bytes_written_append [simp]: "bytes_written (es @ es') = bytes_written es + bytes_written es'"
  by (simp add: bytes_written_def)

lemma safe_effects: "safe_reader root m r \<Longrightarrow> effects_ok root m (tr_effects r)"
  by (simp add: safe_reader_def effects_ok_def)

lemma safe_fail: "safe_reader root m r \<Longrightarrow> safe_result root m (failed_at r e)"
  by (simp add: safe_effects)

lemma safe_payload_done: "safe_reader root m r \<Longrightarrow> safe_reader root m (payload_done k r)"
  by (cases k) (auto simp: payload_done_def safe_reader_def payload_inside_def pending_bytes_def)

lemma safe_settle: "safe_reader root m r \<Longrightarrow> safe_reader root m (settle r)"
  by (simp add: settle_def safe_payload_done split: option.splits)

lemma safe_payload_byte:
  "safe_reader root m r \<Longrightarrow> tr_payload r = Some p \<Longrightarrow> safe_reader root m (payload_byte p b r)"
  by (cases "py_kind p")
    (auto simp: payload_byte_def payload_data_def safe_reader_def payload_inside_def pending_bytes_def emit_def bytes_written_def)

lemma safe_beginDirectory:
  assumes "safe_reader root m r" and "tr_payload r = None"
  shows "safe_result root m (beginDirectory r entry)"
proof (cases "assertSafeDestination (tr_workRoot r) (te_name entry)")
  case (Inl e)
  then show ?thesis using assms by (simp add: beginDirectory_def safe_fail[simplified])
next
  case (Inr t)
  then show ?thesis using assms assertSafeDestination_inside[OF Inr]
    by (simp add: beginDirectory_def safe_reader_def emit_def entry_payload_def payload_inside_def pending_bytes_def bytes_written_def)
qed

lemma safe_beginSymlink:
  assumes "safe_reader root m r" and "tr_payload r = None"
  shows "safe_result root m (beginSymlink r header entry)"
proof (cases "assertSafeDestination (tr_workRoot r) (te_name entry)")
  case (Inl e)
  then show ?thesis using assms by (simp add: beginSymlink_def safe_fail[simplified])
next
  case (Inr t)
  then show ?thesis using assms assertSafeDestination_inside[OF Inr] safe_effects[OF assms(1)]
    by (simp add: beginSymlink_def Let_def safe_reader_def entry_payload_def payload_inside_def pending_bytes_def link_inside_def)
qed

lemma dirname_inside: "prefix root t \<Longrightarrow> prefix root (dirname t) \<or> dirname t = dirname root"
  by (cases "t = root") (auto simp: dirname_def prefix_def butlast_append)

lemma safe_beginRegularFile:
  assumes "safe_reader root m r" and "tr_payload r = None"
  shows "safe_result root m (beginRegularFile r header entry)"
proof -
  let ?r = "r\<lparr>tr_total := tr_total r + te_size entry\<rparr>"
  show ?thesis
  proof (cases "tr_total ?r > tr_maxUncompressedBytes ?r")
    case True
    then show ?thesis using safe_effects[OF assms(1)] by (simp add: beginRegularFile_def)
  next
    case False
    show ?thesis
    proof (cases "assertSafeDestination (tr_workRoot r) (te_name entry)")
      case (Inl e)
      with False show ?thesis using safe_effects[OF assms(1)] by (simp add: beginRegularFile_def)
    next
      case (Inr t)
      then have "prefix root t" using assms(1) assertSafeDestination_inside by (auto simp: safe_reader_def)
      with False Inr dirname_inside[OF this] show ?thesis using assms
        by (auto simp: beginRegularFile_def Let_def safe_reader_def emit_def entry_payload_def payload_inside_def
          pending_bytes_def bytes_written_def)
    qed
  qed
qed

lemma safe_consumeHeader:
  assumes "safe_reader root m r" and "tr_payload r = None"
  shows "safe_result root m (consumeHeader r)"
proof -
  have "safe_reader root m (r\<lparr>tr_header := h, tr_pendingLongName := n\<rparr>)" for h n
    using assms(1) by (simp add: safe_reader_def payload_inside_def pending_bytes_def)
  note starts = safe_beginDirectory[OF this] safe_beginSymlink[OF this] safe_beginRegularFile[OF this]
  show ?thesis
    using assms starts[simplified, OF assms(2)] safe_effects[OF assms(1)] unfolding consumeHeader_def Let_def
    by (auto simp: safe_reader_def payload_inside_def pending_bytes_def)
qed

lemma safe_header:
  "safe_reader root m r \<Longrightarrow> safe_reader root m (r\<lparr>tr_header := h\<rparr>)"
  by (simp add: safe_reader_def payload_inside_def pending_bytes_def)

lemma safe_byte_step:
  assumes "safe_reader root m r"
  shows "safe_result root m (byte_step b r)"
proof (cases "tr_payload (settle r)")
  case None
  let ?r = "(settle r)\<lparr>tr_header := tr_header (settle r) @ [b]\<rparr>"
  have "safe_reader root m ?r" using assms by (simp only: safe_header safe_settle)
  with None safe_consumeHeader[of root m ?r] assms show ?thesis
    by (simp add: byte_step_def Let_def)
next
  case (Some p)
  with safe_payload_byte[OF safe_settle[OF assms] Some] assms show ?thesis
    by (simp add: byte_step_def Let_def safe_settle)
qed

lemma safe_run_bytes: "safe_reader root m r \<Longrightarrow> safe_result root m (run_bytes bs r)"
proof (induction bs arbitrary: r)
  case Nil
  then show ?case by simp
next
  case (Cons b bs)
  from safe_byte_step[OF Cons.prems, of b] Cons.IH show ?case
    by (cases "byte_step b r") auto
qed

lemma safe_finish:
  assumes "safe_reader root m r"
  shows "effects_ok root m (effects_of (finishTarReader r))"
proof -
  let ?links = "\<lambda>ls. concat (map (\<lambda>(linkPath, target). [Make_dir (dirname linkPath), Make_symlink linkPath target]) ls)"
  have "list_all (inside root) (?links ls) \<and> bytes_written (?links ls) = 0"
    if "list_all (\<lambda>(p, t). link_inside root p t) ls" for ls
    using that by (induction ls) (auto simp: link_inside_def bytes_written_def dest: dirname_inside)
  with assms safe_effects[OF assms] show ?thesis
    by (auto simp: finishTarReader_def emit_def effects_ok_def safe_reader_def)
qed

lemma safe_extract_bytes: "effects_ok root m (effects_of (extract_bytes root m archive))"
proof -
  have "safe_reader root m (createTarReader root m)"
    by (simp add: safe_reader_def createTarReader_def payload_inside_def pending_bytes_def bytes_written_def)
  from safe_run_bytes[OF this, of archive] show ?thesis
    by (auto simp: extract_bytes_def safe_finish split: sum.splits)
qed

subsection \<open>Every extraction\<close>

lemma inside_expand: "nonvoid e \<Longrightarrow> list_all (inside root) (expand e) = inside root e"
  by (cases e) (auto simp: list_all_iff)

lemma inside_expand_all: "list_all nonvoid es \<Longrightarrow> list_all (inside root) (expand_all es) = list_all (inside root) es"
  by (induction es) (simp_all add: expand_all_def inside_expand)

lemma inside_expanded: "list_all (inside root) es \<Longrightarrow> list_all (inside root) (expand_all es)"
proof -
  have "inside root e \<Longrightarrow> list_all (inside root) (expand e)" for e by (cases e) (auto simp: list_all_iff)
  then show "list_all (inside root) es \<Longrightarrow> ?thesis" by (induction es) (simp_all add: expand_all_def)
qed

lemma bytes_expand: "bytes_written (expand e) = bytes_of e"
  by (cases e) (simp_all add: bytes_written_def comp_def sum_list_triv)

lemma bytes_expand_all: "bytes_written (expand_all es) = bytes_written es"
  by (induction es) (simp_all add: expand_all_def bytes_expand, simp_all add: bytes_written_def)

lemma effects_abs: "effects_of (abs_result out) = expand_all (effects_of out)"
  by (cases out) auto

lemma tar_stays_inside:
  "\<exists>out. extract_tar workRoot maxBytes chunks = Some out
     \<and> list_all (inside workRoot) (effects_of out) \<and> bytes_written (effects_of out) \<le> maxBytes"
proof -
  obtain out where out: "extract_tar workRoot maxBytes chunks = Some out"
      "abs_result out = abs_result (extract_bytes workRoot maxBytes (concat chunks))" "list_all nonvoid (effects_of out)"
    using extract_tar_bytes by blast
  let ?es = "effects_of (extract_bytes workRoot maxBytes (concat chunks))"
  have same: "expand_all (effects_of out) = expand_all ?es" using out(2) effects_abs by metis
  have safe: "list_all (inside workRoot) ?es" "bytes_written ?es \<le> maxBytes"
    using safe_extract_bytes[of workRoot maxBytes "concat chunks"] by (simp_all add: effects_ok_def)
  have "list_all (inside workRoot) (effects_of out)"
    using inside_expanded[OF safe(1)] inside_expand_all[OF out(3)] same by simp
  moreover have "bytes_written (effects_of out) \<le> maxBytes"
    using safe(2) bytes_expand_all[of "effects_of out"] bytes_expand_all[of ?es] same by simp
  ultimately show ?thesis using out(1) by blast
qed

subsection \<open>Two gaps\<close>

text \<open>
  The check of a link is lexical. Once \<open>a/b/c\<close> is a link to the directory \<open>s\<close>, the link
  \<open>a/b/c/l\<close> is made in \<open>s\<close>, where its target \<open>../../x\<close> lies outside the root.
\<close>

lemma link_below_link_escapes:
  fixes root :: path
  assumes "root \<noteq> []"
  defines "c \<equiv> root @ [''a'', ''b'', ''c'']"
  shows "link_inside root c ''../../s'' \<and> resolve_path (dirname c) ''../../s'' = root @ [''s'']
     \<and> link_inside root (c @ [''l'']) ''../../x''
     \<and> \<not> isSubpath (resolve_path (root @ [''s'']) ''../../x'') root"
proof -
  have split: "split_on CHR ''/'' ''../../s'' = [''..'', ''..'', ''s'']" "split_on CHR ''/'' ''../../x'' = [''..'', ''..'', ''x'']"
    by simp_all
  have "prefix root (butlast root @ [''x'']) \<Longrightarrow> butlast root @ [''x''] = root"
    using assms(1) by (auto simp: prefix_def) (metis append_butlast_last_id append_eq_append_conv length_append_singleton same_append_eq append_Nil2 list.size(4) append.assoc)
  then show ?thesis using assms(1)
    by (auto simp: link_inside_def c_def resolve_path_def split path_step_def dirname_def isSubpath_iff butlast_append)
qed

text \<open>The bytes of a long name are kept in memory and counted nowhere.\<close>

lemma long_name_is_unbounded:
  assumes "tr_payload r = Some p" and "py_kind p = Long_name" and "\<not> tr_ended r"
    and "data \<noteq> []" and "length data < py_remaining p"
  shows "\<exists>r'. pushTarChunk r data = Some (Inr r') \<and> concat (tr_longNameParts r') = concat (tr_longNameParts r) @ data
    \<and> tr_total r' = tr_total r"
  using assms by (auto simp: pushTarChunk_def push_loop.simps[of r data] consumePayload_def Let_def payload_data_def min_def)

end
