(* ===== verification/Package_Extraction.thy ===== *)
theory Package_Extraction
  imports Tar_Safety
begin

section \<open>Plugin packages\<close>

text \<open>
  \<^verbatim>\<open>plugin-package/zip.extractor.ts\<close> and \<^verbatim>\<open>extract.extractor.ts\<close>: the handler of zip
  entries, the choice of the decoder and the search of the plugin's directory. The decoders
  (\<^verbatim>\<open>fflate\<close>) are parameters: \<open>gunzip\<close> gives the inflated chunks, \<open>unzip\<close> the calls it makes
  for each chunk. So are the answers of the file system: \<open>fs_error\<close> is the code a creation
  fails with, \<open>readdir\<close> the entries of a directory.
\<close>

subsection \<open>Zip entries\<close>

text \<open>The library announces an entry, then hands over its data in pieces.\<close>

datatype zip_event = Zip_entry string | Zip_data nat "byte list"

record zip_handler =
  zh_workRoot :: path
  zh_maxUncompressedBytes :: nat
  zh_total :: nat
  zh_files :: "path list"
  zh_failure :: "domain_error option"
  zh_effects :: "fs_effect list"

definition createZipEntryHandler :: "path \<Rightarrow> nat \<Rightarrow> zip_handler" where
  "createZipEntryHandler workRoot maxUncompressedBytes =
     \<lparr>zh_workRoot = workRoot, zh_maxUncompressedBytes = maxUncompressedBytes, zh_total = 0, zh_files = [],
      zh_failure = None, zh_effects = []\<rparr>"

text \<open>A raw error of the file system is kept as an internal error with its code.\<close>

definition createEntryFile :: "(path \<Rightarrow> string option) \<Rightarrow> path \<Rightarrow> zip_handler \<Rightarrow> zip_handler result" where
  "createEntryFile fs_error target h =
     (case fs_error target of
        Some c \<Rightarrow> Throw (if c = ''EISDIR'' \<or> c = ''ENOTDIR'' then conflictingEntry else DomainError Internal c)
      | None \<Rightarrow> Return (h\<lparr>zh_effects := zh_effects h @ [Make_dir (dirname target), Create_file target None]\<rparr>))"

fun zip_step :: "(path \<Rightarrow> string option) \<Rightarrow> zip_event \<Rightarrow> zip_handler \<Rightarrow> zip_handler result" where
  "zip_step fs_error (Zip_entry name) h =
     (if name \<noteq> [] \<and> last name = CHR ''/'' then Return h
      else case assertSafeDestination (zh_workRoot h) name of
        Inl e \<Rightarrow> Throw e
      | Inr target \<Rightarrow>
          (case createEntryFile fs_error target h of
             Inl e \<Rightarrow> Throw e
           | Inr h1 \<Rightarrow> Return (h1\<lparr>zh_files := zh_files h1 @ [target]\<rparr>)))"
| "zip_step fs_error (Zip_data i data) h =
     (if i < length (zh_files h) then
        (let h1 = h\<lparr>zh_total := zh_total h + length data\<rparr> in
         if zh_total h1 > zh_maxUncompressedBytes h1 then Return (h1\<lparr>zh_failure := Some unpackedTooLarge\<rparr>)
         else Return (h1\<lparr>zh_effects := zh_effects h1 @ [Append_bytes (zh_files h1 ! i) data]\<rparr>))
      else Return h)"

text \<open>One chunk: the calls the library makes for it; what a call throws ends the chunk.\<close>

fun zip_calls :: "(path \<Rightarrow> string option) \<Rightarrow> zip_event list \<Rightarrow> zip_handler \<Rightarrow> zip_handler" where
  "zip_calls fs_error [] h = h"
| "zip_calls fs_error (e # es) h =
     (case zip_step fs_error e h of
        Inl err \<Rightarrow> h\<lparr>zh_failure := Some err\<rparr>
      | Inr h1 \<Rightarrow> zip_calls fs_error es h1)"

definition zip_dispatch :: "(path \<Rightarrow> string option) \<Rightarrow> zip_event list \<Rightarrow> zip_handler \<Rightarrow> zip_handler" where
  "zip_dispatch fs_error es h = (if zh_failure h \<noteq> None then h else zip_calls fs_error es h)"

definition zip_finish :: "zip_handler \<Rightarrow> unit result" where
  "zip_finish h = (case zh_failure h of Some e \<Rightarrow> Throw e | None \<Rightarrow> Return ())"

subsection \<open>The archive\<close>

datatype archive_type = Zip | Gzip | Tar

definition sniffArchiveType :: "byte list \<Rightarrow> archive_type result" where
  "sniffArchiveType data =
     (if take 4 data = [0x52, 0x61, 0x72, 0x21] then Throw (DomainError Validation ''plugin.archive_format_unsupported'')
      else if take 2 data = [0x50, 0x4B] then Return Zip
      else if take 2 data = [0x1F, 0x8B] then Return Gzip
      else Return Tar)"

text \<open>The effects of an extraction and its error, if any; an empty file is no archive and no error.\<close>

definition extractArchive ::
  "(path \<Rightarrow> string option) \<Rightarrow> (byte list list \<Rightarrow> byte list list) \<Rightarrow> (byte list list \<Rightarrow> zip_event list list)
     \<Rightarrow> path \<Rightarrow> nat \<Rightarrow> byte list list \<Rightarrow> (domain_error option \<times> fs_effect list) option" where
  "extractArchive fs_error gunzip unzip workRoot maxBytes chunks =
     (case chunks of
        [] \<Rightarrow> Some (None, [])
      | first # _ \<Rightarrow>
          (case sniffArchiveType first of
             Inl e \<Rightarrow> Some (Some e, [])
           | Inr Zip \<Rightarrow>
               (let h = fold (zip_dispatch fs_error) (unzip chunks) (createZipEntryHandler workRoot maxBytes) in
                Some (case zip_finish h of Inl e \<Rightarrow> Some e | Inr _ \<Rightarrow> None, zh_effects h))
           | Inr t \<Rightarrow>
               (case extract_tar workRoot maxBytes (if t = Gzip then gunzip chunks else chunks) of
                  None \<Rightarrow> None
                | Some (Inl (e, es)) \<Rightarrow> Some (Some e, es)
                | Some (Inr r) \<Rightarrow> Some (None, tr_effects r))))"

subsection \<open>The plugin's directory\<close>

datatype dirent_kind = Is_file | Is_directory | Is_other

type_synonym dirent = "string \<times> dirent_kind"

definition PLUGIN_ROOT_SEARCH_DEPTH :: nat where
  "PLUGIN_ROOT_SEARCH_DEPTH = 3"

definition holds_manifest :: "dirent list \<Rightarrow> bool" where
  "holds_manifest entries \<longleftrightarrow> list_ex (\<lambda>(name, kind). kind = Is_file \<and> name = ''plugin.json'') entries"

definition visible_directories :: "path \<Rightarrow> dirent list \<Rightarrow> path list" where
  "visible_directories directory entries =
     map (\<lambda>(name, kind). directory @ [name])
       (filter (\<lambda>(name, kind). kind = Is_directory \<and> take 1 name \<noteq> ''.'') entries)"

text \<open>A search that does not end is \<open>None\<close>.\<close>

partial_function (option) locate :: "(path \<Rightarrow> dirent list) \<Rightarrow> (path \<times> nat) list \<Rightarrow> path result option" where
  "locate readdir queue =
     (case queue of
        [] \<Rightarrow> Some (Throw (DomainError Validation ''plugin.manifest_missing''))
      | (directory, depth) # rest \<Rightarrow>
          (if holds_manifest (readdir directory) then Some (Return directory)
           else if depth \<ge> PLUGIN_ROOT_SEARCH_DEPTH then locate readdir rest
           else locate readdir (rest @ map (\<lambda>d. (d, depth + 1)) (visible_directories directory (readdir directory)))))"

definition locatePluginDirectory :: "(path \<Rightarrow> dirent list) \<Rightarrow> path \<Rightarrow> path result option" where
  "locatePluginDirectory readdir root = locate readdir [(root, 0)]"

subsection \<open>Zip archives stay inside\<close>

definition zip_safe :: "zip_handler \<Rightarrow> bool" where
  "zip_safe h \<longleftrightarrow>
     list_all (inside (zh_workRoot h)) (zh_effects h) \<and> list_all (prefix (zh_workRoot h)) (zh_files h)
     \<and> bytes_written (zh_effects h) \<le> zh_total h \<and> bytes_written (zh_effects h) \<le> zh_maxUncompressedBytes h"

definition same_limits :: "zip_handler \<Rightarrow> zip_handler \<Rightarrow> bool" where
  "same_limits h h' \<longleftrightarrow> zh_workRoot h' = zh_workRoot h \<and> zh_maxUncompressedBytes h' = zh_maxUncompressedBytes h"

lemma zip_safe_step: "zip_safe h \<Longrightarrow> zip_step fs_error e h = Inr h' \<Longrightarrow> zip_safe h' \<and> same_limits h h'"
proof (cases e)
  case (Zip_entry name)
  assume h: "zip_safe h" and s: "zip_step fs_error e h = Inr h'"
  show ?thesis
  proof (cases "name \<noteq> [] \<and> last name = CHR ''/''")
    case True
    with h s Zip_entry show ?thesis by (simp add: same_limits_def)
  next
    case False
    with s Zip_entry obtain t where t: "assertSafeDestination (zh_workRoot h) name = Inr t"
      by (auto split: sum.splits if_splits)
    have "prefix (zh_workRoot h) t" using t by (rule assertSafeDestination_inside)
    with False h s Zip_entry t dirname_inside[OF this] show ?thesis
      by (auto simp: createEntryFile_def zip_safe_def same_limits_def bytes_written_def split: option.splits if_splits)
  qed
next
  case (Zip_data i data)
  assume h: "zip_safe h" and s: "zip_step fs_error e h = Inr h'"
  then have "i < length (zh_files h) \<Longrightarrow> prefix (zh_workRoot h) (zh_files h ! i)"
    by (simp add: zip_safe_def list_all_length)
  with h s Zip_data show ?thesis
    by (auto simp: zip_safe_def same_limits_def Let_def bytes_written_def split: if_splits)
qed

lemma zip_safe_calls: "zip_safe h \<Longrightarrow> zip_safe (zip_calls fs_error es h) \<and> same_limits h (zip_calls fs_error es h)"
proof (induction es arbitrary: h)
  case Nil
  then show ?case by (simp add: same_limits_def)
next
  case (Cons e es)
  show ?case
  proof (cases "zip_step fs_error e h")
    case (Inl err)
    with Cons.prems show ?thesis by (simp add: zip_safe_def same_limits_def)
  next
    case (Inr h1)
    from zip_safe_step[OF Cons.prems Inr] Cons.IH[of h1] Inr show ?thesis by (auto simp: same_limits_def)
  qed
qed

lemma zip_safe_dispatches:
  "zip_safe h \<Longrightarrow> zip_safe (fold (zip_dispatch fs_error) ess h) \<and> same_limits h (fold (zip_dispatch fs_error) ess h)"
proof (induction ess arbitrary: h)
  case Nil
  then show ?case by (simp add: same_limits_def)
next
  case (Cons es ess)
  then have "zip_safe (zip_dispatch fs_error es h) \<and> same_limits h (zip_dispatch fs_error es h)"
    using zip_safe_calls by (simp add: zip_dispatch_def same_limits_def)
  with Cons.IH[of "zip_dispatch fs_error es h"] show ?case by (auto simp: same_limits_def)
qed


subsection \<open>The search is by levels\<close>

text \<open>The directories at a depth, in the order of the listing.\<close>

fun level :: "(path \<Rightarrow> dirent list) \<Rightarrow> path \<Rightarrow> nat \<Rightarrow> path list" where
  "level readdir root 0 = [root]"
| "level readdir root (Suc k) = concat (map (\<lambda>d. visible_directories d (readdir d)) (level readdir root k))"

definition at_depth :: "nat \<Rightarrow> path list \<Rightarrow> (path \<times> nat) list" where
  "at_depth k ds = map (\<lambda>d. (d, k)) ds"

lemma locate_Nil: "locate readdir [] = Some (Throw (DomainError Validation ''plugin.manifest_missing''))"
  by (simp add: locate.simps)

text \<open>A level that is not the last queues the next one behind itself.\<close>

lemma locate_level:
  assumes "k < PLUGIN_ROOT_SEARCH_DEPTH"
  shows "locate readdir (at_depth k ds @ at_depth (Suc k) es) =
    (case find (\<lambda>d. holds_manifest (readdir d)) ds of
       Some d \<Rightarrow> Some (Return d)
     | None \<Rightarrow> locate readdir (at_depth (Suc k) (es @ concat (map (\<lambda>d. visible_directories d (readdir d)) ds))))"
proof (induction ds arbitrary: es)
  case Nil
  then show ?case by (simp add: at_depth_def)
next
  case (Cons d ds)
  show ?case
  proof (cases "holds_manifest (readdir d)")
    case True
    then show ?thesis by (simp add: at_depth_def locate.simps)
  next
    case False
    then have "locate readdir (at_depth k (d # ds) @ at_depth (Suc k) es) =
        locate readdir (at_depth k ds @ at_depth (Suc k) (es @ visible_directories d (readdir d)))"
      using assms by (simp add: at_depth_def locate.simps[of readdir "(d, k) # _"])
    with False Cons.IH show ?thesis by (simp split: option.split)
  qed
qed

lemma locate_last:
  "locate readdir (at_depth PLUGIN_ROOT_SEARCH_DEPTH ds) =
    Some (case find (\<lambda>d. holds_manifest (readdir d)) ds of
       Some d \<Rightarrow> Return d | None \<Rightarrow> Throw (DomainError Validation ''plugin.manifest_missing''))"
proof (induction ds)
  case Nil
  then show ?case by (simp add: at_depth_def locate_Nil)
next
  case (Cons d ds)
  then show ?case by (simp add: at_depth_def locate.simps[of readdir "(d, PLUGIN_ROOT_SEARCH_DEPTH) # _"])
qed

lemma find_append: "find P (xs @ ys) = (case find P xs of Some x \<Rightarrow> Some x | None \<Rightarrow> find P ys)"
  by (induction xs) simp_all

text \<open>
  C20. The search of the plugin's directory ends on every directory tree, however deep or wide,
  and finds the first directory with a manifest in the order of the levels: the shallowest one,
  at most three levels down, or none.
\<close>

theorem search_finds_shallowest:
  "locatePluginDirectory readdir root =
     Some (case find (\<lambda>d. holds_manifest (readdir d)) (concat (map (level readdir root) [0, 1, 2, 3])) of
       Some d \<Rightarrow> Return d | None \<Rightarrow> Throw (DomainError Validation ''plugin.manifest_missing''))"
proof -
  let ?find = "find (\<lambda>d. holds_manifest (readdir d))"
  have next_level: "locate readdir (at_depth k (level readdir root k)) =
      (case ?find (level readdir root k) of Some d \<Rightarrow> Some (Return d)
       | None \<Rightarrow> locate readdir (at_depth (Suc k) (level readdir root (Suc k))))"
    if "k < PLUGIN_ROOT_SEARCH_DEPTH" for k
    using locate_level[OF that, of readdir "level readdir root k" "[]"] by (simp add: at_depth_def[of _ "[]"] split: option.split)
  have last: "locate readdir (at_depth 3 (level readdir root 3)) =
      Some (case ?find (level readdir root 3) of
        Some d \<Rightarrow> Return d | None \<Rightarrow> Throw (DomainError Validation ''plugin.manifest_missing''))"
    using locate_last[of readdir "level readdir root 3"] by (simp add: PLUGIN_ROOT_SEARCH_DEPTH_def)
  have "locatePluginDirectory readdir root = locate readdir (at_depth 0 (level readdir root 0))"
    by (simp add: locatePluginDirectory_def at_depth_def)
  then show ?thesis
    using next_level[of 0] next_level[of 1] next_level[of 2] last
    by (simp add: PLUGIN_ROOT_SEARCH_DEPTH_def find_append numeral_2_eq_2 numeral_3_eq_3 del: level.simps split: option.split)
qed

end
