(* ===== verification/Ip_Address.thy ===== *)
theory Ip_Address
  imports Js_String "HOL-Library.Word" "HOL-Library.Sublist"
begin

section \<open>Public addresses\<close>

text \<open>
  The classification of addresses in \<^verbatim>\<open>utils/url-guard.utils.ts\<close>. JavaScript's bitwise
  operators work on 32-bit integers and the code makes each result unsigned, so an IPv4 address
  is a 32-bit word.
\<close>

unbundle bit_operations_syntax

subsection \<open>Numbers in text\<close>

definition digit_value :: "char \<Rightarrow> nat option" where
  "digit_value c = (let n = (of_char c :: nat) in
     if 48 \<le> n \<and> n \<le> 57 then Some (n - 48)
     else if 97 \<le> n \<and> n \<le> 122 then Some (n - 87)
     else if 65 \<le> n \<and> n \<le> 90 then Some (n - 55)
     else None)"

definition is_digit_of :: "nat \<Rightarrow> char \<Rightarrow> bool" where
  "is_digit_of radix c \<longleftrightarrow> (case digit_value c of None \<Rightarrow> False | Some v \<Rightarrow> v < radix)"

definition digits_value :: "nat \<Rightarrow> string \<Rightarrow> nat" where
  "digits_value radix ds = fold (\<lambda>c n. n * radix + (case digit_value c of None \<Rightarrow> 0 | Some v \<Rightarrow> v)) ds 0"

text \<open>\<^verbatim>\<open>Number.parseInt\<close>: white space, a sign, the longest run of digits; NaN is \<open>None\<close>.\<close>

definition parse_int :: "nat \<Rightarrow> string \<Rightarrow> int option" where
  "parse_int radix s =
     (let t = dropWhile is_space s;
          negative = (take 1 t = ''-'');
          u = (if take 1 t = ''-'' \<or> take 1 t = ''+'' then drop 1 t else t);
          v = (if radix = 16 \<and> (take 2 u = ''0x'' \<or> take 2 u = ''0X'') then drop 2 u else u);
          ds = takeWhile (is_digit_of radix) v
      in if ds = [] then None
         else Some (if negative then - int (digits_value radix ds) else int (digits_value radix ds)))"

text \<open>A bitwise operator reads NaN and a missing part as 0.\<close>

definition to_word :: "int option \<Rightarrow> 32 word" where
  "to_word x = (case x of None \<Rightarrow> 0 | Some i \<Rightarrow> word_of_int i)"

definition nth_part :: "'a list \<Rightarrow> nat \<Rightarrow> 'a option" where
  "nth_part xs i = (if i < length xs then Some (xs ! i) else None)"

subsection \<open>IPv4\<close>

definition ipv4ToInt :: "string \<Rightarrow> 32 word" where
  "ipv4ToInt ip =
     (let parts = map (parse_int 10) (split_on CHR ''.'' ip);
          part = (\<lambda>i. to_word (Option.bind (nth_part parts i) id))
      in push_bit 24 (part 0) OR push_bit 16 (part 1) OR push_bit 8 (part 2) OR part 3)"

record ipv4_range =
  ir_network :: "32 word"
  ir_mask :: "32 word"

text \<open>A shift counts modulo 32.\<close>

definition parseIpv4Range :: "string \<Rightarrow> ipv4_range" where
  "parseIpv4Range cidr =
     (let parts = split_on CHR ''/'' cidr;
          parsedBase = ipv4ToInt (case nth_part parts 0 of None \<Rightarrow> ''0.0.0.0'' | Some b \<Rightarrow> b);
          bits = parse_int 10 (case nth_part parts 1 of None \<Rightarrow> ''32'' | Some b \<Rightarrow> b);
          m = (if bits = Some 0 then 0
               else push_bit (nat ((32 - (case bits of None \<Rightarrow> 0 | Some b \<Rightarrow> b)) mod 32)) (0xFFFFFFFF :: 32 word))
      in \<lparr>ir_network = parsedBase AND m, ir_mask = m\<rparr>)"

definition NON_PUBLIC_IPV4_RANGES :: "ipv4_range list" where
  "NON_PUBLIC_IPV4_RANGES = map parseIpv4Range
     [''0.0.0.0/8'', ''10.0.0.0/8'', ''100.64.0.0/10'', ''127.0.0.0/8'', ''169.254.0.0/16'', ''172.16.0.0/12'',
      ''192.0.0.0/24'', ''192.0.2.0/24'', ''192.88.99.0/24'', ''192.168.0.0/16'', ''198.18.0.0/15'',
      ''198.51.100.0/24'', ''203.0.113.0/24'', ''224.0.0.0/4'', ''240.0.0.0/4'']"

definition isPublicIpv4 :: "string \<Rightarrow> bool" where
  "isPublicIpv4 ip =
     (let value = ipv4ToInt ip in
      \<not> list_ex (\<lambda>r. value AND ir_mask r = ir_network r) NON_PUBLIC_IPV4_RANGES)"

subsection \<open>IPv6\<close>

definition all_digits :: "string \<Rightarrow> bool" where
  "all_digits s \<longleftrightarrow> s \<noteq> [] \<and> list_all (is_digit_of 10) s"

text \<open>The embedded IPv4 address of \<^verbatim>\<open>::ffff:a.b.c.d\<close>.\<close>

definition IPV4_MAPPED_IPV6_REGEX :: "string \<Rightarrow> string option" where
  "IPV4_MAPPED_IPV6_REGEX s =
     (if take 7 s = ''::ffff:'' \<and> length (split_on CHR ''.'' (drop 7 s)) = 4
         \<and> list_all all_digits (split_on CHR ''.'' (drop 7 s))
      then Some (drop 7 s) else None)"

definition isPublicIpv6 :: "string \<Rightarrow> bool" where
  "isPublicIpv6 ip =
     (let normalized = to_lower ip in
      if CHR ''%'' \<in> set normalized then False
      else case IPV4_MAPPED_IPV6_REGEX normalized of
        Some mapped \<Rightarrow> isPublicIpv4 mapped
      | None \<Rightarrow>
          if prefix ''2001:db8'' normalized then False
          else if prefix ''2002:'' normalized then False
          else if prefix ''2001:2:'' normalized then False
          else if prefix ''3fff:'' normalized then False
          else if prefix ''5f00:'' normalized then False
          else
            (let groups = split_on CHR '':'' normalized;
                 first = parse_int 16 (case nth_part groups 0 of None \<Rightarrow> ''0'' | Some g \<Rightarrow> g)
             in if first = Some 0x2001 \<and>
                   (let secondText = (case nth_part groups 1 of None \<Rightarrow> [] | Some g \<Rightarrow> g) in
                    (if secondText = [] then Some 0 else parse_int 16 secondText) = Some 0)
                then False
                else (case first of None \<Rightarrow> False | Some f \<Rightarrow> f \<ge> 0x2000 \<and> f \<le> 0x3fff)))"

text \<open>The runtime's \<^verbatim>\<open>isIP\<close> is a parameter: the family of an address literal.\<close>

definition isPublicAddress :: "(string \<Rightarrow> nat) \<Rightarrow> string \<Rightarrow> bool" where
  "isPublicAddress isIP ip =
     (if isIP ip = 4 then isPublicIpv4 ip else if isIP ip = 6 then isPublicIpv6 ip else False)"

definition IPV6_ZONE_ID_REGEX :: "string \<Rightarrow> bool" where
  "IPV6_ZONE_ID_REGEX s \<longleftrightarrow> take 1 s = ''%''"

definition isPublicIp :: "string \<Rightarrow> bool" where
  "isPublicIp address =
     (let lower = to_lower address;
          ip = (if IPV6_ZONE_ID_REGEX lower then [] else lower)
      in if CHR '':'' \<in> set ip then isPublicIpv6 ip else isPublicIpv4 ip)"

subsection \<open>Reading back a printed number\<close>

lemma show_nat_step: "n \<ge> 10 \<Longrightarrow> show_nat n = show_nat (n div 10) @ [char_of (48 + n mod 10)]"
  by (subst show_nat.simps) simp

lemma show_nat_small: "n < 10 \<Longrightarrow> show_nat n = [char_of (48 + n)]"
  by (subst show_nat.simps) simp

lemma digit_char: "k < 10 \<Longrightarrow> digit_value (char_of (48 + k)) = Some k"
  by (simp add: digit_value_def Let_def)

lemma digit_char_10: "(k :: nat) < 10 \<Longrightarrow> is_digit_of 10 (char_of (48 + k))"
  by (simp add: is_digit_of_def digit_char)

lemma show_nat_digits: "list_all (is_digit_of 10) (show_nat n)"
proof (induction n rule: less_induct)
  case (less n)
  show ?case
  proof (cases "n < 10")
    case True
    then show ?thesis by (simp add: show_nat_small digit_char_10)
  next
    case False
    then have "list_all (is_digit_of 10) (show_nat (n div 10))" by (intro less.IH) simp
    with False show ?thesis using digit_char_10[of "n mod 10"] by (simp add: show_nat_step)
  qed
qed

lemma digits_show_nat: "digits_value 10 (show_nat n) = n"
proof (induction n rule: less_induct)
  case (less n)
  show ?case
  proof (cases "n < 10")
    case True
    then show ?thesis by (simp add: show_nat_small digits_value_def digit_char)
  next
    case False
    then have "digits_value 10 (show_nat (n div 10)) = n div 10" by (intro less.IH) simp
    with False show ?thesis using digit_char[of "n mod 10"] by (simp add: show_nat_step digits_value_def)
  qed
qed

lemma digit_not_special:
  assumes "is_digit_of 10 c"
  shows "\<not> is_space c \<and> c \<noteq> CHR ''-'' \<and> c \<noteq> CHR ''+'' \<and> c \<noteq> CHR ''.'' \<and> c \<noteq> CHR '':'' \<and> c \<noteq> CHR ''/''"
  using assms by (auto simp: is_digit_of_def digit_value_def is_space_def Let_def split: if_splits)

lemma parse_digits:
  assumes "list_all (is_digit_of 10) ds" and "ds \<noteq> []"
  shows "parse_int 10 ds = Some (int (digits_value 10 ds))"
proof -
  obtain c cs where ds: "ds = c # cs" using assms(2) by (cases ds) auto
  then have c: "\<not> is_space c" "c \<noteq> CHR ''-''" "c \<noteq> CHR ''+''" using assms(1) digit_not_special by auto
  have "takeWhile (is_digit_of 10) ds = ds" using assms(1) by (simp add: takeWhile_eq_all_conv list_all_iff)
  with ds c show ?thesis by (simp add: parse_int_def Let_def)
qed

lemma parse_show_nat: "parse_int 10 (show_nat n) = Some (int n)"
  using parse_digits[OF show_nat_digits] by (simp add: digits_show_nat)

lemma split_on_no: "c \<notin> set w \<Longrightarrow> split_on c w = [w]"
  by (induction w) auto

lemma split_on_append: "c \<notin> set w \<Longrightarrow> split_on c (w @ c # rest) = w # split_on c rest"
  by (induction w) auto

lemma show_nat_no: "CHR ''.'' \<notin> set (show_nat n)" "CHR '':'' \<notin> set (show_nat n)"
  using show_nat_digits[of n] digit_not_special unfolding list_all_iff by blast+

subsection \<open>The octets of an address\<close>

type_synonym octet = "8 word"

definition show_ipv4 :: "octet \<Rightarrow> octet \<Rightarrow> octet \<Rightarrow> octet \<Rightarrow> string" where
  "show_ipv4 a b c d =
     show_nat (unat a) @ ''.'' @ show_nat (unat b) @ ''.'' @ show_nat (unat c) @ ''.'' @ show_nat (unat d)"

definition octets_value :: "octet \<Rightarrow> octet \<Rightarrow> octet \<Rightarrow> octet \<Rightarrow> nat" where
  "octets_value a b c d = unat a * 2 ^ 24 + unat b * 2 ^ 16 + unat c * 2 ^ 8 + unat d"

lemma octet_less [simp]: "unat (x :: octet) < 256"
proof -
  have "unat x < 2 ^ LENGTH(8)" by (rule unsigned_less)
  then show ?thesis by simp
qed

lemma octet_le: "unat (x :: octet) \<le> 255"
  using octet_less[of x] by linarith

lemma octets_value_less: "octets_value a b c d < 2 ^ 32"
  using octet_le[of a] octet_le[of b] octet_le[of c] octet_le[of d] unfolding octets_value_def by simp

lemma split_show_ipv4:
  "split_on CHR ''.'' (show_ipv4 a b c d) = [show_nat (unat a), show_nat (unat b), show_nat (unat c), show_nat (unat d)]"
  by (simp add: show_ipv4_def split_on_append split_on_no show_nat_no)

lemma or_push_int:
  fixes x y :: int
  assumes "0 \<le> y" and "y < 2 ^ n"
  shows "push_bit n x OR y = x * 2 ^ n + y"
proof -
  have y: "take_bit n y = y" using assms by (simp add: take_bit_int_eq_self)
  have "push_bit n x OR y = concat_bit n y x" by (simp add: concat_bit_def y or.commute)
  also have "\<dots> = x * 2 ^ n + y" by (simp add: concat_bit_eq y push_bit_eq_mult)
  finally show ?thesis .
qed

lemma uint_or_push:
  fixes x y :: "32 word"
  assumes "uint y < 2 ^ n" and "uint x * 2 ^ n < 2 ^ 32"
  shows "uint (push_bit n x OR y) = uint x * 2 ^ n + uint y"
proof -
  have "uint (push_bit n x) = take_bit 32 (push_bit n (uint x))" by (simp add: unsigned_push_bit_eq)
  also have "\<dots> = push_bit n (uint x)"
    using assms(2) by (intro take_bit_int_eq_self) (simp_all add: push_bit_eq_mult)
  finally have "uint (push_bit n x OR y) = push_bit n (uint x) OR uint y" by (simp add: unsigned_or_eq)
  also have "\<dots> = uint x * 2 ^ n + uint y" using assms(1) by (intro or_push_int) simp_all
  finally show ?thesis .
qed

lemma to_word_octet: "uint (to_word (Some (uint (x :: octet)))) = uint x"
proof -
  have "uint x < 256" using uint_bounded[of x] by simp
  then show ?thesis by (simp add: to_word_def unsigned_ucast_eq take_bit_int_eq_self)
qed

text \<open>Reading the four octets gives the value of the address: nothing is lost in the shifts.\<close>

lemma ipv4_roundtrip: "unat (ipv4ToInt (show_ipv4 a b c d)) = octets_value a b c d"
proof -
  define w where "w = (\<lambda>x :: octet. to_word (Some (uint x)))"
  have w: "uint (w x) = uint x" for x by (simp add: w_def to_word_octet)
  have lt: "uint (x :: octet) \<le> 255" "0 \<le> uint x" for x using uint_bounded[of x] by simp_all
  have "ipv4ToInt (show_ipv4 a b c d) = push_bit 24 (w a) OR (push_bit 16 (w b) OR (push_bit 8 (w c) OR w d))"
    by (simp add: ipv4ToInt_def split_show_ipv4 parse_show_nat nth_part_def w_def or.assoc numeral_2_eq_2 numeral_3_eq_3)
  moreover have cd: "uint (push_bit 8 (w c) OR w d) = uint c * 2 ^ 8 + uint d"
    using lt[of c] lt[of d] by (subst uint_or_push) (simp_all add: w)
  moreover have bcd: "uint (push_bit 16 (w b) OR (push_bit 8 (w c) OR w d)) = uint b * 2 ^ 16 + (uint c * 2 ^ 8 + uint d)"
    using lt[of b] lt[of c] lt[of d] cd by (subst uint_or_push) (simp_all add: w)
  moreover have "uint (push_bit 24 (w a) OR (push_bit 16 (w b) OR (push_bit 8 (w c) OR w d)))
      = uint a * 2 ^ 24 + (uint b * 2 ^ 16 + (uint c * 2 ^ 8 + uint d))"
    using lt[of a] lt[of b] lt[of c] lt[of d] bcd by (subst uint_or_push) (simp_all add: w)
  ultimately have "uint (ipv4ToInt (show_ipv4 a b c d)) = int (octets_value a b c d)"
    by (simp add: octets_value_def)
  then have "int (unat (ipv4ToInt (show_ipv4 a b c d))) = int (octets_value a b c d)" by simp
  then show ?thesis by (simp only: of_nat_eq_iff)
qed

subsection \<open>The ranges\<close>

text \<open>A range by its first address and the number of its free bits.\<close>

definition range_of :: "nat \<Rightarrow> nat \<Rightarrow> ipv4_range" where
  "range_of base free = \<lparr>ir_network = of_nat base AND push_bit free (- 1), ir_mask = push_bit free (- 1)\<rparr>"

lemma in_range_of:
  assumes "base < 2 ^ 32"
  shows "v AND ir_mask (range_of base k) = ir_network (range_of base k) \<longleftrightarrow> unat v div 2 ^ k = base div 2 ^ k"
proof -
  have masked: "x AND NOT (mask k) = push_bit k (drop_bit k x)" for x :: "32 word"
    by (rule bit_eqI) (auto simp: bit_simps)
  have "push_bit k (drop_bit k v) = push_bit k (drop_bit k w) \<longleftrightarrow> drop_bit k v = drop_bit k w" for w :: "32 word"
  proof
    assume eq: "push_bit k (drop_bit k v) = push_bit k (drop_bit k w)"
    have "drop_bit k (push_bit k (drop_bit k x)) = drop_bit k x" for x :: "32 word"
      by (rule bit_eqI) (auto simp: bit_simps dest: bit_imp_le_length)
    with eq show "drop_bit k v = drop_bit k w" by metis
  qed simp
  moreover have "drop_bit k v = drop_bit k w \<longleftrightarrow> unat v div 2 ^ k = unat w div 2 ^ k" for w :: "32 word"
  proof -
    have small: "take_bit 32 (unat x) = unat x" for x :: "32 word"
    proof (rule take_bit_nat_eq_self)
      have "unat x < 2 ^ LENGTH(32)" by (rule unsigned_less)
      then show "unat x < 2 ^ 32" by simp
    qed
    have "unat (drop_bit k x) = unat x div 2 ^ k" for x :: "32 word"
      by (simp add: unsigned_drop_bit_eq small flip: drop_bit_eq_div)
    then show ?thesis by (metis unsigned_word_eqI word_unat_eq_iff)
  qed
  moreover have "unat (of_nat base :: 32 word) = base" using assms by (simp add: unat_of_nat)
  ultimately show ?thesis by (simp add: range_of_def masked)
qed

lemma show_ipv4_no_slash: "CHR ''/'' \<notin> set (show_ipv4 a b c d)"
proof -
  have "CHR ''/'' \<notin> set (show_nat n)" for n
    using show_nat_digits[of n] digit_not_special unfolding list_all_iff by blast
  then show ?thesis by (simp add: show_ipv4_def)
qed

lemma parse_range:
  assumes "0 < bits" and "bits \<le> 32"
  shows "parseIpv4Range (show_ipv4 a b c d @ ''/'' @ show_nat bits) = range_of (octets_value a b c d) (32 - bits)"
proof -
  have "CHR ''/'' \<notin> set (show_nat bits)"
    using show_nat_digits[of bits] digit_not_special unfolding list_all_iff by blast
  then have split: "split_on CHR ''/'' (show_ipv4 a b c d @ CHR ''/'' # show_nat bits) = [show_ipv4 a b c d, show_nat bits]"
    by (simp add: split_on_append split_on_no show_ipv4_no_slash)
  have base: "ipv4ToInt (show_ipv4 a b c d) = of_nat (octets_value a b c d)"
  proof (rule unsigned_word_eqI)
    show "unat (ipv4ToInt (show_ipv4 a b c d)) = unat (of_nat (octets_value a b c d) :: 32 word)"
      using octets_value_less[of a b c d] by (simp add: ipv4_roundtrip unat_of_nat)
  qed
  have shift: "nat (- int bits mod 32) = 32 - bits"
  proof (cases "bits = 32")
    case False
    with assms have "int bits mod 32 = int bits" by (intro mod_pos_pos_trivial) simp_all
    with assms(1) have "- int bits mod 32 = 32 - int bits" by (simp add: zmod_zminus1_eq_if)
    then show ?thesis by simp
  qed simp
  have all: "(0xFFFFFFFF :: 32 word) = - 1" by simp
  show ?thesis
    using assms by (simp add: parseIpv4Range_def Let_def split nth_part_def parse_show_nat base shift range_of_def all del: split_on.simps)
qed

lemma digit_chars:
  "char_of (48 :: nat) = CHR ''0''" "char_of (49 :: nat) = CHR ''1''" "char_of (50 :: nat) = CHR ''2''"
  "char_of (51 :: nat) = CHR ''3''" "char_of (52 :: nat) = CHR ''4''" "char_of (53 :: nat) = CHR ''5''"
  "char_of (54 :: nat) = CHR ''6''" "char_of (55 :: nat) = CHR ''7''" "char_of (56 :: nat) = CHR ''8''"
  "char_of (57 :: nat) = CHR ''9''"
  by code_simp+

lemma NON_PUBLIC_IPV4_RANGES_eq:
  "NON_PUBLIC_IPV4_RANGES =
     [range_of (octets_value 0 0 0 0) 24, range_of (octets_value 10 0 0 0) 24, range_of (octets_value 100 64 0 0) 22,
      range_of (octets_value 127 0 0 0) 24, range_of (octets_value 169 254 0 0) 16, range_of (octets_value 172 16 0 0) 20,
      range_of (octets_value 192 0 0 0) 8, range_of (octets_value 192 0 2 0) 8, range_of (octets_value 192 88 99 0) 8,
      range_of (octets_value 192 168 0 0) 16, range_of (octets_value 198 18 0 0) 17, range_of (octets_value 198 51 100 0) 8,
      range_of (octets_value 203 0 113 0) 8, range_of (octets_value 224 0 0 0) 28, range_of (octets_value 240 0 0 0) 28]"
proof -
  note p = parse_range[unfolded show_ipv4_def]
  show ?thesis
    unfolding NON_PUBLIC_IPV4_RANGES_def list.map
    using p[of 8 0 0 0 0] p[of 8 10 0 0 0] p[of 10 100 64 0 0] p[of 8 127 0 0 0] p[of 16 169 254 0 0] p[of 12 172 16 0 0]
      p[of 24 192 0 0 0] p[of 24 192 0 2 0] p[of 24 192 88 99 0] p[of 16 192 168 0 0] p[of 15 198 18 0 0]
      p[of 24 198 51 100 0] p[of 24 203 0 113 0] p[of 4 224 0 0 0] p[of 4 240 0 0 0]
    by (simp add: show_nat.simps digit_chars)
qed

text \<open>The prefixes of an address, by their length.\<close>

lemma prefix_octets:
  "octets_value a b c d div 2 ^ 28 = unat a div 16"
  "octets_value a b c d div 2 ^ 24 = unat a"
  "octets_value a b c d div 2 ^ 22 = unat a * 4 + unat b div 64"
  "octets_value a b c d div 2 ^ 20 = unat a * 16 + unat b div 16"
  "octets_value a b c d div 2 ^ 17 = unat a * 128 + unat b div 2"
  "octets_value a b c d div 2 ^ 16 = unat a * 256 + unat b"
  "octets_value a b c d div 2 ^ 8 = (unat a * 256 + unat b) * 256 + unat c"
proof -
  note le = octet_le[of a] octet_le[of b] octet_le[of c] octet_le[of d]
  show v8: "octets_value a b c d div 2 ^ 8 = (unat a * 256 + unat b) * 256 + unat c"
    using le unfolding octets_value_def by simp
  show v16: "octets_value a b c d div 2 ^ 16 = unat a * 256 + unat b"
    using le unfolding octets_value_def by simp
  show "octets_value a b c d div 2 ^ 17 = unat a * 128 + unat b div 2"
    using le unfolding octets_value_def by simp
  show "octets_value a b c d div 2 ^ 20 = unat a * 16 + unat b div 16"
    using le unfolding octets_value_def by simp
  show "octets_value a b c d div 2 ^ 22 = unat a * 4 + unat b div 64"
    using le unfolding octets_value_def by simp
  show "octets_value a b c d div 2 ^ 24 = unat a"
    using le unfolding octets_value_def by simp
  show "octets_value a b c d div 2 ^ 28 = unat a div 16"
    using le unfolding octets_value_def by simp
qed

lemma digits_eq: "y < m \<Longrightarrow> x * m + y = k \<longleftrightarrow> x = k div m \<and> y = (k :: nat) mod m"
  by (auto simp: mult.commute)

lemma public_ipv4_prefixes:
  "isPublicIpv4 (show_ipv4 a b c d) \<longleftrightarrow>
     \<not> (unat a \<in> {0, 10, 127} \<or> unat a * 4 + unat b div 64 = 401 \<or> unat a * 256 + unat b = 43518
        \<or> unat a * 16 + unat b div 16 = 2753
        \<or> (unat a * 256 + unat b) * 256 + unat c \<in> {12582912, 12582914, 12605539, 12989284, 13303921}
        \<or> unat a * 256 + unat b = 49320 \<or> unat a * 128 + unat b div 2 = 25353 \<or> unat a div 16 \<in> {14, 15})"
  unfolding isPublicIpv4_def Let_def NON_PUBLIC_IPV4_RANGES_eq list_ex_iff
    list.set ball_simps bex_simps in_range_of[OF octets_value_less] ipv4_roundtrip prefix_octets
  by auto

text \<open>
  C21. An IPv4 address is classified as public exactly when it lies outside the private,
  loopback, link-local, shared, documentation, benchmark, relay, multicast and reserved blocks: the
  shifts and masks on 32-bit words lose nothing, also in the upper half of the address space.
\<close>

theorem public_ipv4_iff:
  "isPublicIpv4 (show_ipv4 a b c d) =
     (unat a \<notin> {0, 10, 127} \<and> unat a < 224
      \<and> \<not> (unat a = 100 \<and> 64 \<le> unat b \<and> unat b < 128)
      \<and> \<not> (unat a = 169 \<and> unat b = 254)
      \<and> \<not> (unat a = 172 \<and> 16 \<le> unat b \<and> unat b < 32)
      \<and> \<not> (unat a = 192 \<and> (unat b = 168 \<or> unat b = 0 \<and> unat c \<in> {0, 2} \<or> unat b = 88 \<and> unat c = 99))
      \<and> \<not> (unat a = 198 \<and> (unat b \<in> {18, 19} \<or> unat b = 51 \<and> unat c = 100))
      \<and> \<not> (unat a = 203 \<and> unat b = 0 \<and> unat c = 113))"
proof -
  note le = octet_le[of a] octet_le[of b] octet_le[of c]
  have b: "unat b div 64 < 4" "unat b div 16 < 16" "unat b div 2 < 128" "unat b < 256" "unat c < 256"
    using le by simp_all
  have p10: "unat a * 4 + unat b div 64 = 401 \<longleftrightarrow> unat a = 100 \<and> unat b div 64 = 1"
    by (simp add: digits_eq[OF b(1)])
  have p12: "unat a * 16 + unat b div 16 = 2753 \<longleftrightarrow> unat a = 172 \<and> unat b div 16 = 1"
    by (simp add: digits_eq[OF b(2)])
  have p15: "unat a * 128 + unat b div 2 = 25353 \<longleftrightarrow> unat a = 198 \<and> unat b div 2 = 9"
    by (simp add: digits_eq[OF b(3)])
  have p16: "unat a * 256 + unat b = 43518 \<longleftrightarrow> unat a = 169 \<and> unat b = 254"
    "unat a * 256 + unat b = 49320 \<longleftrightarrow> unat a = 192 \<and> unat b = 168"
    by (simp_all add: digits_eq[OF b(4)])
  have p24: "(unat a * 256 + unat b) * 256 + unat c = 12582912 \<longleftrightarrow> unat a = 192 \<and> unat b = 0 \<and> unat c = 0"
    "(unat a * 256 + unat b) * 256 + unat c = 12582914 \<longleftrightarrow> unat a = 192 \<and> unat b = 0 \<and> unat c = 2"
    "(unat a * 256 + unat b) * 256 + unat c = 12605539 \<longleftrightarrow> unat a = 192 \<and> unat b = 88 \<and> unat c = 99"
    "(unat a * 256 + unat b) * 256 + unat c = 12989284 \<longleftrightarrow> unat a = 198 \<and> unat b = 51 \<and> unat c = 100"
    "(unat a * 256 + unat b) * 256 + unat c = 13303921 \<longleftrightarrow> unat a = 203 \<and> unat b = 0 \<and> unat c = 113"
    by (simp_all only: digits_eq[OF b(5)] digits_eq[OF b(4)]) simp_all
  have d: "unat b div 64 = 1 \<longleftrightarrow> 64 \<le> unat b \<and> unat b < 128" "unat b div 16 = 1 \<longleftrightarrow> 16 \<le> unat b \<and> unat b < 32"
    "unat b div 2 = 9 \<longleftrightarrow> unat b \<in> {18, 19}"
    "unat a div 16 \<noteq> 14 \<and> unat a div 16 \<noteq> 15 \<longleftrightarrow> \<not> 224 \<le> unat a"
    using le by auto
  show ?thesis
    unfolding public_ipv4_prefixes p10 p12 p15 p16 insert_iff empty_iff p24 not_le[symmetric] de_Morgan_disj simp_thms d
    by argo
qed

end
