(* ===== verification/Url_Guard.thy ===== *)
theory Url_Guard
  imports Ip_Address Memory_Cache
begin

section \<open>Guarded downloads\<close>

text \<open>
  \<^verbatim>\<open>guardedFetch\<close> of \<^verbatim>\<open>utils/url-guard.utils.ts\<close>: every hop of a download is resolved,
  vetted and pinned to a public address. What the runtime does is a parameter: the URL parser,
  the name lookups (each with its number, so that answers may change between hops), the clock
  and the responses. A raw error of the runtime is an internal error with its name.
\<close>

record url =
  u_protocol :: string
  u_username :: string
  u_password :: string
  u_hostname :: string
  u_host :: string
  u_port :: string
  u_pathname :: string
  u_search :: string
  u_origin :: string

type_synonym headers = "(string, string) jsmap"

type_synonym dns_cache = "(string, string list) memory_cache"

record guard_options =
  go_allowedProtocols :: "string list option"
  go_maxRedirects :: "nat option"
  go_assertHostAllowed :: "(string \<Rightarrow> domain_error option) option"

record request_init =
  ri_method :: "string option"
  ri_headers :: "headers option"
  ri_body :: "string option"

record request =
  rq_url :: string
  rq_target :: url
  rq_address :: string
  rq_method :: string
  rq_headers :: headers
  rq_body :: "string option"
  rq_serverName :: string

record response =
  rs_status :: nat
  rs_location :: "string option"

record internet =
  net_parse :: "string \<Rightarrow> url option"
  net_resolve :: "string \<Rightarrow> url \<Rightarrow> string option"
  net_lookup :: "nat \<Rightarrow> string \<Rightarrow> string list option"
  net_clock :: "nat \<Rightarrow> int"
  net_fetch :: "nat \<Rightarrow> request \<Rightarrow> response"

definition BRACKET_WRAP :: "string \<Rightarrow> string" where
  "BRACKET_WRAP s =
     (let t = (if take 1 s = ''['' then drop 1 s else s) in
      if t \<noteq> [] \<and> last t = CHR '']'' then butlast t else t)"

definition normalizeHostname :: "string \<Rightarrow> string" where
  "normalizeHostname hostname = BRACKET_WRAP (to_lower hostname)"

definition DEFAULT_ALLOWED_PROTOCOLS :: "string list" where
  "DEFAULT_ALLOWED_PROTOCOLS = [''https:'']"

definition DEFAULT_MAX_REDIRECTS :: nat where
  "DEFAULT_MAX_REDIRECTS = 4"

definition redirect_limit :: "guard_options \<Rightarrow> nat" where
  "redirect_limit opts = (case go_maxRedirects opts of None \<Rightarrow> DEFAULT_MAX_REDIRECTS | Some m \<Rightarrow> m)"

definition REDIRECT_STATUS :: "nat list" where
  "REDIRECT_STATUS = [301, 302, 303, 307, 308]"

definition resolveHostAddresses ::
  "internet \<Rightarrow> nat \<Rightarrow> string \<Rightarrow> dns_cache option \<Rightarrow> string list option \<times> dns_cache option" where
  "resolveHostAddresses net k hostname dnsCache =
     (case dnsCache of
        None \<Rightarrow> (net_lookup net k hostname, None)
      | Some c \<Rightarrow>
          (case cache_get (net_clock net k) hostname c of
             (Some cached, c1) \<Rightarrow> (Some cached, Some c1)
           | (None, c1) \<Rightarrow>
               (case net_lookup net k hostname of
                  None \<Rightarrow> (None, Some c1)
                | Some addresses \<Rightarrow> (Some addresses, Some (cache_set (net_clock net k) hostname addresses c1)))))"

definition allowed_protocols :: "guard_options \<Rightarrow> string list" where
  "allowed_protocols opts = (case go_allowedProtocols opts of None \<Rightarrow> DEFAULT_ALLOWED_PROTOCOLS | Some ps \<Rightarrow> ps)"

definition host_refused :: "guard_options \<Rightarrow> string \<Rightarrow> domain_error option" where
  "host_refused opts host = (case go_assertHostAllowed opts of None \<Rightarrow> None | Some f \<Rightarrow> f host)"

definition resolvePublicTarget ::
  "internet \<Rightarrow> nat \<Rightarrow> guard_options \<Rightarrow> string \<Rightarrow> dns_cache option \<Rightarrow> (url \<times> string) result \<times> dns_cache option" where
  "resolvePublicTarget net k opts rawUrl dnsCache =
     (case net_parse net rawUrl of
        None \<Rightarrow> (Throw (DomainError Validation ''download.invalid_url''), dnsCache)
      | Some parsed \<Rightarrow>
          if u_protocol parsed \<notin> set (allowed_protocols opts)
          then (Throw (DomainError Validation ''download.unsupported_protocol''), dnsCache)
          else if u_username parsed \<noteq> [] \<or> u_password parsed \<noteq> []
          then (Throw (DomainError Validation ''download.invalid_url''), dnsCache)
          else (let host = normalizeHostname (u_hostname parsed) in
            case host_refused opts host of
              Some e \<Rightarrow> (Throw e, dnsCache)
            | None \<Rightarrow>
                (case resolveHostAddresses net k host dnsCache of
                   (None, c) \<Rightarrow> (Throw (DomainError Validation ''download.host_unresolved''), c)
                 | (Some addresses, c) \<Rightarrow>
                     if addresses = [] \<or> list_ex (\<lambda>a. \<not> isPublicIp a) addresses
                     then (Throw (DomainError Validation ''download.host_blocked''), c)
                     else (case find (\<lambda>a. CHR '':'' \<notin> set a) addresses of
                             Some a \<Rightarrow> (Return (parsed, a), c)
                           | None \<Rightarrow> (Return (parsed, hd addresses), c)))))"

definition pinUrlToAddress :: "url \<Rightarrow> string \<Rightarrow> string" where
  "pinUrlToAddress u address =
     (let host = (if CHR '':'' \<in> set address then ''['' @ address @ '']'' else address);
          port = (if u_port u \<noteq> [] then '':'' @ u_port u else [])
      in u_protocol u @ ''//'' @ host @ port @ u_pathname u @ u_search u)"

definition CROSS_ORIGIN_STRIPPED_HEADERS :: "string list" where
  "CROSS_ORIGIN_STRIPPED_HEADERS =
     [''authorization'', ''cookie'', ''proxy-authorization'', ''x-api-key'', ''x-auth-token'', ''x-goog-api-key'']"

text \<open>\<^verbatim>\<open>new Headers\<close>: names are folded, the values of one name are joined.\<close>

definition new_headers :: "headers \<Rightarrow> headers" where
  "new_headers h =
     fold (\<lambda>(k, v) m. AList.update (to_lower k) (case map_of m (to_lower k) of None \<Rightarrow> v | Some w \<Rightarrow> w @ '', '' @ v) m) h []"

definition headersForHop :: "headers option \<Rightarrow> bool \<Rightarrow> headers option" where
  "headersForHop headers sameOrigin =
     (case headers of
        None \<Rightarrow> None
      | Some h \<Rightarrow>
          (let merged = new_headers h in
           Some (if sameOrigin then merged else fold AList.delete CROSS_ORIGIN_STRIPPED_HEADERS merged)))"

definition request_for :: "url \<Rightarrow> url \<times> string \<Rightarrow> request_init \<Rightarrow> request" where
  "request_for initial current init =
     (let sameOrigin = (u_origin (fst current) = u_origin initial);
          headers = (case headersForHop (ri_headers init) sameOrigin of None \<Rightarrow> [] | Some h \<Rightarrow> h)
      in \<lparr>rq_url = pinUrlToAddress (fst current) (snd current), rq_target = fst current, rq_address = snd current,
          rq_method = (case ri_method init of None \<Rightarrow> ''GET'' | Some m \<Rightarrow> m),
          rq_headers = AList.update ''host'' (u_host (fst current)) headers,
          rq_body = ri_body init, rq_serverName = u_hostname (fst current)\<rparr>)"

definition redirect_init :: "nat \<Rightarrow> request_init \<Rightarrow> request_init" where
  "redirect_init status init =
     (let method = to_upper (case ri_method init of None \<Rightarrow> ''GET'' | Some m \<Rightarrow> m) in
      if status = 303 \<or> ((status = 301 \<or> status = 302) \<and> method \<noteq> ''GET'' \<and> method \<noteq> ''HEAD'')
      then init\<lparr>ri_method := Some ''GET'', ri_body := None\<rparr> else init)"

text \<open>The loop has no bound of its own. It returns the outcome and the requests that were sent.\<close>

partial_function (option) fetch_loop ::
  "internet \<Rightarrow> guard_options \<Rightarrow> url \<Rightarrow> nat \<Rightarrow> url \<times> string \<Rightarrow> request_init \<Rightarrow> dns_cache option \<Rightarrow> request list
     \<Rightarrow> (response result \<times> request list) option" where
  "fetch_loop net opts initial hop current init dns sent =
     (let rq = request_for initial current init;
          rs = net_fetch net hop rq;
          sent1 = sent @ [rq]
      in if rs_status rs \<notin> set REDIRECT_STATUS then Some (Return rs, sent1)
         else (case rs_location rs of
            None \<Rightarrow> Some (Return rs, sent1)
          | Some location \<Rightarrow>
              if location = [] then Some (Return rs, sent1)
              else if hop \<ge> redirect_limit opts
              then Some (Throw (DomainError Validation ''download.too_many_redirects''), sent1)
              else (case net_resolve net location (fst current) of
                 None \<Rightarrow> Some (Throw (DomainError Internal ''TypeError''), sent1)
               | Some href \<Rightarrow>
                   (case resolvePublicTarget net (hop + 1) opts href dns of
                      (Inl e, dns1) \<Rightarrow> Some (Throw e, sent1)
                    | (Inr next_target, dns1) \<Rightarrow>
                        fetch_loop net opts initial (hop + 1) next_target (redirect_init (rs_status rs) init) dns1 sent1))))"

definition guardedFetch ::
  "internet \<Rightarrow> guard_options \<Rightarrow> string \<Rightarrow> request_init \<Rightarrow> dns_cache option \<Rightarrow> (response result \<times> request list) option" where
  "guardedFetch net opts rawUrl init dnsCache =
     (case resolvePublicTarget net 0 opts rawUrl dnsCache of
        (Inl e, dns) \<Rightarrow> Some (Throw e, [])
      | (Inr target, dns) \<Rightarrow> fetch_loop net opts (fst target) 0 target init dns [])"

subsection \<open>What is sent where\<close>

text \<open>A target that passed the guard.\<close>

definition vetted :: "guard_options \<Rightarrow> url \<times> string \<Rightarrow> bool" where
  "vetted opts t \<longleftrightarrow>
     isPublicIp (snd t) \<and> u_protocol (fst t) \<in> set (allowed_protocols opts)
     \<and> u_username (fst t) = [] \<and> u_password (fst t) = []
     \<and> host_refused opts (normalizeHostname (u_hostname (fst t))) = None"

definition carries_no_credentials :: "request \<Rightarrow> bool" where
  "carries_no_credentials rq \<longleftrightarrow> list_all (\<lambda>h. map_of (rq_headers rq) h = None) CROSS_ORIGIN_STRIPPED_HEADERS"

definition request_ok :: "guard_options \<Rightarrow> url \<Rightarrow> request \<Rightarrow> bool" where
  "request_ok opts initial rq \<longleftrightarrow>
     vetted opts (rq_target rq, rq_address rq) \<and> rq_url rq = pinUrlToAddress (rq_target rq) (rq_address rq)
     \<and> (u_origin (rq_target rq) = u_origin initial \<or> carries_no_credentials rq)"

lemma resolvePublicTarget_vetted:
  assumes "resolvePublicTarget net k opts rawUrl dns = (Inr t, c)"
  shows "vetted opts t \<and> net_parse net rawUrl = Some (fst t)"
proof -
  obtain parsed where parsed: "net_parse net rawUrl = Some parsed"
    using assms by (cases "net_parse net rawUrl") (simp_all add: resolvePublicTarget_def)
  obtain found c' where r: "resolveHostAddresses net k (normalizeHostname (u_hostname parsed)) dns = (found, c')"
    by fastforce
  obtain addresses where a: "found = Some addresses" "addresses \<noteq> []" "\<not> list_ex (\<lambda>a. \<not> isPublicIp a) addresses"
    using assms parsed r by (auto simp: resolvePublicTarget_def Let_def split: if_splits option.splits)
  have "isPublicIp x" if "x \<in> set addresses" for x using a(3) that by (auto simp: list_ex_iff)
  then show ?thesis
    using assms parsed r a unfolding vetted_def
    by (auto simp: resolvePublicTarget_def Let_def find_Some_iff split: if_splits option.splits)
qed

lemma headersForHop_strips:
  "h \<in> set CROSS_ORIGIN_STRIPPED_HEADERS \<Longrightarrow> headersForHop headers False = Some hs \<Longrightarrow> map_of hs h = None"
proof -
  have keep: "map_of (fold AList.delete names m) h = (if h \<in> set names then None else map_of m h)" for names and m :: headers
    by (induction names arbitrary: m) (auto simp: map_of_delete_eq)
  show "h \<in> set CROSS_ORIGIN_STRIPPED_HEADERS \<Longrightarrow> headersForHop headers False = Some hs \<Longrightarrow> map_of hs h = None"
    by (auto simp: headersForHop_def Let_def keep split: option.splits)
qed

lemma request_for_ok:
  assumes "vetted opts t"
  shows "request_ok opts initial (request_for initial t init)"
proof -
  have "map_of (rq_headers (request_for initial t init)) h = None"
    if "h \<in> set CROSS_ORIGIN_STRIPPED_HEADERS" "u_origin (fst t) \<noteq> u_origin initial" for h
  proof -
    have "h \<noteq> ''host''" using that(1) by (auto simp: CROSS_ORIGIN_STRIPPED_HEADERS_def)
    with that headersForHop_strips[OF that(1), of "ri_headers init"] show ?thesis
      by (auto simp: request_for_def Let_def map_of_update split: option.splits)
  qed
  with assms show ?thesis
    by (auto simp: request_ok_def carries_no_credentials_def list_all_iff) (simp_all add: request_for_def Let_def)
qed

lemma fetch_loop_returns:
  assumes "vetted opts t" and "list_all (request_ok opts initial) sent" and "length sent = hop"
    and "hop \<le> limit" and "limit = redirect_limit opts"
  shows "\<exists>res reqs. fetch_loop net opts initial hop t init dns sent = Some (res, reqs)
    \<and> list_all (request_ok opts initial) reqs \<and> length reqs \<le> limit + 1
    \<and> prefix (sent @ [request_for initial t init]) reqs"
  using assms
proof (induction "limit - hop" arbitrary: hop t init dns sent)
  case 0
  let ?rq = "request_for initial t init"
  have ok: "list_all (request_ok opts initial) (sent @ [?rq])" using 0 request_for_ok by simp
  have "\<exists>res. fetch_loop net opts initial hop t init dns sent = Some (res, sent @ [?rq])"
    using 0 by (subst fetch_loop.simps) (simp add: Let_def split: option.splits)
  with ok 0 show ?case by auto
next
  case (Suc n)
  let ?rq = "request_for initial t init" and ?rs = "net_fetch net hop (request_for initial t init)"
  have ok: "list_all (request_ok opts initial) (sent @ [?rq])" using Suc.prems request_for_ok by simp
  have hop_less: "\<not> redirect_limit opts \<le> hop" using Suc.hyps(2) Suc.prems(5) by simp
  show ?case
  proof (cases "\<exists>location href t2 dns2. rs_status ?rs \<in> set REDIRECT_STATUS \<and> rs_location ?rs = Some location \<and> location \<noteq> []
      \<and> net_resolve net location (fst t) = Some href \<and> resolvePublicTarget net (hop + 1) opts href dns = (Inr t2, dns2)")
    case True
    then obtain location href t2 dns2 where step: "rs_status ?rs \<in> set REDIRECT_STATUS" "rs_location ?rs = Some location"
        "location \<noteq> []" "net_resolve net location (fst t) = Some href"
        "resolvePublicTarget net (hop + 1) opts href dns = (Inr t2, dns2)" by blast
    have "fetch_loop net opts initial hop t init dns sent =
        fetch_loop net opts initial (hop + 1) t2 (redirect_init (rs_status ?rs) init) dns2 (sent @ [?rq])"
      using step hop_less by (subst fetch_loop.simps) (simp add: Let_def)
    moreover have "\<exists>res reqs. fetch_loop net opts initial (hop + 1) t2 (redirect_init (rs_status ?rs) init) dns2 (sent @ [?rq])
        = Some (res, reqs) \<and> list_all (request_ok opts initial) reqs \<and> length reqs \<le> limit + 1
        \<and> prefix ((sent @ [?rq]) @ [request_for initial t2 (redirect_init (rs_status ?rs) init)]) reqs"
      using Suc.hyps(2) Suc.prems ok resolvePublicTarget_vetted[OF step(5)] by (intro Suc.hyps(1)) auto
    moreover have "prefix (sent @ [?rq]) reqs"
      if "prefix ((sent @ [?rq]) @ [request_for initial t2 (redirect_init (rs_status ?rs) init)]) reqs" for reqs
      using that by (rule append_prefixD)
    ultimately show ?thesis by metis
  next
    case False
    have "\<exists>res. fetch_loop net opts initial hop t init dns sent = Some (res, sent @ [?rq])"
      using False by (subst fetch_loop.simps) (auto simp: Let_def split: option.splits prod.splits sum.splits)
    with ok Suc.prems show ?thesis by auto
  qed
qed

text \<open>
  C22. A guarded download ends after at most one request more than its redirect limit, whatever
  the servers answer, and every request it sends is pinned to an address that is public, for a
  URL with an allowed scheme, without credentials and with an allowed host; a request to another
  origin than the first carries no credential header. Name lookups may change between the hops.
\<close>

theorem guarded_fetch_is_safe:
  "\<exists>outcome sent. guardedFetch net opts rawUrl init dnsCache = Some (outcome, sent)
     \<and> length sent \<le> redirect_limit opts + 1
     \<and> list_all (\<lambda>rq. request_ok opts (rq_target (hd sent)) rq) sent"
proof (cases "resolvePublicTarget net 0 opts rawUrl dnsCache")
  case (Pair target dns)
  show ?thesis
  proof (cases target)
    case (Inl e)
    with Pair show ?thesis by (simp add: guardedFetch_def)
  next
    case (Inr t)
    have "vetted opts t" using resolvePublicTarget_vetted Pair Inr by blast
    from fetch_loop_returns[OF this, of "fst t" "[]" 0 "redirect_limit opts" net init dns]
    obtain res reqs where out: "fetch_loop net opts (fst t) 0 t init dns [] = Some (res, reqs)"
        "list_all (request_ok opts (fst t)) reqs" "length reqs \<le> redirect_limit opts + 1"
        "prefix [request_for (fst t) t init] reqs" by auto
    have "rq_target (hd reqs) = fst t" using out(4) by (cases reqs) (auto simp: request_for_def Let_def)
    with out Pair Inr show ?thesis by (simp add: guardedFetch_def)
  qed
qed

end
