(* ===== verification/Quick_Connect.thy ===== *)
theory Quick_Connect
  imports Js_String
begin

section \<open>Quick connect\<close>

text \<open>
  \<^verbatim>\<open>services/auth/quick-connect.service.ts\<close>: the pairing of a device with a code, and vouchers.
  The service keeps one entry per secret and an index by code. An entry is held by its two maps
  and by an authorization in flight; secrets are fresh UUIDs, so the index names an entry by its
  secret, and the end of an authorization changes the entry if it is still there. The random
  draws, the clock and the session issuer are inputs of the events.
\<close>

datatype qc_kind = Device_pair | Voucher

datatype qc_status = Qc_pending | Qc_authenticated

record qc_entry =
  qe_code :: string
  qe_normalizedCode :: string
  qe_secret :: string
  qe_kind :: qc_kind
  qe_status :: qc_status
  qe_authorizing :: bool
  qe_userId :: "string option"
  qe_profileId :: "string option"
  qe_profilePin :: "string option"
  qe_signedToken :: "string option"
  qe_cookies :: "string list"
  qe_createdAt :: int
  qe_expiresAt :: int

record quick_connect =
  qc_entries :: "(string, qc_entry) jsmap"
  qc_entriesByCode :: "(string, string) jsmap"

record qc_owner =
  ow_userId :: string
  ow_profileId :: "string option"
  ow_profilePin :: "string option"

definition EXPIRATION_MS :: int where
  "EXPIRATION_MS = 15 * 60000"

definition MAX_PENDING_ENTRIES :: nat where
  "MAX_PENDING_ENTRIES = 1000"

definition CODE_ALPHABET :: string where
  "CODE_ALPHABET = ''ABCDEFGHJKLMNPQRSTUVWXYZ23456789''"

definition CODE_LENGTH :: nat where
  "CODE_LENGTH = 8"

definition new_quick_connect :: quick_connect where
  "new_quick_connect = \<lparr>qc_entries = [], qc_entriesByCode = []\<rparr>"

definition isExpired :: "int \<Rightarrow> int \<Rightarrow> bool" where
  "isExpired expiresAt now \<longleftrightarrow> expiresAt \<le> now"

definition is_alnum :: "char \<Rightarrow> bool" where
  "is_alnum c = (let n = (of_char c :: nat) in
     48 \<le> n \<and> n \<le> 57 \<or> 97 \<le> n \<and> n \<le> 122 \<or> 65 \<le> n \<and> n \<le> 90)"

definition normalizeCode :: "string \<Rightarrow> string" where
  "normalizeCode raw = to_upper (filter is_alnum raw)"

definition findByNormalizedCode :: "int \<Rightarrow> string \<Rightarrow> quick_connect \<Rightarrow> qc_entry option \<times> quick_connect" where
  "findByNormalizedCode now normalized q =
     (case Option.bind (map_of (qc_entriesByCode q) normalized) (map_of (qc_entries q)) of
        None \<Rightarrow> (None, q)
      | Some entry \<Rightarrow>
          if isExpired (qe_expiresAt entry) now
          then (None, q\<lparr>qc_entriesByCode := AList.delete normalized (qc_entriesByCode q)\<rparr>)
          else (Some entry, q))"

definition removeEntry :: "string \<Rightarrow> quick_connect \<Rightarrow> quick_connect" where
  "removeEntry secret q =
     (case map_of (qc_entries q) secret of
        None \<Rightarrow> q
      | Some entry \<Rightarrow>
          q\<lparr>qc_entries := AList.delete secret (qc_entries q),
            qc_entriesByCode :=
              (if map_of (qc_entriesByCode q) (qe_normalizedCode entry) = Some secret
               then AList.delete (qe_normalizedCode entry) (qc_entriesByCode q) else qc_entriesByCode q)\<rparr>)"

definition cleanupExpired :: "int \<Rightarrow> quick_connect \<Rightarrow> quick_connect" where
  "cleanupExpired now q =
     fold (\<lambda>(key, entry) q. if qe_expiresAt entry \<le> now then removeEntry key q else q) (qc_entries q) q"

text \<open>Up to 20 draws; a draw whose code is taken is dropped.\<close>

fun draw_code :: "int \<Rightarrow> string list \<Rightarrow> quick_connect \<Rightarrow> string result \<times> quick_connect" where
  "draw_code now [] q = (Throw (DomainError Internal ''quick_connect.code_generation_failed''), q)"
| "draw_code now (raw # raws) q =
     (case findByNormalizedCode now raw q of
        (None, q1) \<Rightarrow> (Return (take 4 raw @ ''-'' @ drop 4 raw), q1)
      | (Some _, q1) \<Rightarrow> draw_code now raws q1)"

definition generateCode :: "int \<Rightarrow> string list \<Rightarrow> quick_connect \<Rightarrow> string result \<times> quick_connect" where
  "generateCode now draws q = draw_code now (take 20 draws) q"

definition qc_evict_oldest :: "quick_connect \<Rightarrow> quick_connect" where
  "qc_evict_oldest q =
     (if length (qc_entries q) \<ge> MAX_PENDING_ENTRIES then
        (case keys (qc_entries q) of [] \<Rightarrow> q | oldest # _ \<Rightarrow> removeEntry oldest q)
      else q)"

text \<open>An absent or empty text is no value.\<close>

definition qc_truthy :: "string option \<Rightarrow> string option" where
  "qc_truthy x = (case x of None \<Rightarrow> None | Some s \<Rightarrow> if s = [] then None else Some s)"

definition new_entry :: "int \<Rightarrow> string \<Rightarrow> string \<Rightarrow> qc_kind \<Rightarrow> qc_owner option \<Rightarrow> qc_entry" where
  "new_entry now code_text secret kind owner =
     \<lparr>qe_code = code_text, qe_normalizedCode = normalizeCode code_text, qe_secret = secret, qe_kind = kind,
      qe_status = Qc_pending, qe_authorizing = False,
      qe_userId = qc_truthy (map_option ow_userId owner),
      qe_profileId = qc_truthy (Option.bind owner ow_profileId),
      qe_profilePin = qc_truthy (Option.bind owner ow_profilePin),
      qe_signedToken = None, qe_cookies = [], qe_createdAt = now, qe_expiresAt = now + EXPIRATION_MS\<rparr>"

definition createPendingEntry ::
  "int \<Rightarrow> string list \<Rightarrow> string \<Rightarrow> qc_kind \<Rightarrow> qc_owner option \<Rightarrow> quick_connect \<Rightarrow> qc_entry result \<times> quick_connect" where
  "createPendingEntry now draws secret kind owner q =
     (case generateCode now draws (qc_evict_oldest (cleanupExpired now q)) of
        (Inl e, q1) \<Rightarrow> (Throw e, q1)
      | (Inr code_text, q1) \<Rightarrow>
          (let entry = new_entry now code_text secret kind owner in
           (Return entry,
            q1\<lparr>qc_entries := AList.update secret entry (qc_entries q1),
               qc_entriesByCode := AList.update (qe_normalizedCode entry) secret (qc_entriesByCode q1)\<rparr>)))"

text \<open>
  \<^verbatim>\<open>check\<close>: a device polls. The user's row, read after the entry is gone, is a parameter; a
  session handed over is the user with its cookies and, for a native shell, its token.
\<close>

datatype check_answer = Not_yet | Handed_over string "string list" "string option"

definition check ::
  "(string \<Rightarrow> bool) \<Rightarrow> bool \<Rightarrow> int \<Rightarrow> string \<Rightarrow> quick_connect \<Rightarrow> check_answer result \<times> quick_connect" where
  "check user_exists native now secret q =
     (case map_of (qc_entries q) secret of
        None \<Rightarrow> (Throw (DomainError Not_found ''quick_connect.session_expired''), q)
      | Some entry \<Rightarrow>
          if isExpired (qe_expiresAt entry) now
          then (Throw (DomainError Not_found ''quick_connect.session_expired''), q)
          else if qe_status entry = Qc_pending then (Return Not_yet, q)
          else (let q1 = removeEntry secret q in
            case qc_truthy (qe_userId entry) of
              None \<Rightarrow> (Throw (DomainError Not_found ''quick_connect.session_user_missing''), q1)
            | Some u \<Rightarrow>
                if \<not> user_exists u then (Throw (DomainError Not_found ''quick_connect.user_not_found''), q1)
                else (Return (Handed_over u (qe_cookies entry) (if native then qc_truthy (qe_signedToken entry) else None)), q1)))"

text \<open>\<^verbatim>\<open>authorize\<close> up to the issue of the session: the claim of the entry.\<close>

definition set_entry :: "string \<Rightarrow> (qc_entry \<Rightarrow> qc_entry) \<Rightarrow> quick_connect \<Rightarrow> quick_connect" where
  "set_entry secret f q =
     (case map_of (qc_entries q) secret of
        None \<Rightarrow> q | Some e \<Rightarrow> q\<lparr>qc_entries := AList.update secret (f e) (qc_entries q)\<rparr>)"

definition authorize :: "int \<Rightarrow> string \<Rightarrow> quick_connect \<Rightarrow> string result \<times> quick_connect" where
  "authorize now code_text q =
     (case findByNormalizedCode now (normalizeCode code_text) q of
        (None, q1) \<Rightarrow> (Throw (DomainError Not_found ''quick_connect.code_invalid''), q1)
      | (Some entry, q1) \<Rightarrow>
          if qe_kind entry \<noteq> Device_pair then (Throw (DomainError Not_found ''quick_connect.code_invalid''), q1)
          else if qe_status entry \<noteq> Qc_pending \<or> qe_authorizing entry
          then (Throw (DomainError Validation ''quick_connect.code_already_used''), q1)
          else (Return (qe_secret entry), set_entry (qe_secret entry) (\<lambda>e. e\<lparr>qe_authorizing := True\<rparr>) q1))"

definition authorize_done :: "string \<Rightarrow> string \<Rightarrow> string option \<Rightarrow> string \<Rightarrow> string list \<Rightarrow> quick_connect \<Rightarrow> quick_connect" where
  "authorize_done secret user profile token cookies =
     set_entry secret (\<lambda>e. e\<lparr>qe_status := Qc_authenticated, qe_userId := Some user, qe_profileId := profile,
       qe_signedToken := Some token, qe_cookies := cookies\<rparr>)"

definition authorize_failed :: "string \<Rightarrow> quick_connect \<Rightarrow> quick_connect" where
  "authorize_failed secret = set_entry secret (\<lambda>e. e\<lparr>qe_authorizing := False\<rparr>)"

text \<open>\<^verbatim>\<open>redeem\<close> up to the issue of the session: the voucher is gone before it is used.\<close>

definition redeem :: "int \<Rightarrow> string \<Rightarrow> quick_connect \<Rightarrow> qc_entry result \<times> quick_connect" where
  "redeem now code_text q =
     (case findByNormalizedCode now (normalizeCode code_text) q of
        (None, q1) \<Rightarrow> (Throw (DomainError Not_found ''quick_connect.voucher_invalid''), q1)
      | (Some entry, q1) \<Rightarrow>
          if qe_kind entry \<noteq> Voucher \<or> qc_truthy (qe_userId entry) = None
          then (Throw (DomainError Not_found ''quick_connect.voucher_invalid''), q1)
          else if qe_status entry \<noteq> Qc_pending
          then (Throw (DomainError Validation ''quick_connect.voucher_already_used''), q1)
          else (Return entry, removeEntry (qe_secret entry) q1))"

subsection \<open>Runs\<close>

text \<open>
  The service with its history: the entries created, the authorizations in flight and completed,
  and the sessions handed to a device or issued for a voucher.
\<close>

record qc_system =
  qs_service :: quick_connect
  qs_created :: "qc_entry list"
  qs_inflight :: "(string \<times> string) list"
  qs_authorized :: "(string \<times> string) list"
  qs_sessions :: "(string \<times> string \<times> int) list"

datatype qc_event =
    Q_initiate int "string list" string
  | Q_generate int "string list" string qc_owner
  | Q_check int string bool
  | Q_authorize int string string
  | Q_issued string "string option" string "string list"
  | Q_issue_failed string
  | Q_redeem int string

definition initial_system :: qc_system where
  "initial_system = \<lparr>qs_service = new_quick_connect, qs_created = [], qs_inflight = [], qs_authorized = [], qs_sessions = []\<rparr>"

definition create_step :: "int \<Rightarrow> string list \<Rightarrow> string \<Rightarrow> qc_kind \<Rightarrow> qc_owner option \<Rightarrow> qc_system \<Rightarrow> qc_system" where
  "create_step now draws secret kind owner s =
     (case createPendingEntry now draws secret kind owner (qs_service s) of
        (Inl e, q) \<Rightarrow> s\<lparr>qs_service := q\<rparr>
      | (Inr entry, q) \<Rightarrow> s\<lparr>qs_service := q, qs_created := qs_created s @ [entry]\<rparr>)"

fun qc_exec :: "(string \<Rightarrow> bool) \<Rightarrow> qc_event \<Rightarrow> qc_system \<Rightarrow> qc_system" where
  "qc_exec users (Q_initiate now draws secret) s = create_step now draws secret Device_pair None s"
| "qc_exec users (Q_generate now draws secret owner) s = create_step now draws secret Voucher (Some owner) s"
| "qc_exec users (Q_check now secret native) s =
     (case check users native now secret (qs_service s) of
        (Inr (Handed_over u cookies token), q) \<Rightarrow> s\<lparr>qs_service := q, qs_sessions := qs_sessions s @ [(secret, u, now)]\<rparr>
      | (_, q) \<Rightarrow> s\<lparr>qs_service := q\<rparr>)"
| "qc_exec users (Q_authorize now code_text user) s =
     (case authorize now code_text (qs_service s) of
        (Inl e, q) \<Rightarrow> s\<lparr>qs_service := q\<rparr>
      | (Inr secret, q) \<Rightarrow> s\<lparr>qs_service := q, qs_inflight := qs_inflight s @ [(secret, user)]\<rparr>)"
| "qc_exec users (Q_issued secret profile token cookies) s =
     (case map_of (qs_inflight s) secret of
        None \<Rightarrow> s
      | Some user \<Rightarrow> s\<lparr>qs_service := authorize_done secret user profile token cookies (qs_service s),
          qs_inflight := AList.delete secret (qs_inflight s), qs_authorized := qs_authorized s @ [(secret, user)]\<rparr>)"
| "qc_exec users (Q_issue_failed secret) s =
     (if map_of (qs_inflight s) secret = None then s
      else s\<lparr>qs_service := authorize_failed secret (qs_service s), qs_inflight := AList.delete secret (qs_inflight s)\<rparr>)"
| "qc_exec users (Q_redeem now code_text) s =
     (case redeem now code_text (qs_service s) of
        (Inl e, q) \<Rightarrow> s\<lparr>qs_service := q\<rparr>
      | (Inr entry, q) \<Rightarrow>
          s\<lparr>qs_service := q, qs_sessions := qs_sessions s @ [(qe_secret entry, the (qc_truthy (qe_userId entry)), now)]\<rparr>)"

text \<open>Draws come from the alphabet, secrets are fresh.\<close>

definition good_draw :: "string \<Rightarrow> bool" where
  "good_draw raw \<longleftrightarrow> length raw = CODE_LENGTH \<and> set raw \<subseteq> set CODE_ALPHABET"

definition fresh_secret :: "string \<Rightarrow> qc_system \<Rightarrow> bool" where
  "fresh_secret secret s \<longleftrightarrow> secret \<notin> set (map qe_secret (qs_created s))"

fun qc_admissible :: "qc_system \<Rightarrow> qc_event \<Rightarrow> bool" where
  "qc_admissible s (Q_initiate now draws secret) = (list_all good_draw draws \<and> fresh_secret secret s)"
| "qc_admissible s (Q_generate now draws secret owner) = (list_all good_draw draws \<and> fresh_secret secret s)"
| "qc_admissible s _ = True"

inductive qc_reach :: "(string \<Rightarrow> bool) \<Rightarrow> qc_system \<Rightarrow> bool" for users where
  start: "qc_reach users initial_system"
| step: "qc_reach users s \<Longrightarrow> qc_admissible s e \<Longrightarrow> qc_reach users (qc_exec users e s)"

end
