(* ===== verification/Quick_Connect_Safety.thy ===== *)
theory Quick_Connect_Safety
  imports Quick_Connect
begin

section \<open>Quick connect: every secret gives one session\<close>

text \<open>
  Invariants of \<^verbatim>\<open>services/auth/quick-connect.service.ts\<close> over every run: the two maps agree,
  the number of entries is bounded, and a secret gives at most one session, in time, to the user
  who authorized it or who made the voucher.
\<close>

subsection \<open>The two maps\<close>

definition qc_wf :: "quick_connect \<Rightarrow> bool" where
  "qc_wf q \<longleftrightarrow> wf_map (qc_entries q) \<and>
     (\<forall>c s. map_of (qc_entriesByCode q) c = Some s \<longrightarrow>
        (\<exists>e. map_of (qc_entries q) s = Some e \<and> qe_normalizedCode e = c))"

definition shrinks :: "quick_connect \<Rightarrow> quick_connect \<Rightarrow> bool" where
  "shrinks q' q \<longleftrightarrow> qc_wf q' \<and> map_of (qc_entries q') \<subseteq>\<^sub>m map_of (qc_entries q) \<and>
     length (qc_entries q') \<le> length (qc_entries q)"

lemma shrinks_refl: "qc_wf q \<Longrightarrow> shrinks q q"
  by (simp add: shrinks_def)

lemma shrinks_trans: "shrinks q'' q' \<Longrightarrow> shrinks q' q \<Longrightarrow> shrinks q'' q"
  by (auto simp: shrinks_def intro: map_le_trans)

lemma shrinks_wf: "shrinks q' q \<Longrightarrow> qc_wf q'"
  by (simp add: shrinks_def)

lemma shrinks_lookup: "shrinks q' q \<Longrightarrow> map_of (qc_entries q') s = Some e \<Longrightarrow> map_of (qc_entries q) s = Some e"
  by (metis domI map_le_def shrinks_def)

lemma qc_wf_insert:
  assumes "qc_wf q" and "map_of (qc_entries q) k = None" and "qe_normalizedCode e = c"
  shows "qc_wf (q\<lparr>qc_entries := AList.update k e (qc_entries q), qc_entriesByCode := AList.update c k (qc_entriesByCode q)\<rparr>)"
proof -
  have "\<exists>e'. (if s = k then Some e else map_of (qc_entries q) s) = Some e' \<and> qe_normalizedCode e' = x"
    if "(if x = c then Some k else map_of (qc_entriesByCode q) x) = Some s" for x s
    using that assms unfolding qc_wf_def by (metis option.distinct(1) option.inject)
  with assms(1) show ?thesis by (simp add: qc_wf_def map_of_update del: map_of_eq_Some_iff)
qed

lemma findByNormalizedCode_shrinks:
  assumes "qc_wf q"
  shows "shrinks (snd (findByNormalizedCode now c q)) q"
    and "qc_entries (snd (findByNormalizedCode now c q)) = qc_entries q"
  using assms
  by (auto simp: findByNormalizedCode_def shrinks_def qc_wf_def map_of_delete_eq split: option.splits)

lemma findByNormalizedCode_SomeD:
  assumes "findByNormalizedCode now c q = (Some e, q')" and "qc_wf q"
  shows "q' = q \<and> now < qe_expiresAt e \<and>
    (\<exists>s. map_of (qc_entriesByCode q) c = Some s \<and> map_of (qc_entries q) s = Some e \<and> qe_normalizedCode e = c)"
  using assms
  by (fastforce simp: findByNormalizedCode_def isExpired_def qc_wf_def simp del: map_of_eq_Some_iff
      split: option.splits if_splits Option.bind_splits)

lemma removeEntry_entries:
  "qc_entries (removeEntry s q) = AList.delete s (qc_entries q)"
  by (simp add: removeEntry_def AList.delete_id map_of_eq_None_iff split: option.split)

lemma removeEntry_shrinks:
  assumes wf: "qc_wf q"
  shows "shrinks (removeEntry s q) q"
proof (cases "map_of (qc_entries q) s")
  case None
  with wf show ?thesis by (simp add: removeEntry_def shrinks_refl)
next
  case (Some e)
  have "qc_wf (removeEntry s q)"
    using wf Some by (fastforce simp: removeEntry_def qc_wf_def map_of_delete_eq simp del: map_of_eq_Some_iff)
  moreover have "length (AList.delete s (qc_entries q)) \<le> length (qc_entries q)"
    by (simp add: AList_delete_eq_filter)
  ultimately show ?thesis
    by (auto simp: shrinks_def removeEntry_entries map_le_def map_of_delete_eq)
qed

lemma cleanupExpired_shrinks: "qc_wf q \<Longrightarrow> shrinks (cleanupExpired now q) q"
proof -
  have "shrinks r q \<Longrightarrow>
      shrinks (fold (\<lambda>(key, entry) q. if qe_expiresAt entry \<le> now then removeEntry key q else q) es r) q" for es r
  proof (induction es arbitrary: r)
    case (Cons p es)
    have "shrinks (removeEntry k r) q" for k
      by (meson Cons.prems removeEntry_shrinks shrinks_trans shrinks_wf)
    with Cons show ?case by (simp add: case_prod_unfold)
  qed simp
  then show "qc_wf q \<Longrightarrow> shrinks (cleanupExpired now q) q"
    unfolding cleanupExpired_def using shrinks_refl by blast
qed

lemma qc_evict_oldest_shrinks: "qc_wf q \<Longrightarrow> shrinks (qc_evict_oldest q) q"
  by (simp add: qc_evict_oldest_def removeEntry_shrinks shrinks_refl split: list.split)

lemma qc_evict_oldest_room:
  assumes "qc_wf q" and "length (qc_entries q) \<le> MAX_PENDING_ENTRIES"
  shows "length (qc_entries (qc_evict_oldest q)) < MAX_PENDING_ENTRIES"
proof (cases "qc_entries q")
  case Nil
  then show ?thesis by (simp add: qc_evict_oldest_def MAX_PENDING_ENTRIES_def)
next
  case (Cons p es)
  have "length (AList.delete (fst p) (qc_entries q)) \<le> length es"
    by (simp add: Cons AList_delete_eq_filter case_prod_unfold)
  with assms(2) show ?thesis
    by (simp add: qc_evict_oldest_def Cons removeEntry_entries)
qed

lemma draw_code_shrinks: "qc_wf q \<Longrightarrow> shrinks (snd (draw_code now raws q)) q"
proof (induction now raws q rule: draw_code.induct)
  case (1 now q)
  then show ?case by (simp add: shrinks_refl)
next
  case (2 now raw raws q)
  obtain r q1 where f: "findByNormalizedCode now raw q = (r, q1)" by fastforce
  have q1: "shrinks q1 q" using findByNormalizedCode_shrinks(1)[OF 2(2), of now raw] by (simp add: f)
  show ?case
  proof (cases r)
    case None
    with f q1 show ?thesis by simp
  next
    case (Some e)
    have "shrinks (snd (draw_code now raws q1)) q1"
      using "2.IH" f Some shrinks_wf[OF q1] by auto
    with f Some q1 show ?thesis by (auto intro: shrinks_trans)
  qed
qed

text \<open>A drawn code is a draw whose normal form no live entry has.\<close>

lemma draw_code_Return:
  "draw_code now raws q = (Inr c, q') \<Longrightarrow> qc_wf q \<Longrightarrow>
     \<exists>raw \<in> set raws. c = take 4 raw @ ''-'' @ drop 4 raw \<and> map_of (qc_entriesByCode q') raw = None"
proof (induction now raws q rule: draw_code.induct)
  case (1 now q)
  then show ?case by simp
next
  case (2 now raw raws q)
  obtain r q1 where f: "findByNormalizedCode now raw q = (r, q1)" by fastforce
  show ?case
  proof (cases r)
    case None
    with f 2(2) have "c = take 4 raw @ ''-'' @ drop 4 raw" "q' = q1" by simp_all
    moreover have "map_of (qc_entriesByCode q1) raw = None"
      using f None 2(3)
      by (fastforce simp: findByNormalizedCode_def qc_wf_def map_of_delete_eq simp del: map_of_eq_Some_iff
          split: option.splits if_splits Option.bind_splits)
    ultimately show ?thesis by auto
  next
    case (Some e)
    have "qc_wf q1" using shrinks_wf[OF findByNormalizedCode_shrinks(1)[OF 2(3), of now raw]] by (simp add: f)
    moreover have "draw_code now raws q1 = (Inr c, q')" using 2(2) by (simp add: f Some)
    ultimately show ?thesis using "2.IH" f Some by auto
  qed
qed

lemma prepare_shrinks:
  "qc_wf q \<Longrightarrow> shrinks (snd (generateCode now draws (qc_evict_oldest (cleanupExpired now q)))) q"
  unfolding generateCode_def
  by (meson cleanupExpired_shrinks draw_code_shrinks qc_evict_oldest_shrinks shrinks_trans shrinks_wf)

subsection \<open>The normal form of a drawn code\<close>

lemma alphabet_normal: "c \<in> set CODE_ALPHABET \<Longrightarrow> is_alnum c \<and> upper_char c = c"
proof -
  have "list_all (\<lambda>c. is_alnum c \<and> upper_char c = c) CODE_ALPHABET" by code_simp
  then show "c \<in> set CODE_ALPHABET \<Longrightarrow> ?thesis" by (simp add: list_all_iff)
qed

lemma normalizeCode_draw:
  assumes "good_draw raw"
  shows "normalizeCode (take 4 raw @ ''-'' @ drop 4 raw) = raw"
proof -
  have "\<not> is_alnum CHR ''-''" by code_simp
  moreover have f: "filter is_alnum xs = xs" if "set xs \<subseteq> set raw" for xs
    using that assms alphabet_normal by (auto simp: good_draw_def subset_iff intro!: filter_True)
  ultimately have "normalizeCode (take 4 raw @ ''-'' @ drop 4 raw) = map upper_char raw"
    using set_take_subset[of 4 raw] set_drop_subset[of 4 raw]
    by (simp add: normalizeCode_def to_upper_def flip: map_append)
  also have "\<dots> = raw"
    using assms alphabet_normal by (auto simp: good_draw_def subset_iff intro!: map_idI)
  finally show ?thesis .
qed

subsection \<open>The history of the secrets\<close>

abbreviation secrets :: "qc_entry list \<Rightarrow> string set" where
  "secrets es \<equiv> qe_secret ` set es"

text \<open>An entry held by the service is one that was created, with the authorization it has got since.\<close>

definition origin :: "qc_system \<Rightarrow> qc_entry \<Rightarrow> qc_entry \<Rightarrow> bool" where
  "origin s e0 e \<longleftrightarrow> e0 \<in> set (qs_created s) \<and> qe_secret e0 = qe_secret e \<and> qe_kind e0 = qe_kind e \<and>
     qe_createdAt e0 = qe_createdAt e \<and> qe_expiresAt e = qe_createdAt e + EXPIRATION_MS \<and>
     (qe_kind e = Voucher \<longrightarrow> qe_userId e0 = qe_userId e)"

definition progress :: "qc_system \<Rightarrow> qc_entry \<Rightarrow> bool" where
  "progress s e \<longleftrightarrow>
     (case qe_status e of
        Qc_authenticated \<Rightarrow> qe_kind e = Device_pair \<and> (\<exists>u. qe_userId e = Some u \<and> (qe_secret e, u) \<in> set (qs_authorized s))
      | Qc_pending \<Rightarrow> qe_secret e \<notin> fst ` set (qs_authorized s) \<and>
          (qe_authorizing e \<longleftrightarrow> qe_secret e \<in> fst ` set (qs_inflight s)) \<and> (qe_authorizing e \<longrightarrow> qe_kind e = Device_pair))"

definition entry_ok :: "qc_system \<Rightarrow> qc_entry \<Rightarrow> bool" where
  "entry_ok s e \<longleftrightarrow> (\<exists>e0. origin s e0 e) \<and> progress s e \<and> qe_secret e \<notin> fst ` set (qs_sessions s)"

definition session_ok :: "qc_system \<Rightarrow> string \<times> string \<times> int \<Rightarrow> bool" where
  "session_ok s = (\<lambda>(secret, user, at). \<exists>e0 \<in> set (qs_created s).
     qe_secret e0 = secret \<and> at < qe_createdAt e0 + EXPIRATION_MS \<and>
     (case qe_kind e0 of Voucher \<Rightarrow> qe_userId e0 = Some user | Device_pair \<Rightarrow> (secret, user) \<in> set (qs_authorized s)))"

definition history_ok :: "qc_system \<Rightarrow> bool" where
  "history_ok s \<longleftrightarrow> distinct (map qe_secret (qs_created s)) \<and> wf_map (qs_inflight s) \<and> wf_map (qs_authorized s) \<and>
     wf_map (qs_sessions s) \<and> fst ` set (qs_inflight s) \<inter> fst ` set (qs_authorized s) = {} \<and>
     fst ` set (qs_inflight s) \<union> fst ` set (qs_authorized s) \<union> fst ` set (qs_sessions s) \<subseteq> secrets (qs_created s) \<and>
     list_all (session_ok s) (qs_sessions s)"

definition qc_inv :: "qc_system \<Rightarrow> bool" where
  "qc_inv s \<longleftrightarrow> qc_wf (qs_service s) \<and> length (qc_entries (qs_service s)) \<le> MAX_PENDING_ENTRIES \<and> history_ok s \<and>
     (\<forall>k e. map_of (qc_entries (qs_service s)) k = Some e \<longrightarrow> qe_secret e = k \<and> entry_ok s e)"

lemma qc_invI:
  assumes "qc_wf (qs_service s)" and "length (qc_entries (qs_service s)) \<le> MAX_PENDING_ENTRIES" and "history_ok s"
    and "\<And>k e. map_of (qc_entries (qs_service s)) k = Some e \<Longrightarrow> qe_secret e = k \<and> entry_ok s e"
  shows "qc_inv s"
  using assms unfolding qc_inv_def by blast

lemma qc_inv_entry: "qc_inv s \<Longrightarrow> map_of (qc_entries (qs_service s)) k = Some e \<Longrightarrow> qe_secret e = k \<and> entry_ok s e"
  by (simp add: qc_inv_def del: map_of_eq_Some_iff)

lemma qc_inv_parts:
  assumes "qc_inv s"
  shows "qc_wf (qs_service s)" "length (qc_entries (qs_service s)) \<le> MAX_PENDING_ENTRIES" "history_ok s"
  using assms by (simp_all add: qc_inv_def)

lemma history_service: "history_ok (s\<lparr>qs_service := q\<rparr>) = history_ok s"
  by (simp add: history_ok_def session_ok_def cong: qc_kind.case_cong)

lemma entry_service: "entry_ok (s\<lparr>qs_service := q\<rparr>) e = entry_ok s e"
  by (simp add: entry_ok_def origin_def progress_def cong: qc_status.case_cong)

text \<open>What is known of an entry survives a change that says nothing new of its secret.\<close>

lemma entry_ok_mono:
  assumes ok: "entry_ok s e" and created: "set (qs_created s) \<subseteq> set (qs_created s')"
    and authorized: "set (qs_authorized s) \<subseteq> set (qs_authorized s')"
    and same: "qe_secret e \<in> fst ` set (qs_authorized s') \<Longrightarrow> qe_secret e \<in> fst ` set (qs_authorized s)"
      "qe_secret e \<in> fst ` set (qs_inflight s') \<longleftrightarrow> qe_secret e \<in> fst ` set (qs_inflight s)"
      "qe_secret e \<in> fst ` set (qs_sessions s') \<Longrightarrow> qe_secret e \<in> fst ` set (qs_sessions s)"
  shows "entry_ok s' e"
proof -
  have "\<exists>e0. origin s' e0 e" using ok created unfolding entry_ok_def origin_def by blast
  moreover have "progress s' e"
    using ok authorized same(1,2) unfolding entry_ok_def progress_def by (cases "qe_status e") auto
  ultimately show ?thesis using ok same(3) unfolding entry_ok_def by blast
qed

text \<open>Dropping entries keeps everything.\<close>

lemma qc_inv_shrinks:
  assumes inv: "qc_inv s" and sh: "shrinks q (qs_service s)"
  shows "qc_inv (s\<lparr>qs_service := q\<rparr>)"
proof (rule qc_invI)
  show "length (qc_entries (qs_service (s\<lparr>qs_service := q\<rparr>))) \<le> MAX_PENDING_ENTRIES"
    using sh qc_inv_parts(2)[OF inv] by (simp add: shrinks_def)
next
  fix k e
  assume "map_of (qc_entries (qs_service (s\<lparr>qs_service := q\<rparr>))) k = Some e"
  then show "qe_secret e = k \<and> entry_ok (s\<lparr>qs_service := q\<rparr>) e"
    using qc_inv_entry[OF inv shrinks_lookup[OF sh]] by (simp add: entry_service)
qed (use sh qc_inv_parts(3)[OF inv] in \<open>simp_all add: shrinks_wf history_service\<close>)

text \<open>A new entry: its secret is fresh, so nothing is known of it.\<close>

lemma created_inv:
  assumes inv: "qc_inv s" and sh: "shrinks q (qs_service s)" and room: "length (qc_entries q) < MAX_PENDING_ENTRIES"
    and fresh: "fresh_secret (qe_secret e) s" and new: "qe_status e = Qc_pending" "\<not> qe_authorizing e"
      "qe_expiresAt e = qe_createdAt e + EXPIRATION_MS"
  shows "qc_inv (s\<lparr>qs_service := q\<lparr>qc_entries := AList.update (qe_secret e) e (qc_entries q),
       qc_entriesByCode := AList.update (qe_normalizedCode e) (qe_secret e) (qc_entriesByCode q)\<rparr>,
     qs_created := qs_created s @ [e]\<rparr>)" (is "qc_inv ?s")
proof (rule qc_invI)
  have h: "history_ok s" using inv by (rule qc_inv_parts)
  have notin: "qe_secret e \<notin> secrets (qs_created s)" using fresh by (simp add: fresh_secret_def)
  then have unused: "qe_secret e \<notin> fst ` set (qs_inflight s)" "qe_secret e \<notin> fst ` set (qs_authorized s)"
      "qe_secret e \<notin> fst ` set (qs_sessions s)"
    using h by (auto simp: history_ok_def)
  have sess: "session_ok ?s x" if "session_ok s x" for x
    using that by (auto simp: session_ok_def cong: qc_kind.case_cong)
  have "list_all (session_ok ?s) (qs_sessions s)"
    using h sess by (simp add: history_ok_def list_all_iff)
  with h notin show "history_ok ?s"
    by (simp add: history_ok_def subset_insertI2)
  have absent: "map_of (qc_entries q) (qe_secret e) = None"
  proof (rule ccontr)
    assume "map_of (qc_entries q) (qe_secret e) \<noteq> None"
    then obtain x where "map_of (qc_entries q) (qe_secret e) = Some x" by blast
    from qc_inv_entry[OF inv shrinks_lookup[OF sh this]] notin show False
      unfolding entry_ok_def origin_def image_iff by metis
  qed
  show "qc_wf (qs_service ?s)"
    using qc_wf_insert[OF shrinks_wf[OF sh] absent refl] by simp
  show "length (qc_entries (qs_service ?s)) \<le> MAX_PENDING_ENTRIES"
    using room absent by (simp add: update_fresh map_of_eq_None_iff)
  fix k x
  assume x: "map_of (qc_entries (qs_service ?s)) k = Some x"
  show "qe_secret x = k \<and> entry_ok ?s x"
  proof (cases "k = qe_secret e")
    case True
    with x have "x = e" by (simp add: map_of_update)
    moreover have "origin ?s e e" "progress ?s e" using new unused by (simp_all add: origin_def progress_def)
    ultimately show ?thesis using True unused unfolding entry_ok_def by auto
  next
    case False
    with x have "map_of (qc_entries q) k = Some x" by (simp add: map_of_update del: map_of_eq_Some_iff)
    from qc_inv_entry[OF inv shrinks_lookup[OF sh this]] have ok: "entry_ok s x" "qe_secret x = k" by simp_all
    have "entry_ok ?s x" by (rule entry_ok_mono[OF ok(1)]) auto
    with ok(2) show ?thesis by simp
  qed
qed

text \<open>The events that keep the entries and move an authorization on.\<close>

lemma set_entry_lookup:
  "map_of (qc_entries (set_entry k f q)) x =
     (if x = k then map_option f (map_of (qc_entries q) k) else map_of (qc_entries q) x)"
  by (simp add: set_entry_def map_of_update split: option.split)

lemma set_entry_length: "length (qc_entries (set_entry k f q)) = length (qc_entries q)"
proof -
  have "length (AList.update k v m) = (if k \<in> set (keys m) then length m else Suc (length m))" for v and m :: "(string, qc_entry) jsmap"
    by (induction m) auto
  then show ?thesis by (simp add: set_entry_def map_of_SomeD split: option.split) (metis map_of_eq_None_iff option.distinct(1))
qed

lemma set_entry_wf:
  assumes "qc_wf q" and "\<And>e. qe_normalizedCode (f e) = qe_normalizedCode e"
  shows "qc_wf (set_entry k f q)"
proof -
  have "qc_entriesByCode (set_entry k f q) = qc_entriesByCode q" "wf_map (qc_entries (set_entry k f q))"
    using assms(1) by (simp_all add: set_entry_def qc_wf_def split: option.split)
  with assms show ?thesis
    by (fastforce simp: qc_wf_def set_entry_lookup simp del: map_of_eq_Some_iff)
qed

lemma moved_inv:
  assumes inv: "qc_inv s" and hist: "history_ok s'" and service: "qs_service s' = set_entry k f (qs_service s)"
    and code: "\<And>e. qe_normalizedCode (f e) = qe_normalizedCode e"
    and changed: "\<And>e. map_of (qc_entries (qs_service s)) k = Some e \<Longrightarrow> qe_secret e = k \<Longrightarrow> entry_ok s e \<Longrightarrow>
      qe_secret (f e) = k \<and> entry_ok s' (f e)"
    and others: "\<And>e. qe_secret e \<noteq> k \<Longrightarrow> entry_ok s e \<Longrightarrow> entry_ok s' e"
  shows "qc_inv s'"
proof (rule qc_invI)
  fix x e
  assume e: "map_of (qc_entries (qs_service s')) x = Some e"
  show "qe_secret e = x \<and> entry_ok s' e"
  proof (cases "x = k")
    case True
    with e obtain e' where e': "map_of (qc_entries (qs_service s)) k = Some e'" "e = f e'"
      by (auto simp: service set_entry_lookup simp del: map_of_eq_Some_iff)
    with changed[OF e'(1)] qc_inv_entry[OF inv e'(1)] True show ?thesis by simp
  next
    case False
    with e have "map_of (qc_entries (qs_service s)) x = Some e"
      by (simp add: service set_entry_lookup del: map_of_eq_Some_iff)
    from qc_inv_entry[OF inv this] False others show ?thesis by simp
  qed
qed (use hist qc_inv_parts[OF inv] set_entry_wf[where f = f, OF _ code] in \<open>simp_all add: service set_entry_length\<close>)

lemma authorize_step_inv:
  assumes inv: "qc_inv s"
  shows "qc_inv (qc_exec users (Q_authorize now code_text user) s)"
proof (cases "authorize now code_text (qs_service s)")
  case (Pair r q)
  obtain fe q1 where f: "findByNormalizedCode now (normalizeCode code_text) (qs_service s) = (fe, q1)" by fastforce
  have sh: "shrinks q1 (qs_service s)"
    using findByNormalizedCode_shrinks(1)[OF qc_inv_parts(1)[OF inv], of now "normalizeCode code_text"] by (simp add: f)
  show ?thesis
  proof (cases r)
    case (Inl err)
    with Pair f have "q = q1" by (auto simp: authorize_def split: option.splits if_splits)
    with Inl Pair qc_inv_shrinks[OF inv sh] show ?thesis by simp
  next
    case (Inr secret)
    with Pair f obtain e where e: "fe = Some e" "qe_kind e = Device_pair" "qe_status e = Qc_pending" "\<not> qe_authorizing e"
        "secret = qe_secret e" "q = set_entry secret (\<lambda>e. e\<lparr>qe_authorizing := True\<rparr>) q1"
      by (auto simp: authorize_def split: option.splits if_splits)
    have q1: "q1 = qs_service s" and "\<exists>k. map_of (qc_entries (qs_service s)) k = Some e"
      using findByNormalizedCode_SomeD[OF f[unfolded e(1)] qc_inv_parts(1)[OF inv]] by blast+
    then obtain k where k: "map_of (qc_entries (qs_service s)) k = Some e" by blast
    with qc_inv_entry[OF inv k] e(5) have sec: "k = secret" and ok: "entry_ok s e" by auto
    let ?s = "s\<lparr>qs_service := q, qs_inflight := qs_inflight s @ [(secret, user)]\<rparr>"
    have known: "secret \<in> secrets (qs_created s)"
      using ok e(5) unfolding entry_ok_def origin_def by (metis image_eqI)
    have new: "secret \<notin> fst ` set (qs_inflight s)" "secret \<notin> fst ` set (qs_authorized s)"
      using ok e(2-5) by (simp_all add: entry_ok_def progress_def)
    have "list_all (session_ok ?s) (qs_sessions s)"
      using qc_inv_parts(3)[OF inv] by (simp add: history_ok_def list_all_iff session_ok_def cong: qc_kind.case_cong)
    with qc_inv_parts(3)[OF inv] known new have hist: "history_ok ?s" by (simp add: history_ok_def)
    have "qc_inv ?s"
    proof (rule moved_inv[OF inv hist])
      show "qs_service ?s = set_entry secret (\<lambda>e. e\<lparr>qe_authorizing := True\<rparr>) (qs_service s)" by (simp add: e(6) q1)
    next
      fix x
      assume "map_of (qc_entries (qs_service s)) secret = Some x" "qe_secret x = secret" "entry_ok s x"
      moreover have "x = e" using k sec calculation(1) by simp
      ultimately show "qe_secret (x\<lparr>qe_authorizing := True\<rparr>) = secret \<and> entry_ok ?s (x\<lparr>qe_authorizing := True\<rparr>)"
        using e by (auto simp: entry_ok_def origin_def progress_def)
    next
      fix x
      assume "qe_secret x \<noteq> secret" and x: "entry_ok s x"
      then show "entry_ok ?s x" by (intro entry_ok_mono[OF x]) auto
    qed simp
    with Pair Inr show ?thesis by simp
  qed
qed

lemma inflight_entry:
  assumes "history_ok s" and "map_of (qs_inflight s) k = Some user" and "entry_ok s e" and "qe_secret e = k"
  shows "qe_status e = Qc_pending \<and> qe_authorizing e \<and> qe_kind e = Device_pair"
proof -
  have k: "k \<in> fst ` set (qs_inflight s)" using assms(2) by (force dest: map_of_SomeD)
  with assms(1) have "k \<notin> fst ` set (qs_authorized s)" by (auto simp: history_ok_def)
  with k assms(3,4) show ?thesis
    by (cases "qe_status e") (force simp: entry_ok_def progress_def)+
qed

lemma session_ok_mono:
  assumes "session_ok s x" and "set (qs_created s) \<subseteq> set (qs_created s')" and "set (qs_authorized s) \<subseteq> set (qs_authorized s')"
  shows "session_ok s' x"
proof -
  obtain secret user at' where x: "x = (secret, user, at')" by (cases x)
  from assms(1) obtain e0 where e0: "e0 \<in> set (qs_created s)" "qe_secret e0 = secret" "at' < qe_createdAt e0 + EXPIRATION_MS"
      "case qe_kind e0 of Voucher \<Rightarrow> qe_userId e0 = Some user | Device_pair \<Rightarrow> (secret, user) \<in> set (qs_authorized s)"
    by (auto simp: session_ok_def x)
  have "case qe_kind e0 of Voucher \<Rightarrow> qe_userId e0 = Some user | Device_pair \<Rightarrow> (secret, user) \<in> set (qs_authorized s')"
    using e0(4) assms(3) by (cases "qe_kind e0") auto
  with e0 assms(2) show ?thesis unfolding session_ok_def x by blast
qed

lemma sessions_ok_mono:
  "history_ok s \<Longrightarrow> set (qs_created s) \<subseteq> set (qs_created s') \<Longrightarrow> set (qs_authorized s) \<subseteq> set (qs_authorized s') \<Longrightarrow>
     list_all (session_ok s') (qs_sessions s)"
  unfolding history_ok_def list_all_iff using session_ok_mono by metis

lemma issued_step_inv:
  assumes inv: "qc_inv s"
  shows "qc_inv (qc_exec users (Q_issued secret profile token cookies) s)"
proof (cases "map_of (qs_inflight s) secret")
  case None
  with inv show ?thesis by simp
next
  case (Some user)
  let ?f = "\<lambda>e. e\<lparr>qe_status := Qc_authenticated, qe_userId := Some user, qe_profileId := profile,
       qe_signedToken := Some token, qe_cookies := cookies\<rparr>"
  let ?s = "s\<lparr>qs_service := authorize_done secret user profile token cookies (qs_service s),
          qs_inflight := AList.delete secret (qs_inflight s), qs_authorized := qs_authorized s @ [(secret, user)]\<rparr>"
  have h: "history_ok s" by (rule qc_inv_parts[OF inv])
  have k: "secret \<in> fst ` set (qs_inflight s)" using Some by (force dest: map_of_SomeD)
  have left: "fst ` set (AList.delete secret (qs_inflight s)) = fst ` set (qs_inflight s) - {secret}"
    by (rule AList.delete_keys[THEN arg_cong[where f = set], simplified])
  have "list_all (session_ok ?s) (qs_sessions s)" by (rule sessions_ok_mono[OF h]) auto
  with h k have hist: "history_ok ?s"
    unfolding history_ok_def by (simp add: left) blast
  have "qc_inv ?s"
  proof (rule moved_inv[OF inv hist])
    show "qs_service ?s = set_entry secret ?f (qs_service s)" by (simp add: authorize_done_def)
  next
    fix x
    assume x: "map_of (qc_entries (qs_service s)) secret = Some x" "qe_secret x = secret" "entry_ok s x"
    from inflight_entry[OF h Some x(3,2)] have d: "qe_kind x = Device_pair" by simp
    obtain e0 where "origin s e0 x" using x(3) by (auto simp: entry_ok_def)
    then have "origin ?s e0 (?f x)" using d by (simp add: origin_def)
    moreover have "progress ?s (?f x)" using d x(2) by (simp add: progress_def)
    ultimately show "qe_secret (?f x) = secret \<and> entry_ok ?s (?f x)"
      using x unfolding entry_ok_def by auto
  next
    fix x
    assume "qe_secret x \<noteq> secret" and x: "entry_ok s x"
    then show "entry_ok ?s x" by (intro entry_ok_mono[OF x]) (auto simp: left)
  qed simp
  with Some show ?thesis by simp
qed

lemma issue_failed_step_inv:
  assumes inv: "qc_inv s"
  shows "qc_inv (qc_exec users (Q_issue_failed secret) s)"
proof (cases "map_of (qs_inflight s) secret")
  case None
  with inv show ?thesis by simp
next
  case (Some user)
  let ?s = "s\<lparr>qs_service := authorize_failed secret (qs_service s), qs_inflight := AList.delete secret (qs_inflight s)\<rparr>"
  have h: "history_ok s" by (rule qc_inv_parts[OF inv])
  have left: "fst ` set (AList.delete secret (qs_inflight s)) = fst ` set (qs_inflight s) - {secret}"
    by (rule AList.delete_keys[THEN arg_cong[where f = set], simplified])
  have "list_all (session_ok ?s) (qs_sessions s)" by (rule sessions_ok_mono[OF h]) auto
  with h have hist: "history_ok ?s"
    unfolding history_ok_def by (simp add: left) blast
  have "qc_inv ?s"
  proof (rule moved_inv[OF inv hist])
    show "qs_service ?s = set_entry secret (\<lambda>e. e\<lparr>qe_authorizing := False\<rparr>) (qs_service s)"
      by (simp add: authorize_failed_def)
  next
    fix x
    assume x: "map_of (qc_entries (qs_service s)) secret = Some x" "qe_secret x = secret" "entry_ok s x"
    from inflight_entry[OF h Some x(3,2)] have d: "qe_status x = Qc_pending" by simp
    obtain e0 where "origin s e0 x" using x(3) by (auto simp: entry_ok_def)
    then have "origin ?s e0 (x\<lparr>qe_authorizing := False\<rparr>)" by (simp add: origin_def)
    moreover have "progress ?s (x\<lparr>qe_authorizing := False\<rparr>)"
      using d x unfolding entry_ok_def progress_def by (simp add: left)
    ultimately show "qe_secret (x\<lparr>qe_authorizing := False\<rparr>) = secret \<and> entry_ok ?s (x\<lparr>qe_authorizing := False\<rparr>)"
      using x unfolding entry_ok_def by auto
  next
    fix x
    assume "qe_secret x \<noteq> secret" and x: "entry_ok s x"
    then show "entry_ok ?s x" by (intro entry_ok_mono[OF x]) (auto simp: left)
  qed simp
  with Some show ?thesis by simp
qed

text \<open>The entry of a session is gone when the session is given.\<close>

lemma session_inv:
  assumes inv: "qc_inv s" and e: "map_of (qc_entries (qs_service s)) k = Some e" and time: "now < qe_expiresAt e"
    and user: "case qe_kind e of Voucher \<Rightarrow> qe_userId e = Some u | Device_pair \<Rightarrow> (k, u) \<in> set (qs_authorized s)"
  shows "qc_inv (s\<lparr>qs_service := removeEntry k (qs_service s), qs_sessions := qs_sessions s @ [(k, u, now)]\<rparr>)"
    (is "qc_inv ?s")
proof -
  have h: "history_ok s" by (rule qc_inv_parts[OF inv])
  have ok: "qe_secret e = k" "entry_ok s e" using qc_inv_entry[OF inv e] by simp_all
  then obtain e0 where e0: "origin s e0 e" and new: "k \<notin> fst ` set (qs_sessions s)" by (auto simp: entry_ok_def)
  have "session_ok ?s (k, u, now)"
    unfolding session_ok_def using e0 ok(1) time user
    by (auto simp: origin_def intro!: bexI[of _ e0] split: qc_kind.splits)
  moreover have "list_all (session_ok ?s) (qs_sessions s)" by (rule sessions_ok_mono[OF h]) auto
  moreover have "k \<in> secrets (qs_created s)" using e0 ok(1) unfolding origin_def by (metis image_eqI)
  ultimately have hist: "history_ok ?s" using h new by (simp add: history_ok_def)
  have sh: "shrinks (removeEntry k (qs_service s)) (qs_service s)"
    by (rule removeEntry_shrinks[OF qc_inv_parts(1)[OF inv]])
  show ?thesis
  proof (rule qc_invI)
    fix x y
    assume y: "map_of (qc_entries (qs_service ?s)) x = Some y"
    then have "x \<noteq> k" and "map_of (qc_entries (qs_service s)) x = Some y"
      by (auto simp: removeEntry_entries map_of_delete_eq simp del: map_of_eq_Some_iff split: if_splits)
    with qc_inv_entry[OF inv] have y: "qe_secret y = x" "entry_ok s y" by auto
    with \<open>x \<noteq> k\<close> have "entry_ok ?s y" by (intro entry_ok_mono[OF y(2)]) auto
    with y show "qe_secret y = x \<and> entry_ok ?s y" by simp
  next
    show "length (qc_entries (qs_service ?s)) \<le> MAX_PENDING_ENTRIES"
      using sh qc_inv_parts(2)[OF inv] by (simp add: shrinks_def)
  qed (use hist shrinks_wf[OF sh] in simp_all)
qed

lemma check_step_inv:
  assumes inv: "qc_inv s"
  shows "qc_inv (qc_exec users (Q_check now secret native) s)"
proof (cases "\<exists>e. map_of (qc_entries (qs_service s)) secret = Some e \<and> now < qe_expiresAt e \<and> qe_status e = Qc_authenticated")
  case False
  then have "check users native now secret (qs_service s) =
      (Throw (DomainError Not_found ''quick_connect.session_expired''), qs_service s) \<or>
      check users native now secret (qs_service s) = (Return Not_yet, qs_service s)"
  proof (cases "map_of (qc_entries (qs_service s)) secret")
    case (Some e)
    with False have "qe_expiresAt e \<le> now \<or> qe_status e = Qc_pending" by (cases "qe_status e") auto
    with Some show ?thesis by (auto simp: check_def isExpired_def)
  qed (simp add: check_def)
  with inv show ?thesis by auto
next
  case True
  then obtain e where e: "map_of (qc_entries (qs_service s)) secret = Some e" "now < qe_expiresAt e" "qe_status e = Qc_authenticated"
    by blast
  have "entry_ok s e" "qe_secret e = secret" using qc_inv_entry[OF inv e(1)] by simp_all
  with e(3) obtain u where u: "qe_userId e = Some u" "(secret, u) \<in> set (qs_authorized s)" "qe_kind e = Device_pair"
    by (auto simp: entry_ok_def progress_def)
  have gone: "qc_inv (s\<lparr>qs_service := removeEntry secret (qs_service s)\<rparr>)"
    by (rule qc_inv_shrinks[OF inv removeEntry_shrinks[OF qc_inv_parts(1)[OF inv]]])
  have given: "qc_inv (s\<lparr>qs_service := removeEntry secret (qs_service s), qs_sessions := qs_sessions s @ [(secret, u, now)]\<rparr>)"
    by (rule session_inv[OF inv e(1,2)]) (simp add: u)
  show ?thesis
    using e u gone given
    by (simp add: check_def isExpired_def qc_truthy_def Let_def del: map_of_eq_Some_iff)
qed

lemma redeem_step_inv:
  assumes inv: "qc_inv s"
  shows "qc_inv (qc_exec users (Q_redeem now code_text) s)"
proof (cases "redeem now code_text (qs_service s)")
  case (Pair r q)
  obtain fe q1 where f: "findByNormalizedCode now (normalizeCode code_text) (qs_service s) = (fe, q1)" by fastforce
  have sh: "shrinks q1 (qs_service s)"
    using findByNormalizedCode_shrinks(1)[OF qc_inv_parts(1)[OF inv], of now "normalizeCode code_text"] by (simp add: f)
  show ?thesis
  proof (cases r)
    case (Inl err)
    with Pair f have "q = q1" by (auto simp: redeem_def split: option.splits if_splits)
    with Inl Pair qc_inv_shrinks[OF inv sh] show ?thesis by simp
  next
    case (Inr e)
    with Pair f have e: "fe = Some e" "qe_kind e = Voucher" "qc_truthy (qe_userId e) \<noteq> None" "q = removeEntry (qe_secret e) q1"
      by (auto simp: redeem_def split: option.splits if_splits)
    have q1: "q1 = qs_service s" and t: "now < qe_expiresAt e" and "\<exists>k. map_of (qc_entries (qs_service s)) k = Some e"
      using findByNormalizedCode_SomeD[OF f[unfolded e(1)] qc_inv_parts(1)[OF inv]] by blast+
    then obtain k where k: "map_of (qc_entries (qs_service s)) k = Some e" by blast
    have "qe_secret e = k" using qc_inv_entry[OF inv k] by simp
    moreover have "qe_userId e = Some (the (qc_truthy (qe_userId e)))"
      using e(3) by (auto simp: qc_truthy_def split: option.splits if_splits)
    ultimately have "qc_inv (s\<lparr>qs_service := q, qs_sessions := qs_sessions s @ [(qe_secret e, the (qc_truthy (qe_userId e)), now)]\<rparr>)"
      using session_inv[OF inv k t, of "the (qc_truthy (qe_userId e))"] e(2,4) q1 by simp
    with Pair Inr show ?thesis by simp
  qed
qed

lemma create_step_inv:
  assumes inv: "qc_inv s" and fresh: "fresh_secret secret s"
  shows "qc_inv (create_step now draws secret kind owner s)"
proof -
  let ?q = "qc_evict_oldest (cleanupExpired now (qs_service s))"
  obtain r q1 where g: "generateCode now draws ?q = (r, q1)" by fastforce
  have wf: "qc_wf (qs_service s)" and bound: "length (qc_entries (qs_service s)) \<le> MAX_PENDING_ENTRIES"
    by (rule qc_inv_parts[OF inv])+
  have c: "shrinks (cleanupExpired now (qs_service s)) (qs_service s)" by (rule cleanupExpired_shrinks[OF wf])
  have d: "shrinks q1 ?q"
    using draw_code_shrinks[OF shrinks_wf[OF qc_evict_oldest_shrinks[OF shrinks_wf[OF c]]], of now "take 20 draws"] g
    by (simp add: generateCode_def)
  have sh: "shrinks q1 (qs_service s)"
    by (rule shrinks_trans[OF d shrinks_trans[OF qc_evict_oldest_shrinks[OF shrinks_wf[OF c]] c]])
  have "length (qc_entries ?q) < MAX_PENDING_ENTRIES"
    using qc_evict_oldest_room[OF shrinks_wf[OF c]] c bound by (simp add: shrinks_def)
  with d have room: "length (qc_entries q1) < MAX_PENDING_ENTRIES" by (simp add: shrinks_def)
  show ?thesis
  proof (cases r)
    case (Inl err)
    with g qc_inv_shrinks[OF inv sh] show ?thesis by (simp add: create_step_def createPendingEntry_def)
  next
    case (Inr c)
    have "qc_inv (s\<lparr>qs_service := q1\<lparr>qc_entries := AList.update secret (new_entry now c secret kind owner) (qc_entries q1),
         qc_entriesByCode := AList.update (qe_normalizedCode (new_entry now c secret kind owner)) secret (qc_entriesByCode q1)\<rparr>,
       qs_created := qs_created s @ [new_entry now c secret kind owner]\<rparr>)"
      using created_inv[OF inv sh room, of "new_entry now c secret kind owner"] fresh by (simp add: new_entry_def)
    with g Inr show ?thesis by (simp add: create_step_def createPendingEntry_def Let_def)
  qed
qed

lemma qc_exec_inv:
  assumes "qc_inv s" and "qc_admissible s e"
  shows "qc_inv (qc_exec users e s)"
proof (cases e)
  case (Q_initiate now draws secret)
  with assms create_step_inv[OF assms(1)] show ?thesis by simp
next
  case (Q_generate now draws secret owner)
  with assms create_step_inv[OF assms(1)] show ?thesis by simp
qed (use assms(1) check_step_inv authorize_step_inv issued_step_inv issue_failed_step_inv redeem_step_inv in \<open>simp_all only:\<close>)

lemma qc_reach_inv: "qc_reach users s \<Longrightarrow> qc_inv s"
proof (induction rule: qc_reach.induct)
  case start
  show ?case
    by (simp add: qc_inv_def qc_wf_def history_ok_def initial_system_def new_quick_connect_def)
next
  case (step s e)
  then show ?case by (simp add: qc_exec_inv)
qed

text \<open>
  C23. Whatever the order of creations, polls, authorizations and redemptions, a secret gives at
  most one session and is authorized at most once; every session is given before its code expires,
  to the user whose authorization completed or to the maker of the voucher; and the service holds
  at most 1000 entries.
\<close>

theorem one_session_per_secret:
  assumes "qc_reach users s"
  shows "distinct (map fst (qs_sessions s)) \<and> distinct (map fst (qs_authorized s)) \<and>
    list_all (session_ok s) (qs_sessions s) \<and> length (qc_entries (qs_service s)) \<le> MAX_PENDING_ENTRIES"
  using qc_reach_inv[OF assms] by (simp add: qc_inv_def history_ok_def)

definition paired_run :: qc_system where
  "paired_run = foldl (\<lambda>s e. qc_exec (\<lambda>u. True) e s) initial_system
     [Q_initiate 0 [''ABCDEFGH''] ''s1'', Q_authorize 5 '' abcd efgh'' ''ann'', Q_authorize 6 ''ABCD-EFGH'' ''bob'',
      Q_issued ''s1'' None ''tok'' [''c''], Q_check 10 ''s1'' True, Q_check 11 ''s1'' True]"

lemma paired_run_reach: "qc_reach (\<lambda>u. True) paired_run"
  unfolding paired_run_def foldl.simps
  by (rule qc_reach.step, rule qc_reach.step, rule qc_reach.step, rule qc_reach.step, rule qc_reach.step,
      rule qc_reach.step, rule qc_reach.start) code_simp+

theorem one_session_per_secret_witness:
  "qs_sessions paired_run = [(''s1'', ''ann'', 10)] \<and> list_all (session_ok paired_run) (qs_sessions paired_run)"
proof
  show "qs_sessions paired_run = [(''s1'', ''ann'', 10)]" by code_simp
  show "list_all (session_ok paired_run) (qs_sessions paired_run)"
    using one_session_per_secret[OF paired_run_reach] by blast
qed

text \<open>
  C24. The code a device shows is a drawn one with a dash. A device that gets a code and a user who types it in any letter case and with any
  separators are paired: the user's session is handed to the device by its secret, once, until
  then the device waits, and the code cannot be used again.
\<close>

theorem pairing_round_trip:
  assumes made: "createPendingEntry now draws secret Device_pair None q = (Return e, q1)"
    and wf: "qc_wf q" and good: "list_all good_draw draws"
    and typed: "normalizeCode typed = normalizeCode (qe_code e)"
    and times: "t1 < now + EXPIRATION_MS" "t2 < now + EXPIRATION_MS"
    and user: "users user" "user \<noteq> []"
  shows "(\<exists>raw \<in> set draws. qe_code e = take 4 raw @ ''-'' @ drop 4 raw \<and> normalizeCode (qe_code e) = raw) \<and>
    (\<exists>q2 q3. check users native t1 secret q1 = (Return Not_yet, q1) \<and>
    authorize t1 typed q1 = (Return secret, q2) \<and>
    authorize t1 typed q2 = (Throw (DomainError Validation ''quick_connect.code_already_used''), q2) \<and>
    check users native t2 secret (authorize_done secret user profile token cookies q2) =
      (Return (Handed_over user cookies (if native then qc_truthy (Some token) else None)), q3) \<and>
    fst (check users native t2 secret q3) = Throw (DomainError Not_found ''quick_connect.session_expired'') \<and>
    fst (authorize t2 typed q3) = Throw (DomainError Not_found ''quick_connect.code_invalid''))"
proof -
  obtain q0 c where g: "generateCode now draws (qc_evict_oldest (cleanupExpired now q)) = (Return c, q0)"
      and e: "e = new_entry now c secret Device_pair None"
      and q1: "q1 = q0\<lparr>qc_entries := AList.update secret e (qc_entries q0),
        qc_entriesByCode := AList.update (qe_normalizedCode e) secret (qc_entriesByCode q0)\<rparr>"
    using made by (auto simp: createPendingEntry_def Let_def split: prod.splits sum.splits)
  have wf': "qc_wf (qc_evict_oldest (cleanupExpired now q))"
    using wf by (meson cleanupExpired_shrinks qc_evict_oldest_shrinks shrinks_wf)
  from draw_code_Return[OF g[unfolded generateCode_def] wf'] obtain raw where
    raw: "raw \<in> set draws" "c = take 4 raw @ ''-'' @ drop 4 raw" by (meson in_set_takeD)
  with good have "normalizeCode c = raw" using normalizeCode_draw by (simp only: list_all_iff)
  with raw have drawn: "\<exists>raw \<in> set draws. qe_code e = take 4 raw @ ''-'' @ drop 4 raw \<and> normalizeCode (qe_code e) = raw"
    by (auto simp: e new_entry_def)
  define n where "n = normalizeCode c"
  have ec: "qe_code e = c" "qe_normalizedCode e = n" "qe_secret e = secret" "qe_kind e = Device_pair" "qe_status e = Qc_pending"
      "\<not> qe_authorizing e" "qe_expiresAt e = now + EXPIRATION_MS"
    by (simp_all add: e new_entry_def n_def)
  have t: "normalizeCode typed = n" using typed by (simp add: ec n_def)
  have look: "map_of (qc_entries q1) secret = Some e" "map_of (qc_entriesByCode q1) n = Some secret"
    by (simp_all add: q1 ec map_of_update)
  define e2 where "e2 = e\<lparr>qe_authorizing := True\<rparr>"
  define q2 where "q2 = set_entry secret (\<lambda>e. e\<lparr>qe_authorizing := True\<rparr>) q1"
  have look2: "map_of (qc_entries q2) secret = Some e2" "map_of (qc_entriesByCode q2) n = Some secret"
    by (simp_all add: q2_def set_entry_lookup look e2_def) (simp add: set_entry_def look)
  define e3 where "e3 = e2\<lparr>qe_status := Qc_authenticated, qe_userId := Some user, qe_profileId := profile,
       qe_signedToken := Some token, qe_cookies := cookies\<rparr>"
  define qd where "qd = authorize_done secret user profile token cookies q2"
  have lookd: "map_of (qc_entries qd) secret = Some e3" "map_of (qc_entriesByCode qd) n = Some secret"
    by (simp_all add: qd_def authorize_done_def set_entry_lookup look2 e3_def) (simp add: set_entry_def look2)
  have q3: "map_of (qc_entries (removeEntry secret qd)) secret = None"
      "map_of (qc_entriesByCode (removeEntry secret qd)) n = None"
    by (simp_all add: removeEntry_def lookd map_of_delete_eq e3_def e2_def ec)
  have "check users native t1 secret q1 = (Return Not_yet, q1)"
    using times by (simp add: check_def look isExpired_def ec)
  moreover have "authorize t1 typed q1 = (Return secret, q2)"
    using times by (simp add: authorize_def t findByNormalizedCode_def look isExpired_def ec q2_def)
  moreover have "authorize t1 typed q2 = (Throw (DomainError Validation ''quick_connect.code_already_used''), q2)"
    using times by (simp add: authorize_def t findByNormalizedCode_def look2 isExpired_def ec e2_def)
  moreover have "check users native t2 secret qd =
      (Return (Handed_over user cookies (if native then qc_truthy (Some token) else None)), removeEntry secret qd)"
    using times user by (simp add: check_def lookd isExpired_def ec e3_def e2_def qc_truthy_def Let_def)
  moreover have "fst (check users native t2 secret (removeEntry secret qd)) = Throw (DomainError Not_found ''quick_connect.session_expired'')"
    by (simp add: check_def q3)
  moreover have "fst (authorize t2 typed (removeEntry secret qd)) = Throw (DomainError Not_found ''quick_connect.code_invalid'')"
    by (simp add: authorize_def t findByNormalizedCode_def q3)
  ultimately show ?thesis using drawn unfolding qd_def by blast
qed

theorem pairing_round_trip_witness:
  "fst (authorize 5 ''ab cd-ef gh'' (snd (createPendingEntry 0 [''ABCDEFGH''] ''s1'' Device_pair None new_quick_connect))) =
     Return ''s1''"
proof -
  obtain e where e: "createPendingEntry 0 [''ABCDEFGH''] ''s1'' Device_pair None new_quick_connect =
      (Return e, snd (createPendingEntry 0 [''ABCDEFGH''] ''s1'' Device_pair None new_quick_connect))"
    and c: "normalizeCode ''ab cd-ef gh'' = normalizeCode (qe_code e)"
    by (rule that[of "new_entry 0 ''ABCD-EFGH'' ''s1'' Device_pair None"]) code_simp+
  have "qc_wf new_quick_connect" by (simp add: qc_wf_def new_quick_connect_def)
  moreover have "list_all good_draw [''ABCDEFGH'']" by code_simp
  moreover have "(5::int) < 0 + EXPIRATION_MS" "(9::int) < 0 + EXPIRATION_MS" by (simp_all add: EXPIRATION_MS_def)
  ultimately show ?thesis
    using pairing_round_trip[OF e _ _ c, of 5 9 "\<lambda>u. True" "''ann''" True None "''tok''" "[''c'']"] by auto
qed

end
