(* ===== verification/Settling.thy ===== *)
theory Settling
  imports Prelude
begin

section \<open>Systems that settle\<close>

text \<open>
  The contract the asynchronous parts share. The \<open>step\<close>s are the ones the runtime takes by
  itself (a timer fires, a waiting call goes on, a running task ends); each uses up some of a finite
  amount of \<open>work\<close>, and a state from which none is left is \<open>quiet\<close>. Liveness
  is then: however the steps are interleaved, they end after at most \<open>work\<close> steps in a
  quiet state.
\<close>

locale settling =
  fixes step :: "'s \<Rightarrow> 's \<Rightarrow> bool"
    and invar :: "'s \<Rightarrow> bool"
    and work :: "'s \<Rightarrow> nat"
    and quiet :: "'s \<Rightarrow> bool"
  assumes invar_step: "invar s \<Longrightarrow> step s t \<Longrightarrow> invar t"
    and work_less: "invar s \<Longrightarrow> step s t \<Longrightarrow> work t < work s"
    and step_or_quiet: "invar s \<Longrightarrow> \<not> quiet s \<Longrightarrow> \<exists>t. step s t"
begin

lemma invar_steps: "(step ^^ n) s t \<Longrightarrow> invar s \<Longrightarrow> invar t"
proof (induction n arbitrary: t)
  case (Suc n)
  then show ?case by (auto intro: invar_step)
qed simp

lemma steps_bounded: "(step ^^ n) s t \<Longrightarrow> invar s \<Longrightarrow> n + work t \<le> work s"
proof (induction n arbitrary: t)
  case (Suc n)
  then obtain u where u: "(step ^^ n) s u" "step u t" by auto
  have "work t < work u" using work_less[OF invar_steps[OF u(1)]] Suc.prems u(2) by blast
  with Suc.IH[OF u(1)] Suc.prems show ?case by linarith
qed simp

lemma stuck_is_quiet: "(step ^^ n) s t \<Longrightarrow> invar s \<Longrightarrow> (\<nexists>u. step t u) \<Longrightarrow> quiet t"
  using invar_steps step_or_quiet by blast

lemma settles: "invar s \<Longrightarrow> \<exists>n t. (step ^^ n) s t \<and> (\<nexists>u. step t u) \<and> quiet t"
proof (induction "work s" arbitrary: s rule: less_induct)
  case less
  show ?case
  proof (cases "\<exists>u. step s u")
    case True
    then obtain u where u: "step s u" by blast
    from less.hyps[OF work_less[OF less.prems u] invar_step[OF less.prems u]]
    obtain n t where "(step ^^ n) u t \<and> (\<nexists>v. step t v) \<and> quiet t" by blast
    with u have "(step ^^ Suc n) s t \<and> (\<nexists>v. step t v) \<and> quiet t" by (metis relpowp_Suc_I2)
    then show ?thesis by blast
  next
    case False
    then show ?thesis using step_or_quiet[OF less.prems] by (metis relpowp_0_I)
  qed
qed

end

end
