(* ===== verification/Keyed_Mutex.thy ===== *)
theory Keyed_Mutex
  imports Settling
begin

section \<open>Per-key serialisation\<close>

text \<open>
  \<^verbatim>\<open>utils/concurrency.utils.ts\<close>: \<^verbatim>\<open>KeyedMutex\<close>. A call of
  \<^verbatim>\<open>runExclusive\<close> is a section, named by its arrival; \<^verbatim>\<open>tails\<close> maps a key to
  the section whose \<^verbatim>\<open>chain\<close> promise the next caller waits for. That promise settles when
  the section's gate is open and the chain before it has settled. The three steps of a section are
  the parts of \<^verbatim>\<open>runExclusive\<close> between its waits.
\<close>

datatype phase = Waiting | Running | Done

record csection =
  sc_key :: string
  sc_previous :: "nat option"
  sc_phase :: phase

record mutex =
  mx_sections :: "csection list"
  mx_tails :: "(string, nat) jsmap"

definition new_mutex :: mutex where
  "new_mutex = \<lparr>mx_sections = [], mx_tails = []\<rparr>"

definition enter :: "string \<Rightarrow> mutex \<Rightarrow> nat \<times> mutex" where
  "enter key m =
     (let t = length (mx_sections m);
          sec = \<lparr>sc_key = key, sc_previous = map_of (mx_tails m) key, sc_phase = Waiting\<rparr>
      in (t, \<lparr>mx_sections = mx_sections m @ [sec], mx_tails = AList.update key t (mx_tails m)\<rparr>))"

text \<open>A section waits for an earlier one only, which is what the guard says.\<close>

fun tail_settled :: "csection list \<Rightarrow> nat \<Rightarrow> bool" where
  "tail_settled secs t =
     (t < length secs \<and> sc_phase (secs ! t) = Done \<and>
      (case sc_previous (secs ! t) of None \<Rightarrow> True | Some p \<Rightarrow> if p < t then tail_settled secs p else False))"

declare tail_settled.simps [simp del]

definition may_start :: "nat \<Rightarrow> mutex \<Rightarrow> bool" where
  "may_start t m \<longleftrightarrow> t < length (mx_sections m) \<and> sc_phase (mx_sections m ! t) = Waiting \<and>
     (case sc_previous (mx_sections m ! t) of None \<Rightarrow> True | Some p \<Rightarrow> tail_settled (mx_sections m) p)"

definition may_finish :: "nat \<Rightarrow> mutex \<Rightarrow> bool" where
  "may_finish t m \<longleftrightarrow> t < length (mx_sections m) \<and> sc_phase (mx_sections m ! t) = Running"

definition set_phase :: "nat \<Rightarrow> phase \<Rightarrow> mutex \<Rightarrow> mutex" where
  "set_phase t p m = m\<lparr>mx_sections := (mx_sections m)[t := (mx_sections m ! t)\<lparr>sc_phase := p\<rparr>]\<rparr>"

definition start_section :: "nat \<Rightarrow> mutex \<Rightarrow> mutex" where
  "start_section t m = set_phase t Running m"

text \<open>The \<^verbatim>\<open>finally\<close> block, after a result and after a failure alike.\<close>

definition finish_section :: "nat \<Rightarrow> mutex \<Rightarrow> mutex" where
  "finish_section t m =
     (let key = sc_key (mx_sections m ! t); m1 = set_phase t Done m in
      if map_of (mx_tails m1) key = Some t then m1\<lparr>mx_tails := AList.delete key (mx_tails m1)\<rparr> else m1)"

definition forget :: "string \<Rightarrow> mutex \<Rightarrow> mutex" where
  "forget key m = m\<lparr>mx_tails := AList.delete key (mx_tails m)\<rparr>"

inductive mutex_step :: "mutex \<Rightarrow> mutex \<Rightarrow> bool" where
  starts: "may_start t m \<Longrightarrow> mutex_step m (start_section t m)"
| finishes: "may_finish t m \<Longrightarrow> mutex_step m (finish_section t m)"

text \<open>Runs, with the keys that were forgotten on the way.\<close>

inductive mutex_reach :: "string set \<Rightarrow> mutex \<Rightarrow> bool" where
  start: "mutex_reach {} new_mutex"
| enters: "mutex_reach F m \<Longrightarrow> mutex_reach F (snd (enter key m))"
| steps: "mutex_reach F m \<Longrightarrow> mutex_step m m' \<Longrightarrow> mutex_reach F m'"
| forgets: "mutex_reach F m \<Longrightarrow> mutex_reach (insert key F) (forget key m)"

inductive_cases mutex_stepE [elim!]: "mutex_step m m'"

subsection \<open>The sections of a key\<close>

abbreviation sec :: "mutex \<Rightarrow> nat \<Rightarrow> csection" where
  "sec m t \<equiv> mx_sections m ! t"

abbreviation n_sections :: "mutex \<Rightarrow> nat" where
  "n_sections m \<equiv> length (mx_sections m)"

text \<open>What holds of every lock, forgotten or not.\<close>

definition linked :: "mutex \<Rightarrow> bool" where
  "linked m \<longleftrightarrow> wf_map (mx_tails m) \<and>
     (\<forall>k t. map_of (mx_tails m) k = Some t \<longrightarrow>
        t < n_sections m \<and> sc_key (sec m t) = k \<and> sc_phase (sec m t) \<noteq> Done \<and>
        (\<forall>u < n_sections m. t < u \<longrightarrow> sc_key (sec m u) \<noteq> k)) \<and>
     (\<forall>t < n_sections m. \<forall>p. sc_previous (sec m t) = Some p \<longrightarrow>
        p < t \<and> sc_key (sec m p) = sc_key (sec m t) \<and> (sc_phase (sec m t) \<noteq> Waiting \<longrightarrow> sc_phase (sec m p) = Done))"

text \<open>What holds of a key that was never forgotten: the chain of its sections has no gap.\<close>

definition no_gap :: "mutex \<Rightarrow> string \<Rightarrow> nat \<Rightarrow> bool" where
  "no_gap m k t \<longleftrightarrow>
     (sc_previous (sec m t) = None \<longrightarrow> (\<forall>u < t. sc_key (sec m u) = k \<longrightarrow> sc_phase (sec m u) = Done)) \<and>
     (\<forall>p. sc_previous (sec m t) = Some p \<longrightarrow> (\<forall>u. p < u \<and> u < t \<longrightarrow> sc_key (sec m u) \<noteq> k))"

definition chained :: "mutex \<Rightarrow> string \<Rightarrow> bool" where
  "chained m k \<longleftrightarrow>
     (map_of (mx_tails m) k = None \<longrightarrow> (\<forall>t < n_sections m. sc_key (sec m t) = k \<longrightarrow> sc_phase (sec m t) = Done)) \<and>
     (\<forall>t < n_sections m. sc_key (sec m t) = k \<longrightarrow> no_gap m k t)"

lemma linkedD:
  assumes "linked m"
  shows "wf_map (mx_tails m)"
    and "map_of (mx_tails m) k = Some t \<Longrightarrow> t < n_sections m \<and> sc_key (sec m t) = k \<and> sc_phase (sec m t) \<noteq> Done"
    and "map_of (mx_tails m) k = Some t \<Longrightarrow> u < n_sections m \<Longrightarrow> t < u \<Longrightarrow> sc_key (sec m u) \<noteq> k"
    and "t < n_sections m \<Longrightarrow> sc_previous (sec m t) = Some p \<Longrightarrow> p < t \<and> sc_key (sec m p) = sc_key (sec m t)"
    and "t < n_sections m \<Longrightarrow> sc_previous (sec m t) = Some p \<Longrightarrow> sc_phase (sec m t) \<noteq> Waiting \<Longrightarrow> sc_phase (sec m p) = Done"
  using assms unfolding linked_def by blast+

text \<open>A tail has settled exactly when its own section is over.\<close>

lemma tail_settled_iff:
  assumes l: "linked m"
  shows "tail_settled (mx_sections m) t \<longleftrightarrow> t < n_sections m \<and> sc_phase (sec m t) = Done"
proof (induction t rule: less_induct)
  case (less t)
  show ?case
  proof (cases "t < n_sections m \<and> sc_phase (sec m t) = Done")
    case True
    have "p < t \<and> tail_settled (mx_sections m) p" if "sc_previous (sec m t) = Some p" for p
    proof -
      have p: "p < t" "sc_phase (sec m p) = Done" using linkedD(4,5)[OF l, of t p] True that by simp_all
      with True less.IH[OF p(1)] show ?thesis by simp
    qed
    with True show ?thesis by (subst tail_settled.simps) (auto split: option.split)
  next
    case False
    then show ?thesis by (subst tail_settled.simps) blast
  qed
qed

lemma may_start_iff:
  assumes "linked m"
  shows "may_start t m \<longleftrightarrow> t < n_sections m \<and> sc_phase (sec m t) = Waiting \<and>
    (\<forall>p. sc_previous (sec m t) = Some p \<longrightarrow> sc_phase (sec m p) = Done)"
  using linkedD(4)[OF assms, of t]
  by (fastforce simp: may_start_def tail_settled_iff[OF assms] split: option.split)

lemma set_phase_sections [simp]:
  "n_sections (set_phase t p m) = n_sections m"
  "u < n_sections m \<Longrightarrow> sec (set_phase t p m) u = (if u = t then (sec m t)\<lparr>sc_phase := p\<rparr> else sec m u)"
  "mx_tails (set_phase t p m) = mx_tails m"
  by (simp_all add: set_phase_def nth_list_update)

lemma finish_section_sections:
  "mx_sections (finish_section t m) = mx_sections (set_phase t Done m)"
  "mx_tails (finish_section t m) =
     (if map_of (mx_tails m) (sc_key (sec m t)) = Some t then AList.delete (sc_key (sec m t)) (mx_tails m) else mx_tails m)"
  by (simp_all add: finish_section_def Let_def)

lemma enter_sections:
  "n_sections (snd (enter k m)) = Suc (n_sections m)"
  "u < n_sections m \<Longrightarrow> sec (snd (enter k m)) u = sec m u"
  "sec (snd (enter k m)) (n_sections m) = \<lparr>sc_key = k, sc_previous = map_of (mx_tails m) k, sc_phase = Waiting\<rparr>"
  "mx_tails (snd (enter k m)) = AList.update k (n_sections m) (mx_tails m)"
  by (simp_all add: enter_def Let_def nth_append)

subsection \<open>The laws of the lock\<close>

lemma linked_new: "linked new_mutex"
  by (simp add: linked_def new_mutex_def)

lemma linked_enter:
  assumes l: "linked m"
  shows "linked (snd (enter k m))"
proof -
  let ?m = "snd (enter k m)"
  have new: "sec ?m t = (if t < n_sections m then sec m t else \<lparr>sc_key = k, sc_previous = map_of (mx_tails m) k, sc_phase = Waiting\<rparr>)"
    if "t < n_sections ?m" for t
    using that by (auto simp: enter_sections less_Suc_eq)
  have "wf_map (mx_tails ?m)" using linkedD(1)[OF l] by (simp add: enter_sections)
  moreover have "t < n_sections ?m \<and> sc_key (sec ?m t) = x \<and> sc_phase (sec ?m t) \<noteq> Done \<and>
      (\<forall>u < n_sections ?m. t < u \<longrightarrow> sc_key (sec ?m u) \<noteq> x)" if "map_of (mx_tails ?m) x = Some t" for x t
  proof (cases "x = k")
    case True
    with that have "t = n_sections m" by (simp add: enter_sections map_of_update)
    with True show ?thesis using enter_sections(3)[of k m] by (simp add: enter_sections(1))
  next
    case False
    with that have x: "map_of (mx_tails m) x = Some t" by (simp add: enter_sections map_of_update)
    then have t: "t < n_sections m" using linkedD(2)[OF l] by blast
    with linkedD(2,3)[OF l x] False show ?thesis
      by (auto simp: new enter_sections less_Suc_eq)
  qed
  moreover have "p < t \<and> sc_key (sec ?m p) = sc_key (sec ?m t) \<and> (sc_phase (sec ?m t) \<noteq> Waiting \<longrightarrow> sc_phase (sec ?m p) = Done)"
    if t: "t < n_sections ?m" and p: "sc_previous (sec ?m t) = Some p" for t p
  proof (cases "t < n_sections m")
    case True
    with p have p': "sc_previous (sec m t) = Some p" by (simp add: enter_sections)
    with linkedD(4,5)[OF l True p'] True show ?thesis by (auto simp: enter_sections)
  next
    case False
    with t p have "t = n_sections m" "map_of (mx_tails m) k = Some p" by (simp_all add: enter_sections less_Suc_eq)
    with linkedD(2)[OF l] show ?thesis by (simp add: enter_sections)
  qed
  ultimately show ?thesis unfolding linked_def by blast
qed

lemma linked_forget: "linked m \<Longrightarrow> linked (forget k m)"
  unfolding linked_def forget_def by (simp add: map_of_delete_eq)

text \<open>A section moves on: it may when the one before it is over.\<close>

lemma linked_move:
  assumes l: "linked m" and t: "t < n_sections m" "sc_phase (sec m t) \<noteq> Done"
    and prev: "\<And>p. sc_previous (sec m t) = Some p \<Longrightarrow> sc_phase (sec m p) = Done"
    and secs: "mx_sections m' = mx_sections (set_phase t ph m)"
    and tails: "wf_map (mx_tails m')" "\<And>k u. map_of (mx_tails m') k = Some u \<Longrightarrow> map_of (mx_tails m) k = Some u \<and> (u = t \<longrightarrow> ph \<noteq> Done)"
  shows "linked m'"
proof -
  have n: "n_sections m' = n_sections m" using secs by simp
  have at: "sc_key (sec m' u) = sc_key (sec m u)" "sc_previous (sec m' u) = sc_previous (sec m u)"
      "sc_phase (sec m' u) = (if u = t then ph else sc_phase (sec m u))" if "u < n_sections m" for u
    using that secs by simp_all
  have one: "u < n_sections m' \<and> sc_key (sec m' u) = k \<and> sc_phase (sec m' u) \<noteq> Done \<and>
      (\<forall>v < n_sections m'. u < v \<longrightarrow> sc_key (sec m' v) \<noteq> k)" if "map_of (mx_tails m') k = Some u" for k u
  proof -
    from tails(2)[OF that] have old: "map_of (mx_tails m) k = Some u" and ph: "u = t \<longrightarrow> ph \<noteq> Done" by simp_all
    have "u < n_sections m" "sc_key (sec m u) = k" "sc_phase (sec m u) \<noteq> Done" using linkedD(2)[OF l old] by blast+
    with ph linkedD(3)[OF l old] show ?thesis by (simp add: at n)
  qed
  have two: "p < u \<and> sc_key (sec m' p) = sc_key (sec m' u) \<and> (sc_phase (sec m' u) \<noteq> Waiting \<longrightarrow> sc_phase (sec m' p) = Done)"
    if u: "u < n_sections m'" and p: "sc_previous (sec m' u) = Some p" for u p
  proof -
    have u': "u < n_sections m" and p': "sc_previous (sec m u) = Some p" using u p by (simp_all add: n at)
    note q = linkedD(4)[OF l u' p'] linkedD(5)[OF l u' p']
    have "sc_phase (sec m p) = Done" if "u = t" using prev p' that by simp
    with q t u' show ?thesis by (auto simp: at)
  qed
  from one two tails(1) show ?thesis unfolding linked_def by blast
qed

lemma linked_start:
  assumes l: "linked m" and s: "may_start t m"
  shows "linked (start_section t m)"
proof (rule linked_move[OF l])
  show "t < n_sections m" "sc_phase (sec m t) \<noteq> Done"
    and "sc_previous (sec m t) = Some p \<Longrightarrow> sc_phase (sec m p) = Done" for p
    using s by (simp_all add: may_start_iff[OF l])
  show "map_of (mx_tails m) k = Some u \<and> (u = t \<longrightarrow> Running \<noteq> Done)" if "map_of (mx_tails (start_section t m)) k = Some u" for k u
    using that by (simp add: start_section_def del: map_of_eq_Some_iff)
qed (use linkedD(1)[OF l] in \<open>simp_all add: start_section_def\<close>)

lemma linked_finish:
  assumes l: "linked m" and f: "may_finish t m"
  shows "linked (finish_section t m)"
proof (rule linked_move[OF l])
  show t: "t < n_sections m" "sc_phase (sec m t) \<noteq> Done" using f by (simp_all add: may_finish_def)
  show "sc_previous (sec m t) = Some p \<Longrightarrow> sc_phase (sec m p) = Done" for p
    using linkedD(5)[OF l t(1)] f by (simp add: may_finish_def)
  show "mx_sections (finish_section t m) = mx_sections (set_phase t Done m)" by (simp add: finish_section_sections)
  show "wf_map (mx_tails (finish_section t m))" using linkedD(1)[OF l] by (simp add: finish_section_sections)
  show "map_of (mx_tails m) k = Some u \<and> (u = t \<longrightarrow> Done \<noteq> Done)" if "map_of (mx_tails (finish_section t m)) k = Some u" for k u
    using that linkedD(2)[OF l, of k u] by (auto simp: finish_section_sections map_of_delete_eq split: if_splits)
qed

text \<open>Sections of a key run one at a time, in the order of their arrival.\<close>

lemma chained_serial:
  assumes l: "linked m" and c: "chained m k"
  shows "t < n_sections m \<Longrightarrow> sc_key (sec m t) = k \<Longrightarrow> sc_phase (sec m t) \<noteq> Waiting \<Longrightarrow>
    u < t \<Longrightarrow> sc_key (sec m u) = k \<Longrightarrow> sc_phase (sec m u) = Done"
proof (induction t arbitrary: u rule: less_induct)
  case (less t)
  have link: "no_gap m k t" using c less.prems unfolding chained_def by blast
  show ?case
  proof (cases "sc_previous (sec m t)")
    case None
    with link less.prems show ?thesis by (simp add: no_gap_def)
  next
    case (Some p)
    have p: "p < t" "sc_key (sec m p) = k" "sc_phase (sec m p) = Done"
      using linkedD(4,5)[OF l less.prems(1) Some] less.prems by auto
    have "\<not> p < u" using link Some less.prems by (auto simp: no_gap_def)
    then consider "u = p" | "u < p" by linarith
    then show ?thesis
    proof cases
      case 1
      with p show ?thesis by simp
    next
      case 2
      show ?thesis by (rule less.IH[OF p(1)]) (use p less.prems 2 in simp_all)
    qed
  qed
qed

lemma chained_enter:
  assumes l: "linked m" and c: "chained m k"
  shows "chained (snd (enter k' m)) k"
proof -
  let ?m = "snd (enter k' m)"
  have none: "sc_phase (sec ?m t) = Done"
    if "map_of (mx_tails ?m) k = None" "t < n_sections ?m" "sc_key (sec ?m t) = k" for t
  proof -
    from that(1) have k: "k \<noteq> k'" "map_of (mx_tails m) k = None" by (simp_all add: enter_sections map_of_update split: if_splits)
    with that(2,3) have "t < n_sections m" "sc_key (sec m t) = k"
      using enter_sections(3)[of k' m] by (auto simp: enter_sections(1,2) less_Suc_eq)
    with c k show ?thesis unfolding chained_def by (simp add: enter_sections)
  qed
  have link: "no_gap ?m k t" if t: "t < n_sections ?m" and key: "sc_key (sec ?m t) = k" for t
  proof (cases "t < n_sections m")
    case True
    then have "sc_key (sec m t) = k" using key by (simp add: enter_sections(2))
    with c True have "no_gap m k t" unfolding chained_def by blast
    with True show ?thesis unfolding no_gap_def by (simp add: enter_sections(2))
  next
    case False
    then have new: "t = n_sections m" using t by (simp add: enter_sections)
    with key have k: "k = k'" using enter_sections(3)[of k' m] by simp
    show ?thesis
    proof (cases "map_of (mx_tails m) k")
      case None
      with c have "\<forall>u < t. sc_key (sec m u) = k \<longrightarrow> sc_phase (sec m u) = Done" by (simp add: chained_def new)
      with None show ?thesis using enter_sections(3)[of k' m] by (simp add: no_gap_def new k enter_sections(2))
    next
      case (Some p)
      with linkedD(3)[OF l Some] show ?thesis using enter_sections(3)[of k' m] by (simp add: no_gap_def new k enter_sections(2))
    qed
  qed
  from none link show ?thesis unfolding chained_def by blast
qed

lemma chained_move:
  assumes c: "chained m k" and t: "t < n_sections m" "sc_phase (sec m t) \<noteq> Done"
    and secs: "mx_sections m' = mx_sections (set_phase t ph m)"
    and none: "map_of (mx_tails m') k = None \<Longrightarrow>
      map_of (mx_tails m) k = None \<or> (\<forall>u < n_sections m'. sc_key (sec m' u) = k \<longrightarrow> sc_phase (sec m' u) = Done)"
  shows "chained m' k"
proof -
  have n: "n_sections m' = n_sections m" using secs by simp
  have at: "sc_key (sec m' u) = sc_key (sec m u)" "sc_previous (sec m' u) = sc_previous (sec m u)"
    if "u < n_sections m" for u
    using that secs by simp_all
  have still: "sc_phase (sec m' u) = Done" if "u < n_sections m" "sc_phase (sec m u) = Done" for u
    using that secs t by auto
  have "sc_phase (sec m' u) = Done"
    if "map_of (mx_tails m') k = None" "u < n_sections m'" "sc_key (sec m' u) = k" for u
    using none[OF that(1)] c that(2,3) still by (auto simp: chained_def n at)
  moreover have "no_gap m' k u" if u: "u < n_sections m'" and key: "sc_key (sec m' u) = k" for u
  proof -
    have "no_gap m k u" using c u key by (simp add: chained_def n at)
    with u show ?thesis unfolding no_gap_def by (simp add: n at still)
  qed
  ultimately show ?thesis unfolding chained_def by blast
qed

lemma chained_start:
  assumes "linked m" and "chained m k" and "may_start t m"
  shows "chained (start_section t m) k"
  using assms(3)[unfolded may_start_iff[OF assms(1)]]
  by (intro chained_move[OF assms(2), of t]) (auto simp: start_section_def)

lemma chained_finish:
  assumes l: "linked m" and c: "chained m k" and f: "may_finish t m"
  shows "chained (finish_section t m) k"
proof (rule chained_move[OF c])
  show t: "t < n_sections m" "sc_phase (sec m t) \<noteq> Done" using f by (simp_all add: may_finish_def)
  show "mx_sections (finish_section t m) = mx_sections (set_phase t Done m)" by (simp add: finish_section_sections)
  assume gone: "map_of (mx_tails (finish_section t m)) k = None"
  show "map_of (mx_tails m) k = None \<or>
    (\<forall>u < n_sections (finish_section t m). sc_key (sec (finish_section t m) u) = k \<longrightarrow> sc_phase (sec (finish_section t m) u) = Done)"
  proof (cases "map_of (mx_tails m) k")
    case (Some u)
    with gone have last: "map_of (mx_tails m) k = Some t" "sc_key (sec m t) = k"
      by (auto simp: finish_section_sections map_of_delete_eq split: if_splits)
    have "sc_phase (sec m u) = Done" if "u < n_sections m" "sc_key (sec m u) = k" "u \<noteq> t" for u
    proof (cases "u < t")
      case True
      then show ?thesis using chained_serial[OF l c t(1) last(2) _ True that(2)] f by (simp add: may_finish_def)
    next
      case False
      with that linkedD(3)[OF l last(1) that(1)] show ?thesis by simp
    qed
    then show ?thesis by (auto simp: finish_section_sections)
  qed simp
qed

lemma chained_forget: "chained m k \<Longrightarrow> k \<noteq> k' \<Longrightarrow> chained (forget k' m) k"
  by (simp add: chained_def no_gap_def forget_def map_of_delete_eq)

lemma mutex_reach_invariant:
  "mutex_reach F m \<Longrightarrow> linked m \<and> (\<forall>k. k \<notin> F \<longrightarrow> chained m k)"
proof (induction rule: mutex_reach.induct)
  case start
  show ?case by (simp add: linked_new chained_def) (simp add: new_mutex_def)
next
  case (steps F m m')
  then show ?case by (auto simp: linked_start linked_finish chained_start chained_finish)
qed (simp_all add: linked_enter chained_enter linked_forget chained_forget)

text \<open>A waiting section is behind one that runs or may start.\<close>

lemma waiting_is_led:
  assumes l: "linked m"
  shows "t < n_sections m \<Longrightarrow> sc_phase (sec m t) = Waiting \<Longrightarrow> \<exists>u \<le> t. may_start u m \<or> may_finish u m"
proof (induction t rule: less_induct)
  case (less t)
  show ?case
  proof (cases "may_start t m")
    case False
    then obtain p where p: "sc_previous (sec m t) = Some p" "sc_phase (sec m p) \<noteq> Done"
      using less.prems unfolding may_start_iff[OF l] by blast
    have "p < t" using linkedD(4)[OF l less.prems(1) p(1)] by simp
    show ?thesis
    proof (cases "sc_phase (sec m p)")
      case Waiting
      with less.IH[OF \<open>p < t\<close>] \<open>p < t\<close> less.prems(1) obtain u where "u \<le> p" "may_start u m \<or> may_finish u m" by auto
      with \<open>p < t\<close> show ?thesis by (intro exI[of _ u]) simp
    next
      case Running
      with \<open>p < t\<close> less.prems(1) show ?thesis by (intro exI[of _ p]) (simp add: may_finish_def)
    qed (use p in simp)
  qed blast
qed

text \<open>The lock settles: its steps end when every section is over.\<close>

fun phase_work :: "phase \<Rightarrow> nat" where
  "phase_work Waiting = 2"
| "phase_work Running = 1"
| "phase_work Done = 0"

definition mutex_work :: "mutex \<Rightarrow> nat" where
  "mutex_work m = (\<Sum>s \<leftarrow> mx_sections m. phase_work (sc_phase s))"

definition all_done :: "mutex \<Rightarrow> bool" where
  "all_done m \<longleftrightarrow> list_all (\<lambda>s. sc_phase s = Done) (mx_sections m)"

lemma sum_list_update_less:
  "t < length xs \<Longrightarrow> (f y :: nat) < f (xs ! t) \<Longrightarrow> sum_list (map f (xs[t := y])) < sum_list (map f xs)"
proof (induction xs arbitrary: t)
  case (Cons x xs)
  then show ?case by (cases t) auto
qed simp

lemma set_phase_work:
  "t < n_sections m \<Longrightarrow> phase_work p < phase_work (sc_phase (sec m t)) \<Longrightarrow> mutex_work (set_phase t p m) < mutex_work m"
  by (simp add: mutex_work_def set_phase_def sum_list_update_less)

lemma start_work: "may_start t m \<Longrightarrow> mutex_work (start_section t m) < mutex_work m"
  by (simp add: may_start_def start_section_def set_phase_work)

lemma finish_work: "may_finish t m \<Longrightarrow> mutex_work (finish_section t m) < mutex_work m"
  using set_phase_work[of t m Done]
  by (simp add: may_finish_def mutex_work_def finish_section_sections)

lemma not_done_steps:
  assumes l: "linked m" and n: "\<not> all_done m"
  shows "\<exists>t. may_start t m \<or> may_finish t m"
proof -
  from n obtain t where t: "t < n_sections m" "sc_phase (sec m t) \<noteq> Done"
    by (auto simp: all_done_def list_all_length)
  then show ?thesis
  proof (cases "sc_phase (sec m t)")
    case Waiting
    with waiting_is_led[OF l] t show ?thesis by blast
  qed (auto simp: may_finish_def)
qed

interpretation mx: settling mutex_step linked mutex_work all_done
proof unfold_locales
  show "linked s \<Longrightarrow> mutex_step s t \<Longrightarrow> linked t" for s t
    by (auto simp: linked_start linked_finish)
  show "linked s \<Longrightarrow> mutex_step s t \<Longrightarrow> mutex_work t < mutex_work s" for s t
    by (auto simp: start_work finish_work)
  show "linked s \<Longrightarrow> \<not> all_done s \<Longrightarrow> \<exists>t. mutex_step s t" for s
    using not_done_steps mutex_step.intros by blast
qed

text \<open>A lock nobody uses keeps nothing.\<close>

lemma quiet_lock_is_empty: "linked m \<Longrightarrow> all_done m \<Longrightarrow> mx_tails m = []"
proof (rule ccontr)
  assume l: "linked m" and d: "all_done m" and "mx_tails m \<noteq> []"
  then obtain k t r where "mx_tails m = (k, t) # r" by (metis list.exhaust prod.exhaust)
  then have "map_of (mx_tails m) k = Some t" by simp
  from linkedD(2)[OF l this] d show False by (auto simp: all_done_def list_all_length)
qed

end
