(* ===== verification/Seek_Scheduler.thy ===== *)
theory Seek_Scheduler
  imports Keyed_Mutex Playback_Decision
begin

section \<open>Seeking\<close>

text \<open>
  \<^verbatim>\<open>streaming/seeking/seek.scheduler.ts\<close> and \<^verbatim>\<open>session.seeker.ts\<close>, with the clamp of
  \<^verbatim>\<open>utils/playback-budgets.utils.ts\<close>. A call of \<^verbatim>\<open>seekTo\<close> is named by a number; it ends
  when its promise is resolved or rejected. On its way it is the buffer check that holds a section of
  the session's lock, a waiter of the session's pending seek, or a waiter of a flush. The closures of
  the code are data here: the armed timers with the pending object they flush, and the tasks of the
  sections. The executor's and the buffer's answers are inputs. A number that may be non-finite is an
  option.
\<close>

datatype seek_outcome = Resolved rat bool | Rejected domain_error

record pending_seek =
  ps_id :: nat
  ps_timer :: "nat option"
  ps_offset :: rat
  ps_decision :: playback_decision
  ps_waiters :: "nat list"

datatype task =
    Check string nat rat playback_decision
  | Flush string pending_seek
  | Restart string

record scheduler =
  sk_pending :: "(string, pending_seek) jsmap"
  sk_locks :: mutex
  sk_seekingIds :: "string list"
  sk_timers :: "(nat, string \<times> nat) jsmap"
  sk_tasks :: "(nat, task) jsmap"
  sk_settled :: "(nat \<times> seek_outcome) list"
  sk_calls :: nat
  sk_next :: nat

definition new_scheduler :: scheduler where
  "new_scheduler = \<lparr>sk_pending = [], sk_locks = new_mutex, sk_seekingIds = [], sk_timers = [], sk_tasks = [],
     sk_settled = [], sk_calls = 0, sk_next = 0\<rparr>"

definition SEEK_EOF_GUARD_SECONDS :: rat where
  "SEEK_EOF_GUARD_SECONDS = 1"

definition clampSeekOffsetToDuration :: "rat option \<Rightarrow> rat option \<Rightarrow> rat" where
  "clampSeekOffsetToDuration offset durationSeconds =
     (case offset of
        None \<Rightarrow> 0
      | Some x \<Rightarrow>
          if x \<le> 0 then 0
          else (case durationSeconds of
                  None \<Rightarrow> x
                | Some d \<Rightarrow> if d \<le> 0 then x else clamp x 0 (max 0 (d - SEEK_EOF_GUARD_SECONDS))))"

definition alignToSegment :: "rat \<Rightarrow> rat \<Rightarrow> rat" where
  "alignToSegment position hlsSegmentDuration = of_int \<lfloor>max 0 position / hlsSegmentDuration\<rfloor> * hlsSegmentDuration"

definition isSeeking :: "string \<Rightarrow> scheduler \<Rightarrow> bool" where
  "isSeeking sid s \<longleftrightarrow> sid \<in> set (sk_seekingIds s)"

definition clear_timer :: "nat option \<Rightarrow> (nat, string \<times> nat) jsmap \<Rightarrow> (nat, string \<times> nat) jsmap" where
  "clear_timer timer timers = (case timer of None \<Rightarrow> timers | Some t \<Rightarrow> AList.delete t timers)"

definition settle_all :: "nat list \<Rightarrow> seek_outcome \<Rightarrow> scheduler \<Rightarrow> scheduler" where
  "settle_all waiters outcome s = s\<lparr>sk_settled := sk_settled s @ map (\<lambda>w. (w, outcome)) waiters\<rparr>"

definition resolveWithBufferedResult :: "string \<Rightarrow> seek_outcome \<Rightarrow> scheduler \<Rightarrow> scheduler" where
  "resolveWithBufferedResult sid outcome s =
     (case map_of (sk_pending s) sid of
        None \<Rightarrow> s
      | Some p \<Rightarrow>
          settle_all (ps_waiters p) outcome
            (s\<lparr>sk_timers := clear_timer (ps_timer p) (sk_timers s), sk_pending := AList.delete sid (sk_pending s)\<rparr>))"

definition schedule :: "string \<Rightarrow> rat \<Rightarrow> playback_decision \<Rightarrow> nat \<Rightarrow> scheduler \<Rightarrow> scheduler" where
  "schedule sid offset decision w s =
     (let p = (case map_of (sk_pending s) sid of
                 Some p \<Rightarrow> p
               | None \<Rightarrow> \<lparr>ps_id = sk_next s, ps_timer = None, ps_offset = offset, ps_decision = decision, ps_waiters = []\<rparr>);
          t = Suc (sk_next s);
          q = p\<lparr>ps_offset := offset, ps_decision := decision, ps_waiters := ps_waiters p @ [w], ps_timer := Some t\<rparr>
      in s\<lparr>sk_timers := AList.update t (sid, ps_id p) (clear_timer (ps_timer p) (sk_timers s)),
           sk_pending := AList.update sid q (sk_pending s), sk_next := Suc t\<rparr>)"

definition cancelAll :: "scheduler \<Rightarrow> scheduler" where
  "cancelAll s =
     (let s1 = fold (\<lambda>(_, p) s. settle_all (ps_waiters p) (Rejected (DomainError Internal ''stream.seek_cancelled''))
                (s\<lparr>sk_timers := clear_timer (ps_timer p) (sk_timers s)\<rparr>)) (sk_pending s) s
      in s1\<lparr>sk_pending := []\<rparr>)"

definition cancelSessionLock :: "string \<Rightarrow> scheduler \<Rightarrow> scheduler" where
  "cancelSessionLock sid s = s\<lparr>sk_locks := forget sid (sk_locks s)\<rparr>"

text \<open>A call of \<^verbatim>\<open>runExclusive\<close> with its task.\<close>

definition runExclusive :: "string \<Rightarrow> task \<Rightarrow> scheduler \<Rightarrow> scheduler" where
  "runExclusive sid task s =
     (let (t, m) = enter sid (sk_locks s) in s\<lparr>sk_locks := m, sk_tasks := AList.update t task (sk_tasks s)\<rparr>)"

definition flush :: "string \<Rightarrow> nat \<Rightarrow> scheduler \<Rightarrow> scheduler" where
  "flush sid pid s =
     (case map_of (sk_pending s) sid of
        None \<Rightarrow> s
      | Some p \<Rightarrow>
          if ps_id p \<noteq> pid then s
          else runExclusive sid (Flush sid p) (s\<lparr>sk_pending := AList.delete sid (sk_pending s)\<rparr>))"

text \<open>The timer's callback.\<close>

definition fire :: "nat \<Rightarrow> scheduler \<Rightarrow> scheduler" where
  "fire t s =
     (case map_of (sk_timers s) t of
        None \<Rightarrow> s
      | Some (sid, pid) \<Rightarrow> flush sid pid (s\<lparr>sk_timers := AList.delete t (sk_timers s)\<rparr>))"

text \<open>\<^verbatim>\<open>seekTo\<close> up to the buffer check, and after it.\<close>

definition seekTo :: "bool \<Rightarrow> string \<Rightarrow> rat option \<Rightarrow> playback_decision \<Rightarrow> scheduler \<Rightarrow> nat result \<times> scheduler" where
  "seekTo session_exists sid offset decision s =
     (if \<not> session_exists then (Throw (DomainError Not_found ''stream.session_not_found''), s)
      else (let w = sk_calls s; clamped = clampSeekOffsetToDuration offset (pd_durationSeconds decision) in
            (Return w, runExclusive sid (Check sid w clamped decision) (s\<lparr>sk_calls := Suc w\<rparr>))))"

definition seekTo_checked ::
  "rat \<Rightarrow> string \<Rightarrow> nat \<Rightarrow> rat \<Rightarrow> playback_decision \<Rightarrow> rat option result \<Rightarrow> rat \<Rightarrow> scheduler \<Rightarrow> scheduler" where
  "seekTo_checked seg sid w clamped decision answer startTime s =
     (case answer of
        Inl e \<Rightarrow> settle_all [w] (Rejected e) s
      | Inr (Some _) \<Rightarrow> settle_all [w] (Resolved startTime True) (resolveWithBufferedResult sid (Resolved startTime True) s)
      | Inr None \<Rightarrow> schedule sid (alignToSegment clamped seg) decision w s)"

text \<open>A section begins and ends; \<^verbatim>\<open>runExecutor\<close> marks the session while it runs.\<close>

definition begin_task :: "nat \<Rightarrow> scheduler \<Rightarrow> scheduler" where
  "begin_task t s =
     (let s1 = s\<lparr>sk_locks := start_section t (sk_locks s)\<rparr> in
      case map_of (sk_tasks s) t of
        Some (Flush sid p) \<Rightarrow> s1\<lparr>sk_seekingIds := js_add sid (sk_seekingIds s1)\<rparr>
      | _ \<Rightarrow> s1)"

definition end_task :: "rat \<Rightarrow> nat \<Rightarrow> rat option result \<Rightarrow> rat \<Rightarrow> scheduler \<Rightarrow> scheduler" where
  "end_task seg t answer startTime s =
     (let s1 = s\<lparr>sk_locks := finish_section t (sk_locks s), sk_tasks := AList.delete t (sk_tasks s)\<rparr> in
      case map_of (sk_tasks s) t of
        Some (Check sid w clamped decision) \<Rightarrow> seekTo_checked seg sid w clamped decision answer startTime s1
      | Some (Flush sid p) \<Rightarrow>
          settle_all (ps_waiters p)
            (case answer of
               Inl e \<Rightarrow> Rejected e
             | Inr actualStart \<Rightarrow> Resolved (case actualStart of None \<Rightarrow> ps_offset p | Some x \<Rightarrow> x) False)
            (s1\<lparr>sk_seekingIds := removeAll sid (sk_seekingIds s1)\<rparr>)
      | _ \<Rightarrow> s1)"

subsection \<open>Runs\<close>

text \<open>The steps the runtime takes by itself, and the calls from outside.\<close>

inductive seek_internal :: "rat \<Rightarrow> scheduler \<Rightarrow> scheduler \<Rightarrow> bool" for seg where
  fires: "map_of (sk_timers s) t \<noteq> None \<Longrightarrow> seek_internal seg s (fire t s)"
| begins: "may_start t (sk_locks s) \<Longrightarrow> seek_internal seg s (begin_task t s)"
| ends: "may_finish t (sk_locks s) \<Longrightarrow> seek_internal seg s (end_task seg t answer startTime s)"

inductive seek_reach :: "rat \<Rightarrow> string set \<Rightarrow> scheduler \<Rightarrow> bool" for seg where
  start: "seek_reach seg {} new_scheduler"
| internal: "seek_reach seg F s \<Longrightarrow> seek_internal seg s s' \<Longrightarrow> seek_reach seg F s'"
| seeks: "seek_reach seg F s \<Longrightarrow> seek_reach seg F (snd (seekTo ex sid offset decision s))"
| restarts: "seek_reach seg F s \<Longrightarrow> seek_reach seg F (runExclusive sid (Restart sid) s)"
| cancels: "seek_reach seg F s \<Longrightarrow> seek_reach seg F (cancelAll s)"
| forgets: "seek_reach seg F s \<Longrightarrow> seek_reach seg (insert sid F) (cancelSessionLock sid s)"

inductive_cases seek_internalE [elim!]: "seek_internal seg s s'"

end
