(* ===== verification/Seek_Settling.thy ===== *)
theory Seek_Settling
  imports Seek_Scheduler
begin

section \<open>Every seek settles, once\<close>

text \<open>
  Liveness and safety of the seek scheduler: every call of \<^verbatim>\<open>seekTo\<close> is settled exactly
  once, after a bounded number of steps of the runtime and whatever their order; the seeks and
  restarts of a session run one at a time in the order of their calls; and a session counts as
  seeking exactly while its executor runs.
\<close>

subsection \<open>Bags of a map\<close>

definition bag :: "('v \<Rightarrow> 'a list) \<Rightarrow> ('k, 'v) jsmap \<Rightarrow> 'a multiset" where
  "bag f m = mset (concat (map (f \<circ> snd) m))"

lemma bag_simps [simp]:
  "bag f [] = {#}"
  "bag f ((k, v) # m) = mset (f v) + bag f m"
  by (simp_all add: bag_def)

lemma bag_delete: "wf_map m \<Longrightarrow> map_of m k = Some v \<Longrightarrow> bag f m = mset (f v) + bag f (AList.delete k m)"
proof (induction m)
  case (Cons p m)
  show ?case
  proof (cases "fst p = k")
    case True
    then have "AList.delete k m = m" using Cons.prems(1) by (auto intro: AList.delete_id)
    with True Cons.prems show ?thesis by (cases p) auto
  next
    case False
    with Cons show ?thesis by (cases p) (simp add: union_ac)
  qed
qed simp

lemma bag_update: "wf_map m \<Longrightarrow> bag f (AList.update k v m) = mset (f v) + bag f (AList.delete k m)"
proof (induction m)
  case (Cons p m)
  show ?case
  proof (cases "fst p = k")
    case True
    then have "AList.delete k m = m" using Cons.prems(1) by (auto intro: AList.delete_id)
    with True show ?thesis by (cases p) simp
  next
    case False
    with Cons show ?thesis by (cases p) (simp add: union_ac)
  qed
qed simp

lemma delete_absent: "map_of m k = None \<Longrightarrow> AList.delete k m = m"
  by (simp add: AList.delete_id map_of_eq_None_iff)

subsection \<open>The invariant\<close>

fun waiters_of :: "task \<Rightarrow> nat list" where
  "waiters_of (Check sid w x d) = [w]"
| "waiters_of (Flush sid p) = ps_waiters p"
| "waiters_of (Restart sid) = []"

fun session_of :: "task \<Rightarrow> string" where
  "session_of (Check sid w x d) = sid"
| "session_of (Flush sid p) = sid"
| "session_of (Restart sid) = sid"

text \<open>Every call is settled, waits in a pending seek or is held by a task.\<close>

definition accounted :: "scheduler \<Rightarrow> nat multiset" where
  "accounted s = mset (map fst (sk_settled s)) + bag ps_waiters (sk_pending s) + bag waiters_of (sk_tasks s)"

definition open_section :: "mutex \<Rightarrow> nat \<Rightarrow> bool" where
  "open_section m t \<longleftrightarrow> t < n_sections m \<and> sc_phase (sec m t) \<noteq> Done"

definition armed :: "scheduler \<Rightarrow> bool" where
  "armed s \<longleftrightarrow> (\<forall>sid p. map_of (sk_pending s) sid = Some p \<longrightarrow>
     (\<exists>t. ps_timer p = Some t \<and> map_of (sk_timers s) t = Some (sid, ps_id p)))"

definition tasked :: "scheduler \<Rightarrow> bool" where
  "tasked s \<longleftrightarrow> (\<forall>t. open_section (sk_locks s) t = (map_of (sk_tasks s) t \<noteq> None)) \<and>
     (\<forall>t k. map_of (sk_tasks s) t = Some k \<longrightarrow> sc_key (sec (sk_locks s) t) = session_of k)"

definition seek_core :: "scheduler \<Rightarrow> bool" where
  "seek_core s \<longleftrightarrow> linked (sk_locks s) \<and> wf_map (sk_pending s) \<and> wf_map (sk_timers s) \<and> wf_map (sk_tasks s) \<and>
     armed s \<and> tasked s \<and> (\<forall>t. map_of (sk_timers s) t \<noteq> None \<longrightarrow> t < sk_next s)"

definition seek_inv :: "scheduler \<Rightarrow> bool" where
  "seek_inv s \<longleftrightarrow> seek_core s \<and> accounted s = mset [0..<sk_calls s]"

lemma seek_core_parts:
  assumes "seek_core s"
  shows "linked (sk_locks s)" "wf_map (sk_pending s)" "wf_map (sk_timers s)" "wf_map (sk_tasks s)" "armed s" "tasked s"
    "map_of (sk_timers s) t \<noteq> None \<Longrightarrow> t < sk_next s"
  using assms by (simp_all add: seek_core_def)

lemma tasked_open: "tasked s \<Longrightarrow> t < n_sections (sk_locks s) \<Longrightarrow> sc_phase (sec (sk_locks s) t) \<noteq> Done \<Longrightarrow> \<exists>k. map_of (sk_tasks s) t = Some k"
  unfolding tasked_def open_section_def by blast

lemma seek_core_frame:
  "sk_locks s' = sk_locks s \<Longrightarrow> sk_pending s' = sk_pending s \<Longrightarrow> sk_timers s' = sk_timers s \<Longrightarrow>
     sk_tasks s' = sk_tasks s \<Longrightarrow> sk_next s' = sk_next s \<Longrightarrow> seek_core s' = seek_core s"
  by (simp add: seek_core_def armed_def tasked_def del: map_of_eq_Some_iff)

text \<open>A session's timer is taken with its pending seek, the others stay.\<close>

lemma clear_timer_lookup:
  "map_of (clear_timer timer timers) t = (if timer = Some t then None else map_of timers t)"
  by (simp add: clear_timer_def map_of_delete_eq split: option.split)

lemma clear_timer_wf [simp]: "wf_map timers \<Longrightarrow> wf_map (clear_timer timer timers)"
  by (simp add: clear_timer_def split: option.split)

lemma clear_timer_length: "length (clear_timer timer timers) \<le> length timers"
  by (simp add: clear_timer_def AList_delete_eq_filter split: option.split)

lemma armed_drop:
  assumes a: "armed s" and p: "map_of (sk_pending s) sid = Some p"
    and pend: "\<And>x. map_of pend x = (if x = sid then None else map_of (sk_pending s) x)"
  shows "armed (s\<lparr>sk_timers := clear_timer (ps_timer p) (sk_timers s), sk_pending := pend\<rparr>)"
  unfolding armed_def
proof (intro allI impI)
  fix x q
  assume "map_of (sk_pending (s\<lparr>sk_timers := clear_timer (ps_timer p) (sk_timers s), sk_pending := pend\<rparr>)) x = Some q"
  then have x: "x \<noteq> sid" "map_of (sk_pending s) x = Some q" by (simp_all add: pend split: if_splits)
  obtain t where t: "ps_timer p = Some t" "map_of (sk_timers s) t = Some (sid, ps_id p)" using a p unfolding armed_def by blast
  obtain u where u: "ps_timer q = Some u" "map_of (sk_timers s) u = Some (x, ps_id q)" using a x(2) unfolding armed_def by blast
  have "u \<noteq> t" using t(2) u(2) x(1) by auto
  with t u show "\<exists>t. ps_timer q = Some t \<and>
      map_of (sk_timers (s\<lparr>sk_timers := clear_timer (ps_timer p) (sk_timers s), sk_pending := pend\<rparr>)) t = Some (x, ps_id q)"
    by (simp add: clear_timer_lookup)
qed

subsection \<open>The operations keep it\<close>

text \<open>A new section with its task.\<close>

lemma runExclusive_parts:
  "sk_locks (runExclusive sid task s) = snd (enter sid (sk_locks s))"
  "sk_tasks (runExclusive sid task s) = AList.update (n_sections (sk_locks s)) task (sk_tasks s)"
  "sk_pending (runExclusive sid task s) = sk_pending s" "sk_timers (runExclusive sid task s) = sk_timers s"
  "sk_next (runExclusive sid task s) = sk_next s" "sk_calls (runExclusive sid task s) = sk_calls s"
  "sk_settled (runExclusive sid task s) = sk_settled s"
  by (simp_all add: runExclusive_def enter_def Let_def)

lemma no_task_yet: "tasked s \<Longrightarrow> map_of (sk_tasks s) (n_sections (sk_locks s)) = None"
  by (auto simp: tasked_def open_section_def)

lemma runExclusive_core:
  assumes c: "seek_core s" and sid: "session_of task = sid"
  shows "seek_core (runExclusive sid task s)"
proof -
  note parts = seek_core_parts[OF c]
  let ?t = "n_sections (sk_locks s)" and ?s = "runExclusive sid task s"
  note f = runExclusive_parts[of sid task s] and k = parts(6)
  have op: "open_section (sk_locks ?s) t = (t = ?t \<or> open_section (sk_locks s) t)" for t
    unfolding open_section_def f(1) using enter_sections[where k = sid and m = "sk_locks s"] by (auto simp: less_Suc_eq)
  have bound: "t < ?t" if "map_of (sk_tasks s) t \<noteq> None" for t
    using k that unfolding tasked_def open_section_def by blast
  have "tasked ?s"
    unfolding tasked_def
  proof (intro conjI allI impI)
    show "open_section (sk_locks ?s) t = (map_of (sk_tasks ?s) t \<noteq> None)" for t
      using k unfolding tasked_def by (simp add: op f(2) map_of_update)
    fix t x
    assume x: "map_of (sk_tasks ?s) t = Some x"
    show "sc_key (sec (sk_locks ?s) t) = session_of x"
    proof (cases "t = ?t")
      case True
      with x have "x = task" by (simp add: f(2) map_of_update)
      with True sid show ?thesis using enter_sections(3)[of sid "sk_locks s"] by (simp add: f(1))
    next
      case False
      with x have x': "map_of (sk_tasks s) t = Some x" by (simp add: f(2) map_of_update)
      with k have "sc_key (sec (sk_locks s) t) = session_of x" by (simp add: tasked_def)
      with bound x' show ?thesis by (simp add: f(1) enter_sections(2))
    qed
  qed
  moreover have "armed ?s" using parts(5) by (simp add: armed_def f)
  ultimately show ?thesis using parts by (simp add: seek_core_def f linked_enter)
qed

lemma runExclusive_accounted:
  "seek_core s \<Longrightarrow> accounted (runExclusive sid task s) = accounted s + mset (waiters_of task)"
  using bag_update[of "sk_tasks s" waiters_of "n_sections (sk_locks s)" task] no_task_yet[of s]
  by (simp add: accounted_def runExclusive_parts seek_core_def delete_absent union_ac)

text \<open>The timer's callback.\<close>

lemma fire_inv:
  assumes inv: "seek_inv s" and t: "map_of (sk_timers s) t = Some (sid, pid)"
  shows "seek_inv (fire t s)"
proof -
  have c: "seek_core s" and acc: "accounted s = mset [0..<sk_calls s]" using inv by (simp_all add: seek_inv_def)
  note parts = seek_core_parts[OF c]
  let ?s = "s\<lparr>sk_timers := AList.delete t (sk_timers s)\<rparr>"
  have other: "\<exists>u. ps_timer q = Some u \<and> map_of (AList.delete t (sk_timers s)) u = Some (x, ps_id q)"
    if q: "map_of (sk_pending s) x = Some q" and ne: "x \<noteq> sid \<or> ps_id q \<noteq> pid" for x q
  proof -
    obtain u where u: "ps_timer q = Some u" "map_of (sk_timers s) u = Some (x, ps_id q)"
      using parts(5) q unfolding armed_def by blast
    with t ne have "u \<noteq> t" by auto
    with u show ?thesis by (simp add: map_of_delete_eq)
  qed
  have stale: "seek_inv ?s" if "\<And>q. map_of (sk_pending s) sid = Some q \<Longrightarrow> ps_id q \<noteq> pid"
  proof -
    have "armed ?s" unfolding armed_def using other that by force
    with parts acc show ?thesis
      by (simp add: seek_inv_def seek_core_def tasked_def accounted_def map_of_delete_eq)
  qed
  show ?thesis
  proof (cases "\<exists>p. map_of (sk_pending s) sid = Some p \<and> ps_id p = pid")
    case False
    then have "fire t s = ?s" using t by (auto simp: fire_def flush_def split: option.split)
    with stale False show ?thesis by auto
  next
    case True
    then obtain p where p: "map_of (sk_pending s) sid = Some p" "ps_id p = pid" by blast
    let ?r = "?s\<lparr>sk_pending := AList.delete sid (sk_pending s)\<rparr>"
    have "armed ?r" unfolding armed_def using other by (simp add: map_of_delete_eq)
    with parts have r: "seek_core ?r" by (simp add: seek_core_def tasked_def map_of_delete_eq)
    have "accounted ?r + mset (ps_waiters p) = accounted s"
      using bag_delete[OF parts(2) p(1), of ps_waiters] by (simp add: accounted_def union_ac)
    with runExclusive_core[OF r, of "Flush sid p" sid] runExclusive_accounted[OF r] acc
    have "seek_inv (runExclusive sid (Flush sid p) ?r)" by (simp add: seek_inv_def runExclusive_parts(6))
    with p t show ?thesis by (simp add: fire_def flush_def)
  qed
qed

text \<open>Settling, and the calls that move waiters.\<close>

lemma settle_all_core [simp]: "seek_core (settle_all ws r s) = seek_core s"
  by (simp add: seek_core_def settle_all_def armed_def tasked_def)

lemma settle_all_accounted: "accounted (settle_all ws r s) = accounted s + mset ws"
  by (simp add: accounted_def settle_all_def comp_def union_ac)

lemma settle_all_calls [simp]: "sk_calls (settle_all ws r s) = sk_calls s"
  by (simp add: settle_all_def)

lemma resolve_inv:
  assumes c: "seek_core s"
  shows "seek_core (resolveWithBufferedResult sid r s)" "accounted (resolveWithBufferedResult sid r s) = accounted s"
    "sk_calls (resolveWithBufferedResult sid r s) = sk_calls s"
proof -
  note parts = seek_core_parts[OF c]
  have "seek_core (resolveWithBufferedResult sid r s) \<and> accounted (resolveWithBufferedResult sid r s) = accounted s"
  proof (cases "map_of (sk_pending s) sid")
    case (Some p)
    let ?s = "s\<lparr>sk_timers := clear_timer (ps_timer p) (sk_timers s), sk_pending := AList.delete sid (sk_pending s)\<rparr>"
    have "armed ?s" by (rule armed_drop[OF parts(5) Some]) (simp add: map_of_delete_eq)
    with parts have "seek_core ?s" by (simp add: seek_core_def tasked_def clear_timer_lookup)
    moreover have "accounted ?s + mset (ps_waiters p) = accounted s"
      using bag_delete[OF parts(2) Some, of ps_waiters] by (simp add: accounted_def union_ac)
    ultimately show ?thesis using Some by (simp add: resolveWithBufferedResult_def settle_all_accounted)
  qed (simp add: resolveWithBufferedResult_def c)
  then show "seek_core (resolveWithBufferedResult sid r s)" "accounted (resolveWithBufferedResult sid r s) = accounted s"
    by simp_all
qed (simp add: resolveWithBufferedResult_def split: option.split)

lemma schedule_inv:
  assumes c: "seek_core s"
  shows "seek_core (schedule sid off dec w s)" "accounted (schedule sid off dec w s) = accounted s + {#w#}"
    "sk_calls (schedule sid off dec w s) = sk_calls s"
    "length (sk_timers (schedule sid off dec w s)) \<le> Suc (length (sk_timers s))"
proof -
  note parts = seek_core_parts[OF c]
  define p where "p = (case map_of (sk_pending s) sid of Some p \<Rightarrow> p
    | None \<Rightarrow> \<lparr>ps_id = sk_next s, ps_timer = None, ps_offset = off, ps_decision = dec, ps_waiters = []\<rparr>)"
  define t where "t = Suc (sk_next s)"
  define q where "q = p\<lparr>ps_offset := off, ps_decision := dec, ps_waiters := ps_waiters p @ [w], ps_timer := Some t\<rparr>"
  have eq: "schedule sid off dec w s = s\<lparr>sk_timers := AList.update t (sid, ps_id p) (clear_timer (ps_timer p) (sk_timers s)),
      sk_pending := AList.update sid q (sk_pending s), sk_next := Suc t\<rparr>"
    by (simp add: schedule_def p_def t_def q_def Let_def)
  have old: "ps_timer p \<noteq> Some u" if "map_of (sk_timers s) u = Some (x, i)" "x \<noteq> sid" for u x i
  proof (cases "map_of (sk_pending s) sid")
    case (Some p')
    then obtain v where "ps_timer p = Some v" "map_of (sk_timers s) v = Some (sid, ps_id p)"
      using parts(5) unfolding armed_def p_def by fastforce
    with that show ?thesis by auto
  qed (simp add: p_def)
  have "armed (schedule sid off dec w s)"
    unfolding armed_def
  proof (intro allI impI)
    fix x y
    assume y: "map_of (sk_pending (schedule sid off dec w s)) x = Some y"
    show "\<exists>u. ps_timer y = Some u \<and> map_of (sk_timers (schedule sid off dec w s)) u = Some (x, ps_id y)"
    proof (cases "x = sid")
      case True
      with y show ?thesis by (auto simp: eq map_of_update q_def)
    next
      case False
      with y have "map_of (sk_pending s) x = Some y" by (simp add: eq map_of_update)
      then obtain u where u: "ps_timer y = Some u" "map_of (sk_timers s) u = Some (x, ps_id y)"
        using parts(5) unfolding armed_def by blast
      have "u < sk_next s" using parts(7) u(2) by simp
      then have "u \<noteq> t" by (simp add: t_def)
      with u old[OF u(2) False] show ?thesis by (auto simp: eq map_of_update clear_timer_lookup)
    qed
  qed
  moreover have "u < Suc t" if "map_of (AList.update t v (clear_timer x (sk_timers s))) u \<noteq> None" for u v x
    using that parts(7)[of u] by (auto simp: map_of_update clear_timer_lookup t_def split: if_splits)
  ultimately show "seek_core (schedule sid off dec w s)"
    using parts by (simp add: seek_core_def eq tasked_def)
  have "bag ps_waiters (AList.update sid q (sk_pending s)) = bag ps_waiters (sk_pending s) + {#w#}"
  proof (cases "map_of (sk_pending s) sid")
    case None
    then show ?thesis by (simp add: bag_update[OF parts(2)] delete_absent q_def p_def union_ac)
  next
    case (Some p')
    then show ?thesis by (simp add: bag_update[OF parts(2)] bag_delete[OF parts(2) Some] q_def p_def union_ac)
  qed
  then show "accounted (schedule sid off dec w s) = accounted s + {#w#}"
    by (simp add: accounted_def eq union_ac)
  show "sk_calls (schedule sid off dec w s) = sk_calls s" by (simp add: eq)
  have "length (AList.update t v m) \<le> Suc (length m)" for v and m :: "(nat, string \<times> nat) jsmap"
    by (induction m) auto
  then show "length (sk_timers (schedule sid off dec w s)) \<le> Suc (length (sk_timers s))"
    using clear_timer_length[of "ps_timer p" "sk_timers s"] le_trans by (fastforce simp: eq)
qed

text \<open>A section begins and ends.\<close>

lemma open_phase:
  assumes "t < n_sections m" and "mx_sections m' = mx_sections (set_phase t ph m)" and "sc_phase (sec m t) \<noteq> Done"
  shows "open_section m' u = (if u = t then ph \<noteq> Done else open_section m u)"
    and "u < n_sections m \<Longrightarrow> sc_key (sec m' u) = sc_key (sec m u)"
  using assms by (auto simp: open_section_def)

lemma tasked_bound: "tasked s \<Longrightarrow> map_of (sk_tasks s) t = Some k \<Longrightarrow> t < n_sections (sk_locks s)"
  unfolding tasked_def open_section_def by (metis option.distinct(1))

lemma begin_task_parts:
  "sk_locks (begin_task t s) = start_section t (sk_locks s)" "sk_tasks (begin_task t s) = sk_tasks s"
  "sk_pending (begin_task t s) = sk_pending s" "sk_timers (begin_task t s) = sk_timers s"
  "sk_next (begin_task t s) = sk_next s" "sk_calls (begin_task t s) = sk_calls s" "sk_settled (begin_task t s) = sk_settled s"
  by (simp_all add: begin_task_def Let_def split: option.split task.split)

lemma begin_task_inv:
  assumes inv: "seek_inv s" and m: "may_start t (sk_locks s)"
  shows "seek_inv (begin_task t s)"
proof -
  have c: "seek_core s" using inv by (simp add: seek_inv_def)
  note parts = seek_core_parts[OF c]
  have t: "t < n_sections (sk_locks s)" "sc_phase (sec (sk_locks s) t) = Waiting" using m by (simp_all add: may_start_def)
  have st: "mx_sections (start_section t (sk_locks s)) = mx_sections (set_phase t Running (sk_locks s))" by (simp add: start_section_def)
  have op: "open_section (start_section t (sk_locks s)) u = open_section (sk_locks s) u" for u
    using open_phase(1)[OF t(1) st, of u] t by (auto simp: open_section_def)
  have "sc_key (sec (start_section t (sk_locks s)) u) = session_of k" if "map_of (sk_tasks s) u = Some k" for u k
    using open_phase(2)[OF t(1) st] t(2) tasked_bound[OF parts(6) that] parts(6) that by (simp add: tasked_def)
  with parts(6) have "tasked (begin_task t s)" by (simp add: tasked_def begin_task_parts op)
  with parts inv show ?thesis
    by (simp add: seek_inv_def seek_core_def begin_task_parts armed_def accounted_def linked_start[OF parts(1) m])
qed

text \<open>The state between the end of a section and what its task does then.\<close>

definition section_over :: "nat \<Rightarrow> scheduler \<Rightarrow> scheduler" where
  "section_over t s = s\<lparr>sk_locks := finish_section t (sk_locks s), sk_tasks := AList.delete t (sk_tasks s)\<rparr>"

lemma section_over_core:
  assumes c: "seek_core s" and m: "may_finish t (sk_locks s)"
  shows "seek_core (section_over t s)"
    and "map_of (sk_tasks s) t = Some k \<Longrightarrow> accounted (section_over t s) + mset (waiters_of k) = accounted s"
proof -
  note parts = seek_core_parts[OF c]
  have t: "t < n_sections (sk_locks s)" "sc_phase (sec (sk_locks s) t) \<noteq> Done" using m by (simp_all add: may_finish_def)
  have fin: "mx_sections (finish_section t (sk_locks s)) = mx_sections (set_phase t Done (sk_locks s))"
    by (simp add: finish_section_sections)
  have op: "open_section (finish_section t (sk_locks s)) u = (u \<noteq> t \<and> open_section (sk_locks s) u)" for u
    using open_phase(1)[OF t(1) fin t(2)] by simp
  have key: "sc_key (sec (finish_section t (sk_locks s)) u) = session_of k" if "map_of (sk_tasks s) u = Some k" for u k
    using open_phase(2)[OF t(1) fin t(2)] tasked_bound[OF parts(6) that] parts(6) that by (simp add: tasked_def)
  have "tasked (section_over t s)"
    using parts(6) key by (simp add: tasked_def section_over_def op map_of_delete_eq)
  with parts show "seek_core (section_over t s)"
    by (simp add: seek_core_def section_over_def armed_def linked_finish[OF parts(1) m])
  show "accounted (section_over t s) + mset (waiters_of k) = accounted s" if "map_of (sk_tasks s) t = Some k"
    using bag_delete[OF parts(4) that, of waiters_of] by (simp add: accounted_def section_over_def union_ac)
qed

lemma seekTo_checked_inv:
  assumes c: "seek_core s"
  shows "seek_core (seekTo_checked seg sid w x d answer st s)"
    and "accounted (seekTo_checked seg sid w x d answer st s) = accounted s + {#w#}"
    and "sk_calls (seekTo_checked seg sid w x d answer st s) = sk_calls s"
  using resolve_inv[OF c] schedule_inv[OF c] c
  by (auto simp: seekTo_checked_def settle_all_accounted split: sum.split option.split)

lemma end_task_cases:
  assumes c: "seek_core s" and m: "may_finish t (sk_locks s)"
  obtains (check) sid w x d where "map_of (sk_tasks s) t = Some (Check sid w x d)"
      "end_task seg t answer st s = seekTo_checked seg sid w x d answer st (section_over t s)"
    | (flush) sid p r where "map_of (sk_tasks s) t = Some (Flush sid p)"
      "end_task seg t answer st s =
        settle_all (ps_waiters p) r ((section_over t s)\<lparr>sk_seekingIds := removeAll sid (sk_seekingIds s)\<rparr>)"
    | (restart) sid where "map_of (sk_tasks s) t = Some (Restart sid)" "end_task seg t answer st s = section_over t s"
proof -
  obtain k where k: "map_of (sk_tasks s) t = Some k"
    using tasked_open[OF seek_core_parts(6)[OF c], of t] m by (auto simp: may_finish_def)
  then show ?thesis
    using that by (cases k) (simp_all add: end_task_def section_over_def Let_def)
qed

lemma end_task_inv:
  assumes inv: "seek_inv s" and m: "may_finish t (sk_locks s)"
  shows "seek_inv (end_task seg t answer st s)"
proof -
  have c: "seek_core s" and acc: "accounted s = mset [0..<sk_calls s]" using inv by (simp_all add: seek_inv_def)
  note over = section_over_core[OF c m]
  have calls: "sk_calls (section_over t s) = sk_calls s" by (simp add: section_over_def)
  show ?thesis
    using c m
  proof (cases rule: end_task_cases[where seg = seg and answer = answer and st = st])
    case (check sid w x d)
    with over(2)[OF check(1)] acc seekTo_checked_inv[OF over(1)] show ?thesis
      by (simp add: seek_inv_def calls)
  next
    case (flush sid p r)
    let ?s = "(section_over t s)\<lparr>sk_seekingIds := removeAll sid (sk_seekingIds s)\<rparr>"
    have "seek_core ?s" "accounted ?s = accounted (section_over t s)"
      using over(1) seek_core_frame[of ?s "section_over t s"] by (simp_all add: accounted_def)
    with flush over(2)[OF flush(1)] acc show ?thesis
      by (simp add: seek_inv_def settle_all_accounted calls)
  next
    case (restart sid)
    with over(1) over(2)[OF restart(1)] acc show ?thesis by (simp add: seek_inv_def calls)
  qed
qed

text \<open>The calls from outside.\<close>

lemma cancel_fold:
  "fold (\<lambda>(_, p) s. settle_all (ps_waiters p) r (s\<lparr>sk_timers := clear_timer (ps_timer p) (sk_timers s)\<rparr>)) ps s =
     s\<lparr>sk_timers := fold (\<lambda>(_, p). clear_timer (ps_timer p)) ps (sk_timers s),
       sk_settled := sk_settled s @ concat (map (\<lambda>(_, p). map (\<lambda>w. (w, r)) (ps_waiters p)) ps)\<rparr>"
  by (induction ps arbitrary: s) (auto simp: settle_all_def)

lemma fold_clear_timers:
  "wf_map ts \<Longrightarrow> wf_map (fold (\<lambda>(_, p). clear_timer (ps_timer p)) ps ts)"
  "map_of ts t = None \<Longrightarrow> map_of (fold (\<lambda>(_, p). clear_timer (ps_timer p)) ps ts) t = None"
  by (induction ps arbitrary: ts) (auto simp: clear_timer_lookup)

lemma cancelAll_inv:
  assumes inv: "seek_inv s"
  shows "seek_inv (cancelAll s)"
proof -
  have "mset (map fst (concat (map (\<lambda>(_, p). map (\<lambda>w. (w, r)) (ps_waiters p)) ps))) = bag ps_waiters ps"
    for r :: seek_outcome and ps :: "(string, pending_seek) jsmap"
    by (induction ps) (auto simp: comp_def multiset.map_comp)
  then have "accounted (cancelAll s) = accounted s"
    unfolding cancelAll_def Let_def cancel_fold by (simp add: accounted_def union_ac)
  moreover have "seek_core (cancelAll s)"
  proof -
    have "t < sk_next s" if "map_of (fold (\<lambda>(_, p). clear_timer (ps_timer p)) (sk_pending s) (sk_timers s)) t \<noteq> None" for t
      using that fold_clear_timers(2) inv unfolding seek_inv_def seek_core_def by metis
    with inv show ?thesis
      unfolding cancelAll_def Let_def cancel_fold
      by (simp add: seek_inv_def seek_core_def armed_def tasked_def fold_clear_timers(1))
  qed
  moreover have "sk_calls (cancelAll s) = sk_calls s"
    unfolding cancelAll_def Let_def cancel_fold by simp
  ultimately show ?thesis using inv by (simp add: seek_inv_def)
qed

lemma cancelSessionLock_inv: "seek_inv s \<Longrightarrow> seek_inv (cancelSessionLock sid s)"
proof -
  assume inv: "seek_inv s"
  have "open_section (forget sid m) t = open_section m t" for m t by (simp add: open_section_def forget_def)
  with inv show ?thesis
    by (simp add: seek_inv_def seek_core_def cancelSessionLock_def armed_def tasked_def accounted_def linked_forget
        del: map_of_eq_Some_iff) (simp add: forget_def)
qed

lemma seekTo_inv: "seek_inv s \<Longrightarrow> seek_inv (snd (seekTo ex sid offset d s))"
proof -
  assume inv: "seek_inv s"
  let ?s = "s\<lparr>sk_calls := Suc (sk_calls s)\<rparr>"
  have c: "seek_core ?s" and acc: "accounted ?s = mset [0..<sk_calls s]"
    using inv seek_core_frame[of ?s s] by (simp_all add: seek_inv_def accounted_def)
  from runExclusive_core[OF c, of "Check sid (sk_calls s) (clampSeekOffsetToDuration offset (pd_durationSeconds d)) d" sid]
    runExclusive_accounted[OF c] acc inv show ?thesis
    by (auto simp: seekTo_def Let_def seek_inv_def runExclusive_parts(6) atLeast0_lessThan_Suc)
qed

lemma restart_inv: "seek_inv s \<Longrightarrow> seek_inv (runExclusive sid (Restart sid) s)"
  using runExclusive_core[of s "Restart sid" sid] runExclusive_accounted[of s sid "Restart sid"]
  by (simp add: seek_inv_def runExclusive_parts(6))

lemma seek_internal_inv: "seek_inv s \<Longrightarrow> seek_internal seg s s' \<Longrightarrow> seek_inv s'"
  by (auto intro: fire_inv begin_task_inv end_task_inv simp del: map_of_eq_Some_iff)

lemma new_scheduler_inv: "seek_inv new_scheduler"
  by (simp add: seek_inv_def seek_core_def new_scheduler_def linked_new armed_def tasked_def accounted_def open_section_def)
    (simp add: new_mutex_def)

lemma seek_reach_inv: "seek_reach seg F s \<Longrightarrow> seek_inv s"
proof (induction rule: seek_reach.induct)
  case (internal F s s')
  from internal(3,2) show ?case by (rule seek_internal_inv)
qed (simp_all add: new_scheduler_inv seekTo_inv restart_inv cancelAll_inv cancelSessionLock_inv)

subsection \<open>Liveness\<close>

definition is_check :: "task \<Rightarrow> bool" where
  "is_check k = (case k of Check sid w x d \<Rightarrow> True | _ \<Rightarrow> False)"

definition checks :: "(nat, task) jsmap \<Rightarrow> nat" where
  "checks m = length (filter (is_check \<circ> snd) m)"

text \<open>
  A waiting section has two steps left and a running one its end; a timer that fires starts a
  section, and a buffer check may still arm a timer.
\<close>

definition seek_work :: "scheduler \<Rightarrow> nat" where
  "seek_work s = mutex_work (sk_locks s) + 3 * length (sk_timers s) + 3 * checks (sk_tasks s)"

definition seek_quiet :: "scheduler \<Rightarrow> bool" where
  "seek_quiet s \<longleftrightarrow> sk_timers s = [] \<and> all_done (sk_locks s)"

lemma checks_update:
  "map_of m t = None \<Longrightarrow> checks (AList.update t k m) = checks m + (if is_check k then 1 else 0)"
  by (simp add: checks_def update_fresh map_of_eq_None_iff)

lemma checks_delete:
  "wf_map m \<Longrightarrow> map_of m t = Some k \<Longrightarrow> checks m = checks (AList.delete t m) + (if is_check k then 1 else 0)"
proof (induction m)
  case (Cons p m)
  show ?case
  proof (cases "fst p = t")
    case True
    then have "AList.delete t m = m" using Cons.prems(1) by (auto intro: AList.delete_id)
    with True Cons.prems show ?thesis by (cases p) (auto simp: checks_def)
  next
    case False
    with Cons show ?thesis by (cases p) (simp add: checks_def)
  qed
qed simp

lemma enter_work: "mutex_work (snd (enter k m)) = mutex_work m + 2"
  by (simp add: mutex_work_def enter_def Let_def)

lemma fire_work:
  assumes c: "seek_core s" and t: "map_of (sk_timers s) t \<noteq> None"
  shows "seek_work (fire t s) < seek_work s"
proof -
  note parts = seek_core_parts[OF c]
  obtain sid pid where t': "map_of (sk_timers s) t = Some (sid, pid)" using t by (auto simp del: map_of_eq_Some_iff)
  let ?s = "s\<lparr>sk_timers := AList.delete t (sk_timers s)\<rparr>"
  have less: "length (sk_timers s) = Suc (length (sk_timers ?s))"
    using length_delete_has[OF parts(3) t'] by simp
  have "seek_work (flush sid pid ?s) \<le> seek_work ?s + 2"
  proof (cases "map_of (sk_pending s) sid")
    case (Some p)
    have "map_of (sk_tasks s) (n_sections (sk_locks s)) = None" by (rule no_task_yet[OF parts(6)])
    with Some show ?thesis
      by (simp add: flush_def seek_work_def runExclusive_parts enter_work checks_update is_check_def)
  qed (simp add: flush_def)
  with less t' show ?thesis by (simp add: fire_def seek_work_def)
qed

lemma begin_task_work: "may_start t (sk_locks s) \<Longrightarrow> seek_work (begin_task t s) < seek_work s"
  using start_work[of t "sk_locks s"] by (simp add: seek_work_def begin_task_parts)

lemma seekTo_checked_work:
  assumes "seek_core s"
  shows "seek_work (seekTo_checked seg sid w x d answer st s) \<le> seek_work s + 3"
proof -
  have settle: "seek_work (settle_all ws r y) = seek_work y" for ws r y by (simp add: seek_work_def settle_all_def)
  have "seek_work (resolveWithBufferedResult sid r s) \<le> seek_work s" for r
    using clear_timer_length[of _ "sk_timers s"]
    by (simp add: resolveWithBufferedResult_def settle split: option.split) (simp add: seek_work_def)
  then have "seek_work (resolveWithBufferedResult sid r s) \<le> seek_work s + 3" for r
    by (meson le_add1 le_trans)
  moreover have "seek_work (schedule sid (alignToSegment x seg) d w s) \<le> seek_work s + 3"
    using schedule_inv(4)[OF assms, of sid "alignToSegment x seg" d w]
    by (simp add: seek_work_def schedule_def Let_def)
  ultimately show ?thesis by (simp add: seekTo_checked_def settle split: sum.split option.split)
qed

lemma end_task_work:
  assumes c: "seek_core s" and m: "may_finish t (sk_locks s)"
  shows "seek_work (end_task seg t answer st s) < seek_work s"
proof -
  note parts = seek_core_parts[OF c]
  have over: "seek_work (section_over t s) + 3 * (if is_check k then 1 else 0) < seek_work s"
    if "map_of (sk_tasks s) t = Some k" for k
    using checks_delete[OF parts(4) that] finish_work[OF m] by (simp add: seek_work_def section_over_def)
  show ?thesis
    using c m
  proof (cases rule: end_task_cases[where seg = seg and answer = answer and st = st])
    case (check sid w x d)
    with over[OF check(1)] seekTo_checked_work[OF section_over_core(1)[OF c m], of seg sid w x d answer st]
    show ?thesis by (simp add: is_check_def)
  next
    case (flush sid p r)
    with over[OF flush(1)] show ?thesis by (simp add: seek_work_def settle_all_def)
  next
    case (restart sid)
    with over[OF restart(1)] show ?thesis by (simp add: is_check_def)
  qed
qed

lemma seek_step_or_quiet:
  assumes "seek_inv s" and "\<not> seek_quiet s"
  shows "\<exists>s'. seek_internal seg s s'"
proof (cases "sk_timers s = []")
  case True
  with assms have "\<exists>t. may_start t (sk_locks s) \<or> may_finish t (sk_locks s)"
    by (intro not_done_steps) (simp_all add: seek_inv_def seek_core_def seek_quiet_def)
  then show ?thesis using seek_internal.intros(2,3) by blast
next
  case False
  then obtain t v r where "sk_timers s = (t, v) # r" by (metis list.exhaust prod.exhaust)
  then have "map_of (sk_timers s) t \<noteq> None" by simp
  then show ?thesis using seek_internal.intros(1) by blast
qed

interpretation seeks: settling "seek_internal seg" seek_inv seek_work seek_quiet
proof unfold_locales
  show "seek_inv s \<Longrightarrow> seek_internal seg s t \<Longrightarrow> seek_inv t" for s t by (rule seek_internal_inv)
  show "seek_inv s \<Longrightarrow> seek_internal seg s t \<Longrightarrow> seek_work t < seek_work s" for s t
    by (auto simp: seek_inv_def fire_work begin_task_work end_task_work simp del: map_of_eq_Some_iff)
  show "seek_inv s \<Longrightarrow> \<not> seek_quiet s \<Longrightarrow> \<exists>t. seek_internal seg s t" for s by (rule seek_step_or_quiet)
qed

text \<open>When nothing is left to do, no call is left open.\<close>

lemma quiet_all_settled:
  assumes inv: "seek_inv s" and q: "seek_quiet s"
  shows "mset (map fst (sk_settled s)) = mset [0..<sk_calls s]"
proof -
  have core: "seek_core s" and acc: "accounted s = mset [0..<sk_calls s]" using inv by (simp_all add: seek_inv_def)
  note parts = seek_core_parts[OF core]
  have "map_of (sk_pending s) sid = None" for sid
  proof (rule ccontr)
    assume "map_of (sk_pending s) sid \<noteq> None"
    then obtain p where "map_of (sk_pending s) sid = Some p" by blast
    with parts(5) obtain t where "map_of (sk_timers s) t = Some (sid, ps_id p)" unfolding armed_def by blast
    with q show False by (simp add: seek_quiet_def)
  qed
  then have "sk_pending s = []" by (metis list.exhaust map_of_Cons_code(2) option.distinct(1) prod.exhaust)
  moreover have "map_of (sk_tasks s) t = None" for t
    using parts(6) q unfolding tasked_def open_section_def seek_quiet_def all_done_def list_all_length by blast
  then have "sk_tasks s = []" by (metis list.exhaust map_of_Cons_code(2) option.distinct(1) prod.exhaust)
  ultimately show ?thesis using acc by (simp add: accounted_def)
qed

text \<open>
  C25. Every seek is answered. From every state a session's seeks, restarts, shutdowns and releases
  can lead to, the timers, the waiting sections and the running ones come to rest after at most
  \<open>seek_work\<close> steps, in whatever order they happen and whatever the executor answers, and
  then every call of \<^verbatim>\<open>seekTo\<close> has been resolved or rejected, exactly once.
\<close>

theorem seeks_settle:
  assumes "seek_reach seg F s" and "(seek_internal seg ^^ n) s s'"
  shows "n \<le> seek_work s \<and>
    ((\<nexists>s''. seek_internal seg s' s'') \<longrightarrow> mset (map fst (sk_settled s')) = mset [0..<sk_calls s'])"
proof -
  have inv: "seek_inv s" by (rule seek_reach_inv[OF assms(1)])
  have "n \<le> seek_work s" using seeks.steps_bounded[OF assms(2) inv] by simp
  moreover have "mset (map fst (sk_settled s')) = mset [0..<sk_calls s']" if "\<nexists>s''. seek_internal seg s' s''"
    using quiet_all_settled[OF seeks.invar_steps[OF assms(2) inv] seeks.stuck_is_quiet[OF assms(2) inv that]] .
  ultimately show ?thesis by blast
qed

text \<open>A seek to 13 seconds with segments of 6: the check, the debounce, the executor.\<close>

definition seek_asked :: scheduler where
  "seek_asked = snd (seekTo True ''x'' (Some 13) sample_decision new_scheduler)"

definition seek_armed :: scheduler where
  "seek_armed = end_task 6 0 (Inr None) 0 (begin_task 0 seek_asked)"

definition seek_answered :: scheduler where
  "seek_answered = end_task 6 1 (Inr None) 0 (begin_task 1 (fire 1 seek_armed))"

lemma seek_asked_reach: "seek_reach 6 {} seek_asked"
  unfolding seek_asked_def by (intro seek_reach.seeks seek_reach.start)

lemma seek_asked_steps: "(seek_internal 6 ^^ 5) seek_asked seek_answered"
proof -
  let ?r = "seek_internal 6" and ?fired = "fire 1 seek_armed"
  have "may_start 0 (sk_locks seek_asked)" by code_simp
  then have 1: "?r seek_asked (begin_task 0 seek_asked)" by (rule seek_internal.begins)
  have "may_finish 0 (sk_locks (begin_task 0 seek_asked))" by code_simp
  then have 2: "?r (begin_task 0 seek_asked) seek_armed" unfolding seek_armed_def by (rule seek_internal.ends)
  have "map_of (sk_timers seek_armed) 1 \<noteq> None" by code_simp
  then have 3: "?r seek_armed ?fired" by (rule seek_internal.fires)
  have "may_start 1 (sk_locks ?fired)" by code_simp
  then have 4: "?r ?fired (begin_task 1 ?fired)" by (rule seek_internal.begins)
  have "may_finish 1 (sk_locks (begin_task 1 ?fired))" by code_simp
  then have 5: "?r (begin_task 1 ?fired) seek_answered" unfolding seek_answered_def by (rule seek_internal.ends)
  have "(?r ^^ Suc (Suc (Suc (Suc (Suc 0))))) seek_asked seek_answered"
    by (intro relpowp_Suc_I2[where P = ?r, OF 1] relpowp_Suc_I2[where P = ?r, OF 2] relpowp_Suc_I2[where P = ?r, OF 3]
        relpowp_Suc_I2[where P = ?r, OF 4] relpowp_Suc_I2[where P = ?r, OF 5]) simp
  moreover have "Suc (Suc (Suc (Suc (Suc 0)))) = 5" by simp
  ultimately show ?thesis by (simp only:)
qed

theorem seeks_settle_witness:
  "5 \<le> seek_work seek_asked \<and> sk_settled seek_answered = [(0, Resolved 12 False)] \<and>
   mset (map fst (sk_settled seek_answered)) = mset [0..<sk_calls seek_answered]"
proof (intro conjI)
  show "5 \<le> seek_work seek_asked" using seeks_settle[OF seek_asked_reach seek_asked_steps] by blast
  have quiet: "seek_quiet seek_answered" by code_simp
  have "\<nexists>s. seek_internal 6 seek_answered s"
  proof
    assume "\<exists>s. seek_internal 6 seek_answered s"
    moreover have "sk_timers seek_answered = []" "mx_sections (sk_locks seek_answered) \<noteq> []"
      "list_all (\<lambda>s. sc_phase s = Done) (mx_sections (sk_locks seek_answered))"
      using quiet by (simp_all add: seek_quiet_def all_done_def) code_simp
    ultimately show False
      by (auto simp: may_start_def may_finish_def list_all_length)
  qed
  then show "mset (map fst (sk_settled seek_answered)) = mset [0..<sk_calls seek_answered]"
    using seeks_settle[OF seek_asked_reach seek_asked_steps] by blast
  show "sk_settled seek_answered = [(0, Resolved 12 False)]" by code_simp
qed

subsection \<open>One at a time\<close>

text \<open>The locks of a run of the scheduler are the locks of a run of the mutex.\<close>

lemma end_task_locks: "sk_locks (end_task seg t answer st s) = finish_section t (sk_locks s)"
  by (simp add: end_task_def Let_def settle_all_def seekTo_checked_def resolveWithBufferedResult_def schedule_def
      split: option.split task.split sum.split)

lemma cancelAll_locks: "sk_locks (cancelAll s) = sk_locks s"
  unfolding cancelAll_def Let_def cancel_fold by simp

lemma fire_locks: "sk_locks (fire t s) = sk_locks s \<or> (\<exists>sid. sk_locks (fire t s) = snd (enter sid (sk_locks s)))"
  by (auto simp: fire_def flush_def runExclusive_parts split: option.split)

lemma seek_reach_mutex: "seek_reach seg F s \<Longrightarrow> mutex_reach F (sk_locks s)"
proof (induction rule: seek_reach.induct)
  case start
  show ?case by (simp add: new_scheduler_def mutex_reach.start)
next
  case (internal F s s')
  from internal(2) show ?case
  proof (cases rule: seek_internal.cases)
    case (fires t)
    with internal(3) fire_locks[of t s] show ?thesis by (auto intro: mutex_reach.enters)
  next
    case (begins t)
    with internal(3) show ?thesis by (auto simp: begin_task_parts intro: mutex_reach.steps mutex_step.intros)
  next
    case (ends t answer st)
    with internal(3) show ?thesis by (auto simp: end_task_locks intro: mutex_reach.steps mutex_step.intros)
  qed
next
  case (seeks F s ex sid offset d)
  then show ?case by (auto simp: seekTo_def Let_def runExclusive_parts intro: mutex_reach.enters)
next
  case (restarts F s sid)
  then show ?case by (simp add: runExclusive_parts mutex_reach.enters)
next
  case (cancels F s)
  then show ?case by (simp add: cancelAll_locks)
next
  case (forgets F s sid)
  then show ?case by (simp add: cancelSessionLock_def mutex_reach.forgets)
qed

abbreviation runs :: "scheduler \<Rightarrow> nat \<Rightarrow> bool" where
  "runs s t \<equiv> may_finish t (sk_locks s)"

lemma one_runs:
  assumes r: "seek_reach seg F s" and k: "sid \<notin> F" and t: "runs s t" "sc_key (sec (sk_locks s) t) = sid"
    and u: "runs s u" "sc_key (sec (sk_locks s) u) = sid"
  shows "t = u"
proof -
  have l: "linked (sk_locks s)" "chained (sk_locks s) sid"
    using mutex_reach_invariant[OF seek_reach_mutex[OF r]] k by blast+
  have "\<not> (a < b)" if "runs s a" "runs s b" "sc_key (sec (sk_locks s) a) = sid" "sc_key (sec (sk_locks s) b) = sid" for a b
    using chained_serial[OF l, of b a] that by (auto simp: may_finish_def)
  with t u show ?thesis by (metis linorder_neqE_nat)
qed

text \<open>The flag of a session follows its executor.\<close>

definition executing :: "string \<Rightarrow> scheduler \<Rightarrow> bool" where
  "executing sid s \<longleftrightarrow> (\<exists>t p. map_of (sk_tasks s) t = Some (Flush sid p) \<and> runs s t)"

lemma runs_begin:
  "may_start t (sk_locks s) \<Longrightarrow> runs (begin_task t s) u \<longleftrightarrow> u = t \<or> runs s u"
  by (auto simp: may_start_def may_finish_def begin_task_parts start_section_def)

lemma runs_end: "runs s t \<Longrightarrow> runs (end_task seg t answer st s) u \<longleftrightarrow> u \<noteq> t \<and> runs s u"
  by (cases "u = t") (simp_all add: may_finish_def end_task_locks finish_section_sections cong: conj_cong)

lemma end_task_tasks: "sk_tasks (end_task seg t answer st s) = AList.delete t (sk_tasks s)"
  by (simp add: end_task_def Let_def settle_all_def seekTo_checked_def resolveWithBufferedResult_def schedule_def
      split: option.split task.split sum.split)

lemma executing_enter:
  assumes c: "seek_core s"
  shows "executing x (runExclusive sid task s) = executing x s"
proof -
  let ?t = "n_sections (sk_locks s)" and ?s = "runExclusive sid task s"
  have "runs ?s t \<longleftrightarrow> runs s t" for t
    using enter_sections[where k = sid and m = "sk_locks s"]
    by (auto simp: may_finish_def runExclusive_parts less_Suc_eq)
  moreover have "t \<noteq> ?t" if "runs s t" for t using that by (auto simp: may_finish_def)
  ultimately show ?thesis unfolding executing_def by (auto simp: runExclusive_parts map_of_update)
qed

definition flagged :: "string \<Rightarrow> scheduler \<Rightarrow> bool" where
  "flagged sid s \<longleftrightarrow> isSeeking sid s = executing sid s"

lemma flagged_same:
  assumes "flagged x s" and "seek_core s" and "sk_seekingIds s' = sk_seekingIds s"
    and "sk_locks s' = sk_locks s \<and> sk_tasks s' = sk_tasks s \<or>
      (\<exists>sid task. sk_locks s' = sk_locks (runExclusive sid task s) \<and> sk_tasks s' = sk_tasks (runExclusive sid task s))"
  shows "flagged x s'"
proof -
  have "executing x s' = executing x s"
    using assms(4)
  proof
    assume "\<exists>sid task. sk_locks s' = sk_locks (runExclusive sid task s) \<and> sk_tasks s' = sk_tasks (runExclusive sid task s)"
    then obtain sid task where "executing x s' = executing x (runExclusive sid task s)" by (auto simp: executing_def)
    then show ?thesis by (simp add: executing_enter[OF assms(2)])
  qed (simp add: executing_def)
  with assms(1,3) show ?thesis by (simp add: flagged_def isSeeking_def)
qed

lemma flagged_begin:
  assumes "flagged x s" and c: "seek_core s" and m: "may_start t (sk_locks s)"
  shows "flagged x (begin_task t s)"
proof (cases "\<exists>p. map_of (sk_tasks s) t = Some (Flush x p)")
  case True
  then obtain p where p: "map_of (sk_tasks s) t = Some (Flush x p)" by blast
  then have "executing x (begin_task t s)" unfolding executing_def using runs_begin[OF m] by (auto simp: begin_task_parts)
  with p show ?thesis by (simp add: flagged_def isSeeking_def begin_task_def Let_def)
next
  case False
  then have "executing x (begin_task t s) = executing x s"
    unfolding executing_def begin_task_parts(2) runs_begin[OF m] by blast
  moreover have "isSeeking x (begin_task t s) = isSeeking x s"
    using False by (auto simp: isSeeking_def begin_task_def Let_def split: option.split task.split)
  ultimately show ?thesis using assms(1) by (simp add: flagged_def)
qed

lemma flagged_end:
  assumes f: "flagged x s" and r: "seek_reach seg F s" and k: "x \<notin> F" and m: "runs s t"
  shows "flagged x (end_task seg t answer st s)"
proof -
  let ?s = "end_task seg t answer st s"
  have c: "seek_core s" using seek_reach_inv[OF r] by (simp add: seek_inv_def)
  have key: "sc_key (sec (sk_locks s) u) = session_of y" if "map_of (sk_tasks s) u = Some y" for u y
    using seek_core_parts(6)[OF c] that by (simp add: tasked_def)
  have ex: "executing x ?s \<longleftrightarrow> (\<exists>u p. u \<noteq> t \<and> map_of (sk_tasks s) u = Some (Flush x p) \<and> runs s u)"
    unfolding executing_def end_task_tasks runs_end[OF m] map_of_delete_eq by (metis option.distinct(1))
  show ?thesis
    using c m
  proof (cases rule: end_task_cases[where seg = seg and answer = answer and st = st])
    case (check sid w y d)
    have "u \<noteq> t" if "map_of (sk_tasks s) u = Some (Flush x p)" for u p using that check(1) by auto
    then have "executing x ?s = executing x s" unfolding ex unfolding executing_def by blast
    moreover have "isSeeking x ?s = isSeeking x s"
      by (simp add: check(2) isSeeking_def seekTo_checked_def settle_all_def resolveWithBufferedResult_def schedule_def Let_def
          section_over_def split: option.split sum.split)
    ultimately show ?thesis using f by (simp add: flagged_def)
  next
    case (flush sid p r)
    have seeking: "isSeeking x ?s \<longleftrightarrow> x \<noteq> sid \<and> isSeeking x s"
      by (auto simp: flush(2) isSeeking_def settle_all_def)
    show ?thesis
    proof (cases "x = sid")
      case True
      have "u = t" if "map_of (sk_tasks s) u = Some (Flush x q)" "runs s u" for u q
        using one_runs[OF r k _ _ m] that key[OF that(1)] key[OF flush(1)] True by simp
      then have "\<not> executing x ?s" unfolding ex by blast
      with True seeking show ?thesis by (simp add: flagged_def)
    next
      case False
      have "u \<noteq> t" if "map_of (sk_tasks s) u = Some (Flush x q)" for u q using that flush(1) False by auto
      then have "executing x ?s = executing x s" unfolding ex unfolding executing_def by blast
      with False seeking f show ?thesis by (simp add: flagged_def)
    qed
  next
    case (restart sid)
    have "u \<noteq> t" if "map_of (sk_tasks s) u = Some (Flush x p)" for u p using that restart(1) by auto
    then have "executing x ?s = executing x s" unfolding ex unfolding executing_def by blast
    moreover have "isSeeking x ?s = isSeeking x s" by (simp add: restart(2) isSeeking_def section_over_def)
    ultimately show ?thesis using f by (simp add: flagged_def)
  qed
qed

lemma seek_reach_flagged: "seek_reach seg F s \<Longrightarrow> x \<notin> F \<Longrightarrow> flagged x s"
proof (induction rule: seek_reach.induct)
  case start
  show ?case by (simp add: flagged_def isSeeking_def executing_def new_scheduler_def)
next
  case (internal F s s')
  have inv: "seek_core s" using seek_reach_inv[OF internal(1)] by (simp add: seek_inv_def)
  have f: "flagged x s" using internal by simp
  from internal(2) show ?case
  proof (cases rule: seek_internal.cases)
    case (fires t)
    have "flagged x (fire t s)"
      by (rule flagged_same[OF f inv]) (auto simp: fire_def flush_def runExclusive_def enter_def Let_def split: option.split)
    with fires show ?thesis by simp
  next
    case (begins t)
    with flagged_begin[OF f inv] show ?thesis by simp
  next
    case (ends t answer st)
    with flagged_end[OF f internal(1) internal(4)] show ?thesis by simp
  qed
next
  case (seeks F s ex sid offset d)
  have inv: "seek_core s" using seek_reach_inv[OF seeks(1)] by (simp add: seek_inv_def)
  have f: "flagged x s" using seeks by simp
  show ?case
    by (rule flagged_same[OF f inv]) (auto simp: seekTo_def runExclusive_def enter_def Let_def)
next
  case (restarts F s sid)
  have inv: "seek_core s" using seek_reach_inv[OF restarts(1)] by (simp add: seek_inv_def)
  have f: "flagged x s" using restarts by simp
  show ?case
    by (rule flagged_same[OF f inv]) (auto simp: runExclusive_def enter_def Let_def)
next
  case (cancels F s)
  have inv: "seek_core s" using seek_reach_inv[OF cancels(1)] by (simp add: seek_inv_def)
  have f: "flagged x s" using cancels by simp
  show ?case
    by (rule flagged_same[OF f inv]) (simp_all add: cancelAll_def Let_def cancel_fold)
next
  case (forgets F s sid)
  then show ?case
    by (simp add: flagged_def isSeeking_def executing_def cancelSessionLock_def may_finish_def forget_def)
qed

text \<open>
  C26. While a session has not been released, its seeks and restarts run one at a time, and the
  session counts as seeking, which keeps the reaper away from it, exactly while the executor of
  one of its seeks runs.
\<close>

theorem one_seek_at_a_time:
  assumes "seek_reach seg F s" and "sid \<notin> F"
  shows "(isSeeking sid s \<longleftrightarrow> (\<exists>t p. map_of (sk_tasks s) t = Some (Flush sid p) \<and> may_finish t (sk_locks s))) \<and>
    (\<forall>t < n_sections (sk_locks s). \<forall>u < t.
       sc_key (mx_sections (sk_locks s) ! t) = sid \<and> sc_key (mx_sections (sk_locks s) ! u) = sid \<and>
       sc_phase (mx_sections (sk_locks s) ! t) \<noteq> Waiting \<longrightarrow> sc_phase (mx_sections (sk_locks s) ! u) = Done)"
proof -
  have l: "linked (sk_locks s)" "chained (sk_locks s) sid"
    using mutex_reach_invariant[OF seek_reach_mutex[OF assms(1)]] assms(2) by blast+
  moreover have "isSeeking sid s = executing sid s"
    using seek_reach_flagged[OF assms] by (simp add: flagged_def)
  ultimately show ?thesis unfolding executing_def using chained_serial[OF l] by blast
qed

theorem one_seek_at_a_time_witness:
  "isSeeking ''x'' (begin_task 1 (fire 1 seek_armed))"
proof -
  have "seek_reach 6 {} (begin_task 0 seek_asked)" by (rule seek_reach.internal[OF seek_asked_reach seek_internal.begins]) code_simp
  then have "seek_reach 6 {} seek_armed" unfolding seek_armed_def by (rule seek_reach.internal[OF _ seek_internal.ends]) code_simp
  then have "seek_reach 6 {} (fire 1 seek_armed)" by (rule seek_reach.internal[OF _ seek_internal.fires]) code_simp
  then have r: "seek_reach 6 {} (begin_task 1 (fire 1 seek_armed))" by (rule seek_reach.internal[OF _ seek_internal.begins]) code_simp
  have "may_finish 1 (sk_locks (begin_task 1 (fire 1 seek_armed)))" by code_simp
  moreover have "map_of (sk_tasks (begin_task 1 (fire 1 seek_armed))) 1 = Some (Flush ''x''
      \<lparr>ps_id = 0, ps_timer = Some 1, ps_offset = 12, ps_decision = sample_decision, ps_waiters = [0]\<rparr>)" by code_simp
  ultimately show ?thesis using one_seek_at_a_time[OF r, of "''x''"] by blast
qed

end
