(* ===== verification/Js_Number.thy ===== *)
theory Js_Number
  imports Js_String Complex_Main
begin

section \<open>Numbers as JavaScript writes and reads them\<close>

text \<open>
  A number of the source is a double. The model keeps it as the shortest decimal that denotes it,
  which is what \<^verbatim>\<open>String\<close> prints: a mantissa that does not end in a zero and a
  power of ten. \<^verbatim>\<open>String(number)\<close> is exact on it. \<^verbatim>\<open>Number(text)\<close> is exact for a text
  of at most 15 significant digits within the range of a double; a longer one the source rounds to
  the nearest double. Not-a-number and the infinities are \<open>None\<close>: every reader here drops them.
\<close>

subsection \<open>Digits\<close>

definition is_digit :: "char \<Rightarrow> bool" where
  "is_digit c = (let n = (of_char c :: nat) in 48 \<le> n \<and> n \<le> 57)"

definition decimal_value :: "string \<Rightarrow> nat" where
  "decimal_value s = foldl (\<lambda>n c. 10 * n + (of_char c - 48)) 0 s"

lemma decimal_value_Nil [simp]: "decimal_value [] = 0"
  by (simp add: decimal_value_def)

lemma decimal_value_snoc: "decimal_value (s @ [c]) = 10 * decimal_value s + (of_char c - 48)"
  by (simp add: decimal_value_def)

lemma decimal_value_append: "decimal_value (s @ t) = decimal_value s * 10 ^ length t + decimal_value t"
proof (induction t rule: rev_induct)
  case (snoc c t)
  have "decimal_value (s @ t @ [c]) = 10 * decimal_value (s @ t) + (of_char c - 48)"
    using decimal_value_snoc[of "s @ t" c] by simp
  with snoc.IH show ?case by (simp add: decimal_value_snoc algebra_simps)
qed simp

lemma decimal_value_zeros [simp]: "decimal_value (replicate n CHR ''0'') = 0"
proof (induction n)
  case (Suc n)
  then show ?case using decimal_value_append[of "''0''" "replicate n CHR ''0''"]
    by (simp add: decimal_value_def)
qed simp

lemma digit_code: "n < 10 \<Longrightarrow> (of_char (char_of (48 + n) :: char) :: nat) = 48 + n"
  by (simp add: of_char_of take_bit_nat_def)

lemma show_nat_is_digit: "list_all is_digit (show_nat n)"
proof (induction n rule: show_nat.induct)
  case (1 n)
  have "is_digit (char_of (48 + n mod 10))"
    by (simp add: is_digit_def Let_def digit_code)
  with 1 show ?case by (subst show_nat.simps) simp
qed

lemma decimal_value_show_nat [simp]: "decimal_value (show_nat n) = n"
proof (induction n rule: show_nat.induct)
  case (1 n)
  show ?case by (subst show_nat.simps) (use 1 in \<open>simp add: decimal_value_snoc digit_code\<close>)
qed

lemma show_nat_no_leading_zero: "0 < n \<Longrightarrow> hd (show_nat n) \<noteq> CHR ''0''"
proof (induction n rule: show_nat.induct)
  case (1 n)
  show ?case
  proof (cases "n < 10")
    case True
    then have "(of_char (char_of (48 + n mod 10) :: char) :: nat) \<noteq> of_char CHR ''0''"
      using 1 by (simp add: digit_code)
    then have "char_of (48 + n mod 10) \<noteq> CHR ''0''" by metis
    with True show ?thesis by (subst show_nat.simps) simp
  next
    case False
    with 1 have "hd (show_nat (n div 10)) \<noteq> CHR ''0''" by simp
    with False show ?thesis by (subst show_nat.simps) simp
  qed
qed

lemma span_digits:
  assumes "list_all is_digit s" and "t = [] \<or> \<not> is_digit (hd t)"
  shows "takeWhile is_digit (s @ t) = s" "dropWhile is_digit (s @ t) = t"
proof -
  have "takeWhile is_digit t = []" "dropWhile is_digit t = t" using assms(2) by (cases t; simp)+
  with assms(1) show "takeWhile is_digit (s @ t) = s" "dropWhile is_digit (s @ t) = t"
    by (induction s) simp_all
qed

subsection \<open>Decimals\<close>

datatype decimal = Dec (mantissa: int) (exponent: int)

function normal_dec :: "int \<Rightarrow> int \<Rightarrow> decimal" where
  "normal_dec m e = (if m = 0 then Dec 0 0 else if m mod 10 = 0 then normal_dec (m div 10) (e + 1) else Dec m e)"
  by pat_completeness auto
termination by (relation "measure (\<lambda>(m, _). nat \<bar>m\<bar>)") auto

declare normal_dec.simps [simp del]

text \<open>The decimals that stand for numbers.\<close>

definition shortest :: "decimal \<Rightarrow> bool" where
  "shortest d \<longleftrightarrow> (if mantissa d = 0 then exponent d = 0 else mantissa d mod 10 \<noteq> 0)"

definition whole :: "int \<Rightarrow> decimal" where
  "whole i = normal_dec i 0"

text \<open>The rational a decimal denotes, and the comparison of two on a common power of ten.\<close>

definition dec_rat :: "decimal \<Rightarrow> rat" where
  "dec_rat d = of_int (mantissa d) * 10 powi exponent d"

definition dec_le :: "decimal \<Rightarrow> decimal \<Rightarrow> bool" where
  "dec_le a b \<longleftrightarrow>
     (let k = min (exponent a) (exponent b) in
      mantissa a * 10 ^ nat (exponent a - k) \<le> mantissa b * 10 ^ nat (exponent b - k))"

lemma dec_rat_on_power:
  assumes "k \<le> exponent d"
  shows "dec_rat d = of_int (mantissa d * 10 ^ nat (exponent d - k)) * 10 powi k"
proof -
  have "(10::rat) powi exponent d = 10 powi (int (nat (exponent d - k)) + k)" using assms by simp
  also have "\<dots> = 10 ^ nat (exponent d - k) * 10 powi k"
    by (subst power_int_add) (simp_all only: power_int_of_nat, simp)
  finally show ?thesis by (simp add: dec_rat_def)
qed

lemma dec_le_iff: "dec_le a b \<longleftrightarrow> dec_rat a \<le> dec_rat b"
proof -
  let ?k = "min (exponent a) (exponent b)"
  have "(0::rat) < 10 powi ?k" by (rule zero_less_power_int) simp
  moreover have "dec_rat a = of_int (mantissa a * 10 ^ nat (exponent a - ?k)) * 10 powi ?k"
    "dec_rat b = of_int (mantissa b * 10 ^ nat (exponent b - ?k)) * 10 powi ?k"
    by (rule dec_rat_on_power; simp)+
  ultimately show ?thesis unfolding dec_le_def Let_def
    by (metis mult_le_cancel_right_pos of_int_le_iff)
qed

lemma shortest_normal [simp]: "shortest (normal_dec m e)"
  by (induction m e rule: normal_dec.induct) (subst normal_dec.simps, simp add: shortest_def)

lemma normal_dec_shortest: "shortest (Dec m e) \<Longrightarrow> normal_dec m e = Dec m e"
  by (subst normal_dec.simps) (auto simp: shortest_def split: if_splits)

lemma normal_dec_shift: "m mod 10 \<noteq> 0 \<Longrightarrow> normal_dec (m * 10 ^ z) e = Dec m (e + int z)"
proof (induction z arbitrary: e)
  case 0
  then show ?case by (subst normal_dec.simps) auto
next
  case (Suc z)
  then have "m \<noteq> 0" by auto
  have "m * 10 ^ Suc z div 10 = m * 10 ^ z" "m * 10 ^ Suc z mod 10 = 0" by simp_all
  then have "normal_dec (m * 10 ^ Suc z) e = normal_dec (m * 10 ^ z) (e + 1)"
    using \<open>m \<noteq> 0\<close> by (subst normal_dec.simps) simp
  with Suc show ?case by (simp add: algebra_simps)
qed

subsection \<open>Printing\<close>

definition js_number_text :: "decimal \<Rightarrow> string" where
  "js_number_text d =
     (let m = mantissa d; s = show_nat (nat \<bar>m\<bar>); k = int (length s); n = k + exponent d;
          sign = (if m < 0 then ''-'' else []) in
      if m = 0 then ''0''
      else if k \<le> n \<and> n \<le> 21 then sign @ s @ replicate (nat (n - k)) CHR ''0''
      else if 0 < n \<and> n \<le> 21 then sign @ take (nat n) s @ ''.'' @ drop (nat n) s
      else if - 6 < n \<and> n \<le> 0 then sign @ ''0.'' @ replicate (nat (- n)) CHR ''0'' @ s
      else sign @ take 1 s @ (if k = 1 then [] else ''.'' @ drop 1 s) @
           ''e'' @ (if n - 1 < 0 then ''-'' else ''+'') @ show_nat (nat \<bar>n - 1\<bar>))"

subsection \<open>Reading\<close>

text \<open>The pieces of an unsigned decimal literal: digits, a dot or not, digits, exponent, rest.\<close>

definition scan_exponent :: "string \<Rightarrow> int \<times> string" where
  "scan_exponent s =
     (case s of
        [] \<Rightarrow> (0, [])
      | c # t \<Rightarrow>
          (let neg = (t \<noteq> [] \<and> hd t = CHR ''-'');
               u = (if t \<noteq> [] \<and> (hd t = CHR ''-'' \<or> hd t = CHR ''+'') then tl t else t);
               ds = takeWhile is_digit u in
           if (c = CHR ''e'' \<or> c = CHR ''E'') \<and> ds \<noteq> []
           then ((if neg then - int (decimal_value ds) else int (decimal_value ds)), dropWhile is_digit u)
           else (0, s)))"

definition scan_decimal :: "string \<Rightarrow> string \<times> bool \<times> string \<times> int \<times> string" where
  "scan_decimal s =
     (let ip = takeWhile is_digit s; r = dropWhile is_digit s;
          dot = (r \<noteq> [] \<and> hd r = CHR ''.'');
          fp = (if dot then takeWhile is_digit (tl r) else []);
          (ex, rest) = scan_exponent (if dot then dropWhile is_digit (tl r) else r)
      in (ip, dot, fp, ex, rest))"

definition signed_decimal :: "bool \<Rightarrow> string \<Rightarrow> string \<Rightarrow> int \<Rightarrow> decimal" where
  "signed_decimal neg ip fp ex =
     normal_dec ((if neg then - 1 else 1) * int (decimal_value (ip @ fp))) (ex - int (length fp))"

definition digit_of_base :: "char \<Rightarrow> nat" where
  "digit_of_base c = (let n = (of_char c :: nat) in
     if 48 \<le> n \<and> n \<le> 57 then n - 48 else if 97 \<le> n \<and> n \<le> 102 then n - 87
     else if 65 \<le> n \<and> n \<le> 70 then n - 55 else 16)"

definition base_number :: "nat \<Rightarrow> string \<Rightarrow> decimal option" where
  "base_number b s =
     (if s \<noteq> [] \<and> list_all (\<lambda>c. digit_of_base c < b) s
      then Some (whole (int (foldl (\<lambda>n c. b * n + digit_of_base c) 0 s))) else None)"

text \<open>\<^verbatim>\<open>Number(text)\<close>, when it is finite.\<close>

definition js_number :: "string \<Rightarrow> decimal option" where
  "js_number text =
     (let s = trim_text text;
          neg = (s \<noteq> [] \<and> hd s = CHR ''-'');
          u = (if s \<noteq> [] \<and> (hd s = CHR ''-'' \<or> hd s = CHR ''+'') then tl s else s);
          (ip, dot, fp, ex, rest) = scan_decimal u in
      if s = [] then Some (Dec 0 0)
      else if to_lower (take 2 s) = ''0x'' then base_number 16 (drop 2 s)
      else if to_lower (take 2 s) = ''0o'' then base_number 8 (drop 2 s)
      else if to_lower (take 2 s) = ''0b'' then base_number 2 (drop 2 s)
      else if rest = [] \<and> (ip \<noteq> [] \<or> fp \<noteq> []) then Some (signed_decimal neg ip fp ex) else None)"

subsection \<open>What is printed is read back\<close>

text \<open>The literals \<^verbatim>\<open>String\<close> prints, by their pieces.\<close>

definition exponent_text :: "int option \<Rightarrow> string" where
  "exponent_text ex = (case ex of None \<Rightarrow> []
     | Some x \<Rightarrow> ''e'' @ (if x < 0 then ''-'' else ''+'') @ show_nat (nat \<bar>x\<bar>))"

definition fraction_text :: "string \<Rightarrow> string" where
  "fraction_text fp = (if fp = [] then [] else ''.'' @ fp)"

lemma punctuation_is_no_digit [simp]:
  "\<not> is_digit CHR ''.''" "\<not> is_digit CHR ''e''" "\<not> is_digit CHR ''E''" "\<not> is_digit CHR ''-''"
  "\<not> is_digit CHR ''+''" "\<not> is_digit CHR '',''" "\<not> is_digit CHR '']''" "\<not> is_digit CHR ''}''"
  by (simp_all add: is_digit_def)

lemma zeros_are_digits [simp]: "list_all is_digit (replicate n CHR ''0'')" "is_digit CHR ''0''"
  by (induction n) (simp_all add: is_digit_def)

lemma parts_are_digits:
  "list_all is_digit s \<Longrightarrow> list_all is_digit (take n s)" "list_all is_digit s \<Longrightarrow> list_all is_digit (drop n s)"
  by (auto simp: list_all_iff dest: in_set_takeD in_set_dropD)

definition plain_rest :: "string \<Rightarrow> bool" where
  "plain_rest r \<longleftrightarrow> r = [] \<or> \<not> is_digit (hd r) \<and> hd r \<notin> set ''.eE''"

lemma scan_exponent_text:
  assumes "plain_rest r"
  shows "scan_exponent (exponent_text ex @ r) = (case ex of None \<Rightarrow> 0 | Some x \<Rightarrow> x, r)"
proof (cases ex)
  case None
  then show ?thesis using assms by (cases r) (auto simp: scan_exponent_def exponent_text_def plain_rest_def)
next
  case (Some x)
  have "r = [] \<or> \<not> is_digit (hd r)" using assms by (auto simp: plain_rest_def)
  then have sp: "takeWhile is_digit (show_nat n @ r) = show_nat n" "dropWhile is_digit (show_nat n @ r) = r" for n
    by (simp_all add: span_digits[OF show_nat_is_digit])
  show ?thesis using Some by (simp add: scan_exponent_def exponent_text_def sp Let_def)
qed

lemma scan_decimal_pieces:
  assumes "list_all is_digit ip" and "list_all is_digit fp" and "plain_rest r"
  shows "scan_decimal (ip @ fraction_text fp @ exponent_text ex @ r) =
    (ip, fp \<noteq> [], fp, case ex of None \<Rightarrow> 0 | Some x \<Rightarrow> x, r)"
proof -
  have e: "exponent_text ex @ r = [] \<or> \<not> is_digit (hd (exponent_text ex @ r))"
    using assms(3) by (auto simp: exponent_text_def plain_rest_def split: option.splits)
  have dot: "exponent_text ex @ r = [] \<or> hd (exponent_text ex @ r) \<noteq> CHR ''.''"
    using assms(3) by (auto simp: exponent_text_def plain_rest_def split: option.splits)
  show ?thesis
  proof (cases "fp = []")
    case True
    then show ?thesis using dot span_digits[OF assms(1) e] scan_exponent_text[OF assms(3), of ex]
      by (auto simp: scan_decimal_def fraction_text_def Let_def)
  next
    case False
    have f: "fraction_text fp @ exponent_text ex @ r = [] \<or> \<not> is_digit (hd (fraction_text fp @ exponent_text ex @ r))"
      using False by (simp add: fraction_text_def)
    show ?thesis using False span_digits[OF assms(1) f] span_digits[OF assms(2) e] scan_exponent_text[OF assms(3), of ex]
      by (simp add: scan_decimal_def fraction_text_def Let_def)
  qed
qed

text \<open>Every printed number is a sign, digits, a fraction and an exponent that denote it.\<close>

definition literal_of :: "decimal \<Rightarrow> string \<Rightarrow> string \<Rightarrow> int option \<Rightarrow> bool" where
  "literal_of d ip fp ex \<longleftrightarrow>
     js_number_text d = (if mantissa d < 0 then ''-'' else []) @ ip @ fraction_text fp @ exponent_text ex \<and>
     list_all is_digit ip \<and> list_all is_digit fp \<and> ip \<noteq> [] \<and> (ip = ''0'' \<or> hd ip \<noteq> CHR ''0'') \<and>
     signed_decimal (mantissa d < 0) ip fp (case ex of None \<Rightarrow> 0 | Some x \<Rightarrow> x) = d"

lemma signed_mantissa: "(if m < 0 then - 1 else 1) * int (nat \<bar>m\<bar>) = m"
  by simp

lemma printed_literal:
  assumes "shortest d"
  obtains ip fp ex where "literal_of d ip fp ex"
proof -
  obtain m e where d: "d = Dec m e" by (cases d)
  define s where "s = show_nat (nat \<bar>m\<bar>)"
  define k where "k = int (length s)"
  define n where "n = k + e"
  have digits: "list_all is_digit s" unfolding s_def by (rule show_nat_is_digit)
  have val: "(if m < 0 then - 1 else 1) * int (decimal_value s) = m" unfolding s_def by (simp add: signed_mantissa)
  have ne: "s \<noteq> []" and k: "0 < k" by (simp_all add: s_def k_def)
  show ?thesis
  proof (cases "m = 0")
    case True
    with assms have "literal_of d ''0'' [] None"
      by (simp add: d literal_of_def js_number_text_def fraction_text_def exponent_text_def shortest_def signed_decimal_def
          is_digit_def normal_dec.simps decimal_value_def)
    then show ?thesis by (rule that)
  next
    case False
    then have hd: "hd s \<noteq> CHR ''0''" unfolding s_def by (simp add: show_nat_no_leading_zero)
    have norm: "normal_dec m e = d" using assms normal_dec_shortest by (simp add: d)
    have m10: "m mod 10 \<noteq> 0" using assms False by (simp add: d shortest_def)
    note printed = js_number_text_def[of d, unfolded d decimal.sel Let_def, folded s_def, folded k_def, folded n_def]
    consider (int) "k \<le> n" "n \<le> 21" | (point) "\<not> k \<le> n" "0 < n" "n \<le> 21" | (small) "- 6 < n" "n \<le> 0"
      | (sci) "\<not> (k \<le> n \<and> n \<le> 21)" "\<not> (0 < n \<and> n \<le> 21)" "\<not> (- 6 < n \<and> n \<le> 0)" by linarith
    then show ?thesis
    proof cases
      case int
      have "(if m < 0 then - 1 else 1) * int (decimal_value (s @ replicate (nat e) CHR ''0'')) = m * 10 ^ nat e"
        using val by (simp add: decimal_value_append algebra_simps)
      then have "signed_decimal (m < 0) (s @ replicate (nat e) CHR ''0'') [] 0 = d"
        using normal_dec_shift[OF m10, of "nat e" 0] int by (simp add: signed_decimal_def d n_def)
      then have "literal_of d (s @ replicate (nat e) CHR ''0'') [] None"
        using False int hd digits ne
        by (simp add: literal_of_def d printed fraction_text_def exponent_text_def n_def)
      then show ?thesis by (rule that)
    next
      case point
      let ?i = "take (nat n) s" and ?f = "drop (nat n) s"
      have len: "nat n < length s" using point by (simp add: k_def)
      then have "?f \<noteq> []" "?i \<noteq> []" using point ne by simp_all
      moreover have "n - k = e" by (simp add: n_def)
      then have "signed_decimal (m < 0) ?i ?f 0 = d"
        using val norm len point by (simp add: signed_decimal_def k_def)
      ultimately have "literal_of d ?i ?f None"
        using False point hd digits
        by (auto simp: literal_of_def d printed fraction_text_def exponent_text_def hd_take parts_are_digits)
      then show ?thesis by (rule that)
    next
      case small
      let ?f = "replicate (nat (- n)) CHR ''0'' @ s"
      have "decimal_value (''0'' @ ?f) = decimal_value s"
        using decimal_value_zeros[of "Suc (nat (- n))"] decimal_value_append[of "replicate (Suc (nat (- n))) CHR ''0''" s]
        by simp
      moreover have "- int (length ?f) = e" using small by (simp add: n_def k_def)
      ultimately have "signed_decimal (m < 0) ''0'' ?f 0 = d" using val norm by (simp add: signed_decimal_def)
      moreover have "\<not> (k \<le> n \<and> n \<le> 21)" "\<not> (0 < n \<and> n \<le> 21)" using small k by simp_all
      ultimately have "literal_of d ''0'' ?f None"
        using False small digits ne
        by (simp add: literal_of_def d printed fraction_text_def exponent_text_def)
      then show ?thesis by (rule that)
    next
      case sci
      have len: "int (length (drop 1 s)) = k - 1" using k by (cases s) (simp_all add: k_def)
      have "n - 1 - (k - 1) = e" by (simp add: n_def)
      then have "signed_decimal (m < 0) (take 1 s) (drop 1 s) (n - 1) = d"
        using val norm len by (simp add: signed_decimal_def)
      moreover have "(k = 1) = (drop 1 s = [])" using k by (cases s) (simp_all add: k_def)
      ultimately have "literal_of d (take 1 s) (drop 1 s) (Some (n - 1))"
        using False sci hd digits ne
        by (auto simp: literal_of_def d printed fraction_text_def exponent_text_def hd_take parts_are_digits)
      then show ?thesis by (rule that)
    qed
  qed
qed

lemma digit_not_space: "is_digit c \<Longrightarrow> \<not> is_space c"
  by (auto simp: is_digit_def is_space_def Let_def)

lemma trim_text_id:
  assumes "s = [] \<or> \<not> is_space (hd s) \<and> \<not> is_space (last s)"
  shows "trim_text s = s"
proof -
  have d: "dropWhile is_space t = t" if "t = [] \<or> \<not> is_space (hd t)" for t using that by (cases t) auto
  have "dropWhile is_space s = s" "dropWhile is_space (rev s) = rev s" using assms by (auto simp: d hd_rev)
  then show ?thesis by (simp add: trim_text_def)
qed

lemma literal_ends_with_digit:
  assumes "list_all is_digit ip" and "list_all is_digit fp" and "ip \<noteq> []"
  shows "is_digit (last (ip @ fraction_text fp @ exponent_text ex))"
proof -
  have l: "s \<noteq> [] \<Longrightarrow> list_all is_digit s \<Longrightarrow> is_digit (last s)" for s by (simp add: list_all_iff)
  show ?thesis using assms l[of "show_nat n" for n] show_nat_is_digit
    by (cases ex) (auto simp: fraction_text_def exponent_text_def l)
qed

lemma digit_is_no_prefix_letter: "is_digit c \<Longrightarrow> lower_char c \<notin> set ''xob''"
proof -
  assume "is_digit c"
  then have "(of_char (lower_char c) :: nat) \<le> 57" by (simp add: lower_char_code is_digit_def Let_def)
  then show ?thesis by auto
qed

lemma js_number_text_trimmed:
  assumes "shortest d"
  shows "trim_text (js_number_text d) = js_number_text d" "js_number_text d \<noteq> []"
proof -
  from printed_literal[OF assms] obtain ip fp ex where lit: "literal_of d ip fp ex" by blast
  then have ip: "list_all is_digit ip" "list_all is_digit fp" "ip \<noteq> []" and
    body: "js_number_text d = (if mantissa d < 0 then ''-'' else []) @ ip @ fraction_text fp @ exponent_text ex"
    by (auto simp: literal_of_def)
  have hd: "is_digit (hd (ip @ fraction_text fp @ exponent_text ex))" using ip by (cases ip) simp_all
  have "is_digit (last (js_number_text d))" using literal_ends_with_digit[OF ip, of ex] ip(3) by (simp add: body)
  then show "trim_text (js_number_text d) = js_number_text d"
    by (intro trim_text_id) (use hd digit_not_space ip(3) in \<open>auto simp: body is_space_def\<close>)
  show "js_number_text d \<noteq> []" using ip(3) by (simp add: body)
qed

lemma js_number_shortest: "js_number t = Some d \<Longrightarrow> shortest d"
proof -
  have z: "shortest (Dec 0 0)" by (simp add: shortest_def)
  have b: "base_number k s = Some d \<Longrightarrow> shortest d" for k s
    by (auto simp: base_number_def whole_def split: if_splits)
  assume "js_number t = Some d"
  then show ?thesis using b z
    by (auto simp: js_number_def Let_def signed_decimal_def split: if_splits prod.splits)
qed

theorem js_number_round_trip:
  assumes "shortest d"
  shows "js_number (js_number_text d) = Some d"
proof -
  from printed_literal[OF assms] obtain ip fp ex where lit: "literal_of d ip fp ex" by blast
  let ?body = "ip @ fraction_text fp @ exponent_text ex" and ?x = "case ex of None \<Rightarrow> 0 | Some x \<Rightarrow> x"
  have ip: "list_all is_digit ip" "list_all is_digit fp" "ip \<noteq> []" and
    body: "js_number_text d = (if mantissa d < 0 then ''-'' else []) @ ?body" and
    val: "signed_decimal (mantissa d < 0) ip fp ?x = d" and lead: "ip = ''0'' \<or> hd ip \<noteq> CHR ''0''"
    using lit by (auto simp: literal_of_def)
  have hd: "is_digit (hd ?body)" using ip by (cases ip) simp_all
  note trim = js_number_text_trimmed(1)[OF assms]
  have scan: "scan_decimal ?body = (ip, fp \<noteq> [], fp, ?x, [])"
    using scan_decimal_pieces[OF ip(1,2), of "[]" ex] by (simp add: plain_rest_def)
  have no_prefix: "to_lower (take 2 (js_number_text d)) \<notin> {''0x'', ''0o'', ''0b''}"
  proof (cases "mantissa d < 0")
    case True
    then show ?thesis by (simp add: body to_lower_def lower_char_def)
  next
    case False
    show ?thesis
    proof (cases "tl ip")
      case Nil
      then obtain c where "ip = [c]" using ip(3) by (cases ip) auto
      with False show ?thesis
        by (auto simp: body to_lower_def fraction_text_def exponent_text_def lower_char_def Let_def take_Cons' split: option.splits)
    next
      case (Cons c2 cs)
      then obtain c1 where i: "ip = c1 # c2 # cs" using ip(3) by (cases ip) auto
      then have "is_digit c2" using ip(1) by simp
      from digit_is_no_prefix_letter[OF this] show ?thesis using False i by (auto simp: body to_lower_def)
    qed
  qed
  have first: "hd ?body \<noteq> CHR ''-''" "hd ?body \<noteq> CHR ''+''" using hd by auto
  have strip: "(if js_number_text d \<noteq> [] \<and> (hd (js_number_text d) = CHR ''-'' \<or> hd (js_number_text d) = CHR ''+'')
      then tl (js_number_text d) else js_number_text d) = ?body"
    using first by (simp add: body)
  have sign: "(js_number_text d \<noteq> [] \<and> hd (js_number_text d) = CHR ''-'') = (mantissa d < 0)"
    using first ip(3) by (simp add: body)
  have "js_number_text d \<noteq> []" using ip(3) by (simp add: body)
  with no_prefix show ?thesis
    unfolding js_number_def trim Let_def strip sign scan prod.case using ip(3) val by simp
qed

end
