(* ===== verification/Hls_Buffer.thy ===== *)
theory Hls_Buffer
  imports Js_Number Complex_Main
begin

section \<open>The buffered part of a stream\<close>

text \<open>
  \<^verbatim>\<open>streaming/buffer/hls-buffer.utils.ts\<close> with the names of
  \<^verbatim>\<open>streaming/utils/segment-name.utils.ts\<close>: the playlist ffmpeg writes is read into segments,
  the segments are joined into ranges, and a seek is answered from the ranges. A decimal is the
  rational it denotes. A line has no end-of-line character, so the \<^verbatim>\<open>\r\<close> the split may leave is
  the white space \<^verbatim>\<open>trim\<close> takes.
\<close>

subsection \<open>Names and numbers\<close>

definition SEGMENT_PREFIX :: string where
  "SEGMENT_PREFIX = ''seg_''"

definition SEGMENT_SUFFIX :: string where
  "SEGMENT_SUFFIX = ''.m4s''"

definition INIT_SEGMENT_FILE_NAME :: string where
  "INIT_SEGMENT_FILE_NAME = ''init.mp4''"

text \<open>What follows the digits of a segment name, when the text starts with one.\<close>

definition segment_match :: "string \<Rightarrow> (nat \<times> string) option" where
  "segment_match s =
     (if take 4 s \<noteq> SEGMENT_PREFIX then None
      else (let digits = takeWhile is_digit (drop 4 s); rest = dropWhile is_digit (drop 4 s) in
            if digits \<noteq> [] \<and> take 4 rest = SEGMENT_SUFFIX then Some (decimal_value digits, drop 4 rest) else None))"

definition isSegmentFile :: "string \<Rightarrow> bool" where
  "isSegmentFile name \<longleftrightarrow> name = INIT_SEGMENT_FILE_NAME \<or>
     (case segment_match name of Some (_, rest) \<Rightarrow> rest = [] | None \<Rightarrow> False)"

text \<open>The places where the URI pattern may match: the start, and behind every slash.\<close>

fun after_slashes :: "string \<Rightarrow> string list" where
  "after_slashes [] = []"
| "after_slashes (c # s) = (if c = CHR ''/'' then s # after_slashes s else after_slashes s)"

definition uri_end :: "string \<Rightarrow> bool" where
  "uri_end rest \<longleftrightarrow> rest = [] \<or> hd rest = CHR ''?'' \<and> list_all (\<lambda>c. c \<noteq> CHR 0x0A \<and> c \<noteq> CHR 0x0D) rest"

definition parseSegmentUriIndex :: "string \<Rightarrow> nat option" where
  "parseSegmentUriIndex uri =
     (case List.map_filter (\<lambda>s. case segment_match s of Some (n, rest) \<Rightarrow> if uri_end rest then Some n else None | None \<Rightarrow> None)
             (uri # after_slashes uri) of
        [] \<Rightarrow> None | n # _ \<Rightarrow> Some n)"

text \<open>\<^verbatim>\<open>Number.parseInt\<close> in base 10: white space, a sign, the longest run of digits.\<close>

definition js_parse_int :: "string \<Rightarrow> int option" where
  "js_parse_int s =
     (let t = dropWhile is_space s;
          neg = (t \<noteq> [] \<and> hd t = CHR ''-'');
          u = (if t \<noteq> [] \<and> (hd t = CHR ''-'' \<or> hd t = CHR ''+'') then tl t else t);
          digits = takeWhile is_digit u
      in if digits = [] then None else Some (if neg then - int (decimal_value digits) else int (decimal_value digits)))"

definition parseSegmentName :: "string \<Rightarrow> rat \<Rightarrow> nat \<times> rat" where
  "parseSegmentName segmentName segmentDuration =
     (if take 4 segmentName = SEGMENT_PREFIX \<and> 4 \<le> length segmentName \<and>
         drop (length segmentName - 4) segmentName = SEGMENT_SUFFIX then
        (case js_parse_int (take (length segmentName - 8) (drop 4 segmentName)) of
           None \<Rightarrow> (0, 0)
         | Some i \<Rightarrow> if i < 0 then (0, 0) else (nat i, of_int i * segmentDuration))
      else (0, 0))"

text \<open>\<^verbatim>\<open>Number\<close> of a text of digits and dots.\<close>

definition number_text :: "string \<Rightarrow> rat option" where
  "number_text s =
     (case split_on CHR ''.'' s of
        [i] \<Rightarrow> Some (of_nat (decimal_value i))
      | [i, f] \<Rightarrow> if i = [] \<and> f = [] then None
                  else Some (of_nat (decimal_value i) + of_nat (decimal_value f) / 10 ^ length f)
      | _ \<Rightarrow> None)"

subsection \<open>The playlist\<close>

record buffered_segment =
  hb_index :: nat
  hb_startTime :: rat
  hb_endTime :: rat
  hb_duration :: rat

record buffer_range =
  hr_startTime :: rat
  hr_endTime :: rat
  hr_startSegment :: nat
  hr_endSegment :: nat
  hr_segmentCount :: nat

record buffer_analysis =
  ha_complete :: bool
  ha_segments :: "buffered_segment list"
  ha_ranges :: "buffer_range list"
  ha_bufferedSeconds :: rat
  ha_bufferedUntil :: rat

record hls_scan =
  hs_uniqueByIndex :: "(nat, buffered_segment) jsmap"
  hs_pendingDuration :: "rat option"
  hs_complete :: bool

text \<open>The value of a duration line, when the line is one: the number, or nothing when it is none.\<close>

definition extinf :: "string \<Rightarrow> rat option option" where
  "extinf line =
     (let digits = takeWhile (\<lambda>c. is_digit c \<or> c = CHR ''.'') (drop 8 line) in
      if take 8 line = ''#EXTINF:'' \<and> digits \<noteq> [] then Some (number_text digits) else None)"

definition scan_line :: "rat \<Rightarrow> string \<Rightarrow> hls_scan \<Rightarrow> hls_scan" where
  "scan_line segmentDuration rawLine s =
     (let line = trim_text rawLine in
      if line = [] then s
      else if line = ''#EXT-X-ENDLIST'' then s\<lparr>hs_complete := True\<rparr>
      else (case extinf line of
              Some duration \<Rightarrow> s\<lparr>hs_pendingDuration := duration\<rparr>
            | None \<Rightarrow>
                (case hs_pendingDuration s of
                   None \<Rightarrow> s
                 | Some duration \<Rightarrow>
                     if hd line = CHR ''#'' then s
                     else (let s1 = s\<lparr>hs_pendingDuration := None\<rparr> in
                           case parseSegmentUriIndex line of
                             None \<Rightarrow> s1
                           | Some i \<Rightarrow>
                               (let startTime = of_nat i * segmentDuration in
                                s1\<lparr>hs_uniqueByIndex := AList.update i
                                     \<lparr>hb_index = i, hb_startTime = startTime, hb_endTime = startTime + duration,
                                      hb_duration = duration\<rparr> (hs_uniqueByIndex s1)\<rparr>)))))"

definition scan_playlist :: "string \<Rightarrow> rat \<Rightarrow> hls_scan" where
  "scan_playlist playlist segmentDuration =
     fold (scan_line segmentDuration) (split_on CHR 0x0A playlist)
       \<lparr>hs_uniqueByIndex = [], hs_pendingDuration = None, hs_complete = False\<rparr>"

definition add_segment :: "buffer_range list \<Rightarrow> buffered_segment \<Rightarrow> buffer_range list" where
  "add_segment ranges seg =
     (if ranges \<noteq> [] \<and> hb_index seg = hr_endSegment (last ranges) + 1
      then butlast ranges @ [(last ranges)\<lparr>hr_endSegment := hb_index seg, hr_endTime := hb_endTime seg,
             hr_segmentCount := hr_segmentCount (last ranges) + 1\<rparr>]
      else ranges @ [\<lparr>hr_startTime = hb_startTime seg, hr_endTime = hb_endTime seg, hr_startSegment = hb_index seg,
             hr_endSegment = hb_index seg, hr_segmentCount = 1\<rparr>])"

definition createRanges :: "buffered_segment list \<Rightarrow> buffer_range list" where
  "createRanges segments = foldl add_segment [] segments"

definition parseHlsBuffer :: "string \<Rightarrow> rat \<Rightarrow> buffer_analysis" where
  "parseHlsBuffer playlist segmentDuration =
     (let s = scan_playlist playlist segmentDuration;
          uniqueSegments = sort_key hb_index (map snd (hs_uniqueByIndex s));
          ranges = createRanges uniqueSegments
      in \<lparr>ha_complete = hs_complete s, ha_segments = uniqueSegments, ha_ranges = ranges,
          ha_bufferedSeconds = foldl (\<lambda>total seg. total + hb_duration seg) 0 uniqueSegments,
          ha_bufferedUntil = (if ranges = [] then 0 else hr_endTime (last ranges))\<rparr>)"

definition isPositionBuffered :: "buffer_analysis \<Rightarrow> rat \<Rightarrow> bool" where
  "isPositionBuffered analysis position \<longleftrightarrow>
     list_ex (\<lambda>r. position \<ge> hr_startTime r \<and> position < hr_endTime r) (ha_ranges analysis)"

definition getBufferedSeekStart :: "buffer_analysis \<Rightarrow> rat \<Rightarrow> rat \<Rightarrow> rat option" where
  "getBufferedSeekStart analysis position segmentDuration =
     (if isPositionBuffered analysis position
      then Some (of_int \<lfloor>max 0 position / segmentDuration\<rfloor> * segmentDuration) else None)"

text \<open>\<^verbatim>\<open>toFixed(2)\<close> rounds to hundredths, halves up, symmetrically about zero.\<close>

definition to_fixed2 :: "rat \<Rightarrow> rat" where
  "to_fixed2 x = (if x < 0 then - (of_int \<lfloor>- x * 100 + 1 / 2\<rfloor> / 100) else of_int \<lfloor>x * 100 + 1 / 2\<rfloor> / 100)"

definition calculateBufferProgress :: "rat \<Rightarrow> rat option \<Rightarrow> rat option" where
  "calculateBufferProgress bufferedUntil duration =
     (case duration of
        None \<Rightarrow> None
      | Some d \<Rightarrow> if d \<le> 0 then None else Some (clamp (to_fixed2 (bufferedUntil / d * 100)) 0 100))"

subsection \<open>Ranges are the runs of the listed segments\<close>

text \<open>A run: consecutive numbers of the set, as many as there are.\<close>

definition is_run :: "nat set \<Rightarrow> nat \<Rightarrow> nat \<Rightarrow> bool" where
  "is_run I a b \<longleftrightarrow> a \<le> b \<and> {a..b} \<subseteq> I \<and> (a = 0 \<or> a - 1 \<notin> I) \<and> Suc b \<notin> I"

lemma run_start_le:
  assumes "is_run I a b" and "is_run I c d" and "i \<in> {a..b}" and "i \<in> {c..d}"
  shows "a \<le> c"
proof (rule ccontr)
  assume "\<not> a \<le> c"
  then have "a - 1 \<in> {c..d}" "a \<noteq> 0" using assms(3,4) by auto
  with assms(1,2) show False unfolding is_run_def by blast
qed

lemma run_end_le:
  assumes "is_run I a b" and "is_run I c d" and "i \<in> {a..b}" and "i \<in> {c..d}"
  shows "b \<le> d"
proof (rule ccontr)
  assume "\<not> b \<le> d"
  then have "Suc d \<in> {a..b}" using assms(3,4) by auto
  with assms(1,2) show False unfolding is_run_def by blast
qed

lemma runs_unique:
  "is_run I a b \<Longrightarrow> is_run I c d \<Longrightarrow> i \<in> {a..b} \<Longrightarrow> i \<in> {c..d} \<Longrightarrow> a = c \<and> b = d"
  using run_start_le[of I a b c d i] run_start_le[of I c d a b i] run_end_le[of I a b c d i] run_end_le[of I c d a b i]
  by simp

text \<open>What the ranges of a sorted list of segments are: all but the last one are runs already.\<close>

definition range_of :: "buffered_segment list \<Rightarrow> buffer_range \<Rightarrow> bool" where
  "range_of segs r \<longleftrightarrow> hr_startSegment r \<le> hr_endSegment r \<and>
     {hr_startSegment r..hr_endSegment r} \<subseteq> hb_index ` set segs \<and>
     (hr_startSegment r = 0 \<or> hr_startSegment r - 1 \<notin> hb_index ` set segs) \<and>
     (\<exists>s \<in> set segs. hb_index s = hr_startSegment r \<and> hr_startTime r = hb_startTime s) \<and>
     (\<exists>s \<in> set segs. hb_index s = hr_endSegment r \<and> hr_endTime r = hb_endTime s)"

definition ranges_ok :: "buffered_segment list \<Rightarrow> buffer_range list \<Rightarrow> bool" where
  "ranges_ok segs ranges \<longleftrightarrow> (\<forall>r \<in> set ranges. range_of segs r) \<and>
     (\<forall>r \<in> set (butlast ranges). Suc (hr_endSegment r) \<notin> hb_index ` set segs \<and> Suc (hr_endSegment r) < hb_index (last segs)) \<and>
     (\<forall>s \<in> set segs. \<exists>r \<in> set ranges. hb_index s \<in> {hr_startSegment r..hr_endSegment r}) \<and>
     (segs \<noteq> [] \<longrightarrow> ranges \<noteq> [] \<and> hr_endSegment (last ranges) = hb_index (last segs))"

lemma range_of_more:
  assumes "range_of segs r" and "\<And>x. x \<in> set segs \<Longrightarrow> hb_index x < hb_index s"
  shows "range_of (segs @ [s]) r"
proof -
  have "hr_startSegment r \<in> hb_index ` set segs" using assms(1) by (auto simp: range_of_def)
  then have "hr_startSegment r < hb_index s" using assms(2) by auto
  with assms(1) show ?thesis unfolding range_of_def by auto
qed

lemma add_segment_ok:
  assumes ok: "ranges_ok segs ranges" and above: "\<And>x. x \<in> set segs \<Longrightarrow> hb_index x < hb_index s"
  shows "ranges_ok (segs @ [s]) (add_segment ranges s)"
proof (cases "segs = []")
  case True
  with ok have "ranges = []" by (cases ranges) (auto simp: ranges_ok_def range_of_def)
  with True show ?thesis by (cases "hb_index s") (simp_all add: add_segment_def ranges_ok_def range_of_def)
next
  case False
  define r where "r = last ranges"
  have ne: "ranges \<noteq> []" and r_end: "hr_endSegment r = hb_index (last segs)" using ok False by (auto simp: ranges_ok_def r_def)
  have split_r: "ranges = butlast ranges @ [r]" using ne by (simp add: r_def)
  have each: "\<And>q. q \<in> set ranges \<Longrightarrow> range_of segs q" using ok by (simp add: ranges_ok_def)
  then have r: "range_of segs r" using ne by (simp add: r_def)
  have top: "hb_index (last segs) < hb_index s" using above False by simp
  have early: "\<forall>q \<in> set (butlast ranges). Suc (hr_endSegment q) \<notin> hb_index ` set (segs @ [s]) \<and> Suc (hr_endSegment q) < hb_index s"
    using ok top unfolding ranges_ok_def by fastforce
  have covered: "\<exists>q \<in> set ranges. hb_index x \<in> {hr_startSegment q..hr_endSegment q}" if "x \<in> set segs" for x
    using ok that by (simp add: ranges_ok_def)
  show ?thesis
  proof (cases "hb_index s = hr_endSegment r + 1")
    case True
    let ?r = "r\<lparr>hr_endSegment := hb_index s, hr_endTime := hb_endTime s, hr_segmentCount := hr_segmentCount r + 1\<rparr>"
    have eq: "add_segment ranges s = butlast ranges @ [?r]" using ne True by (simp add: add_segment_def r_def)
    have "range_of (segs @ [s]) ?r"
    proof -
      have "{hr_startSegment r..hb_index s} \<subseteq> hb_index ` set (segs @ [s])"
        using r True by (auto simp: range_of_def atLeastAtMostSuc_conv)
      with range_of_more[OF r above] r True show ?thesis unfolding range_of_def by auto
    qed
    moreover have "range_of (segs @ [s]) q" if "q \<in> set (butlast ranges)" for q
      using range_of_more[OF each above] that in_set_butlastD[OF that] by blast
    moreover have "\<exists>q \<in> set (butlast ranges @ [?r]). hb_index x \<in> {hr_startSegment q..hr_endSegment q}" if "x \<in> set (segs @ [s])" for x
    proof (cases "x = s")
      case True
      have "hr_startSegment r \<le> hb_index s" using r top r_end by (simp add: range_of_def)
      with True show ?thesis by simp
    next
      case False
      with that obtain q where q: "q \<in> set ranges" "hb_index x \<in> {hr_startSegment q..hr_endSegment q}" using covered by auto
      have "q \<in> set (butlast ranges) \<or> q = r" using q(1) split_r by (metis Un_iff empty_iff insert_iff list.set set_append)
      with q(2) True show ?thesis by auto
    qed
    ultimately show ?thesis using early unfolding ranges_ok_def eq by auto
  next
    case False
    let ?r = "\<lparr>hr_startTime = hb_startTime s, hr_endTime = hb_endTime s, hr_startSegment = hb_index s,
             hr_endSegment = hb_index s, hr_segmentCount = 1\<rparr>"
    have eq: "add_segment ranges s = ranges @ [?r]" using False by (simp add: add_segment_def r_def)
    have gap: "Suc (hb_index (last segs)) < hb_index s" using False r_end top by simp
    have high: "hb_index x \<le> hb_index (last segs)" if x: "x \<in> set segs" for x
    proof -
      obtain q where q: "q \<in> set ranges" "hb_index x \<le> hr_endSegment q" using covered[OF x] by auto
      have "q \<in> set (butlast ranges) \<or> q = r" using q(1) split_r by (metis Un_iff empty_iff insert_iff list.set set_append)
      then show ?thesis
      proof
        assume "q \<in> set (butlast ranges)"
        then have "Suc (hr_endSegment q) < hb_index (last segs)" using ok by (simp add: ranges_ok_def)
        with q(2) show ?thesis by simp
      qed (use q r_end in simp)
    qed
    have "range_of (segs @ [s]) ?r"
      using gap high by (fastforce simp: range_of_def)
    moreover have "Suc (hr_endSegment r) \<notin> hb_index ` set (segs @ [s])" using gap high r_end by fastforce
    moreover have "set (butlast (ranges @ [?r])) = insert r (set (butlast ranges))" using split_r by (metis Un_insert_right butlast_snoc list.simps(15) set_append sup_bot.right_neutral empty_set)
    ultimately show ?thesis
      using early gap r_end range_of_more[OF each above] covered unfolding ranges_ok_def eq by auto
  qed
qed

lemma createRanges_ok:
  "sorted (map hb_index segs) \<Longrightarrow> distinct (map hb_index segs) \<Longrightarrow> ranges_ok segs (createRanges segs)"
proof (induction segs rule: rev_induct)
  case Nil
  show ?case by (simp add: createRanges_def ranges_ok_def)
next
  case (snoc s segs)
  have "hb_index x < hb_index s" if "x \<in> set segs" for x
  proof -
    have "hb_index x \<le> hb_index s" "hb_index s \<notin> hb_index ` set segs" using snoc.prems that by (simp_all add: sorted_append)
    with that show ?thesis by (metis image_eqI le_neq_implies_less)
  qed
  with snoc show ?case
    by (simp add: createRanges_def add_segment_ok sorted_append)
qed

text \<open>The ranges of a whole list are exactly its runs.\<close>

lemma ranges_are_runs:
  assumes ok: "ranges_ok segs ranges" and top: "\<And>x. x \<in> set segs \<Longrightarrow> hb_index x \<le> hb_index (last segs)"
  shows "(\<exists>r \<in> set ranges. hr_startSegment r = a \<and> hr_endSegment r = b) \<longleftrightarrow> is_run (hb_index ` set segs) a b"
proof -
  have run: "is_run (hb_index ` set segs) (hr_startSegment r) (hr_endSegment r)" if r: "r \<in> set ranges" for r
  proof -
    have rng: "range_of segs r" using ok r by (simp add: ranges_ok_def)
    have ne: "segs \<noteq> []" using rng by (auto simp: range_of_def)
    have "Suc (hr_endSegment r) \<notin> hb_index ` set segs"
    proof (cases "r \<in> set (butlast ranges)")
      case False
      have "ranges \<noteq> []" using r by auto
      then have "set ranges = insert (last ranges) (set (butlast ranges))"
        by (metis append_butlast_last_id list.simps(15) rotate1.simps(2) set_rotate1)
      with r False have "r = last ranges" by blast
      with ok ne have "hr_endSegment r = hb_index (last segs)" by (simp add: ranges_ok_def)
      with top show ?thesis by fastforce
    qed (use ok in \<open>simp add: ranges_ok_def\<close>)
    with rng show ?thesis unfolding range_of_def is_run_def by blast
  qed
  show ?thesis
  proof
    assume ab: "is_run (hb_index ` set segs) a b"
    then have "a \<in> hb_index ` set segs" by (auto simp: is_run_def)
    then obtain r where r: "r \<in> set ranges" "a \<in> {hr_startSegment r..hr_endSegment r}" using ok by (auto simp: ranges_ok_def)
    have "a \<in> {a..b}" using ab by (simp add: is_run_def)
    from runs_unique[OF run[OF r(1)] ab r(2) this] r(1) show "\<exists>r \<in> set ranges. hr_startSegment r = a \<and> hr_endSegment r = b"
      by blast
  qed (use run in blast)
qed

subsection \<open>The segments of a playlist\<close>

lemma scan_line_segments:
  assumes "wf_map (hs_uniqueByIndex s)" and "\<And>i g. (i, g) \<in> set (hs_uniqueByIndex s) \<Longrightarrow>
      hb_index g = i \<and> hb_startTime g = of_nat i * d \<and> hb_endTime g = of_nat i * d + hb_duration g"
  shows "wf_map (hs_uniqueByIndex (scan_line d l s)) \<and> (\<forall>(i, g) \<in> set (hs_uniqueByIndex (scan_line d l s)).
      hb_index g = i \<and> hb_startTime g = of_nat i * d \<and> hb_endTime g = of_nat i * d + hb_duration g)"
proof -
  have upd: "(i, g) \<in> set (AList.update k v m) \<Longrightarrow> (i, g) \<in> set m \<or> (i = k \<and> g = v)"
    for i k g v and m :: "(nat, buffered_segment) jsmap"
    by (induction m) (auto split: if_splits)
  show ?thesis
    using assms by (auto simp: scan_line_def Let_def split: option.split dest!: upd)
qed

lemma scan_playlist_segments:
  "wf_map (hs_uniqueByIndex (scan_playlist t d)) \<and> (\<forall>(i, g) \<in> set (hs_uniqueByIndex (scan_playlist t d)).
      hb_index g = i \<and> hb_startTime g = of_nat i * d \<and> hb_endTime g = of_nat i * d + hb_duration g)"
proof -
  let ?P = "\<lambda>s. wf_map (hs_uniqueByIndex s) \<and> (\<forall>(i, g) \<in> set (hs_uniqueByIndex s).
      hb_index g = i \<and> hb_startTime g = of_nat i * d \<and> hb_endTime g = of_nat i * d + hb_duration g)"
  have loop: "?P s \<Longrightarrow> ?P (fold (scan_line d) ls s)" for ls s
  proof (induction ls arbitrary: s)
    case (Cons l ls)
    from Cons.prems have "?P (scan_line d l s)" by (intro scan_line_segments) auto
    from Cons.IH[OF this] show ?case by simp
  qed simp
  have "?P (scan_playlist t d)" unfolding scan_playlist_def by (rule loop) simp
  then show ?thesis .
qed

definition listed_duration :: "string \<Rightarrow> rat \<Rightarrow> nat \<Rightarrow> rat option" where
  "listed_duration playlist d i = map_option hb_duration (map_of (hs_uniqueByIndex (scan_playlist playlist d)) i)"

lemma segments_sorted:
  assumes "wf_map m" and "\<And>i g. (i, g) \<in> set m \<Longrightarrow> hb_index g = i"
  shows "sorted (map hb_index (sort_key hb_index (map snd m))) \<and> distinct (map hb_index (sort_key hb_index (map snd m))) \<and>
    set (sort_key hb_index (map snd m)) = snd ` set m"
proof -
  have k: "map hb_index (map snd m) = keys m" using assms(2) by (induction m) auto
  have "mset (map hb_index (sort_key hb_index (map snd m))) = mset (keys m)"
    unfolding k[symmetric] by (simp add: multiset.map_comp)
  then have "distinct (map hb_index (sort_key hb_index (map snd m)))"
    using assms(1) by (metis mset_eq_imp_distinct_iff)
  then show ?thesis by simp
qed

lemma buffered_in_run:
  "isPositionBuffered (parseHlsBuffer playlist d) x \<longleftrightarrow>
     (\<exists>a b len. is_run {i. listed_duration playlist d i \<noteq> None} a b \<and> listed_duration playlist d b = Some len \<and>
        of_nat a * d \<le> x \<and> x < of_nat b * d + len)"
proof -
  define m where "m = hs_uniqueByIndex (scan_playlist playlist d)"
  define segs where "segs = sort_key hb_index (map snd m)"
  have wf: "wf_map m" and entry: "hb_index g = i \<and> hb_startTime g = of_nat i * d \<and> hb_endTime g = of_nat i * d + hb_duration g"
    if "(i, g) \<in> set m" for i g
    using scan_playlist_segments[of playlist d] that by (auto simp: m_def)
  note wf = scan_playlist_segments[of playlist d, THEN conjunct1, folded m_def]
  have sorted: "sorted (map hb_index segs)" "distinct (map hb_index segs)" "set segs = snd ` set m"
    using segments_sorted[OF wf] entry unfolding segs_def by blast+
  have idx: "hb_index ` set segs = {i. listed_duration playlist d i \<noteq> None}"
  proof -
    have "hb_index ` set segs = set (keys m)" unfolding sorted(3) using entry by force
    then show ?thesis by (auto simp: listed_duration_def m_def[symmetric] map_of_eq_None_iff)
  qed
  have ok: "ranges_ok segs (createRanges segs)" by (rule createRanges_ok[OF sorted(1,2)])
  have top: "hb_index x \<le> hb_index (last segs)" if "x \<in> set segs" for x
  proof -
    have "segs = butlast segs @ [last segs]" using that by (cases segs) auto
    then have "sorted (map hb_index (butlast segs @ [last segs]))" and "x \<in> set (butlast segs @ [last segs])"
      using sorted(1) that by metis+
    then show ?thesis by (auto simp: sorted_append)
  qed
  have runs: "(\<exists>r \<in> set (createRanges segs). hr_startSegment r = a \<and> hr_endSegment r = b) \<longleftrightarrow> is_run (hb_index ` set segs) a b" for a b
    by (rule ranges_are_runs[OF ok top])
  have seg: "hb_startTime s = of_nat i * d" "listed_duration playlist d i = Some (hb_endTime s - of_nat i * d)"
    if "s \<in> set segs" "hb_index s = i" for s i
  proof -
    have s: "(i, s) \<in> set m" using that entry sorted(3) by auto
    with entry show "hb_startTime s = of_nat i * d" by blast
    show "listed_duration playlist d i = Some (hb_endTime s - of_nat i * d)"
      using entry[OF s] s wf by (simp add: listed_duration_def m_def[symmetric])
  qed
  have times: "hr_startTime r = of_nat (hr_startSegment r) * d \<and>
      listed_duration playlist d (hr_endSegment r) = Some (hr_endTime r - of_nat (hr_endSegment r) * d)"
    if "r \<in> set (createRanges segs)" for r
  proof -
    have "range_of segs r" using ok that by (simp add: ranges_ok_def)
    with seg show ?thesis unfolding range_of_def by metis
  qed
  have "isPositionBuffered (parseHlsBuffer playlist d) x \<longleftrightarrow>
      (\<exists>r \<in> set (createRanges segs). hr_startTime r \<le> x \<and> x < hr_endTime r)"
    by (simp add: isPositionBuffered_def parseHlsBuffer_def Let_def segs_def m_def list_ex_iff)
  also have "\<dots> \<longleftrightarrow> (\<exists>a b len. (\<exists>r \<in> set (createRanges segs). hr_startSegment r = a \<and> hr_endSegment r = b) \<and>
      listed_duration playlist d b = Some len \<and> of_nat a * d \<le> x \<and> x < of_nat b * d + len)"
    using times by fastforce
  finally show ?thesis by (simp only: runs idx)
qed

text \<open>
  C27. A position counts as buffered exactly when it lies between the start of the first and the end
  of the last segment of an unbroken run of segments the playlist lists with a duration. A seek is
  answered from the buffer exactly there, with the start of the segment's slot the position falls
  in, and that start is buffered as well.
\<close>

theorem buffered_iff_in_run:
  assumes "0 < d"
  shows "(isPositionBuffered (parseHlsBuffer playlist d) x \<longleftrightarrow>
       (\<exists>a b len. is_run {i. listed_duration playlist d i \<noteq> None} a b \<and> listed_duration playlist d b = Some len \<and>
          of_nat a * d \<le> x \<and> x < of_nat b * d + len)) \<and>
     (getBufferedSeekStart (parseHlsBuffer playlist d) x d \<noteq> None \<longleftrightarrow> isPositionBuffered (parseHlsBuffer playlist d) x) \<and>
     (\<forall>y. getBufferedSeekStart (parseHlsBuffer playlist d) x d = Some y \<longrightarrow>
        y \<le> x \<and> x < y + d \<and> isPositionBuffered (parseHlsBuffer playlist d) y)"
proof -
  have "y \<le> x \<and> x < y + d \<and> isPositionBuffered (parseHlsBuffer playlist d) y"
    if y: "getBufferedSeekStart (parseHlsBuffer playlist d) x d = Some y" for y
  proof -
    have buf: "isPositionBuffered (parseHlsBuffer playlist d) x" and y': "y = of_int \<lfloor>max 0 x / d\<rfloor> * d"
      using y by (simp_all add: getBufferedSeekStart_def split: if_splits)
    obtain a b len where run: "is_run {i. listed_duration playlist d i \<noteq> None} a b" "listed_duration playlist d b = Some len"
        "of_nat a * d \<le> x" "x < of_nat b * d + len"
      using buf unfolding buffered_in_run by blast
    have x0: "0 \<le> x" using run(3) assms by (meson mult_nonneg_nonneg of_nat_0_le_iff order_trans less_imp_le)
    then have y1: "y = of_int \<lfloor>x / d\<rfloor> * d" by (simp add: y')
    have fl: "of_int \<lfloor>x / d\<rfloor> \<le> x / d" "x / d < of_int \<lfloor>x / d\<rfloor> + 1" by linarith+
    have le: "y \<le> x" using fl(1) assms by (simp only: y1 pos_le_divide_eq)
    have "x < y + d" using fl(2) assms by (simp add: y1 pos_divide_less_eq distrib_right)
    note le = le this
    have "of_nat a \<le> x / d" using run(3) assms by (simp add: field_simps)
    then have "int a \<le> \<lfloor>x / d\<rfloor>" by (simp add: le_floor_iff)
    then have "of_int (int a) \<le> (of_int \<lfloor>x / d\<rfloor> :: rat)" by (simp only: of_int_le_iff)
    then have start: "of_nat a * d \<le> y" using mult_right_mono[of "of_int (int a)" "of_int \<lfloor>x / d\<rfloor>" d] assms by (simp add: y1)
    moreover have "y < of_nat b * d + len" using le(1) run(4) by (rule le_less_trans)
    ultimately have "isPositionBuffered (parseHlsBuffer playlist d) y"
      using run(1,2) unfolding buffered_in_run by blast
    with le show ?thesis by blast
  qed
  moreover have "getBufferedSeekStart (parseHlsBuffer playlist d) x d \<noteq> None \<longleftrightarrow> isPositionBuffered (parseHlsBuffer playlist d) x"
    by (simp add: getBufferedSeekStart_def)
  ultimately show ?thesis using buffered_in_run[of playlist d x] by blast
qed

theorem buffered_iff_in_run_witness:
  "getBufferedSeekStart (parseHlsBuffer (''#EXTM3U'' @ [CHR 0x0A] @ ''#EXTINF:6.0,'' @ [CHR 0x0A] @ ''seg_2.m4s'' @ [CHR 0x0A]) 6) 13 6 = Some 12 \<and>
   isPositionBuffered (parseHlsBuffer (''#EXTM3U'' @ [CHR 0x0A] @ ''#EXTINF:6.0,'' @ [CHR 0x0A] @ ''seg_2.m4s'' @ [CHR 0x0A]) 6) 12"
proof
  show s: "getBufferedSeekStart (parseHlsBuffer (''#EXTM3U'' @ [CHR 0x0A] @ ''#EXTINF:6.0,'' @ [CHR 0x0A] @ ''seg_2.m4s'' @ [CHR 0x0A]) 6) 13 6 = Some 12"
    by code_simp
  show "isPositionBuffered (parseHlsBuffer (''#EXTM3U'' @ [CHR 0x0A] @ ''#EXTINF:6.0,'' @ [CHR 0x0A] @ ''seg_2.m4s'' @ [CHR 0x0A]) 6) 12"
    using buffered_iff_in_run[of 6 "''#EXTM3U'' @ [CHR 0x0A] @ ''#EXTINF:6.0,'' @ [CHR 0x0A] @ ''seg_2.m4s'' @ [CHR 0x0A]" 13] s by auto
qed

end
