(* ===== verification/Json.thy ===== *)
theory Json
  imports Js_Number
begin

section \<open>JSON texts\<close>

text \<open>
  \<^verbatim>\<open>JSON.parse\<close> and \<^verbatim>\<open>JSON.stringify\<close> as \<^verbatim>\<open>safeParseJson\<close> of \<^verbatim>\<open>utils/json.utils.ts\<close> and
  the settings store use them. A text is its UTF-8 bytes, a number the decimal of \<open>Js_Number\<close>.
  The parser recurses on fuel; \<open>json_value_enough\<close> shows that the fuel \<open>json_parse\<close> gives it is
  always enough, so \<open>None\<close> only ever means a syntax error.
\<close>

datatype json =
    JNull
  | JBool bool
  | JNumber decimal
  | JString string
  | JArray "json list"
  | JObject "(string \<times> json) list"

subsection \<open>Printing\<close>

definition hex_digit :: "nat \<Rightarrow> char" where
  "hex_digit n = (if n < 10 then char_of (48 + n) else char_of (87 + n))"

definition json_escape :: "char \<Rightarrow> string" where
  "json_escape c =
     (let n = (of_char c :: nat) in
      if n = 34 then [CHR 0x5C, CHR 0x22]
      else if n = 92 then [CHR 0x5C, CHR 0x5C]
      else if n = 8 then [CHR 0x5C, CHR ''b'']
      else if n = 12 then [CHR 0x5C, CHR ''f'']
      else if n = 10 then [CHR 0x5C, CHR ''n'']
      else if n = 13 then [CHR 0x5C, CHR ''r'']
      else if n = 9 then [CHR 0x5C, CHR ''t'']
      else if n < 32 then [CHR 0x5C, CHR ''u'', CHR ''0'', CHR ''0'', hex_digit (n div 16), hex_digit (n mod 16)]
      else [c])"

definition json_quote :: "string \<Rightarrow> string" where
  "json_quote s = CHR 0x22 # concat (map json_escape s) @ [CHR 0x22]"

fun separated :: "string \<Rightarrow> string list \<Rightarrow> string" where
  "separated sep [] = []"
| "separated sep [x] = x"
| "separated sep (x # y # xs) = x @ sep @ separated sep (y # xs)"

fun json_text :: "json \<Rightarrow> string" where
  "json_text JNull = ''null''"
| "json_text (JBool b) = (if b then ''true'' else ''false'')"
| "json_text (JNumber d) = js_number_text d"
| "json_text (JString s) = json_quote s"
| "json_text (JArray xs) = ''['' @ separated '','' (map json_text xs) @ '']''"
| "json_text (JObject kvs) = ''{'' @ separated '','' (map (\<lambda>(k, v). json_quote k @ '':'' @ json_text v) kvs) @ ''}''"

subsection \<open>Parsing\<close>

definition json_space :: "char \<Rightarrow> bool" where
  "json_space c \<longleftrightarrow> c \<in> {CHR '' '', CHR 0x09, CHR 0x0A, CHR 0x0D}"

abbreviation skip_space :: "string \<Rightarrow> string" where
  "skip_space \<equiv> dropWhile json_space"

definition utf8 :: "nat \<Rightarrow> string" where
  "utf8 n =
     (if n < 0x80 then [char_of n]
      else if n < 0x800 then [char_of (0xC0 + n div 64), char_of (0x80 + n mod 64)]
      else if n < 0x10000 then [char_of (0xE0 + n div 4096), char_of (0x80 + n div 64 mod 64), char_of (0x80 + n mod 64)]
      else [char_of (0xF0 + n div 262144), char_of (0x80 + n div 4096 mod 64), char_of (0x80 + n div 64 mod 64),
            char_of (0x80 + n mod 64)])"

definition hex4 :: "string \<Rightarrow> nat option" where
  "hex4 s = (if 4 \<le> length s \<and> list_all (\<lambda>c. digit_of_base c < 16) (take 4 s)
             then Some (foldl (\<lambda>n c. 16 * n + digit_of_base c) 0 (take 4 s)) else None)"

text \<open>The code point behind \<^verbatim>\<open>\u\<close>, a surrogate pair taken as one, and the length of its escape.\<close>

definition unicode_escape :: "string \<Rightarrow> (nat \<times> nat) option" where
  "unicode_escape s =
     (case hex4 s of
        None \<Rightarrow> None
      | Some u \<Rightarrow>
          Some (if 0xD800 \<le> u \<and> u < 0xDC00 \<and> take 2 (drop 4 s) = [CHR 0x5C, CHR ''u''] then
                  (case hex4 (drop 6 s) of
                     Some l \<Rightarrow> if 0xDC00 \<le> l \<and> l < 0xE000
                               then (0x10000 + (u - 0xD800) * 1024 + (l - 0xDC00), 10) else (u, 4)
                   | None \<Rightarrow> (u, 4))
                else (u, 4)))"

definition simple_escape :: "char \<Rightarrow> char option" where
  "simple_escape e = map_of
     [(CHR 0x22, CHR 0x22), (CHR 0x5C, CHR 0x5C), (CHR ''/'', CHR ''/''), (CHR ''b'', CHR 0x08), (CHR ''f'', CHR 0x0C),
      (CHR ''n'', CHR 0x0A), (CHR ''r'', CHR 0x0D), (CHR ''t'', CHR 0x09)] e"

definition prepended :: "'a list \<Rightarrow> ('a list \<times> 'r) option \<Rightarrow> ('a list \<times> 'r) option" where
  "prepended xs r = map_option (\<lambda>(ys, t). (xs @ ys, t)) r"

text \<open>The characters of a string up to its closing quote.\<close>

function json_chars :: "string \<Rightarrow> (string \<times> string) option" where
  "json_chars s =
     (case s of
        [] \<Rightarrow> None
      | c # t \<Rightarrow>
          if c = CHR 0x22 then Some ([], t)
          else if c = CHR 0x5C then
            (case t of
               [] \<Rightarrow> None
             | e # r \<Rightarrow>
                 if e = CHR ''u'' then
                   (case unicode_escape r of None \<Rightarrow> None | Some (n, l) \<Rightarrow> prepended (utf8 n) (json_chars (drop l r)))
                 else (case simple_escape e of None \<Rightarrow> None | Some d \<Rightarrow> prepended [d] (json_chars r)))
          else if (of_char c :: nat) < 32 then None
          else prepended [c] (json_chars t))"
  by pat_completeness auto
termination by (relation "measure length") auto

declare json_chars.simps [simp del]

definition json_number :: "string \<Rightarrow> (json \<times> string) option" where
  "json_number s =
     (let neg = (s \<noteq> [] \<and> hd s = CHR ''-''); u = (if neg then tl s else s);
          (ip, dot, fp, ex, rest) = scan_decimal u in
      if ip \<noteq> [] \<and> (ip = ''0'' \<or> hd ip \<noteq> CHR ''0'') \<and> (dot \<longrightarrow> fp \<noteq> [])
      then Some (JNumber (signed_decimal neg ip fp ex), rest) else None)"

definition json_word :: "string \<Rightarrow> (json \<times> string) option" where
  "json_word s =
     (if take 4 s = ''null'' then Some (JNull, drop 4 s)
      else if take 4 s = ''true'' then Some (JBool True, drop 4 s)
      else if take 5 s = ''false'' then Some (JBool False, drop 5 s)
      else json_number s)"

text \<open>A key set again keeps its place and takes the new value.\<close>

definition object_of :: "(string \<times> json) list \<Rightarrow> json" where
  "object_of kvs = JObject (foldl (\<lambda>m (k, v). AList.update k v m) [] kvs)"

text \<open>
  A value, the items of an array behind its bracket or a comma, and the members of an object
  likewise; white space in front is already skipped.
\<close>

fun json_value :: "nat \<Rightarrow> string \<Rightarrow> (json \<times> string) option"
  and json_items :: "nat \<Rightarrow> string \<Rightarrow> (json list \<times> string) option"
  and json_members :: "nat \<Rightarrow> string \<Rightarrow> ((string \<times> json) list \<times> string) option"
where
  "json_value 0 s = None"
| "json_value (Suc n) s =
     (case s of
        [] \<Rightarrow> None
      | c # t \<Rightarrow>
          if c = CHR 0x22 then map_option (\<lambda>(x, r). (JString x, r)) (json_chars t)
          else if c = CHR ''['' then
            (let u = skip_space t in
             if u \<noteq> [] \<and> hd u = CHR '']'' then Some (JArray [], tl u)
             else map_option (\<lambda>(xs, r). (JArray xs, r)) (json_items n u))
          else if c = CHR ''{'' then
            (let u = skip_space t in
             if u \<noteq> [] \<and> hd u = CHR ''}'' then Some (JObject [], tl u)
             else map_option (\<lambda>(kvs, r). (object_of kvs, r)) (json_members n u))
          else json_word s)"
| "json_items 0 s = None"
| "json_items (Suc n) s =
     (case json_value n s of
        None \<Rightarrow> None
      | Some (x, r) \<Rightarrow>
          (case skip_space r of
             [] \<Rightarrow> None
           | c # t \<Rightarrow>
               if c = CHR '']'' then Some ([x], t)
               else if c = CHR '','' then prepended [x] (json_items n (skip_space t))
               else None))"
| "json_members 0 s = None"
| "json_members (Suc n) s =
     (if s \<noteq> [] \<and> hd s = CHR 0x22 then
        (case json_chars (tl s) of
           None \<Rightarrow> None
         | Some (k, r) \<Rightarrow>
             (let u = skip_space r in
              if u \<noteq> [] \<and> hd u = CHR '':'' then
                (case json_value n (skip_space (tl u)) of
                   None \<Rightarrow> None
                 | Some (x, r') \<Rightarrow>
                     (case skip_space r' of
                        [] \<Rightarrow> None
                      | c # t \<Rightarrow>
                          if c = CHR ''}'' then Some ([(k, x)], t)
                          else if c = CHR '','' then prepended [(k, x)] (json_members n (skip_space t))
                          else None))
              else None))
      else None)"

definition json_parse :: "string \<Rightarrow> json option" where
  "json_parse s =
     (case json_value (2 * length s + 1) (skip_space s) of
        Some (v, r) \<Rightarrow> if skip_space r = [] then Some v else None
      | None \<Rightarrow> None)"

text \<open>\<^verbatim>\<open>null\<close> for absent or malformed input.\<close>

definition safeParseJson :: "string option \<Rightarrow> json" where
  "safeParseJson text = (case text of None \<Rightarrow> JNull | Some s \<Rightarrow> if s = [] then JNull else
     (case json_parse s of None \<Rightarrow> JNull | Some v \<Rightarrow> v))"

subsection \<open>Every parser consumes, and the fuel is enough\<close>

lemma prepended_Some: "prepended xs r = Some (ys, t) \<longleftrightarrow> (\<exists>zs. r = Some (zs, t) \<and> ys = xs @ zs)"
  by (cases r) (auto simp: prepended_def)

lemma json_chars_step:
  "json_chars [] = None"
  "json_chars (CHR 0x22 # t) = Some ([], t)"
  "json_chars [CHR 0x5C] = None"
  "json_chars (CHR 0x5C # CHR ''u'' # r) =
     (case unicode_escape r of None \<Rightarrow> None | Some (n, l) \<Rightarrow> prepended (utf8 n) (json_chars (drop l r)))"
  "e \<noteq> CHR ''u'' \<Longrightarrow> json_chars (CHR 0x5C # e # r) =
     (case simple_escape e of None \<Rightarrow> None | Some d \<Rightarrow> prepended [d] (json_chars r))"
  "c \<noteq> CHR 0x22 \<Longrightarrow> c \<noteq> CHR 0x5C \<Longrightarrow>
     json_chars (c # t) = (if (of_char c :: nat) < 32 then None else prepended [c] (json_chars t))"
  by (simp_all add: json_chars.simps)

lemma json_chars_consumes: "json_chars s = Some (x, r) \<Longrightarrow> length r < length s"
proof (induction "length s" arbitrary: s x r rule: less_induct)
  case less
  have step: "length r < length s" if "prepended w (json_chars t) = Some (x, r)" "length t < length s" for w t
    using that less.hyps[of t] by (fastforce simp: prepended_Some)
  show ?case
  proof (cases s)
    case Nil
    with less.prems show ?thesis by (simp add: json_chars_step)
  next
    case (Cons c t)
    consider "c = CHR 0x22" | "c = CHR 0x5C" "t = []" | d where "c = CHR 0x5C" "t = CHR ''u'' # d"
      | e d where "c = CHR 0x5C" "e \<noteq> CHR ''u''" "t = e # d" | "c \<noteq> CHR 0x22" "c \<noteq> CHR 0x5C"
      by (cases t) auto
    then show ?thesis
    proof cases
      case 3
      then obtain n l where "prepended (utf8 n) (json_chars (drop l d)) = Some (x, r)"
        using less.prems Cons by (auto simp: json_chars_step split: option.splits)
      then show ?thesis by (rule step) (simp add: Cons 3)
    next
      case 4
      then obtain w where "prepended [w] (json_chars d) = Some (x, r)"
        using less.prems Cons by (auto simp: json_chars_step split: option.splits)
      then show ?thesis by (rule step) (simp add: Cons 4)
    next
      case 5
      then have "prepended [c] (json_chars t) = Some (x, r)"
        using less.prems Cons by (auto simp: json_chars_step split: if_splits)
      then show ?thesis by (rule step) (simp add: Cons)
    qed (use less.prems Cons in \<open>auto simp: json_chars_step\<close>)
  qed
qed

lemma length_tl_le: "length (tl t) \<le> length t"
  by simp

lemma scan_exponent_length: "scan_exponent s = (e, r) \<Longrightarrow> length r \<le> length s"
proof (cases s)
  case (Cons c t)
  assume e: "scan_exponent s = (e, r)"
  let ?u = "if t \<noteq> [] \<and> (hd t = CHR ''-'' \<or> hd t = CHR ''+'') then tl t else t"
  have "r = s \<or> r = dropWhile is_digit ?u" using e Cons by (auto simp: scan_exponent_def Let_def split: if_splits)
  moreover have "length ?u \<le> length t" by simp
  then have "length (dropWhile is_digit ?u) \<le> length t" using length_dropWhile_le order_trans by blast
  ultimately show ?thesis using Cons by auto
qed (simp add: scan_exponent_def)

lemma span_length: "length (takeWhile P s) + length (dropWhile P s) = length s"
  by (metis length_append takeWhile_dropWhile_id)

lemma scan_decimal_length:
  assumes "scan_decimal s = (ip, dot, fp, ex, r)"
  shows "length ip + length r \<le> length s"
proof -
  let ?d = "dropWhile is_digit s"
  define u where "u = (if ?d \<noteq> [] \<and> hd ?d = CHR ''.'' then dropWhile is_digit (tl ?d) else ?d)"
  have ip: "ip = takeWhile is_digit s" and "scan_exponent u = (ex, r)"
    using assms by (simp_all only: scan_decimal_def u_def Let_def split: prod.splits) auto
  moreover have "length u \<le> length ?d"
    using length_dropWhile_le[of is_digit "tl ?d"] length_tl_le[of ?d] by (auto simp: u_def simp del: length_tl)
  ultimately show ?thesis using scan_exponent_length[of u ex r] span_length[of is_digit s] by simp
qed

lemma json_number_consumes: "json_number s = Some (x, r) \<Longrightarrow> length r < length s"
proof -
  assume n: "json_number s = Some (x, r)"
  let ?u = "if s \<noteq> [] \<and> hd s = CHR ''-'' then tl s else s"
  obtain ip dot fp ex rest where sc: "scan_decimal ?u = (ip, dot, fp, ex, rest)" by (metis prod_cases5)
  from n have "ip \<noteq> []" "rest = r" unfolding json_number_def Let_def sc prod.case by (auto split: if_splits)
  moreover have "length ?u \<le> length s" by simp
  ultimately show ?thesis using scan_decimal_length[OF sc] by (cases ip) auto
qed

lemma json_word_consumes: "json_word s = Some (x, r) \<Longrightarrow> length r < length s"
  by (cases s) (auto simp: json_word_def split: if_splits dest: json_number_consumes)

lemma skip_less: "length s < n \<Longrightarrow> length (skip_space s) < n"
  using length_dropWhile_le le_less_trans by blast

lemma skip_Cons_less: "skip_space s = c # t \<Longrightarrow> length t < length s"
  using length_dropWhile_le[of json_space s] by simp

definition consumes :: "(string \<Rightarrow> ('a \<times> string) option) \<Rightarrow> bool" where
  "consumes p \<longleftrightarrow> (\<forall>s x r. p s = Some (x, r) \<longrightarrow> length r < length s)"

lemma consumesD: "consumes p \<Longrightarrow> p s = Some (x, r) \<Longrightarrow> length r < length s"
  by (simp add: consumes_def)

lemma consumes_after_skip: "consumes p \<Longrightarrow> p (skip_space s) = Some (x, r) \<Longrightarrow> length r < length s"
  by (rule less_le_trans[OF consumesD[of p "skip_space s" x r] length_dropWhile_le])

lemma value_consumes:
  assumes "consumes (json_items n)" and "consumes (json_members n)"
  shows "consumes (json_value (Suc n))"
  unfolding consumes_def
proof (intro allI impI)
  fix s x r assume v: "json_value (Suc n) s = Some (x, r)"
  then obtain c t where s: "s = c # t" by (cases s) auto
  have t: "length (tl (skip_space t)) \<le> length t"
    using length_tl_le[of "skip_space t"] length_dropWhile_le[of json_space t] by linarith
  have arr: "length r < length s" if "json_items n (skip_space t) = Some (y, r)" for y
    using consumes_after_skip[OF assms(1) that] by (simp add: s)
  have obj: "length r < length s" if "json_members n (skip_space t) = Some (y, r)" for y
    using consumes_after_skip[OF assms(2) that] by (simp add: s)
  consider "c = CHR 0x22" | "c = CHR ''[''" | "c = CHR ''{''" | "c \<notin> {CHR 0x22, CHR ''['', CHR ''{''}" by blast
  then show "length r < length s"
  proof cases
    case 1
    then show ?thesis using v json_chars_consumes[of t _ r] by (auto simp: s)
  next
    case 2
    then have "r = tl (skip_space t) \<or> (\<exists>y. json_items n (skip_space t) = Some (y, r))"
      using v by (simp add: s Let_def split: if_split_asm) auto
    then show ?thesis using t arr by (auto simp: s)
  next
    case 3
    then have "r = tl (skip_space t) \<or> (\<exists>y. json_members n (skip_space t) = Some (y, r))"
      using v by (simp add: s Let_def split: if_split_asm) auto
    then show ?thesis using t obj by (auto simp: s)
  next
    case 4
    then have "json_word s = Some (x, r)" using v by (simp add: s)
    then show ?thesis by (rule json_word_consumes)
  qed
qed

lemma items_consume:
  assumes "consumes (json_value n)" and "consumes (json_items n)"
  shows "consumes (json_items (Suc n))"
  unfolding consumes_def
proof (intro allI impI)
  fix s xs r assume "json_items (Suc n) s = Some (xs, r)"
  then obtain x u c t where v: "json_value n s = Some (x, u)" and u: "skip_space u = c # t"
    and t: "t = r \<or> (\<exists>ys. json_items n (skip_space t) = Some (ys, r))"
    by (auto split: option.splits list.splits if_splits simp: prepended_Some)
  have "length u < length s" using consumesD[OF assms(1) v] .
  moreover have "length t < length u" using length_dropWhile_le[of json_space u] u by simp
  moreover have "length r \<le> length t" using t consumes_after_skip[OF assms(2)] less_imp_le by blast
  ultimately show "length r < length s" by linarith
qed

lemma members_consume:
  assumes "consumes (json_value n)" and "consumes (json_members n)"
  shows "consumes (json_members (Suc n))"
  unfolding consumes_def
proof (intro allI impI)
  fix s xs r assume m: "json_members (Suc n) s = Some (xs, r)"
  then obtain k u where k: "json_chars (tl s) = Some (k, u)" by (auto simp: Let_def split: if_splits option.splits)
  with m obtain x w c t where c: "skip_space u \<noteq> []" and v: "json_value n (skip_space (tl (skip_space u))) = Some (x, w)"
    and w: "skip_space w = c # t" and t: "t = r \<or> (\<exists>ys. json_members n (skip_space t) = Some (ys, r))"
    by (auto simp: Let_def prepended_Some split: if_splits option.splits list.splits)
  have "length u < length (tl s)" using json_chars_consumes[OF k] .
  moreover have "length (tl s) \<le> length s" by simp
  moreover have "length (tl (skip_space u)) < length u"
    using c length_dropWhile_le[of json_space u] by (cases "skip_space u") auto
  moreover have "length w < length (tl (skip_space u))" using consumes_after_skip[OF assms(1) v] .
  moreover have "length t < length w" using length_dropWhile_le[of json_space w] w by simp
  moreover have "length r \<le> length t" using t consumes_after_skip[OF assms(2)] less_imp_le by blast
  ultimately show "length r < length s" by linarith
qed

lemma json_consumes: "consumes (json_value n) \<and> consumes (json_items n) \<and> consumes (json_members n)"
proof (induction n)
  case 0
  show ?case by (simp add: consumes_def)
next
  case (Suc n)
  then show ?case using value_consumes items_consume members_consume by blast
qed

lemmas json_value_shorter = consumesD[OF json_consumes[THEN conjunct1]]

text \<open>More fuel than twice the text changes nothing.\<close>

lemma value_fuel:
  assumes "\<And>u. 2 * length u + 2 \<le> n \<Longrightarrow> json_items (Suc n) u = json_items n u"
    and "\<And>u. 2 * length u + 2 \<le> n \<Longrightarrow> json_members (Suc n) u = json_members n u"
    and "2 * length s + 1 \<le> Suc n"
  shows "json_value (Suc (Suc n)) s = json_value (Suc n) s"
proof (cases s)
  case (Cons c t)
  have "2 * length (skip_space t) + 2 \<le> n" using length_dropWhile_le[of json_space t] assms(3) Cons by simp
  from assms(1,2)[OF this] show ?thesis
    by (simp only: Cons json_value.simps(2) list.case Let_def)
qed simp

lemma items_fuel:
  assumes v: "\<And>u. 2 * length u + 1 \<le> n \<Longrightarrow> json_value (Suc n) u = json_value n u"
    and i: "\<And>u. 2 * length u + 2 \<le> n \<Longrightarrow> json_items (Suc n) u = json_items n u"
    and "2 * length s + 2 \<le> Suc n"
  shows "json_items (Suc (Suc n)) s = json_items (Suc n) s"
proof (cases "json_value n s")
  case None
  then show ?thesis using v[of s] assms(3)
    by (simp only: json_items.simps(2)[of "Suc n" s] json_items.simps(2)[of n s] option.case)
next
  case (Some p)
  obtain x r where p: "p = (x, r)" by (cases p)
  have "length r < length s" using json_value_shorter[of n s x r] Some p by simp
  have "json_items (Suc n) (skip_space t) = json_items n (skip_space t)" if "skip_space r = c # t" for c t
  proof (rule i)
    have "length t < length r" using length_dropWhile_le[of json_space r] that by simp
    then show "2 * length (skip_space t) + 2 \<le> n"
      using length_dropWhile_le[of json_space t] \<open>length r < length s\<close> assms(3) by linarith
  qed
  moreover have "json_value (Suc n) s = Some (x, r)" using v[of s] assms(3) Some p by simp
  ultimately show ?thesis using Some
    by (cases "skip_space r")
      (simp_all only: p json_items.simps(2)[of "Suc n" s] json_items.simps(2)[of n s] option.case prod.case list.case)
qed

lemma members_fuel:
  assumes v: "\<And>u. 2 * length u + 1 \<le> n \<Longrightarrow> json_value (Suc n) u = json_value n u"
    and m: "\<And>u. 2 * length u + 2 \<le> n \<Longrightarrow> json_members (Suc n) u = json_members n u"
    and "2 * length s + 2 \<le> Suc n"
  shows "json_members (Suc (Suc n)) s = json_members (Suc n) s"
proof (cases "json_chars (tl s)")
  case None
  then show ?thesis
    by (simp only: json_members.simps(2)[of "Suc n" s] json_members.simps(2)[of n s] option.case)
next
  case (Some p)
  obtain k u where p: "p = (k, u)" by (cases p)
  have u: "length u < length s" using json_chars_consumes[of "tl s" k u] Some p by simp
  let ?w = "skip_space (tl (skip_space u))"
  have w: "length ?w \<le> length u"
    using length_dropWhile_le[of json_space "tl (skip_space u)"] length_tl_le[of "skip_space u"]
      length_dropWhile_le[of json_space u] by linarith
  then have vw: "json_value (Suc n) ?w = json_value n ?w" using u assms(3) by (intro v) linarith
  have "json_members (Suc n) (skip_space t) = json_members n (skip_space t)"
    if "json_value n ?w = Some (x, r)" "skip_space r = c # t" for x r c t
  proof (rule m)
    have "length r < length ?w" by (rule json_value_shorter[OF that(1)])
    moreover have "length t < length r" using length_dropWhile_le[of json_space r] that(2) by simp
    ultimately show "2 * length (skip_space t) + 2 \<le> n"
      using length_dropWhile_le[of json_space t] w u assms(3) by linarith
  qed
  note inner = this and eqs = json_members.simps(2)[of "Suc n" s] json_members.simps(2)[of n s]
  show ?thesis
  proof (cases "json_value n ?w")
    case None
    then show ?thesis using vw Some by (simp only: eqs p option.case prod.case Let_def)
  next
    case v: (Some q)
    obtain x r where q: "q = (x, r)" by (cases q)
    show ?thesis using vw Some v inner[of x r]
      by (cases "skip_space r") (simp_all only: eqs p q option.case prod.case list.case Let_def)
  qed
qed

lemma fuel_step:
  "(\<forall>s. 2 * length s + 1 \<le> n \<longrightarrow> json_value (Suc n) s = json_value n s) \<and>
   (\<forall>s. 2 * length s + 2 \<le> n \<longrightarrow> json_items (Suc n) s = json_items n s) \<and>
   (\<forall>s. 2 * length s + 2 \<le> n \<longrightarrow> json_members (Suc n) s = json_members n s)"
proof (induction n)
  case (Suc n)
  then show ?case using value_fuel[of n] items_fuel[of n] members_fuel[of n] by blast
qed simp

theorem json_value_enough: "2 * length s + 1 \<le> n \<Longrightarrow> json_value n s = json_value (2 * length s + 1) s"
  by (induction n rule: dec_induct) (use fuel_step in auto)

subsection \<open>What is printed is parsed\<close>

fun printable :: "json \<Rightarrow> bool" where
  "printable JNull = True"
| "printable (JBool b) = True"
| "printable (JNumber d) = shortest d"
| "printable (JString s) = True"
| "printable (JArray xs) = (\<forall>x \<in> set xs. printable x)"
| "printable (JObject kvs) = (wf_map kvs \<and> (\<forall>p \<in> set kvs. printable (snd p)))"

lemma prepended_append [simp]: "prepended xs (prepended ys r) = prepended (xs @ ys) r"
  by (cases r) (auto simp: prepended_def)

lemma hex_digit_value: "n < 16 \<Longrightarrow> digit_of_base (hex_digit n) = n"
  by (auto simp: hex_digit_def digit_of_base_def Let_def of_char_of take_bit_nat_def)

lemma json_chars_escape: "json_chars (json_escape c @ t) = prepended [c] (json_chars t)"
proof -
  define n where "n = (of_char c :: nat)"
  have code: "c = d" if "n = of_char d" for d using that of_char_eq_iff[of c d] by (simp add: n_def)
  have "n \<in> {8, 9, 10, 12, 13, 34, 92} \<longrightarrow> c \<in> set [CHR 0x22, CHR 0x5C, CHR 0x08, CHR 0x0C, CHR 0x0A, CHR 0x0D, CHR 0x09]"
    using code[of "CHR 0x22"] code[of "CHR 0x5C"] code[of "CHR 0x08"] code[of "CHR 0x0C"] code[of "CHR 0x0A"]
      code[of "CHR 0x0D"] code[of "CHR 0x09"] by auto
  then consider "c = CHR 0x22" | "c = CHR 0x5C" | "c = CHR 0x08" | "c = CHR 0x0C" | "c = CHR 0x0A" | "c = CHR 0x0D" | "c = CHR 0x09"
    | "n < 32" "n \<notin> {8, 9, 10, 12, 13}" | "32 \<le> n" "n \<noteq> 34" "n \<noteq> 92"
    by (cases "n \<in> {8, 9, 10, 12, 13, 34, 92}"; cases "n < 32") auto
  then show ?thesis
  proof cases
    case 8
    have "digit_of_base (hex_digit (n div 16)) = n div 16" "digit_of_base (hex_digit (n mod 16)) = n mod 16"
      using 8 by (simp_all add: hex_digit_value)
    moreover have "digit_of_base CHR ''0'' = 0" by (simp add: digit_of_base_def)
    ultimately have "hex4 ([CHR ''0'', CHR ''0'', hex_digit (n div 16), hex_digit (n mod 16)] @ t) = Some n"
      using 8(1) by (simp add: hex4_def)
    then have "unicode_escape ([CHR ''0'', CHR ''0'', hex_digit (n div 16), hex_digit (n mod 16)] @ t) = Some (n, 4)"
      using 8(1) unfolding unicode_escape_def by simp
    moreover have "utf8 n = [c]" using 8(1) by (simp add: utf8_def n_def)
    ultimately show ?thesis using 8 by (simp add: json_escape_def n_def[symmetric] Let_def json_chars_step)
  next
    case 9
    then have "c \<noteq> CHR 0x22" "c \<noteq> CHR 0x5C" by (auto simp: n_def)
    then show ?thesis using 9 by (simp add: json_escape_def n_def[symmetric] Let_def json_chars_step)
  qed (simp_all add: json_escape_def json_chars_step simple_escape_def)
qed

lemma json_chars_quoted: "json_chars (concat (map json_escape s) @ CHR 0x22 # r) = Some (s, r)"
  by (induction s) (simp_all add: json_chars_step json_chars_escape prepended_def)

lemma update_all_fresh: "wf_map (m @ kvs) \<Longrightarrow> foldl (\<lambda>m (k, v). AList.update k v m) m kvs = m @ kvs"
proof (induction kvs arbitrary: m)
  case (Cons p kvs)
  then have "fst p \<notin> set (keys m)" by auto
  then have "AList.update (fst p) (snd p) m = m @ [p]" by (simp add: update_fresh)
  with Cons show ?case by (simp add: case_prod_beta)
qed simp

lemma object_of_distinct: "wf_map kvs \<Longrightarrow> object_of kvs = JObject kvs"
  by (simp add: object_of_def update_all_fresh)

definition parses :: "json \<Rightarrow> bool" where
  "parses v \<longleftrightarrow> (\<forall>r n. plain_rest r \<longrightarrow> 2 * length (json_text v @ r) + 1 \<le> n \<longrightarrow> json_value n (json_text v @ r) = Some (v, r))"

lemma parsesD:
  "parses v \<Longrightarrow> plain_rest r \<Longrightarrow> 2 * length (json_text v @ r) + 1 \<le> n \<Longrightarrow> json_value n (json_text v @ r) = Some (v, r)"
  by (simp add: parses_def)

lemma plain_brackets [simp]: "plain_rest (CHR '']'' # r)" "plain_rest (CHR ''}'' # r)" "plain_rest (CHR '','' # r)" "plain_rest []"
  by (simp_all add: plain_rest_def)

text \<open>No printed value starts with white space or a closing bracket.\<close>

definition value_start :: "char \<Rightarrow> bool" where
  "value_start c \<longleftrightarrow> \<not> json_space c \<and> c \<noteq> CHR '']'' \<and> c \<noteq> CHR ''}''"

lemma value_start_not_space: "value_start c \<Longrightarrow> \<not> json_space c"
  by (simp add: value_start_def)

lemma digit_starts_value: "is_digit c \<Longrightarrow> value_start c"
  by (auto simp: is_digit_def value_start_def json_space_def Let_def)

lemma number_head: "shortest d \<Longrightarrow> js_number_text d \<noteq> [] \<and> (is_digit (hd (js_number_text d)) \<or> hd (js_number_text d) = CHR ''-'')"
proof -
  assume "shortest d"
  then obtain ip fp ex where "literal_of d ip fp ex" by (rule printed_literal)
  then have "js_number_text d = (if mantissa d < 0 then ''-'' else []) @ ip @ fraction_text fp @ exponent_text ex"
    "list_all is_digit ip" "ip \<noteq> []" by (auto simp: literal_of_def)
  then show ?thesis by (cases ip) auto
qed

lemma text_starts: "printable v \<Longrightarrow> json_text v \<noteq> [] \<and> value_start (hd (json_text v))"
proof (cases v)
  case (JNumber d)
  assume "printable v"
  then show ?thesis using number_head[of d] digit_starts_value JNumber
    by (auto simp: value_start_def json_space_def)
qed (auto simp: value_start_def json_space_def json_quote_def)

lemma skip_to_value: "printable v \<Longrightarrow> skip_space (json_text v @ r) = json_text v @ r"
  using text_starts[of v] by (cases "json_text v") (auto simp: value_start_def)

lemma json_number_text:
  assumes "shortest d" and "plain_rest r"
  shows "json_number (js_number_text d @ r) = Some (JNumber d, r)"
proof -
  from printed_literal[OF assms(1)] obtain ip fp ex where lit: "literal_of d ip fp ex" by blast
  let ?body = "ip @ fraction_text fp @ exponent_text ex @ r" and ?x = "case ex of None \<Rightarrow> 0 | Some x \<Rightarrow> x"
  have ip: "list_all is_digit ip" "list_all is_digit fp" "ip \<noteq> []" and
    body: "js_number_text d @ r = (if mantissa d < 0 then ''-'' else []) @ ?body" and
    val: "signed_decimal (mantissa d < 0) ip fp ?x = d" and lead: "ip = ''0'' \<or> hd ip \<noteq> CHR ''0''"
    using lit by (auto simp: literal_of_def)
  have "is_digit (hd ?body)" "?body \<noteq> []" using ip by (cases ip; simp)+
  then have first: "hd ?body \<noteq> CHR ''-''" by auto
  have neg: "(js_number_text d @ r \<noteq> [] \<and> hd (js_number_text d @ r) = CHR ''-'') = (mantissa d < 0)"
    using first \<open>?body \<noteq> []\<close> by (simp add: body)
  have strip: "(if mantissa d < 0 then tl (js_number_text d @ r) else js_number_text d @ r) = ?body"
    by (simp add: body)
  show ?thesis unfolding json_number_def neg Let_def strip scan_decimal_pieces[OF ip(1,2) assms(2)] prod.case
    using ip(3) val lead by simp
qed

lemma number_parses: "shortest d \<Longrightarrow> parses (JNumber d)"
  unfolding parses_def
proof (intro allI impI)
  fix r n assume d: "shortest d" and r: "plain_rest r" and n: "2 * length (json_text (JNumber d) @ r) + 1 \<le> n"
  then obtain m where m: "n = Suc m" by (cases n) auto
  obtain c t where c: "js_number_text d @ r = c # t" using number_head[OF d] by (cases "js_number_text d") auto
  have "is_digit c \<or> c = CHR ''-''" using number_head[OF d] c by (cases "js_number_text d") auto
  then have "c \<notin> {CHR 0x22, CHR ''['', CHR ''{'', CHR ''n'', CHR ''t'', CHR ''f''}" by (auto simp: is_digit_def)
  then have "json_value n (c # t) = json_number (c # t)" by (simp add: m json_word_def)
  then show "json_value n (json_text (JNumber d) @ r) = Some (JNumber d, r)"
    using json_number_text[OF d r] by (simp add: c)
qed

lemma skip_one [simp]: "\<not> json_space c \<Longrightarrow> skip_space (c # t) = c # t"
  by simp

lemma punctuation_no_space [simp]:
  "\<not> json_space CHR '',''" "\<not> json_space CHR '']''" "\<not> json_space CHR ''}''" "\<not> json_space CHR '':''" "\<not> json_space CHR 0x22"
  by (simp_all add: json_space_def)

lemma items_parse:
  "xs \<noteq> [] \<Longrightarrow> \<forall>x \<in> set xs. printable x \<and> parses x \<Longrightarrow>
   2 * length (separated '','' (map json_text xs) @ CHR '']'' # r) + 2 \<le> n \<Longrightarrow>
   json_items n (separated '','' (map json_text xs) @ CHR '']'' # r) = Some (xs, r)"
proof (induction xs arbitrary: n rule: list_nonempty_induct)
  case (single x)
  then obtain m where m: "n = Suc m" by (cases n) auto
  have "json_value m (json_text x @ CHR '']'' # r) = Some (x, CHR '']'' # r)"
    using single m by (intro parsesD) auto
  then show ?case by (simp add: m)
next
  case (cons x xs)
  then obtain m where m: "n = Suc m" by (cases n) auto
  let ?rest = "separated '','' (map json_text xs) @ CHR '']'' # r"
  from cons.hyps obtain y ys where xs: "xs = y # ys" by (cases xs) auto
  have all: "separated '','' (map json_text (x # xs)) @ CHR '']'' # r = json_text x @ CHR '','' # ?rest"
    by (simp add: xs)
  have "json_value m (json_text x @ CHR '','' # ?rest) = Some (x, CHR '','' # ?rest)"
    using cons.prems m unfolding all by (intro parsesD) auto
  moreover have "json_items m ?rest = Some (xs, r)"
    using cons.prems m unfolding all by (intro cons.IH) auto
  moreover have "skip_space ?rest = ?rest"
    using cons.prems text_starts[of y] by (cases ys; cases "json_text y") (auto simp: xs value_start_def)
  ultimately show ?case unfolding all m json_items.simps by (simp add: prepended_def)
qed

definition member_text :: "string \<times> json \<Rightarrow> string" where
  "member_text p = json_quote (fst p) @ '':'' @ json_text (snd p)"

lemma object_text: "json_text (JObject kvs) = ''{'' @ separated '','' (map member_text kvs) @ ''}''"
proof -
  have "map (\<lambda>(k, v). json_quote k @ '':'' @ json_text v) kvs = map member_text kvs"
    by (simp add: member_text_def case_prod_beta)
  then show ?thesis by (simp only: json_text.simps)
qed

lemma members_step:
  assumes "printable (snd p)" and "parses (snd p)" and "plain_rest r"
    and "2 * length (member_text p @ r) \<le> m"
  shows "json_members (Suc m) (member_text p @ r) =
    (case skip_space r of [] \<Rightarrow> None
     | c # t \<Rightarrow> if c = CHR ''}'' then Some ([p], t)
         else if c = CHR '','' then prepended [p] (json_members m (skip_space t)) else None)"
proof -
  have tl: "tl (member_text p @ r) = concat (map json_escape (fst p)) @ CHR 0x22 # CHR '':'' # json_text (snd p) @ r"
    and hd: "member_text p @ r \<noteq> []" "hd (member_text p @ r) = CHR 0x22"
    by (simp_all add: member_text_def json_quote_def)
  have v: "json_value m (json_text (snd p) @ r) = Some (snd p, r)"
    using assms(4) by (intro parsesD[OF assms(2,3)]) (simp add: member_text_def json_quote_def)
  have c: "skip_space (CHR '':'' # json_text (snd p) @ r) = CHR '':'' # json_text (snd p) @ r" by simp
  note eq = json_members.simps(2)[of m "member_text p @ r"]
  have "json_members (Suc m) (member_text p @ r) = (case skip_space r of [] \<Rightarrow> None
     | c # t \<Rightarrow> if c = CHR ''}'' then Some ([(fst p, snd p)], t)
         else if c = CHR '','' then prepended [(fst p, snd p)] (json_members m (skip_space t)) else None)"
    unfolding eq tl json_chars_quoted option.case prod.case Let_def c list.sel skip_to_value[OF assms(1)] v using hd by simp
  then show ?thesis by (simp only: prod.collapse)
qed

lemma members_parse:
  "kvs \<noteq> [] \<Longrightarrow> \<forall>p \<in> set kvs. printable (snd p) \<and> parses (snd p) \<Longrightarrow>
   2 * length (separated '','' (map member_text kvs) @ CHR ''}'' # r) + 2 \<le> n \<Longrightarrow>
   json_members n (separated '','' (map member_text kvs) @ CHR ''}'' # r) = Some (kvs, r)"
proof (induction kvs arbitrary: n rule: list_nonempty_induct)
  case (single p)
  then obtain m where m: "n = Suc m" by (cases n) auto
  then show ?case using single members_step[of p "CHR ''}'' # r" m] by simp
next
  case (cons p kvs)
  then obtain m where m: "n = Suc m" by (cases n) auto
  let ?rest = "separated '','' (map member_text kvs) @ CHR ''}'' # r"
  from cons.hyps obtain q qs where kvs: "kvs = q # qs" by (cases kvs) auto
  have all: "separated '','' (map member_text (p # kvs)) @ CHR ''}'' # r = member_text p @ CHR '','' # ?rest"
    by (simp add: kvs)
  have "json_members m ?rest = Some (kvs, r)"
    using cons.prems m unfolding all by (intro cons.IH) auto
  moreover have "skip_space ?rest = ?rest"
    by (cases qs) (simp_all add: kvs member_text_def json_quote_def)
  moreover have "2 * length (member_text p @ CHR '','' # ?rest) \<le> m"
    using cons.prems(2) unfolding all m by simp
  ultimately show ?case using cons.prems(1) unfolding all m
    by (subst members_step) (simp_all add: prepended_def del: json_members.simps)
qed

lemma printed_parses: "printable v \<Longrightarrow> parses v"
proof (induction v)
  case (JNumber d)
  then show ?case by (simp add: number_parses)
next
  case (JString s)
  have "json_value n (json_quote s @ r) = Some (JString s, r)" if "1 \<le> n" for n r
    using that by (cases n) (simp_all add: json_quote_def json_chars_quoted)
  then show ?case by (simp add: parses_def)
next
  case (JArray xs)
  have "json_value n (json_text (JArray xs) @ r) = Some (JArray xs, r)"
    if n: "2 * length (json_text (JArray xs) @ r) + 1 \<le> n" for r n
  proof (cases xs)
    case Nil
    then show ?thesis using n by (cases n) simp_all
  next
    case (Cons x ys)
    let ?t = "separated '','' (map json_text xs) @ CHR '']'' # r"
    obtain m where m: "n = Suc m" using n by (cases n) auto
    have "json_text x \<noteq> []" "value_start (hd (json_text x))" using JArray.prems text_starts by (simp_all add: Cons)
    then obtain c t where "?t = c # t" "value_start c" by (cases ys; cases "json_text x") (auto simp: Cons)
    then have t: "skip_space ?t = ?t" "hd ?t \<noteq> CHR '']''" "?t \<noteq> []" by (simp_all add: value_start_def)
    have "json_items m ?t = Some (xs, r)"
      using JArray n m by (intro items_parse) (auto simp: Cons)
    then show ?thesis using t by (simp add: m del: json_items.simps)
  qed
  then show ?case by (simp add: parses_def)
next
  case (JObject kvs)
  have "json_value n (json_text (JObject kvs) @ r) = Some (JObject kvs, r)"
    if n: "2 * length (json_text (JObject kvs) @ r) + 1 \<le> n" for r n
  proof (cases kvs)
    case Nil
    then show ?thesis using n by (cases n) simp_all
  next
    case (Cons p ps)
    let ?t = "separated '','' (map member_text kvs) @ CHR ''}'' # r"
    obtain m where m: "n = Suc m" using n by (cases n) auto
    have "\<exists>t. ?t = CHR 0x22 # t" by (cases ps) (simp_all add: Cons member_text_def json_quote_def)
    then have t: "skip_space ?t = ?t" "hd ?t \<noteq> CHR ''}''" "?t \<noteq> []" by auto
    have "\<forall>p \<in> set kvs. printable (snd p) \<and> parses (snd p)"
      using JObject.prems JObject.IH[OF _ snds.intros] by auto
    then have "json_members m ?t = Some (kvs, r)"
      using n m by (intro members_parse) (simp_all add: Cons object_text del: json_text.simps)
    then show ?thesis using t JObject.prems object_of_distinct[of kvs]
      by (simp add: m object_text del: json_members.simps json_text.simps)
  qed
  then show ?case by (simp add: parses_def)
qed (auto simp: parses_def json_word_def, (case_tac n; simp add: json_word_def)+)

theorem json_round_trip:
  assumes "printable v"
  shows "json_parse (json_text v) = Some v"
proof -
  have "json_value (2 * length (json_text v) + 1) (skip_space (json_text v)) = Some (v, [])"
    using parsesD[OF printed_parses[OF assms], of "[]"] skip_to_value[OF assms, of "[]"]
    by (simp del: json_value.simps)
  then show ?thesis by (simp add: json_parse_def)
qed

end
