(* ===== verification/Settings.thy ===== *)
theory Settings
  imports Json
begin

section \<open>The settings of the server\<close>

text \<open>
  \<^verbatim>\<open>config/value-codecs.utils.ts\<close>, \<^verbatim>\<open>config/system-settings.utils.ts\<close> and the twelve tables of
  \<^verbatim>\<open>config/definitions\<close>: what a setting is, how its stored text is decoded, how an update is
  validated, and every setting with its bounds and its default. Three defaults come from the
  environment, which is an argument of the tables. The overrides of the rate limits
  (\<^verbatim>\<open>config/rate-limit-overrides.utils.ts\<close>) are at the end.
\<close>

subsection \<open>Values and definitions\<close>

datatype setting_value =
    SString string
  | SNumber decimal
  | SBool bool
  | SArray "string list"

datatype setting_group =
    Streaming_group | Scanning_group | Markers_group | Downloads_group | Trickplay_group | Images_group
  | Workers_group | Playback_defaults_group | Resources_group | System_group | Network_group

datatype setting_type =
    String_type
  | Number_type (type_min: decimal) (type_max: decimal)
  | Boolean_type
  | Array_type
  | Enum_type (type_options: "string list")

record setting_definition =
  sd_key :: string
  sd_group :: setting_group
  sd_type :: setting_type
  sd_default :: setting_value
  sd_unit :: "string option"
  sd_restartRequired :: bool

datatype log_level = L_trace | L_debug | L_info | L_warn | L_error | L_fatal

fun log_level_name :: "log_level \<Rightarrow> string" where
  "log_level_name L_trace = ''trace''"
| "log_level_name L_debug = ''debug''"
| "log_level_name L_info = ''info''"
| "log_level_name L_warn = ''warn''"
| "log_level_name L_error = ''error''"
| "log_level_name L_fatal = ''fatal''"

record environment =
  env_LOG_LEVEL :: log_level
  env_ROOT_DIR :: string
  env_APP_ALLOWED_ORIGINS :: "string option"

subsection \<open>Codecs\<close>

definition trimAndFilter :: "string list \<Rightarrow> string list" where
  "trimAndFilter items = filter (\<lambda>t. t \<noteq> []) (map trim_text items)"

definition splitCommaList :: "string option \<Rightarrow> string list" where
  "splitCommaList val = (case val of None \<Rightarrow> [] | Some v \<Rightarrow> if v = [] then [] else trimAndFilter (split_on CHR '','' v))"

definition parseBooleanToken :: "string \<Rightarrow> bool option" where
  "parseBooleanToken raw =
     (let n = to_lower (trim_text raw) in
      if n = ''true'' \<or> n = ''1'' then Some True
      else if n = ''false'' \<or> n = ''0'' then Some False else None)"

definition string_codec :: "string \<Rightarrow> string option" where
  "string_codec raw = (let t = trim_text raw in if t = [] then None else Some t)"

definition number_codec :: "decimal \<Rightarrow> decimal \<Rightarrow> string \<Rightarrow> decimal option" where
  "number_codec mn mx raw =
     (let t = trim_text raw in
      if t = [] then None
      else case js_number t of None \<Rightarrow> None | Some n \<Rightarrow> if dec_le mn n \<and> dec_le n mx then Some n else None)"

fun json_strings :: "json list \<Rightarrow> string list" where
  "json_strings [] = []"
| "json_strings (JString s # xs) = s # json_strings xs"
| "json_strings (_ # xs) = json_strings xs"

definition array_codec :: "string \<Rightarrow> string list option" where
  "array_codec raw =
     (if raw = [] then None
      else Some (case safeParseJson (Some raw) of
                   JArray items \<Rightarrow> trimAndFilter (json_strings items)
                 | _ \<Rightarrow> trimAndFilter (split_on CHR '','' raw)))"

definition enum_codec :: "string list \<Rightarrow> string \<Rightarrow> string option" where
  "enum_codec options raw = find (\<lambda>opt. opt = raw) options"

text \<open>The builders of a group.\<close>

definition string_setting :: "setting_group \<Rightarrow> string \<Rightarrow> string \<Rightarrow> setting_definition" where
  "string_setting g key d =
     \<lparr>sd_key = key, sd_group = g, sd_type = String_type, sd_default = SString d, sd_unit = None, sd_restartRequired = False\<rparr>"

definition number_setting ::
  "setting_group \<Rightarrow> string \<Rightarrow> decimal \<Rightarrow> decimal \<Rightarrow> decimal \<Rightarrow> string option \<Rightarrow> bool \<Rightarrow> setting_definition" where
  "number_setting g key mn mx d unt restart =
     \<lparr>sd_key = key, sd_group = g, sd_type = Number_type mn mx, sd_default = SNumber d, sd_unit = unt,
      sd_restartRequired = restart\<rparr>"

definition boolean_setting :: "setting_group \<Rightarrow> string \<Rightarrow> bool \<Rightarrow> setting_definition" where
  "boolean_setting g key d =
     \<lparr>sd_key = key, sd_group = g, sd_type = Boolean_type, sd_default = SBool d, sd_unit = None, sd_restartRequired = False\<rparr>"

definition array_setting :: "setting_group \<Rightarrow> string \<Rightarrow> string list \<Rightarrow> setting_definition" where
  "array_setting g key d =
     \<lparr>sd_key = key, sd_group = g, sd_type = Array_type, sd_default = SArray d, sd_unit = None, sd_restartRequired = False\<rparr>"

definition enum_setting :: "setting_group \<Rightarrow> string \<Rightarrow> string list \<Rightarrow> string \<Rightarrow> setting_definition" where
  "enum_setting g key options d =
     \<lparr>sd_key = key, sd_group = g, sd_type = Enum_type options, sd_default = SString d, sd_unit = None,
      sd_restartRequired = False\<rparr>"

text \<open>The strict reading of an update: \<open>None\<close> is the source's \<^verbatim>\<open>null\<close>, an invalid value.\<close>

definition setting_validate :: "setting_definition \<Rightarrow> string \<Rightarrow> setting_value option" where
  "setting_validate d raw =
     (case sd_type d of
        String_type \<Rightarrow>
          (case string_codec raw of
             Some s \<Rightarrow> Some (SString s)
           | None \<Rightarrow> if sd_default d = SString [] then Some (SString []) else None)
      | Number_type mn mx \<Rightarrow> map_option SNumber (number_codec mn mx raw)
      | Boolean_type \<Rightarrow> map_option SBool (parseBooleanToken raw)
      | Array_type \<Rightarrow> map_option SArray (array_codec raw)
      | Enum_type options \<Rightarrow> map_option SString (enum_codec options raw))"

text \<open>The lenient reading of a stored text, which falls back to the default.\<close>

definition setting_parse :: "setting_definition \<Rightarrow> string \<Rightarrow> setting_value" where
  "setting_parse d raw =
     (case sd_type d of
        String_type \<Rightarrow>
          (case string_codec raw of
             Some s \<Rightarrow> SString s
           | None \<Rightarrow> (case sd_default d of SString t \<Rightarrow> SString (if t = [] then [] else trim_text t) | v \<Rightarrow> v))
      | Number_type mn mx \<Rightarrow> (case number_codec mn mx raw of Some n \<Rightarrow> SNumber n | None \<Rightarrow> sd_default d)
      | Boolean_type \<Rightarrow> (case parseBooleanToken raw of Some b \<Rightarrow> SBool b | None \<Rightarrow> sd_default d)
      | Array_type \<Rightarrow> (case array_codec raw of Some xs \<Rightarrow> SArray xs | None \<Rightarrow> sd_default d)
      | Enum_type options \<Rightarrow> (case enum_codec options raw of Some t \<Rightarrow> SString t | None \<Rightarrow> sd_default d))"

text \<open>\<^verbatim>\<open>String\<close> and \<^verbatim>\<open>Boolean\<close> of a setting's value.\<close>

fun js_string :: "setting_value \<Rightarrow> string" where
  "js_string (SString s) = s"
| "js_string (SNumber n) = js_number_text n"
| "js_string (SBool b) = (if b then ''true'' else ''false'')"
| "js_string (SArray xs) = separated '','' xs"

fun js_truthy :: "setting_value \<Rightarrow> bool" where
  "js_truthy (SString s) \<longleftrightarrow> s \<noteq> []"
| "js_truthy (SNumber n) \<longleftrightarrow> mantissa n \<noteq> 0"
| "js_truthy (SBool b) \<longleftrightarrow> b"
| "js_truthy (SArray xs) \<longleftrightarrow> True"

definition setting_serialize :: "setting_definition \<Rightarrow> setting_value \<Rightarrow> string" where
  "setting_serialize d v =
     (case sd_type d of
        Boolean_type \<Rightarrow> js_string (SBool (js_truthy v))
      | Array_type \<Rightarrow> json_text (JArray (case v of SArray xs \<Rightarrow> map JString xs | _ \<Rightarrow> []))
      | _ \<Rightarrow> js_string v)"

subsection \<open>The tables\<close>

definition MAX_SAFE_INTEGER :: decimal where
  "MAX_SAFE_INTEGER = whole 9007199254740991"

text \<open>\<^verbatim>\<open>join\<close> of \<^verbatim>\<open>node:path\<close> on POSIX: the joined text, normalized.\<close>

definition node_segment :: "bool \<Rightarrow> string list \<Rightarrow> string \<Rightarrow> string list" where
  "node_segment absolute acc seg =
     (if seg = [] \<or> seg = ''.'' then acc
      else if seg = ''..'' then
        (if acc \<noteq> [] \<and> last acc \<noteq> ''..'' then butlast acc else if absolute then acc else acc @ [seg])
      else acc @ [seg])"

definition node_join :: "string \<Rightarrow> string \<Rightarrow> string" where
  "node_join a b =
     (let joined = (if a = [] then b else if b = [] then a else a @ ''/'' @ b);
          absolute = (joined \<noteq> [] \<and> hd joined = CHR ''/'');
          body = separated ''/'' (foldl (node_segment absolute) [] (split_on CHR ''/'' joined))
                 @ (if joined \<noteq> [] \<and> last joined = CHR ''/'' then ''/'' else []) in
      if absolute then (if body = [] \<or> body = ''/'' then ''/'' else ''/'' @ body)
      else if body = [] then ''.'' else if body = ''/'' then ''./'' else body)"

definition DOWNLOADS_SETTINGS_DEFINITIONS :: "setting_definition list" where
  "DOWNLOADS_SETTINGS_DEFINITIONS =
    [boolean_setting Downloads_group ''downloads.enabled'' True,
     number_setting Downloads_group ''downloads.maxStorageBytesPerProfile'' (whole 0) MAX_SAFE_INTEGER (whole 21474836480) None False,
     number_setting Downloads_group ''downloads.retentionDays'' (whole 0) (whole 365) (whole 0) None False,
     number_setting Downloads_group ''downloads.maxConcurrentPerProfile'' (whole 1) (whole 5) (whole 1) None False]"

definition IMAGES_SETTINGS_DEFINITIONS :: "setting_definition list" where
  "IMAGES_SETTINGS_DEFINITIONS =
    [number_setting Images_group ''images.defaultQuality'' (whole 10) (whole 100) (whole 60) None False,
     number_setting Images_group ''images.defaultWidth'' (whole 100) (whole 3840) (whole 828) None False,
     number_setting Images_group ''images.maxWidth'' (whole 500) (whole 7680) (whole 1920) None False,
     number_setting Images_group ''images.maxHeight'' (whole 500) (whole 7680) (whole 1920) None False,
     number_setting Images_group ''images.maxUploadBytes'' (whole 1048576) MAX_SAFE_INTEGER (whole 20971520) None False]"

definition MARKERS_SETTINGS_DEFINITIONS :: "setting_definition list" where
  "MARKERS_SETTINGS_DEFINITIONS =
    [array_setting Markers_group ''markers.introKeywords'' [''intro'', ''opening'', ''op''],
     array_setting Markers_group ''markers.creditsKeywords'' [''credits'', ''credit'', ''ending'', ''outro''],
     array_setting Markers_group ''markers.recapKeywords'' [''recap'', ''previously'']]"

definition NETWORK_SETTINGS_DEFINITIONS :: "environment \<Rightarrow> setting_definition list" where
  "NETWORK_SETTINGS_DEFINITIONS env =
    [array_setting Network_group ''network.allowedOrigins'' (splitCommaList (env_APP_ALLOWED_ORIGINS env)),
     boolean_setting Network_group ''network.trustLocalNetworks'' True,
     number_setting Network_group ''network.rateLimit.globalMax'' (whole 100) (whole 1000000) (whole 1000) None False,
     number_setting Network_group ''network.rateLimit.routeMultiplier'' (whole 1) (whole 10000) (whole 1) None False,
     string_setting Network_group ''network.rateLimit.routeOverrides'' []]"

definition PATHS_SETTINGS_DEFINITIONS :: "environment \<Rightarrow> setting_definition list" where
  "PATHS_SETTINGS_DEFINITIONS env =
    [string_setting System_group ''paths.transcodes'' (node_join (env_ROOT_DIR env) ''transcodes''),
     string_setting System_group ''paths.downloads'' (node_join (env_ROOT_DIR env) ''downloads''),
     string_setting System_group ''paths.backups'' (node_join (env_ROOT_DIR env) ''backups'')]"

definition PROFILES_SETTINGS_DEFINITIONS :: "setting_definition list" where
  "PROFILES_SETTINGS_DEFINITIONS =
    [number_setting System_group ''profiles.maxProfilesPerUser'' (whole 0) (whole 100) (whole 20) None False,
     string_setting Playback_defaults_group ''profiles.defaultPreferences.language'' ''en'',
     enum_setting Playback_defaults_group ''profiles.defaultPreferences.theme'' [''system'', ''light'', ''dark''] ''system'',
     boolean_setting Playback_defaults_group ''profiles.defaultPreferences.autoplay'' False,
     boolean_setting Playback_defaults_group ''profiles.defaultPreferences.autoSkipIntro'' False,
     boolean_setting Playback_defaults_group ''profiles.defaultPreferences.autoSkipCredits'' False,
     boolean_setting Playback_defaults_group ''profiles.defaultPreferences.autoSkipRecap'' False,
     string_setting Playback_defaults_group ''profiles.defaultPreferences.audioLanguage'' [],
     string_setting Playback_defaults_group ''profiles.defaultPreferences.subtitleLanguage'' [],
     string_setting Playback_defaults_group ''profiles.defaultPreferences.subtitleFallbackLanguages'' [],
     boolean_setting Playback_defaults_group ''profiles.defaultPreferences.subtitlesEnabled'' True,
     boolean_setting Playback_defaults_group ''profiles.defaultPreferences.forcedSubtitlesOnly'' False,
     boolean_setting Playback_defaults_group ''profiles.defaultPreferences.autoForcedSubtitles'' True,
     boolean_setting Playback_defaults_group ''profiles.defaultPreferences.preferHearingImpaired'' False,
     number_setting Playback_defaults_group ''profiles.defaultPreferences.continueWatchingMinutes'' (whole 0) (whole 240) (whole 2) None False,
     number_setting Playback_defaults_group ''profiles.defaultPreferences.resumeRewindSeconds'' (whole 0) (whole 30) (whole 0) None False,
     boolean_setting Playback_defaults_group ''profiles.defaultPreferences.watchlistAutoRemoveWatched'' False,
     enum_setting Playback_defaults_group ''profiles.defaultPreferences.subtitleSize'' [''small'', ''normal'', ''large'', ''extra-large''] ''normal'',
     enum_setting Playback_defaults_group ''profiles.defaultPreferences.subtitlePosition'' [''bottom'', ''top'', ''middle''] ''bottom'',
     enum_setting Playback_defaults_group ''profiles.defaultPreferences.subtitleColor'' [''white'', ''yellow'', ''cyan'', ''green''] ''white'',
     enum_setting Playback_defaults_group ''profiles.defaultPreferences.subtitleBackground'' [''none'', ''semi'', ''solid''] ''semi'']"

definition RESOURCES_SETTINGS_DEFINITIONS :: "setting_definition list" where
  "RESOURCES_SETTINGS_DEFINITIONS =
    [enum_setting Resources_group ''system.resources.cpuProfile'' [''conservative'', ''balanced'', ''performance'', ''custom''] ''balanced'',
     number_setting Resources_group ''system.resources.maxCpuCores'' (whole 0) (whole 256) (whole 0) None False,
     number_setting Resources_group ''system.resources.reservedCoresForWeb'' (whole 0) (whole 64) (whole 0) None False,
     number_setting Resources_group ''system.resources.ffmpegMaxThreads'' (whole 0) (whole 32) (whole 0) None False,
     number_setting Resources_group ''system.resources.workerPoolMaxConcurrent'' (whole 0) (whole 64) (whole 0) None False,
     boolean_setting Resources_group ''system.resources.monitoringEnabled'' True,
     number_setting Resources_group ''system.resources.monitoringIntervalMs'' (whole 1000) (whole 60000) (whole 5000) (Some ''ms'') False,
     number_setting Resources_group ''system.resources.memoryThresholdPercent'' (whole 50) (whole 99) (whole 85) None False,
     number_setting Resources_group ''system.resources.memoryCriticalPercent'' (whole 80) (whole 99) (whole 95) None False,
     number_setting Resources_group ''system.resources.diskThresholdPercent'' (whole 50) (whole 99) (whole 90) None False,
     boolean_setting Resources_group ''system.resources.enableDynamicThrottling'' True,
     number_setting Resources_group ''system.resources.throttleLowPriorityAbovePercent'' (whole 50) (whole 95) (whole 80) None False,
     number_setting Resources_group ''system.resources.streamingGuaranteedCores'' (whole 0) (whole 16) (whole 1) None False,
     boolean_setting Resources_group ''system.rescue.enabled'' True,
     number_setting Resources_group ''system.rescue.eventLoopLagMs'' (whole 50) (whole 5000) (whole 250) None False,
     number_setting Resources_group ''system.rescue.sustainMs'' (whole 0) (whole 300000) (whole 15000) None False,
     number_setting Resources_group ''system.rescue.releaseMs'' (whole 5000) (whole 600000) (whole 60000) None False]"

definition SCANNING_SETTINGS_DEFINITIONS :: "setting_definition list" where
  "SCANNING_SETTINGS_DEFINITIONS =
    [boolean_setting Scanning_group ''scanning.autoWatcherEnabled'' True,
     number_setting Scanning_group ''scanning.autoWatcherDelaySeconds'' (whole 2) (whole 600) (whole 30) None False,
     number_setting Scanning_group ''scanning.autoWatcherCooldownSeconds'' (whole 0) (whole 3600) (whole 120) None False,
     number_setting Scanning_group ''scanning.watcherFallbackIntervalMinutes'' (whole 0) (whole 1440) (whole 30) None False,
     number_setting Scanning_group ''scanning.scheduledScanIntervalHours'' (whole 0) (whole 168) (whole 0) None False,
     number_setting Scanning_group ''scanning.concurrency'' (whole 0) (whole 32) (whole 0) None False,
     number_setting Scanning_group ''scanning.pathScanTimeoutMs'' (whole 10000) (whole 3600000) (whole 120000) (Some ''ms'') False,
     number_setting Scanning_group ''scanning.ffprobeConcurrency'' (whole 0) (whole 16) (whole 0) None False,
     string_setting Scanning_group ''ffprobe.path'' ''ffprobe'',
     array_setting Scanning_group ''scanning.supportedVideoExtensions'' [''.mp4'', ''.mkv'', ''.avi'', ''.mov'', ''.m4v'', ''.webm'', ''.wmv'', ''.flv'', ''.m2ts'',
       ''.mts'', ''.vob'', ''.ogv'', ''.3gp'', ''.3g2'', ''.f4v'', ''.mpeg'', ''.mpg'', ''.mpe'',
       ''.asf'', ''.rm'', ''.rmvb'', ''.divx''],
     array_setting Scanning_group ''scanning.ignorePatterns'' []]"

definition STREAMING_SETTINGS_DEFINITIONS :: "setting_definition list" where
  "STREAMING_SETTINGS_DEFINITIONS =
    [string_setting Streaming_group ''ffmpeg.path'' ''ffmpeg'',
     enum_setting Streaming_group ''ffmpeg.preset'' [''auto'', ''ultrafast'', ''superfast'', ''veryfast'', ''faster'', ''fast'', ''medium'', ''slow'',
       ''slower'', ''veryslow''] ''veryfast'',
     number_setting Streaming_group ''ffmpeg.crf'' (whole 0) (whole 51) (whole 23) None False,
     number_setting Streaming_group ''ffmpeg.threads'' (whole 0) (whole 64) (whole 0) None False,
     enum_setting Streaming_group ''ffmpeg.hwaccel'' [''auto'', ''none'', ''nvenc'', ''vaapi'', ''qsv'', ''amf'', ''videotoolbox''] ''auto'',
     string_setting Streaming_group ''ffmpeg.hwaccelDevice'' [],
     enum_setting Streaming_group ''ffmpeg.toneMapping'' [''auto'', ''none''] ''auto'',
     enum_setting Streaming_group ''ffmpeg.toneMapAlgorithm'' [''bt2390'', ''hable'', ''mobius'', ''reinhard''] ''bt2390'',
     number_setting Streaming_group ''ffmpeg.gracefulShutdownTimeoutMs'' (whole 1000) MAX_SAFE_INTEGER (whole 5000) None False,
     number_setting Streaming_group ''ffmpeg.audioBitrateKbps'' (whole 64) (whole 512) (whole 192) None False,
     boolean_setting Streaming_group ''ffmpeg.downmixToStereo'' False,
     number_setting Streaming_group ''stream.maxSessions'' (whole 1) (whole 100) (whole 5) None False,
     number_setting Streaming_group ''stream.maxSessionsPerUser'' (whole 1) (whole 100) (whole 3) None False,
     number_setting Streaming_group ''stream.maxSoftwareTranscodes'' (whole 0) (whole 100) (whole 0) None False,
     number_setting Streaming_group ''stream.maxPerStreamBandwidthKbps'' (whole 0) MAX_SAFE_INTEGER (whole 0) None False,
     number_setting Streaming_group ''stream.hlsSegmentDurationSeconds'' (whole 1) (whole 30) (whole 6) (Some ''s'') True,
     number_setting Streaming_group ''stream.inactivityTimeoutMs'' (whole 5000) MAX_SAFE_INTEGER (whole 90000) None False,
     boolean_setting Streaming_group ''stream.smartAudioTrackSelection'' True,
     number_setting Streaming_group ''stream.hlsMaxMuxingQueueSize'' (whole 512) (whole 8192) (whole 2048) None False,
     number_setting Streaming_group ''stream.seekDebounceMs'' (whole 0) (whole 2000) (whole 300) None False]"

definition SYSTEM_SETTINGS_DEFINITIONS :: "environment \<Rightarrow> setting_definition list" where
  "SYSTEM_SETTINGS_DEFINITIONS env =
    [number_setting System_group ''collections.minimalToShow'' (whole 1) MAX_SAFE_INTEGER (whole 2) None False,
     boolean_setting System_group ''auth.allowRegistration'' False,
     number_setting System_group ''plugins.providers.detailsCacheTtlMs'' (whole 10000) MAX_SAFE_INTEGER (whole 300000) None False,
     string_setting System_group ''plugins.http.allowedDomains'' [],
     number_setting System_group ''plugins.blobs.retentionDays'' (whole 1) (whole 365) (whole 30) None False,
     number_setting System_group ''plugins.notifications.maxPerDayPerPlugin'' (whole 0) (whole 1000) (whole 100) None False,
     enum_setting System_group ''metadata.ratingAggregation'' [''votes'', ''simple''] ''votes'',
     number_setting System_group ''metadata.minMatchScore'' (Dec 45 (- 2)) (whole 1) (Dec 45 (- 2)) None False,
     number_setting System_group ''system.database.operationRetentionDays'' (whole 1) (whole 365) (whole 7) None False,
     number_setting System_group ''system.logs.retentionDays'' (whole 1) (whole 365) (whole 7) None False,
     enum_setting System_group ''system.logs.level'' [''trace'', ''debug'', ''info'', ''warn'', ''error'', ''fatal''] (log_level_name (env_LOG_LEVEL env)),
     boolean_setting System_group ''auth.enforceTwoFactor'' False,
     number_setting System_group ''auth.sessionLifetimeDays'' (whole 1) (whole 365) (whole 7) (Some ''days'') True,
     number_setting System_group ''auth.rateLimit.loginAccountMaxAttempts'' (whole 3) (whole 100) (whole 10) None False,
     number_setting System_group ''system.database.watchedHistoryRetentionDays'' (whole 0) (whole 3650) (whole 0) None False,
     number_setting System_group ''system.database.auditRetentionDays'' (whole 0) (whole 3650) (whole 180) None False,
     number_setting System_group ''system.database.backupRetentionCount'' (whole 1) (whole 100) (whole 7) None False,
     boolean_setting System_group ''system.database.backupUploadEnabled'' False,
     number_setting System_group ''system.analytics.windowDays'' (whole 7) (whole 3650) (whole 90) None False,
     number_setting System_group ''system.analytics.minPlaySeconds'' (whole 0) (whole 3600) (whole 60) None False,
     number_setting System_group ''api.pagination.defaultLimit'' (whole 5) (whole 100) (whole 20) None False]"

definition TRICKPLAY_SETTINGS_DEFINITIONS :: "setting_definition list" where
  "TRICKPLAY_SETTINGS_DEFINITIONS =
    [boolean_setting Trickplay_group ''trickplay.enabled'' True,
     boolean_setting Trickplay_group ''trickplay.autoOnRefresh'' True,
     number_setting Trickplay_group ''trickplay.intervalSeconds'' (whole 2) (whole 60) (whole 10) None False,
     number_setting Trickplay_group ''trickplay.tileWidth'' (whole 160) (whole 640) (whole 320) None False,
     number_setting Trickplay_group ''trickplay.columns'' (whole 2) (whole 10) (whole 5) None False,
     number_setting Trickplay_group ''trickplay.maxFramesPerFile'' (whole 300) (whole 5000) (whole 1200) None False,
     number_setting Trickplay_group ''system.artifacts.coreMaxStorageGb'' (whole 0) (whole 100000) (whole 0) None False]"

definition WORKERS_SETTINGS_DEFINITIONS :: "setting_definition list" where
  "WORKERS_SETTINGS_DEFINITIONS =
    [number_setting Workers_group ''workers.scheduling.pollIntervalMs'' (whole 100) (whole 60000) (whole 1000) (Some ''ms'') False,
     number_setting Workers_group ''workers.definitions.imageProcessing.concurrency'' (whole 0) (whole 16) (whole 0) None False,
     number_setting Workers_group ''workers.definitions.mediaFileAnalysis.concurrency'' (whole 0) (whole 16) (whole 0) None False,
     number_setting Workers_group ''workers.definitions.mediaFileTechnicalRefresh.concurrency'' (whole 0) (whole 16) (whole 0) None False,
     number_setting Workers_group ''workers.definitions.metadataRefresh.concurrency'' (whole 0) (whole 16) (whole 0) None False,
     number_setting Workers_group ''workers.definitions.libraryScan.timeoutMs'' (whole 60000) (whole 86400000) (whole 7200000) (Some ''ms'') False,
     number_setting Workers_group ''workers.definitions.downloadsProcess.timeoutMs'' (whole 60000) (whole 86400000) (whole 7200000) (Some ''ms'') False]"


definition SYSTEM_SETTINGS :: "environment \<Rightarrow> setting_definition list" where
  "SYSTEM_SETTINGS env =
     DOWNLOADS_SETTINGS_DEFINITIONS @ IMAGES_SETTINGS_DEFINITIONS @ MARKERS_SETTINGS_DEFINITIONS @
     NETWORK_SETTINGS_DEFINITIONS env @ PATHS_SETTINGS_DEFINITIONS env @ PROFILES_SETTINGS_DEFINITIONS @
     RESOURCES_SETTINGS_DEFINITIONS @ SCANNING_SETTINGS_DEFINITIONS @ STREAMING_SETTINGS_DEFINITIONS @
     SYSTEM_SETTINGS_DEFINITIONS env @ TRICKPLAY_SETTINGS_DEFINITIONS @ WORKERS_SETTINGS_DEFINITIONS"

definition setting_definition_of :: "environment \<Rightarrow> string \<Rightarrow> setting_definition option" where
  "setting_definition_of env key = find (\<lambda>d. sd_key d = key) (SYSTEM_SETTINGS env)"

definition SETTING_KEYS :: "environment \<Rightarrow> string list" where
  "SETTING_KEYS env = map sd_key (SYSTEM_SETTINGS env)"

definition isSystemSettingKey :: "environment \<Rightarrow> string \<Rightarrow> bool" where
  "isSystemSettingKey env key \<longleftrightarrow> key \<in> set (SETTING_KEYS env)"

subsection \<open>Overrides of the rate limits\<close>

definition TUNABLE_RATE_LIMIT_BUCKETS :: "string list" where
  "TUNABLE_RATE_LIMIT_BUCKETS =
    [''admin-analytics'', ''admin-audit-summary'', ''admin-downloads-jobs'', ''admin-live-activity'',
     ''admin-processes-list'', ''admin-users-list'', ''admin-workers-list'', ''admin-workers-jobs-list'',
     ''admin-workers-operations-list'', ''admin-workers-watchdog'', ''library-scan-findings'', ''subtitle-content'']"

definition RATE_LIMIT_OVERRIDE_CAP_MULTIPLIER :: nat where
  "RATE_LIMIT_OVERRIDE_CAP_MULTIPLIER = 10"

text \<open>The pattern \<^verbatim>\<open>^[1-9][0-9]*$\<close>.\<close>

definition whole_number :: "string \<Rightarrow> bool" where
  "whole_number s \<longleftrightarrow> s \<noteq> [] \<and> is_digit (hd s) \<and> hd s \<noteq> CHR ''0'' \<and> list_all is_digit s"

definition entry_parts :: "string \<Rightarrow> string list" where
  "entry_parts entry = map trim_text (split_on CHR ''='' entry)"

definition parsedOverrides :: "string \<Rightarrow> (string, nat) jsmap" where
  "parsedOverrides raw =
     foldl (\<lambda>parsed entry.
        case entry_parts entry of
          name # val # _ \<Rightarrow>
            if name = [] \<or> val = [] \<or> \<not> whole_number val \<or> has name parsed then parsed
            else parsed @ [(name, decimal_value val)]
        | _ \<Rightarrow> parsed) [] (splitCommaList (Some raw))"

record override_issues =
  oi_malformed :: "string list"
  oi_untunable :: "string list"

definition rateLimitOverrideIssues :: "string \<Rightarrow> override_issues" where
  "rateLimitOverrideIssues raw =
     foldl (\<lambda>issues entry.
        let malformed = issues\<lparr>oi_malformed := oi_malformed issues @ [entry]\<rparr> in
        case entry_parts entry of
          [name, val] \<Rightarrow>
            if name = [] \<or> \<not> whole_number val then malformed
            else if name \<notin> set TUNABLE_RATE_LIMIT_BUCKETS then issues\<lparr>oi_untunable := oi_untunable issues @ [name]\<rparr>
            else issues
        | _ \<Rightarrow> malformed)
      \<lparr>oi_malformed = [], oi_untunable = []\<rparr> (splitCommaList (Some raw))"

definition tunedRouteMax :: "string \<Rightarrow> string \<Rightarrow> nat \<Rightarrow> nat option" where
  "tunedRouteMax raw name defaultMax =
     (if name \<notin> set TUNABLE_RATE_LIMIT_BUCKETS then None
      else map_option (\<lambda>v. min v (defaultMax * RATE_LIMIT_OVERRIDE_CAP_MULTIPLIER)) (map_of (parsedOverrides raw) name))"

subsection \<open>What a value of a setting is\<close>

abbreviation clean_text :: "string \<Rightarrow> bool" where
  "clean_text s \<equiv> s \<noteq> [] \<and> trim_text s = s"

text \<open>A value an update may store, and a value a setting may have: its default besides.\<close>

definition storable :: "setting_definition \<Rightarrow> setting_value \<Rightarrow> bool" where
  "storable d v =
     (case (sd_type d, v) of
        (String_type, SString s) \<Rightarrow> clean_text s \<or> s = [] \<and> sd_default d = SString []
      | (Number_type mn mx, SNumber n) \<Rightarrow> shortest n \<and> dec_le mn n \<and> dec_le n mx
      | (Boolean_type, SBool b) \<Rightarrow> True
      | (Array_type, SArray xs) \<Rightarrow> list_all clean_text xs
      | (Enum_type options, SString s) \<Rightarrow> s \<in> set options
      | _ \<Rightarrow> False)"

definition well_typed :: "setting_definition \<Rightarrow> setting_value \<Rightarrow> bool" where
  "well_typed d v \<longleftrightarrow> storable d v \<or>
     (sd_type d = String_type \<and>
      (case (sd_default d, v) of (SString t, SString s) \<Rightarrow> s = t \<or> s = trim_text t | _ \<Rightarrow> False))"

lemma default_tables_typed:
  "list_all (\<lambda>d. well_typed d (sd_default d)) DOWNLOADS_SETTINGS_DEFINITIONS"
  "list_all (\<lambda>d. well_typed d (sd_default d)) IMAGES_SETTINGS_DEFINITIONS"
  "list_all (\<lambda>d. well_typed d (sd_default d)) MARKERS_SETTINGS_DEFINITIONS"
  "list_all (\<lambda>d. well_typed d (sd_default d)) PROFILES_SETTINGS_DEFINITIONS"
  "list_all (\<lambda>d. well_typed d (sd_default d)) RESOURCES_SETTINGS_DEFINITIONS"
  "list_all (\<lambda>d. well_typed d (sd_default d)) SCANNING_SETTINGS_DEFINITIONS"
  "list_all (\<lambda>d. well_typed d (sd_default d)) STREAMING_SETTINGS_DEFINITIONS"
  "list_all (\<lambda>d. well_typed d (sd_default d)) TRICKPLAY_SETTINGS_DEFINITIONS"
  "list_all (\<lambda>d. well_typed d (sd_default d)) WORKERS_SETTINGS_DEFINITIONS"
  by code_simp+

lemma SETTING_KEYS_env: "SETTING_KEYS env = SETTING_KEYS env'"
  by (simp add: SETTING_KEYS_def SYSTEM_SETTINGS_def NETWORK_SETTINGS_DEFINITIONS_def PATHS_SETTINGS_DEFINITIONS_def
      SYSTEM_SETTINGS_DEFINITIONS_def array_setting_def number_setting_def string_setting_def enum_setting_def
      boolean_setting_def)

lemma distinct_SETTING_KEYS: "distinct (SETTING_KEYS env)"
proof -
  let ?env = "\<lparr>env_LOG_LEVEL = L_info, env_ROOT_DIR = [], env_APP_ALLOWED_ORIGINS = None\<rparr>"
  have "distinct (map (\<lambda>k. foldl (\<lambda>n c. n * 2 + of_char c) (0::int) k) (SETTING_KEYS ?env))"
    by code_simp
  then have "distinct (SETTING_KEYS ?env)" by (simp only: distinct_map)
  then show ?thesis by (simp only: SETTING_KEYS_env[of env ?env])
qed

lemma builders_typed:
  "well_typed (string_setting g k t) (sd_default (string_setting g k t))"
  "well_typed (boolean_setting g k b) (sd_default (boolean_setting g k b))"
  "well_typed (array_setting g k xs) (sd_default (array_setting g k xs)) \<longleftrightarrow> list_all clean_text xs"
  "well_typed (enum_setting g k options t) (sd_default (enum_setting g k options t)) \<longleftrightarrow> t \<in> set options"
  "well_typed (number_setting g k mn mx n u r) (sd_default (number_setting g k mn mx n u r)) \<longleftrightarrow>
     shortest n \<and> dec_le mn n \<and> dec_le n mx"
  by (simp_all add: well_typed_def storable_def string_setting_def boolean_setting_def array_setting_def
      enum_setting_def number_setting_def)

lemma trimAndFilter_clean [simp]: "list_all clean_text (trimAndFilter xs)"
  by (induction xs) (simp_all add: trimAndFilter_def)

lemma splitCommaList_clean [simp]: "list_all clean_text (splitCommaList v)"
  by (simp add: splitCommaList_def split: option.split)

lemma environment_tables_typed:
  "list_all (\<lambda>d. well_typed d (sd_default d)) (NETWORK_SETTINGS_DEFINITIONS env)"
  "list_all (\<lambda>d. well_typed d (sd_default d)) (PATHS_SETTINGS_DEFINITIONS env)"
  "list_all (\<lambda>d. well_typed d (sd_default d)) (SYSTEM_SETTINGS_DEFINITIONS env)"
proof -
  have level: "log_level_name l \<in> set [''trace'', ''debug'', ''info'', ''warn'', ''error'', ''fatal'']" for l
    by (cases l) simp_all
  note typed = builders_typed whole_def normal_dec.simps shortest_def dec_le_def MAX_SAFE_INTEGER_def
  show "list_all (\<lambda>d. well_typed d (sd_default d)) (NETWORK_SETTINGS_DEFINITIONS env)"
    by (simp add: NETWORK_SETTINGS_DEFINITIONS_def typed)
  show "list_all (\<lambda>d. well_typed d (sd_default d)) (PATHS_SETTINGS_DEFINITIONS env)"
    by (simp add: PATHS_SETTINGS_DEFINITIONS_def typed)
  show "list_all (\<lambda>d. well_typed d (sd_default d)) (SYSTEM_SETTINGS_DEFINITIONS env)"
    using level[of "env_LOG_LEVEL env"] by (simp add: SYSTEM_SETTINGS_DEFINITIONS_def typed)
qed

lemma default_typed:
  assumes "setting_definition_of env key = Some d"
  shows "well_typed d (sd_default d)"
proof -
  have "d \<in> set (SYSTEM_SETTINGS env)" using assms by (auto simp: setting_definition_of_def find_Some_iff)
  moreover have "list_all (\<lambda>d. well_typed d (sd_default d)) (SYSTEM_SETTINGS env)"
    by (simp add: SYSTEM_SETTINGS_def default_tables_typed environment_tables_typed)
  ultimately show ?thesis by (simp add: list_all_iff)
qed

lemma string_default:
  assumes "setting_definition_of env key = Some d"
  shows "well_typed d (sd_default d) \<and> (sd_type d = String_type \<longrightarrow> (\<exists>t. sd_default d = SString t))"
  using default_typed[OF assms] by (auto simp: well_typed_def storable_def split: setting_value.splits)

subsection \<open>Decoding\<close>

lemma array_codec_clean: "array_codec raw = Some xs \<Longrightarrow> list_all clean_text xs"
  by (auto simp: array_codec_def split: if_splits json.splits)

lemma number_codec_typed: "number_codec mn mx raw = Some n \<Longrightarrow> shortest n \<and> dec_le mn n \<and> dec_le n mx"
  by (auto simp: number_codec_def Let_def dest: js_number_shortest split: if_splits option.splits)

lemma string_codec_clean: "string_codec raw = Some s \<Longrightarrow> clean_text s"
  by (auto simp: string_codec_def Let_def split: if_splits)

lemma enum_codec_member: "enum_codec options raw = Some s \<Longrightarrow> s \<in> set options"
  by (auto simp: enum_codec_def find_Some_iff)

lemma validate_storable: "setting_validate d raw = Some v \<Longrightarrow> storable d v"
proof (cases "sd_type d")
  case String_type
  assume "setting_validate d raw = Some v"
  then have "(\<exists>s. v = SString s \<and> string_codec raw = Some s) \<or> v = SString [] \<and> sd_default d = SString []"
    using String_type by (auto simp: setting_validate_def split: option.splits if_splits)
  then show ?thesis using String_type string_codec_clean by (auto simp: storable_def)
qed (auto simp: setting_validate_def storable_def dest: array_codec_clean number_codec_typed enum_codec_member)

text \<open>The lenient reading is the strict one, with a default behind it.\<close>

lemma parse_cases:
  assumes "sd_type d = String_type \<longrightarrow> (\<exists>t. sd_default d = SString t)"
  shows "setting_parse d raw = (case setting_validate d raw of Some v \<Rightarrow> v
    | None \<Rightarrow> (case (sd_type d, sd_default d) of (String_type, SString t) \<Rightarrow> SString (trim_text t) | (_, v) \<Rightarrow> v))"
  using assms by (auto simp: setting_parse_def setting_validate_def trim_text_def split: setting_type.splits option.splits)

lemma parse_well_typed:
  assumes "well_typed d (sd_default d)" and "sd_type d = String_type \<longrightarrow> (\<exists>t. sd_default d = SString t)"
  shows "well_typed d (setting_parse d raw)"
proof (cases "setting_validate d raw")
  case None
  then show ?thesis using assms
    by (auto simp: parse_cases well_typed_def split: setting_type.splits setting_value.splits)
next
  case (Some v)
  then show ?thesis using validate_storable[OF Some] by (simp add: parse_cases[OF assms(2)] well_typed_def)
qed

lemma json_strings_map [simp]: "json_strings (map JString xs) = xs"
  by (induction xs) simp_all

lemma trimAndFilter_id: "list_all clean_text xs \<Longrightarrow> trimAndFilter xs = xs"
  by (induction xs) (simp_all add: trimAndFilter_def)

lemma number_codec_text: "shortest n \<Longrightarrow> dec_le mn n \<Longrightarrow> dec_le n mx \<Longrightarrow> number_codec mn mx (js_number_text n) = Some n"
  by (simp add: number_codec_def js_number_text_trimmed js_number_round_trip Let_def)

lemma array_codec_text: "list_all clean_text xs \<Longrightarrow> array_codec (json_text (JArray (map JString xs))) = Some xs"
proof -
  assume "list_all clean_text xs"
  moreover have "json_parse (json_text (JArray (map JString xs))) = Some (JArray (map JString xs))"
    by (rule json_round_trip) simp
  ultimately show ?thesis by (simp add: array_codec_def safeParseJson_def trimAndFilter_id)
qed

lemma boolean_codec_text: "parseBooleanToken (js_string (SBool b)) = Some b"
proof -
  have "parseBooleanToken ''true'' = Some True" "parseBooleanToken ''false'' = Some False" by code_simp+
  then show ?thesis by (cases b) simp_all
qed

text \<open>What an update stores is read back as it was, by both readings.\<close>

theorem validate_serialize: "storable d v \<Longrightarrow> setting_validate d (setting_serialize d v) = Some v"
proof (cases "sd_type d")
  case String_type
  assume "storable d v"
  moreover have "trim_text [] = []" by (simp add: trim_text_def)
  ultimately show ?thesis using String_type
    by (auto simp: storable_def setting_validate_def setting_serialize_def string_codec_def split: setting_value.splits)
next
  case (Number_type mn mx)
  assume "storable d v"
  then show ?thesis using Number_type
    by (auto simp: storable_def setting_validate_def setting_serialize_def number_codec_text split: setting_value.splits)
next
  case Boolean_type
  assume "storable d v"
  then show ?thesis using Boolean_type
    by (auto simp: storable_def setting_validate_def setting_serialize_def boolean_codec_text
        simp del: js_string.simps split: setting_value.splits)
next
  case Array_type
  assume "storable d v"
  then show ?thesis using Array_type
    by (auto simp: storable_def setting_validate_def setting_serialize_def array_codec_text
        simp del: json_text.simps split: setting_value.splits)
next
  case (Enum_type options)
  assume "storable d v"
  then obtain s where "v = SString s" "s \<in> set options" using Enum_type
    by (auto simp: storable_def split: setting_value.splits)
  moreover from this have "find (\<lambda>opt. opt = s) options = Some s"
    by (induction options) auto
  ultimately show ?thesis using Enum_type by (simp add: setting_validate_def setting_serialize_def enum_codec_def)
qed

theorem parse_serialize:
  assumes "storable d v" and "sd_type d = String_type \<longrightarrow> (\<exists>t. sd_default d = SString t)"
  shows "setting_parse d (setting_serialize d v) = v"
  using validate_serialize[OF assms(1)] by (simp add: parse_cases[OF assms(2)])

end
