(* ===== verification/Settings_Service.thy ===== *)
theory Settings_Service
  imports Settings
begin

section \<open>The settings store and its service\<close>

text \<open>
  \<^verbatim>\<open>config/system-settings.store.ts\<close>, \<^verbatim>\<open>services/admin/system-settings.service.ts\<close> and
  \<^verbatim>\<open>repositories/system-settings.repository.ts\<close>: the overrides held in memory, the rows of the
  table, and the operations of an administrator. A handler is one step; the outcomes of its
  database calls are its argument. A handler returns the new state also when it fails, so that what
  a failure leaves behind is part of the model. The audit row, the log lines and the effects of a
  change on other services are the entry \<open>st_announced\<close> gets.
\<close>

subsection \<open>State\<close>

record setting_row =
  row_value :: string
  row_lastModifiedBy :: "string option"

record side_effects =
  needsWatcherSync :: bool
  needsFfmpegReload :: bool
  changesProfileDefaults :: bool
  changesLogLevel :: bool
  changesProviderCacheTtl :: bool
  changesMonitoring :: bool
  changesRescue :: bool

record settings =
  st_runtime :: "(string, setting_value) jsmap"
  st_revision :: nat
  st_isInitialized :: bool
  st_rows :: "(string, setting_row) jsmap"
  st_announced :: "(string list \<times> side_effects) list"

text \<open>A server that has just started on a table.\<close>

definition booted :: "(string, setting_row) jsmap \<Rightarrow> settings" where
  "booted rows = \<lparr>st_runtime = [], st_revision = 0, st_isInitialized = False, st_rows = rows, st_announced = []\<rparr>"

datatype settings_error = Rejected domain_error | Database_failed

text \<open>The outcomes of the database calls of a handler, in their order.\<close>

record database_outcome =
  io_load :: bool
  io_admins :: "nat option"
  io_set :: bool
  io_delete :: bool
  io_reload :: bool
  io_list :: bool

subsection \<open>The store\<close>

definition unknown_key :: domain_error where
  "unknown_key = DomainError Internal ''settings.unknown_key''"

definition getWithMeta :: "environment \<Rightarrow> settings \<Rightarrow> string \<Rightarrow> (setting_value \<times> bool) result" where
  "getWithMeta env s key =
     (case setting_definition_of env key of
        None \<Rightarrow> Throw unknown_key
      | Some d \<Rightarrow> Return (case map_of (st_runtime s) key of Some v \<Rightarrow> (v, True) | None \<Rightarrow> (sd_default d, False)))"

definition setting_get :: "environment \<Rightarrow> settings \<Rightarrow> string \<Rightarrow> setting_value result" where
  "setting_get env s key = map_sum id fst (getWithMeta env s key)"

definition hasCustom :: "settings \<Rightarrow> string \<Rightarrow> bool" where
  "hasCustom s key \<longleftrightarrow> has key (st_runtime s)"

definition serializeSettingValue :: "json \<Rightarrow> string" where
  "serializeSettingValue val =
     (case val of
        JString s \<Rightarrow> s
      | JArray xs \<Rightarrow> json_text (JArray xs)
      | JNull \<Rightarrow> ''null''
      | JBool b \<Rightarrow> (if b then ''true'' else ''false'')
      | JNumber n \<Rightarrow> js_number_text n
      | JObject kvs \<Rightarrow> ''[object Object]'')"

definition setParsedRuntimeValue :: "string \<Rightarrow> setting_value \<Rightarrow> settings \<Rightarrow> settings" where
  "setParsedRuntimeValue key v s =
     s\<lparr>st_runtime := AList.update key v (st_runtime s), st_revision := st_revision s + 1\<rparr>"

definition setRuntimeValue :: "environment \<Rightarrow> string \<Rightarrow> json \<Rightarrow> settings \<Rightarrow> settings result" where
  "setRuntimeValue env key val s =
     (case setting_definition_of env key of
        None \<Rightarrow> Throw unknown_key
      | Some d \<Rightarrow> Return (setParsedRuntimeValue key (setting_parse d (serializeSettingValue val)) s))"

definition setRuntimeValues :: "environment \<Rightarrow> (string, json) jsmap \<Rightarrow> settings \<Rightarrow> settings" where
  "setRuntimeValues env vals s =
     foldl (\<lambda>s (key, val). case setRuntimeValue env key val s of Inr s' \<Rightarrow> s' | Inl _ \<Rightarrow> s) s
       (filter (\<lambda>(key, _). isSystemSettingKey env key) vals)"

definition deleteRuntimeValues :: "string list \<Rightarrow> settings \<Rightarrow> settings" where
  "deleteRuntimeValues ks s =
     s\<lparr>st_runtime := fold AList.delete ks (st_runtime s),
       st_revision := (if ks = [] then st_revision s else st_revision s + 1)\<rparr>"

definition clearRuntimeValues :: "settings \<Rightarrow> settings" where
  "clearRuntimeValues s = s\<lparr>st_runtime := [], st_revision := st_revision s + 1\<rparr>"

subsection \<open>The table\<close>

definition setMany :: "(string \<times> string) list \<Rightarrow> string option \<Rightarrow> (string, setting_row) jsmap \<Rightarrow> (string, setting_row) jsmap" where
  "setMany entries actor rows =
     foldl (\<lambda>rows (key, val). AList.update key \<lparr>row_value = val, row_lastModifiedBy = actor\<rparr> rows) rows entries"

definition deleteMany :: "string list \<Rightarrow> (string, setting_row) jsmap \<Rightarrow> (string, setting_row) jsmap" where
  "deleteMany ks rows = filter (\<lambda>(key, _). key \<notin> set ks) rows"

subsection \<open>Loading\<close>

definition populateCache :: "environment \<Rightarrow> (string, setting_row) jsmap \<Rightarrow> settings \<Rightarrow> settings" where
  "populateCache env rows s =
     foldl (\<lambda>s (key, row).
        case setting_definition_of env key of
          None \<Rightarrow> s
        | Some d \<Rightarrow> setParsedRuntimeValue key (setting_parse d (row_value row)) s)
       (clearRuntimeValues s) rows"

text \<open>A load that fails is logged; the server goes on with what it has and loads at the next call.\<close>

definition ensureInitialized :: "environment \<Rightarrow> bool \<Rightarrow> settings \<Rightarrow> settings" where
  "ensureInitialized env load s =
     (if st_isInitialized s \<or> \<not> load then s else (populateCache env (st_rows s) s)\<lparr>st_isInitialized := True\<rparr>)"

subsection \<open>What a change requires\<close>

definition no_effects :: side_effects where
  "no_effects = \<lparr>needsWatcherSync = False, needsFfmpegReload = False, changesProfileDefaults = False, changesLogLevel = False,
     changesProviderCacheTtl = False, changesMonitoring = False, changesRescue = False\<rparr>"

definition effect_of_key :: "side_effects \<Rightarrow> string \<Rightarrow> side_effects" where
  "effect_of_key e key =
     \<lparr>needsWatcherSync = needsWatcherSync e \<or> prefix ''scanning.autoWatcher'' key
        \<or> key = ''scanning.watcherFallbackIntervalMinutes'' \<or> key = ''scanning.scheduledScanIntervalHours'',
      needsFfmpegReload = needsFfmpegReload e \<or> prefix ''ffmpeg.'' key \<or> key = ''ffprobe.path'',
      changesProfileDefaults = changesProfileDefaults e \<or> prefix ''profiles.defaultPreferences.'' key,
      changesLogLevel = changesLogLevel e \<or> key = ''system.logs.level'',
      changesProviderCacheTtl = changesProviderCacheTtl e \<or> key = ''plugins.providers.detailsCacheTtlMs'',
      changesMonitoring = changesMonitoring e \<or> key = ''system.resources.monitoringIntervalMs''
        \<or> key = ''system.resources.monitoringEnabled'',
      changesRescue = changesRescue e \<or> prefix ''system.rescue.'' key\<rparr>"

definition requiredSideEffects :: "string list \<Rightarrow> side_effects" where
  "requiredSideEffects ks = foldl effect_of_key no_effects ks"

definition finishChange :: "string list \<Rightarrow> settings \<Rightarrow> settings" where
  "finishChange ks s = s\<lparr>st_announced := st_announced s @ [(ks, requiredSideEffects ks)]\<rparr>"

subsection \<open>The rules of an update\<close>

definition invalid_value :: domain_error where
  "invalid_value = DomainError Validation ''admin.settings.invalid_value''"

definition isDefaultSettingValue :: "setting_value \<Rightarrow> setting_value \<Rightarrow> bool" where
  "isDefaultSettingValue d v =
     (case (d, v) of
        (SArray xs, SArray ys) \<Rightarrow> length xs = length ys \<and> (\<forall>i < length xs. xs ! i = ys ! i)
      | (SArray _, _) \<Rightarrow> False
      | (_, SArray _) \<Rightarrow> False
      | _ \<Rightarrow> d = v)"

definition parseAndSerialize :: "setting_definition \<Rightarrow> json \<Rightarrow> (setting_value \<times> string) result" where
  "parseAndSerialize d val =
     (case setting_validate d (serializeSettingValue val) of
        None \<Rightarrow> Throw invalid_value
      | Some v \<Rightarrow> Return (v, setting_serialize d v))"

definition assertSettingAllowed :: "string \<Rightarrow> setting_value \<Rightarrow> nat option \<Rightarrow> settings_error option" where
  "assertSettingAllowed key v admins =
     (if key = ''network.rateLimit.routeOverrides'' \<and>
         (let issues = rateLimitOverrideIssues (js_string v) in oi_malformed issues \<noteq> [] \<or> oi_untunable issues \<noteq> [])
      then Some (Rejected (DomainError Validation ''network.rate_limit_override_invalid''))
      else if key = ''auth.enforceTwoFactor'' \<and> v = SBool True then
        (case admins of
           None \<Rightarrow> Some Database_failed
         | Some n \<Rightarrow> if n = 0 then Some (Rejected (DomainError Validation ''auth.two_factor_requires_admin'')) else None)
      else None)"

definition getEffectiveNumber :: "environment \<Rightarrow> settings \<Rightarrow> (string, setting_value) jsmap \<Rightarrow> string \<Rightarrow> decimal" where
  "getEffectiveNumber env s after key =
     (case map_of after key of
        Some (SNumber n) \<Rightarrow> n
      | _ \<Rightarrow> (case setting_get env s key of Inr (SNumber n) \<Rightarrow> n | _ \<Rightarrow> Dec 0 0))"

definition assertCrossFieldSettings ::
  "environment \<Rightarrow> settings \<Rightarrow> string list \<Rightarrow> (string, setting_value) jsmap \<Rightarrow> domain_error option" where
  "assertCrossFieldSettings env s updated after =
     (let eff = getEffectiveNumber env s after in
      if (''system.resources.memoryThresholdPercent'' \<in> set updated \<or> ''system.resources.memoryCriticalPercent'' \<in> set updated) \<and>
         dec_le (eff ''system.resources.memoryCriticalPercent'') (eff ''system.resources.memoryThresholdPercent'')
      then Some (DomainError Validation ''settings.memory_threshold_order'')
      else if (''stream.maxSessions'' \<in> set updated \<or> ''stream.maxSessionsPerUser'' \<in> set updated) \<and>
         \<not> dec_le (eff ''stream.maxSessionsPerUser'') (eff ''stream.maxSessions'')
      then Some (DomainError Validation ''settings.max_sessions_order'')
      else None)"

subsection \<open>Updates, resets, exports\<close>

record batch =
  ba_entries :: "(string \<times> string) list"
  ba_pruned :: "string list"
  ba_after :: "(string, setting_value) jsmap"

definition update_entry ::
  "environment \<Rightarrow> nat option \<Rightarrow> string \<times> json \<Rightarrow> batch \<Rightarrow> settings_error + batch" where
  "update_entry env admins entry b =
     (case setting_definition_of env (fst entry) of
        None \<Rightarrow> Inl (Rejected (DomainError Validation ''admin.settings.unknown_key''))
      | Some d \<Rightarrow>
          (case parseAndSerialize d (snd entry) of
             Inl e \<Rightarrow> Inl (Rejected e)
           | Inr (v, serialized) \<Rightarrow>
               (case assertSettingAllowed (fst entry) v admins of
                  Some e \<Rightarrow> Inl e
                | None \<Rightarrow>
                    (let b = b\<lparr>ba_after := AList.update (fst entry) v (ba_after b)\<rparr> in
                     if isDefaultSettingValue (sd_default d) v
                     then Inr (b\<lparr>ba_pruned := ba_pruned b @ [fst entry]\<rparr>)
                     else Inr (b\<lparr>ba_entries := ba_entries b @ [(fst entry, serialized)]\<rparr>)))))"

fun collect_updates :: "environment \<Rightarrow> nat option \<Rightarrow> (string \<times> json) list \<Rightarrow> batch \<Rightarrow> settings_error + batch" where
  "collect_updates env admins [] b = Inr b"
| "collect_updates env admins (entry # updates) b =
     (case update_entry env admins entry b of
        Inl e \<Rightarrow> Inl e
      | Inr b' \<Rightarrow> collect_updates env admins updates b')"

text \<open>The reply lists the table again.\<close>

definition getAll :: "environment \<Rightarrow> database_outcome \<Rightarrow> settings \<Rightarrow> settings \<times> (settings_error + unit)" where
  "getAll env io s = (ensureInitialized env (io_reload io) s, if io_list io then Inr () else Inl Database_failed)"

text \<open>The new overrides, once the table has them.\<close>

definition apply_batch :: "batch \<Rightarrow> settings \<Rightarrow> settings" where
  "apply_batch b s =
     (let s' = foldl (\<lambda>s (key, v). setParsedRuntimeValue key v s) s
                 (filter (\<lambda>(key, _). key \<notin> set (ba_pruned b)) (ba_after b)) in
      if ba_pruned b = [] then s' else deleteRuntimeValues (ba_pruned b) s')"

definition updateSettings ::
  "environment \<Rightarrow> database_outcome \<Rightarrow> string option \<Rightarrow> (string, json) jsmap \<Rightarrow> settings
   \<Rightarrow> settings \<times> (settings_error + unit)" where
  "updateSettings env io actor updates s0 =
     (let s = ensureInitialized env (io_load io) s0 in
      case collect_updates env (io_admins io) updates \<lparr>ba_entries = [], ba_pruned = [], ba_after = []\<rparr> of
        Inl e \<Rightarrow> (s, Inl e)
      | Inr b \<Rightarrow>
          (case assertCrossFieldSettings env s (keys updates) (ba_after b) of
             Some e \<Rightarrow> (s, Inl (Rejected e))
           | None \<Rightarrow>
               if ba_entries b = [] \<and> ba_pruned b = [] then getAll env io s
               else if ba_entries b \<noteq> [] \<and> \<not> io_set io then (s, Inl Database_failed)
               else
                 (let s = s\<lparr>st_rows := setMany (ba_entries b) actor (st_rows s)\<rparr> in
                  if ba_pruned b \<noteq> [] \<and> \<not> io_delete io then (s, Inl Database_failed)
                  else
                    (let s = s\<lparr>st_rows := deleteMany (ba_pruned b) (st_rows s)\<rparr> in
                     getAll env io (finishChange (keys (ba_after b)) (apply_batch b s))))))"

definition keys_to_reset :: "environment \<Rightarrow> string list option \<Rightarrow> string list" where
  "keys_to_reset env ks =
     (case ks of
        None \<Rightarrow> SETTING_KEYS env
      | Some [] \<Rightarrow> SETTING_KEYS env
      | Some ks \<Rightarrow> filter (isSystemSettingKey env) ks)"

definition resetSettings ::
  "environment \<Rightarrow> database_outcome \<Rightarrow> string list option \<Rightarrow> settings \<Rightarrow> settings \<times> (settings_error + unit)" where
  "resetSettings env io ks s0 =
     (let s = ensureInitialized env (io_load io) s0; reset = keys_to_reset env ks in
      if reset = [] then getAll env io s
      else if \<not> io_delete io then (s, Inl Database_failed)
      else getAll env io
             (finishChange reset (deleteRuntimeValues reset (s\<lparr>st_rows := deleteMany reset (st_rows s)\<rparr>))))"

fun setting_json :: "setting_value \<Rightarrow> json" where
  "setting_json (SString s) = JString s"
| "setting_json (SNumber n) = JNumber n"
| "setting_json (SBool b) = JBool b"
| "setting_json (SArray xs) = JArray (map JString xs)"

definition exportSettings :: "environment \<Rightarrow> bool \<Rightarrow> settings \<Rightarrow> settings \<times> (string, json) jsmap" where
  "exportSettings env load s0 =
     (let s = ensureInitialized env load s0 in
      (s, List.map_filter (\<lambda>key. case setting_get env s key of Inr v \<Rightarrow> Some (key, setting_json v) | Inl _ \<Rightarrow> None)
            (SETTING_KEYS env)))"

definition importSettings ::
  "environment \<Rightarrow> database_outcome \<Rightarrow> string option \<Rightarrow> (string, json) jsmap \<Rightarrow> settings
   \<Rightarrow> settings \<times> (settings_error + unit)" where
  "importSettings env io actor file_settings s = updateSettings env io actor file_settings s"

end
