(* ===== verification/Settings_Safety.thy ===== *)
theory Settings_Safety
  imports Settings_Service
begin

section \<open>Settings keep their types and survive a restart\<close>

text \<open>
  The runs of the settings service, from any table the server may find, and the two facts every
  reader of a setting relies on: the value it gets has the setting's type and lies within its
  bounds, and the overrides in memory are the ones the table would give a new server. The two
  places where the second fails are theorems at the end.
\<close>

subsection \<open>Runs\<close>

text \<open>
  With \<open>strict\<close>, the two writes of an update succeed together or the first fails, and nobody sets an
  override behind the service's back.
\<close>

inductive settings_reach :: "environment \<Rightarrow> bool \<Rightarrow> settings \<Rightarrow> bool" for env strict where
  boot: "wf_map rows \<Longrightarrow> settings_reach env strict (booted rows)"
| load: "settings_reach env strict s \<Longrightarrow> settings_reach env strict (ensureInitialized env ok s)"
| change: "settings_reach env strict s \<Longrightarrow> wf_map updates \<Longrightarrow> (strict \<Longrightarrow> io_set io \<Longrightarrow> io_delete io) \<Longrightarrow>
    settings_reach env strict (fst (updateSettings env io actor updates s))"
| reset: "settings_reach env strict s \<Longrightarrow> settings_reach env strict (fst (resetSettings env io ks s))"
| export: "settings_reach env strict s \<Longrightarrow> settings_reach env strict (fst (exportSettings env ok s))"
| raw: "settings_reach env strict s \<Longrightarrow> \<not> strict \<Longrightarrow> setRuntimeValue env key val s = Inr s' \<Longrightarrow>
    settings_reach env strict s'"
| restart: "settings_reach env strict s \<Longrightarrow> settings_reach env strict (booted (st_rows s))"

inductive_cases settings_reachE: "settings_reach env strict s"

subsection \<open>What the operations do to the overrides and the rows\<close>

lemma map_of_foldl_update:
  "wf_map kvs \<Longrightarrow> map_of (foldl (\<lambda>m (k, v). AList.update k v m) m kvs) = map_of m ++ map_of kvs"
proof (induction kvs arbitrary: m)
  case (Cons p kvs)
  obtain k v where p: "p = (k, v)" by (cases p)
  with Cons.prems have "k \<notin> set (keys kvs)" "wf_map kvs" by simp_all
  then have "map_of kvs k = None" by (simp add: map_of_eq_None_iff)
  then have "map_of (AList.update k v m) ++ map_of kvs = map_of m ++ map_of (p # kvs)"
    by (auto simp: p map_of_update map_add_def fun_eq_iff split: option.splits)
  then show ?case by (simp only: p foldl.simps prod.case Cons.IH[OF \<open>wf_map kvs\<close>])
qed simp

lemma map_of_fold_delete: "map_of (fold AList.delete ks m) k = (if k \<in> set ks then None else map_of m k)"
  by (induction ks arbitrary: m) (auto simp: map_of_delete_eq)

lemma setMany_eq:
  "setMany entries actor rows = foldl (\<lambda>m (k, v). AList.update k v m) rows
     (map (\<lambda>(k, t). (k, \<lparr>row_value = t, row_lastModifiedBy = actor\<rparr>)) entries)"
  by (induction entries arbitrary: rows) (auto simp: setMany_def)

lemma wf_foldl_update: "wf_map m \<Longrightarrow> wf_map (foldl (\<lambda>m (k, v). AList.update k v m) m kvs)"
  by (induction kvs arbitrary: m) auto

lemma wf_setMany: "wf_map rows \<Longrightarrow> wf_map (setMany entries actor rows)"
  unfolding setMany_eq by (rule wf_foldl_update)

lemma wf_deleteMany: "wf_map rows \<Longrightarrow> wf_map (deleteMany ks rows)"
  by (simp add: deleteMany_def)

lemma map_of_setMany:
  assumes "wf_map entries"
  shows "map_of (setMany entries actor rows) k = (case map_of entries k of
      Some t \<Rightarrow> Some \<lparr>row_value = t, row_lastModifiedBy = actor\<rparr> | None \<Rightarrow> map_of rows k)"
proof -
  have "wf_map (map (\<lambda>(k, t). (k, \<lparr>row_value = t, row_lastModifiedBy = actor\<rparr>)) entries)"
    using assms by (simp add: case_prod_beta comp_def)
  moreover have "map_of (map (\<lambda>(k, t). (k, \<lparr>row_value = t, row_lastModifiedBy = actor\<rparr>)) entries) k =
      map_option (\<lambda>t. \<lparr>row_value = t, row_lastModifiedBy = actor\<rparr>) (map_of entries k)"
    by (induction entries) auto
  ultimately show ?thesis
    by (simp add: setMany_eq map_of_foldl_update map_add_def split: option.split)
qed

lemma map_of_deleteMany: "wf_map rows \<Longrightarrow> map_of (deleteMany ks rows) k = (if k \<in> set ks then None else map_of rows k)"
  by (simp add: deleteMany_def filter_map_of split: option.split)

lemma store_fields [simp]:
  "st_runtime (setParsedRuntimeValue k v s) = AList.update k v (st_runtime s)"
  "st_rows (setParsedRuntimeValue k v s) = st_rows s"
  "st_isInitialized (setParsedRuntimeValue k v s) = st_isInitialized s"
  "st_runtime (deleteRuntimeValues ks s) = fold AList.delete ks (st_runtime s)"
  "st_rows (deleteRuntimeValues ks s) = st_rows s"
  "st_isInitialized (deleteRuntimeValues ks s) = st_isInitialized s"
  "st_runtime (finishChange ks s) = st_runtime s"
  "st_rows (finishChange ks s) = st_rows s"
  "st_isInitialized (finishChange ks s) = st_isInitialized s"
  "st_runtime (booted rows) = []" "st_rows (booted rows) = rows" "\<not> st_isInitialized (booted rows)"
  by (simp_all add: setParsedRuntimeValue_def deleteRuntimeValues_def finishChange_def booted_def)

lemma foldl_set_fields:
  "st_runtime (foldl (\<lambda>s (k, v). setParsedRuntimeValue k v s) s kvs) =
     foldl (\<lambda>m (k, v). AList.update k v m) (st_runtime s) kvs"
  "st_rows (foldl (\<lambda>s (k, v). setParsedRuntimeValue k v s) s kvs) = st_rows s"
  "st_isInitialized (foldl (\<lambda>s (k, v). setParsedRuntimeValue k v s) s kvs) = st_isInitialized s"
  by (induction kvs arbitrary: s) (simp_all add: case_prod_beta)

lemma apply_batch_rows [simp]:
  "st_rows (apply_batch b s) = st_rows s" "st_isInitialized (apply_batch b s) = st_isInitialized s"
  by (simp_all add: apply_batch_def foldl_set_fields Let_def)

lemma apply_batch_runtime:
  assumes "wf_map (ba_after b)"
  shows "map_of (st_runtime (apply_batch b s)) k =
    (if k \<in> set (ba_pruned b) then None
     else case map_of (ba_after b) k of Some v \<Rightarrow> Some v | None \<Rightarrow> map_of (st_runtime s) k)"
  using assms
  by (auto simp: apply_batch_def Let_def foldl_set_fields map_of_fold_delete map_of_foldl_update filter_map_of map_add_def
      split: option.splits)

subsection \<open>Loading\<close>

text \<open>The override a table gives a key.\<close>

definition loaded :: "environment \<Rightarrow> (string, setting_row) jsmap \<Rightarrow> string \<Rightarrow> setting_value option" where
  "loaded env rows key =
     (case (map_of rows key, setting_definition_of env key) of
        (Some row, Some d) \<Rightarrow> Some (setting_parse d (row_value row))
      | _ \<Rightarrow> None)"

fun loaded_overrides :: "environment \<Rightarrow> (string, setting_row) jsmap \<Rightarrow> (string, setting_value) jsmap" where
  "loaded_overrides env [] = []"
| "loaded_overrides env ((key, row) # rows) =
     (case setting_definition_of env key of
        None \<Rightarrow> loaded_overrides env rows
      | Some d \<Rightarrow> (key, setting_parse d (row_value row)) # loaded_overrides env rows)"

lemma populateCache_eq:
  "populateCache env rows s = foldl (\<lambda>s (k, v). setParsedRuntimeValue k v s) (clearRuntimeValues s) (loaded_overrides env rows)"
proof -
  have "foldl (\<lambda>s (key, row). case setting_definition_of env key of None \<Rightarrow> s
        | Some d \<Rightarrow> setParsedRuntimeValue key (setting_parse d (row_value row)) s) t rows =
      foldl (\<lambda>s (k, v). setParsedRuntimeValue k v s) t (loaded_overrides env rows)" for t
    by (induction env rows arbitrary: t rule: loaded_overrides.induct) (simp_all split: option.split)
  then show ?thesis by (simp add: populateCache_def)
qed

lemma loaded_overrides_keys: "set (keys (loaded_overrides env rows)) \<subseteq> set (keys rows)"
  by (induction env rows rule: loaded_overrides.induct) (auto split: option.splits)

lemma wf_loaded_overrides: "wf_map rows \<Longrightarrow> wf_map (loaded_overrides env rows)"
proof (induction env rows rule: loaded_overrides.induct)
  case (2 env key row rows)
  then have "key \<notin> set (keys (loaded_overrides env rows))" using loaded_overrides_keys[of env rows] by auto
  with 2 show ?case by (simp split: option.split)
qed simp

lemma map_of_loaded_overrides: "wf_map rows \<Longrightarrow> map_of (loaded_overrides env rows) key = loaded env rows key"
proof (induction env rows rule: loaded_overrides.induct)
  case (2 env k row rows)
  then have "k \<notin> set (keys (loaded_overrides env rows))" using loaded_overrides_keys[of env rows] by auto
  then have "map_of (loaded_overrides env rows) k = None" by (simp add: map_of_eq_None_iff)
  with 2 show ?case by (simp add: loaded_def split: option.split)
qed (simp add: loaded_def)

lemma ensureInitialized_rows [simp]: "st_rows (ensureInitialized env ok s) = st_rows s"
  by (simp add: ensureInitialized_def populateCache_eq foldl_set_fields clearRuntimeValues_def)

lemma ensureInitialized_runtime:
  assumes "wf_map (st_rows s)"
  shows "map_of (st_runtime (ensureInitialized env ok s)) key =
    (if st_isInitialized s \<or> \<not> ok then map_of (st_runtime s) key else loaded env (st_rows s) key)"
  using assms map_of_loaded_overrides[of "st_rows s" env key]
  by (simp add: ensureInitialized_def populateCache_eq foldl_set_fields clearRuntimeValues_def
      map_of_foldl_update wf_loaded_overrides)

lemma ensureInitialized_done: "st_isInitialized (ensureInitialized env ok s) \<longleftrightarrow> st_isInitialized s \<or> ok"
  by (simp add: ensureInitialized_def)

subsection \<open>A batch of updates\<close>

lemma isDefaultSettingValue_iff [simp]: "isDefaultSettingValue d v \<longleftrightarrow> d = v"
  by (auto simp: isDefaultSettingValue_def list_eq_iff_nth_eq split: setting_value.splits)

text \<open>Every accepted value is storable, and is either pruned, being the default, or written as its text.\<close>

definition accepted :: "environment \<Rightarrow> batch \<Rightarrow> string \<Rightarrow> setting_value \<Rightarrow> bool" where
  "accepted env b key v \<longleftrightarrow>
     (\<exists>d. setting_definition_of env key = Some d \<and> storable d v \<and>
        (if v = sd_default d then key \<in> set (ba_pruned b) \<and> map_of (ba_entries b) key = None
         else key \<notin> set (ba_pruned b) \<and> map_of (ba_entries b) key = Some (setting_serialize d v)))"

definition batch_ok :: "environment \<Rightarrow> batch \<Rightarrow> bool" where
  "batch_ok env b \<longleftrightarrow> wf_map (ba_after b) \<and> wf_map (ba_entries b) \<and>
     set (ba_pruned b) \<subseteq> set (keys (ba_after b)) \<and> set (keys (ba_entries b)) \<subseteq> set (keys (ba_after b)) \<and>
     (\<forall>key v. map_of (ba_after b) key = Some v \<longrightarrow> accepted env b key v)"

lemma update_entry_Inr:
  assumes "update_entry env admins entry b = Inr b'"
  obtains d v where "setting_definition_of env (fst entry) = Some d"
    and "setting_validate d (serializeSettingValue (snd entry)) = Some v"
    and "assertSettingAllowed (fst entry) v admins = None"
    and "b' = (if v = sd_default d
         then b\<lparr>ba_after := AList.update (fst entry) v (ba_after b), ba_pruned := ba_pruned b @ [fst entry]\<rparr>
         else b\<lparr>ba_after := AList.update (fst entry) v (ba_after b),
                ba_entries := ba_entries b @ [(fst entry, setting_serialize d v)]\<rparr>)"
  using assms by (auto simp: update_entry_def parseAndSerialize_def Let_def split: option.splits if_splits sum.splits)

lemma update_entry_ok:
  assumes "update_entry env admins entry b = Inr b'" and "batch_ok env b" and fresh: "fst entry \<notin> set (keys (ba_after b))"
  shows "batch_ok env b' \<and> keys (ba_after b') = keys (ba_after b) @ [fst entry]"
proof -
  obtain key val where e: "entry = (key, val)" by (cases entry)
  from update_entry_Inr[OF assms(1)] obtain d v where d: "setting_definition_of env key = Some d"
    and v: "setting_validate d (serializeSettingValue val) = Some v"
    and b': "b' = (if v = sd_default d
         then b\<lparr>ba_after := AList.update key v (ba_after b), ba_pruned := ba_pruned b @ [key]\<rparr>
         else b\<lparr>ba_after := AList.update key v (ba_after b), ba_entries := ba_entries b @ [(key, setting_serialize d v)]\<rparr>)"
    unfolding e fst_conv snd_conv by blast
  note st = validate_storable[OF v]
  have b: "wf_map (ba_after b)" "wf_map (ba_entries b)" "set (ba_pruned b) \<subseteq> set (keys (ba_after b))"
    "set (keys (ba_entries b)) \<subseteq> set (keys (ba_after b))" and acc: "\<And>k w. map_of (ba_after b) k = Some w \<Longrightarrow> accepted env b k w"
    using assms(2) unfolding batch_ok_def by blast+
  have new: "key \<notin> set (keys (ba_after b))" "key \<notin> set (ba_pruned b)" "key \<notin> set (keys (ba_entries b))"
    using fresh b by (auto simp: e)
  then have none: "map_of (ba_entries b) key = None" by (simp add: map_of_eq_None_iff)
  have ks: "keys (ba_after b') = keys (ba_after b) @ [key]" using new(1) by (simp add: b' update_fresh)
  have lk: "map_of (ba_after b') k = (if k = key then Some v else map_of (ba_after b) k)" for k
    by (simp add: b' map_of_update)
  have "accepted env b' k w" if "map_of (ba_after b') k = Some w" for k w
  proof (cases "k = key")
    case True
    then have "w = v" using that by (simp add: lk)
    moreover have "if v = sd_default d then key \<in> set (ba_pruned b') \<and> map_of (ba_entries b') key = None
        else key \<notin> set (ba_pruned b') \<and> map_of (ba_entries b') key = Some (setting_serialize d v)"
      using new(2) none by (simp add: b' map_add_def)
    ultimately show ?thesis unfolding accepted_def using True d st by (intro exI[of _ d]) simp
  next
    case False
    have same: "k \<in> set (ba_pruned b') \<longleftrightarrow> k \<in> set (ba_pruned b)" "map_of (ba_entries b') k = map_of (ba_entries b) k"
      using False by (simp_all add: b' map_add_def split: option.split)
    have "accepted env b k w" using False that acc by (simp add: lk)
    then show ?thesis unfolding accepted_def same .
  qed
  moreover have "wf_map (ba_after b')" using b(1) by (simp add: b')
  moreover have "wf_map (ba_entries b')" using b(2) new(3) by (simp add: b')
  moreover have "set (ba_pruned b') \<subseteq> set (keys (ba_after b'))" "set (keys (ba_entries b')) \<subseteq> set (keys (ba_after b'))"
    using b(3,4) unfolding ks by (auto simp: b')
  ultimately show ?thesis by (simp add: batch_ok_def ks e)
qed

lemma collect_updates_ok:
  "collect_updates env admins updates b = Inr b' \<Longrightarrow> batch_ok env b \<Longrightarrow> distinct (keys (ba_after b) @ keys updates) \<Longrightarrow>
   batch_ok env b' \<and> keys (ba_after b') = keys (ba_after b) @ keys updates"
proof (induction updates arbitrary: b)
  case (Cons entry updates)
  then obtain c where c: "update_entry env admins entry b = Inr c" and rest: "collect_updates env admins updates c = Inr b'"
    by (auto split: sum.splits)
  from update_entry_ok[OF c Cons.prems(2)] Cons.prems(3)
  have "batch_ok env c" "keys (ba_after c) = keys (ba_after b) @ [fst entry]" by auto
  with Cons.IH[OF rest] Cons.prems(3) show ?case by simp
qed simp

abbreviation empty_batch :: batch where
  "empty_batch \<equiv> \<lparr>ba_entries = [], ba_pruned = [], ba_after = []\<rparr>"

lemma collected:
  assumes "collect_updates env admins updates empty_batch = Inr b" and "wf_map updates"
  shows "batch_ok env b" "keys (ba_after b) = keys updates"
proof -
  have "batch_ok env empty_batch" by (simp add: batch_ok_def)
  from collect_updates_ok[OF assms(1) this] assms(2)
  show "batch_ok env b" "keys (ba_after b) = keys updates" by simp_all
qed

text \<open>The states an update can end in.\<close>

lemma update_cases:
  assumes "wf_map updates"
  obtains (kept) "fst (updateSettings env io actor updates s) = ensureInitialized env (io_load io) s"
  | (listed) "fst (updateSettings env io actor updates s) = ensureInitialized env (io_reload io) (ensureInitialized env (io_load io) s)"
  | (torn) b where "batch_ok env b" and "io_set io" and "\<not> io_delete io"
      and "fst (updateSettings env io actor updates s) =
        (ensureInitialized env (io_load io) s)\<lparr>st_rows := setMany (ba_entries b) actor (st_rows s)\<rparr>"
  | (applied) b where "batch_ok env b"
      and "fst (updateSettings env io actor updates s) =
        ensureInitialized env (io_reload io) (finishChange (keys updates) (apply_batch b
          ((ensureInitialized env (io_load io) s)\<lparr>st_rows := deleteMany (ba_pruned b) (setMany (ba_entries b) actor (st_rows s))\<rparr>)))"
proof (cases "collect_updates env (io_admins io) updates empty_batch")
  case (Inl e)
  then show ?thesis by (intro kept) (simp add: updateSettings_def)
next
  case (Inr b)
  note ok = collected[OF Inr assms]
  let ?s = "ensureInitialized env (io_load io) s"
  show ?thesis
  proof (cases "assertCrossFieldSettings env ?s (keys updates) (ba_after b)")
    case (Some e)
    with Inr show ?thesis by (intro kept) (simp add: updateSettings_def)
  next
    case None
    consider "ba_entries b = []" "ba_pruned b = []" | "ba_entries b \<noteq> []" "\<not> io_set io"
      | "ba_pruned b \<noteq> []" "\<not> io_delete io" "ba_entries b = []"
      | "ba_pruned b \<noteq> []" "\<not> io_delete io" "io_set io"
      | "ba_entries b \<noteq> [] \<or> ba_pruned b \<noteq> []" "ba_entries b = [] \<or> io_set io" "ba_pruned b = [] \<or> io_delete io" by blast
    then show ?thesis
    proof cases
      case 1
      with Inr None show ?thesis by (intro listed) (simp add: updateSettings_def getAll_def)
    next
      case 2
      with Inr None show ?thesis by (intro kept) (simp add: updateSettings_def)
    next
      case 3
      with Inr None show ?thesis by (intro kept) (simp add: updateSettings_def setMany_def)
    next
      case 4
      with Inr None ok show ?thesis by (intro torn[of b]) (simp_all add: updateSettings_def Let_def)
    next
      case 5
      then have "fst (updateSettings env io actor updates s) =
        ensureInitialized env (io_reload io) (finishChange (keys (ba_after b)) (apply_batch b
          (?s\<lparr>st_rows := deleteMany (ba_pruned b) (setMany (ba_entries b) actor (st_rows s))\<rparr>)))"
        using Inr None by (auto simp: updateSettings_def getAll_def Let_def)
      with ok show ?thesis by (intro applied) simp_all
    qed
  qed
qed

subsection \<open>Types\<close>

text \<open>Every override is a value of its setting.\<close>

definition overrides_typed :: "environment \<Rightarrow> settings \<Rightarrow> bool" where
  "overrides_typed env s \<longleftrightarrow> wf_map (st_rows s) \<and>
     (\<forall>key v. map_of (st_runtime s) key = Some v \<longrightarrow> (\<exists>d. setting_definition_of env key = Some d \<and> well_typed d v))"

lemma overrides_typedI:
  "wf_map (st_rows s) \<Longrightarrow>
   (\<And>key v. map_of (st_runtime s) key = Some v \<Longrightarrow> \<exists>d. setting_definition_of env key = Some d \<and> well_typed d v) \<Longrightarrow>
   overrides_typed env s"
  by (simp add: overrides_typed_def)

lemma overrides_typedD:
  "overrides_typed env s \<Longrightarrow> map_of (st_runtime s) key = Some v \<Longrightarrow>
   \<exists>d. setting_definition_of env key = Some d \<and> well_typed d v"
  "overrides_typed env s \<Longrightarrow> wf_map (st_rows s)"
  by (simp_all add: overrides_typed_def)

lemma loaded_typed: "loaded env rows key = Some v \<Longrightarrow> \<exists>d. setting_definition_of env key = Some d \<and> well_typed d v"
  using parse_well_typed string_default by (fastforce simp: loaded_def split: option.splits)

lemma typed_load [inv_intros]: "overrides_typed env s \<Longrightarrow> overrides_typed env (ensureInitialized env ok s)"
  by (intro overrides_typedI)
    (auto simp: overrides_typed_def ensureInitialized_runtime dest: loaded_typed split: if_splits)

lemma typed_same_runtime:
  "overrides_typed env s \<Longrightarrow> st_runtime t = st_runtime s \<Longrightarrow> wf_map (st_rows t) \<Longrightarrow> overrides_typed env t"
  by (simp add: overrides_typed_def)

lemma typed_delete: "overrides_typed env s \<Longrightarrow> overrides_typed env (deleteRuntimeValues ks s)"
  by (auto simp: overrides_typed_def map_of_fold_delete)

lemma typed_batch:
  assumes "overrides_typed env s" and "batch_ok env b"
  shows "overrides_typed env (apply_batch b s)"
proof (rule overrides_typedI)
  show "wf_map (st_rows (apply_batch b s))" using overrides_typedD(2)[OF assms(1)] by simp
next
  fix key v assume "map_of (st_runtime (apply_batch b s)) key = Some v"
  then have "map_of (ba_after b) key = Some v \<or> map_of (st_runtime s) key = Some v"
    using assms(2) by (auto simp: apply_batch_runtime batch_ok_def split: if_splits option.splits)
  moreover have "map_of (ba_after b) key = Some v \<Longrightarrow> accepted env b key v" using assms(2) by (simp add: batch_ok_def)
  ultimately show "\<exists>d. setting_definition_of env key = Some d \<and> well_typed d v"
    using overrides_typedD(1)[OF assms(1)] by (auto simp: accepted_def well_typed_def)
qed

lemma typed_update [inv_intros]:
  assumes "overrides_typed env s" and "wf_map updates"
  shows "overrides_typed env (fst (updateSettings env io actor updates s))"
  using assms(2)
proof (cases rule: update_cases[where env = env and io = io and actor = actor and s = s])
  case kept
  then show ?thesis using assms(1) by (simp add: typed_load)
next
  case listed
  then show ?thesis using assms(1) by (simp add: typed_load)
next
  case (torn b)
  have "wf_map (setMany (ba_entries b) actor (st_rows s))" using overrides_typedD(2)[OF assms(1)] by (rule wf_setMany)
  then show ?thesis unfolding torn(4)
    by (intro typed_same_runtime[OF typed_load[OF assms(1), of "io_load io"]]) simp_all
next
  case (applied b)
  let ?s = "(ensureInitialized env (io_load io) s)\<lparr>st_rows := deleteMany (ba_pruned b) (setMany (ba_entries b) actor (st_rows s))\<rparr>"
  have "wf_map (deleteMany (ba_pruned b) (setMany (ba_entries b) actor (st_rows s)))"
    using overrides_typedD(2)[OF assms(1)] by (intro wf_deleteMany wf_setMany)
  then have "overrides_typed env ?s" by (intro typed_same_runtime[OF typed_load[OF assms(1), of "io_load io"]]) simp_all
  from typed_batch[OF this applied(1)]
  have "overrides_typed env (finishChange (keys updates) (apply_batch b ?s))" by (simp add: overrides_typed_def)
  then show ?thesis unfolding applied(2) by (rule typed_load)
qed

lemma reset_cases:
  obtains (kept) "fst (resetSettings env io ks s) = ensureInitialized env (io_load io) s"
  | (listed) "fst (resetSettings env io ks s) = ensureInitialized env (io_reload io) (ensureInitialized env (io_load io) s)"
  | (applied) r where "fst (resetSettings env io ks s) = ensureInitialized env (io_reload io)
        (finishChange r (deleteRuntimeValues r ((ensureInitialized env (io_load io) s)\<lparr>st_rows := deleteMany r (st_rows s)\<rparr>)))"
  by (cases "keys_to_reset env ks = []"; cases "io_delete io") (auto simp: resetSettings_def getAll_def Let_def)

lemma typed_reset [inv_intros]:
  assumes "overrides_typed env s"
  shows "overrides_typed env (fst (resetSettings env io ks s))"
proof (cases rule: reset_cases[where env = env and io = io and ks = ks and s = s])
  case (applied r)
  let ?s = "(ensureInitialized env (io_load io) s)\<lparr>st_rows := deleteMany r (st_rows s)\<rparr>"
  have "wf_map (deleteMany r (st_rows s))" using overrides_typedD(2)[OF assms] by (rule wf_deleteMany)
  then have "overrides_typed env ?s" by (intro typed_same_runtime[OF typed_load[OF assms, of "io_load io"]]) simp_all
  from typed_delete[OF this, of r]
  have "overrides_typed env (finishChange r (deleteRuntimeValues r ?s))" by (simp add: overrides_typed_def)
  then show ?thesis unfolding applied by (rule typed_load)
qed (use assms in \<open>simp_all add: typed_load\<close>)

lemma reach_typed: "settings_reach env strict s \<Longrightarrow> overrides_typed env s"
proof (induction rule: settings_reach.induct)
  case (raw s key val s')
  then obtain d where d: "setting_definition_of env key = Some d"
    and s': "s' = setParsedRuntimeValue key (setting_parse d (serializeSettingValue val)) s"
    by (auto simp: setRuntimeValue_def split: option.splits)
  have "well_typed d (setting_parse d (serializeSettingValue val))" using string_default[OF d] by (intro parse_well_typed) simp_all
  then show ?case using raw.IH d by (auto simp: overrides_typed_def s' map_of_update split: if_splits)
next
  case (boot rows)
  then show ?case by (simp add: overrides_typed_def)
next
  case (restart s)
  then show ?case by (simp add: overrides_typed_def)
next
  case (export s ok)
  then show ?case by (simp add: exportSettings_def Let_def typed_load)
qed (auto intro: inv_intros)

subsection \<open>The overrides are the table's\<close>

definition synced :: "environment \<Rightarrow> settings \<Rightarrow> bool" where
  "synced env s \<longleftrightarrow> wf_map (st_rows s) \<and>
     (st_isInitialized s \<longrightarrow> (\<forall>key. map_of (st_runtime s) key = loaded env (st_rows s) key))"

lemma synced_load: "synced env s \<Longrightarrow> synced env (ensureInitialized env ok s)"
  by (auto simp: synced_def ensureInitialized_runtime ensureInitialized_done)

text \<open>The row an update writes is read back as the value it sets.\<close>

lemma loaded_after_batch:
  assumes "batch_ok env b" and "wf_map rows"
  shows "loaded env (deleteMany (ba_pruned b) (setMany (ba_entries b) actor rows)) key =
    (if key \<in> set (ba_pruned b) then None
     else case map_of (ba_after b) key of Some v \<Rightarrow> Some v | None \<Rightarrow> loaded env rows key)"
proof -
  have wf: "wf_map (ba_entries b)" "set (keys (ba_entries b)) \<subseteq> set (keys (ba_after b))"
    "\<And>k v. map_of (ba_after b) k = Some v \<Longrightarrow> accepted env b k v" using assms(1) unfolding batch_ok_def by blast+
  have row: "map_of (deleteMany (ba_pruned b) (setMany (ba_entries b) actor rows)) key =
      (if key \<in> set (ba_pruned b) then None else case map_of (ba_entries b) key of
         Some t \<Rightarrow> Some \<lparr>row_value = t, row_lastModifiedBy = actor\<rparr> | None \<Rightarrow> map_of rows key)"
    using wf_setMany[OF assms(2)] by (simp add: map_of_deleteMany map_of_setMany[OF wf(1)])
  show ?thesis
  proof (cases "map_of (ba_after b) key")
    case None
    then have "map_of (ba_entries b) key = None" using wf(2) by (auto simp: map_of_eq_None_iff)
    then show ?thesis using None by (simp add: loaded_def row)
  next
    case (Some v)
    from wf(3)[OF this] obtain d where d: "setting_definition_of env key = Some d" "storable d v"
      and e: "if v = sd_default d then key \<in> set (ba_pruned b) \<and> map_of (ba_entries b) key = None
        else key \<notin> set (ba_pruned b) \<and> map_of (ba_entries b) key = Some (setting_serialize d v)"
      by (auto simp: accepted_def)
    have "setting_parse d (setting_serialize d v) = v" using parse_serialize[OF d(2)] string_default[OF d(1)] by simp
    then show ?thesis using e Some d(1) by (auto simp: loaded_def row split: if_splits)
  qed
qed

lemma synced_batch:
  assumes "synced env s" and "batch_ok env b"
  shows "synced env (finishChange ks (apply_batch b
     (s\<lparr>st_rows := deleteMany (ba_pruned b) (setMany (ba_entries b) actor (st_rows s))\<rparr>)))"
proof -
  have wf: "wf_map (st_rows s)" using assms(1) by (simp add: synced_def)
  have after: "wf_map (ba_after b)" using assms(2) by (simp add: batch_ok_def)
  have rows: "wf_map (deleteMany (ba_pruned b) (setMany (ba_entries b) actor (st_rows s)))"
    using wf by (intro wf_deleteMany wf_setMany)
  show ?thesis using assms(1) rows unfolding synced_def
    by (auto simp: loaded_after_batch[OF assms(2) wf] apply_batch_runtime[OF after] split: option.split)
qed

lemma synced_update:
  assumes "synced env s" and "wf_map updates" and "io_set io \<Longrightarrow> io_delete io"
  shows "synced env (fst (updateSettings env io actor updates s))"
  using assms(2)
proof (cases rule: update_cases[where env = env and io = io and actor = actor and s = s])
  case (applied b)
  show ?thesis unfolding applied(2)
    using synced_load synced_batch[OF synced_load[OF assms(1), of "io_load io"] applied(1)] by simp
qed (use assms in \<open>simp_all add: synced_load\<close>)

lemma loaded_after_delete: "wf_map rows \<Longrightarrow> loaded env (deleteMany ks rows) key = (if key \<in> set ks then None else loaded env rows key)"
  by (simp add: loaded_def map_of_deleteMany)

lemma synced_reset:
  assumes "synced env s"
  shows "synced env (fst (resetSettings env io ks s))"
proof (cases rule: reset_cases[where env = env and io = io and ks = ks and s = s])
  case (applied r)
  have wf: "wf_map (st_rows s)" using assms by (simp add: synced_def)
  then have "synced env (finishChange r (deleteRuntimeValues r ((ensureInitialized env (io_load io) s)\<lparr>st_rows := deleteMany r (st_rows s)\<rparr>)))"
    using synced_load[OF assms, of "io_load io"] wf_deleteMany[OF wf]
    by (simp add: synced_def loaded_after_delete map_of_fold_delete)
  then show ?thesis unfolding applied by (rule synced_load)
qed (use assms in \<open>simp_all add: synced_load\<close>)

lemma reach_synced: "settings_reach env strict s \<Longrightarrow> strict \<Longrightarrow> synced env s"
proof (induction rule: settings_reach.induct)
  case (change s updates io actor)
  then show ?case by (intro synced_update) auto
next
  case (boot rows)
  then show ?case by (simp add: synced_def)
next
  case (restart s)
  then show ?case by (simp add: synced_def)
next
  case (export s ok)
  then show ?case by (simp add: exportSettings_def Let_def synced_load)
qed (simp_all add: synced_load synced_reset)

subsection \<open>Properties\<close>

definition sample_environment :: environment where
  "sample_environment = \<lparr>env_LOG_LEVEL = L_info, env_ROOT_DIR = ''../data'', env_APP_ALLOWED_ORIGINS = Some ''https://a.lan, ''\<rparr>"

definition good_outcome :: database_outcome where
  "good_outcome = \<lparr>io_load = True, io_admins = Some 1, io_set = True, io_delete = True, io_reload = True, io_list = True\<rparr>"

definition sample_settings :: settings where
  "sample_settings = fst (updateSettings sample_environment good_outcome None
     [(''ffmpeg.crf'', JNumber (Dec 18 0)), (''scanning.ignorePatterns'', JArray [JString '' *.nfo'', JNull])]
     (booted [(''ffmpeg.threads'', \<lparr>row_value = ''1e3'', row_lastModifiedBy = None\<rparr>)]))"

lemma sample_settings_reach: "settings_reach sample_environment strict sample_settings"
  unfolding sample_settings_def
  by (intro settings_reach.change settings_reach.boot) (simp_all add: good_outcome_def)

lemma get_runtime:
  "setting_definition_of env key = Some d \<Longrightarrow> getWithMeta env s key =
     Return (case map_of (st_runtime s) key of Some v \<Rightarrow> (v, True) | None \<Rightarrow> (sd_default d, False))"
  by (simp add: getWithMeta_def)





subsection \<open>Where it fails\<close>

text \<open>
  An update that writes one key and resets another makes two writes. When the second fails the
  request fails, the table has the new value and the server the old one.
\<close>

definition torn_settings :: settings where
  "torn_settings = fst (updateSettings sample_environment (good_outcome\<lparr>io_delete := False\<rparr>) None
     [(''ffmpeg.crf'', JNumber (Dec 18 0)), (''ffmpeg.threads'', JNumber (Dec 0 0))] (booted []))"

lemma torn_update_diverges:
  "getWithMeta sample_environment torn_settings ''ffmpeg.crf'' = Return (SNumber (Dec 23 0), False) \<and>
   getWithMeta sample_environment (ensureInitialized sample_environment True (booted (st_rows torn_settings))) ''ffmpeg.crf'' =
     Return (SNumber (Dec 18 0), True)"
  by code_simp

text \<open>An update may not let the sessions of a user exceed those of the server; a reset may.\<close>

definition reset_settings :: settings where
  "reset_settings = fst (resetSettings sample_environment good_outcome (Some [''stream.maxSessions''])
     (fst (updateSettings sample_environment good_outcome None
        [(''stream.maxSessions'', JNumber (Dec 1 1)), (''stream.maxSessionsPerUser'', JNumber (Dec 1 1))] (booted []))))"

lemma partial_reset_breaks_session_order:
  "setting_get sample_environment reset_settings ''stream.maxSessionsPerUser'' = Return (SNumber (Dec 1 1)) \<and>
   setting_get sample_environment reset_settings ''stream.maxSessions'' = Return (SNumber (Dec 5 0))"
  by code_simp

end
