(* ===== verification/Playback_Progress.thy ===== *)
theory Playback_Progress
  imports Js_Number
begin

section \<open>Playback progress\<close>

text \<open>
  \<^verbatim>\<open>services/playback/playback-progress.service.ts\<close> with its repositories
  (\<^verbatim>\<open>repositories/playback/progress.repository.ts\<close>, \<^verbatim>\<open>watched-history/history.repository.ts\<close>),
  \<^verbatim>\<open>playback-position.utils.ts\<close>, \<^verbatim>\<open>playback-status.reader.ts\<close> and the progress half of
  \<^verbatim>\<open>playback-progress.aggregator.ts\<close>. The tables the service reads and writes are one record; a
  handler runs to its end before the next one. Positions, durations and instants are whole numbers
  as the columns are; a requested position is a rational. Clearing the response caches is not
  modelled: it changes no table.
\<close>

subsection \<open>Tables\<close>

record playback_file =
  pf_duration :: "int option"
  pf_metadataId :: string
  pf_movieId :: "string option"
  pf_episodeId :: "string option"
  pf_isDefault :: bool
  pf_updatedAt :: int

record progress_row =
  pg_position :: int
  pg_duration :: int
  pg_completed :: bool
  pg_audioStreamIndex :: "int option"
  pg_subtitleId :: "string option"
  pg_createdAt :: int
  pg_updatedAt :: int
  pg_dismissedAt :: "int option"

record play_row =
  pl_profileId :: string
  pl_mediaFileId :: string
  pl_durationWatched :: int
  pl_isFullWatch :: bool
  pl_watchedAt :: int

record season_row =
  sn_id :: string
  sn_seasonNumber :: int

record episode_row =
  ep_id :: string
  ep_seasonId :: string
  ep_episodeNumber :: int
  ep_absoluteNumber :: "int option"
  ep_episodeType :: "string option"

record title_row =
  tt_type :: string
  tt_numberingMode :: "string option"
  tt_seasons :: "season_row list"
  tt_episodes :: "episode_row list"

text \<open>In an event an absent field, \<^verbatim>\<open>undefined\<close>, is the outer \<open>None\<close>, and \<^verbatim>\<open>null\<close> is \<open>Some None\<close>.\<close>

record progress_event =
  ev_profileId :: string
  ev_mediaFileId :: string
  ev_position :: int
  ev_duration :: int
  ev_completed :: bool
  ev_audioStreamIndex :: "int option option"
  ev_subtitleId :: "string option option"

record playback_tables =
  db_files :: "(string, playback_file) jsmap"
  db_titles :: "(string, title_row) jsmap"
  db_progress :: "(string \<times> string, progress_row) jsmap"
  db_history :: "play_row list"
  db_streamPrefs :: "(string \<times> string, string option \<times> string option) jsmap"
  db_watchlist :: "(string \<times> string) list"
  db_autoRemoveWatched :: "string list"
  db_published :: "progress_event list"

subsection \<open>Positions\<close>

definition MAX_POSITION :: int where
  "MAX_POSITION = 9007199254740991"

definition normalizePlaybackPosition :: "rat option \<Rightarrow> int \<Rightarrow> int" where
  "normalizePlaybackPosition position duration =
     (let floored = \<lfloor>(case position of None \<Rightarrow> 0 | Some p \<Rightarrow> p)\<rfloor> in
      if duration > 0 then min (max floored 0) duration else max 0 floored)"

definition isCompleted :: "int \<Rightarrow> int \<Rightarrow> bool" where
  "isCompleted position duration \<longleftrightarrow> duration > 0 \<and> 10 * position \<ge> 9 * duration"

record progress_update =
  up_position :: "rat option"
  up_audioStreamIndex :: "int option option"
  up_subtitleId :: "string option option"
  up_audioLanguage :: "string option option"
  up_subtitleLanguage :: "string option option"

definition resolveProgressState :: "progress_update \<Rightarrow> int \<Rightarrow> int \<times> bool" where
  "resolveProgressState body duration =
     (let requested = (case up_position body of None \<Rightarrow> 0 | Some p \<Rightarrow> p);
          explicitComplete = (requested \<ge> of_int MAX_POSITION \<and> duration \<le> 0);
          position = (if explicitComplete then 0 else normalizePlaybackPosition (Some requested) duration)
      in (position, explicitComplete \<or> isCompleted position duration))"

subsection \<open>The status of a title\<close>

definition maxBy :: "('a \<Rightarrow> int) \<Rightarrow> 'a list \<Rightarrow> 'a option" where
  "maxBy score items =
     fold (\<lambda>x best. case best of None \<Rightarrow> Some x | Some b \<Rightarrow> if score x > score b then Some x else best) items None"

definition groupBy :: "('a \<Rightarrow> 'k option) \<Rightarrow> ('a \<Rightarrow> 'v) \<Rightarrow> 'a list \<Rightarrow> ('k, 'v list) jsmap" where
  "groupBy key val items =
     fold (\<lambda>x m. case key x of
        None \<Rightarrow> m
      | Some k \<Rightarrow> AList.update k ((case map_of m k of None \<Rightarrow> [] | Some vs \<Rightarrow> vs) @ [val x]) m) items []"

definition grouped :: "('k, 'v list) jsmap \<Rightarrow> 'k \<Rightarrow> 'v list" where
  "grouped m k = (case map_of m k of None \<Rightarrow> [] | Some vs \<Rightarrow> vs)"

datatype watch_status = Unwatched | In_progress | Watched

type_synonym item_status = "watch_status \<times> progress_row option"

definition getPlaybackItemStatus :: "progress_row list \<Rightarrow> item_status" where
  "getPlaybackItemStatus progress =
     (case maxBy pg_updatedAt progress of
        None \<Rightarrow> (Unwatched, None)
      | Some latest \<Rightarrow>
          (if pg_completed latest then Watched else if pg_position latest > 0 then In_progress else Unwatched, Some latest))"

text \<open>What is loaded of a title: its files, the profile's rows newest first, seasons and episodes.\<close>

record title_data =
  td_title :: title_row
  td_mediaFiles :: "(string \<times> playback_file) list"
  td_progressRows :: "(string \<times> progress_row) list"

definition title_rows :: "playback_tables \<Rightarrow> string \<Rightarrow> string \<Rightarrow> (string \<times> progress_row) list" where
  "title_rows db profileId metadataId =
     sort_key (\<lambda>(_, row). - pg_updatedAt row)
       (List.map_filter (\<lambda>((p, f), row).
          if p = profileId \<and> (case map_of (db_files db) f of Some mf \<Rightarrow> pf_metadataId mf = metadataId | None \<Rightarrow> False)
          then Some (f, row) else None) (db_progress db))"

definition loadTitle :: "playback_tables \<Rightarrow> string \<Rightarrow> string \<Rightarrow> title_data option" where
  "loadTitle db profileId metadataId =
     map_option (\<lambda>title. \<lparr>td_title = title,
        td_mediaFiles = filter (\<lambda>(_, mf). pf_metadataId mf = metadataId) (db_files db),
        td_progressRows = title_rows db profileId metadataId\<rparr>) (map_of (db_titles db) metadataId)"

record title_progress =
  tp_status :: watch_status
  tp_progress :: "progress_row option"
  tp_completedEpisodes :: nat
  tp_totalEpisodes :: nat
  tp_episodes :: "(string, item_status) jsmap"
  tp_fileProgress :: "(string, item_status) jsmap"

definition collectProgressItems :: "string list \<Rightarrow> (string, progress_row) jsmap \<Rightarrow> progress_row list" where
  "collectProgressItems fileIds progressByFile = List.map_filter (map_of progressByFile) fileIds"

definition is_regular :: "episode_row \<Rightarrow> bool" where
  "is_regular ep \<longleftrightarrow> (case ep_episodeType ep of None \<Rightarrow> True | Some t \<Rightarrow> t = ''regular'')"

definition seriesProgress ::
  "(string \<times> playback_file) list \<Rightarrow> episode_row list \<Rightarrow> (string, progress_row) jsmap
   \<Rightarrow> (string, item_status) jsmap \<Rightarrow> title_progress" where
  "seriesProgress mediaFiles episodes progressByFile files =
     (let byEpisode = groupBy (\<lambda>(_, mf). pf_episodeId mf) fst mediaFiles;
          statuses = foldl (\<lambda>m ep. AList.update (ep_id ep)
             (getPlaybackItemStatus (collectProgressItems (grouped byEpisode (ep_id ep)) progressByFile)) m) [] episodes;
          playable = filter (\<lambda>ep. is_regular ep \<and> has (ep_id ep) byEpisode) episodes;
          status_of = (\<lambda>ep. case map_of statuses (ep_id ep) of Some (st, _) \<Rightarrow> st | None \<Rightarrow> Unwatched);
          completed = length (filter (\<lambda>ep. status_of ep = Watched) playable);
          hasProgress = list_ex (\<lambda>ep. status_of ep \<noteq> Unwatched) playable
      in \<lparr>tp_status = (if length playable > 0 \<and> completed = length playable then Watched
                      else if hasProgress then In_progress else Unwatched),
          tp_progress = None, tp_completedEpisodes = completed, tp_totalEpisodes = length playable,
          tp_episodes = statuses, tp_fileProgress = files\<rparr>)"

definition computePlaybackProgress :: "title_data \<Rightarrow> title_progress" where
  "computePlaybackProgress data =
     (let progressByFile = foldl (\<lambda>m (f, row). AList.update f row m) [] (td_progressRows data);
          files = map (\<lambda>(f, row). (f, getPlaybackItemStatus [row])) progressByFile in
      if tt_type (td_title data) = ''movie'' then
        (let movieFiles = map fst (filter (\<lambda>(_, mf). pf_movieId mf \<noteq> None) (td_mediaFiles data));
             (st, row) = getPlaybackItemStatus (collectProgressItems movieFiles progressByFile)
         in \<lparr>tp_status = st, tp_progress = row, tp_completedEpisodes = 0, tp_totalEpisodes = 0, tp_episodes = [],
             tp_fileProgress = files\<rparr>)
      else seriesProgress (td_mediaFiles data) (tt_episodes (td_title data)) progressByFile files)"

subsection \<open>Writes\<close>

definition profile_required :: domain_error where
  "profile_required = DomainError Unauthorized ''auth.profile_required''"

definition entity_not_found :: domain_error where
  "entity_not_found = DomainError Not_found ''entity.not_found''"

definition active_profile :: "string option \<Rightarrow> string result" where
  "active_profile profileId = (case profileId of None \<Rightarrow> Throw profile_required
     | Some p \<Rightarrow> if p = [] then Throw profile_required else Return p)"

text \<open>The upsert of one row: a conflict keeps the creation, the dismissal and every column not given.\<close>

definition upsertProgress ::
  "int \<Rightarrow> string \<times> string \<Rightarrow> int \<Rightarrow> int \<Rightarrow> bool \<Rightarrow> int option option \<Rightarrow> string option option
   \<Rightarrow> (string \<times> string, progress_row) jsmap \<Rightarrow> (string \<times> string, progress_row) jsmap" where
  "upsertProgress now key position duration completed audio subtitle rows =
     AList.update key
       (case map_of rows key of
          None \<Rightarrow> \<lparr>pg_position = position, pg_duration = duration, pg_completed = completed,
                   pg_audioStreamIndex = Option.bind audio id, pg_subtitleId = Option.bind subtitle id,
                   pg_createdAt = now, pg_updatedAt = now, pg_dismissedAt = None\<rparr>
        | Some row \<Rightarrow> row\<lparr>pg_position := position, pg_duration := duration, pg_completed := completed, pg_updatedAt := now,
                   pg_audioStreamIndex := (case audio of None \<Rightarrow> pg_audioStreamIndex row | Some a \<Rightarrow> a),
                   pg_subtitleId := (case subtitle of None \<Rightarrow> pg_subtitleId row | Some s \<Rightarrow> s)\<rparr>) rows"

record bulk_update =
  bu_fileId :: string
  bu_metadataId :: string
  bu_duration :: int
  bu_position :: int
  bu_completed :: bool
  bu_audioStreamIndex :: "int option"
  bu_subtitleId :: "string option"
  bu_recordsPlay :: bool

definition upsertProgressBulk ::
  "int \<Rightarrow> string \<Rightarrow> bulk_update list \<Rightarrow> (string \<times> string, progress_row) jsmap \<Rightarrow> (string \<times> string, progress_row) jsmap" where
  "upsertProgressBulk now profileId updates rows =
     foldl (\<lambda>rows u. upsertProgress now (profileId, bu_fileId u) (bu_position u) (bu_duration u) (bu_completed u)
        (Some (bu_audioStreamIndex u)) (Some (bu_subtitleId u)) rows) rows updates"

definition recordPlay :: "int \<Rightarrow> string \<Rightarrow> string \<Rightarrow> int \<Rightarrow> play_row" where
  "recordPlay now profileId fileId position =
     \<lparr>pl_profileId = profileId, pl_mediaFileId = fileId, pl_durationWatched = position, pl_isFullWatch = True, pl_watchedAt = now\<rparr>"

definition removeWatchedTitleFromWatchlist ::
  "string \<Rightarrow> string \<Rightarrow> playback_tables \<Rightarrow> playback_tables \<times> unit result" where
  "removeWatchedTitleFromWatchlist profileId metadataId db =
     (if profileId \<notin> set (db_autoRemoveWatched db) then (db, Return ())
      else case loadTitle db profileId metadataId of
             None \<Rightarrow> (db, Throw entity_not_found)
           | Some data \<Rightarrow>
               if tp_status (computePlaybackProgress data) \<noteq> Watched then (db, Return ())
               else (db\<lparr>db_watchlist := filter (\<lambda>w. w \<noteq> (profileId, metadataId)) (db_watchlist db)\<rparr>, Return ()))"

definition normalizeStreamPrefLanguage :: "string option \<Rightarrow> string option" where
  "normalizeStreamPrefLanguage val = (case val of None \<Rightarrow> None | Some v \<Rightarrow> let t = trim_text v in if t = [] then None else Some t)"

definition upsertStreamPrefs ::
  "string \<times> string \<Rightarrow> string option option \<Rightarrow> string option option
   \<Rightarrow> (string \<times> string, string option \<times> string option) jsmap \<Rightarrow> (string \<times> string, string option \<times> string option) jsmap" where
  "upsertStreamPrefs key audio subtitle m =
     AList.update key
       (case map_of m key of
          None \<Rightarrow> (Option.bind audio id, Option.bind subtitle id)
        | Some (a, s) \<Rightarrow> (case audio of None \<Rightarrow> a | Some x \<Rightarrow> x, case subtitle of None \<Rightarrow> s | Some x \<Rightarrow> x)) m"

text \<open>\<open>commits\<close> is the outcome of the transaction: when it fails, nothing of it is kept.\<close>

definition transaction_failed :: domain_error where
  "transaction_failed = DomainError Internal ''database''"

definition updatePlaybackProgress ::
  "bool \<Rightarrow> int \<Rightarrow> string \<Rightarrow> progress_update \<Rightarrow> string option \<Rightarrow> playback_tables \<Rightarrow> playback_tables \<times> unit result" where
  "updatePlaybackProgress commits now fileId body profile db =
     (case active_profile profile of
        Inl e \<Rightarrow> (db, Throw e)
      | Inr profileId \<Rightarrow>
          (case map_of (db_files db) fileId of
             None \<Rightarrow> (db, Throw entity_not_found)
           | Some mediaFile \<Rightarrow>
               (let existing = map_of (db_progress db) (profileId, fileId);
                    duration = (case pf_duration mediaFile of None \<Rightarrow> 0 | Some d \<Rightarrow> d);
                    (position, completed) = resolveProgressState body duration;
                    audio = (case up_audioStreamIndex body of
                               None \<Rightarrow> map_option pg_audioStreamIndex existing | Some a \<Rightarrow> Some a);
                    subtitle = (case up_subtitleId body of None \<Rightarrow> map_option pg_subtitleId existing | Some s \<Rightarrow> Some s);
                    completesTitle = (completed \<and> (case existing of Some row \<Rightarrow> \<not> pg_completed row | None \<Rightarrow> True))
                in if \<not> commits then (db, Throw transaction_failed)
                   else
                     (let db = db\<lparr>db_progress := upsertProgress now (profileId, fileId) position duration completed audio subtitle (db_progress db),
                                 db_history := db_history db @ (if completesTitle then [recordPlay now profileId fileId position] else [])\<rparr>;
                          (db, checked) = (if completesTitle then removeWatchedTitleFromWatchlist profileId (pf_metadataId mediaFile) db
                                           else (db, Return ()))
                      in case checked of
                           Inl e \<Rightarrow> (db, Throw e)
                         | Inr _ \<Rightarrow>
                             (let db = (if up_audioLanguage body = None \<and> up_subtitleLanguage body = None then db
                                        else db\<lparr>db_streamPrefs := upsertStreamPrefs (profileId, pf_metadataId mediaFile)
                                          (map_option normalizeStreamPrefLanguage (up_audioLanguage body))
                                          (map_option normalizeStreamPrefLanguage (up_subtitleLanguage body)) (db_streamPrefs db)\<rparr>)
                              in (db\<lparr>db_published := db_published db @
                                    [\<lparr>ev_profileId = profileId, ev_mediaFileId = fileId, ev_position = position, ev_duration = duration,
                                      ev_completed = completed, ev_audioStreamIndex = audio, ev_subtitleId = subtitle\<rparr>]\<rparr>, Return ()))))))"

subsection \<open>Many files at once\<close>

definition bulk_row :: "playback_tables \<Rightarrow> string \<Rightarrow> string \<Rightarrow> bulk_update result" where
  "bulk_row db profileId fileId =
     (case map_of (db_files db) fileId of
        None \<Rightarrow> Throw entity_not_found
      | Some mediaFile \<Rightarrow>
          (let existing = map_of (db_progress db) (profileId, fileId);
               duration = (case pf_duration mediaFile of None \<Rightarrow> 0 | Some d \<Rightarrow> d);
               explicitComplete = (duration \<le> 0);
               position = (if explicitComplete then 0 else normalizePlaybackPosition (Some (of_int MAX_POSITION)) duration)
           in Return \<lparr>bu_fileId = fileId, bu_metadataId = pf_metadataId mediaFile, bu_duration = duration, bu_position = position,
                bu_completed = (explicitComplete \<or> isCompleted position duration),
                bu_audioStreamIndex = Option.bind existing pg_audioStreamIndex,
                bu_subtitleId = Option.bind existing pg_subtitleId,
                bu_recordsPlay = (case existing of Some row \<Rightarrow> \<not> pg_completed row | None \<Rightarrow> True)\<rparr>))"

fun prepareBulkWatchUpdates :: "playback_tables \<Rightarrow> string \<Rightarrow> string list \<Rightarrow> bulk_update list result" where
  "prepareBulkWatchUpdates db profileId [] = Return []"
| "prepareBulkWatchUpdates db profileId (f # fs) =
     (case bulk_row db profileId f of
        Inl e \<Rightarrow> Throw e
      | Inr u \<Rightarrow> (case prepareBulkWatchUpdates db profileId fs of Inl e \<Rightarrow> Throw e | Inr us \<Rightarrow> Return (u # us)))"

fun check_titles :: "string \<Rightarrow> string list \<Rightarrow> playback_tables \<Rightarrow> playback_tables \<times> unit result" where
  "check_titles profileId [] db = (db, Return ())"
| "check_titles profileId (t # ts) db =
     (case removeWatchedTitleFromWatchlist profileId t db of
        (db', Inl e) \<Rightarrow> (db', Throw e)
      | (db', Inr _) \<Rightarrow> check_titles profileId ts db')"

definition bulk_event :: "string \<Rightarrow> bulk_update \<Rightarrow> progress_event" where
  "bulk_event profileId u =
     \<lparr>ev_profileId = profileId, ev_mediaFileId = bu_fileId u, ev_position = bu_position u, ev_duration = bu_duration u,
      ev_completed = bu_completed u, ev_audioStreamIndex = Some (bu_audioStreamIndex u), ev_subtitleId = Some (bu_subtitleId u)\<rparr>"

definition applyBulkWatchState ::
  "bool \<Rightarrow> int \<Rightarrow> string list \<Rightarrow> string \<Rightarrow> playback_tables \<Rightarrow> playback_tables \<times> unit result" where
  "applyBulkWatchState commits now fileIds profileId db =
     (case prepareBulkWatchUpdates db profileId fileIds of
        Inl e \<Rightarrow> (db, Throw e)
      | Inr updates \<Rightarrow>
          if \<not> commits then (db, Throw transaction_failed)
          else
            (let played = filter bu_recordsPlay updates;
                 db = db\<lparr>db_progress := upsertProgressBulk now profileId updates (db_progress db),
                        db_history := db_history db @ map (\<lambda>u. recordPlay now profileId (bu_fileId u) (bu_position u)) played,
                        db_published := db_published db @ map (bulk_event profileId) updates\<rparr>
             in check_titles profileId (unique (map bu_metadataId played)) db))"

definition applyBulkUnwatchState :: "string list \<Rightarrow> string \<Rightarrow> playback_tables \<Rightarrow> playback_tables \<times> unit result" where
  "applyBulkUnwatchState fileIds profileId db =
     (if list_ex (\<lambda>f. \<not> has f (db_files db)) fileIds then (db, Throw entity_not_found)
      else (db\<lparr>db_progress := filter (\<lambda>((p, f), _). \<not> (p = profileId \<and> f \<in> set fileIds)) (db_progress db)\<rparr>, Return ()))"

definition setWatchStateBulk ::
  "bool \<Rightarrow> int \<Rightarrow> string list \<Rightarrow> bool \<Rightarrow> string option \<Rightarrow> playback_tables \<Rightarrow> playback_tables \<times> nat result" where
  "setWatchStateBulk commits now ids watched profile db =
     (case active_profile profile of
        Inl e \<Rightarrow> (db, Throw e)
      | Inr profileId \<Rightarrow>
          (let fileIds = unique ids;
               (db', r) = (if watched then applyBulkWatchState commits now fileIds profileId db
                           else applyBulkUnwatchState fileIds profileId db)
           in (db', case r of Inl e \<Rightarrow> Throw e | Inr _ \<Rightarrow> Return (length fileIds))))"

subsection \<open>Resets and dismissals\<close>

definition of_title :: "playback_tables \<Rightarrow> string \<Rightarrow> string \<Rightarrow> string \<times> string \<Rightarrow> bool" where
  "of_title db profileId metadataId key \<longleftrightarrow> fst key = profileId \<and>
     (case map_of (db_files db) (snd key) of Some mf \<Rightarrow> pf_metadataId mf = metadataId | None \<Rightarrow> False)"

definition resetPlaybackProgress ::
  "string \<Rightarrow> string option \<Rightarrow> bool \<Rightarrow> playback_tables \<Rightarrow> playback_tables \<times> unit result" where
  "resetPlaybackProgress fileId profile whole_title db =
     (case active_profile profile of
        Inl e \<Rightarrow> (db, Throw e)
      | Inr profileId \<Rightarrow>
          (case map_of (db_files db) fileId of
             Some mf \<Rightarrow>
               if whole_title \<and> pf_metadataId mf \<noteq> []
               then (db\<lparr>db_progress := filter (\<lambda>(key, _). \<not> of_title db profileId (pf_metadataId mf) key) (db_progress db)\<rparr>, Return ())
               else (db\<lparr>db_progress := AList.delete (profileId, fileId) (db_progress db)\<rparr>, Return ())
           | None \<Rightarrow> (db\<lparr>db_progress := AList.delete (profileId, fileId) (db_progress db)\<rparr>, Return ())))"

definition dismissContinueWatching ::
  "int \<Rightarrow> string \<Rightarrow> string option \<Rightarrow> playback_tables \<Rightarrow> playback_tables \<times> unit result" where
  "dismissContinueWatching now metadataId profile db =
     (case active_profile profile of
        Inl e \<Rightarrow> (db, Throw e)
      | Inr profileId \<Rightarrow>
          (db\<lparr>db_progress := map (\<lambda>(key, row). if of_title db profileId metadataId key
             then (key, row\<lparr>pg_dismissedAt := Some now\<rparr>) else (key, row)) (db_progress db)\<rparr>, Return ()))"

end
