(* ===== verification/Watch_State.thy ===== *)
theory Watch_State
  imports Playback_Progress
begin

section \<open>Marking many files watched\<close>

text \<open>
  The bulk write of the watch state against the single one: the same rows, the same plays and the
  same announcements as one update per file, and nothing at all when a file is unknown.
\<close>

subsection \<open>One file\<close>

definition mark_watched :: progress_update where
  "mark_watched = \<lparr>up_position = Some (of_int MAX_POSITION), up_audioStreamIndex = None, up_subtitleId = None,
     up_audioLanguage = None, up_subtitleLanguage = None\<rparr>"

text \<open>The updates one after the other, at one instant.\<close>

definition one_by_one :: "int \<Rightarrow> string \<Rightarrow> string list \<Rightarrow> playback_tables \<Rightarrow> playback_tables" where
  "one_by_one now profileId fileIds db =
     fold (\<lambda>f db. fst (updatePlaybackProgress True now f mark_watched (Some profileId) db)) fileIds db"

text \<open>In an announcement, an absent stream is the same as none.\<close>

definition flat_event :: "progress_event \<Rightarrow> progress_event" where
  "flat_event e = e\<lparr>ev_audioStreamIndex := Some (Option.bind (ev_audioStreamIndex e) id),
     ev_subtitleId := Some (Option.bind (ev_subtitleId e) id)\<rparr>"

text \<open>Every file belongs to a title, and no duration is beyond the exact integers.\<close>

definition library_ok :: "playback_tables \<Rightarrow> bool" where
  "library_ok db \<longleftrightarrow> list_all (\<lambda>(f, mf). has (pf_metadataId mf) (db_titles db) \<and>
     (case pf_duration mf of None \<Rightarrow> True | Some d \<Rightarrow> d \<le> MAX_POSITION)) (db_files db)"

lemma library_okD:
  assumes "library_ok db" and "map_of (db_files db) f = Some mf"
  shows "has (pf_metadataId mf) (db_titles db)" "pf_duration mf = Some d \<Longrightarrow> d \<le> MAX_POSITION"
proof -
  have "(f, mf) \<in> set (db_files db)" using assms(2) by (rule map_of_SomeD)
  with assms(1) have "has (pf_metadataId mf) (db_titles db) \<and> (case pf_duration mf of None \<Rightarrow> True | Some d \<Rightarrow> d \<le> MAX_POSITION)"
    unfolding library_ok_def list_all_iff by blast
  then show "has (pf_metadataId mf) (db_titles db)" "pf_duration mf = Some d \<Longrightarrow> d \<le> MAX_POSITION" by auto
qed

lemma remove_watched_frame:
  "\<exists>w r. removeWatchedTitleFromWatchlist p t db = (db\<lparr>db_watchlist := w\<rparr>, r)
     \<and> (has t (db_titles db) \<longrightarrow> r = Return ()) \<and> (p \<notin> set (db_autoRemoveWatched db) \<longrightarrow> w = db_watchlist db)"
proof -
  have keep: "db = db\<lparr>db_watchlist := db_watchlist db\<rparr>" by simp
  show ?thesis
  proof (cases "p \<in> set (db_autoRemoveWatched db)")
    case False
    then show ?thesis
      by (intro exI[of _ "db_watchlist db"] exI[of _ "Return ()"]) (simp add: removeWatchedTitleFromWatchlist_def)
  next
    case True
    show ?thesis
    proof (cases "loadTitle db p t")
      case None
      then have "\<not> has t (db_titles db)" by (simp add: loadTitle_def)
      with None True show ?thesis
        by (intro exI[of _ "db_watchlist db"] exI[of _ "Throw entity_not_found"]) (simp add: removeWatchedTitleFromWatchlist_def)
    next
      case (Some data)
      show ?thesis
      proof (cases "tp_status (computePlaybackProgress data) = Watched")
        case watched: True
        show ?thesis using Some True watched
          by (intro exI[of _ "filter (\<lambda>w. w \<noteq> (p, t)) (db_watchlist db)"] exI[of _ "Return ()"])
            (simp add: removeWatchedTitleFromWatchlist_def)
      next
        case False
        with Some True show ?thesis
          by (intro exI[of _ "db_watchlist db"] exI[of _ "Return ()"]) (simp add: removeWatchedTitleFromWatchlist_def)
      qed
    qed
  qed
qed

lemma upsert_nullish:
  "upsertProgress now key position duration completed (map_option pg_audioStreamIndex (map_of rows key))
      (map_option pg_subtitleId (map_of rows key)) rows =
   upsertProgress now key position duration completed (Some (Option.bind (map_of rows key) pg_audioStreamIndex))
      (Some (Option.bind (map_of rows key) pg_subtitleId)) rows"
  by (cases "map_of rows key") (simp_all add: upsertProgress_def)

text \<open>What one update leaves, in the terms of the bulk write.\<close>

definition after_mark :: "int \<Rightarrow> string \<Rightarrow> bulk_update \<Rightarrow> playback_tables \<Rightarrow> playback_tables \<Rightarrow> bool" where
  "after_mark now p u db db' \<longleftrightarrow>
     db_progress db' = upsertProgressBulk now p [u] (db_progress db) \<and>
     db_history db' = db_history db @ (if bu_recordsPlay u then [recordPlay now p (bu_fileId u) (bu_position u)] else []) \<and>
     map flat_event (db_published db') = map flat_event (db_published db) @ [bulk_event p u] \<and>
     db_files db' = db_files db \<and> db_titles db' = db_titles db \<and> db_streamPrefs db' = db_streamPrefs db \<and>
     db_autoRemoveWatched db' = db_autoRemoveWatched db \<and>
     (p \<notin> set (db_autoRemoveWatched db) \<longrightarrow> db_watchlist db' = db_watchlist db)"

lemma completed_at_end: "0 < d \<Longrightarrow> d \<le> MAX_POSITION \<Longrightarrow>
    normalizePlaybackPosition (Some (of_int MAX_POSITION)) d = d \<and> isCompleted d d"
  by (simp add: normalizePlaybackPosition_def isCompleted_def MAX_POSITION_def Let_def)

lemma single_mark:
  assumes u: "bulk_row db p f = Return u" and ok: "library_ok db" and "p \<noteq> []"
  shows "after_mark now p u db (fst (updatePlaybackProgress True now f mark_watched (Some p) db))"
proof -
  from u obtain mf where mf: "map_of (db_files db) f = Some mf"
    by (auto simp: bulk_row_def split: option.splits)
  define d where "d = (case pf_duration mf of None \<Rightarrow> 0 | Some d \<Rightarrow> d)"
  define existing where "existing = map_of (db_progress db) (p, f)"
  define plays where "plays = (case existing of Some row \<Rightarrow> \<not> pg_completed row | None \<Rightarrow> True)"
  define position where "position = (if d \<le> 0 then 0 else d)"
  have d: "d \<le> MAX_POSITION"
    using library_okD(2)[OF ok mf] by (auto simp: d_def MAX_POSITION_def split: option.split)
  have state: "resolveProgressState mark_watched d = (position, True)"
    using completed_at_end[of d] d by (simp add: resolveProgressState_def mark_watched_def position_def Let_def)
  have u: "u = \<lparr>bu_fileId = f, bu_metadataId = pf_metadataId mf, bu_duration = d, bu_position = position,
      bu_completed = True, bu_audioStreamIndex = Option.bind existing pg_audioStreamIndex,
      bu_subtitleId = Option.bind existing pg_subtitleId, bu_recordsPlay = plays\<rparr>"
    using u completed_at_end[of d] d
    by (auto simp: bulk_row_def mf Let_def position_def existing_def plays_def d_def[symmetric] split: if_splits)
  have profile: "active_profile (Some p) = Return p" using assms(3) by (simp add: active_profile_def)
  define db1 where "db1 = db\<lparr>db_progress := upsertProgress now (p, f) position d True (map_option pg_audioStreamIndex existing)
      (map_option pg_subtitleId existing) (db_progress db),
      db_history := db_history db @ (if plays then [recordPlay now p f position] else [])\<rparr>"
  define checked where "checked = (if plays then removeWatchedTitleFromWatchlist p (pf_metadataId mf) db1 else (db1, Return ()))"
  have "has (pf_metadataId mf) (db_titles db1)" using library_okD(1)[OF ok mf] by (simp add: db1_def)
  moreover have "db_autoRemoveWatched db1 = db_autoRemoveWatched db" "db_watchlist db1 = db_watchlist db" by (simp_all add: db1_def)
  moreover have "(db1, Return ()) = (db1\<lparr>db_watchlist := db_watchlist db1\<rparr>, Return ())" by simp
  ultimately obtain w where w: "checked = (db1\<lparr>db_watchlist := w\<rparr>, Return ())"
    and keep: "p \<notin> set (db_autoRemoveWatched db) \<longrightarrow> w = db_watchlist db"
    using remove_watched_frame[of p "pf_metadataId mf" db1] unfolding checked_def by (cases plays) auto
  have rows: "db_progress db1 = upsertProgressBulk now p [u] (db_progress db)"
    using upsert_nullish[of now "(p, f)" position d True "db_progress db"]
    by (simp add: db1_def upsertProgressBulk_def u existing_def)
  define ev where "ev = \<lparr>ev_profileId = p, ev_mediaFileId = f, ev_position = position, ev_duration = d, ev_completed = True,
      ev_audioStreamIndex = map_option pg_audioStreamIndex existing, ev_subtitleId = map_option pg_subtitleId existing\<rparr>"
  have body: "up_audioStreamIndex mark_watched = None" "up_subtitleId mark_watched = None"
    "up_audioLanguage mark_watched = None" "up_subtitleLanguage mark_watched = None"
    by (simp_all add: mark_watched_def)
  have single: "updatePlaybackProgress True now f mark_watched (Some p) db =
      (db1\<lparr>db_watchlist := w, db_published := db_published db @ [ev]\<rparr>, Return ())"
    unfolding updatePlaybackProgress_def profile sum.case mf option.case Let_def d_def[symmetric] existing_def[symmetric]
      plays_def[symmetric] state prod.case body simp_thms if_True if_False not_True_eq_False
      db1_def[symmetric] checked_def[symmetric] w by (simp add: db1_def ev_def)
  have flat: "flat_event ev = bulk_event p u"
    by (cases existing) (simp_all add: flat_event_def bulk_event_def ev_def u)
  show ?thesis unfolding single fst_conv after_mark_def using rows keep flat
    by (simp add: db1_def u)
qed

subsection \<open>All files\<close>

lemma upsert_other: "key \<noteq> key' \<Longrightarrow> map_of (upsertProgress now key' a b c d e rows) key = map_of rows key"
  by (simp add: upsertProgress_def map_of_update)

lemma bulk_row_after_mark:
  assumes "after_mark now p u db db'" and "bu_fileId u \<noteq> g"
  shows "bulk_row db' p g = bulk_row db p g"
proof -
  have "map_of (db_progress db') (p, g) = map_of (db_progress db) (p, g)" "db_files db' = db_files db"
    using assms upsert_other by (simp_all add: after_mark_def upsertProgressBulk_def)
  then show ?thesis by (simp only: bulk_row_def)
qed

lemma prepare_cong: "(\<And>f. f \<in> set fs \<Longrightarrow> bulk_row db' p f = bulk_row db p f) \<Longrightarrow>
    prepareBulkWatchUpdates db' p fs = prepareBulkWatchUpdates db p fs"
  by (induction fs) (simp_all cong: sum.case_cong)

lemma bulk_row_file: "bulk_row db p f = Return u \<Longrightarrow> bu_fileId u = f"
  by (auto simp: bulk_row_def Let_def split: option.splits)

lemma library_ok_after_mark: "after_mark now p u db db' \<Longrightarrow> library_ok db' = library_ok db"
  by (simp add: after_mark_def library_ok_def)

text \<open>The bulk write of rows, plays and announcements over a start state.\<close>

definition bulk_written :: "int \<Rightarrow> string \<Rightarrow> bulk_update list \<Rightarrow> playback_tables \<Rightarrow> playback_tables \<Rightarrow> bool" where
  "bulk_written now p us db db' \<longleftrightarrow>
     db_progress db' = upsertProgressBulk now p us (db_progress db) \<and>
     db_history db' = db_history db @ map (\<lambda>u. recordPlay now p (bu_fileId u) (bu_position u)) (filter bu_recordsPlay us) \<and>
     map flat_event (db_published db') = map flat_event (db_published db) @ map (bulk_event p) us \<and>
     db_streamPrefs db' = db_streamPrefs db \<and>
     (p \<notin> set (db_autoRemoveWatched db) \<longrightarrow> db_watchlist db' = db_watchlist db)"

lemma one_by_one_written:
  "prepareBulkWatchUpdates db p fs = Return us \<Longrightarrow> distinct fs \<Longrightarrow> library_ok db \<Longrightarrow> p \<noteq> [] \<Longrightarrow>
   bulk_written now p us db (one_by_one now p fs db)"
proof (induction fs arbitrary: db us)
  case Nil
  then show ?case by (simp add: bulk_written_def one_by_one_def upsertProgressBulk_def)
next
  case (Cons f fs)
  then obtain u vs where u: "bulk_row db p f = Return u" and vs: "prepareBulkWatchUpdates db p fs = Return vs"
    and us: "us = u # vs" by (auto split: sum.splits)
  define db1 where "db1 = fst (updatePlaybackProgress True now f mark_watched (Some p) db)"
  have a: "after_mark now p u db db1" unfolding db1_def using single_mark[OF u Cons.prems(3,4)] .
  have "f \<notin> set fs" using Cons.prems(2) by simp
  then have "bulk_row db1 p g = bulk_row db p g" if "g \<in> set fs" for g
    using that bulk_row_file[OF u] by (intro bulk_row_after_mark[OF a]) auto
  then have "prepareBulkWatchUpdates db1 p fs = prepareBulkWatchUpdates db p fs" by (rule prepare_cong)
  with vs have "prepareBulkWatchUpdates db1 p fs = Return vs" by simp
  then have "bulk_written now p vs db1 (one_by_one now p fs db1)"
    using Cons.prems library_ok_after_mark[OF a] by (intro Cons.IH) simp_all
  then have rest: "bulk_written now p vs db1 (one_by_one now p (f # fs) db)"
    by (simp add: one_by_one_def db1_def)
  have rows: "upsertProgressBulk now p us r = upsertProgressBulk now p vs (upsertProgressBulk now p [u] r)" for r
    by (simp add: upsertProgressBulk_def us)
  show ?case using rest a unfolding bulk_written_def after_mark_def rows by (simp add: us)
qed

lemma check_titles_frame:
  "\<exists>w r. check_titles p ts db = (db\<lparr>db_watchlist := w\<rparr>, r) \<and> ((\<forall>t \<in> set ts. has t (db_titles db)) \<longrightarrow> r = Return ())
     \<and> (p \<notin> set (db_autoRemoveWatched db) \<longrightarrow> w = db_watchlist db)"
proof (induction ts arbitrary: db)
  case Nil
  have "db = db\<lparr>db_watchlist := db_watchlist db\<rparr>" by simp
  then show ?case by (intro exI[of _ "db_watchlist db"] exI[of _ "Return ()"]) simp
next
  case (Cons t ts)
  obtain w r where w: "removeWatchedTitleFromWatchlist p t db = (db\<lparr>db_watchlist := w\<rparr>, r)"
    and r: "has t (db_titles db) \<longrightarrow> r = Return ()" and k: "p \<notin> set (db_autoRemoveWatched db) \<longrightarrow> w = db_watchlist db"
    using remove_watched_frame[of p t db] by blast
  show ?case
  proof (cases r)
    case (Inl e)
    then have "check_titles p (t # ts) db = (db\<lparr>db_watchlist := w\<rparr>, Throw e)" by (simp add: w)
    then show ?thesis using r k Inl by (intro exI[of _ w] exI[of _ "Throw e"]) auto
  next
    case (Inr _)
    obtain w' r' where w': "check_titles p ts (db\<lparr>db_watchlist := w\<rparr>) = (db\<lparr>db_watchlist := w, db_watchlist := w'\<rparr>, r')"
      and r': "(\<forall>t \<in> set ts. has t (db_titles db)) \<longrightarrow> r' = Return ()"
      and k': "p \<notin> set (db_autoRemoveWatched db) \<longrightarrow> w' = w"
      using Cons.IH[of "db\<lparr>db_watchlist := w\<rparr>"] by auto
    have "check_titles p (t # ts) db = (db\<lparr>db_watchlist := w'\<rparr>, r')" using Inr w' by (simp add: w)
    then show ?thesis using r' k k' by (intro exI[of _ w'] exI[of _ r']) auto
  qed
qed

lemma prepare_total: "\<forall>f \<in> set fs. has f (db_files db) \<Longrightarrow> \<exists>us. prepareBulkWatchUpdates db p fs = Return us \<and>
    (\<forall>u \<in> set us. \<exists>mf. map_of (db_files db) (bu_fileId u) = Some mf \<and> bu_metadataId u = pf_metadataId mf)"
proof (induction fs)
  case (Cons f fs)
  then obtain mf us where mf: "map_of (db_files db) f = Some mf" and us: "prepareBulkWatchUpdates db p fs = Return us"
    "\<forall>u \<in> set us. \<exists>mf. map_of (db_files db) (bu_fileId u) = Some mf \<and> bu_metadataId u = pf_metadataId mf" by auto
  obtain u where "bulk_row db p f = Return u" "bu_fileId u = f" "bu_metadataId u = pf_metadataId mf"
    by (simp add: bulk_row_def mf Let_def)
  with us mf show ?case by simp
qed simp

lemma prepare_unknown: "\<exists>f \<in> set fs. \<not> has f (db_files db) \<Longrightarrow> prepareBulkWatchUpdates db p fs = Throw entity_not_found"
proof (induction fs)
  case (Cons f fs)
  show ?case
  proof (cases "map_of (db_files db) f")
    case None
    then show ?thesis by (simp add: bulk_row_def)
  next
    case (Some mf)
    then obtain u where "bulk_row db p f = Return u" by (simp add: bulk_row_def Let_def)
    with Cons Some show ?thesis by simp
  qed
qed simp

lemma bulk_write:
  assumes us: "prepareBulkWatchUpdates db p fs = Return us" and ok: "library_ok db" and known: "\<forall>f \<in> set fs. has f (db_files db)"
  obtains db' where "applyBulkWatchState True now fs p db = (db', Return ())" and "bulk_written now p us db db'"
proof -
  define db1 where "db1 = db\<lparr>db_progress := upsertProgressBulk now p us (db_progress db),
      db_history := db_history db @ map (\<lambda>u. recordPlay now p (bu_fileId u) (bu_position u)) (filter bu_recordsPlay us),
      db_published := db_published db @ map (bulk_event p) us\<rparr>"
  let ?ts = "unique (map bu_metadataId (filter bu_recordsPlay us))"
  have eq: "applyBulkWatchState True now fs p db = check_titles p ?ts db1"
    by (simp add: applyBulkWatchState_def us db1_def Let_def)
  have "\<forall>u \<in> set us. \<exists>mf. map_of (db_files db) (bu_fileId u) = Some mf \<and> bu_metadataId u = pf_metadataId mf"
    using prepare_total[OF known, of p] us by auto
  then have titles: "\<forall>t \<in> set ?ts. has t (db_titles db1)" using library_okD(1)[OF ok] by (fastforce simp: db1_def)
  obtain w r where w: "check_titles p ?ts db1 = (db1\<lparr>db_watchlist := w\<rparr>, r)"
    "(\<forall>t \<in> set ?ts. has t (db_titles db1)) \<longrightarrow> r = Return ()" "p \<notin> set (db_autoRemoveWatched db1) \<longrightarrow> w = db_watchlist db1"
    using check_titles_frame[of p ?ts db1] by blast
  have flat: "flat_event (bulk_event p u) = bulk_event p u" for u by (simp add: flat_event_def bulk_event_def)
  have "bulk_written now p us db (db1\<lparr>db_watchlist := w\<rparr>)" using w(3) by (simp add: bulk_written_def db1_def flat)
  moreover have "applyBulkWatchState True now fs p db = (db1\<lparr>db_watchlist := w\<rparr>, Return ())"
    unfolding eq using w(1,2) titles by blast
  ultimately show ?thesis using that by blast
qed

subsection \<open>Property\<close>

text \<open>
  C30. Marking files watched together writes the rows, records the plays and announces the changes
  that one update per file would, and leaves the watchlist as they do when no title is taken off it;
  with an unknown file among them it changes nothing.
\<close>

theorem bulk_watch_is_repeated_update:
  assumes "library_ok db" and "p \<noteq> []"
  shows "if list_all (\<lambda>f. has f (db_files db)) ids
    then (let (bulk, r) = setWatchStateBulk True now ids True (Some p) db; single = one_by_one now p (unique ids) db in
          r = Return (length (unique ids)) \<and> db_progress bulk = db_progress single \<and> db_history bulk = db_history single \<and>
          map flat_event (db_published bulk) = map flat_event (db_published single) \<and>
          db_streamPrefs bulk = db_streamPrefs single \<and>
          (p \<in> set (db_autoRemoveWatched db) \<or> db_watchlist bulk = db_watchlist single))
    else setWatchStateBulk commits now ids True (Some p) db = (db, Throw entity_not_found)"
proof -
  have profile: "active_profile (Some p) = Return p" using assms(2) by (simp add: active_profile_def)
  have same: "set (unique ids) = set ids" by simp
  show ?thesis
  proof (cases "list_all (\<lambda>f. has f (db_files db)) ids")
    case True
    then have known: "\<forall>f \<in> set (unique ids). has f (db_files db)" by (simp add: list_all_iff)
    obtain us where us: "prepareBulkWatchUpdates db p (unique ids) = Return us" using prepare_total[OF known, of p] by blast
    obtain db' where b: "applyBulkWatchState True now (unique ids) p db = (db', Return ())" "bulk_written now p us db db'"
      using bulk_write[OF us assms(1) known, of now] by blast
    have "bulk_written now p us db (one_by_one now p (unique ids) db)"
      using one_by_one_written[OF us _ assms] by simp
    moreover have "setWatchStateBulk True now ids True (Some p) db = (db', Return (length (unique ids)))"
      by (simp add: setWatchStateBulk_def profile b(1) Let_def)
    ultimately show ?thesis using True b(2) by (auto simp: bulk_written_def Let_def)
  next
    case False
    then have "prepareBulkWatchUpdates db p (unique ids) = Throw entity_not_found"
      by (intro prepare_unknown) (auto simp: list_all_iff)
    then show ?thesis using False by (simp add: setWatchStateBulk_def profile applyBulkWatchState_def)
  qed
qed

definition sample_tables :: playback_tables where
  "sample_tables = \<lparr>db_files =
       [(''f1'', \<lparr>pf_duration = Some 1000, pf_metadataId = ''m'', pf_movieId = Some ''mv'', pf_episodeId = None,
                  pf_isDefault = True, pf_updatedAt = 1\<rparr>),
        (''f2'', \<lparr>pf_duration = None, pf_metadataId = ''m'', pf_movieId = Some ''mv'', pf_episodeId = None,
                  pf_isDefault = False, pf_updatedAt = 2\<rparr>)],
     db_titles = [(''m'', \<lparr>tt_type = ''movie'', tt_numberingMode = None, tt_seasons = [], tt_episodes = []\<rparr>)],
     db_progress = [((''p'', ''f1''), \<lparr>pg_position = 12, pg_duration = 1000, pg_completed = False, pg_audioStreamIndex = Some 2,
                     pg_subtitleId = None, pg_createdAt = 5, pg_updatedAt = 6, pg_dismissedAt = Some 7\<rparr>)],
     db_history = [], db_streamPrefs = [], db_watchlist = [(''p'', ''m'')], db_autoRemoveWatched = [], db_published = []\<rparr>"

lemma bulk_watch_is_repeated_update_witness:
  "(let (bulk, r) = setWatchStateBulk True 9 [''f1'', ''f2'', ''f1''] True (Some ''p'') sample_tables;
        single = one_by_one 9 ''p'' (unique [''f1'', ''f2'', ''f1'']) sample_tables in
    r = Return 2 \<and> db_progress bulk = db_progress single \<and> db_history bulk = db_history single) \<and>
   setWatchStateBulk True 9 [''f1'', ''f9''] True (Some ''p'') sample_tables = (sample_tables, Throw entity_not_found)"
proof -
  have ok: "library_ok sample_tables" by code_simp
  have known: "list_all (\<lambda>f. has f (db_files sample_tables)) [''f1'', ''f2'', ''f1'']"
    "\<not> list_all (\<lambda>f. has f (db_files sample_tables)) [''f1'', ''f9'']" by (simp_all add: sample_tables_def)
  have two: "length (unique [''f1'', ''f2'', ''f1'']) = 2" by code_simp
  note all = bulk_watch_is_repeated_update[OF ok, of "''p''" "[''f1'', ''f2'', ''f1'']" 9 True, unfolded if_P[OF known(1)]]
    and unknown = bulk_watch_is_repeated_update[OF ok, of "''p''" "[''f1'', ''f9'']" 9 True, unfolded if_not_P[OF known(2)]]
  show ?thesis using all unknown unfolding two by (auto simp: Let_def split: prod.splits)
qed

subsection \<open>Where the watchlist differs\<close>

text \<open>
  With the automatic removal on, the bulk write checks the title once all rows are written, the
  single update only when its own file was not finished before. A finished version of an episode
  whose other version was played since makes the difference.
\<close>

definition series_file :: "string \<Rightarrow> playback_file" where
  "series_file ep = \<lparr>pf_duration = Some 100, pf_metadataId = ''s'', pf_movieId = None, pf_episodeId = Some ep,
     pf_isDefault = True, pf_updatedAt = 1\<rparr>"

definition series_episode :: "string \<Rightarrow> int \<Rightarrow> episode_row" where
  "series_episode i n = \<lparr>ep_id = i, ep_seasonId = ''s1'', ep_episodeNumber = n, ep_absoluteNumber = None, ep_episodeType = None\<rparr>"

definition series_progress :: "int \<Rightarrow> bool \<Rightarrow> int \<Rightarrow> progress_row" where
  "series_progress position completed t = \<lparr>pg_position = position, pg_duration = 100, pg_completed = completed,
     pg_audioStreamIndex = None, pg_subtitleId = None, pg_createdAt = 1, pg_updatedAt = t, pg_dismissedAt = None\<rparr>"

definition rewatched_series :: playback_tables where
  "rewatched_series = \<lparr>
     db_files = [(''f1'', series_file ''e1''), (''f2'', series_file ''e2''), (''f3'', series_file ''e2'')],
     db_titles = [(''s'', \<lparr>tt_type = ''show'', tt_numberingMode = None, tt_seasons = [\<lparr>sn_id = ''s1'', sn_seasonNumber = 1\<rparr>],
                   tt_episodes = [series_episode ''e1'' 1, series_episode ''e2'' 2]\<rparr>)],
     db_progress = [((''p'', ''f2''), series_progress 100 True 5), ((''p'', ''f3''), series_progress 10 False 6)],
     db_history = [], db_streamPrefs = [], db_watchlist = [(''p'', ''s'')], db_autoRemoveWatched = [''p''], db_published = []\<rparr>"

lemma bulk_clears_more_of_the_watchlist:
  "db_watchlist (fst (setWatchStateBulk True 9 [''f1'', ''f2''] True (Some ''p'') rewatched_series)) = [] \<and>
   db_watchlist (one_by_one 9 ''p'' [''f1'', ''f2''] rewatched_series) = [(''p'', ''s'')]"
  by code_simp

end
