(* ===== verification/Smart_Play.thy ===== *)
theory Smart_Play
  imports Playback_Progress "HOL-Library.Product_Lexorder"
begin

section \<open>What to play next\<close>

text \<open>
  \<^verbatim>\<open>services/playback/smart-play.resolver.ts\<close>, \<^verbatim>\<open>services/playback/progress.utils.ts\<close> and
  \<^verbatim>\<open>computeSmartPlay\<close> of \<^verbatim>\<open>playback-progress.aggregator.ts\<close>: the file a title's play button
  starts. A file is its identifier with its row. Identifiers are ASCII, so their order is the one
  of their bytes.
\<close>

type_synonym title_file = "string \<times> playback_file"

record watched_row =
  wr_mediaFileId :: string
  wr_episodeId :: "string option"
  wr_row :: progress_row

datatype suggestion_type = Continue | Next_episode | New

record suggestion =
  sg_type :: suggestion_type
  sg_mediaFileId :: string
  sg_audioStreamIndex :: "int option"
  sg_subtitleId :: "string option"

subsection \<open>The preferred file\<close>

definition preferred_to :: "title_file \<Rightarrow> title_file \<Rightarrow> bool" where
  "preferred_to f g \<longleftrightarrow> pf_updatedAt (snd f) > pf_updatedAt (snd g)
     \<or> pf_updatedAt (snd f) = pf_updatedAt (snd g) \<and> fst f < fst g"

definition replaces :: "title_file \<Rightarrow> title_file option \<Rightarrow> bool" where
  "replaces f target \<longleftrightarrow> (case target of None \<Rightarrow> True | Some g \<Rightarrow> preferred_to f g)"

definition prefer_step :: "title_file \<Rightarrow> title_file option \<times> title_file option \<Rightarrow> title_file option \<times> title_file option" where
  "prefer_step f best =
     (let (newest, newestDefault) = best in
      if pf_isDefault (snd f) then (newest, if replaces f newestDefault then Some f else newestDefault)
      else (if replaces f newest then Some f else newest, newestDefault))"

definition selectPreferredMediaFile :: "title_file list \<Rightarrow> title_file option" where
  "selectPreferredMediaFile mediaFiles =
     (let (newest, newestDefault) = fold prefer_step mediaFiles (None, None) in
      case newestDefault of Some f \<Rightarrow> Some f | None \<Rightarrow> newest)"

subsection \<open>Episodes\<close>

record smart_episode =
  se_id :: string
  se_seasonNumber :: int
  se_episodeNumber :: int
  se_absoluteNumber :: "int option"

definition latestProgressByEpisode :: "watched_row list \<Rightarrow> (watched_row \<Rightarrow> string \<Rightarrow> bool) \<Rightarrow> (string, watched_row) jsmap" where
  "latestProgressByEpisode rows keep =
     foldl (\<lambda>byEpisode row.
        case wr_episodeId row of
          None \<Rightarrow> byEpisode
        | Some ep \<Rightarrow>
            if ep = [] \<or> \<not> keep row ep then byEpisode
            else (case map_of byEpisode ep of
                    None \<Rightarrow> AList.update ep row byEpisode
                  | Some existing \<Rightarrow>
                      if pg_updatedAt (wr_row row) > pg_updatedAt (wr_row existing) then AList.update ep row byEpisode
                      else byEpisode)) [] rows"

definition findMostRecentProgress ::
  "smart_episode list \<Rightarrow> (string, watched_row) jsmap \<Rightarrow> (smart_episode \<times> watched_row) option" where
  "findMostRecentProgress episodes progress =
     fold (\<lambda>ep best.
        case map_of progress (se_id ep) of
          None \<Rightarrow> best
        | Some row \<Rightarrow>
            (case best of
               None \<Rightarrow> Some (ep, row)
             | Some (_, b) \<Rightarrow> if pg_updatedAt (wr_row row) > pg_updatedAt (wr_row b) then Some (ep, row) else best))
       episodes None"

fun nextEpisodeAfter :: "('e \<Rightarrow> string) \<Rightarrow> 'e list \<Rightarrow> string \<Rightarrow> 'e option" where
  "nextEpisodeAfter id_of [] current = None"
| "nextEpisodeAfter id_of (e # es) current =
     (if id_of e = current then (case es of [] \<Rightarrow> None | n # _ \<Rightarrow> Some n) else nextEpisodeAfter id_of es current)"

definition selectNextEpisodeFile ::
  "('e \<Rightarrow> string) \<Rightarrow> 'e list \<Rightarrow> string \<Rightarrow> ('e \<Rightarrow> title_file list) \<Rightarrow> title_file option" where
  "selectNextEpisodeFile id_of ordered current filesOf =
     (case nextEpisodeAfter id_of ordered current of None \<Rightarrow> None | Some next_ep \<Rightarrow> selectPreferredMediaFile (filesOf next_ep))"

definition MAX_NUMBER :: int where
  "MAX_NUMBER = 9007199254740991"

text \<open>The key two episodes are compared by.\<close>

definition episode_key :: "bool \<Rightarrow> smart_episode \<Rightarrow> int \<times> int \<times> int" where
  "episode_key useAbsolute ep =
     (if useAbsolute then (case se_absoluteNumber ep of None \<Rightarrow> MAX_NUMBER | Some n \<Rightarrow> n) else 0,
      se_seasonNumber ep, se_episodeNumber ep)"

definition continueSuggestion :: "watched_row \<Rightarrow> suggestion option" where
  "continueSuggestion w =
     (if pg_completed (wr_row w) \<or> pg_position (wr_row w) \<le> 0 then None
      else Some \<lparr>sg_type = Continue, sg_mediaFileId = wr_mediaFileId w,
                 sg_audioStreamIndex = pg_audioStreamIndex (wr_row w), sg_subtitleId = pg_subtitleId (wr_row w)\<rparr>)"

definition plain_suggestion :: "suggestion_type \<Rightarrow> title_file \<Rightarrow> suggestion" where
  "plain_suggestion t f = \<lparr>sg_type = t, sg_mediaFileId = fst f, sg_audioStreamIndex = None, sg_subtitleId = None\<rparr>"

definition files_by_episode :: "title_file list \<Rightarrow> (string, title_file list) jsmap" where
  "files_by_episode mediaFiles = groupBy (\<lambda>f. pf_episodeId (snd f)) id mediaFiles"

definition playable_episodes :: "smart_episode list \<Rightarrow> title_file list \<Rightarrow> string option \<Rightarrow> smart_episode list" where
  "playable_episodes episodes mediaFiles numberingMode =
     sort_key (episode_key (numberingMode = Some ''absolute''))
       (filter (\<lambda>ep. has (se_id ep) (files_by_episode mediaFiles)) episodes)"

definition recent_progress ::
  "smart_episode list \<Rightarrow> title_file list \<Rightarrow> watched_row list \<Rightarrow> (smart_episode \<times> watched_row) option" where
  "recent_progress playable mediaFiles progress =
     findMostRecentProgress playable (latestProgressByEpisode progress
       (\<lambda>row ep. list_ex (\<lambda>f. fst f = wr_mediaFileId row) (grouped (files_by_episode mediaFiles) ep)))"

text \<open>The episode to start when there is nothing to continue.\<close>

definition start_suggestion :: "smart_episode list \<Rightarrow> title_file list \<Rightarrow> string list \<Rightarrow> suggestion option" where
  "start_suggestion playable mediaFiles watchedIds =
     (let file_of = (\<lambda>ep. selectPreferredMediaFile (grouped (files_by_episode mediaFiles) (se_id ep)));
          first = (case playable of [] \<Rightarrow> None | ep # _ \<Rightarrow> map_option (plain_suggestion New) (file_of ep))
      in case find (\<lambda>ep. se_id ep \<notin> set watchedIds) playable of
           None \<Rightarrow> first
         | Some ep \<Rightarrow>
             (case file_of ep of
                Some f \<Rightarrow> Some (plain_suggestion (if watchedIds \<noteq> [] then Next_episode else New) f)
              | None \<Rightarrow> first))"

definition selectEpisodeSmartPlay ::
  "smart_episode list \<Rightarrow> title_file list \<Rightarrow> string list \<Rightarrow> watched_row list \<Rightarrow> string option \<Rightarrow> suggestion option" where
  "selectEpisodeSmartPlay episodes mediaFiles watchedIds progress numberingMode =
     (let playable = playable_episodes episodes mediaFiles numberingMode in
      if playable = [] then None
      else case recent_progress playable mediaFiles progress of
             None \<Rightarrow> start_suggestion playable mediaFiles watchedIds
           | Some (ep, row) \<Rightarrow>
               (case continueSuggestion row of
                  Some s \<Rightarrow> Some s
                | None \<Rightarrow>
                    (case selectNextEpisodeFile se_id playable (se_id ep)
                            (\<lambda>e. grouped (files_by_episode mediaFiles) (se_id e)) of
                       Some f \<Rightarrow> Some (plain_suggestion Next_episode f)
                     | None \<Rightarrow> start_suggestion playable mediaFiles watchedIds)))"

subsection \<open>Movies and titles\<close>

definition selectMovieSmartPlay :: "title_file list \<Rightarrow> watched_row option \<Rightarrow> suggestion option" where
  "selectMovieSmartPlay mediaFiles progress =
     (case progress of
        Some w \<Rightarrow>
          if \<not> pg_completed (wr_row w) \<and> pg_position (wr_row w) > 0 \<and> list_ex (\<lambda>f. fst f = wr_mediaFileId w) mediaFiles
          then continueSuggestion w
          else map_option (plain_suggestion New) (selectPreferredMediaFile mediaFiles)
      | None \<Rightarrow> map_option (plain_suggestion New) (selectPreferredMediaFile mediaFiles))"

definition watched_rows :: "title_data \<Rightarrow> watched_row list" where
  "watched_rows data = map (\<lambda>(f, row). \<lparr>wr_mediaFileId = f,
     wr_episodeId = Option.bind (map_of (td_mediaFiles data) f) pf_episodeId, wr_row = row\<rparr>) (td_progressRows data)"

definition season_numbers :: "season_row list \<Rightarrow> (string, int) jsmap" where
  "season_numbers seasons = foldl (\<lambda>m s. AList.update (sn_id s) (sn_seasonNumber s) m) [] seasons"

definition smart_episodes :: "title_row \<Rightarrow> smart_episode list" where
  "smart_episodes title =
     map (\<lambda>ep. \<lparr>se_id = ep_id ep,
            se_seasonNumber = (case map_of (season_numbers (tt_seasons title)) (ep_seasonId ep) of None \<Rightarrow> MAX_NUMBER | Some n \<Rightarrow> n),
            se_episodeNumber = ep_episodeNumber ep, se_absoluteNumber = ep_absoluteNumber ep\<rparr>)
       (filter (\<lambda>ep. is_regular ep \<and> ep_seasonId ep \<noteq> []) (tt_episodes title))"

definition watched_episode_ids :: "watched_row list \<Rightarrow> string list" where
  "watched_episode_ids rows =
     fold (\<lambda>w acc. case wr_episodeId w of
        None \<Rightarrow> acc
      | Some ep \<Rightarrow> if pg_completed (wr_row w) \<and> ep \<noteq> [] then js_add ep acc else acc) rows []"

definition computeSmartPlay :: "title_data \<Rightarrow> suggestion option" where
  "computeSmartPlay data =
     (let title = td_title data; rows = watched_rows data in
      if tt_type title = ''movie''
      then selectMovieSmartPlay (filter (\<lambda>f. pf_movieId (snd f) \<noteq> None) (td_mediaFiles data))
             (case rows of [] \<Rightarrow> None | w # _ \<Rightarrow> Some w)
      else if tt_seasons title = [] then None
      else selectEpisodeSmartPlay (smart_episodes title) (td_mediaFiles data) (watched_episode_ids rows) rows
             (tt_numberingMode title))"

subsection \<open>The next episode of the playback view\<close>

definition selectNextEpisodeFileInSeries ::
  "episode_row list \<Rightarrow> season_row list \<Rightarrow> title_file list \<Rightarrow> string \<times> string \<Rightarrow> string option" where
  "selectNextEpisodeFileInSeries episodes seasons mediaFiles current =
     (let numbers = season_numbers seasons;
          ordered = sort_key (\<lambda>(ep, n). (n, ep_episodeNumber ep))
            (List.map_filter (\<lambda>ep. map_option (\<lambda>n. (ep, n)) (map_of numbers (ep_seasonId ep))) episodes);
          filesOf = (\<lambda>ep. grouped (files_by_episode mediaFiles) (ep_id ep))
      in case selectNextEpisodeFile ep_id (map fst (filter (\<lambda>(ep, _). ep_seasonId ep = snd current) ordered)) (fst current) filesOf of
           Some f \<Rightarrow> Some (fst f)
         | None \<Rightarrow>
             (case find (\<lambda>(ep, _). ep_id ep = fst current) ordered of
                None \<Rightarrow> None
              | Some (_, currentSeason) \<Rightarrow>
                  (let firsts = foldl (\<lambda>m (ep, n). if has n m then m else m @ [(n, ep)]) [] ordered;
                       later = filter (\<lambda>n. n > currentSeason) (sort (keys firsts));
                       files = List.map_filter (\<lambda>n. case map_of firsts n of
                           None \<Rightarrow> None | Some ep \<Rightarrow> selectPreferredMediaFile (filesOf ep)) later
                   in case files of [] \<Rightarrow> None | f # _ \<Rightarrow> Some (fst f))))"

end
