(* ===== verification/Smart_Play_Laws.thy ===== *)
theory Smart_Play_Laws
  imports Smart_Play
begin

section \<open>What the play button starts\<close>

text \<open>
  The loops of the smart-play resolver against what they look for: the files of an episode, the
  preferred one of a list, the newest row of an episode and the most recent episode. From these,
  what a suggestion is.
\<close>

subsection \<open>Groups\<close>

lemma map_of_groupBy:
  "map_of (groupBy key val xs) k =
     (let vs = map val (filter (\<lambda>x. key x = Some k) xs) in if vs = [] then None else Some vs)"
proof (induction xs rule: rev_induct)
  case (snoc x xs)
  have step: "groupBy key val (xs @ [x]) = (case key x of None \<Rightarrow> groupBy key val xs
      | Some k' \<Rightarrow> AList.update k' (grouped (groupBy key val xs) k' @ [val x]) (groupBy key val xs))"
    by (simp add: groupBy_def grouped_def split: option.split)
  show ?case
  proof (cases "key x")
    case None
    then show ?thesis using snoc by (simp add: step)
  next
    case (Some k')
    then show ?thesis using snoc by (cases "k = k'") (auto simp: step map_of_update grouped_def Let_def)
  qed
qed (simp add: groupBy_def)

definition files_of :: "title_file list \<Rightarrow> string \<Rightarrow> title_file list" where
  "files_of mediaFiles ep = filter (\<lambda>f. pf_episodeId (snd f) = Some ep) mediaFiles"

lemma no_files [simp]: "map_of (files_by_episode mediaFiles) ep = None \<longleftrightarrow> files_of mediaFiles ep = []"
  by (simp add: files_by_episode_def map_of_groupBy files_of_def Let_def)

lemma grouped_files [simp]: "grouped (files_by_episode mediaFiles) ep = files_of mediaFiles ep"
  by (simp add: grouped_def files_by_episode_def map_of_groupBy files_of_def Let_def filter_empty_conv)

subsection \<open>The preferred file\<close>

text \<open>A default file before any other, then the newest, then the smallest identifier.\<close>

definition best_of :: "title_file list \<Rightarrow> title_file \<Rightarrow> bool" where
  "best_of fs f \<longleftrightarrow> f \<in> set fs \<and>
     (\<forall>g \<in> set fs. (pf_isDefault (snd g) \<longrightarrow> pf_isDefault (snd f)) \<and>
        (pf_isDefault (snd g) = pf_isDefault (snd f) \<longrightarrow> \<not> preferred_to g f))"

definition top_of :: "title_file set \<Rightarrow> title_file option \<Rightarrow> bool" where
  "top_of S best \<longleftrightarrow> (case best of None \<Rightarrow> S = {} | Some f \<Rightarrow> f \<in> S \<and> (\<forall>g \<in> S. \<not> preferred_to g f))"

lemma preferred_order: "\<not> preferred_to g f \<longleftrightarrow> (- pf_updatedAt (snd f), fst f) \<le> (- pf_updatedAt (snd g), fst g)"
  by (auto simp: preferred_to_def less_eq_prod_def)

lemma top_insert: "top_of S best \<Longrightarrow> top_of (insert f S) (if replaces f best then Some f else best)"
proof (cases best)
  case (Some g)
  assume "top_of S best"
  then have g: "g \<in> S" "\<And>h. h \<in> S \<Longrightarrow> \<not> preferred_to h g" using Some by (auto simp: top_of_def)
  show ?thesis
  proof (cases "preferred_to f g")
    case True
    have "\<not> preferred_to h f" if "h \<in> S" for h
      using g(2)[OF that] True unfolding preferred_order preferred_to_def by (auto simp: less_eq_prod_def)
    moreover have "\<not> preferred_to f f" by (simp add: preferred_to_def)
    ultimately show ?thesis using True Some by (auto simp: top_of_def replaces_def)
  next
    case False
    then show ?thesis using g Some by (auto simp: top_of_def replaces_def)
  qed
qed (auto simp: top_of_def replaces_def preferred_to_def)

lemma prefer_fold:
  "fold prefer_step fs (None, None) = (a, b) \<Longrightarrow>
   top_of {f \<in> set fs. \<not> pf_isDefault (snd f)} a \<and> top_of {f \<in> set fs. pf_isDefault (snd f)} b"
proof (induction fs arbitrary: a b rule: rev_induct)
  case Nil
  then show ?case by (simp add: top_of_def)
next
  case (snoc f fs)
  obtain a' b' where ab: "fold prefer_step fs (None, None) = (a', b')" by fastforce
  note IH = snoc.IH[OF ab]
  have step: "prefer_step f (a', b') = (a, b)" using snoc.prems ab by simp
  have d: "{g \<in> set (fs @ [f]). P g} = (if P f then insert f {g \<in> set fs. P g} else {g \<in> set fs. P g})" for P by auto
  show ?case
  proof (cases "pf_isDefault (snd f)")
    case True
    then have "a = a'" "b = (if replaces f b' then Some f else b')"
      using step by (simp_all add: prefer_step_def)
    then show ?thesis using IH True top_insert[of _ b' f] unfolding d by simp
  next
    case False
    then have "b = b'" "a = (if replaces f a' then Some f else a')"
      using step by (simp_all add: prefer_step_def)
    then show ?thesis using IH False top_insert[of _ a' f] unfolding d by simp
  qed
qed

lemma selectPreferredMediaFile_best:
  "case selectPreferredMediaFile fs of None \<Rightarrow> fs = [] | Some f \<Rightarrow> best_of fs f"
proof -
  obtain a b where ab: "fold prefer_step fs (None, None) = (a, b)" by fastforce
  note top = prefer_fold[OF ab]
  have r: "selectPreferredMediaFile fs = (case b of Some f \<Rightarrow> Some f | None \<Rightarrow> a)"
    by (simp add: selectPreferredMediaFile_def ab)
  have split: "set fs = {f \<in> set fs. \<not> pf_isDefault (snd f)} \<union> {f \<in> set fs. pf_isDefault (snd f)}" by auto
  show ?thesis
  proof (cases b)
    case (Some f)
    then show ?thesis using top by (auto simp: r best_of_def top_of_def)
  next
    case None
    then have none: "{f \<in> set fs. pf_isDefault (snd f)} = {}" using top by (simp add: top_of_def)
    show ?thesis
    proof (cases a)
      case a: None
      then have "{f \<in> set fs. \<not> pf_isDefault (snd f)} = {}" using top by (simp add: top_of_def)
      with none have "set fs = {}" using split by (simp only: Un_empty)
      moreover have "selectPreferredMediaFile fs = None" by (simp add: r None a)
      ultimately show ?thesis by simp
    next
      case (Some f)
      then show ?thesis using None none top by (auto simp: r best_of_def top_of_def)
    qed
  qed
qed

lemma preferred_Some: "selectPreferredMediaFile fs = Some f \<Longrightarrow> best_of fs f"
  using selectPreferredMediaFile_best[of fs] by simp

lemma preferred_None [simp]: "selectPreferredMediaFile fs = None \<longleftrightarrow> fs = []"
proof
  show "selectPreferredMediaFile fs = None \<Longrightarrow> fs = []" using selectPreferredMediaFile_best[of fs] by simp
  show "fs = [] \<Longrightarrow> selectPreferredMediaFile fs = None" by (simp add: selectPreferredMediaFile_def)
qed

subsection \<open>The newest rows\<close>

abbreviation row_time :: "watched_row \<Rightarrow> int" where
  "row_time w \<equiv> pg_updatedAt (wr_row w)"

definition competes :: "(watched_row \<Rightarrow> string \<Rightarrow> bool) \<Rightarrow> string \<Rightarrow> watched_row \<Rightarrow> bool" where
  "competes keep ep w \<longleftrightarrow> wr_episodeId w = Some ep \<and> ep \<noteq> [] \<and> keep w ep"

lemma latest_is_newest:
  "case map_of (latestProgressByEpisode rows keep) ep of
     None \<Rightarrow> \<forall>w \<in> set rows. \<not> competes keep ep w
   | Some w \<Rightarrow> w \<in> set rows \<and> competes keep ep w \<and> (\<forall>w' \<in> set rows. competes keep ep w' \<longrightarrow> row_time w' \<le> row_time w)"
proof (induction rows rule: rev_induct)
  case (snoc w rows)
  let ?m = "latestProgressByEpisode rows keep"
  show ?case
  proof (cases "wr_episodeId w")
    case None
    then have "latestProgressByEpisode (rows @ [w]) keep = ?m" by (simp add: latestProgressByEpisode_def)
    with snoc None show ?thesis by (auto simp: competes_def split: option.splits)
  next
    case (Some e)
    show ?thesis
    proof (cases "e = [] \<or> \<not> keep w e")
      case True
      then have "latestProgressByEpisode (rows @ [w]) keep = ?m" using Some by (simp add: latestProgressByEpisode_def)
      with snoc True Some show ?thesis by (auto simp: competes_def split: option.splits)
    next
      case False
      have new: "latestProgressByEpisode (rows @ [w]) keep = (case map_of ?m e of None \<Rightarrow> AList.update e w ?m
          | Some x \<Rightarrow> if row_time w > row_time x then AList.update e w ?m else ?m)"
        using False Some by (simp add: latestProgressByEpisode_def split: option.split)
      have c: "competes keep ep w \<longleftrightarrow> ep = e" using False Some by (auto simp: competes_def)
      show ?thesis
      proof (cases "ep = e")
        case True
        with snoc c new show ?thesis by (cases "map_of ?m e") (auto simp: map_of_update)
      next
        case other: False
        then have "map_of (latestProgressByEpisode (rows @ [w]) keep) ep = map_of ?m ep"
          unfolding new by (simp add: map_of_update split: option.split)
        with snoc c other show ?thesis by (auto split: option.splits)
      qed
    qed
  qed
qed (simp add: latestProgressByEpisode_def)

lemma most_recent:
  "case findMostRecentProgress eps m of
     None \<Rightarrow> \<forall>e \<in> set eps. map_of m (se_id e) = None
   | Some (e, w) \<Rightarrow> e \<in> set eps \<and> map_of m (se_id e) = Some w \<and>
       (\<forall>e' \<in> set eps. \<forall>w'. map_of m (se_id e') = Some w' \<longrightarrow> row_time w' \<le> row_time w)"
proof (induction eps rule: rev_induct)
  case (snoc e eps)
  have step: "findMostRecentProgress (eps @ [e]) m = (case map_of m (se_id e) of None \<Rightarrow> findMostRecentProgress eps m
      | Some row \<Rightarrow> (case findMostRecentProgress eps m of None \<Rightarrow> Some (e, row)
          | Some (e', b) \<Rightarrow> if row_time row > row_time b then Some (e, row) else findMostRecentProgress eps m))"
    by (simp only: findMostRecentProgress_def fold_append fold.simps comp_apply id_apply)
  show ?case
  proof (cases "map_of m (se_id e)")
    case None
    with snoc show ?thesis by (auto simp: step split: option.splits)
  next
    case (Some row)
    show ?thesis
    proof (cases "findMostRecentProgress eps m")
      case none: None
      with snoc Some show ?thesis by (auto simp: step)
    next
      case (Some p)
      obtain e' b where p: "p = (e', b)" by (cases p)
      have old: "e' \<in> set eps" "map_of m (se_id e') = Some b"
        "\<And>x w'. x \<in> set eps \<Longrightarrow> map_of m (se_id x) = Some w' \<Longrightarrow> row_time w' \<le> row_time b"
        using snoc Some p by auto
      show ?thesis
      proof (cases "row_time row > row_time b")
        case True
        have "findMostRecentProgress (eps @ [e]) m = Some (e, row)"
          using \<open>map_of m (se_id e) = Some row\<close> Some p True by (simp add: step)
        then show ?thesis using old(3) True \<open>map_of m (se_id e) = Some row\<close> by fastforce
      next
        case False
        have "findMostRecentProgress (eps @ [e]) m = Some (e', b)"
          using \<open>map_of m (se_id e) = Some row\<close> Some p False by (simp add: step)
        then show ?thesis using old False \<open>map_of m (se_id e) = Some row\<close> by auto
      qed
    qed
  qed
qed (simp add: findMostRecentProgress_def)

subsection \<open>Suggestions\<close>

text \<open>The rows that count for a series: of a regular episode, for one of its files.\<close>

definition row_counts :: "title_data \<Rightarrow> watched_row \<Rightarrow> bool" where
  "row_counts data w \<longleftrightarrow>
     (\<exists>ep \<in> set (smart_episodes (td_title data)). wr_episodeId w = Some (se_id ep) \<and> se_id ep \<noteq> [] \<and>
        (\<exists>f \<in> set (files_of (td_mediaFiles data) (se_id ep)). fst f = wr_mediaFileId w))"

abbreviation is_movie :: "title_data \<Rightarrow> bool" where
  "is_movie data \<equiv> tt_type (td_title data) = ''movie''"

definition movie_files :: "title_data \<Rightarrow> title_file list" where
  "movie_files data = filter (\<lambda>f. pf_movieId (snd f) \<noteq> None) (td_mediaFiles data)"

text \<open>The lists of files one of which is played.\<close>

definition choices :: "title_data \<Rightarrow> title_file list set" where
  "choices data = (if is_movie data then {movie_files data}
     else if tt_seasons (td_title data) = [] then {}
     else (\<lambda>ep. files_of (td_mediaFiles data) (se_id ep)) ` set (smart_episodes (td_title data)))"

definition partly_watched :: "watched_row \<Rightarrow> bool" where
  "partly_watched w \<longleftrightarrow> \<not> pg_completed (wr_row w) \<and> 0 < pg_position (wr_row w)"

lemma continueSuggestion_Some:
  "continueSuggestion w = Some s \<longleftrightarrow> partly_watched w \<and> s = \<lparr>sg_type = Continue, sg_mediaFileId = wr_mediaFileId w,
     sg_audioStreamIndex = pg_audioStreamIndex (wr_row w), sg_subtitleId = pg_subtitleId (wr_row w)\<rparr>"
  by (auto simp: continueSuggestion_def partly_watched_def)

text \<open>A suggestion to start a file, or to continue the newest row.\<close>

definition starts :: "title_data \<Rightarrow> suggestion \<Rightarrow> bool" where
  "starts data s \<longleftrightarrow> sg_type s \<noteq> Continue \<and> (\<exists>fs \<in> choices data. \<exists>f. best_of fs f \<and> s = plain_suggestion (sg_type s) f)"

definition continues :: "title_data \<Rightarrow> suggestion \<Rightarrow> bool" where
  "continues data s \<longleftrightarrow> (\<exists>w \<in> set (watched_rows data). continueSuggestion w = Some s \<and>
     (\<exists>fs \<in> choices data. \<exists>f \<in> set fs. fst f = sg_mediaFileId s) \<and>
     (\<forall>w' \<in> set (watched_rows data). (is_movie data \<longrightarrow> w = hd (watched_rows data)) \<and>
        (\<not> is_movie data \<longrightarrow> row_counts data w' \<longrightarrow> row_time w' \<le> row_time w)))"

lemma startsI: "t \<noteq> Continue \<Longrightarrow> fs \<in> choices data \<Longrightarrow> selectPreferredMediaFile fs = Some f \<Longrightarrow> starts data (plain_suggestion t f)"
  unfolding starts_def by (intro conjI bexI[of _ fs] exI[of _ f]) (auto simp: plain_suggestion_def preferred_Some)

lemma movie_suggestion:
  assumes "is_movie data"
  shows "case computeSmartPlay data of None \<Rightarrow> \<forall>fs \<in> choices data. fs = [] | Some s \<Rightarrow> continues data s \<or> starts data s"
proof -
  let ?fs = "movie_files data"
  have fs: "?fs \<in> choices data" and choices: "choices data = {?fs}" using assms by (simp_all add: choices_def)
  let ?start = "map_option (plain_suggestion New) (selectPreferredMediaFile ?fs)"
  have start: "case ?start of None \<Rightarrow> \<forall>fs \<in> choices data. fs = [] | Some s \<Rightarrow> continues data s \<or> starts data s"
    using startsI[of New, OF _ fs] by (auto simp: choices split: option.split)
  show ?thesis
  proof (cases "watched_rows data")
    case Nil
    then have "computeSmartPlay data = ?start"
      using assms by (simp add: computeSmartPlay_def selectMovieSmartPlay_def movie_files_def Let_def)
    with start show ?thesis by simp
  next
    case (Cons w ws)
    have eq: "computeSmartPlay data = (if partly_watched w \<and> list_ex (\<lambda>f. fst f = wr_mediaFileId w) ?fs
        then continueSuggestion w else ?start)"
      using assms Cons by (simp add: computeSmartPlay_def selectMovieSmartPlay_def movie_files_def Let_def partly_watched_def)
    show ?thesis
    proof (cases "partly_watched w \<and> list_ex (\<lambda>f. fst f = wr_mediaFileId w) ?fs")
      case True
      then obtain s where s: "continueSuggestion w = Some s" using continueSuggestion_Some by blast
      then have "sg_mediaFileId s = wr_mediaFileId w" by (simp add: continueSuggestion_Some)
      with True s fs Cons assms have "continues data s"
        unfolding continues_def by (intro bexI[of _ w]) (auto simp: list_ex_iff)
      with True s eq show ?thesis by simp
    next
      case False
      show ?thesis unfolding eq if_not_P[OF False] by (rule start)
    qed
  qed
qed

lemma start_suggestion_starts:
  assumes "set playable \<subseteq> set (smart_episodes (td_title data))" and "tt_seasons (td_title data) \<noteq> []" and "\<not> is_movie data"
    and "playable \<noteq> []" and files: "\<And>ep. ep \<in> set playable \<Longrightarrow> files_of (td_mediaFiles data) (se_id ep) \<noteq> []"
  shows "\<exists>s. start_suggestion playable (td_mediaFiles data) ids = Some s \<and> starts data s"
proof -
  have choice: "files_of (td_mediaFiles data) (se_id ep) \<in> choices data" if "ep \<in> set playable" for ep
    using that assms(1-3) by (auto simp: choices_def)
  have preferred: "\<exists>f. selectPreferredMediaFile (files_of (td_mediaFiles data) (se_id ep)) = Some f" if "ep \<in> set playable" for ep
    using files[OF that] preferred_None by fastforce
  obtain e es where p: "playable = e # es" using assms(4) by (cases playable) auto
  show ?thesis
  proof (cases "find (\<lambda>ep. se_id ep \<notin> set ids) playable")
    case None
    obtain f where f: "selectPreferredMediaFile (files_of (td_mediaFiles data) (se_id e)) = Some f" using preferred[of e] p by auto
    then have "start_suggestion playable (td_mediaFiles data) ids = Some (plain_suggestion New f)"
      using None by (simp add: start_suggestion_def p)
    then show ?thesis using startsI[of New, OF _ choice f] p by simp
  next
    case (Some ep)
    then have ep: "ep \<in> set playable" by (auto simp: find_Some_iff)
    obtain f where f: "selectPreferredMediaFile (files_of (td_mediaFiles data) (se_id ep)) = Some f" using preferred[OF ep] by blast
    then have "start_suggestion playable (td_mediaFiles data) ids = Some (plain_suggestion (if ids \<noteq> [] then Next_episode else New) f)"
      using Some by (simp add: start_suggestion_def Let_def)
    then show ?thesis using startsI[OF _ choice[OF ep] f] by auto
  qed
qed

lemma nextEpisodeAfter_in: "nextEpisodeAfter id_of es c = Some e \<Longrightarrow> e \<in> set es"
  by (induction id_of es c rule: nextEpisodeAfter.induct) (auto split: if_splits list.splits)

lemma series_suggestion:
  assumes movie: "\<not> is_movie data"
  shows "case computeSmartPlay data of None \<Rightarrow> \<forall>fs \<in> choices data. fs = [] | Some s \<Rightarrow> continues data s \<or> starts data s"
proof (cases "tt_seasons (td_title data) = []")
  case True
  then show ?thesis using movie by (simp add: computeSmartPlay_def choices_def)
next
  case False
  let ?fs = "td_mediaFiles data" and ?rows = "watched_rows data" and ?eps = "smart_episodes (td_title data)"
  define playable where "playable = playable_episodes ?eps ?fs (tt_numberingMode (td_title data))"
  have set: "set playable = {ep \<in> set ?eps. files_of ?fs (se_id ep) \<noteq> []}" by (simp add: playable_def playable_episodes_def del: not_None_eq)
  have eq: "computeSmartPlay data = selectEpisodeSmartPlay ?eps ?fs (watched_episode_ids ?rows) ?rows (tt_numberingMode (td_title data))"
    using movie False by (simp add: computeSmartPlay_def Let_def)
  have choice: "files_of ?fs (se_id ep) \<in> choices data" if "ep \<in> set playable" for ep
    using that movie False by (auto simp: choices_def set)
  show ?thesis
  proof (cases "playable = []")
    case True
    then have "files_of ?fs (se_id ep) = []" if "ep \<in> set ?eps" for ep using set that by auto
    then show ?thesis using True movie False
      by (simp add: eq selectEpisodeSmartPlay_def playable_def[symmetric] choices_def)
  next
    case ne: False
    define keep where "keep = (\<lambda>(row :: watched_row) ep. list_ex (\<lambda>f. fst f = wr_mediaFileId row) (files_of ?fs ep))"
    define latest where "latest = latestProgressByEpisode ?rows keep"
    have "\<exists>s. start_suggestion playable ?fs (watched_episode_ids ?rows) = Some s \<and> starts data s"
      using False movie ne by (intro start_suggestion_starts) (auto simp: set)
    then obtain s0 where s0: "start_suggestion playable ?fs (watched_episode_ids ?rows) = Some s0" "starts data s0" by blast
    have sel: "computeSmartPlay data = (case findMostRecentProgress playable latest of
        None \<Rightarrow> Some s0
      | Some (ep, row) \<Rightarrow> (case continueSuggestion row of Some s \<Rightarrow> Some s
          | None \<Rightarrow> (case selectNextEpisodeFile se_id playable (se_id ep) (\<lambda>e. files_of ?fs (se_id e)) of
              Some f \<Rightarrow> Some (plain_suggestion Next_episode f) | None \<Rightarrow> Some s0)))"
      unfolding eq selectEpisodeSmartPlay_def Let_def playable_def[symmetric] recent_progress_def grouped_files
        keep_def[symmetric] latest_def[symmetric] s0 using ne by simp
    show ?thesis
    proof (cases "findMostRecentProgress playable latest")
      case None
      then show ?thesis using s0 by (simp add: sel)
    next
      case (Some p)
      obtain ep w where p: "p = (ep, w)" by (cases p)
      have recent: "ep \<in> set playable" "map_of latest (se_id ep) = Some w"
        "\<And>e' w'. e' \<in> set playable \<Longrightarrow> map_of latest (se_id e') = Some w' \<Longrightarrow> row_time w' \<le> row_time w"
        using most_recent[of playable latest] Some p by auto
      have w: "w \<in> set ?rows" "competes keep (se_id ep) w"
        using latest_is_newest[of ?rows keep "se_id ep"] recent(2) by (simp_all add: latest_def)
      show ?thesis
      proof (cases "continueSuggestion w")
        case c: (Some s)
        have newest: "row_time w' \<le> row_time w" if in_rows: "w' \<in> set ?rows" and counts: "row_counts data w'" for w'
        proof -
          from counts obtain e where e: "e \<in> set ?eps" "wr_episodeId w' = Some (se_id e)" "se_id e \<noteq> []"
            "\<exists>f \<in> set (files_of ?fs (se_id e)). fst f = wr_mediaFileId w'" by (auto simp: row_counts_def)
          then have "competes keep (se_id e) w'" "e \<in> set playable" by (auto simp: competes_def keep_def list_ex_iff set)
          then obtain x where "map_of latest (se_id e) = Some x" "row_time w' \<le> row_time x"
            using latest_is_newest[of ?rows keep "se_id e"] in_rows by (cases "map_of latest (se_id e)") (auto simp: latest_def)
          with recent(3)[OF \<open>e \<in> set playable\<close>] show ?thesis by fastforce
        qed
        have "sg_mediaFileId s = wr_mediaFileId w" using c by (simp add: continueSuggestion_Some)
        moreover have "\<exists>f \<in> set (files_of ?fs (se_id ep)). fst f = wr_mediaFileId w"
          using w(2) by (simp add: competes_def keep_def list_ex_iff)
        ultimately have "continues data s"
          unfolding continues_def using movie w(1) c newest choice[OF recent(1)] by (intro bexI[of _ w]) auto
        then show ?thesis by (simp add: sel Some p c)
      next
        case c: None
        show ?thesis
        proof (cases "selectNextEpisodeFile se_id playable (se_id ep) (\<lambda>e. files_of ?fs (se_id e))")
          case None
          then show ?thesis using s0 by (simp add: sel Some p c)
        next
          case n: (Some f)
          then obtain e where e: "e \<in> set playable" "selectPreferredMediaFile (files_of ?fs (se_id e)) = Some f"
            using nextEpisodeAfter_in[of se_id playable "se_id ep"] by (auto simp: selectNextEpisodeFile_def split: option.splits)
          show ?thesis using startsI[of Next_episode, OF _ choice[OF e(1)] e(2)] by (simp add: sel Some p c n)
        qed
      qed
    qed
  qed
qed


definition sample_title :: title_data where
  "sample_title = \<lparr>td_title = \<lparr>tt_type = ''show'', tt_numberingMode = None, tt_seasons = [\<lparr>sn_id = ''s1'', sn_seasonNumber = 1\<rparr>],
       tt_episodes = [\<lparr>ep_id = ''e2'', ep_seasonId = ''s1'', ep_episodeNumber = 2, ep_absoluteNumber = None, ep_episodeType = None\<rparr>,
         \<lparr>ep_id = ''e1'', ep_seasonId = ''s1'', ep_episodeNumber = 1, ep_absoluteNumber = None, ep_episodeType = None\<rparr>]\<rparr>,
     td_mediaFiles = [(''f1'', \<lparr>pf_duration = Some 100, pf_metadataId = ''s'', pf_movieId = None, pf_episodeId = Some ''e1'',
         pf_isDefault = True, pf_updatedAt = 1\<rparr>),
       (''f2'', \<lparr>pf_duration = Some 100, pf_metadataId = ''s'', pf_movieId = None, pf_episodeId = Some ''e2'',
         pf_isDefault = True, pf_updatedAt = 1\<rparr>)],
     td_progressRows = [(''f1'', \<lparr>pg_position = 100, pg_duration = 100, pg_completed = True, pg_audioStreamIndex = None,
         pg_subtitleId = None, pg_createdAt = 1, pg_updatedAt = 5, pg_dismissedAt = None\<rparr>)]\<rparr>"


end
