(* ===== verification/Worker_Policy.thy ===== *)
theory Worker_Policy
  imports Js_Number Worker_Tables
begin

section \<open>Retry delays and schedules of the workers\<close>

text \<open>
  \<^verbatim>\<open>workers/utils/worker-policy.utils.ts\<close>: the delay before a retry, cron expressions, and the
  next instant a schedule fires. An instant is a number of milliseconds; the zone of the server is a
  parameter, the two functions \<^verbatim>\<open>Date\<close> converts with. An instant may be an invalid date, \<open>None\<close>,
  when a time of day is no number. The compiled expressions are cached by the source; the cache
  keeps a pure function of the expression.
\<close>

definition MINUTE :: int where
  "MINUTE = 60000"

definition getRetryDelay :: "int \<Rightarrow> backoff_type \<Rightarrow> int \<Rightarrow> int" where
  "getRetryDelay tries kind backoff =
     (case kind of Fixed \<Rightarrow> backoff | Exponential \<Rightarrow> backoff * 2 ^ nat (max 0 (tries - 1)))"

subsection \<open>Dates\<close>

text \<open>\<open>to_local\<close> is \<^verbatim>\<open>LocalTime\<close> and \<open>to_utc\<close> is \<^verbatim>\<open>UTC\<close> of the language.\<close>

record zone =
  to_local :: "int \<Rightarrow> int"
  to_utc :: "int \<Rightarrow> int"

definition DAY_MS :: int where
  "DAY_MS = 86400000"

definition local_day :: "zone \<Rightarrow> int \<Rightarrow> int" where
  "local_day z t = to_local z t div DAY_MS"

definition local_minute :: "zone \<Rightarrow> int \<Rightarrow> int" where
  "local_minute z t = (to_local z t mod DAY_MS) div MINUTE"

definition getHours :: "zone \<Rightarrow> int \<Rightarrow> int" where
  "getHours z t = local_minute z t div 60"

definition getMinutes :: "zone \<Rightarrow> int \<Rightarrow> int" where
  "getMinutes z t = local_minute z t mod 60"

text \<open>The first of January 1970 was a Thursday.\<close>

definition weekday_of :: "int \<Rightarrow> int" where
  "weekday_of d = (d + 4) mod 7"

text \<open>Year, month and day of a day number, counted from the first of March of a leap cycle.\<close>

definition civil :: "int \<Rightarrow> int \<times> int \<times> int" where
  "civil d =
     (let n = d + 719468;
          cycle = n div 146097; r = n mod 146097;
          century = min 3 (r div 36524); r' = r - 36524 * century;
          four = r' div 1461; r'' = r' mod 1461;
          one = min 3 (r'' div 365); doy = r'' - 365 * one;
          mp = (5 * doy + 2) div 153;
          m = (if mp < 10 then mp + 3 else mp - 9)
      in (400 * cycle + 100 * century + 4 * four + one + (if m \<le> 2 then 1 else 0), m, doy - (153 * mp + 2) div 5 + 1))"

definition month_of :: "int \<Rightarrow> int" where
  "month_of d = fst (snd (civil d))"

definition date_of :: "int \<Rightarrow> int" where
  "date_of d = snd (snd (civil d))"

text \<open>\<^verbatim>\<open>setHours(h, m, 0, 0)\<close> and \<^verbatim>\<open>setDate(getDate() + k)\<close>.\<close>

definition set_hours :: "zone \<Rightarrow> int \<Rightarrow> int \<Rightarrow> int \<Rightarrow> int" where
  "set_hours z h m t = to_utc z (local_day z t * DAY_MS + (h * 60 + m) * MINUTE)"

definition add_days :: "zone \<Rightarrow> int \<Rightarrow> int \<Rightarrow> int" where
  "add_days z k t = to_utc z ((local_day z t + k) * DAY_MS + to_local z t mod DAY_MS)"

subsection \<open>Cron expressions\<close>

function split_spaces :: "string \<Rightarrow> string list" where
  "split_spaces s =
     (let w = takeWhile (\<lambda>c. \<not> is_space c) s; r = dropWhile (\<lambda>c. \<not> is_space c) s in
      if r = [] then [w] else w # split_spaces (dropWhile is_space (tl r)))"
  by auto

termination
proof (relation "measure length")
  fix s w r :: string
  assume r: "r = dropWhile (\<lambda>c. \<not> is_space c) s" and ne: "r \<noteq> []"
  have "length (dropWhile is_space (tl r)) \<le> length (tl r)" by (rule length_dropWhile_le)
  also have "\<dots> < length r" using ne by simp
  also have "\<dots> \<le> length s" unfolding r by (rule length_dropWhile_le)
  finally show "(dropWhile is_space (tl r), s) \<in> measure length" by simp
qed simp

declare split_spaces.simps [simp del]

definition cron_fields :: "string \<Rightarrow> string list" where
  "cron_fields e = split_spaces (trim_text e)"

definition CRON_RANGES :: "(nat \<times> nat) list" where
  "CRON_RANGES = [(0, 59), (0, 23), (1, 31), (1, 12), (0, 6)]"

definition cron_invalid :: domain_error where
  "cron_invalid = DomainError Validation ''worker.cron_invalid''"

definition all_digits_text :: "string \<Rightarrow> bool" where
  "all_digits_text s = (s \<noteq> [] \<and> list_all is_digit s)"

text \<open>The n-th of the pieces a text is destructured into; a missing one is \<^verbatim>\<open>undefined\<close>.\<close>

definition piece :: "nat \<Rightarrow> string list \<Rightarrow> string" where
  "piece n ws = (if n < length ws then ws ! n else [])"

definition cron_part_ok :: "nat \<Rightarrow> nat \<Rightarrow> string \<Rightarrow> bool" where
  "cron_part_ok mn mx part =
     (let ws = split_on CHR ''/'' part; rangePart = piece 0 ws; stepPart = piece 1 ws; extraPart = piece 2 ws in
      if rangePart = [] \<or> extraPart \<noteq> [] then False
      else if stepPart \<noteq> [] \<and> (\<not> all_digits_text stepPart \<or> decimal_value stepPart < 1) then False
      else if rangePart = ''*'' then True
      else let range = split_on CHR ''-'' rangePart in
        if 2 < length range \<or> \<not> list_all all_digits_text range then False
        else let start = decimal_value (range ! 0);
                 stop = decimal_value (if 1 < length range then range ! 1 else range ! 0)
             in \<not> (start < mn \<or> mx < stop \<or> stop < start))"

definition assertCronField :: "string \<Rightarrow> nat \<Rightarrow> nat \<Rightarrow> unit result" where
  "assertCronField field mn mx =
     (if list_all (cron_part_ok mn mx) (split_on CHR '','' field) then Return () else Throw cron_invalid)"

definition assertCronExpression :: "string \<Rightarrow> unit result" where
  "assertCronExpression e =
     (let fields = cron_fields e in
      if length fields \<noteq> 5 then Throw cron_invalid
      else if list_all (\<lambda>(f, mn, mx). assertCronField f mn mx = Return ()) (zip fields CRON_RANGES) then Return ()
      else Throw cron_invalid)"

text \<open>A compiled part is \<open>(start, end, step)\<close>.\<close>

definition compile_part :: "nat \<Rightarrow> nat \<Rightarrow> string \<Rightarrow> nat \<times> nat \<times> nat" where
  "compile_part mn mx part =
     (let ws = split_on CHR ''/'' part; rangePart = piece 0 ws; stepPart = piece 1 ws;
          step = (if stepPart \<noteq> [] then decimal_value stepPart else 1);
          range = (if rangePart = ''*'' \<or> rangePart = [] then [mn, mx]
                   else map decimal_value (split_on CHR ''-'' rangePart));
          start = range ! 0
      in (start, (if 1 < length range then range ! 1 else start), step))"

definition compileCronField :: "string \<Rightarrow> nat \<Rightarrow> nat \<Rightarrow> nat \<Rightarrow> bool" where
  "compileCronField field mn mx v =
     list_ex (\<lambda>part. let (start, stop, step) = compile_part mn mx part
                      in start \<le> v \<and> v \<le> stop \<and> (v - start) mod step = 0)
       (split_on CHR '','' field)"

text \<open>The n-th compiled field of an expression.\<close>

definition cron_field :: "string \<Rightarrow> nat \<Rightarrow> int \<Rightarrow> bool" where
  "cron_field e n v =
     compileCronField (cron_fields e ! n) (fst (CRON_RANGES ! n)) (snd (CRON_RANGES ! n)) (nat v)"

definition starred :: "string \<Rightarrow> bool" where
  "starred field = (case field of [] \<Rightarrow> False | c # _ \<Rightarrow> c = CHR ''*'')"

definition cronDayMatches :: "string list \<Rightarrow> bool \<Rightarrow> bool \<Rightarrow> bool" where
  "cronDayMatches rawFields domMatch dowMatch =
     (if \<not> starred (rawFields ! 2) \<and> \<not> starred (rawFields ! 4) then domMatch \<or> dowMatch else domMatch \<and> dowMatch)"

text \<open>The day half and the time half of a match.\<close>

definition cron_day :: "string \<Rightarrow> int \<Rightarrow> bool" where
  "cron_day e d = cronDayMatches (cron_fields e) (cron_field e 2 (date_of d)) (cron_field e 4 (weekday_of d))"

definition matchesCron :: "zone \<Rightarrow> int \<Rightarrow> string \<Rightarrow> bool result" where
  "matchesCron z t e =
     (case assertCronExpression e of Throw err \<Rightarrow> Throw err
      | Return _ \<Rightarrow> Return (cron_field e 0 (getMinutes z t) \<and> cron_field e 1 (getHours z t) \<and>
          cron_day e (local_day z t) \<and> cron_field e 3 (month_of (local_day z t))))"

definition extractValidValues :: "(int \<Rightarrow> bool) \<Rightarrow> int \<Rightarrow> int \<Rightarrow> int list" where
  "extractValidValues f mn mx = filter f [mn..mx]"

definition MAX_LOOKAHEAD_DAYS :: nat where
  "MAX_LOOKAHEAD_DAYS = 366 * 4 + 1"

text \<open>The candidates of one day, in the order of the two inner loops.\<close>

definition day_candidates :: "zone \<Rightarrow> string \<Rightarrow> int \<Rightarrow> int list" where
  "day_candidates z e day =
     (let validMinutes = extractValidValues (cron_field e 0) 0 59;
          validHours = extractValidValues (cron_field e 1) 0 23;
          validDays = extractValidValues (cron_field e 2) 1 31;
          validMonths = extractValidValues (cron_field e 3) 1 12;
          validWeekdays = extractValidValues (cron_field e 4) 0 6;
          d = local_day z day
      in if \<not> cronDayMatches (cron_fields e) (date_of d \<in> set validDays) (weekday_of d \<in> set validWeekdays) then []
         else if month_of d \<notin> set validMonths then []
         else concat (map (\<lambda>h. map (\<lambda>m. set_hours z h m day) validMinutes) validHours))"

definition nextCronMatch :: "zone \<Rightarrow> int \<Rightarrow> string \<Rightarrow> int option result" where
  "nextCronMatch z now e =
     (case assertCronExpression e of Throw err \<Rightarrow> Throw err
      | Return _ \<Rightarrow>
        if extractValidValues (cron_field e 0) 0 59 = [] \<or> extractValidValues (cron_field e 1) 0 23 = [] then Return None
        else let startOfDay = set_hours z 0 0 now
             in Return (find (\<lambda>t. now < t)
                  (concat (map (\<lambda>off. day_candidates z e (add_days z (int off) startOfDay)) [0..<Suc MAX_LOOKAHEAD_DAYS]))))"

subsection \<open>Triggers\<close>

datatype trigger_type = Interval | Daily | Weekly | Startup

record trigger =
  tg_type :: trigger_type
  tg_intervalMinutes :: "int option"
  tg_timeOfDay :: "string option"
  tg_dayOfWeek :: "int option"

text \<open>The arithmetic of \<^verbatim>\<open>Date\<close> drops the fraction of a number.\<close>

definition truncated :: "decimal \<Rightarrow> int" where
  "truncated d = (let r = dec_rat d in if r < 0 then \<lceil>r\<rceil> else \<lfloor>r\<rfloor>)"

definition parseTimeOfDay :: "string \<Rightarrow> (int \<times> int) option" where
  "parseTimeOfDay s =
     (let ws = split_on CHR '':'' s;
          h = map_option truncated (js_number (ws ! 0));
          m = (if 1 < length ws then map_option truncated (js_number (ws ! 1)) else Some 0)
      in case (h, m) of (Some a, Some b) \<Rightarrow> Some (a, b) | _ \<Rightarrow> None)"

definition some_text :: "string option \<Rightarrow> bool" where
  "some_text v = (case v of None \<Rightarrow> False | Some s \<Rightarrow> s \<noteq> [])"

definition nextTriggerCandidate :: "zone \<Rightarrow> trigger \<Rightarrow> int \<Rightarrow> int option option" where
  "nextTriggerCandidate z tr now =
     (case tg_type tr of
        Interval \<Rightarrow>
          (case tg_intervalMinutes tr of None \<Rightarrow> None
           | Some n \<Rightarrow> if n \<le> 0 then None
               else Some (Some (((now div MINUTE) div n + 1) * n * MINUTE)))
      | Daily \<Rightarrow>
          if \<not> some_text (tg_timeOfDay tr) then None
          else (case parseTimeOfDay (the (tg_timeOfDay tr)) of None \<Rightarrow> Some None
            | Some (h, m) \<Rightarrow>
               (let candidate = set_hours z h m now
                in Some (Some (if candidate \<le> now then add_days z 1 candidate else candidate))))
      | Weekly \<Rightarrow>
          if \<not> some_text (tg_timeOfDay tr) \<or> tg_dayOfWeek tr = None then None
          else (case parseTimeOfDay (the (tg_timeOfDay tr)) of None \<Rightarrow> None
            | Some (h, m) \<Rightarrow>
               map_option Some
                 (find (\<lambda>c. now < c \<and> Some (weekday_of (local_day z c)) = tg_dayOfWeek tr)
                   (map (\<lambda>off. set_hours z h m (add_days z (int off) now)) [0..<8])))
      | Startup \<Rightarrow> None)"

definition earliest :: "int option list \<Rightarrow> int option" where
  "earliest ds = (if None \<in> set ds then None else Some (Min (the ` set ds)))"

definition computeNextRunAt :: "zone \<Rightarrow> trigger list \<Rightarrow> string option \<Rightarrow> int \<Rightarrow> int option option result" where
  "computeNextRunAt z triggers cron now =
     (let candidates = List.map_filter (\<lambda>tr. nextTriggerCandidate z tr now) triggers in
      case (if some_text cron then nextCronMatch z now (the cron) else Return None) of
        Throw err \<Rightarrow> Throw err
      | Return cronMatch \<Rightarrow>
         (let cs = candidates @ (case cronMatch of None \<Rightarrow> [] | Some t \<Rightarrow> [Some t])
          in Return (if cs = [] then None else Some (earliest cs))))"

end
