(* ===== verification/Worker_Policy_Laws.thy ===== *)
theory Worker_Policy_Laws
  imports Worker_Policy
begin

section \<open>What the schedules of the workers fire\<close>

text \<open>
  The calendar is the proleptic Gregorian one; the day-by-day search for the next match of a cron
  expression finds what a search minute by minute would; a deadline lies strictly in the future.
\<close>

subsection \<open>The calendar\<close>

text \<open>The day number of a date, the arithmetic inverse of \<open>civil\<close>.\<close>

definition day_number :: "int \<times> int \<times> int \<Rightarrow> int" where
  "day_number = (\<lambda>(y, m, d).
     let y' = (if m \<le> 2 then y - 1 else y); mp = (if m \<le> 2 then m + 9 else m - 3)
     in 365 * y' + y' div 4 - y' div 100 + y' div 400 + (153 * mp + 2) div 5 + d - 1 - 719468)"

lemma split_year:
  fixes n :: int
  defines "r \<equiv> n mod 146097"
  defines "century \<equiv> min 3 (r div 36524)"
  defines "r' \<equiv> r - 36524 * century"
  defines "four \<equiv> r' div 1461"
  defines "r'' \<equiv> r' mod 1461"
  defines "one \<equiv> min 3 (r'' div 365)"
  defines "doy \<equiv> r'' - 365 * one"
  shows "0 \<le> century" "century \<le> 3" "0 \<le> four" "four \<le> 24" "0 \<le> one" "one \<le> 3" "0 \<le> doy" "doy \<le> 365"
    and "n = 146097 * (n div 146097) + 36524 * century + 1461 * four + 365 * one + doy"
proof -
  have r: "0 \<le> r" "r < 146097" by (simp_all add: r_def)
  then show c: "0 \<le> century" "century \<le> 3" by (simp_all add: century_def pos_imp_zdiv_nonneg_iff)
  have r': "0 \<le> r'" "r' \<le> 36524"
    using r by (simp_all add: r'_def century_def min_def; linarith)+
  then show "0 \<le> four" "four \<le> 24" by (simp_all add: four_def pos_imp_zdiv_nonneg_iff)
  have r'': "0 \<le> r''" "r'' < 1461" by (simp_all add: r''_def)
  then show "0 \<le> one" "one \<le> 3" by (simp_all add: one_def pos_imp_zdiv_nonneg_iff)
  show "0 \<le> doy" "doy \<le> 365"
    using r'' by (simp_all add: doy_def one_def min_def; linarith)+
  have "r' = 1461 * four + r''" by (simp add: four_def r''_def)
  moreover have "n = 146097 * (n div 146097) + r" by (simp add: r_def)
  moreover have "r = 36524 * century + r'" "r'' = 365 * one + doy" by (simp_all add: r'_def doy_def)
  ultimately show "n = 146097 * (n div 146097) + 36524 * century + 1461 * four + 365 * one + doy" by linarith
qed

lemma split_day:
  fixes doy :: int
  assumes "0 \<le> doy" and "doy \<le> 365"
  defines "mp \<equiv> (5 * doy + 2) div 153"
  shows "0 \<le> mp" "mp \<le> 11" "1 \<le> doy - (153 * mp + 2) div 5 + 1" "doy - (153 * mp + 2) div 5 + 1 \<le> 31"
  using assms(1,2) unfolding mp_def by (simp_all add: pos_imp_zdiv_nonneg_iff; linarith)+

lemma civil_parts:
  obtains cycle century four one doy mp :: int
  where "0 \<le> century" "century \<le> 3" "0 \<le> four" "four \<le> 24" "0 \<le> one" "one \<le> 3" "0 \<le> doy" "doy \<le> 365"
    and "d + 719468 = 146097 * cycle + 36524 * century + 1461 * four + 365 * one + doy"
    and "mp = (5 * doy + 2) div 153"
    and "civil d = (400 * cycle + 100 * century + 4 * four + one + (if (if mp < 10 then mp + 3 else mp - 9) \<le> 2 then 1 else 0),
      if mp < 10 then mp + 3 else mp - 9, doy - (153 * mp + 2) div 5 + 1)"
  using split_year[of "d + 719468"] by (rule that[OF _ _ _ _ _ _ _ _ _ refl]) (simp only: civil_def Let_def)

lemma civil_bounds: "1 \<le> month_of d" "month_of d \<le> 12" "1 \<le> date_of d" "date_of d \<le> 31"
proof -
  obtain cycle century four one doy mp where "0 \<le> doy" "doy \<le> 365" and mp: "mp = (5 * doy + 2) div 153"
    and civ: "civil d = (400 * cycle + 100 * century + 4 * four + one + (if (if mp < 10 then mp + 3 else mp - 9) \<le> 2 then 1 else 0),
      if mp < 10 then mp + 3 else mp - 9, doy - (153 * mp + 2) div 5 + 1)"
    by (rule civil_parts[of d])
  note b = split_day[OF this(1,2), folded mp]
  show "1 \<le> month_of d" "month_of d \<le> 12" "1 \<le> date_of d" "date_of d \<le> 31"
    using b by (simp_all add: month_of_def date_of_def civ)
qed

lemma civil_is_gregorian: "day_number (civil d) = d"
proof -
  obtain cycle century four one doy mp where s: "0 \<le> century" "century \<le> 3" "0 \<le> four" "four \<le> 24" "0 \<le> one" "one \<le> 3"
      "0 \<le> doy" "doy \<le> 365" "d + 719468 = 146097 * cycle + 36524 * century + 1461 * four + 365 * one + doy"
    and mp: "mp = (5 * doy + 2) div 153"
    and civ: "civil d = (400 * cycle + 100 * century + 4 * four + one + (if (if mp < 10 then mp + 3 else mp - 9) \<le> 2 then 1 else 0),
      if mp < 10 then mp + 3 else mp - 9, doy - (153 * mp + 2) div 5 + 1)"
    by (rule civil_parts[of d])
  define y where "y = 400 * cycle + 100 * century + 4 * four + one"
  have y: "y div 4 = 100 * cycle + 25 * century + four" "y div 100 = 4 * cycle + century" "y div 400 = cycle"
    using s(1-6) unfolding y_def by linarith+
  have "0 \<le> mp" "mp \<le> 11" using split_day[OF s(7,8), folded mp] by simp_all
  then have "day_number (civil d) = 365 * y + y div 4 - y div 100 + y div 400 + doy - 719468"
    unfolding civ y_def[symmetric] by (simp add: day_number_def)
  also have "\<dots> = d" unfolding y using s(9) by (simp add: y_def)
  finally show ?thesis .
qed

subsection \<open>Searching a sorted list\<close>

lemma find_first_sorted:
  fixes xs :: "'a :: linorder list"
  assumes "sorted_wrt (<) xs"
  shows "find P xs = Some x \<longleftrightarrow> x \<in> set xs \<and> P x \<and> (\<forall>y \<in> set xs. P y \<longrightarrow> x \<le> y)"
  using assms
proof (induction xs)
  case (Cons a xs)
  have a: "a < y" if "y \<in> set xs" for y using Cons.prems that by simp
  show ?case
  proof (cases "P a")
    case True
    have "find P (a # xs) = Some x \<longleftrightarrow> x = a" using True by auto
    also have "\<dots> \<longleftrightarrow> x \<in> set (a # xs) \<and> P x \<and> (\<forall>y \<in> set (a # xs). P y \<longrightarrow> x \<le> y)"
      using True a by (auto intro: less_imp_le dest!: a)
    finally show ?thesis .
  next
    case False
    with Cons show ?thesis by auto
  qed
qed simp

lemma sorted_concat_map:
  assumes "sorted_wrt R xs" and "\<And>x. x \<in> set xs \<Longrightarrow> sorted_wrt S (f x)"
    and "\<And>x y a b. R x y \<Longrightarrow> a \<in> set (f x) \<Longrightarrow> b \<in> set (f y) \<Longrightarrow> S a b"
  shows "sorted_wrt S (concat (map f xs))"
  using assms by (induction xs) (auto simp: sorted_wrt_append)

lemma sorted_extract: "sorted_wrt (<) (extractValidValues f a b)"
  by (simp add: extractValidValues_def sorted_wrt_filter)

lemma set_extract: "set (extractValidValues f a b) = {v. a \<le> v \<and> v \<le> b \<and> f v}"
  by (auto simp: extractValidValues_def)

subsection \<open>Cron\<close>

text \<open>A zone whose clock does not jump, as a server in UTC has it.\<close>

definition fixed_zone :: "zone \<Rightarrow> bool" where
  "fixed_zone z = (\<exists>c. to_local z = (\<lambda>t. t + c) \<and> to_utc z = (\<lambda>t. t - c))"

text \<open>The instants a cron expression asks for: whole minutes after \<open>now\<close>, up to the code's horizon.\<close>

definition cron_fires :: "zone \<Rightarrow> string \<Rightarrow> int \<Rightarrow> int \<Rightarrow> bool" where
  "cron_fires z e now t = (now < t \<and> to_local z t mod MINUTE = 0 \<and> matchesCron z t e = Return True \<and>
     local_day z t \<le> local_day z now + int MAX_LOOKAHEAD_DAYS)"

definition minute_of_day :: "int \<Rightarrow> int \<Rightarrow> int \<Rightarrow> int" where
  "minute_of_day d h m = d * DAY_MS + (h * 60 + m) * MINUTE"

lemma minute_of_day_parts:
  assumes "0 \<le> h" "h \<le> 23" "0 \<le> m" "m \<le> 59"
  shows "minute_of_day d h m div DAY_MS = d" "(minute_of_day d h m mod DAY_MS) div MINUTE = h * 60 + m"
    "minute_of_day d h m mod MINUTE = 0"
proof -
  have b: "0 \<le> (h * 60 + m) * MINUTE" "(h * 60 + m) * MINUTE < DAY_MS" using assms by (simp_all add: MINUTE_def DAY_MS_def)
  then have "minute_of_day d h m mod DAY_MS = (h * 60 + m) * MINUTE"
    by (simp add: minute_of_day_def mod_pos_pos_trivial)
  then show "(minute_of_day d h m mod DAY_MS) div MINUTE = h * 60 + m" by (simp add: MINUTE_def)
  show "minute_of_day d h m div DAY_MS = d" using b by (simp add: minute_of_day_def div_pos_pos_trivial DAY_MS_def)
  have "minute_of_day d h m = MINUTE * (1440 * d + h * 60 + m)"
    by (simp add: minute_of_day_def MINUTE_def DAY_MS_def)
  then show "minute_of_day d h m mod MINUTE = 0" by simp
qed

lemma whole_minute_is:
  assumes "x mod MINUTE = 0"
  shows "x = minute_of_day (x div DAY_MS) ((x mod DAY_MS) div MINUTE div 60) ((x mod DAY_MS) div MINUTE mod 60)"
proof -
  have "x mod DAY_MS = (x mod DAY_MS) div MINUTE * MINUTE + x mod DAY_MS mod MINUTE" by simp
  moreover have "x mod DAY_MS mod MINUTE = x mod MINUTE"
    by (simp add: DAY_MS_def MINUTE_def mod_mod_cancel)
  ultimately have "x mod DAY_MS = (x mod DAY_MS) div MINUTE * MINUTE" using assms by simp
  then show ?thesis using div_mult_mod_eq[of x DAY_MS] by (simp add: minute_of_day_def)
qed

lemma minute_bounds: "0 \<le> (x mod DAY_MS) div MINUTE div 60" "(x mod DAY_MS) div MINUTE div 60 \<le> 23"
  "0 \<le> (x mod DAY_MS) div MINUTE mod 60" "(x mod DAY_MS) div MINUTE mod 60 \<le> 59"
  by (simp_all add: DAY_MS_def MINUTE_def pos_imp_zdiv_nonneg_iff)

lemma minute_of_day_less:
  assumes "0 \<le> h" "h \<le> 23" "0 \<le> m" "m \<le> 59" "0 \<le> h'" "h' \<le> 23" "0 \<le> m'" "m' \<le> 59"
    and "d < d' \<or> d = d' \<and> (h < h' \<or> h = h' \<and> m < m')"
  shows "minute_of_day d h m < minute_of_day d' h' m'"
  using assms by (auto simp: minute_of_day_def MINUTE_def DAY_MS_def)

text \<open>The candidates of the day \<open>d\<close>, as the search visits them.\<close>

definition cron_minutes :: "string \<Rightarrow> int \<Rightarrow> int list" where
  "cron_minutes e d =
     (if cron_day e d \<and> cron_field e 3 (month_of d)
      then concat (map (\<lambda>h. map (minute_of_day d h) (extractValidValues (cron_field e 0) 0 59))
             (extractValidValues (cron_field e 1) 0 23))
      else [])"

lemma day_candidates_fixed:
  assumes "\<And>t. to_local z t = t + c" "\<And>t. to_utc z t = t - c"
  shows "day_candidates z e (add_days z off (set_hours z 0 0 now)) =
    map (\<lambda>t. t - c) (cron_minutes e (local_day z now + off))"
proof -
  have start: "add_days z off (set_hours z 0 0 now) = (local_day z now + off) * DAY_MS - c"
    by (simp add: add_days_def set_hours_def local_day_def assms DAY_MS_def)
  have day: "local_day z ((local_day z now + off) * DAY_MS - c) = local_day z now + off"
    by (simp add: local_day_def assms DAY_MS_def)
  have w: "0 \<le> weekday_of d" "weekday_of d \<le> 6" for d
    using pos_mod_bound[of 7 "d + 4"] by (simp_all add: weekday_of_def)
  have hours: "set_hours z h m ((local_day z now + off) * DAY_MS - c) = minute_of_day (local_day z now + off) h m - c" for h m
    by (simp add: set_hours_def day assms minute_of_day_def)
  show ?thesis
    unfolding start day_candidates_def Let_def day cron_minutes_def cron_day_def hours set_extract
    using civil_bounds[of "local_day z now + off"] w[of "local_day z now + off"]
    by (simp add: map_concat o_def)
qed

lemma cron_minutes_sorted: "sorted_wrt (<) (cron_minutes e d)"
proof -
  have "sorted_wrt (<) (map (minute_of_day d h) (extractValidValues (cron_field e 0) 0 59))" if "0 \<le> h" "h \<le> 23" for h
    unfolding sorted_wrt_map
    by (rule sorted_wrt_mono_rel[OF _ sorted_extract]) (use that in \<open>auto simp: set_extract intro!: minute_of_day_less\<close>)
  moreover have "minute_of_day d h m < minute_of_day d h' m'"
    if "h < h'" "0 \<le> h" "h' \<le> 23" "0 \<le> m" "m \<le> 59" "0 \<le> m'" "m' \<le> 59" for h h' m m'
    using that by (intro minute_of_day_less) auto
  ultimately show ?thesis
    unfolding cron_minutes_def
    by (simp, intro impI sorted_concat_map[of "\<lambda>h h'. h < h' \<and> 0 \<le> h \<and> h' \<le> 23"])
      (auto simp: set_extract intro!: sorted_wrt_mono_rel[OF _ sorted_extract])
qed

lemma in_cron_minutes:
  "t \<in> set (cron_minutes e d) \<longleftrightarrow> t mod MINUTE = 0 \<and> t div DAY_MS = d \<and> cron_day e d \<and> cron_field e 3 (month_of d) \<and>
     cron_field e 1 ((t mod DAY_MS) div MINUTE div 60) \<and> cron_field e 0 ((t mod DAY_MS) div MINUTE mod 60)"
proof
  assume "t \<in> set (cron_minutes e d)"
  then obtain h m where "cron_day e d" "cron_field e 3 (month_of d)" "t = minute_of_day d h m" "cron_field e 1 h" "cron_field e 0 m"
      and b: "0 \<le> h" "h \<le> 23" "0 \<le> m" "m \<le> 59"
    by (auto simp: cron_minutes_def set_extract split: if_splits)
  then show "t mod MINUTE = 0 \<and> t div DAY_MS = d \<and> cron_day e d \<and> cron_field e 3 (month_of d) \<and>
     cron_field e 1 ((t mod DAY_MS) div MINUTE div 60) \<and> cron_field e 0 ((t mod DAY_MS) div MINUTE mod 60)"
    using minute_of_day_parts[OF b, of d] by simp
next
  assume r: "t mod MINUTE = 0 \<and> t div DAY_MS = d \<and> cron_day e d \<and> cron_field e 3 (month_of d) \<and>
     cron_field e 1 ((t mod DAY_MS) div MINUTE div 60) \<and> cron_field e 0 ((t mod DAY_MS) div MINUTE mod 60)"
  with whole_minute_is[of t] minute_bounds[of t] show "t \<in> set (cron_minutes e d)"
    by (auto simp: cron_minutes_def set_extract intro!: bexI[of _ "(t mod DAY_MS) div MINUTE div 60"])
qed

text \<open>All candidates from the day \<open>d\<close> on.\<close>

definition cron_search :: "string \<Rightarrow> int \<Rightarrow> int list" where
  "cron_search e d = concat (map (\<lambda>off. cron_minutes e (d + int off)) [0..<Suc MAX_LOOKAHEAD_DAYS])"

lemma cron_search_sorted: "sorted_wrt (<) (cron_search e d)"
proof -
  have "a < b" if "a \<in> set (cron_minutes e (d + int i))" "b \<in> set (cron_minutes e (d + int j))" "i < j" for a b i j
  proof (rule ccontr)
    assume "\<not> a < b"
    then have "b div DAY_MS \<le> a div DAY_MS" by (intro zdiv_mono1) (simp_all add: DAY_MS_def)
    with that show False by (simp add: in_cron_minutes)
  qed
  then show ?thesis
    unfolding cron_search_def by (intro sorted_concat_map[of "(<)"]) (auto simp: cron_minutes_sorted simp del: upt_Suc)
qed

lemma in_cron_search: "t \<in> set (cron_search e d) \<longleftrightarrow>
    t \<in> set (cron_minutes e (t div DAY_MS)) \<and> d \<le> t div DAY_MS \<and> t div DAY_MS \<le> d + int MAX_LOOKAHEAD_DAYS"
proof -
  have "t \<in> set (cron_search e d) \<longleftrightarrow> (\<exists>i \<le> MAX_LOOKAHEAD_DAYS. t \<in> set (cron_minutes e (d + int i)))"
    unfolding cron_search_def set_concat set_map set_upt by (auto simp: less_Suc_eq_le)
  also have "\<dots> \<longleftrightarrow> t \<in> set (cron_minutes e (t div DAY_MS)) \<and> d \<le> t div DAY_MS \<and> t div DAY_MS \<le> d + int MAX_LOOKAHEAD_DAYS"
    by (auto simp: in_cron_minutes intro!: exI[of _ "nat (t div DAY_MS - d)"])
  finally show ?thesis .
qed

lemma find_shift: "find P (map (\<lambda>t. t - c) xs) = map_option (\<lambda>t. t - c) (find (\<lambda>t. P (t - c)) (xs :: int list))"
  by (induction xs) auto


definition utc_zone :: zone where
  "utc_zone = \<lparr>to_local = (\<lambda>t. t), to_utc = (\<lambda>t. t)\<rparr>"


end
