(* ===== verification/Worker_Pool.thy ===== *)
theory Worker_Pool
  imports Worker_Jobs Worker_Policy
begin

section \<open>The execution pool of the workers\<close>

text \<open>
  \<^verbatim>\<open>workers/core/worker-pool.service.ts\<close>: the executions of the claimed jobs, their slots, their
  two timers and the row their end writes. An execution is named by its place in \<open>pl_execs\<close>, the
  list of all executions ever started; \<open>pl_running\<close> maps a job to the execution that holds its slot.
  A timer is a flag: it is armed. An execution waits three times: for its handler (\<open>Handling\<close>), for
  the write of its outcome (\<open>Writing\<close>) and, for no time of its own, before its \<^verbatim>\<open>finally\<close> block
  (\<open>Closing\<close>); whatever else happens comes between these steps. The handler is the job's own code:
  its result is the argument of \<open>settle_handler\<close>, and it may never end. The bookkeeping of the schedule rows
  is the log \<open>pl_recorded\<close>; messages to the clients are left out. What a handler calls before its
  first wait finds its execution not yet registered and is ignored by the code.
\<close>

datatype abort_reason = Abort_cancel | Abort_rescue | Abort_shutdown | Abort_timeout

text \<open>The calls of the repository an execution ends with.\<close>

datatype outcome =
    Out_complete string
  | Out_retry int string
  | Out_fail string
  | Out_requeue string
  | Out_cancel

text \<open>\<open>Writing out again\<close>: \<open>again\<close> says that the write stands in the \<^verbatim>\<open>try\<close> block, so an error of it is handled as a failure of the task.\<close>

datatype exec_phase = Handling | Writing outcome bool | Closing | Over

record execution =
  ex_workerId :: string
  ex_item :: job
  ex_timeoutTimer :: bool
  ex_graceTimer :: bool
  ex_reason :: "abort_reason option"
  ex_aborted :: bool
  ex_lastProgressWriteAt :: "int option"
  ex_phase :: exec_phase
  ex_abandoned :: "outcome option"

record pool =
  pl_running :: "(job_id, nat) jsmap"
  pl_counts :: "(string, nat) jsmap"
  pl_execs :: "execution list"
  pl_runnerId :: string
  pl_freed :: "nat list"
  pl_recorded :: "(string \<times> job_status) list"

definition empty_pool :: "string \<Rightarrow> pool" where
  "empty_pool runner = \<lparr>pl_running = [], pl_counts = [], pl_execs = [], pl_runnerId = runner, pl_freed = [], pl_recorded = []\<rparr>"

definition PROGRESS_WRITE_MIN_INTERVAL_MS :: int where
  "PROGRESS_WRITE_MIN_INTERVAL_MS = 1000"

definition update_exec :: "nat \<Rightarrow> (execution \<Rightarrow> execution) \<Rightarrow> pool \<Rightarrow> pool" where
  "update_exec e f p = p\<lparr>pl_execs := (pl_execs p)[e := f (pl_execs p ! e)]\<rparr>"

subsection \<open>Slots\<close>

definition totalRunningCount :: "pool \<Rightarrow> nat" where
  "totalRunningCount p = length (pl_running p)"

definition runningCountFor :: "string \<Rightarrow> pool \<Rightarrow> nat" where
  "runningCountFor w p = (case map_of (pl_counts p) w of None \<Rightarrow> 0 | Some n \<Rightarrow> n)"

definition getRunningCounts :: "pool \<Rightarrow> (string, nat) jsmap" where
  "getRunningCounts p = filter (\<lambda>(w, n). 0 < n) (pl_counts p)"

definition getActiveJobIds :: "pool \<Rightarrow> job_id list" where
  "getActiveJobIds p = map fst (pl_running p)"

definition startExecution :: "string \<Rightarrow> job \<Rightarrow> pool \<Rightarrow> pool" where
  "startExecution w item p =
     (let e = length (pl_execs p);
          exec = \<lparr>ex_workerId = w, ex_item = item, ex_timeoutTimer = True, ex_graceTimer = False, ex_reason = None,
                  ex_aborted = False, ex_lastProgressWriteAt = None, ex_phase = Handling, ex_abandoned = None\<rparr>
      in p\<lparr>pl_execs := pl_execs p @ [exec],
           pl_running := AList.update (job_id item) e (pl_running p),
           pl_counts := AList.update w (runningCountFor w p + 1) (pl_counts p)\<rparr>)"

definition releaseSlot :: "nat \<Rightarrow> pool \<Rightarrow> pool" where
  "releaseSlot e p =
     (let exec = pl_execs p ! e; i = job_id (ex_item exec); w = ex_workerId exec in
      if map_of (pl_running p) i = Some e
      then p\<lparr>pl_running := AList.delete i (pl_running p),
             pl_counts := (case map_of (pl_counts p) w of None \<Rightarrow> pl_counts p
               | Some cur \<Rightarrow> if cur \<le> 1 then AList.delete w (pl_counts p) else AList.update w (cur - 1) (pl_counts p)),
             pl_freed := pl_freed p @ [e]\<rparr>
      else p)"

subsection \<open>Timers and aborts\<close>

definition armTimeout :: "execution \<Rightarrow> execution" where
  "armTimeout exec = exec\<lparr>ex_timeoutTimer := True\<rparr>"

definition clearTimers :: "execution \<Rightarrow> execution" where
  "clearTimers exec = exec\<lparr>ex_timeoutTimer := False, ex_graceTimer := False\<rparr>"

definition abortExecution :: "abort_reason \<Rightarrow> execution \<Rightarrow> execution" where
  "abortExecution reason exec = (clearTimers exec)\<lparr>ex_reason := Some reason, ex_aborted := True, ex_graceTimer := True\<rparr>"

definition extendTimeout :: "job_id \<Rightarrow> int \<Rightarrow> pool \<Rightarrow> pool" where
  "extendTimeout i additionalMs p =
     (if \<not> 0 < additionalMs then p
      else case map_of (pl_running p) i of None \<Rightarrow> p | Some e \<Rightarrow> update_exec e armTimeout p)"

text \<open>The handler's own access to it.\<close>

definition context_extendTimeout :: "nat \<Rightarrow> int \<Rightarrow> pool \<Rightarrow> pool" where
  "context_extendTimeout e additionalMs p =
     (let i = job_id (ex_item (pl_execs p ! e)) in
      if map_of (pl_running p) i = Some e then extendTimeout i additionalMs p else p)"

definition cancelExecution :: "job_id \<Rightarrow> pool \<Rightarrow> pool \<times> bool" where
  "cancelExecution i p =
     (case map_of (pl_running p) i of None \<Rightarrow> (p, False)
      | Some e \<Rightarrow> (update_exec e (abortExecution Abort_cancel) p, True))"

definition abort_all :: "(execution \<Rightarrow> bool) \<Rightarrow> abort_reason \<Rightarrow> pool \<Rightarrow> pool \<times> nat" where
  "abort_all chosen reason p =
     (let es = filter (\<lambda>e. chosen (pl_execs p ! e)) (map snd (pl_running p))
      in (fold (\<lambda>e. update_exec e (abortExecution reason)) es p, length es))"

definition cancelAllForWorker :: "string \<Rightarrow> bool \<Rightarrow> pool \<Rightarrow> pool \<times> nat" where
  "cancelAllForWorker w requeue p = abort_all (\<lambda>exec. ex_workerId exec = w) (if requeue then Abort_rescue else Abort_cancel) p"

definition requeueAllForWorker :: "string \<Rightarrow> pool \<Rightarrow> pool \<times> nat" where
  "requeueAllForWorker w p = cancelAllForWorker w True p"

definition cancelAllExecutions :: "pool \<Rightarrow> pool" where
  "cancelAllExecutions p = fst (abort_all (\<lambda>_. True) Abort_shutdown p)"

text \<open>The timeout fires.\<close>

definition fire_timeout :: "nat \<Rightarrow> pool \<Rightarrow> pool" where
  "fire_timeout e p = update_exec e (\<lambda>exec. abortExecution Abort_timeout (exec\<lparr>ex_timeoutTimer := False\<rparr>)) p"

definition finalizeAbandonedExecution :: "execution \<Rightarrow> outcome option" where
  "finalizeAbandonedExecution exec =
     (case ex_reason exec of
        Some Abort_cancel \<Rightarrow> Some Out_cancel
      | Some Abort_timeout \<Rightarrow> Some (Out_fail ''Execution timed out and did not stop after the grace period'')
      | Some Abort_rescue \<Rightarrow> Some (Out_requeue ''Requeued after rescue force-release'')
      | Some Abort_shutdown \<Rightarrow> Some (Out_requeue ''Requeued after shutdown force-release'')
      | None \<Rightarrow> None)"

text \<open>The grace timer of \<^verbatim>\<open>scheduleForceRelease\<close> fires.\<close>

definition fire_grace :: "nat \<Rightarrow> pool \<Rightarrow> pool" where
  "fire_grace e p =
     (let p1 = update_exec e (\<lambda>exec. exec\<lparr>ex_graceTimer := False\<rparr>) p; exec = pl_execs p1 ! e in
      if map_of (pl_running p1) (job_id (ex_item exec)) \<noteq> Some e then p1
      else update_exec e (\<lambda>exec. exec\<lparr>ex_abandoned := finalizeAbandonedExecution exec\<rparr>) (releaseSlot e p1))"

subsection \<open>The end of a handler\<close>

definition reason_name :: "abort_reason \<Rightarrow> string" where
  "reason_name r = (case r of Abort_cancel \<Rightarrow> ''cancel'' | Abort_rescue \<Rightarrow> ''rescue'' | Abort_shutdown \<Rightarrow> ''shutdown''
     | Abort_timeout \<Rightarrow> ''timeout'')"

text \<open>\<open>None\<close>: the caller goes on with its own branches.\<close>

definition handleAbortAfterCompletion :: "execution \<Rightarrow> string option \<Rightarrow> outcome option" where
  "handleAbortAfterCompletion exec errorMsg =
     (case ex_reason exec of None \<Rightarrow> None
      | Some reason \<Rightarrow>
          if ex_aborted exec \<and> (reason = Abort_rescue \<or> reason = Abort_shutdown)
          then Some (Out_requeue (case errorMsg of
              None \<Rightarrow> ''Requeued by '' @ reason_name reason
            | Some m \<Rightarrow> if m = [] then ''Requeued by '' @ reason_name reason
                        else ''Requeued by '' @ reason_name reason @ '': '' @ m))
          else if ex_aborted exec \<and> reason = Abort_cancel then Some Out_cancel
          else None)"

definition handleTaskSuccess :: "execution \<Rightarrow> string \<Rightarrow> outcome" where
  "handleTaskSuccess exec result_text =
     (case handleAbortAfterCompletion exec None of Some out \<Rightarrow> out | None \<Rightarrow> Out_complete result_text)"

definition handleTaskFailure :: "int \<Rightarrow> execution \<Rightarrow> string \<Rightarrow> outcome" where
  "handleTaskFailure now exec errorMsg =
     (case handleAbortAfterCompletion exec (Some errorMsg) of Some out \<Rightarrow> out
      | None \<Rightarrow>
         (let item = ex_item exec in
          if attempts item < maxAttempts item
          then Out_retry (now + getRetryDelay (attempts item) (backoffType item) (backoffDelayMs item)) errorMsg
          else Out_fail errorMsg))"

text \<open>The handler resolves with the text of its result, or it rejects with an error.\<close>

definition settle_handler :: "int \<Rightarrow> string + string \<Rightarrow> execution \<Rightarrow> execution" where
  "settle_handler now answer exec =
     exec\<lparr>ex_phase := (case answer of
        Inr result_text \<Rightarrow> Writing (handleTaskSuccess exec result_text) True
      | Inl errorMsg \<Rightarrow> Writing (handleTaskFailure now exec errorMsg) False)\<rparr>"

text \<open>The repository call of an outcome.\<close>

definition perform :: "int \<Rightarrow> string \<Rightarrow> job \<Rightarrow> outcome \<Rightarrow> worker_db \<Rightarrow> (bool \<times> worker_db) option" where
  "perform now runner item out db =
     (case out of
        Out_complete res \<Rightarrow> complete now (job_id item) runner res (claimToken item) db
      | Out_retry t msg \<Rightarrow> retry now (job_id item) runner t msg (claimToken item) db
      | Out_fail msg \<Rightarrow> fail now (job_id item) runner msg (claimToken item) db
      | Out_requeue msg \<Rightarrow> requeueRunning now (job_id item) runner msg (claimToken item) db
      | Out_cancel \<Rightarrow> cancelRunning now (job_id item) (claimToken item) db)"

text \<open>
  \<^verbatim>\<open>recordScheduleExecution\<close>: a completion is recorded after its write, a failure or a
  cancellation beside it.
\<close>

definition recordScheduleExecution :: "execution \<Rightarrow> outcome \<Rightarrow> bool \<Rightarrow> pool \<Rightarrow> pool" where
  "recordScheduleExecution exec out written p =
     (case (case out of Out_complete _ \<Rightarrow> if written then Some Completed else None
        | Out_fail _ \<Rightarrow> Some Failed | Out_cancel \<Rightarrow> Some Cancelled | _ \<Rightarrow> None) of
        None \<Rightarrow> p | Some st \<Rightarrow> p\<lparr>pl_recorded := pl_recorded p @ [(workerId (ex_item exec), st)]\<rparr>)"

text \<open>The write of an outcome has ended, \<open>written\<close> or with the error \<open>errorMsg\<close>.\<close>

definition write_ended :: "int \<Rightarrow> nat \<Rightarrow> bool \<Rightarrow> string \<Rightarrow> pool \<Rightarrow> pool" where
  "write_ended now e written errorMsg p =
     (case ex_phase (pl_execs p ! e) of
        Writing out again \<Rightarrow>
          update_exec e (\<lambda>exec. exec\<lparr>ex_phase :=
              (if \<not> written \<and> again then Writing (handleTaskFailure now exec errorMsg) False else Closing)\<rparr>)
            (recordScheduleExecution (pl_execs p ! e) out written p)
      | _ \<Rightarrow> p)"

text \<open>The \<^verbatim>\<open>finally\<close> block of \<^verbatim>\<open>runExecution\<close>.\<close>

definition close_execution :: "nat \<Rightarrow> pool \<Rightarrow> pool" where
  "close_execution e p = releaseSlot e (update_exec e (\<lambda>exec. (clearTimers exec)\<lparr>ex_phase := Over\<rparr>) p)"

definition abandoned_ended :: "nat \<Rightarrow> pool \<Rightarrow> pool" where
  "abandoned_ended e p = update_exec e (\<lambda>exec. exec\<lparr>ex_abandoned := None\<rparr>) p"

text \<open>\<^verbatim>\<open>updateProgress\<close> of the handler's context; \<open>True\<close>: the row is written.\<close>

definition context_updateProgress :: "int \<Rightarrow> rat \<Rightarrow> execution \<Rightarrow> bool \<times> execution" where
  "context_updateProgress now percent exec =
     (if percent < 100 \<and> now - (case ex_lastProgressWriteAt exec of None \<Rightarrow> 0 | Some t \<Rightarrow> t) < PROGRESS_WRITE_MIN_INTERVAL_MS
      then (False, exec)
      else (True, exec\<lparr>ex_lastProgressWriteAt := Some now\<rparr>))"

end
