(* ===== verification/Worker_Pool_Safety.thy ===== *)
theory Worker_Pool_Safety
  imports Worker_Pool Queue_Laws Settling
begin

section \<open>The pool and the queue together\<close>

text \<open>
  The runs of the pool against the job tables. An internal step is one the runtime takes by itself:
  a timer fires, a write ends, a \<^verbatim>\<open>finally\<close> block runs. An external event is everything else: a
  poll claims jobs and starts them, a handler answers or calls its context, an administrator cancels,
  another part of the server changes the queue. Slots are counted exactly, they are always given back
  even if a handler never ends, and a claim is settled at most once, whatever the order.
\<close>

record worker_system =
  ws_slots :: "operation_id \<Rightarrow> int"
  ws_db :: worker_db
  ws_pool :: pool
  ws_outcomes :: "(nat \<times> outcome) list"

text \<open>The claims the tables show: a job with its token. Tokens are random, a new one was never used.\<close>

definition claims :: "worker_db \<Rightarrow> (job_id \<times> nat) set" where
  "claims db = {(job_id r, t) | r t. r \<in> set (jobs db) \<and> claimToken r = Some t}"

definition used_tokens :: "pool \<Rightarrow> nat set" where
  "used_tokens p = {t. \<exists>exec \<in> set (pl_execs p). claimToken (ex_item exec) = Some t}"

abbreviation exec_of :: "nat \<Rightarrow> worker_system \<Rightarrow> execution" where
  "exec_of e s \<equiv> pl_execs (ws_pool s) ! e"

abbreviation known :: "nat \<Rightarrow> worker_system \<Rightarrow> bool" where
  "known e s \<equiv> e < length (pl_execs (ws_pool s))"

text \<open>\<open>ws_outcomes\<close> logs the writes of the executions that changed a row.\<close>

inductive pool_internal :: "worker_system \<Rightarrow> worker_system \<Rightarrow> bool" where
  p_timeout: "known e s \<Longrightarrow> ex_timeoutTimer (exec_of e s) \<Longrightarrow> pool_internal s (s\<lparr>ws_pool := fire_timeout e (ws_pool s)\<rparr>)"
| p_grace: "known e s \<Longrightarrow> ex_graceTimer (exec_of e s) \<Longrightarrow> pool_internal s (s\<lparr>ws_pool := fire_grace e (ws_pool s)\<rparr>)"
| p_write: "known e s \<Longrightarrow> ex_phase (exec_of e s) = Writing out again \<Longrightarrow>
    perform now (pl_runnerId (ws_pool s)) (ex_item (exec_of e s)) out (ws_db s) = Some (b, db') \<Longrightarrow>
    pool_internal s (s\<lparr>ws_db := db', ws_pool := write_ended now e True [] (ws_pool s),
      ws_outcomes := (if b then ws_outcomes s @ [(e, out)] else ws_outcomes s)\<rparr>)"
| p_write_fails: "known e s \<Longrightarrow> ex_phase (exec_of e s) = Writing out again \<Longrightarrow>
    pool_internal s (s\<lparr>ws_pool := write_ended now e False msg (ws_pool s)\<rparr>)"
| p_close: "known e s \<Longrightarrow> ex_phase (exec_of e s) = Closing \<Longrightarrow> pool_internal s (s\<lparr>ws_pool := close_execution e (ws_pool s)\<rparr>)"
| p_abandon: "known e s \<Longrightarrow> ex_abandoned (exec_of e s) = Some out \<Longrightarrow>
    perform now (pl_runnerId (ws_pool s)) (ex_item (exec_of e s)) out (ws_db s) = Some (b, db') \<Longrightarrow>
    pool_internal s (s\<lparr>ws_db := db', ws_pool := abandoned_ended e (ws_pool s),
      ws_outcomes := (if b then ws_outcomes s @ [(e, out)] else ws_outcomes s)\<rparr>)"
| p_abandon_fails: "known e s \<Longrightarrow> ex_abandoned (exec_of e s) = Some out \<Longrightarrow>
    pool_internal s (s\<lparr>ws_pool := abandoned_ended e (ws_pool s)\<rparr>)"

inductive_cases pool_internalE: "pool_internal s s'"

text \<open>
  With \<open>strict\<close> a poll starts no job that still holds a slot; the polls exclude those jobs when they
  recover expired leases.
\<close>

inductive pool_external :: "bool \<Rightarrow> worker_system \<Rightarrow> worker_system \<Rightarrow> bool" for strict where
  x_poll: "claimNextBatch token clock input n (ws_db s) = Some (claimed, db') \<Longrightarrow>
    inj token \<Longrightarrow> range token \<inter> used_tokens (ws_pool s) = {} \<Longrightarrow>
    (strict \<Longrightarrow> set (map job_id claimed) \<inter> set (getActiveJobIds (ws_pool s)) = {}) \<Longrightarrow>
    pool_external strict s (s\<lparr>ws_db := db', ws_pool := fold (startExecution (cl_workerId input)) claimed (ws_pool s)\<rparr>)"
| x_queue: "queue_step (ws_slots s, ws_db s) (slots', db') \<Longrightarrow>
    snd ` (claims db' - claims (ws_db s)) \<inter> used_tokens (ws_pool s) = {} \<Longrightarrow>
    pool_external strict s (s\<lparr>ws_slots := slots', ws_db := db'\<rparr>)"
| x_settle: "known e s \<Longrightarrow> ex_phase (exec_of e s) = Handling \<Longrightarrow>
    pool_external strict s (s\<lparr>ws_pool := update_exec e (settle_handler now answer) (ws_pool s)\<rparr>)"
| x_extend: "known e s \<Longrightarrow> pool_external strict s (s\<lparr>ws_pool := context_extendTimeout e ms (ws_pool s)\<rparr>)"
| x_extend_job: "pool_external strict s (s\<lparr>ws_pool := extendTimeout i ms (ws_pool s)\<rparr>)"
| x_cancel: "pool_external strict s (s\<lparr>ws_pool := fst (cancelExecution i (ws_pool s))\<rparr>)"
| x_cancel_worker: "pool_external strict s (s\<lparr>ws_pool := fst (cancelAllForWorker w requeue (ws_pool s))\<rparr>)"
| x_shutdown: "pool_external strict s (s\<lparr>ws_pool := cancelAllExecutions (ws_pool s)\<rparr>)"
| x_progress: "known e s \<Longrightarrow> context_updateProgress now percent (exec_of e s) = (write, exec') \<Longrightarrow>
    item = ex_item exec' \<Longrightarrow>
    pool_external strict s (s\<lparr>ws_pool := update_exec e (\<lambda>_. exec') (ws_pool s),
      ws_db := (if write then updateProgress now (job_id item) percent (claimToken item) (operationId item) (ws_db s) else ws_db s)\<rparr>)"

inductive_cases pool_externalE: "pool_external strict s s'"

text \<open>A server that has just started on tables some earlier run left.\<close>

definition started :: "worker_system \<Rightarrow> bool" where
  "started s = (queue_reach (ws_slots s) (ws_db s) \<and> ws_pool s = empty_pool (pl_runnerId (ws_pool s)) \<and> ws_outcomes s = [])"

definition pool_step :: "bool \<Rightarrow> worker_system \<Rightarrow> worker_system \<Rightarrow> bool" where
  "pool_step strict s s' = (pool_internal s s' \<or> pool_external strict s s')"

definition pool_reach :: "bool \<Rightarrow> worker_system \<Rightarrow> bool" where
  "pool_reach strict s = (\<exists>s0. started s0 \<and> (pool_step strict)\<^sup>*\<^sup>* s0 s)"

subsection \<open>Executions keep their identity\<close>

lemma length_update_exec [simp]: "length (pl_execs (update_exec e f p)) = length (pl_execs p)"
  by (simp add: update_exec_def)

lemma update_exec_fields [simp]:
  "pl_running (update_exec e f p) = pl_running p" "pl_counts (update_exec e f p) = pl_counts p"
  "pl_freed (update_exec e f p) = pl_freed p" "pl_runnerId (update_exec e f p) = pl_runnerId p"
  by (simp_all add: update_exec_def)

lemma update_exec_nth: "d < length (pl_execs p) \<Longrightarrow> pl_execs (update_exec e f p) ! d = (if d = e then f (pl_execs p ! e) else pl_execs p ! d)"
  by (simp add: update_exec_def nth_list_update)

lemma releaseSlot_execs [simp]: "pl_execs (releaseSlot e p) = pl_execs p" "pl_runnerId (releaseSlot e p) = pl_runnerId p"
  by (simp_all add: releaseSlot_def Let_def)

lemma recordScheduleExecution_fields [simp]:
  "pl_running (recordScheduleExecution x out b p) = pl_running p" "pl_counts (recordScheduleExecution x out b p) = pl_counts p"
  "pl_freed (recordScheduleExecution x out b p) = pl_freed p" "pl_execs (recordScheduleExecution x out b p) = pl_execs p"
  by (simp_all add: recordScheduleExecution_def split: option.split)

text \<open>\<open>refl_exec f\<close>: a change of an execution that keeps its job and its worker.\<close>

definition keeps_job :: "(execution \<Rightarrow> execution) \<Rightarrow> bool" where
  "keeps_job f = (\<forall>x. ex_item (f x) = ex_item x \<and> ex_workerId (f x) = ex_workerId x)"

lemma keeps_job_ops [simp]:
  "keeps_job armTimeout" "keeps_job clearTimers" "keeps_job (abortExecution r)" "keeps_job (settle_handler now answer)"
  "keeps_job (\<lambda>x. abortExecution r (x\<lparr>ex_timeoutTimer := b\<rparr>))" "keeps_job (\<lambda>x. x\<lparr>ex_graceTimer := b\<rparr>)"
  "keeps_job (\<lambda>x. x\<lparr>ex_abandoned := out\<rparr>)" "keeps_job (\<lambda>x. x\<lparr>ex_phase := ph x\<rparr>)"
  "keeps_job (\<lambda>x. (clearTimers x)\<lparr>ex_phase := Over\<rparr>)"
  by (simp_all add: keeps_job_def armTimeout_def clearTimers_def abortExecution_def settle_handler_def)

text \<open>The two pools agree on who holds and who gave back a slot.\<close>

definition same_slots :: "pool \<Rightarrow> pool \<Rightarrow> bool" where
  "same_slots p q = (pl_running q = pl_running p \<and> pl_counts q = pl_counts p \<and> pl_freed q = pl_freed p \<and>
     map ex_item (pl_execs q) = map ex_item (pl_execs p) \<and> map ex_workerId (pl_execs q) = map ex_workerId (pl_execs p))"

lemma same_slots_refl [simp]: "same_slots p p"
  by (simp add: same_slots_def)

lemma same_slots_trans: "same_slots p q \<Longrightarrow> same_slots q r \<Longrightarrow> same_slots p r"
  by (simp add: same_slots_def)

lemma same_slots_set:
  assumes "ex_item x = ex_item (pl_execs p ! e)" and "ex_workerId x = ex_workerId (pl_execs p ! e)"
  shows "same_slots p (update_exec e (\<lambda>_. x) p)"
proof (cases "e < length (pl_execs p)")
  case True
  then have "map ex_item ((pl_execs p)[e := x]) = map ex_item (pl_execs p)"
    "map ex_workerId ((pl_execs p)[e := x]) = map ex_workerId (pl_execs p)"
    using assms by (simp_all add: map_update list_update_same_conv)
  then show ?thesis by (simp add: same_slots_def update_exec_def)
next
  case False
  then show ?thesis by (simp add: same_slots_def update_exec_def list_update_beyond)
qed

lemma same_slots_update_exec [simp]: "keeps_job f \<Longrightarrow> same_slots p (update_exec e f p)"
  using same_slots_set[of "f (pl_execs p ! e)" p e] by (simp add: keeps_job_def update_exec_def)

lemma same_slots_nth:
  assumes "same_slots p q"
  shows "length (pl_execs q) = length (pl_execs p)"
    "e < length (pl_execs p) \<Longrightarrow> ex_item (pl_execs q ! e) = ex_item (pl_execs p ! e)"
    "e < length (pl_execs p) \<Longrightarrow> ex_workerId (pl_execs q ! e) = ex_workerId (pl_execs p ! e)"
proof -
  have m: "map ex_item (pl_execs q) = map ex_item (pl_execs p)" "map ex_workerId (pl_execs q) = map ex_workerId (pl_execs p)"
    using assms by (simp_all add: same_slots_def)
  show l: "length (pl_execs q) = length (pl_execs p)" using map_eq_imp_length_eq[OF m(1)] .
  assume e: "e < length (pl_execs p)"
  show "ex_item (pl_execs q ! e) = ex_item (pl_execs p ! e)" "ex_workerId (pl_execs q ! e) = ex_workerId (pl_execs p ! e)"
    using arg_cong[OF m(1), of "\<lambda>xs. xs ! e"] arg_cong[OF m(2), of "\<lambda>xs. xs ! e"] e l by simp_all
qed

lemma same_slots_fold: "same_slots p (fold (\<lambda>e. update_exec e (abortExecution r)) es p)"
proof (induction es arbitrary: p)
  case (Cons e es)
  show ?case using same_slots_trans[OF same_slots_update_exec Cons.IH] by simp
qed simp

lemma same_slots_ops:
  "same_slots p (extendTimeout i ms p)" "same_slots p (context_extendTimeout e ms p)"
  "same_slots p (fst (cancelExecution i p))" "same_slots p (fst (cancelAllForWorker w requeue p))"
  "same_slots p (cancelAllExecutions p)" "same_slots p (fire_timeout e p)" "same_slots p (abandoned_ended e p)"
  by (simp_all add: extendTimeout_def context_extendTimeout_def Let_def cancelExecution_def cancelAllForWorker_def
      cancelAllExecutions_def abort_all_def same_slots_fold fire_timeout_def abandoned_ended_def split: option.split)

lemma same_slots_record: "same_slots p (recordScheduleExecution x out b p)"
  by (simp add: same_slots_def)

lemma same_slots_write: "same_slots p (write_ended now e w msg p)"
proof (cases "ex_phase (pl_execs p ! e)")
  case (Writing out again)
  then show ?thesis unfolding write_ended_def
    by (simp only: exec_phase.case) (rule same_slots_trans[OF same_slots_record same_slots_update_exec], simp)
qed (simp_all add: write_ended_def)

subsection \<open>Slots are counted exactly\<close>

text \<open>The jobs of a worker that hold a slot.\<close>

definition held_by :: "string \<Rightarrow> pool \<Rightarrow> job_id set" where
  "held_by w p = {i. \<exists>e. map_of (pl_running p) i = Some e \<and> ex_workerId (pl_execs p ! e) = w}"

definition slots_exact :: "pool \<Rightarrow> bool" where
  "slots_exact p =
     (distinct (map fst (pl_running p)) \<and> distinct (map fst (pl_counts p)) \<and> distinct (pl_freed p) \<and>
      (\<forall>i e. map_of (pl_running p) i = Some e \<longrightarrow> e < length (pl_execs p) \<and> job_id (ex_item (pl_execs p ! e)) = i) \<and>
      (\<forall>w. map_of (pl_counts p) w = (if held_by w p = {} then None else Some (card (held_by w p)))) \<and>
      (\<forall>e. e \<in> set (pl_freed p) \<longleftrightarrow> e < length (pl_execs p) \<and>
         map_of (pl_running p) (job_id (ex_item (pl_execs p ! e))) \<noteq> Some e))"

lemma finite_held [simp]: "finite (held_by w p)"
proof (rule finite_subset)
  show "held_by w p \<subseteq> fst ` set (pl_running p)" by (force simp: held_by_def dest: map_of_SomeD)
qed simp

lemma slots_exactI:
  assumes "distinct (map fst (pl_running p))" "distinct (map fst (pl_counts p))" "distinct (pl_freed p)"
    "\<And>i e. map_of (pl_running p) i = Some e \<Longrightarrow> e < length (pl_execs p) \<and> job_id (ex_item (pl_execs p ! e)) = i"
    "\<And>w. map_of (pl_counts p) w = (if held_by w p = {} then None else Some (card (held_by w p)))"
    "\<And>e. e \<in> set (pl_freed p) \<longleftrightarrow> e < length (pl_execs p) \<and>
         map_of (pl_running p) (job_id (ex_item (pl_execs p ! e))) \<noteq> Some e"
  shows "slots_exact p"
  using assms unfolding slots_exact_def by (intro conjI allI impI) (simp only:)+

lemma slots_exactD:
  assumes "slots_exact p"
  shows "distinct (map fst (pl_running p))" "distinct (map fst (pl_counts p))" "distinct (pl_freed p)"
    "map_of (pl_running p) i = Some e \<Longrightarrow> e < length (pl_execs p) \<and> job_id (ex_item (pl_execs p ! e)) = i"
    "map_of (pl_counts p) w = (if held_by w p = {} then None else Some (card (held_by w p)))"
    "e \<in> set (pl_freed p) \<longleftrightarrow> e < length (pl_execs p) \<and>
         map_of (pl_running p) (job_id (ex_item (pl_execs p ! e))) \<noteq> Some e"
  using assms unfolding slots_exact_def by blast+

lemma runningCountFor_held: "slots_exact p \<Longrightarrow> runningCountFor w p = card (held_by w p)"
  by (simp add: slots_exact_def runningCountFor_def)

lemma slots_exact_same:
  assumes "same_slots p q" and "slots_exact p"
  shows "slots_exact q"
proof -
  have f: "pl_running q = pl_running p" "pl_counts q = pl_counts p" "pl_freed q = pl_freed p"
    using assms(1) by (simp_all add: same_slots_def)
  note n = same_slots_nth[OF assms(1)]
  note d = slots_exactD[OF assms(2)]
  have held: "held_by w q = held_by w p" for w
    unfolding held_by_def f using d(4) n(3) by (intro Collect_cong ex_cong1) metis
  show ?thesis
  proof (rule slots_exactI)
    show "e < length (pl_execs q) \<and> job_id (ex_item (pl_execs q ! e)) = i" if "map_of (pl_running q) i = Some e" for i e
      using d(4)[of i e] that by (simp add: f n(1,2))
    show "e \<in> set (pl_freed q) \<longleftrightarrow> e < length (pl_execs q) \<and>
        map_of (pl_running q) (job_id (ex_item (pl_execs q ! e))) \<noteq> Some e" for e
      using d(6)[of e] by (cases "e < length (pl_execs p)") (simp_all add: f n(1,2))
  qed (simp_all add: f held d(1-3,5))
qed

lemma slots_exact_start:
  assumes inv: "slots_exact p" and new: "job_id item \<notin> set (getActiveJobIds p)"
  shows "slots_exact (startExecution w item p)"
proof -
  let ?q = "startExecution w item p" and ?e = "length (pl_execs p)"
  have none: "map_of (pl_running p) (job_id item) = None"
    using new by (simp add: getActiveJobIds_def map_of_eq_None_iff)
  have running: "map_of (pl_running ?q) = (map_of (pl_running p))(job_id item \<mapsto> ?e)"
    by (simp add: startExecution_def Let_def update_conv')
  have len: "length (pl_execs ?q) = Suc ?e" by (simp add: startExecution_def Let_def)
  have old: "e < ?e \<Longrightarrow> pl_execs ?q ! e = pl_execs p ! e" for e by (simp add: startExecution_def Let_def nth_append)
  have fresh: "ex_workerId (pl_execs ?q ! ?e) = w" "ex_item (pl_execs ?q ! ?e) = item"
    by (simp_all add: startExecution_def Let_def)
  note d = slots_exactD[OF inv]
  have held: "held_by v ?q = (if v = w then insert (job_id item) (held_by v p) else held_by v p)" for v
  proof -
    have "i \<in> held_by v ?q \<longleftrightarrow> (if i = job_id item then v = w else i \<in> held_by v p)" for i
    proof (cases "map_of (pl_running p) i")
      case (Some e)
      then show ?thesis using d(4)[OF Some] none by (auto simp: held_by_def running old)
    qed (auto simp: held_by_def running fresh)
    moreover have "job_id item \<notin> held_by v p" using none by (simp add: held_by_def)
    ultimately show ?thesis by (cases "v = w") (simp_all add: set_eq_iff)
  qed
  have notin: "job_id item \<notin> held_by v p" for v using none by (simp add: held_by_def)
  have "map_of (pl_counts ?q) v = (if held_by v ?q = {} then None else Some (card (held_by v ?q)))" for v
  proof (cases "v = w")
    case True
    have "map_of (pl_counts ?q) w = Some (runningCountFor w p + 1)"
      by (simp add: startExecution_def Let_def update_conv')
    with True show ?thesis using notin by (simp add: held runningCountFor_held[OF inv])
  next
    case False
    then have "map_of (pl_counts ?q) v = map_of (pl_counts p) v"
      by (simp add: startExecution_def Let_def update_conv')
    with False inv show ?thesis by (simp add: held slots_exact_def)
  qed
  note counts = this
  have frame: "distinct (map fst (pl_running ?q))" "distinct (map fst (pl_counts ?q))" "pl_freed ?q = pl_freed p"
    using d(1,2) by (simp_all add: startExecution_def Let_def distinct_update)
  show ?thesis
  proof (rule slots_exactI)
    show "e < length (pl_execs ?q) \<and> job_id (ex_item (pl_execs ?q ! e)) = i" if "map_of (pl_running ?q) i = Some e" for i e
    proof (cases "i = job_id item")
      case True
      with that have "e = ?e" by (simp add: running)
      with True show ?thesis by (simp only: fresh len) simp
    next
      case False
      with that d(4)[of i e] show ?thesis by (simp add: running old len)
    qed
    show "e \<in> set (pl_freed ?q) \<longleftrightarrow> e < length (pl_execs ?q) \<and>
        map_of (pl_running ?q) (job_id (ex_item (pl_execs ?q ! e))) \<noteq> Some e" for e
    proof (cases "e < ?e")
      case True
      with d(6)[of e] none show ?thesis by (auto simp: frame running old len)
    next
      case False
      with d(6)[of e] show ?thesis by (cases "e = ?e") (simp_all add: frame running fresh len)
    qed
  qed (use frame d(3) counts in simp_all)
qed

lemma slots_exact_release:
  assumes inv: "slots_exact p" and e: "e < length (pl_execs p)"
  shows "slots_exact (releaseSlot e p)"
proof (cases "map_of (pl_running p) (job_id (ex_item (pl_execs p ! e))) = Some e")
  case True
  define i where "i = job_id (ex_item (pl_execs p ! e))"
  define w where "w = ex_workerId (pl_execs p ! e)"
  let ?q = "releaseSlot e p"
  have here: "map_of (pl_running p) i = Some e" using True by (simp add: i_def)
  have running: "map_of (pl_running ?q) = (map_of (pl_running p))(i := None)"
    using True by (simp add: releaseSlot_def Let_def delete_conv' i_def)
  have held: "held_by v ?q = held_by v p - {i}" for v
    by (auto simp: held_by_def running)
  have in_w: "i \<in> held_by v p \<longleftrightarrow> v = w" for v using here by (auto simp: held_by_def w_def)
  have count: "map_of (pl_counts p) w = Some (card (held_by w p))"
    using inv in_w[of w] by (auto simp: slots_exact_def)
  have counts: "pl_counts ?q = (if card (held_by w p) \<le> 1 then AList.delete w (pl_counts p)
      else AList.update w (card (held_by w p) - 1) (pl_counts p))"
    using True count by (simp add: releaseSlot_def Let_def w_def)
  have "map_of (pl_counts ?q) v = (if held_by v ?q = {} then None else Some (card (held_by v ?q)))" for v
  proof (cases "v = w")
    case True
    have "card (held_by w p - {i}) = card (held_by w p) - 1" using in_w[of w] by (simp add: card_Diff_singleton)
    moreover have "card (held_by w p) \<le> 1 \<longleftrightarrow> held_by w p - {i} = {}"
      using calculation by (metis card_0_eq finite_Diff finite_held diff_is_0_eq)
    ultimately show ?thesis using True by (simp add: counts held delete_conv' update_conv')
  next
    case False
    then have "held_by v ?q = held_by v p" using in_w[of v] by (auto simp: held)
    moreover have "map_of (pl_counts ?q) v = map_of (pl_counts p) v"
      using False by (simp add: counts delete_conv' update_conv')
    ultimately show ?thesis using inv by (simp add: slots_exact_def)
  qed
  note counted = this
  note d = slots_exactD[OF inv]
  have freed: "pl_freed ?q = pl_freed p @ [e]" using True by (simp add: releaseSlot_def Let_def)
  have gone: "e \<notin> set (pl_freed p)" using d(6)[of e] True by simp
  show ?thesis
  proof (rule slots_exactI)
    have "pl_running ?q = AList.delete i (pl_running p)" using True by (simp add: releaseSlot_def Let_def i_def)
    then show "distinct (map fst (pl_running ?q))" using d(1) by (simp add: distinct_delete)
    show "distinct (map fst (pl_counts ?q))" using d(2) by (simp add: counts distinct_delete distinct_update)
    show "distinct (pl_freed ?q)" using d(3) gone by (simp add: freed)
    show "c < length (pl_execs ?q) \<and> job_id (ex_item (pl_execs ?q ! c)) = j" if "map_of (pl_running ?q) j = Some c" for j c
      using d(4)[of j c] that by (simp add: running split: if_splits)
    show "c \<in> set (pl_freed ?q) \<longleftrightarrow> c < length (pl_execs ?q) \<and>
        map_of (pl_running ?q) (job_id (ex_item (pl_execs ?q ! c))) \<noteq> Some c" for c
    proof (cases "c = e")
      case True
      then show ?thesis using e by (simp add: freed running i_def)
    next
      case False
      then show ?thesis using d(6)[of c] here by (simp add: freed running)
    qed
  qed (rule counted)
next
  case False
  then have "releaseSlot e p = p" by (simp add: releaseSlot_def Let_def)
  with inv show ?thesis by simp
qed

subsection \<open>What the steps do to the tables\<close>

lemma perform_queue_step: "perform now runner item out db = Some (b, db') \<Longrightarrow> queue_step (slots, db) (slots, db')"
  by (cases out) (auto simp: perform_def requeueRunning_def intro: q_complete q_retry q_fail q_cancelRunning)

lemma pool_step_queue:
  assumes "pool_step strict s s'"
  shows "queue_step\<^sup>*\<^sup>* (ws_slots s, ws_db s) (ws_slots s', ws_db s')"
proof -
  have "pool_internal s s' \<Longrightarrow> ?thesis"
    by (cases rule: pool_internal.cases, assumption) (simp_all, (rule r_into_rtranclp, erule perform_queue_step)+)
  moreover have "pool_external strict s s' \<Longrightarrow> ?thesis"
    by (cases rule: pool_external.cases, assumption) (auto intro: q_claim q_progress)
  ultimately show ?thesis using assms by (auto simp: pool_step_def)
qed

lemma pool_reach_inv: "pool_reach strict s \<Longrightarrow> full_inv (ws_slots s) (ws_db s)"
proof -
  assume "pool_reach strict s"
  then obtain s0 where s0: "started s0" "(pool_step strict)\<^sup>*\<^sup>* s0 s" by (auto simp: pool_reach_def)
  from s0(2) have "queue_step\<^sup>*\<^sup>* (ws_slots s0, ws_db s0) (ws_slots s, ws_db s)"
    by (induction rule: rtranclp_induct) (auto intro: rtranclp_trans pool_step_queue)
  with s0(1) have "queue_reach (ws_slots s) (ws_db s)"
    by (auto simp: started_def intro: rtranclp_trans)
  then show ?thesis by (rule queue_reach_inv)
qed

lemma pool_reach_induct [consumes 1, case_names started step]:
  assumes "pool_reach strict s"
    and "\<And>s. started s \<Longrightarrow> P s"
    and "\<And>s s'. pool_reach strict s \<Longrightarrow> P s \<Longrightarrow> pool_step strict s s' \<Longrightarrow> P s'"
  shows "P s"
proof -
  from assms(1) obtain s0 where s0: "started s0" "(pool_step strict)\<^sup>*\<^sup>* s0 s" by (auto simp: pool_reach_def)
  from s0(2) have "pool_reach strict s \<and> P s"
  proof (induction rule: rtranclp_induct)
    case base
    with s0(1) show ?case by (auto simp: pool_reach_def intro: assms(2))
  next
    case (step t u)
    then have "pool_reach strict u" by (auto simp: pool_reach_def intro: rtranclp.rtrancl_into_rtrancl)
    with step show ?case by (blast intro: assms(3))
  qed
  then show ?thesis ..
qed

subsection \<open>Claims\<close>

definition no_new_claims :: "worker_db \<Rightarrow> worker_db \<Rightarrow> bool" where
  "no_new_claims db db' = (claims db' \<subseteq> claims db)"

lemma no_new_claims_refl [simp]: "no_new_claims db db"
  and no_new_claims_trans: "no_new_claims a b \<Longrightarrow> no_new_claims b c \<Longrightarrow> no_new_claims a c"
  by (auto simp: no_new_claims_def)

lemma claims_same_jobs: "jobs db' = jobs db \<Longrightarrow> claims db' = claims db"
  by (simp add: claims_def)

lemma no_new_claims_update:
  assumes "\<And>r. job_id (f r) = job_id r" and "\<And>r. claimToken (f r) = None \<or> claimToken (f r) = claimToken r"
  shows "no_new_claims db (update_jobs P f db)"
proof -
  have "(i, t) \<in> claims db" if mem: "(i, t) \<in> claims (update_jobs P f db)" for i t
  proof -
    from mem obtain r where r: "r \<in> set (jobs db)" "job_id (if P r then f r else r) = i"
        "claimToken (if P r then f r else r) = Some t"
      by (auto simp: claims_def update_jobs_def update_where_def simp del: split_paired_Ex)
    then have "job_id r = i" "claimToken r = Some t" using assms[of r] by (auto split: if_splits)
    with r(1) show ?thesis by (auto simp: claims_def)
  qed
  then show ?thesis by (auto simp: no_new_claims_def)
qed

lemma jobs_updateOperation [simp]: "jobs (updateOperation oid f db) = jobs db"
  by (simp add: updateOperation_def)

lemma claims_operations [simp]:
  "claims (updateOperation oid f db) = claims db" "claims (applyOperationCounts counts mark db) = claims db"
  "claims (mark_operation mark o' db) = claims db"
  by (rule claims_same_jobs, simp add: mark_operation_def split: option.split)+

lemma no_new_claims_operations [simp]:
  "no_new_claims db (updateOperation oid f db') = no_new_claims db db'"
  "no_new_claims db (applyOperationCounts counts mark db') = no_new_claims db db'"
  "no_new_claims db (mark_operation mark o' db') = no_new_claims db db'"
  "no_new_claims (updateOperation oid f db) db' = no_new_claims db db'"
  "no_new_claims (applyOperationCounts counts mark db) db' = no_new_claims db db'"
  "no_new_claims (mark_operation mark o' db) db' = no_new_claims db db'"
  by (simp_all add: no_new_claims_def)

lemma no_new_claims_cancel_ids: "no_new_claims db (cancel_pending_ids now ids db)"
proof -
  have step: "no_new_claims d (update_jobs P (cancel_row now) d)" for d P
    by (rule no_new_claims_update) (simp_all add: cancel_row_def)
  have "no_new_claims d (fold (\<lambda>c. update_jobs (\<lambda>r. job_id r \<in> set c \<and> status r = Pending) (cancel_row now)) cs d)" for d cs
    by (induction cs arbitrary: d) (auto intro: no_new_claims_trans step)
  then show ?thesis by (simp add: cancel_pending_ids_def forEachChunked_def)
qed

lemma no_new_claims_cascade: "cascadeCancel now ps db = Some db' \<Longrightarrow> no_new_claims db db'"
  using no_new_claims_cancel_ids by (auto simp: cascadeCancel_def Let_def split: option.splits if_splits)

lemma no_new_claims_cancelPending: "cancelPending now i db = Some (b, db') \<Longrightarrow> no_new_claims db db'"
proof -
  have upd: "no_new_claims db (update_jobs P (cancel_row now) db)" for P
    by (rule no_new_claims_update) (simp_all add: cancel_row_def)
  show "cancelPending now i db = Some (b, db') \<Longrightarrow> no_new_claims db db'"
    by (auto simp: cancelPending_def Let_def split: list.splits option.splits
        dest!: no_new_claims_cascade intro: no_new_claims_trans[OF upd])
qed

text \<open>A guarded end of a run takes the claim away, if it finds it.\<close>

lemma terminalize_claims:
  assumes run: "terminalizeRunning (runningJobWhere i runner (Some t)) values after db = Some (b, db')"
    and ids: "distinct (map job_id (jobs db))"
    and vals: "\<And>r. job_id (values r) = job_id r \<and> claimToken (values r) = None"
    and after: "\<And>oid d d'. after oid d = Some d' \<Longrightarrow> no_new_claims d d'"
  shows "no_new_claims db db' \<and> (b \<longrightarrow> (i, t) \<in> claims db \<and> (i, t) \<notin> claims db')"
proof -
  let ?g = "runningJobWhere i runner (Some t)" and ?u = "update_jobs (runningJobWhere i runner (Some t)) values db"
  have upd: "no_new_claims db ?u" by (rule no_new_claims_update) (use vals in auto)
  show ?thesis
  proof (cases "returning ?g values (jobs db)")
    case Nil
    with run show ?thesis by (simp add: terminalizeRunning_def)
  next
    case (Cons u us)
    then have "filter ?g (jobs db) \<noteq> []" by (auto simp: returning_def)
    then obtain r where r: "r \<in> set (jobs db)" "?g r" by (auto simp: filter_empty_conv)
    from run Cons obtain oid where d: "b" "after oid ?u = Some db'" by (auto simp: terminalizeRunning_def)
    from r have row: "job_id r = i" "claimToken r = Some t" by (auto simp: runningJobWhere_def)
    have "(i, t) \<notin> claims ?u"
    proof
      assume "(i, t) \<in> claims ?u"
      then obtain x where x: "x \<in> set (jobs db)" "job_id (if ?g x then values x else x) = i"
          "claimToken (if ?g x then values x else x) = Some t"
        by (auto simp: claims_def update_jobs_def update_where_def)
      then have "job_id x = i" using vals[of x] by (auto split: if_splits)
      with x(1) r(1) row(1) ids have "x = r" by (auto simp: distinct_map dest: inj_onD)
      with r(2) x(3) vals[of r] show False by simp
    qed
    moreover have "(i, t) \<in> claims db" using r(1) row by (auto simp: claims_def)
    ultimately show ?thesis using after[OF d(2)] upd d(1) by (auto simp: no_new_claims_def)
  qed
qed

lemma perform_claims:
  assumes run: "perform now runner item out db = Some (b, db')" and ids: "distinct (map job_id (jobs db))"
    and tok: "claimToken item = Some t"
  shows "no_new_claims db db' \<and> (b \<longrightarrow> (job_id item, t) \<in> claims db \<and> (job_id item, t) \<notin> claims db')"
proof -
  have rows: "job_id (complete_row now res r) = job_id r \<and> claimToken (complete_row now res r) = None"
    "job_id (retry_row now at' msg r) = job_id r \<and> claimToken (retry_row now at' msg r) = None"
    "job_id (fail_row now msg r) = job_id r \<and> claimToken (fail_row now msg r) = None"
    "job_id ((cancel_row now \<circ> release_claim) r) = job_id r \<and> claimToken ((cancel_row now \<circ> release_claim) r) = None"
    for res at' msg r
    by (simp_all add: complete_row_def retry_row_def fail_row_def cancel_row_def release_claim_def)
  have marks: "Some (mark_operation m oid d) = Some d' \<Longrightarrow> no_new_claims d d'" for m oid d d'
    by auto
  have casc: "cascadeCancel now [job_id item] (mark_operation m oid d) = Some d' \<Longrightarrow> no_new_claims d d'" for m oid d d'
    by (drule no_new_claims_cascade) simp
  note out_run = run[unfolded perform_def tok requeueRunning_def complete_def retry_def fail_def cancelRunning_def]
  show ?thesis
  proof (cases out)
    case (Out_complete res)
    from out_run[unfolded Out_complete outcome.case] show ?thesis
      by (rule terminalize_claims[OF _ ids]) (rule rows, erule marks)
  next
    case (Out_retry at' msg)
    from out_run[unfolded Out_retry outcome.case] show ?thesis
      by (rule terminalize_claims[OF _ ids]) (rule rows, erule marks)
  next
    case (Out_fail msg)
    from out_run[unfolded Out_fail outcome.case] show ?thesis
      by (rule terminalize_claims[OF _ ids]) (rule rows, erule casc)
  next
    case (Out_requeue msg)
    from out_run[unfolded Out_requeue outcome.case] show ?thesis
      by (rule terminalize_claims[OF _ ids]) (rule rows, erule marks)
  next
    case Out_cancel
    from out_run[unfolded Out_cancel outcome.case] show ?thesis
      by (rule terminalize_claims[OF _ ids]) (rule rows, erule marks)
  qed
qed

lemma no_new_claims_running:
  assumes "\<And>r. job_id (f r) = job_id r" and "\<And>r. claimToken (f r) = None \<or> claimToken (f r) = claimToken r"
  shows "no_new_claims db (snd (updateRunningRowsChunked ids f db))"
proof -
  have chunks: "no_new_claims (snd st) (snd (fold F cs st))" if "\<And>c st. no_new_claims (snd st) (snd (F c st))"
    for F :: "job_id list \<Rightarrow> job_id list \<times> worker_db \<Rightarrow> job_id list \<times> worker_db" and cs st
  proof (induction cs arbitrary: st)
    case (Cons c cs)
    show ?case using no_new_claims_trans[OF that[of st c] Cons.IH[of "F c st"]] by simp
  qed simp
  have chunk: "no_new_claims d (update_jobs P f d)" for P d by (rule no_new_claims_update[of f, OF assms])
  show ?thesis
    unfolding updateRunningRowsChunked_def forEachChunked_def
    using chunks[where cs = "chunksFor ids" and st = "([], db)"] chunk by (simp add: Let_def split_beta)
qed

lemma no_new_claims_recover:
  assumes "recoverExpired w now ids db = Some db'"
  shows "no_new_claims db db'"
proof -
  have requeue: "no_new_claims d (snd (updateRunningRowsChunked xs (requeue_row now) d))" for xs d
    by (rule no_new_claims_running) (simp_all add: requeue_row_def release_claim_def)
  have exhaust: "no_new_claims d (snd (updateRunningRowsChunked xs (exhaust_row now) d))" for xs d
    by (rule no_new_claims_running) (simp_all add: exhaust_row_def release_claim_def)
  have retryable: "no_new_claims d (snd (recoverRetryableRows now rows d))" for rows d
    using requeue[of d "map job_id rows"] by (simp add: recoverRetryableRows_def split_beta Let_def)
  have exhausted: "no_new_claims d d'" if "recoverExhaustedRows now rows d = Some (m, d')" for rows d d' m
  proof -
    from that obtain xs ys where "cascadeCancel now xs (applyOperationCounts ys (markJobFinished Failed now)
        (snd (updateRunningRowsChunked (map job_id rows) (exhaust_row now) d))) = Some d'"
      by (auto simp: recoverExhaustedRows_def split_beta Let_def)
    then show ?thesis using no_new_claims_trans[OF exhaust] no_new_claims_cascade by fastforce
  qed
  have "no_new_claims d d'" if "recoverExpiredRows now rows d = Some (m, d')" for rows d d' m
    using that by (auto simp: recoverExpiredRows_def split_beta Let_def dest!: exhausted intro: no_new_claims_trans[OF retryable])
  with assms show ?thesis by (auto simp: recoverExpired_def Let_def split: if_splits)
qed

definition drawn :: "(job_id \<Rightarrow> nat) \<Rightarrow> (job_id \<times> nat) set" where
  "drawn token = {(i, token i) | i. True}"

lemma claimCandidate_claims:
  "claimCandidate (token i) input i db = (row, db') \<Longrightarrow> claims db' \<subseteq> claims db \<union> drawn token"
proof -
  assume run: "claimCandidate (token i) input i db = (row, db')"
  let ?g = "\<lambda>r. job_id r = i \<and> status r = Pending"
  have "claims (update_jobs ?g (claim_row (token i) input) db) \<subseteq> claims db \<union> drawn token"
    by (auto simp: claims_def update_jobs_def update_where_def claim_row_def drawn_def split: if_splits)
  with run show ?thesis by (auto simp: claimCandidate_def Let_def split: list.splits)
qed

lemma claim_loop_new_claims:
  "claim_loop token clock input n parents ops cs claimed running db = Some (claimed', db') \<Longrightarrow>
    claims db' \<subseteq> claims db \<union> drawn token"
proof (induction cs arbitrary: claimed running db)
  case (Cons c cs)
  show ?case
  proof (cases "n \<le> length claimed")
    case True
    with Cons.prems show ?thesis by simp
  next
    case more: False
    show ?thesis
    proof (cases "claimBlocker c parents ops")
      case None
      show ?thesis
      proof (cases "cl_concurrency input \<le> int running")
        case True
        with Cons.prems more None show ?thesis by simp
      next
        case False
        obtain row d where cl: "claimCandidate (token (job_id c)) input (job_id c) db = (row, d)" by fastforce
        have "claims db' \<subseteq> claims d \<union> drawn token"
          using Cons.prems more None False cl by (cases row) (auto dest: Cons.IH)
        with claimCandidate_claims[of token "job_id c" input db row d, OF cl] show ?thesis by blast
      qed
    next
      case (Some b)
      then obtain d where d: "claim_loop token clock input n parents ops cs claimed running d = Some (claimed', db')"
          "no_new_claims db d"
        using Cons.prems more by (cases b) (auto split: option.splits prod.splits dest: no_new_claims_cancelPending)
      from Cons.IH[OF d(1)] d(2) show ?thesis by (auto simp: no_new_claims_def)
    qed
  qed
qed simp

lemma claimNextBatch_claims:
  assumes ok: "tables_ok db" and run: "claimNextBatch token clock input n db = Some (claimed, db')"
  shows "claims db' \<subseteq> claims db \<union> drawn token" "distinct (map job_id claimed)"
    "x \<in> set claimed \<Longrightarrow> claimToken x = Some (token (job_id x))"
proof -
  have "claims db' \<subseteq> claims db \<union> drawn token \<and> distinct (map job_id claimed) \<and>
      (\<forall>x \<in> set claimed. claimToken x = Some (token (job_id x)))"
  proof (cases "claimed = [] \<and> db' = db")
    case False
    with run have run': "claimRunnableItems token clock input (nat n) db = Some (claimed, db')"
      by (auto simp: claimNextBatch_def split: if_splits)
    from claimRunnableItems_result[OF ok, of token clock input "nat n"] run' obtain db1 where
      db1: "recoverExpired (cl_workerId input) (cl_now input) (cl_excludeActiveIds input) db = Some db1" "moves db db1"
      and sub: "subseq (map job_id claimed) (map job_id (claim_candidates input (nat n) db1))"
      and rows: "\<forall>x \<in> set claimed. \<exists>c \<in> set (claim_candidates input (nat n) db1). x = start_row token input c"
      by fastforce
    have "distinct (map job_id (claim_candidates input (nat n) db1))"
      by (rule claim_candidates_rows(2)) (rule moves_tables_ok[OF db1(2) ok])
    then have "distinct (map job_id claimed)" using sub
      by (meson in_set_subseqs subseqs_distinctD)
    moreover have "\<forall>x \<in> set claimed. claimToken x = Some (token (job_id x))"
      using rows by (auto simp: start_row_def claim_row_def)
    moreover obtain d where "claim_loop token clock input (nat n)
        (loadParentStatuses (claim_candidates input (nat n) db1) db1)
        (cancelled_operations (claim_candidates input (nat n) db1) db1) (claim_candidates input (nat n) db1) []
        (running_of (cl_workerId input) (jobs db1)) db1 = Some (claimed, d)" "claims db' = claims d"
      using run' db1(1) by (auto simp: claimRunnableItems_def Let_def)
    from claim_loop_new_claims[OF this(1)] this(2) no_new_claims_recover[OF db1(1)]
    have "claims db' \<subseteq> claims db \<union> drawn token" by (auto simp: no_new_claims_def)
    ultimately show ?thesis by blast
  qed auto
  then show "claims db' \<subseteq> claims db \<union> drawn token" "distinct (map job_id claimed)"
    "x \<in> set claimed \<Longrightarrow> claimToken x = Some (token (job_id x))" by blast+
qed

end
