(* ===== verification/Worker_Pool_Laws.thy ===== *)
theory Worker_Pool_Laws
  imports Worker_Pool_Safety
begin

section \<open>What the pool of the workers keeps\<close>

text \<open>
  The three properties of the runs of \<open>Worker_Pool_Safety\<close>: exact slots, at most one outcome for a
  claim, and slots that are always given back.
\<close>

subsection \<open>Slots\<close>

lemma slots_exact_internal:
  assumes "pool_internal s s'" and "slots_exact (ws_pool s)"
  shows "slots_exact (ws_pool s')"
  using assms(1)
proof cases
  case (p_timeout e)
  show ?thesis unfolding p_timeout by (simp add: slots_exact_same[OF same_slots_ops(6) assms(2)])
next
  case (p_grace e)
  let ?p1 = "update_exec e (\<lambda>exec. exec\<lparr>ex_graceTimer := False\<rparr>) (ws_pool s)"
  have p1: "slots_exact ?p1" by (rule slots_exact_same[OF same_slots_update_exec assms(2)]) simp
  have "slots_exact (releaseSlot e ?p1)" by (rule slots_exact_release[OF p1]) (simp add: p_grace)
  then have "slots_exact (update_exec e (\<lambda>exec. exec\<lparr>ex_abandoned := finalizeAbandonedExecution exec\<rparr>) (releaseSlot e ?p1))"
    by (rule slots_exact_same[OF same_slots_update_exec, rotated]) (simp add: keeps_job_def)
  with p1 show ?thesis unfolding p_grace by (simp add: fire_grace_def Let_def)
next
  case (p_write e out again now b db')
  show ?thesis unfolding p_write by (simp add: slots_exact_same[OF same_slots_write assms(2)])
next
  case (p_write_fails e out again now msg)
  show ?thesis unfolding p_write_fails by (simp add: slots_exact_same[OF same_slots_write assms(2)])
next
  case (p_close e)
  let ?p1 = "update_exec e (\<lambda>exec. (clearTimers exec)\<lparr>ex_phase := Over\<rparr>) (ws_pool s)"
  have "slots_exact ?p1" by (rule slots_exact_same[OF same_slots_update_exec assms(2)]) simp
  then show ?thesis unfolding p_close by (simp add: close_execution_def slots_exact_release p_close)
next
  case (p_abandon e out now b db')
  show ?thesis unfolding p_abandon by (simp add: slots_exact_same[OF same_slots_ops(7) assms(2)])
next
  case (p_abandon_fails e out)
  show ?thesis unfolding p_abandon_fails by (simp add: slots_exact_same[OF same_slots_ops(7) assms(2)])
qed

lemma active_start: "set (getActiveJobIds (startExecution w item p)) = insert (job_id item) (set (getActiveJobIds p))"
proof -
  have active: "set (getActiveJobIds q) = dom (map_of (pl_running q))" for q
    by (simp add: getActiveJobIds_def dom_map_of_conv_image_fst)
  show ?thesis unfolding active by (simp add: startExecution_def Let_def update_conv')
qed

lemma slots_exact_starts:
  assumes "slots_exact p" and "distinct (map job_id items)" and "set (map job_id items) \<inter> set (getActiveJobIds p) = {}"
  shows "slots_exact (fold (startExecution w) items p)"
  using assms
proof (induction items arbitrary: p)
  case (Cons item items)
  have "slots_exact (startExecution w item p)" by (rule slots_exact_start) (use Cons.prems in auto)
  from Cons.IH[OF this] Cons.prems show ?case by (auto simp: active_start)
qed simp

lemma slots_exact_external:
  assumes "pool_external True s s'" and "slots_exact (ws_pool s)" and "tables_ok (ws_db s)"
  shows "slots_exact (ws_pool s')"
  using assms(1)
proof cases
  case (x_poll token clock input n claimed db')
  show ?thesis unfolding x_poll
    using slots_exact_starts[OF assms(2) claimNextBatch_claims(2)[OF assms(3) x_poll(2)] x_poll(5)[OF TrueI]] by simp
next
  case (x_queue slots' db')
  show ?thesis unfolding x_queue using assms(2) by simp
next
  case (x_settle e now answer)
  show ?thesis unfolding x_settle by (simp add: slots_exact_same[OF same_slots_update_exec assms(2)])
next
  case (x_extend e ms)
  show ?thesis unfolding x_extend by (simp add: slots_exact_same[OF same_slots_ops(2) assms(2)])
next
  case (x_extend_job i ms)
  show ?thesis unfolding x_extend_job by (simp add: slots_exact_same[OF same_slots_ops(1) assms(2)])
next
  case (x_cancel i)
  show ?thesis unfolding x_cancel by (simp add: slots_exact_same[OF same_slots_ops(3) assms(2)])
next
  case (x_cancel_worker w requeue)
  show ?thesis unfolding x_cancel_worker by (simp add: slots_exact_same[OF same_slots_ops(4) assms(2)])
next
  case x_shutdown
  show ?thesis unfolding x_shutdown by (simp add: slots_exact_same[OF same_slots_ops(5) assms(2)])
next
  case (x_progress e now percent wr exec' item)
  have "ex_item exec' = ex_item (exec_of e s) \<and> ex_workerId exec' = ex_workerId (exec_of e s)"
    using x_progress(3) by (auto simp: context_updateProgress_def split: if_splits)
  then have "same_slots (ws_pool s) (update_exec e (\<lambda>_. exec') (ws_pool s))" by (simp add: same_slots_set)
  then show ?thesis unfolding x_progress by (simp add: slots_exact_same[OF _ assms(2)])
qed

lemma slots_exact_reach: "pool_reach True s \<Longrightarrow> slots_exact (ws_pool s)"
proof (induction rule: pool_reach_induct)
  case (started s)
  then have p: "ws_pool s = empty_pool (pl_runnerId (ws_pool s))" by (simp add: started_def)
  show ?case by (subst p) (simp add: slots_exact_def empty_pool_def held_by_def)
next
  case (step s s')
  then show ?case
    using slots_exact_internal slots_exact_external full_inv_tables[OF pool_reach_inv[OF step.hyps(1)]]
    by (auto simp: pool_step_def)
qed


subsection \<open>Outcomes\<close>

text \<open>
  Every execution has the token of its claim and no other has it; the claim of an execution whose
  write changed the row is gone.
\<close>

definition tokens_inv :: "worker_system \<Rightarrow> bool" where
  "tokens_inv s =
     (let items = map ex_item (pl_execs (ws_pool s)) in
      distinct (map claimToken items) \<and> None \<notin> claimToken ` set items \<and> distinct (map fst (ws_outcomes s)) \<and>
      (\<forall>e \<in> fst ` set (ws_outcomes s). e < length items \<and>
         (job_id (items ! e), the (claimToken (items ! e))) \<notin> claims (ws_db s)))"

lemma tokens_invD:
  assumes "tokens_inv s"
  shows "distinct (map claimToken (map ex_item (pl_execs (ws_pool s))))"
    "None \<notin> claimToken ` set (map ex_item (pl_execs (ws_pool s)))" "distinct (map fst (ws_outcomes s))"
    "e \<in> fst ` set (ws_outcomes s) \<Longrightarrow> e < length (map ex_item (pl_execs (ws_pool s)))"
    "e \<in> fst ` set (ws_outcomes s) \<Longrightarrow> (job_id (map ex_item (pl_execs (ws_pool s)) ! e),
       the (claimToken (map ex_item (pl_execs (ws_pool s)) ! e))) \<notin> claims (ws_db s)"
  using assms unfolding tokens_inv_def Let_def by blast+

lemma tokens_inv_frame:
  assumes "tokens_inv s" and "map ex_item (pl_execs (ws_pool t)) = map ex_item (pl_execs (ws_pool s))"
    and "ws_outcomes t = ws_outcomes s" and "snd ` (claims (ws_db t) - claims (ws_db s)) \<inter> used_tokens (ws_pool s) = {}"
  shows "tokens_inv t"
proof -
  let ?items = "map ex_item (pl_execs (ws_pool s))"
  have "(job_id (?items ! e), the (claimToken (?items ! e))) \<notin> claims (ws_db t)" if e: "e \<in> fst ` set (ws_outcomes s)" for e
  proof
    assume new: "(job_id (?items ! e), the (claimToken (?items ! e))) \<in> claims (ws_db t)"
    from assms(1) e have i: "e < length ?items" "(job_id (?items ! e), the (claimToken (?items ! e))) \<notin> claims (ws_db s)"
        "?items ! e \<in> set ?items" "None \<notin> claimToken ` set ?items"
      by (auto simp: tokens_inv_def Let_def)
    then obtain tok where tok: "claimToken (?items ! e) = Some tok" by (metis image_eqI option.exhaust)
    with i(1) have "tok \<in> used_tokens (ws_pool s)" by (auto simp: used_tokens_def)
    moreover have "tok \<in> snd ` (claims (ws_db t) - claims (ws_db s))" using new i(2) tok by force
    ultimately show False using assms(4) by blast
  qed
  with assms(1) show ?thesis unfolding tokens_inv_def Let_def assms(2,3) by blast
qed

lemma no_new_tokens: "no_new_claims a b \<Longrightarrow> snd ` (claims b - claims a) \<inter> X = {}"
  by (auto simp: no_new_claims_def)

lemma tokens_inv_outcome:
  assumes inv: "tokens_inv s" and known: "known e s" and ids: "distinct (map job_id (jobs (ws_db s)))"
    and run: "perform now runner (ex_item (exec_of e s)) out (ws_db s) = Some (b, db')"
    and items: "map ex_item (pl_execs p) = map ex_item (pl_execs (ws_pool s))"
  shows "tokens_inv (s\<lparr>ws_db := db', ws_pool := p,
      ws_outcomes := (if b then ws_outcomes s @ [(e, out)] else ws_outcomes s)\<rparr>)"
proof -
  let ?items = "map ex_item (pl_execs (ws_pool s))"
  have "?items ! e \<in> set ?items" "None \<notin> claimToken ` set ?items" using inv known by (auto simp: tokens_inv_def Let_def)
  then obtain tok where tok: "claimToken (ex_item (exec_of e s)) = Some tok" using known by (metis image_eqI length_map nth_map option.exhaust)
  note pc = perform_claims[OF run ids tok]
  have frame: "tokens_inv (s\<lparr>ws_db := db', ws_pool := p\<rparr>)"
    by (rule tokens_inv_frame[OF inv]) (use pc items no_new_tokens in auto)
  show ?thesis
  proof (cases b)
    case False
    with frame show ?thesis by simp
  next
    case True
    with pc have "(job_id (?items ! e), the (claimToken (?items ! e))) \<in> claims (ws_db s)"
      "(job_id (?items ! e), the (claimToken (?items ! e))) \<notin> claims db'" using known tok by auto
    moreover from this(1) inv have "e \<notin> fst ` set (ws_outcomes s)" by (auto simp: tokens_inv_def Let_def)
    ultimately show ?thesis using frame True known items by (auto simp: tokens_inv_def Let_def)
  qed
qed

lemma tokens_inv_internal:
  assumes "pool_internal s s'" and "tokens_inv s" and "distinct (map job_id (jobs (ws_db s)))"
  shows "tokens_inv s'"
  using assms(1)
proof cases
  case (p_timeout e)
  show ?thesis unfolding p_timeout
    by (rule tokens_inv_frame[OF assms(2)]) (use same_slots_ops(6) in \<open>auto simp: same_slots_def\<close>)
next
  case (p_grace e)
  have "map ex_item (pl_execs (fire_grace e (ws_pool s))) = map ex_item (pl_execs (ws_pool s))"
  proof -
    let ?p1 = "update_exec e (\<lambda>exec. exec\<lparr>ex_graceTimer := False\<rparr>) (ws_pool s)"
    let ?f = "\<lambda>exec. exec\<lparr>ex_abandoned := finalizeAbandonedExecution exec\<rparr>"
    have "same_slots (ws_pool s) ?p1" "same_slots (releaseSlot e ?p1) (update_exec e ?f (releaseSlot e ?p1))"
      by (rule same_slots_update_exec, simp add: keeps_job_def)+
    then show ?thesis by (simp add: fire_grace_def Let_def same_slots_def)
  qed
  then show ?thesis unfolding p_grace by (intro tokens_inv_frame[OF assms(2)]) auto
next
  case (p_write e out again now b db')
  show ?thesis unfolding p_write(1)
    by (rule tokens_inv_outcome[OF assms(2) p_write(2) assms(3) p_write(4)])
      (use same_slots_write in \<open>auto simp: same_slots_def\<close>)
next
  case (p_write_fails e out again now msg)
  show ?thesis unfolding p_write_fails
    by (rule tokens_inv_frame[OF assms(2)]) (use same_slots_write in \<open>auto simp: same_slots_def\<close>)
next
  case (p_close e)
  have "same_slots (ws_pool s) (update_exec e (\<lambda>exec. (clearTimers exec)\<lparr>ex_phase := Over\<rparr>) (ws_pool s))" by simp
  then have "map ex_item (pl_execs (close_execution e (ws_pool s))) = map ex_item (pl_execs (ws_pool s))"
    by (simp add: close_execution_def same_slots_def)
  then show ?thesis unfolding p_close by (intro tokens_inv_frame[OF assms(2)]) auto
next
  case (p_abandon e out now b db')
  show ?thesis unfolding p_abandon(1)
    by (rule tokens_inv_outcome[OF assms(2) p_abandon(2) assms(3) p_abandon(4)])
      (use same_slots_ops(7) in \<open>auto simp: same_slots_def\<close>)
next
  case (p_abandon_fails e out)
  show ?thesis unfolding p_abandon_fails
    by (rule tokens_inv_frame[OF assms(2)]) (use same_slots_ops(7) in \<open>auto simp: same_slots_def\<close>)
qed

lemma execs_starts:
  "map ex_item (pl_execs (fold (startExecution w) items p)) = map ex_item (pl_execs p) @ items"
  "length (pl_execs (fold (startExecution w) items p)) = length (pl_execs p) + length items"
  by (induction items arbitrary: p) (simp_all add: startExecution_def Let_def)

lemma tokens_inv_external:
  assumes "pool_external strict s s'" and inv: "tokens_inv s" and ok: "tables_ok (ws_db s)"
  shows "tokens_inv s'"
  using assms(1)
proof cases
  case (x_poll token clock input n claimed db')
  let ?items = "map ex_item (pl_execs (ws_pool s))"
  note c = claimNextBatch_claims[OF ok x_poll(2)]
  have used: "claimToken ` set ?items = Some ` used_tokens (ws_pool s)"
  proof (intro set_eqI)
    fix x
    have "None \<notin> claimToken ` set ?items" by (rule tokens_invD(2)[OF inv])
    then show "x \<in> claimToken ` set ?items \<longleftrightarrow> x \<in> Some ` used_tokens (ws_pool s)"
      by (cases x) (auto simp: used_tokens_def image_iff eq_commute)
  qed
  have toks: "map claimToken claimed = map (Some \<circ> token) (map job_id claimed)" using c(3) by simp
  have "inj (Some \<circ> token)" using x_poll(3) by (auto simp: inj_def)
  then have "distinct (map claimToken claimed)"
    unfolding toks using c(2) by (subst distinct_map) (auto intro: inj_on_subset)
  moreover have "claimToken ` set claimed \<subseteq> Some ` range token" using c(3) by auto
  then have "claimToken ` set ?items \<inter> claimToken ` set claimed = {}" "None \<notin> claimToken ` set claimed"
    unfolding used using x_poll(4) by blast+
  moreover have "snd ` (claims db' - claims (ws_db s)) \<inter> used_tokens (ws_pool s) = {}"
    using c(1) x_poll(4) by (force simp: drawn_def)
  then have later: "tokens_inv (s\<lparr>ws_db := db'\<rparr>)" by (intro tokens_inv_frame[OF inv]) auto
  note d = tokens_invD[OF later]
  ultimately have "distinct (map claimToken (?items @ claimed))" "None \<notin> claimToken ` set (?items @ claimed)"
    using d(1,2) by (simp_all add: image_Un image_image)
  moreover have "e < length (?items @ claimed) \<and>
      (job_id ((?items @ claimed) ! e), the (claimToken ((?items @ claimed) ! e))) \<notin> claims db'"
    if "e \<in> fst ` set (ws_outcomes s)" for e
    using d(4,5)[of e] that by (simp add: nth_append)
  ultimately show ?thesis
    unfolding x_poll(1) tokens_inv_def Let_def using d(3) by (simp add: execs_starts(1) del: map_append)
next
  case (x_queue slots' db')
  then show ?thesis by (intro tokens_inv_frame[OF inv]) auto
next
  case (x_settle e now answer)
  have "same_slots (ws_pool s) (update_exec e (settle_handler now answer) (ws_pool s))" by simp
  then show ?thesis unfolding x_settle by (intro tokens_inv_frame[OF inv]) (simp_all add: same_slots_def)
next
  case (x_extend e ms)
  show ?thesis unfolding x_extend using same_slots_ops(2) by (intro tokens_inv_frame[OF inv]) (simp_all add: same_slots_def)
next
  case (x_extend_job i ms)
  show ?thesis unfolding x_extend_job using same_slots_ops(1) by (intro tokens_inv_frame[OF inv]) (simp_all add: same_slots_def)
next
  case (x_cancel i)
  show ?thesis unfolding x_cancel using same_slots_ops(3) by (intro tokens_inv_frame[OF inv]) (simp_all add: same_slots_def)
next
  case (x_cancel_worker w requeue)
  show ?thesis unfolding x_cancel_worker using same_slots_ops(4) by (intro tokens_inv_frame[OF inv]) (simp_all add: same_slots_def)
next
  case x_shutdown
  show ?thesis unfolding x_shutdown using same_slots_ops(5) by (intro tokens_inv_frame[OF inv]) (simp_all add: same_slots_def)
next
  case (x_progress e now percent wr exec' item)
  have "ex_item exec' = ex_item (exec_of e s) \<and> ex_workerId exec' = ex_workerId (exec_of e s)"
    using x_progress(3) by (auto simp: context_updateProgress_def split: if_splits)
  then have "same_slots (ws_pool s) (update_exec e (\<lambda>_. exec') (ws_pool s))" by (simp add: same_slots_set)
  moreover have "no_new_claims (ws_db s) (updateProgress t i pc tk oid (ws_db s))" for t i pc tk oid
    unfolding updateProgress_def Let_def
    by (auto split: option.split intro!: no_new_claims_update)
  ultimately show ?thesis unfolding x_progress
    by (intro tokens_inv_frame[OF inv]) (simp_all add: same_slots_def no_new_tokens)
qed

lemma tokens_inv_reach: "pool_reach strict s \<Longrightarrow> tokens_inv s"
proof (induction rule: pool_reach_induct)
  case (started s)
  then have "ws_pool s = empty_pool (pl_runnerId (ws_pool s))" and o: "ws_outcomes s = []" by (simp_all add: started_def)
  from arg_cong[OF this(1), of pl_execs] have "pl_execs (ws_pool s) = []" by (simp add: empty_pool_def)
  with o show ?case by (simp add: tokens_inv_def)
next
  case (step s s')
  have ok: "tables_ok (ws_db s)" by (rule full_inv_tables[OF pool_reach_inv[OF step.hyps(1)]])
  with step show ?case
    using tokens_inv_internal tokens_inv_external tables_okD(1)[OF ok] by (auto simp: pool_step_def)
qed

text \<open>
  C32. However timers, handlers, cancellations, polls and the other writers of the queue interleave, a
  claim belongs to one execution, at most one of the writes of that execution changes its row, and from
  then on no row shows the claim, so no later write of it finds one.
\<close>

theorem one_outcome_per_claim:
  assumes "pool_reach strict s"
  shows "(\<forall>d e. known d s \<longrightarrow> known e s \<longrightarrow>
        claimToken (ex_item (exec_of d s)) = claimToken (ex_item (exec_of e s)) \<longrightarrow> d = e)
    \<and> distinct (map fst (ws_outcomes s))
    \<and> (\<forall>(e, out) \<in> set (ws_outcomes s). known e s \<and>
        (\<forall>r \<in> set (jobs (ws_db s)). job_id r = job_id (ex_item (exec_of e s)) \<longrightarrow>
          claimToken r \<noteq> claimToken (ex_item (exec_of e s))))"
proof (intro conjI)
  have inv: "tokens_inv s" by (rule tokens_inv_reach[OF assms])
  let ?items = "map ex_item (pl_execs (ws_pool s))"
  note t = tokens_invD[OF inv]
  show "\<forall>d e. known d s \<longrightarrow> known e s \<longrightarrow>
      claimToken (ex_item (exec_of d s)) = claimToken (ex_item (exec_of e s)) \<longrightarrow> d = e"
    using nth_eq_iff_index_eq[OF t(1)] by simp
  show "distinct (map fst (ws_outcomes s))" by (rule t(3))
  have "known e s \<and> (\<forall>r \<in> set (jobs (ws_db s)). job_id r = job_id (ex_item (exec_of e s)) \<longrightarrow>
      claimToken r \<noteq> claimToken (ex_item (exec_of e s)))" if "(e, out) \<in> set (ws_outcomes s)" for e out
  proof -
    from that have "e \<in> fst ` set (ws_outcomes s)" by force
    note e = t(4,5)[OF this]
    from e(1) have "claimToken (?items ! e) \<noteq> None" using t(2) by (metis image_eqI nth_mem)
    with e show ?thesis by (auto simp: claims_def)
  qed
  then show "\<forall>(e, out) \<in> set (ws_outcomes s). known e s \<and>
      (\<forall>r \<in> set (jobs (ws_db s)). job_id r = job_id (ex_item (exec_of e s)) \<longrightarrow>
        claimToken r \<noteq> claimToken (ex_item (exec_of e s)))" by blast
qed

subsection \<open>Slots are given back\<close>

text \<open>An execution that holds a slot is on its way: a timer of it is armed or its handler has ended.\<close>

definition on_its_way :: "execution \<Rightarrow> bool" where
  "on_its_way x = (ex_timeoutTimer x \<or> ex_graceTimer x \<or> (case ex_phase x of Writing _ _ \<Rightarrow> True | Closing \<Rightarrow> True | _ \<Rightarrow> False))"

definition slots_move :: "pool \<Rightarrow> bool" where
  "slots_move p = (\<forall>i e. map_of (pl_running p) i = Some e \<longrightarrow>
     e < length (pl_execs p) \<and> job_id (ex_item (pl_execs p ! e)) = i \<and> on_its_way (pl_execs p ! e))"

text \<open>The steps an execution can still take by itself.\<close>

definition exec_work :: "execution \<Rightarrow> nat" where
  "exec_work x = (if ex_timeoutTimer x then 3 else 0) + (if ex_graceTimer x then 2 else 0) +
     (if ex_abandoned x = None then 0 else 1) +
     (case ex_phase x of Writing _ again \<Rightarrow> if again then 3 else 2 | Closing \<Rightarrow> 1 | _ \<Rightarrow> 0)"

definition pool_work :: "pool \<Rightarrow> nat" where
  "pool_work p = sum_list (map exec_work (pl_execs p))"

definition pool_quiet :: "pool \<Rightarrow> bool" where
  "pool_quiet p = (pl_running p = [] \<and> pool_work p = 0)"

lemma exec_work_bound: "exec_work x \<le> 9"
  by (simp add: exec_work_def split: exec_phase.split)

lemma pool_work_bound: "pool_work p \<le> 9 * length (pl_execs p)"
proof -
  have "sum_list (map exec_work xs) \<le> 9 * length xs" for xs
    by (induction xs) (use exec_work_bound in \<open>auto intro: order_trans[OF add_mono]\<close>)
  then show ?thesis by (simp add: pool_work_def)
qed

lemma pool_work_update:
  assumes "e < length (pl_execs p)" and "exec_work (f (pl_execs p ! e)) < exec_work (pl_execs p ! e)"
  shows "pool_work (update_exec e f p) < pool_work p"
proof -
  have split: "pl_execs p = take e (pl_execs p) @ pl_execs p ! e # drop (Suc e) (pl_execs p)"
    using assms(1) by (rule id_take_nth_drop)
  have "pl_execs (update_exec e f p) = take e (pl_execs p) @ f (pl_execs p ! e) # drop (Suc e) (pl_execs p)"
    using assms(1) by (simp add: update_exec_def upd_conv_take_nth_drop)
  then have "pool_work (update_exec e f p) = sum_list (map exec_work (take e (pl_execs p))) +
      exec_work (f (pl_execs p ! e)) + sum_list (map exec_work (drop (Suc e) (pl_execs p)))"
    by (simp add: pool_work_def)
  moreover have "pool_work p = sum_list (map exec_work (take e (pl_execs p))) +
      exec_work (pl_execs p ! e) + sum_list (map exec_work (drop (Suc e) (pl_execs p)))"
    unfolding pool_work_def by (subst split) simp
  ultimately show ?thesis using assms(2) by simp
qed

lemma pool_work_same [simp]:
  "pool_work (releaseSlot e p) = pool_work p" "pool_work (recordScheduleExecution x out b p) = pool_work p"
  by (simp_all add: pool_work_def)

lemma slots_moveD:
  assumes "slots_move p" and "map_of (pl_running p) i = Some e"
  shows "e < length (pl_execs p)" "job_id (ex_item (pl_execs p ! e)) = i" "on_its_way (pl_execs p ! e)"
  using assms unfolding slots_move_def by blast+

lemma slots_move_update:
  assumes inv: "slots_move p" and f: "keeps_job f"
    and "map_of (pl_running p) (job_id (ex_item (pl_execs p ! e))) = Some e \<Longrightarrow> on_its_way (f (pl_execs p ! e))"
  shows "slots_move (update_exec e f p)"
  unfolding slots_move_def update_exec_fields length_update_exec
proof (intro allI impI)
  fix i c assume run: "map_of (pl_running p) i = Some c"
  note d = slots_moveD[OF inv run]
  show "c < length (pl_execs p) \<and> job_id (ex_item (pl_execs (update_exec e f p) ! c)) = i \<and> on_its_way (pl_execs (update_exec e f p) ! c)"
    using d assms(3) f run by (cases "c = e") (simp_all add: update_exec_nth keeps_job_def)
qed

lemma released_running:
  "map_of (pl_running (releaseSlot e p)) i = Some c \<Longrightarrow> map_of (pl_running p) i = Some c"
  by (simp add: releaseSlot_def Let_def delete_conv' split: if_splits)

lemma slots_move_release: "slots_move p \<Longrightarrow> slots_move (releaseSlot e p)"
  unfolding slots_move_def releaseSlot_execs using released_running[of e p] by blast

text \<open>After its slot is released an execution may change as it likes.\<close>

lemma slots_move_released:
  assumes "slots_move p" and "keeps_job f"
  shows "slots_move (update_exec e f (releaseSlot e p))"
proof (rule slots_move_update[OF slots_move_release[OF assms(1)] assms(2)])
  assume "map_of (pl_running (releaseSlot e p)) (job_id (ex_item (pl_execs (releaseSlot e p) ! e))) = Some e"
  then show "on_its_way (f (pl_execs (releaseSlot e p) ! e))"
    by (simp add: releaseSlot_def Let_def delete_conv' split: if_splits)
qed

lemma slots_move_close:
  assumes "slots_move p" and "e < length (pl_execs p)"
  shows "slots_move (close_execution e p)"
proof -
  let ?f = "\<lambda>exec. (clearTimers exec)\<lparr>ex_phase := Over\<rparr>"
  have f: "keeps_job ?f" by simp
  then have "releaseSlot e (update_exec e ?f p) = update_exec e ?f (releaseSlot e p)"
    using assms(2) by (simp add: releaseSlot_def Let_def update_exec_def keeps_job_def clearTimers_def split: option.split)
  with slots_move_released[OF assms(1) f] show ?thesis by (simp add: close_execution_def)
qed

lemma on_its_way_ops:
  "on_its_way (abortExecution r x)" "on_its_way (armTimeout x)" "on_its_way (settle_handler now answer x)"
  by (simp_all add: on_its_way_def abortExecution_def armTimeout_def settle_handler_def split: sum.split exec_phase.split)

text \<open>What the grace timer does, with the flag of the timer and the outcome in one change.\<close>

definition forced_off :: "execution \<Rightarrow> execution" where
  "forced_off exec = (exec\<lparr>ex_graceTimer := False\<rparr>)\<lparr>ex_abandoned := finalizeAbandonedExecution (exec\<lparr>ex_graceTimer := False\<rparr>)\<rparr>"

lemma fire_grace_cases:
  assumes "e < length (pl_execs p)"
  shows "fire_grace e p = (if map_of (pl_running p) (job_id (ex_item (pl_execs p ! e))) = Some e
    then update_exec e forced_off (releaseSlot e p) else update_exec e (\<lambda>exec. exec\<lparr>ex_graceTimer := False\<rparr>) p)"
  using assms by (simp add: fire_grace_def Let_def update_exec_def releaseSlot_def forced_off_def split: option.split)

lemma slots_move_internal:
  assumes "pool_internal s s'" and inv: "slots_move (ws_pool s)"
  shows "slots_move (ws_pool s')"
  using assms(1)
proof cases
  case (p_timeout e)
  have "slots_move (fire_timeout e (ws_pool s))"
    unfolding fire_timeout_def by (rule slots_move_update[OF inv]) (simp_all add: on_its_way_ops)
  then show ?thesis by (simp add: p_timeout)
next
  case (p_grace e)
  have "slots_move (fire_grace e (ws_pool s))"
  proof (cases "map_of (pl_running (ws_pool s)) (job_id (ex_item (exec_of e s))) = Some e")
    case True
    with slots_move_released[OF inv, of forced_off e] p_grace(2) show ?thesis
      by (simp add: fire_grace_cases keeps_job_def forced_off_def)
  next
    case False
    then show ?thesis using slots_move_update[OF inv, of "\<lambda>exec. exec\<lparr>ex_graceTimer := False\<rparr>" e] p_grace(2)
      by (simp add: fire_grace_cases)
  qed
  then show ?thesis by (simp add: p_grace)
next
  case (p_write e out again now b db')
  have "slots_move (write_ended now e True [] (ws_pool s))"
    unfolding write_ended_def p_write(3) exec_phase.case
    by (rule slots_move_update) (use inv in \<open>simp_all add: slots_move_def on_its_way_def\<close>)
  then show ?thesis by (simp add: p_write(1))
next
  case (p_write_fails e out again now msg)
  have "slots_move (write_ended now e False msg (ws_pool s))"
    unfolding write_ended_def p_write_fails(3) exec_phase.case
    by (rule slots_move_update) (use inv in \<open>simp_all add: slots_move_def on_its_way_def\<close>)
  then show ?thesis by (simp add: p_write_fails(1))
next
  case (p_close e)
  then show ?thesis by (simp add: slots_move_close[OF inv])
next
  case (p_abandon e out now b db')
  have "slots_move (abandoned_ended e (ws_pool s))"
    unfolding abandoned_ended_def by (rule slots_move_update[OF inv])
      (simp, drule slots_moveD(3)[OF inv], simp add: on_its_way_def)
  then show ?thesis by (simp add: p_abandon(1))
next
  case (p_abandon_fails e out)
  have "slots_move (abandoned_ended e (ws_pool s))"
    unfolding abandoned_ended_def by (rule slots_move_update[OF inv])
      (simp, drule slots_moveD(3)[OF inv], simp add: on_its_way_def)
  then show ?thesis by (simp add: p_abandon_fails(1))
qed

lemma pool_work_internal:
  assumes "pool_internal s s'"
  shows "pool_work (ws_pool s') < pool_work (ws_pool s)"
  using assms
proof cases
  case (p_timeout e)
  then show ?thesis
    by (simp add: fire_timeout_def) (rule pool_work_update, simp_all add: exec_work_def abortExecution_def clearTimers_def)
next
  case (p_grace e)
  have "pool_work (update_exec e (\<lambda>exec. exec\<lparr>ex_graceTimer := False\<rparr>) (ws_pool s)) < pool_work (ws_pool s)"
    by (rule pool_work_update) (simp_all add: p_grace exec_work_def)
  moreover have "pool_work (update_exec e forced_off (releaseSlot e (ws_pool s))) < pool_work (releaseSlot e (ws_pool s))"
    by (rule pool_work_update) (simp_all add: p_grace exec_work_def forced_off_def)
  ultimately show ?thesis unfolding p_grace(1) using p_grace(2) by (simp add: fire_grace_cases)
next
  case (p_write e out again now b db')
  then show ?thesis
    by (simp add: write_ended_def)
      (rule order.strict_trans2[OF pool_work_update], auto simp: exec_work_def)
next
  case (p_write_fails e out again now msg)
  then show ?thesis
    by (simp add: write_ended_def)
      (rule order.strict_trans2[OF pool_work_update], auto simp: exec_work_def)
next
  case (p_close e)
  then show ?thesis
    by (simp add: close_execution_def) (rule pool_work_update, simp_all add: exec_work_def clearTimers_def)
next
  case (p_abandon e out now b db')
  then show ?thesis
    by (simp add: abandoned_ended_def) (rule pool_work_update, simp_all add: exec_work_def)
next
  case (p_abandon_fails e out)
  then show ?thesis
    by (simp add: abandoned_ended_def) (rule pool_work_update, simp_all add: exec_work_def)
qed

lemma pool_step_or_quiet:
  assumes inv: "slots_move (ws_pool s)" and busy: "\<not> pool_quiet (ws_pool s)"
  shows "\<exists>t. pool_internal s t"
proof -
  have "\<exists>e. known e s \<and> exec_work (exec_of e s) \<noteq> 0"
  proof (cases "pl_running (ws_pool s) = []")
    case True
    with busy have "pool_work (ws_pool s) \<noteq> 0" by (simp add: pool_quiet_def)
    then obtain x where "x \<in> set (pl_execs (ws_pool s))" "exec_work x \<noteq> 0" by (auto simp: pool_work_def)
    then show ?thesis by (metis in_set_conv_nth)
  next
    case False
    then obtain i e rest where "pl_running (ws_pool s) = (i, e) # rest" by (metis neq_Nil_conv surj_pair)
    then have "map_of (pl_running (ws_pool s)) i = Some e" by simp
    from slots_moveD[OF inv this] have "known e s" "on_its_way (exec_of e s)" by simp_all
    then have "known e s \<and> exec_work (exec_of e s) \<noteq> 0"
      by (auto simp: on_its_way_def exec_work_def split: exec_phase.splits)
    then show ?thesis ..
  qed
  then obtain e where e: "known e s" "exec_work (exec_of e s) \<noteq> 0" by blast
  then consider "ex_timeoutTimer (exec_of e s)" | "ex_graceTimer (exec_of e s)" | out where "ex_abandoned (exec_of e s) = Some out"
    | out again where "ex_phase (exec_of e s) = Writing out again" | "ex_phase (exec_of e s) = Closing"
    by (auto simp: exec_work_def split: if_splits exec_phase.splits)
  then show ?thesis
  proof cases
    case 1
    then show ?thesis using p_timeout[OF e(1)] by blast
  next
    case 2
    then show ?thesis using p_grace[OF e(1)] by blast
  next
    case 3
    then show ?thesis using p_abandon_fails[OF e(1)] by blast
  next
    case 4
    then show ?thesis using p_write_fails[OF e(1)] by blast
  next
    case 5
    then show ?thesis using p_close[OF e(1)] by blast
  qed
qed

interpretation slots: settling pool_internal "\<lambda>s. slots_move (ws_pool s)" "\<lambda>s. pool_work (ws_pool s)" "\<lambda>s. pool_quiet (ws_pool s)"
  by unfold_locales (auto intro: slots_move_internal pool_work_internal pool_step_or_quiet)

text \<open>The events from outside keep the way open as well.\<close>

lemma slots_move_abort_all: "slots_move p \<Longrightarrow> slots_move (fst (abort_all chosen r p))"
proof -
  have "slots_move p \<Longrightarrow> slots_move (fold (\<lambda>e. update_exec e (abortExecution r)) es p)" for es
  proof (induction es arbitrary: p)
    case (Cons e es)
    have "slots_move (update_exec e (abortExecution r) p)"
      by (rule slots_move_update[OF Cons.prems]) (simp_all add: on_its_way_ops)
    from Cons.IH[OF this] show ?case by simp
  qed simp
  then show "slots_move p \<Longrightarrow> slots_move (fst (abort_all chosen r p))" by (simp add: abort_all_def Let_def)
qed

lemma slots_move_start: "slots_move p \<Longrightarrow> slots_move (startExecution w item p)"
  unfolding slots_move_def
proof (intro allI impI)
  fix i c
  let ?q = "startExecution w item p"
  assume inv: "\<forall>i e. map_of (pl_running p) i = Some e \<longrightarrow>
      e < length (pl_execs p) \<and> job_id (ex_item (pl_execs p ! e)) = i \<and> on_its_way (pl_execs p ! e)"
    and run: "map_of (pl_running ?q) i = Some c"
  show "c < length (pl_execs ?q) \<and> job_id (ex_item (pl_execs ?q ! c)) = i \<and> on_its_way (pl_execs ?q ! c)"
  proof (cases "i = job_id item")
    case True
    with run have "c = length (pl_execs p)" by (simp add: startExecution_def Let_def update_conv')
    with True show ?thesis by (simp add: startExecution_def Let_def on_its_way_def)
  next
    case False
    with run have "map_of (pl_running p) i = Some c" by (simp add: startExecution_def Let_def update_conv')
    with inv have "c < length (pl_execs p) \<and> job_id (ex_item (pl_execs p ! c)) = i \<and> on_its_way (pl_execs p ! c)" by blast
    then show ?thesis by (simp add: startExecution_def Let_def nth_append)
  qed
qed

lemma slots_move_extend: "slots_move p \<Longrightarrow> slots_move (extendTimeout i ms p)"
  by (auto simp: extendTimeout_def on_its_way_ops intro: slots_move_update split: option.split)

lemma slots_move_external:
  assumes "pool_external strict s s'" and inv: "slots_move (ws_pool s)"
  shows "slots_move (ws_pool s')"
  using assms(1)
proof cases
  case (x_poll token clock input n claimed db')
  have "slots_move p \<Longrightarrow> slots_move (fold (startExecution w) items p)" for w items p
    by (induction items arbitrary: p) (simp_all add: slots_move_start)
  with inv show ?thesis by (simp add: x_poll(1))
next
  case (x_queue slots' db')
  with inv show ?thesis by simp
next
  case (x_settle e now answer)
  have "slots_move (update_exec e (settle_handler now answer) (ws_pool s))"
    by (rule slots_move_update[OF inv]) (simp_all add: on_its_way_ops)
  then show ?thesis by (simp add: x_settle(1))
next
  case (x_extend e ms)
  then show ?thesis using slots_move_extend[OF inv] inv by (simp add: context_extendTimeout_def Let_def)
next
  case (x_extend_job i ms)
  then show ?thesis using slots_move_extend[OF inv] by simp
next
  case (x_cancel i)
  have "slots_move (fst (cancelExecution i (ws_pool s)))"
    using inv by (auto simp: cancelExecution_def on_its_way_ops intro: slots_move_update split: option.split)
  then show ?thesis by (simp add: x_cancel)
next
  case (x_cancel_worker w requeue)
  then show ?thesis using slots_move_abort_all[OF inv] by (simp add: cancelAllForWorker_def)
next
  case x_shutdown
  then show ?thesis using slots_move_abort_all[OF inv] by (simp add: cancelAllExecutions_def)
next
  case (x_progress e now percent wr exec' item)
  let ?f = "\<lambda>x. x\<lparr>ex_lastProgressWriteAt := ex_lastProgressWriteAt exec'\<rparr>"
  have "update_exec e (\<lambda>_. exec') (ws_pool s) = update_exec e ?f (ws_pool s)"
    using x_progress(3) by (auto simp: context_updateProgress_def update_exec_def split: if_splits)
  moreover have "slots_move (update_exec e ?f (ws_pool s))"
    by (rule slots_move_update[OF inv]) (simp add: keeps_job_def, drule slots_moveD(3)[OF inv], simp add: on_its_way_def)
  ultimately show ?thesis by (simp add: x_progress(1))
qed

lemma slots_move_reach: "pool_reach strict s \<Longrightarrow> slots_move (ws_pool s)"
proof (induction rule: pool_reach_induct)
  case (started s)
  then have "ws_pool s = empty_pool (pl_runnerId (ws_pool s))" by (simp add: started_def)
  from arg_cong[OF this, of pl_running] show ?case by (simp add: slots_move_def empty_pool_def)
next
  case (step s s')
  then show ?case using slots_move_internal slots_move_external by (auto simp: pool_step_def)
qed

text \<open>
  C34. From every reachable state, even if no handler ever answers: the steps the runtime takes by itself
  are at most nine for each execution, in whatever order; they can only stop when no slot is held any
  more; and then, when a poll never starts a job that still holds a slot, every execution has given back
  its slot.
\<close>

theorem slots_are_given_back:
  assumes "pool_reach strict s"
  shows "(\<forall>n t. (pool_internal ^^ n) s t \<longrightarrow> n \<le> 9 * length (pl_execs (ws_pool s)))
    \<and> (\<exists>n t. (pool_internal ^^ n) s t \<and> (\<nexists>u. pool_internal t u))
    \<and> (\<forall>n t. (pool_internal ^^ n) s t \<and> (\<nexists>u. pool_internal t u) \<longrightarrow> totalRunningCount (ws_pool t) = 0)
    \<and> (\<forall>n t. strict \<and> (pool_internal ^^ n) s t \<and> (\<nexists>u. pool_internal t u) \<longrightarrow>
        set (pl_freed (ws_pool t)) = {e. known e t} \<and> getRunningCounts (ws_pool t) = [])"
proof (rule conjI[OF _ conjI[OF _ conjI]])
  note inv = slots_move_reach[OF assms]
  have "n \<le> 9 * length (pl_execs (ws_pool s))" if "(pool_internal ^^ n) s t" for n t
    using slots.steps_bounded[OF that inv] pool_work_bound[of "ws_pool s"] by linarith
  then show "\<forall>n t. (pool_internal ^^ n) s t \<longrightarrow> n \<le> 9 * length (pl_execs (ws_pool s))" by blast
  show "\<exists>n t. (pool_internal ^^ n) s t \<and> (\<nexists>u. pool_internal t u)" using slots.settles[OF inv] by blast
  have none: "pl_running (ws_pool t) = []" if "(pool_internal ^^ n) s t" "\<nexists>u. pool_internal t u" for n t
    using slots.stuck_is_quiet[OF that(1) inv that(2)] by (simp add: pool_quiet_def)
  show "\<forall>n t. (pool_internal ^^ n) s t \<and> (\<nexists>u. pool_internal t u) \<longrightarrow> totalRunningCount (ws_pool t) = 0"
    using none unfolding totalRunningCount_def by (metis list.size(3))
  show "\<forall>n t. strict \<and> (pool_internal ^^ n) s t \<and> (\<nexists>u. pool_internal t u) \<longrightarrow>
      set (pl_freed (ws_pool t)) = {e. known e t} \<and> getRunningCounts (ws_pool t) = []"
  proof (intro allI impI, elim conjE)
    fix n t
    assume strict and run: "(pool_internal ^^ n) s t" "\<nexists>u. pool_internal t u"
    have "pool_reach strict t"
    proof -
      from assms obtain s0 where "started s0" "(pool_step strict)\<^sup>*\<^sup>* s0 s" by (auto simp: pool_reach_def)
      moreover have "(pool_step strict)\<^sup>*\<^sup>* s t"
        using relpowp_imp_rtranclp[OF run(1)] by (rule rtranclp_mono[THEN predicate2D, rotated]) (auto simp: pool_step_def)
      ultimately show ?thesis by (auto simp: pool_reach_def)
    qed
    with \<open>strict\<close> have d: "slots_exact (ws_pool t)" using slots_exact_reach[of t] by simp
    have "e \<in> set (pl_freed (ws_pool t)) \<longleftrightarrow> known e t" for e using slots_exactD(6)[OF d, of e] none[OF run] by simp
    moreover have "pl_counts (ws_pool t) = []"
    proof (cases "pl_counts (ws_pool t)")
      case (Cons entry rest)
      have "map_of (pl_counts (ws_pool t)) (fst entry) = None"
        using slots_exactD(5)[OF d, of "fst entry"] none[OF run] by (simp add: held_by_def)
      with Cons show ?thesis by simp
    qed
    ultimately show "set (pl_freed (ws_pool t)) = {e. known e t} \<and> getRunningCounts (ws_pool t) = []"
      by (auto simp: getRunningCounts_def)
  qed
qed

subsection \<open>A run\<close>

text \<open>The server finds two jobs, claims and starts the first one, whose handler answers.\<close>

definition sample_boot :: worker_system where
  "sample_boot = \<lparr>ws_slots = (\<lambda>_. 0), ws_db = sample_two, ws_pool = empty_pool ''r1'', ws_outcomes = []\<rparr>"

definition sample_items :: "job list" where
  "sample_items = (case sample_claimed of Some (items, _) \<Rightarrow> items | None \<Rightarrow> [])"

definition sample_polled :: worker_system where
  "sample_polled = sample_boot\<lparr>ws_db := sample_running, ws_pool := fold (startExecution ''scan'') sample_items (empty_pool ''r1'')\<rparr>"

definition sample_answered :: worker_system where
  "sample_answered = sample_polled\<lparr>ws_pool := update_exec 0 (settle_handler 6000 (Inr ''ok'')) (ws_pool sample_polled)\<rparr>"

definition sample_written :: worker_system where
  "sample_written = sample_answered\<lparr>ws_db := sample_done, ws_pool := write_ended 6000 0 True [] (ws_pool sample_answered),
     ws_outcomes := [(0, Out_complete ''ok'')]\<rparr>"

lemma pool_reach_step: "pool_reach strict s \<Longrightarrow> pool_step strict s t \<Longrightarrow> pool_reach strict t"
  by (auto simp: pool_reach_def intro: rtranclp.rtrancl_into_rtrancl)

lemma sample_polled_reach: "pool_reach strict sample_polled"
proof -
  have "sample_claimed \<noteq> None" by code_simp
  then have claim: "claimNextBatch (\<lambda>i. 100 + i) 5000 sample_claim 5 (ws_db sample_boot) = Some (sample_items, sample_running)"
    by (auto simp: sample_claimed_def sample_running_def sample_items_def sample_boot_def split: option.splits)
  have w: "cl_workerId sample_claim = ''scan''" "ws_pool sample_boot = empty_pool ''r1''" by (simp_all add: sample_claim_def sample_boot_def)
  have "pool_external strict sample_boot sample_polled"
    unfolding sample_polled_def w(1)[symmetric] w(2)[symmetric]
    by (rule x_poll[OF claim]) (auto simp: inj_def used_tokens_def w empty_pool_def getActiveJobIds_def)
  moreover have "started sample_boot"
    using sample_reach(1) by (simp add: started_def sample_boot_def empty_pool_def)
  then have boot: "pool_reach strict sample_boot" unfolding pool_reach_def by blast
  ultimately have "pool_step strict sample_boot sample_polled" by (simp only: pool_step_def simp_thms)
  with boot show ?thesis by (rule pool_reach_step)
qed

lemma sample_polled_exec:
  "length (pl_execs (ws_pool sample_polled)) = 1" "ex_phase (exec_of 0 sample_polled) = Handling"
  "ex_phase (exec_of 0 sample_answered) = Writing (Out_complete ''ok'') True"
  "perform 6000 (pl_runnerId (ws_pool sample_answered)) (ex_item (exec_of 0 sample_answered)) (Out_complete ''ok'')
     (ws_db sample_answered) = Some (True, sample_done)"
  by code_simp+

lemma sample_written_reach: "pool_reach strict sample_written"
proof -
  have "pool_external strict sample_polled sample_answered"
    unfolding sample_answered_def by (rule x_settle) (simp_all add: sample_polled_exec)
  then have answered: "pool_reach strict sample_answered"
    by - (rule pool_reach_step[OF sample_polled_reach], simp add: pool_step_def)
  have "known 0 sample_answered" by code_simp
  from p_write[OF this sample_polled_exec(3,4)] have "pool_internal sample_answered sample_written"
    by (simp add: sample_written_def sample_answered_def sample_polled_def sample_boot_def)
  then show ?thesis by - (rule pool_reach_step[OF answered], simp add: pool_step_def)
qed


theorem one_outcome_per_claim_witness:
  "(0, Out_complete ''ok'') \<in> set (ws_outcomes sample_written) \<and>
   Some 110 \<notin> claimToken ` {r \<in> set (jobs (ws_db sample_written)). job_id r = 10}"
proof -
  have out: "(0, Out_complete ''ok'') \<in> set (ws_outcomes sample_written)" by (simp add: sample_written_def)
  have "job_id (ex_item (exec_of 0 sample_written)) = 10" "claimToken (ex_item (exec_of 0 sample_written)) = Some 110"
    by code_simp+
  with conjunct2[OF conjunct2[OF one_outcome_per_claim[OF sample_written_reach]]] out show ?thesis by fastforce
qed

theorem slots_are_given_back_witness:
  "\<exists>n t. (pool_internal ^^ n) sample_polled t \<and> n \<le> 9 \<and> totalRunningCount (ws_pool t) = 0 \<and>
     set (pl_freed (ws_pool t)) = {e. known e t}"
proof -
  note c = slots_are_given_back[OF sample_polled_reach, of True]
  from c obtain n t where run: "(pool_internal ^^ n) sample_polled t" "\<nexists>u. pool_internal t u" by blast
  have "n \<le> 9" using conjunct1[OF c] run(1) by (auto simp: sample_polled_exec)
  with run c show ?thesis by blast
qed

subsection \<open>A start while the old execution closes\<close>

text \<open>
  What \<open>strict\<close> excludes: the row of an execution is requeued, and before its \<^verbatim>\<open>finally\<close> block has run
  a poll starts the job again. The map then names the new execution only, the old one no longer finds
  its slot, and the count of the worker stays one too high when both have ended.
\<close>

definition started_twice :: pool where
  "started_twice = (let item = hd sample_items; p = startExecution ''scan'' item (empty_pool ''r1'')
     in close_execution 1 (close_execution 0 (startExecution ''scan'' item p)))"

lemma stale_slot_leaks:
  "totalRunningCount started_twice = 0" "getRunningCounts started_twice = [(''scan'', 1)]"
  by code_simp+

end
