(* ===== verification/Worker_Intake.thy ===== *)
theory Worker_Intake
  imports Worker_Policy Queue_Laws
begin

section \<open>Putting jobs into the queue\<close>

text \<open>
  \<^verbatim>\<open>workers/core/worker-queue.service.ts\<close> and \<^verbatim>\<open>workers/core/worker-operation.service.ts\<close>. A
  registered definition is what \<^verbatim>\<open>normalizeDefinition\<close> gives, so its attempts and its backoff are
  set. Identities drawn by \<^verbatim>\<open>randomUUIDv7\<close> are arguments. The callback that wakes the poller is
  returned as a flag.
\<close>

subsection \<open>The registry\<close>

record worker_def =
  wd_id :: string
  wd_category :: "string option"
  wd_defaultPriority :: "int option"
  wd_attempts :: int
  wd_backoff :: "backoff_type \<times> int"
  wd_defaultTriggers :: "trigger list"
  wd_cron :: "string option"
  wd_scheduleData :: "string option"
  wd_scheduleOperationId :: "operation_id option"

type_synonym registry = "(string, worker_def) jsmap"

definition register_worker :: "worker_def \<Rightarrow> registry \<Rightarrow> registry result" where
  "register_worker d reg =
     (if wd_id d \<in> set (keys reg) then Throw (DomainError Conflict ''worker.already_registered'')
      else Return (reg @ [(wd_id d, d)]))"

definition unregister_worker :: "string \<Rightarrow> registry \<Rightarrow> bool \<times> registry" where
  "unregister_worker w reg = (w \<in> set (keys reg), AList.delete w reg)"

definition worker_not_found :: domain_error where
  "worker_not_found = DomainError Not_found ''worker.not_found''"

subsection \<open>The queue service\<close>

record enqueue_options =
  eo_operationId :: "operation_id option"
  eo_dependsOnJobId :: "job_id option"
  eo_dependsOnTaskIds :: "job_id list option"
  eo_dedupeKey :: "string option"
  eo_reference :: "(string \<times> string) option"
  eo_priority :: "int option"
  eo_attempts :: "int option"
  eo_backoff :: "(backoff_type \<times> int) option"
  eo_delayMs :: "int option"

definition no_options :: enqueue_options where
  "no_options = \<lparr>eo_operationId = None, eo_dependsOnJobId = None, eo_dependsOnTaskIds = None, eo_dedupeKey = None,
     eo_reference = None, eo_priority = None, eo_attempts = None, eo_backoff = None, eo_delayMs = None\<rparr>"

definition given :: "'a option \<Rightarrow> 'a \<Rightarrow> 'a" where
  "given x d = (case x of None \<Rightarrow> d | Some v \<Rightarrow> v)"

definition buildWorkerItemInput ::
  "int \<Rightarrow> job_id \<Rightarrow> string \<Rightarrow> string \<Rightarrow> enqueue_options \<Rightarrow> worker_def \<Rightarrow> enqueue_input" where
  "buildWorkerItemInput clock i w data_text opts d =
     (let backoff = given (eo_backoff opts) (wd_backoff d) in
      \<lparr>in_id = i, in_workerId = w, in_operationId = eo_operationId opts,
       in_dependsOnJobId = (case eo_dependsOnJobId opts of Some x \<Rightarrow> Some x
         | None \<Rightarrow> (case eo_dependsOnTaskIds opts of Some (x # _) \<Rightarrow> Some x | _ \<Rightarrow> None)),
       in_dependsOnTaskIds = eo_dependsOnTaskIds opts, in_data = data_text, in_dedupeKey = eo_dedupeKey opts,
       in_referenceType = map_option fst (eo_reference opts), in_referenceId = map_option snd (eo_reference opts),
       in_priority = given (eo_priority opts) (given (wd_defaultPriority d) 0),
       in_maxAttempts = max 1 (given (eo_attempts opts) (wd_attempts d)),
       in_backoffType = fst backoff, in_backoffDelayMs = max 0 (snd backoff),
       in_runAt = clock + max 0 (given (eo_delayMs opts) 0)\<rparr>)"

subsection \<open>Enqueueing under an operation\<close>

text \<open>
  \<^verbatim>\<open>enqueueWithOperation\<close> around the enqueue of one job, as a machine of its waits. The enqueue of the
  queue service wraps the repository in a second \<^verbatim>\<open>enqueueWithOperation\<close>, which owns no operation and
  does nothing else. \<open>ik_checked\<close>: the caller passes \<^verbatim>\<open>isAttached\<close>.
\<close>

datatype intake_phase =
    Creating
  | Inserting operation_id
  | Detaching operation_id job
  | Cancelling operation_id failure
  | Removing operation_id failure
  | Enqueued operation_id job
  | Refused_intake failure

record intake =
  ik_workerId :: string
  ik_data :: string
  ik_options :: enqueue_options
  ik_checked :: bool
  ik_phase :: intake_phase

definition begin_intake :: "string \<Rightarrow> string \<Rightarrow> enqueue_options \<Rightarrow> bool \<Rightarrow> intake" where
  "begin_intake w data_text opts checked =
     \<lparr>ik_workerId = w, ik_data = data_text, ik_options = opts, ik_checked = checked,
      ik_phase = (case eo_operationId opts of None \<Rightarrow> Creating | Some oid \<Rightarrow> Inserting oid)\<rparr>"

definition owns_operation :: "intake \<Rightarrow> bool" where
  "owns_operation k \<longleftrightarrow> eo_operationId (ik_options k) = None"

definition create_for_intake :: "int \<Rightarrow> operation_id \<Rightarrow> intake \<Rightarrow> worker_db \<Rightarrow> intake \<times> worker_db" where
  "create_for_intake now oid k db =
     (k\<lparr>ik_phase := Inserting oid\<rparr>, createOperation now oid (ik_workerId k) (Some (''worker'', ik_workerId k)) None db)"

text \<open>The insert; a worker that is not registered throws before it.\<close>

definition insert_for_intake ::
  "int \<Rightarrow> registry \<Rightarrow> job_id \<Rightarrow> operation_id \<Rightarrow> intake \<Rightarrow> worker_db \<Rightarrow> intake \<times> worker_db" where
  "insert_for_intake now reg i oid k db =
     (let outcome = (case map_of reg (ik_workerId k) of
            None \<Rightarrow> Inl (Domain worker_not_found)
          | Some d \<Rightarrow> enqueue now (buildWorkerItemInput now i (ik_workerId k) (ik_data k)
              ((ik_options k)\<lparr>eo_operationId := Some oid\<rparr>) d) db)
      in case outcome of
           Inr (j, db') \<Rightarrow>
             (k\<lparr>ik_phase := (if owns_operation k \<and> ik_checked k \<and> operationId j \<noteq> Some oid then Detaching oid j
                else Enqueued oid j)\<rparr>, db')
         | Inl e \<Rightarrow> (k\<lparr>ik_phase := (if owns_operation k then Cancelling oid e else Refused_intake e)\<rparr>, db))"

text \<open>The next step when the database answers.\<close>

definition intake_step :: "int \<Rightarrow> registry \<Rightarrow> operation_id \<Rightarrow> job_id \<Rightarrow> intake \<Rightarrow> worker_db \<Rightarrow> (intake \<times> worker_db) option" where
  "intake_step now reg oid i k db =
     (case ik_phase k of
        Creating \<Rightarrow> Some (create_for_intake now oid k db)
      | Inserting o1 \<Rightarrow> Some (insert_for_intake now reg i o1 k db)
      | Detaching o1 j \<Rightarrow> Some (k\<lparr>ik_phase := Enqueued o1 j\<rparr>, removeOperation o1 db)
      | Cancelling o1 e \<Rightarrow>
          (case cancelPendingByOperation now o1 db of None \<Rightarrow> None
           | Some (n, db') \<Rightarrow> Some (k\<lparr>ik_phase := Removing o1 e\<rparr>, db'))
      | Removing o1 e \<Rightarrow> Some (k\<lparr>ik_phase := Refused_intake e\<rparr>, removeOperation o1 db)
      | Enqueued o1 j \<Rightarrow> None
      | Refused_intake e \<Rightarrow> None)"

text \<open>The next step when the call of the database fails with \<open>e\<close>.\<close>

definition intake_fails :: "failure \<Rightarrow> intake \<Rightarrow> intake" where
  "intake_fails e k =
     k\<lparr>ik_phase := (case ik_phase k of
        Creating \<Rightarrow> Refused_intake e
      | Inserting o1 \<Rightarrow> (if owns_operation k then Cancelling o1 e else Refused_intake e)
      | Detaching o1 j \<Rightarrow> Enqueued o1 j
      | Cancelling o1 e' \<Rightarrow> Removing o1 e'
      | Removing o1 e' \<Rightarrow> Refused_intake e'
      | ph \<Rightarrow> ph)\<rparr>"

definition intake_over :: "intake \<Rightarrow> bool" where
  "intake_over k = (case ik_phase k of Enqueued _ _ \<Rightarrow> True | Refused_intake _ \<Rightarrow> True | _ \<Rightarrow> False)"

definition intake_rank :: "intake \<Rightarrow> nat" where
  "intake_rank k = (case ik_phase k of Creating \<Rightarrow> 4 | Inserting _ \<Rightarrow> 3 | Detaching _ _ \<Rightarrow> 2 | Cancelling _ _ \<Rightarrow> 2
     | Removing _ _ \<Rightarrow> 1 | _ \<Rightarrow> 0)"

lemma intake_rank_steps:
  "intake_step now reg oid i k db = Some (k', db') \<Longrightarrow> intake_rank k' < intake_rank k"
  "\<not> intake_over k \<Longrightarrow> intake_rank (intake_fails e k) < intake_rank k"
  by (auto simp: intake_step_def create_for_intake_def insert_for_intake_def intake_rank_def intake_fails_def
      intake_over_def Let_def split: intake_phase.splits option.splits sum.splits prod.splits if_splits)

text \<open>The call with nobody else at the database.\<close>

function run_intake :: "int \<Rightarrow> registry \<Rightarrow> operation_id \<Rightarrow> job_id \<Rightarrow> intake \<Rightarrow> worker_db \<Rightarrow> (intake \<times> worker_db) option" where
  "run_intake now reg oid i k db =
     (if intake_over k then Some (k, db)
      else (case intake_step now reg oid i k db of None \<Rightarrow> None
            | Some (k', db') \<Rightarrow> run_intake now reg oid i k' db'))"
  by auto

termination by (relation "measure (\<lambda>(now, reg, oid, i, k, db). intake_rank k)") (auto dest: intake_rank_steps)

declare run_intake.simps [simp del]

subsection \<open>All or nothing\<close>

lemma enqueue_one:
  "enqueue now inp db =
     (case validateBatchRelations [inp] db of Some e \<Rightarrow> Inl (Domain e)
      | None \<Rightarrow>
          let row = job_of_input now inp in
          if \<not> row_checks row then Inl Constraint_failed
          else if \<exists>r \<in> set (jobs db). conflicting row r then
            (case fetchDedupedExisting [inp] [] db of [] \<Rightarrow> Inl (Domain (DomainError Conflict ''worker.enqueue_failed''))
             | j # _ \<Rightarrow> Inr (j, db))
          else Inr (row, applyOperationCounts (toOperationCounts [operationId row]) (incrementTotalItems now)
                 (db\<lparr>jobs := jobs db @ [row]\<rparr>)))"
proof -
  let ?row = "job_of_input now inp"
  have f: "forEachChunked [?row] insert_chunk ([], db) =
      (if \<exists>r \<in> set (jobs db). conflicting ?row r then ([], db) else ([?row], db\<lparr>jobs := jobs db @ [?row]\<rparr>))"
    by (simp add: forEachChunked_def chunksFor_def queryChunkSize_def insert_chunk_def)
  have e: "applyOperationCounts (toOperationCounts []) mark db = db" for mark
    by (simp add: toOperationCounts_def applyOperationCounts_def)
  have all: "fetchDedupedExisting [inp] [?row] db' = [?row]" for db' by (simp add: fetchDedupedExisting_def)
  show ?thesis
    unfolding enqueue_def enqueueMany_def
    by (simp add: f e all Let_def split: option.split list.split)
qed

lemma found_by_dedupe:
  assumes "j \<in> set (fetchDedupedExisting [inp] [] db)"
  shows "j \<in> set (jobs db) \<and> active (status j) \<and> workerId j = in_workerId inp \<and> dedupeKey j = in_dedupeKey inp"
  using assms
  by (auto simp: fetchDedupedExisting_def mapChunked_def chunksFor_def queryChunkSize_def unique_def js_add_def Let_def split: if_splits)

lemma remove_created:
  "unused_operation oid db \<Longrightarrow> removeOperation oid (createOperation now oid ty ref err db) = db"
  by (cases db) (auto simp: removeOperation_def delete_operations_def createOperation_def unused_operation_def Let_def
      filter_id_conv map_idI)

text \<open>The run by the phase it is in.\<close>

lemma run_intake_phases:
  "ik_phase k = Enqueued o1 j \<Longrightarrow> run_intake now reg oid i k db = Some (k, db)"
  "ik_phase k = Refused_intake e \<Longrightarrow> run_intake now reg oid i k db = Some (k, db)"
  "ik_phase k = Creating \<Longrightarrow> run_intake now reg oid i k db =
     (case create_for_intake now oid k db of (k', db') \<Rightarrow> run_intake now reg oid i k' db')"
  "ik_phase k = Inserting o1 \<Longrightarrow> run_intake now reg oid i k db =
     (case insert_for_intake now reg i o1 k db of (k', db') \<Rightarrow> run_intake now reg oid i k' db')"
  "ik_phase k = Detaching o1 j \<Longrightarrow> run_intake now reg oid i k db = Some (k\<lparr>ik_phase := Enqueued o1 j\<rparr>, removeOperation o1 db)"
  "ik_phase k = Removing o1 e \<Longrightarrow> run_intake now reg oid i k db = Some (k\<lparr>ik_phase := Refused_intake e\<rparr>, removeOperation o1 db)"
  by (subst run_intake.simps; simp add: intake_over_def intake_step_def; subst run_intake.simps; simp add: intake_over_def)+

lemma cancel_nothing:
  "\<forall>r \<in> set (jobs db). operationId r \<noteq> Some oid \<Longrightarrow> cancelPendingByOperation now oid db = Some (0, db)"
  by (cases db) (auto simp: cancelPendingByOperation_def cancelPendingWhere_def returning_def update_jobs_def update_where_def
      Let_def filter_empty_conv intro!: map_idI)

lemma run_intake_cancelling:
  assumes "ik_phase k = Cancelling oid e" and "unused_operation oid db"
  shows "run_intake now reg oid i k (createOperation now oid ty ref err db) = Some (k\<lparr>ik_phase := Refused_intake e\<rparr>, db)"
proof -
  let ?db = "createOperation now oid ty ref err db"
  have "cancelPendingByOperation now oid ?db = Some (0, ?db)"
    using assms(2) by (intro cancel_nothing) (auto simp: createOperation_def unused_operation_def)
  then have "run_intake now reg oid i k ?db = run_intake now reg oid i (k\<lparr>ik_phase := Removing oid e\<rparr>) ?db"
    by (subst run_intake.simps) (simp add: intake_over_def intake_step_def assms(1))
  then show ?thesis by (simp add: run_intake_phases(6) remove_created[OF assms(2)])
qed

text \<open>
  C9. With nobody else at the database, enqueueing a job under an operation of its own is all or
  nothing. Either one new pending job is in the queue under one new operation that counts it, or an
  active job with the same dedupe key is answered and the queue is as it was, or the enqueue fails and
  the queue is as it was: no operation without a job is left behind, whatever the options are.
\<close>

theorem intake_all_or_nothing:
  assumes "unused_operation oid db" and "i \<notin> set (map job_id (jobs db))" and "eo_operationId opts = None"
  shows "\<exists>k db'. run_intake now reg oid i (begin_intake w txt opts True) db = Some (k, db') \<and>
    (case ik_phase k of
       Enqueued _ j \<Rightarrow>
         job_id j = i \<and> status j = Pending \<and> operationId j = Some oid \<and> jobs db' = jobs db @ [j] \<and>
           (\<exists>op. operations db' = operations db @ [op] \<and> op_id op = oid \<and> totalItems op = 1 \<and> pendingItems op = 1)
         \<or> db' = db \<and> j \<in> set (jobs db) \<and> active (status j) \<and> workerId j = w \<and> dedupeKey j = eo_dedupeKey opts
     | Refused_intake _ \<Rightarrow> db' = db
     | _ \<Rightarrow> False)"
proof -
  define k0 where "k0 = (begin_intake w txt opts True)\<lparr>ik_phase := Inserting oid\<rparr>"
  define db1 where "db1 = createOperation now oid w (Some (''worker'', w)) None db"
  have k0: "owns_operation k0" "ik_checked k0" "ik_workerId k0 = w" "ik_options k0 = opts" "ik_data k0 = txt"
    using assms(3) by (simp_all add: k0_def owns_operation_def begin_intake_def)
  have run: "run_intake now reg oid i (begin_intake w txt opts True) db =
      (case insert_for_intake now reg i oid k0 db1 of (k, db') \<Rightarrow> run_intake now reg oid i k db')"
    using assms(3)
    by (simp add: run_intake_phases(3,4) begin_intake_def create_for_intake_def k0_def db1_def)
  have jobs1: "jobs db1 = jobs db" by (simp add: db1_def createOperation_def)
  show ?thesis
  proof (cases "snd (insert_for_intake now reg i oid k0 db1) = db1 \<and> (\<exists>e. ik_phase (fst (insert_for_intake now reg i oid k0 db1)) = Cancelling oid e)")
    case True
    then obtain k e where "insert_for_intake now reg i oid k0 db1 = (k, db1)" "ik_phase k = Cancelling oid e"
      by (metis prod.collapse)
    with run_intake_cancelling[of k oid e db] assms(1) run show ?thesis by (simp add: db1_def)
  next
    case False
    then obtain d where d: "map_of reg w = Some d"
      using k0 by (cases "map_of reg w") (auto simp: insert_for_intake_def Let_def)
    define inp where "inp = buildWorkerItemInput now i w txt (opts\<lparr>eo_operationId := Some oid\<rparr>) d"
    have inp: "in_id inp = i" "in_operationId inp = Some oid" "in_dedupeKey inp = eo_dedupeKey opts" "in_workerId inp = w"
      by (simp_all add: inp_def buildWorkerItemInput_def Let_def)
    obtain j db2 where ins: "enqueue now inp db1 = Inr (j, db2)"
      using False k0 d by (cases "enqueue now inp db1") (auto simp: insert_for_intake_def Let_def inp_def)
    then have ik: "insert_for_intake now reg i oid k0 db1 =
        (k0\<lparr>ik_phase := (if operationId j \<noteq> Some oid then Detaching oid j else Enqueued oid j)\<rparr>, db2)"
      using k0 d by (simp add: insert_for_intake_def Let_def inp_def)
    let ?row = "job_of_input now inp"
    show ?thesis
    proof (cases "\<exists>r \<in> set (jobs db1). conflicting ?row r")
      case True
      with ins have db2: "db2 = db1" and "j \<in> set (fetchDedupedExisting [inp] [] db1)"
        by (auto simp: enqueue_one Let_def split: option.splits if_splits list.splits)
      then have j: "j \<in> set (jobs db)" "active (status j)" "workerId j = w" "dedupeKey j = eo_dedupeKey opts"
        using found_by_dedupe[of j inp db1] jobs1 inp by simp_all
      then have "operationId j \<noteq> Some oid" using assms(1) by (auto simp: unused_operation_def)
      with ik run have "run_intake now reg oid i (begin_intake w txt opts True) db =
          Some (k0\<lparr>ik_phase := Enqueued oid j\<rparr>, removeOperation oid db1)"
        by (simp add: run_intake_phases(5) db2)
      with j show ?thesis by (simp add: db1_def remove_created[OF assms(1)])
    next
      case False
      with ins have j: "j = ?row" "db2 = applyOperationCounts (toOperationCounts [operationId ?row]) (incrementTotalItems now)
          (db1\<lparr>jobs := jobs db1 @ [?row]\<rparr>)"
        by (auto simp: enqueue_one Let_def split: option.splits if_splits)
      have row: "job_id ?row = i" "status ?row = Pending" "operationId ?row = Some oid" by (simp_all add: job_of_input_def inp)
      obtain op where op: "operations db1 = operations db @ [op]" "op_id op = oid" "totalItems op = 0" "pendingItems op = 0"
        by (simp add: db1_def createOperation_def)
      have inc: "op_id (incrementTotalItems now n x) = op_id x" for n x by (simp add: incrementTotalItems_def Let_def)
      have "operations db2 = map (\<lambda>x. if op_id x = oid then incrementTotalItems now 1 x else x) (operations db1)"
        unfolding j(2) row(3)
        by (subst operations_applyOperationCounts[OF wf_toOperationCounts inc])
          (auto simp: map_of_toOperationCounts amount_for_def)
      also have "\<dots> = operations db @ [incrementTotalItems now 1 op]"
      proof -
        have "op_id x \<noteq> oid" if "x \<in> set (operations db)" for x using assms(1) that by (auto simp: unused_operation_def)
        then have "map (\<lambda>x. if op_id x = oid then incrementTotalItems now 1 x else x) (operations db) = operations db"
          by (intro map_idI) simp
        with op show ?thesis by simp
      qed
      finally have "operations db2 = operations db @ [incrementTotalItems now 1 op]" .
      moreover have "op_id (incrementTotalItems now 1 op) = oid" "totalItems (incrementTotalItems now 1 op) = 1"
        "pendingItems (incrementTotalItems now 1 op) = 1"
        using op by (simp_all add: incrementTotalItems_def Let_def)
      moreover have "jobs db2 = jobs db @ [?row]" by (simp add: j(2) jobs1)
      moreover have "run_intake now reg oid i (begin_intake w txt opts True) db = Some (k0\<lparr>ik_phase := Enqueued oid j\<rparr>, db2)"
        using ik run row(3) j(1) by (simp add: run_intake_phases(1))
      ultimately show ?thesis using row j(1) by auto
    qed
  qed
qed

definition sample_registry :: registry where
  "sample_registry = [(''scan'', \<lparr>wd_id = ''scan'', wd_category = None, wd_defaultPriority = None, wd_attempts = 3,
     wd_backoff = (Fixed, 1000), wd_defaultTriggers = [], wd_cron = None, wd_scheduleData = None,
     wd_scheduleOperationId = None\<rparr>)]"

definition sample_options :: enqueue_options where
  "sample_options = no_options\<lparr>eo_dedupeKey := Some ''k''\<rparr>"

theorem intake_all_or_nothing_witness:
  "\<exists>k db'. run_intake 5000 sample_registry 7 8 (begin_intake ''scan'' ''{}'' sample_options True) \<lparr>jobs = [], operations = []\<rparr> =
     Some (k, db') \<and> intake_over k \<and> length (jobs db') = length (operations db')"
proof -
  let ?db = "\<lparr>jobs = [], operations = []\<rparr>"
  have "unused_operation 7 ?db" by (simp add: unused_operation_def)
  moreover have "8 \<notin> set (map job_id (jobs ?db))" by simp
  moreover have "eo_operationId sample_options = None" by (simp add: sample_options_def no_options_def)
  ultimately obtain k db' where
    "run_intake 5000 sample_registry 7 8 (begin_intake ''scan'' ''{}'' sample_options True) ?db = Some (k, db')"
    "case ik_phase k of
       Enqueued _ j \<Rightarrow>
         job_id j = 8 \<and> status j = Pending \<and> operationId j = Some 7 \<and> jobs db' = jobs ?db @ [j] \<and>
           (\<exists>op. operations db' = operations ?db @ [op] \<and> op_id op = 7 \<and> totalItems op = 1 \<and> pendingItems op = 1)
         \<or> db' = ?db \<and> j \<in> set (jobs ?db) \<and> active (status j) \<and> workerId j = ''scan'' \<and> dedupeKey j = eo_dedupeKey sample_options
     | Refused_intake _ \<Rightarrow> db' = ?db
     | _ \<Rightarrow> False"
    using intake_all_or_nothing[of 7 ?db 8 sample_options 5000 sample_registry "''scan''" "''{}''"] by blast
  then show ?thesis
    by (intro exI[of _ k] exI[of _ db']) (cases "ik_phase k"; auto simp: intake_over_def)
qed

subsection \<open>The other calls of the service\<close>

definition findActive :: "string \<Rightarrow> string \<Rightarrow> worker_db \<Rightarrow> (job_id \<times> operation_id option) option" where
  "findActive w key db = findActiveByDedupeKey w key db"

text \<open>
  \<open>item\<close> is the row that was read before, \<open>db\<close> the tables when the statement runs. The first
  component is the answer and whether the poller is woken.
\<close>

definition cancelJob :: "int \<Rightarrow> job_id \<Rightarrow> job option \<Rightarrow> worker_db \<Rightarrow> ((bool \<times> bool) \<times> worker_db) option" where
  "cancelJob now i found db =
     (case found of None \<Rightarrow> Some ((False, False), db)
      | Some item \<Rightarrow>
          if status item = Pending then map_option (\<lambda>(res, db'). ((res, res), db')) (cancelPending now i db)
          else if status item = Running then map_option (\<lambda>(res, db'). ((res, False), db')) (cancelRunning now i None db)
          else Some ((False, False), db))"

definition queue_cancelAllPending :: "int \<Rightarrow> string option \<Rightarrow> worker_db \<Rightarrow> ((nat \<times> bool) \<times> worker_db) option" where
  "queue_cancelAllPending now w db = map_option (\<lambda>(n, db'). ((n, 0 < n), db')) (cancelAllPending now w db)"

record purge_request =
  pr_dryRun :: bool
  pr_status :: "job_status option"
  pr_olderThanDays :: "int option"

definition terminalPurgeFilter :: "int \<Rightarrow> purge_request \<Rightarrow> job_status option \<times> int option" where
  "terminalPurgeFilter now r =
     (pr_status r, (case pr_olderThanDays r of None \<Rightarrow> None | Some d \<Rightarrow> if 0 < d then Some (now - d * DAY_MS) else None))"

definition purgeHistory :: "int \<Rightarrow> purge_request \<Rightarrow> worker_db \<Rightarrow> nat \<times> worker_db" where
  "purgeHistory now r db =
     (case terminalPurgeFilter now r of (st, cutoff) \<Rightarrow>
        if pr_dryRun r then (countTerminalJobs st cutoff db, db) else purgeTerminalJobs st cutoff db)"

text \<open>The dry run answers what the purge removes, and the purge spares every job that may still run.\<close>

lemma purge_dry_run: "purgeHistory now (r\<lparr>pr_dryRun := True\<rparr>) db = (fst (purgeHistory now (r\<lparr>pr_dryRun := False\<rparr>) db), db)"
  by (simp add: purgeHistory_def terminalPurgeFilter_def purgeTerminalJobs_def delete_jobs_def countTerminalJobs_def Let_def)

lemma delete_jobs_filter:
  assumes "\<And>j. Q j \<Longrightarrow> \<not> P j" and "\<And>j. Q (j\<lparr>dependsOnJobId := None\<rparr>) = Q j"
  shows "map job_id (filter Q (jobs (snd (delete_jobs P db)))) = map job_id (filter Q (jobs db))"
proof -
  have "map job_id (filter Q (map (\<lambda>r. if h r then r\<lparr>dependsOnJobId := None\<rparr> else r) (filter (\<lambda>r. \<not> P r) rows)))
      = map job_id (filter Q rows)" for h rows
    by (induction rows) (auto simp: assms)
  then show ?thesis by (simp add: delete_jobs_def Let_def)
qed

lemma purge_keeps_active_jobs:
  assumes "\<forall>st. pr_status r = Some st \<longrightarrow> terminal st"
  shows "map job_id (filter (\<lambda>j. active (status j)) (jobs (snd (purgeHistory now r db)))) =
    map job_id (filter (\<lambda>j. active (status j)) (jobs db))"
  using assms
  by (auto simp: purgeHistory_def purgeTerminalJobs_def terminalStandaloneJobsWhere_def terminal_iff_not_active
      intro!: delete_jobs_filter split: prod.split option.splits)
   (auto simp: terminalPurgeFilter_def)

end
