(* ===== verification/Server_Rescue.thy ===== *)
theory Server_Rescue
  imports Prelude Complex_Main
begin

section \<open>Server rescue\<close>

text \<open>
  \<^verbatim>\<open>system/server-rescue.service.ts\<close>: the state machine that pauses all background work while
  the server drowns. Instants are milliseconds; lags, thresholds and the configured spans are rational
  numbers. What a step does to the rest of the server (aborting tasks, killing processes, telling the
  listener) is returned as a list of effects. The two timers are armed and cleared together.
\<close>

datatype rescue_state = Healthy | Rescuing

datatype pressure = Low | Medium | High | Critical

datatype rescue_reason = Pressure_critical rat | Lag_breached rat int | Healthy_again | Monitor_disabled

datatype rescue_effect = Cancel_background_tasks | Kill_background_ffmpeg | Broadcast

record rescue_config =
  rc_enabled :: bool
  rc_eventLoopLagMs :: rat
  rc_sustainMs :: rat
  rc_releaseMs :: rat
  rc_speedFactor :: rat

record rescue =
  rs_state :: rescue_state
  rs_stateSince :: int
  rs_breachSince :: "int option"
  rs_healthySince :: "int option"
  rs_lastEscalationAt :: int
  rs_escalations :: nat
  rs_lastLagMs :: rat
  rs_lastPressure :: pressure
  rs_lastReason :: "rescue_reason option"
  rs_maxLagSinceCheck :: rat
  rs_engageTimes :: "int list"
  rs_isInitialized :: bool
  rs_armed :: bool

definition LAG_SAMPLE_INTERVAL_MS :: int where
  "LAG_SAMPLE_INTERVAL_MS = 1000"

definition ESCALATION_COOLDOWN_MS :: int where
  "ESCALATION_COOLDOWN_MS = 30000"

definition FLAP_WINDOW_MS :: int where
  "FLAP_WINDOW_MS = 15 * 60000"

definition FLAP_COUNT :: nat where
  "FLAP_COUNT = 3"

definition FLAP_THRESHOLD_STEP :: rat where
  "FLAP_THRESHOLD_STEP = 3 / 2"

definition FLAP_THRESHOLD_CAP :: rat where
  "FLAP_THRESHOLD_CAP = 4"

definition FLAP_MEMORY_MS :: int where
  "FLAP_MEMORY_MS = 60 * 60000"

definition PROTECTED_WORKER_IDS :: "string list" where
  "PROTECTED_WORKER_IDS = [''stream-init'', ''transcode'']"

definition new_rescue :: "int \<Rightarrow> rescue" where
  "new_rescue now =
     \<lparr>rs_state = Healthy, rs_stateSince = now, rs_breachSince = None, rs_healthySince = None,
      rs_lastEscalationAt = 0, rs_escalations = 0, rs_lastLagMs = 0, rs_lastPressure = Low, rs_lastReason = None,
      rs_maxLagSinceCheck = 0, rs_engageTimes = [], rs_isInitialized = False, rs_armed = False\<rparr>"

subsection \<open>Thresholds\<close>

definition timeoutMultiplierForFactor :: "rat \<Rightarrow> rat" where
  "timeoutMultiplierForFactor speedFactor = clamp (2 - speedFactor) 1 2"

definition slowCoreScale :: "rescue_config \<Rightarrow> rat" where
  "slowCoreScale cfg = timeoutMultiplierForFactor (rc_speedFactor cfg)"

definition recent_engages :: "int \<Rightarrow> rescue \<Rightarrow> int list" where
  "recent_engages now s = filter (\<lambda>t. now - t < FLAP_MEMORY_MS) (rs_engageTimes s)"

definition flapMultiplier :: "int \<Rightarrow> rescue \<Rightarrow> rat \<times> rescue" where
  "flapMultiplier now s =
     (let times = recent_engages now s;
          n = length (filter (\<lambda>t. now - t \<le> FLAP_WINDOW_MS) times)
      in (if n < FLAP_COUNT then 1 else min FLAP_THRESHOLD_CAP (FLAP_THRESHOLD_STEP ^ (n - FLAP_COUNT + 1)),
          s\<lparr>rs_engageTimes := times\<rparr>))"

definition effectiveLagThresholdMs :: "rescue_config \<Rightarrow> int \<Rightarrow> rescue \<Rightarrow> rat \<times> rescue" where
  "effectiveLagThresholdMs cfg now s =
     (case flapMultiplier now s of (m, s1) \<Rightarrow> (rc_eventLoopLagMs cfg * slowCoreScale cfg * m, s1))"

definition effectiveSustainMs :: "rescue_config \<Rightarrow> rat" where
  "effectiveSustainMs cfg = rc_sustainMs cfg * slowCoreScale cfg"

subsection \<open>The machine\<close>

definition describeBreach :: "rat \<Rightarrow> pressure \<Rightarrow> rat \<Rightarrow> rescue_reason" where
  "describeBreach lagMs p lagThresholdMs =
     (if p = Critical then Pressure_critical lagMs else Lag_breached lagMs \<lfloor>lagThresholdMs + 1 / 2\<rfloor>)"

definition escalate :: "int \<Rightarrow> rescue \<Rightarrow> rescue \<times> rescue_effect list" where
  "escalate now s =
     (s\<lparr>rs_lastEscalationAt := now, rs_escalations := rs_escalations s + 1\<rparr>, [Cancel_background_tasks, Kill_background_ffmpeg])"

definition enterRescue :: "rescue_reason \<Rightarrow> int \<Rightarrow> rescue \<Rightarrow> rescue \<times> rescue_effect list" where
  "enterRescue reason now s =
     (let s1 = s\<lparr>rs_state := Rescuing, rs_stateSince := now, rs_breachSince := None, rs_healthySince := None,
            rs_lastReason := Some reason, rs_engageTimes := rs_engageTimes s @ [now]\<rparr>
      in case escalate now s1 of (s2, es) \<Rightarrow> (s2, es @ [Broadcast]))"

definition exitRescue :: "int \<Rightarrow> rescue_reason \<Rightarrow> rescue \<Rightarrow> rescue \<times> rescue_effect list" where
  "exitRescue now reason s =
     (s\<lparr>rs_state := Healthy, rs_stateSince := now, rs_breachSince := None, rs_healthySince := None,
        rs_lastReason := Some reason\<rparr>, [Broadcast])"

definition or_ms :: "int option \<Rightarrow> int \<Rightarrow> int" where
  "or_ms t now = (case t of None \<Rightarrow> now | Some u \<Rightarrow> u)"

definition rescue_evaluate :: "rescue_config \<Rightarrow> rat \<Rightarrow> pressure \<Rightarrow> int \<Rightarrow> rescue \<Rightarrow> rescue \<times> rescue_effect list" where
  "rescue_evaluate cfg lagMs p now s0 =
     (case effectiveLagThresholdMs cfg now (s0\<lparr>rs_lastLagMs := lagMs, rs_lastPressure := p\<rparr>) of (lagThresholdMs, s) \<Rightarrow>
       let lagBreached = lagThresholdMs \<le> lagMs; breach = lagBreached \<or> p = Critical;
           settled = \<not> lagBreached \<and> p \<noteq> Critical
       in if rs_state s = Healthy then
            (if \<not> breach then (s\<lparr>rs_breachSince := None\<rparr>, [])
             else
               (let b = or_ms (rs_breachSince s) now; s1 = s\<lparr>rs_breachSince := Some b\<rparr> in
                if effectiveSustainMs cfg \<le> of_int (now - b) then enterRescue (describeBreach lagMs p lagThresholdMs) now s1
                else (s1, [])))
          else if settled then
            (let h = or_ms (rs_healthySince s) now; s1 = s\<lparr>rs_healthySince := Some h\<rparr> in
             if rc_releaseMs cfg \<le> of_int (now - h) then exitRescue now Healthy_again s1 else (s1, []))
          else
            (let s1 = s\<lparr>rs_healthySince := None\<rparr> in
             if breach \<and> ESCALATION_COOLDOWN_MS \<le> now - rs_lastEscalationAt s1 then escalate now s1 else (s1, [])))"

definition runCheck :: "rescue_config \<Rightarrow> pressure \<Rightarrow> int \<Rightarrow> rescue \<Rightarrow> rescue \<times> rescue_effect list" where
  "runCheck cfg p now s =
     (let lagMs = rs_maxLagSinceCheck s; s1 = s\<lparr>rs_maxLagSinceCheck := 0\<rparr> in
      if \<not> rc_enabled cfg then (if rs_state s1 = Rescuing then exitRescue now Monitor_disabled s1 else (s1, []))
      else rescue_evaluate cfg lagMs p now s1)"

text \<open>The sampler's callback, which was armed at \<open>armedAt\<close>; it arms itself again.\<close>

definition sample_lag :: "int \<Rightarrow> int \<Rightarrow> rescue \<Rightarrow> rescue" where
  "sample_lag armedAt now s =
     (if \<not> rs_isInitialized s then s
      else (let drift = of_int (max 0 (now - armedAt - LAG_SAMPLE_INTERVAL_MS)) in
            if rs_maxLagSinceCheck s < drift then s\<lparr>rs_maxLagSinceCheck := drift\<rparr> else s))"

definition rescue_init :: "rescue_config \<Rightarrow> int \<Rightarrow> rescue \<Rightarrow> rescue" where
  "rescue_init cfg now s =
     (if rs_isInitialized s then s
      else (let s1 = s\<lparr>rs_isInitialized := True\<rparr> in
            if \<not> rc_enabled cfg then s1
            else snd (effectiveLagThresholdMs cfg now (s1\<lparr>rs_armed := True\<rparr>))))"

definition clear_timers :: "rescue \<Rightarrow> rescue" where
  "clear_timers s = s\<lparr>rs_armed := False\<rparr>"

definition rescue_shutdown :: "rescue \<Rightarrow> rescue" where
  "rescue_shutdown s =
     (clear_timers s)\<lparr>rs_isInitialized := False, rs_state := Healthy, rs_breachSince := None, rs_healthySince := None,
       rs_engageTimes := []\<rparr>"

definition rescue_reschedule :: "rescue_config \<Rightarrow> int \<Rightarrow> rescue \<Rightarrow> rescue" where
  "rescue_reschedule cfg now s = rescue_init cfg now ((clear_timers s)\<lparr>rs_isInitialized := False\<rparr>)"

definition isThrottling :: "rescue \<Rightarrow> bool" where
  "isThrottling s \<longleftrightarrow> rs_state s = Rescuing"

definition isWorkerProtected :: "string \<Rightarrow> bool" where
  "isWorkerProtected w \<longleftrightarrow> w \<in> set PROTECTED_WORKER_IDS"

text \<open>The concurrency rescue forces upon a worker.\<close>

definition getRescueAllocation :: "string \<Rightarrow> rescue \<Rightarrow> nat option" where
  "getRescueAllocation w s =
     (if rs_state s \<noteq> Rescuing then None else if w \<in> set PROTECTED_WORKER_IDS then None else Some 0)"

subsection \<open>Runs\<close>

text \<open>
  A run with the checks that were evaluated since the state last changed: the instant of each and
  whether it found a breach.
\<close>

record rescue_run =
  rr_rescue :: rescue
  rr_log :: "(int \<times> bool) list"

definition breached :: "rescue_config \<Rightarrow> pressure \<Rightarrow> int \<Rightarrow> rescue \<Rightarrow> bool" where
  "breached cfg p now s \<longleftrightarrow> fst (effectiveLagThresholdMs cfg now s) \<le> rs_maxLagSinceCheck s \<or> p = Critical"

definition check_run :: "rescue_config \<Rightarrow> pressure \<Rightarrow> int \<Rightarrow> rescue_run \<Rightarrow> rescue_run" where
  "check_run cfg p now r =
     (let s = rr_rescue r; s' = fst (runCheck cfg p now s) in
      \<lparr>rr_rescue = s',
       rr_log = (if rs_state s' \<noteq> rs_state s then []
                 else if rc_enabled cfg then rr_log r @ [(now, breached cfg p now s)] else rr_log r)\<rparr>)"

inductive rescue_reach :: "rescue_run \<Rightarrow> bool" where
  start: "rescue_reach \<lparr>rr_rescue = new_rescue now, rr_log = []\<rparr>"
| inits: "rescue_reach r \<Longrightarrow> rescue_reach (r\<lparr>rr_rescue := rescue_init cfg now (rr_rescue r)\<rparr>)"
| reschedules: "rescue_reach r \<Longrightarrow> rescue_reach (r\<lparr>rr_rescue := rescue_reschedule cfg now (rr_rescue r)\<rparr>)"
| shuts_down: "rescue_reach r \<Longrightarrow> rescue_reach \<lparr>rr_rescue = rescue_shutdown (rr_rescue r), rr_log = []\<rparr>"
| samples: "rescue_reach r \<Longrightarrow> rs_armed (rr_rescue r) \<Longrightarrow>
    rescue_reach (r\<lparr>rr_rescue := sample_lag armedAt now (rr_rescue r)\<rparr>)"
| checks: "rescue_reach r \<Longrightarrow> rs_armed (rr_rescue r) \<Longrightarrow> rescue_reach (check_run cfg p now r)"

text \<open>The last checks of a log that all found a breach, or all found none.\<close>

definition stretch :: "bool \<Rightarrow> (int \<times> bool) list \<Rightarrow> (int \<times> bool) list" where
  "stretch b cs = rev (takeWhile (\<lambda>e. snd e = b) (rev cs))"

definition since :: "bool \<Rightarrow> (int \<times> bool) list \<Rightarrow> int option" where
  "since b cs = (case stretch b cs of [] \<Rightarrow> None | e # _ \<Rightarrow> Some (fst e))"

lemma since_Nil [simp]: "since b [] = None"
  by (simp add: since_def stretch_def)

lemma since_snoc: "since b (cs @ [(t, c)]) = (if c = b then Some (or_ms (since b cs) t) else None)"
  by (cases "stretch b cs") (auto simp: since_def stretch_def or_ms_def)

definition rescue_inv :: "rescue_run \<Rightarrow> bool" where
  "rescue_inv r \<longleftrightarrow>
     (case rs_state (rr_rescue r) of
        Healthy \<Rightarrow> rs_breachSince (rr_rescue r) = since True (rr_log r) \<and> rs_healthySince (rr_rescue r) = None
      | Rescuing \<Rightarrow> rs_healthySince (rr_rescue r) = since False (rr_log r) \<and> rs_breachSince (rr_rescue r) = None)"

text \<open>What an operation must keep for the invariant.\<close>

definition same_watch :: "rescue \<Rightarrow> rescue \<Rightarrow> bool" where
  "same_watch s t \<longleftrightarrow> rs_state t = rs_state s \<and> rs_breachSince t = rs_breachSince s \<and> rs_healthySince t = rs_healthySince s"

lemma same_watch_inv: "same_watch (rr_rescue r) t \<Longrightarrow> rescue_inv r \<Longrightarrow> rescue_inv (r\<lparr>rr_rescue := t\<rparr>)"
  by (simp add: rescue_inv_def same_watch_def split: rescue_state.splits)

lemma threshold_state: "snd (effectiveLagThresholdMs cfg now s) = s\<lparr>rs_engageTimes := recent_engages now s\<rparr>"
  by (simp add: effectiveLagThresholdMs_def flapMultiplier_def Let_def)

lemma threshold_value:
  "recent_engages now t = recent_engages now s \<Longrightarrow>
     fst (effectiveLagThresholdMs cfg now t) = fst (effectiveLagThresholdMs cfg now s)"
  by (simp add: effectiveLagThresholdMs_def flapMultiplier_def Let_def)

lemma same_watch_ops:
  "same_watch s (rescue_init cfg now s)" "same_watch s (rescue_reschedule cfg now s)" "same_watch s (sample_lag a now s)"
  by (simp_all add: same_watch_def rescue_reschedule_def rescue_init_def clear_timers_def sample_lag_def threshold_state Let_def)

text \<open>A check, in one equation.\<close>

definition noted :: "pressure \<Rightarrow> int \<Rightarrow> rescue \<Rightarrow> rescue" where
  "noted p now s = s\<lparr>rs_maxLagSinceCheck := 0, rs_lastLagMs := rs_maxLagSinceCheck s,
     rs_lastPressure := p, rs_engageTimes := recent_engages now s\<rparr>"

definition check_reason :: "rescue_config \<Rightarrow> pressure \<Rightarrow> int \<Rightarrow> rescue \<Rightarrow> rescue_reason" where
  "check_reason cfg p now s = describeBreach (rs_maxLagSinceCheck s) p (fst (effectiveLagThresholdMs cfg now s))"

lemma noted_keeps [simp]:
  "rs_state (noted p now s) = rs_state s" "rs_breachSince (noted p now s) = rs_breachSince s"
  "rs_healthySince (noted p now s) = rs_healthySince s" "rs_lastEscalationAt (noted p now s) = rs_lastEscalationAt s"
  by (simp_all add: noted_def)

lemma runCheck_enabled:
  assumes "rc_enabled cfg"
  shows "runCheck cfg p now s =
     (if rs_state s = Healthy then
        (if \<not> breached cfg p now s then ((noted p now s)\<lparr>rs_breachSince := None\<rparr>, [])
         else
           (let t = or_ms (rs_breachSince s) now; s2 = (noted p now s)\<lparr>rs_breachSince := Some t\<rparr> in
            if effectiveSustainMs cfg \<le> of_int (now - t) then enterRescue (check_reason cfg p now s) now s2 else (s2, [])))
      else if \<not> breached cfg p now s then
        (let h = or_ms (rs_healthySince s) now; s2 = (noted p now s)\<lparr>rs_healthySince := Some h\<rparr> in
         if rc_releaseMs cfg \<le> of_int (now - h) then exitRescue now Healthy_again s2 else (s2, []))
      else
        (let s2 = (noted p now s)\<lparr>rs_healthySince := None\<rparr> in
         if ESCALATION_COOLDOWN_MS \<le> now - rs_lastEscalationAt s then escalate now s2 else (s2, [])))"
proof -
  let ?t = "s\<lparr>rs_maxLagSinceCheck := 0, rs_lastLagMs := rs_maxLagSinceCheck s, rs_lastPressure := p\<rparr>"
  have th: "effectiveLagThresholdMs cfg now ?t = (fst (effectiveLagThresholdMs cfg now s), noted p now s)"
    using threshold_value[of now ?t s cfg] threshold_state[of cfg now ?t]
    by (simp add: noted_def recent_engages_def prod_eq_iff)
  show ?thesis
    using assms by (simp add: runCheck_def rescue_evaluate_def th Let_def breached_def check_reason_def)
qed

lemma enter_state:
  "rs_state (fst (enterRescue reason now s)) = Rescuing" "rs_breachSince (fst (enterRescue reason now s)) = None"
  "rs_healthySince (fst (enterRescue reason now s)) = None"
  "snd (enterRescue reason now s) = [Cancel_background_tasks, Kill_background_ffmpeg, Broadcast]"
  by (simp_all add: enterRescue_def escalate_def)

lemma exit_state:
  "rs_state (fst (exitRescue now reason s)) = Healthy" "rs_breachSince (fst (exitRescue now reason s)) = None"
  "rs_healthySince (fst (exitRescue now reason s)) = None" "snd (exitRescue now reason s) = [Broadcast]"
  by (simp_all add: exitRescue_def)

lemma escalate_state:
  "rs_state (fst (escalate now s)) = rs_state s" "rs_breachSince (fst (escalate now s)) = rs_breachSince s"
  "rs_healthySince (fst (escalate now s)) = rs_healthySince s"
  "snd (escalate now s) = [Cancel_background_tasks, Kill_background_ffmpeg]"
  by (simp_all add: escalate_def)

lemma check_run_inv:
  assumes "rescue_inv r"
  shows "rescue_inv (check_run cfg p now r)"
proof (cases "rc_enabled cfg")
  case True
  note e = runCheck_enabled[OF True, of p now "rr_rescue r"]
  show ?thesis
    using assms
    by (cases "rs_state (rr_rescue r)")
      (auto simp: rescue_inv_def check_run_def e True Let_def since_snoc or_ms_def enter_state exit_state escalate_state
        split: rescue_state.splits option.splits)
next
  case False
  with assms show ?thesis
    by (cases "rs_state (rr_rescue r)")
      (auto simp: rescue_inv_def check_run_def runCheck_def Let_def exit_state)
qed

lemma rescue_reach_inv: "rescue_reach r \<Longrightarrow> rescue_inv r"
proof (induction rule: rescue_reach.induct)
  case (start now)
  then show ?case by (simp add: rescue_inv_def new_rescue_def)
next
  case (shuts_down r)
  then show ?case by (simp add: rescue_inv_def rescue_shutdown_def clear_timers_def)
qed (auto intro: same_watch_inv same_watch_ops check_run_inv)

lemma threshold_bounds:
  assumes "0 \<le> rc_eventLoopLagMs cfg"
  shows "rc_eventLoopLagMs cfg \<le> fst (effectiveLagThresholdMs cfg now s)"
    and "fst (effectiveLagThresholdMs cfg now s) \<le> 8 * rc_eventLoopLagMs cfg"
proof -
  have m: "1 \<le> fst (flapMultiplier now s)" "fst (flapMultiplier now s) \<le> 4"
    using one_le_power[of FLAP_THRESHOLD_STEP]
    by (auto simp: flapMultiplier_def Let_def FLAP_THRESHOLD_CAP_def FLAP_THRESHOLD_STEP_def min_le_iff_disj
        simp del: power_Suc power_add)
  have c: "1 \<le> slowCoreScale cfg" "slowCoreScale cfg \<le> 2"
    using clamp_bounds[of 1 2 "2 - rc_speedFactor cfg"] by (simp_all add: slowCoreScale_def timeoutMultiplierForFactor_def)
  have t: "fst (effectiveLagThresholdMs cfg now s) = rc_eventLoopLagMs cfg * (slowCoreScale cfg * fst (flapMultiplier now s))"
    by (simp add: effectiveLagThresholdMs_def split_beta)
  have "1 * 1 \<le> slowCoreScale cfg * fst (flapMultiplier now s)" "slowCoreScale cfg * fst (flapMultiplier now s) \<le> 2 * 4"
    using m c by (intro mult_mono; simp)+
  with assms show "rc_eventLoopLagMs cfg \<le> fst (effectiveLagThresholdMs cfg now s)"
    "fst (effectiveLagThresholdMs cfg now s) \<le> 8 * rc_eventLoopLagMs cfg"
    unfolding t using mult_left_mono[OF _ assms] by (force simp: mult.commute)+
qed

subsection \<open>Properties\<close>


text \<open>A machine that sees two breaches fifteen seconds apart.\<close>

definition sample_rescue_config :: rescue_config where
  "sample_rescue_config = \<lparr>rc_enabled = True, rc_eventLoopLagMs = 250, rc_sustainMs = 15000, rc_releaseMs = 60000, rc_speedFactor = 1\<rparr>"

definition sample_rescue :: rescue_run where
  "sample_rescue = check_run sample_rescue_config Critical 5000
     \<lparr>rr_rescue = rescue_init sample_rescue_config 0 (new_rescue 0), rr_log = []\<rparr>"

lemma sample_rescue_reach: "rescue_reach sample_rescue"
proof -
  have "rescue_reach (\<lparr>rr_rescue = new_rescue 0, rr_log = []\<rparr>\<lparr>rr_rescue := rescue_init sample_rescue_config 0 (new_rescue 0)\<rparr>)"
    using rescue_reach.inits[OF rescue_reach.start[of 0], of sample_rescue_config 0] by simp
  then have "rescue_reach \<lparr>rr_rescue = rescue_init sample_rescue_config 0 (new_rescue 0), rr_log = []\<rparr>" by simp
  moreover have "rs_armed (rescue_init sample_rescue_config 0 (new_rescue 0))" by code_simp
  ultimately show ?thesis unfolding sample_rescue_def by (intro rescue_reach.checks) simp_all
qed


text \<open>While the server is rescued every worker but the protected ones gets no concurrency.\<close>

lemma rescue_allocation:
  "getRescueAllocation w s = Some n \<longleftrightarrow> isThrottling s \<and> \<not> isWorkerProtected w \<and> n = 0"
  by (auto simp: getRescueAllocation_def isThrottling_def isWorkerProtected_def)

subsection \<open>Turning the monitor off\<close>

text \<open>
  \<^verbatim>\<open>runCheck\<close> would end a rescue when the monitor is disabled, but the change of the setting calls
  \<^verbatim>\<open>reschedule\<close>, which clears the timer that runs it: a rescue that is on stays on, and all
  background work stays paused until the monitor is enabled again. A breach that was being
  watched survives a pause of the monitor as well, and then counts as sustained.
\<close>

lemma disabled_while_rescuing:
  assumes "rs_state s = Rescuing" and "\<not> rc_enabled cfg" and "\<not> isWorkerProtected w"
  shows "isThrottling (rescue_reschedule cfg now s)" "\<not> rs_armed (rescue_reschedule cfg now s)"
    "getRescueAllocation w (rescue_reschedule cfg now s) = Some 0"
  using assms
  by (simp_all add: rescue_reschedule_def rescue_init_def clear_timers_def isThrottling_def getRescueAllocation_def
      isWorkerProtected_def Let_def)

lemma pause_counts_as_breach:
  "let off = sample_rescue_config\<lparr>rc_enabled := False\<rparr>;
       s = rescue_reschedule sample_rescue_config 3600000 (rescue_reschedule off 6000 (rr_rescue sample_rescue))
   in rs_state s = Healthy \<and> rs_state (fst (runCheck sample_rescue_config Critical 3605000 s)) = Rescuing"
  by code_simp

end
