(* ===== verification/Resource_Allocation.thy ===== *)
theory Resource_Allocation
  imports Server_Rescue Js_Number
begin

section \<open>Budgets of the processor and the concurrency of the workers\<close>

text \<open>
  \<^verbatim>\<open>config/system-resources/budgets.utils.ts\<close> and \<^verbatim>\<open>settings.reader.ts\<close> derive budgets from the
  detected cores; \<^verbatim>\<open>system/resource-allocator\<close> decides, under the current pressure, how many jobs a
  worker may run; \<^verbatim>\<open>workers/core/worker-registry.service.ts\<close> puts both behind the concurrency of a
  definition. Cores, factors and percentages are rational numbers. A worker's id is not a name of
  \<^verbatim>\<open>Object.prototype\<close>, which the table of aliases would find as well.
\<close>

subsection \<open>Resource categories\<close>

datatype canonical_id = Image_processing | Media_file_technical_refresh | Metadata_refresh
  | Media_file_analysis | Scanning | Transcode

definition WORKER_ID_ALIASES :: "(string \<times> canonical_id) list" where
  "WORKER_ID_ALIASES =
     [(''imageProcessing'', Image_processing), (''image-processing'', Image_processing),
      (''imageOptimization'', Image_processing), (''image-optimization'', Image_processing),
      (''imageOptimizationAll'', Image_processing), (''image-optimization-all'', Image_processing),
      (''metadataRefresh'', Metadata_refresh), (''metadata-refresh'', Metadata_refresh),
      (''mediaFileTechnicalRefresh'', Media_file_technical_refresh),
      (''media-file-technical-refresh'', Media_file_technical_refresh),
      (''mediaFileAnalysis'', Media_file_analysis), (''media-file-analysis'', Media_file_analysis),
      (''scanning'', Scanning), (''library-scan'', Scanning), (''transcode'', Transcode)]"

definition canonicalWorkerId :: "string \<Rightarrow> canonical_id option" where
  "canonicalWorkerId w = map_of WORKER_ID_ALIASES w"

subsection \<open>Settings\<close>

datatype cpu_profile = Conservative | Balanced | Performance | Custom

text \<open>A stored setting: a number, a text, or something else.\<close>

datatype raw_setting = Raw_number rat | Raw_text string | Raw_other

definition readPositiveNumber :: "raw_setting \<Rightarrow> rat option" where
  "readPositiveNumber raw =
     (case (case raw of Raw_number n \<Rightarrow> Some n
              | Raw_text t \<Rightarrow> if trim_text t \<noteq> [] then map_option dec_rat (js_number t) else None
              | Raw_other \<Rightarrow> None) of
        None \<Rightarrow> None | Some v \<Rightarrow> if 0 < v then Some v else None)"

definition readCpuProfile :: "raw_setting \<Rightarrow> cpu_profile" where
  "readCpuProfile raw =
     (case raw of Raw_text t \<Rightarrow>
        if t = ''conservative'' then Conservative else if t = ''performance'' then Performance
        else if t = ''custom'' then Custom else Balanced
      | _ \<Rightarrow> Balanced)"

record cpu_settings =
  cs_cpuProfile :: cpu_profile
  cs_maxCores :: "rat option"
  cs_reservedWebCores :: "rat option"
  cs_ffmpegThreads :: "rat option"
  cs_poolMaxConcurrent :: "rat option"

definition readCpuSettings :: "(string \<Rightarrow> raw_setting) \<Rightarrow> cpu_settings" where
  "readCpuSettings get =
     \<lparr>cs_cpuProfile = readCpuProfile (get ''system.resources.cpuProfile''),
      cs_maxCores = readPositiveNumber (get ''system.resources.maxCpuCores''),
      cs_reservedWebCores = readPositiveNumber (get ''system.resources.reservedCoresForWeb''),
      cs_ffmpegThreads = readPositiveNumber (get ''system.resources.ffmpegMaxThreads''),
      cs_poolMaxConcurrent = readPositiveNumber (get ''system.resources.workerPoolMaxConcurrent'')\<rparr>"

subsection \<open>Budgets\<close>

record capacity_budget =
  cb_divisor :: rat
  cb_min :: rat
  cb_max :: rat
  cb_ceil :: bool
  cb_multiplier :: rat
  cb_offset :: rat

definition budget :: "rat \<Rightarrow> rat \<Rightarrow> rat \<Rightarrow> capacity_budget" where
  "budget divisor lo hi = \<lparr>cb_divisor = divisor, cb_min = lo, cb_max = hi, cb_ceil = False, cb_multiplier = 1, cb_offset = 0\<rparr>"

definition capacityBudget :: "rat \<Rightarrow> capacity_budget \<Rightarrow> rat" where
  "capacityBudget capacity b =
     (let scaled = capacity * cb_multiplier b / cb_divisor b;
          v = of_int (if cb_ceil b then \<lceil>scaled\<rceil> else \<lfloor>scaled\<rfloor>)
      in clamp (v + cb_offset b) (cb_min b) (cb_max b))"

definition SLOW_CORE_FACTOR :: rat where
  "SLOW_CORE_FACTOR = 7 / 10"

definition PROFILE_RESERVE_RATIO :: "cpu_profile \<Rightarrow> rat option" where
  "PROFILE_RESERVE_RATIO p =
     (case p of Conservative \<Rightarrow> Some (1 / 2) | Balanced \<Rightarrow> Some (33 / 100) | Performance \<Rightarrow> Some (15 / 100) | Custom \<Rightarrow> None)"

definition resolveReservedWebCores :: "cpu_profile \<Rightarrow> rat \<Rightarrow> rat \<Rightarrow> rat option \<Rightarrow> rat" where
  "resolveReservedWebCores profile effectiveCores speedFactor customSetting =
     (if profile = Custom \<and> customSetting \<noteq> None then clamp (the customSetting) 1 (max 1 (effectiveCores - 1))
      else if profile = Performance then
        (if 2 < effectiveCores then clamp (of_int \<lfloor>effectiveCores * (15 / 100)\<rfloor>) 1 effectiveCores else 1)
      else
        (let ratio = (case PROFILE_RESERVE_RATIO profile of Some q \<Rightarrow> q | None \<Rightarrow> 33 / 100);
             ratio' = (if profile = Balanced \<and> speedFactor < SLOW_CORE_FACTOR then 1 / 2 else ratio)
         in max 1 (of_int \<lceil>effectiveCores * ratio'\<rceil>)))"

record cpu_metrics =
  cm_detectedCores :: rat
  cm_configuredMaxCores :: rat
  cm_effectiveCores :: rat
  cm_speedFactor :: rat
  cm_capacity :: rat
  cm_reservedWebCores :: rat
  cm_backgroundBudgetCores :: rat
  cm_cpuProfile :: cpu_profile
  cm_ffmpegThreads :: rat
  cm_sharpConcurrency :: rat
  cm_workerPoolMaxConcurrent :: rat
  cm_scannerConcurrency :: rat
  cm_ffprobeConcurrency :: rat

definition or_budget :: "rat option \<Rightarrow> rat \<Rightarrow> rat" where
  "or_budget setting v = (case setting of None \<Rightarrow> v | Some n \<Rightarrow> n)"

definition deriveCpuMetrics :: "rat \<Rightarrow> cpu_settings \<Rightarrow> rat \<Rightarrow> cpu_metrics" where
  "deriveCpuMetrics detectedCores settings speedFactor =
     (let configuredMaxCores = or_budget (cs_maxCores settings) detectedCores;
          effectiveCores = clamp (min detectedCores configuredMaxCores) 1 detectedCores;
          capacity = max 1 (of_int \<lfloor>effectiveCores * speedFactor + 1 / 2\<rfloor>);
          reserved = resolveReservedWebCores (cs_cpuProfile settings) effectiveCores speedFactor (cs_reservedWebCores settings)
      in \<lparr>cm_detectedCores = detectedCores, cm_configuredMaxCores = configuredMaxCores, cm_effectiveCores = effectiveCores,
          cm_speedFactor = speedFactor, cm_capacity = capacity, cm_reservedWebCores = reserved,
          cm_backgroundBudgetCores = max 1 (effectiveCores - reserved), cm_cpuProfile = cs_cpuProfile settings,
          cm_ffmpegThreads = or_budget (cs_ffmpegThreads settings) (capacityBudget effectiveCores (budget 3 1 8)),
          cm_sharpConcurrency = capacityBudget capacity (budget 2 1 4),
          cm_workerPoolMaxConcurrent = or_budget (cs_poolMaxConcurrent settings)
            (capacityBudget capacity ((budget 1 3 12)\<lparr>cb_multiplier := 5 / 4\<rparr>)),
          cm_scannerConcurrency = capacityBudget capacity (budget 2 1 6),
          cm_ffprobeConcurrency = capacityBudget capacity (budget 2 1 3)\<rparr>)"

definition heavySubprocessConcurrency :: "rat \<Rightarrow> rat" where
  "heavySubprocessConcurrency capacity = capacityBudget capacity (budget 3 1 2)"

definition ioConcurrency :: "rat \<Rightarrow> rat" where
  "ioConcurrency capacity = capacityBudget capacity ((budget 1 4 16)\<lparr>cb_multiplier := 2\<rparr>)"

definition trickplayConcurrency :: "rat \<Rightarrow> rat" where
  "trickplayConcurrency backgroundBudgetCores = capacityBudget backgroundBudgetCores (budget 2 1 2)"

definition ingestConcurrency :: "rat \<Rightarrow> rat" where
  "ingestConcurrency capacity = capacityBudget capacity (budget 2 1 3)"

definition softwareTranscodeConcurrency :: "rat \<Rightarrow> rat" where
  "softwareTranscodeConcurrency capacity = capacityBudget capacity ((budget 1 1 4)\<lparr>cb_offset := 1\<rparr>)"

definition relationQueryConcurrency :: "rat \<Rightarrow> rat" where
  "relationQueryConcurrency capacity = capacityBudget capacity ((budget 2 1 8)\<lparr>cb_ceil := True\<rparr>)"

definition WORKER_BUDGET_RATIO :: "canonical_id \<Rightarrow> capacity_budget option" where
  "WORKER_BUDGET_RATIO c =
     (case c of
        Image_processing \<Rightarrow> Some ((budget 3 1 4)\<lparr>cb_ceil := True\<rparr>)
      | Metadata_refresh \<Rightarrow> Some ((budget 3 1 3)\<lparr>cb_ceil := True\<rparr>)
      | Media_file_technical_refresh \<Rightarrow> Some ((budget 4 1 3)\<lparr>cb_ceil := True\<rparr>)
      | Media_file_analysis \<Rightarrow> Some ((budget 4 1 2)\<lparr>cb_ceil := True\<rparr>)
      | _ \<Rightarrow> None)"

definition workerAutoConcurrency :: "string \<Rightarrow> rat \<Rightarrow> rat" where
  "workerAutoConcurrency w capacity =
     (case canonicalWorkerId w of None \<Rightarrow> 1
      | Some c \<Rightarrow> (case WORKER_BUDGET_RATIO c of None \<Rightarrow> 1 | Some b \<Rightarrow> capacityBudget capacity b))"

definition ramScaled :: "rat option \<Rightarrow> rat \<Rightarrow> rat \<Rightarrow> rat \<Rightarrow> rat" where
  "ramScaled totalKiB perGb lo hi =
     (case totalKiB of None \<Rightarrow> lo | Some k \<Rightarrow> clamp (of_int \<lfloor>k / 1048576 * perGb\<rfloor>) lo hi)"

definition scaleTimeoutMsForFactor :: "rat \<Rightarrow> rat \<Rightarrow> int" where
  "scaleTimeoutMsForFactor baseMs speedFactor = \<lfloor>baseMs * timeoutMultiplierForFactor speedFactor + 1 / 2\<rfloor>"

subsection \<open>Pressure and alerts\<close>

record resource_settings =
  rx_memoryThresholdPercent :: rat
  rx_memoryCriticalPercent :: rat
  rx_diskThresholdPercent :: rat
  rx_enableDynamicThrottling :: bool
  rx_throttleLowPriorityAbovePercent :: rat
  rx_streamingGuaranteedCores :: rat
  rx_userConcurrency :: "canonical_id \<Rightarrow> rat"

definition calculatePressure :: "rat \<Rightarrow> rat \<Rightarrow> rat \<Rightarrow> pressure" where
  "calculatePressure cpu mem disk =
     (let memoryOrDisk = max mem disk; mx = max cpu memoryOrDisk in
      if 95 \<le> memoryOrDisk then Critical else if 85 \<le> mx then High else if 70 \<le> mx then Medium else Low)"

datatype alert_kind = Memory_critical | Memory_high | Disk_low

definition alert_type :: "alert_kind \<Rightarrow> string" where
  "alert_type k = (case k of Disk_low \<Rightarrow> ''disk'' | _ \<Rightarrow> ''memory'')"

definition thresholdAlerts :: "resource_settings \<Rightarrow> rat \<Rightarrow> rat \<Rightarrow> alert_kind list" where
  "thresholdAlerts cfg memory disk =
     (if rx_memoryCriticalPercent cfg \<le> memory then [Memory_critical]
      else if rx_memoryThresholdPercent cfg \<le> memory then [Memory_high] else [])
     @ (if rx_diskThresholdPercent cfg \<le> disk then [Disk_low] else [])"

text \<open>The recent alerts with their instants and the instant each type was last raised.\<close>

record alert_board =
  ab_recentAlerts :: "(int \<times> alert_kind) list"
  ab_cooldowns :: "(string, int) jsmap"

definition ALERT_COOLDOWN_MS :: int where
  "ALERT_COOLDOWN_MS = 5 * 60000"

definition MAX_RECENT_ALERTS :: nat where
  "MAX_RECENT_ALERTS = 100"

definition RECENT_ALERTS_KEPT :: nat where
  "RECENT_ALERTS_KEPT = 50"

definition createAlert :: "int \<Rightarrow> alert_kind \<Rightarrow> alert_board \<Rightarrow> alert_board \<times> bool" where
  "createAlert now k s =
     (case map_of (ab_cooldowns s) (alert_type k) of
        Some t \<Rightarrow> if now - t < ALERT_COOLDOWN_MS then (s, False) else
          (let alerts = ab_recentAlerts s @ [(now, k)] in
           (\<lparr>ab_recentAlerts = (if MAX_RECENT_ALERTS < length alerts
               then drop (length alerts - RECENT_ALERTS_KEPT) alerts else alerts),
             ab_cooldowns = AList.update (alert_type k) now (ab_cooldowns s)\<rparr>, True))
      | None \<Rightarrow>
          (let alerts = ab_recentAlerts s @ [(now, k)] in
           (\<lparr>ab_recentAlerts = (if MAX_RECENT_ALERTS < length alerts
               then drop (length alerts - RECENT_ALERTS_KEPT) alerts else alerts),
             ab_cooldowns = AList.update (alert_type k) now (ab_cooldowns s)\<rparr>, True)))"

definition getRecentAlerts :: "int \<Rightarrow> alert_board \<Rightarrow> (int \<times> alert_kind) list" where
  "getRecentAlerts now s = filter (\<lambda>(t, k). now - 3600000 < t) (ab_recentAlerts s)"

subsection \<open>Allocation\<close>

record snapshot_view =
  sv_pressure :: pressure
  sv_memoryPercent :: rat

datatype allocation_reason = Streaming_limit | Critical_pressure | High_pressure_low_priority | Memory_pressure | Server_rescued

record worker_allocation =
  wa_requested :: rat
  wa_allocated :: rat
  wa_throttled :: bool
  wa_reason :: "allocation_reason option"

definition profile_weight :: "canonical_id \<Rightarrow> rat" where
  "profile_weight c =
     (case c of Image_processing \<Rightarrow> 80 | Media_file_technical_refresh \<Rightarrow> 60 | Metadata_refresh \<Rightarrow> 40
      | Media_file_analysis \<Rightarrow> 30 | Scanning \<Rightarrow> 5 | Transcode \<Rightarrow> 50)"

definition profile_maxConcurrency :: "canonical_id \<Rightarrow> rat" where
  "profile_maxConcurrency c =
     (case c of Image_processing \<Rightarrow> 8 | Media_file_technical_refresh \<Rightarrow> 6 | Metadata_refresh \<Rightarrow> 8
      | Media_file_analysis \<Rightarrow> 6 | Scanning \<Rightarrow> 16 | Transcode \<Rightarrow> 8)"

definition maxConcurrencyOf :: "canonical_id option \<Rightarrow> rat" where
  "maxConcurrencyOf c = (case c of None \<Rightarrow> 4 | Some k \<Rightarrow> profile_maxConcurrency k)"

definition weight_of :: "canonical_id option \<Rightarrow> rat" where
  "weight_of c = (case c of None \<Rightarrow> 50 | Some k \<Rightarrow> profile_weight k)"

definition workerConcurrencyCeiling :: "string \<Rightarrow> rat" where
  "workerConcurrencyCeiling w = maxConcurrencyOf (canonicalWorkerId w)"

definition user_setting :: "resource_settings \<Rightarrow> canonical_id option \<Rightarrow> rat" where
  "user_setting cfg c = (case c of None \<Rightarrow> 0 | Some Transcode \<Rightarrow> 0 | Some k \<Rightarrow> rx_userConcurrency cfg k)"

definition throttled_to :: "rat \<Rightarrow> allocation_reason \<Rightarrow> worker_allocation" where
  "throttled_to n reason = \<lparr>wa_requested = 0, wa_allocated = n, wa_throttled = True, wa_reason = Some reason\<rparr>"

definition allocationUnderPressure ::
  "resource_settings \<Rightarrow> canonical_id option \<Rightarrow> rat \<Rightarrow> snapshot_view option \<Rightarrow> worker_allocation option" where
  "allocationUnderPressure cfg c autoConcurrency snapshot =
     (let p = (case snapshot of None \<Rightarrow> Low | Some v \<Rightarrow> sv_pressure v); weight = weight_of c in
      if p = Critical then
        (if c = Some Transcode then
           Some \<lparr>wa_requested = 0, wa_allocated = max 1 (rx_streamingGuaranteedCores cfg), wa_throttled = False, wa_reason = None\<rparr>
         else Some (throttled_to 0 Critical_pressure))
      else if p = High \<and> weight < 30 then Some (throttled_to 0 High_pressure_low_priority)
      else if p = Medium \<and> (case snapshot of None \<Rightarrow> False | Some v \<Rightarrow> rx_throttleLowPriorityAbovePercent cfg < sv_memoryPercent v)
          \<and> weight < 50 then
        Some (throttled_to (max 1 (of_int \<lceil>autoConcurrency / 2\<rceil>)) Memory_pressure)
      else None)"

definition computeWorkerAllocation ::
  "resource_settings \<Rightarrow> rat \<Rightarrow> string \<Rightarrow> snapshot_view option \<Rightarrow> worker_allocation" where
  "computeWorkerAllocation cfg capacity w snapshot =
     (let c = canonicalWorkerId w; userSetting = user_setting cfg c in
      if 0 < userSetting then
        (let allocated = min userSetting (maxConcurrencyOf c) in
         \<lparr>wa_requested = userSetting, wa_allocated = allocated, wa_throttled = (allocated < userSetting),
          wa_reason = (if allocated < userSetting then Some Streaming_limit else None)\<rparr>)
      else
        (let autoConcurrency = workerAutoConcurrency w capacity;
             unthrottled = \<lparr>wa_requested = 0, wa_allocated = autoConcurrency, wa_throttled = False, wa_reason = None\<rparr>
         in if \<not> rx_enableDynamicThrottling cfg then unthrottled
            else (case allocationUnderPressure cfg c autoConcurrency snapshot of None \<Rightarrow> unthrottled | Some a \<Rightarrow> a)))"

definition getWorkerAllocation ::
  "resource_settings \<Rightarrow> rat \<Rightarrow> rescue \<Rightarrow> string \<Rightarrow> snapshot_view option \<Rightarrow> worker_allocation" where
  "getWorkerAllocation cfg capacity rescue w snapshot =
     (case getRescueAllocation w rescue of
        Some n \<Rightarrow> \<lparr>wa_requested = 0, wa_allocated = of_nat n, wa_throttled = True, wa_reason = Some Server_rescued\<rparr>
      | None \<Rightarrow> computeWorkerAllocation cfg capacity w snapshot)"

text \<open>The getters of a registered definition.\<close>

definition registered_concurrency ::
  "resource_settings \<Rightarrow> rat \<Rightarrow> rescue \<Rightarrow> string \<Rightarrow> rat option \<Rightarrow> snapshot_view option \<Rightarrow> rat" where
  "registered_concurrency cfg capacity rescue w explicit snapshot =
     (case getRescueAllocation w rescue of Some n \<Rightarrow> of_nat n
      | None \<Rightarrow>
          if explicit \<noteq> None \<and> 0 < the explicit then min (the explicit) (workerConcurrencyCeiling w)
          else wa_allocated (getWorkerAllocation cfg capacity rescue w snapshot))"

definition registered_timeoutMs :: "rat \<Rightarrow> rat option \<Rightarrow> rat \<Rightarrow> int" where
  "registered_timeoutMs speedFactor explicit defaultTimeoutMs =
     scaleTimeoutMsForFactor (max 1 (or_budget explicit defaultTimeoutMs)) speedFactor"

definition registered_attempts :: "int option \<Rightarrow> int \<Rightarrow> int" where
  "registered_attempts explicit defaultAttempts = max 1 (case explicit of None \<Rightarrow> defaultAttempts | Some n \<Rightarrow> n)"

subsection \<open>Bounds\<close>

lemma capacityBudget_bounds: "cb_min b \<le> cb_max b \<Longrightarrow> cb_min b \<le> capacityBudget c b \<and> capacityBudget c b \<le> cb_max b"
  by (simp add: capacityBudget_def Let_def clamp_bounds)

lemma auto_bounds: "1 \<le> workerAutoConcurrency w capacity" "workerAutoConcurrency w capacity \<le> workerConcurrencyCeiling w"
proof -
  have b: "1 \<le> cb_min b \<and> cb_min b \<le> cb_max b \<and> cb_max b \<le> profile_maxConcurrency c" if "WORKER_BUDGET_RATIO c = Some b" for b c
    using that by (cases c) (auto simp: WORKER_BUDGET_RATIO_def budget_def profile_maxConcurrency_def)
  have m: "1 \<le> profile_maxConcurrency c" for c by (cases c) (simp_all add: profile_maxConcurrency_def)
  have k: "1 \<le> capacityBudget capacity b \<and> capacityBudget capacity b \<le> profile_maxConcurrency c"
    if "WORKER_BUDGET_RATIO c = Some b" for b c
    using capacityBudget_bounds[of b capacity] b[OF that] by linarith
  show "1 \<le> workerAutoConcurrency w capacity" "workerAutoConcurrency w capacity \<le> workerConcurrencyCeiling w"
    using k m by (auto simp: workerAutoConcurrency_def workerConcurrencyCeiling_def maxConcurrencyOf_def split: option.split)
qed

text \<open>The processor's budgets are at least one and within their caps.\<close>

lemma cpu_budgets_bounded:
  assumes "1 \<le> detected" and "m = deriveCpuMetrics detected settings speed"
  shows "1 \<le> cm_effectiveCores m" "cm_effectiveCores m \<le> detected" "1 \<le> cm_capacity m"
    "1 \<le> cm_backgroundBudgetCores m" "1 \<le> cm_sharpConcurrency m" "cm_sharpConcurrency m \<le> 4"
    "cs_poolMaxConcurrent settings = None \<Longrightarrow> 3 \<le> cm_workerPoolMaxConcurrent m \<and> cm_workerPoolMaxConcurrent m \<le> 12"
    "1 \<le> cm_scannerConcurrency m" "1 \<le> cm_ffprobeConcurrency m"
  using assms(1) clamp_bounds[of 1 detected] capacityBudget_bounds[of "budget 2 1 4"] capacityBudget_bounds[of "budget 2 1 6"]
    capacityBudget_bounds[of "budget 2 1 3"] capacityBudget_bounds[of "(budget 1 3 12)\<lparr>cb_multiplier := 5 / 4\<rparr>"]
  by (simp_all add: assms(2) deriveCpuMetrics_def Let_def budget_def or_budget_def)

definition pressure_of :: "snapshot_view option \<Rightarrow> pressure" where
  "pressure_of snapshot = (case snapshot of None \<Rightarrow> Low | Some v \<Rightarrow> sv_pressure v)"

text \<open>When dynamic throttling leaves a worker no slot.\<close>

definition starved :: "resource_settings \<Rightarrow> string \<Rightarrow> snapshot_view option \<Rightarrow> bool" where
  "starved cfg w snapshot \<longleftrightarrow> rx_enableDynamicThrottling cfg \<and>
     (pressure_of snapshot = Critical \<and> canonicalWorkerId w \<noteq> Some Transcode
      \<or> pressure_of snapshot = High \<and> canonicalWorkerId w = Some Scanning)"

lemma low_weight: "weight_of c < 30 \<longleftrightarrow> c = Some Scanning"
  by (cases c) (auto simp: weight_of_def profile_weight_def split: canonical_id.split)

lemma under_pressure:
  assumes "1 \<le> n" "n \<le> maxConcurrencyOf c"
  shows "case allocationUnderPressure cfg c n snapshot of
      None \<Rightarrow> \<not> (pressure_of snapshot = Critical \<or> pressure_of snapshot = High \<and> c = Some Scanning)
    | Some a \<Rightarrow> 0 \<le> wa_allocated a \<and>
        (wa_allocated a = 0 \<longleftrightarrow> pressure_of snapshot = Critical \<and> c \<noteq> Some Transcode \<or> pressure_of snapshot = High \<and> c = Some Scanning) \<and>
        (wa_allocated a \<le> maxConcurrencyOf c \<or> pressure_of snapshot = Critical \<and> c = Some Transcode)"
proof -
  have m: "1 \<le> maxConcurrencyOf c" using assms by linarith
  have "of_int \<lceil>n / 2\<rceil> \<le> n"
  proof -
    have "(1 :: rat) \<le> of_int \<lfloor>n\<rfloor>" using assms(1) by simp
    moreover have "n < of_int \<lfloor>n\<rfloor> + 1" by linarith
    ultimately have "n / 2 \<le> of_int \<lfloor>n\<rfloor>" by linarith
    then show ?thesis by (simp add: ceiling_le_iff le_floor_iff[symmetric])
  qed
  have half_pos: "\<lceil>n / 2\<rceil> \<noteq> 0" using assms(1) by linarith
  from \<open>of_int \<lceil>n / 2\<rceil> \<le> n\<close> have half: "max 1 (of_int \<lceil>n / 2\<rceil>) \<le> maxConcurrencyOf c" using assms m by simp
  show ?thesis
    using m half half_pos
    by (auto simp: allocationUnderPressure_def pressure_of_def Let_def low_weight throttled_to_def max_def split: option.split)
qed

text \<open>
  C37. The concurrency the registry answers for a worker is never negative and never above the
  worker's ceiling, whatever the settings, the rescue and the pressure, except that the share of the
  streams under critical pressure is not capped. It is zero, so that nothing of the worker is claimed,
  exactly while the server is rescued and the worker is not protected, or while dynamic throttling
  starves a worker that neither its definition nor the settings give a concurrency.
\<close>

theorem concurrency_within_ceiling:
  assumes "\<forall>k. 0 \<le> rx_userConcurrency cfg k"
  shows "0 \<le> registered_concurrency cfg capacity rescue w explicit snapshot
    \<and> (registered_concurrency cfg capacity rescue w explicit snapshot \<le> workerConcurrencyCeiling w
        \<or> pressure_of snapshot = Critical \<and> canonicalWorkerId w = Some Transcode)
    \<and> (registered_concurrency cfg capacity rescue w explicit snapshot = 0 \<longleftrightarrow>
        isThrottling rescue \<and> \<not> isWorkerProtected w
        \<or> \<not> (explicit \<noteq> None \<and> 0 < the explicit) \<and> user_setting cfg (canonicalWorkerId w) = 0 \<and> starved cfg w snapshot)"
proof -
  let ?n = "registered_concurrency cfg capacity rescue w explicit snapshot" and ?c = "canonicalWorkerId w"
  have ceil: "1 \<le> workerConcurrencyCeiling w" using auto_bounds[of w capacity] by linarith
  have u: "0 \<le> user_setting cfg ?c" using assms by (simp add: user_setting_def split: option.split canonical_id.split)
  consider (rescued) "isThrottling rescue" "\<not> isWorkerProtected w"
    | (own) "\<not> (isThrottling rescue \<and> \<not> isWorkerProtected w)" "explicit \<noteq> None" "0 < the explicit"
    | (admin) "\<not> (isThrottling rescue \<and> \<not> isWorkerProtected w)" "\<not> (explicit \<noteq> None \<and> 0 < the explicit)" "0 < user_setting cfg ?c"
    | (derived) "\<not> (isThrottling rescue \<and> \<not> isWorkerProtected w)" "\<not> (explicit \<noteq> None \<and> 0 < the explicit)" "user_setting cfg ?c = 0"
    using u by fastforce
  then show ?thesis
  proof cases
    case rescued
    then have "getRescueAllocation w rescue = Some 0" by (simp add: rescue_allocation)
    with rescued ceil show ?thesis by (simp add: registered_concurrency_def)
  next
    case own
    then have "getRescueAllocation w rescue = None" using rescue_allocation[of w rescue] by (cases "getRescueAllocation w rescue") auto
    with own have "?n = min (the explicit) (workerConcurrencyCeiling w)" by (simp add: registered_concurrency_def)
    with own ceil show ?thesis by auto
  next
    case admin
    then have "getRescueAllocation w rescue = None" using rescue_allocation[of w rescue] by (cases "getRescueAllocation w rescue") auto
    with admin have "?n = min (user_setting cfg ?c) (workerConcurrencyCeiling w)"
      by (auto simp: registered_concurrency_def getWorkerAllocation_def computeWorkerAllocation_def Let_def workerConcurrencyCeiling_def)
    with admin ceil show ?thesis by auto
  next
    case derived
    then have "getRescueAllocation w rescue = None" using rescue_allocation[of w rescue] by (cases "getRescueAllocation w rescue") auto
    with derived have n: "?n = (if rx_enableDynamicThrottling cfg then
        (case allocationUnderPressure cfg ?c (workerAutoConcurrency w capacity) snapshot of
           None \<Rightarrow> workerAutoConcurrency w capacity | Some a \<Rightarrow> wa_allocated a) else workerAutoConcurrency w capacity)"
      by (auto simp: registered_concurrency_def getWorkerAllocation_def computeWorkerAllocation_def Let_def split: option.split)
    have p: "1 \<le> workerAutoConcurrency w capacity" "workerAutoConcurrency w capacity \<le> maxConcurrencyOf ?c"
      using auto_bounds[of w capacity] by (simp_all add: workerConcurrencyCeiling_def)
    show ?thesis
      using under_pressure[OF p, where cfg = cfg and snapshot = snapshot] p derived
      by (auto simp: n starved_def workerConcurrencyCeiling_def split: option.splits)
  qed
qed

definition sample_resources :: resource_settings where
  "sample_resources = \<lparr>rx_memoryThresholdPercent = 80, rx_memoryCriticalPercent = 95, rx_diskThresholdPercent = 90,
     rx_enableDynamicThrottling = True, rx_throttleLowPriorityAbovePercent = 80, rx_streamingGuaranteedCores = 16,
     rx_userConcurrency = (\<lambda>_. 0)\<rparr>"

theorem concurrency_within_ceiling_witness:
  "registered_concurrency sample_resources 8 (new_rescue 0) ''library-scan'' None (Some \<lparr>sv_pressure = High, sv_memoryPercent = 70\<rparr>) = 0
   \<and> registered_concurrency sample_resources 8 (new_rescue 0) ''image-processing'' None (Some \<lparr>sv_pressure = High, sv_memoryPercent = 70\<rparr>) \<noteq> 0"
proof -
  have nn: "\<forall>k. 0 \<le> rx_userConcurrency sample_resources k" by (simp add: sample_resources_def)
  have h: "starved sample_resources ''library-scan'' (Some \<lparr>sv_pressure = High, sv_memoryPercent = 70\<rparr>)"
    "\<not> starved sample_resources ''image-processing'' (Some \<lparr>sv_pressure = High, sv_memoryPercent = 70\<rparr>)"
    "user_setting sample_resources (canonicalWorkerId ''library-scan'') = 0" "\<not> isThrottling (new_rescue 0)"
    by code_simp+
  show ?thesis
    using concurrency_within_ceiling[OF nn, of 8 "new_rescue 0" "''library-scan''" None] h
      concurrency_within_ceiling[OF nn, of 8 "new_rescue 0" "''image-processing''" None] by simp
qed

text \<open>The share of the streams is not capped by the ceiling of its category.\<close>

lemma guaranteed_cores_exceed_ceiling:
  "wa_allocated (computeWorkerAllocation sample_resources 8 ''transcode'' (Some \<lparr>sv_pressure = Critical, sv_memoryPercent = 97\<rparr>)) = 16"
  "workerConcurrencyCeiling ''transcode'' = 8"
  by code_simp+

end
