(* ===== verification/Semaphore.thy ===== *)
theory Semaphore
  imports Settling
begin

section \<open>Semaphores\<close>

text \<open>
  \<^verbatim>\<open>createSemaphore\<close> of \<^verbatim>\<open>utils/promise.utils.ts\<close>. A call of \<^verbatim>\<open>acquire\<close> is named
  by its arrival; \<^verbatim>\<open>queue\<close> is the array with its holes and \<^verbatim>\<open>head\<close> the first entry that
  was not handed out. The limit may be a function that is asked again at every call, so each operation
  takes the limit it reads. Whether the signal of a call is aborted is a predicate on the calls.
\<close>

record semaphore =
  sm_active :: int
  sm_queue :: "nat option list"
  sm_head :: nat

definition createSemaphore :: semaphore where
  "createSemaphore = \<lparr>sm_active = 0, sm_queue = [], sm_head = 0\<rparr>"

subsection \<open>Releasing and acquiring\<close>

text \<open>The loop of \<^verbatim>\<open>release\<close>; the calls whose promise it resolves, in order.\<close>

function hand_out :: "int \<Rightarrow> (nat \<Rightarrow> bool) \<Rightarrow> semaphore \<Rightarrow> semaphore \<times> nat list" where
  "hand_out mx aborted s =
     (if sm_active s < mx \<and> sm_head s < length (sm_queue s) then
        (let next = sm_queue s ! sm_head s;
             s1 = s\<lparr>sm_queue := (sm_queue s)[sm_head s := None], sm_head := sm_head s + 1\<rparr>
         in case next of
              None \<Rightarrow> hand_out mx aborted s1
            | Some t \<Rightarrow>
                if aborted t then hand_out mx aborted s1
                else (case hand_out mx aborted (s1\<lparr>sm_active := sm_active s1 + 1\<rparr>) of (s2, ts) \<Rightarrow> (s2, t # ts)))
      else (s, []))"
  by pat_completeness auto

termination by (relation "measure (\<lambda>(mx, aborted, s). length (sm_queue s) - sm_head s)") auto

declare hand_out.simps [simp del]

definition TRIM_AFTER :: nat where
  "TRIM_AFTER = 64"

definition trim_queue :: "semaphore \<Rightarrow> semaphore" where
  "trim_queue s =
     (if sm_head s = length (sm_queue s) then s\<lparr>sm_queue := [], sm_head := 0\<rparr>
      else if TRIM_AFTER < sm_head s then s\<lparr>sm_queue := drop (sm_head s) (sm_queue s), sm_head := 0\<rparr>
      else s)"

definition release :: "int \<Rightarrow> (nat \<Rightarrow> bool) \<Rightarrow> semaphore \<Rightarrow> semaphore \<times> nat list" where
  "release limit aborted s =
     (case hand_out (max 1 limit) aborted (s\<lparr>sm_active := sm_active s - 1\<rparr>) of (s1, ts) \<Rightarrow> (trim_queue s1, ts))"

datatype acquired = Refused | Granted | Enqueued

definition acquire :: "int \<Rightarrow> bool \<Rightarrow> nat \<Rightarrow> semaphore \<Rightarrow> acquired \<times> semaphore" where
  "acquire limit aborted t s =
     (if aborted then (Refused, s)
      else if sm_active s < max 1 limit then (Granted, s\<lparr>sm_active := sm_active s + 1\<rparr>)
      else (Enqueued, s\<lparr>sm_queue := sm_queue s @ [Some t]\<rparr>))"

text \<open>The listener of a waiting call; \<open>True\<close>: its promise is rejected.\<close>

fun punch :: "nat \<Rightarrow> nat option list \<Rightarrow> bool \<times> nat option list" where
  "punch t [] = (False, [])"
| "punch t (x # xs) =
     (if x = Some t then (True, None # xs) else (case punch t xs of (found, ys) \<Rightarrow> (found, x # ys)))"

definition on_abort :: "nat \<Rightarrow> semaphore \<Rightarrow> bool \<times> semaphore" where
  "on_abort t s = (case punch t (sm_queue s) of (found, q) \<Rightarrow> (found, s\<lparr>sm_queue := q\<rparr>))"

definition activeCount :: "semaphore \<Rightarrow> int" where
  "activeCount s = sm_active s"

definition queuedCount :: "semaphore \<Rightarrow> nat" where
  "queuedCount s = length (sm_queue s) - sm_head s"

subsection \<open>The abstract semaphore\<close>

text \<open>A number of slots in use and the calls that wait, oldest first.\<close>

record line =
  ln_active :: int
  ln_waiting :: "nat list"

definition abs_sem :: "semaphore \<Rightarrow> line" where
  "abs_sem s = \<lparr>ln_active = sm_active s, ln_waiting = List.map_filter id (drop (sm_head s) (sm_queue s))\<rparr>"

definition line_release :: "int \<Rightarrow> line \<Rightarrow> line \<times> nat list" where
  "line_release limit l =
     (let free = nat (max 1 limit - (ln_active l - 1)); ts = take free (ln_waiting l)
      in (\<lparr>ln_active = ln_active l - 1 + int (length ts), ln_waiting = drop free (ln_waiting l)\<rparr>, ts))"

definition line_acquire :: "int \<Rightarrow> bool \<Rightarrow> nat \<Rightarrow> line \<Rightarrow> acquired \<times> line" where
  "line_acquire limit aborted t l =
     (if aborted then (Refused, l)
      else if ln_active l < max 1 limit then (Granted, l\<lparr>ln_active := ln_active l + 1\<rparr>)
      else (Enqueued, l\<lparr>ln_waiting := ln_waiting l @ [t]\<rparr>))"

definition line_abort :: "nat \<Rightarrow> line \<Rightarrow> bool \<times> line" where
  "line_abort t l = (t \<in> set (ln_waiting l), l\<lparr>ln_waiting := filter (\<lambda>u. u \<noteq> t) (ln_waiting l)\<rparr>)"

lemma map_filter_Cons: "List.map_filter id (x # xs) = (case x of None \<Rightarrow> [] | Some t \<Rightarrow> [t]) @ List.map_filter id xs"
  by (simp add: List.map_filter_def split: option.split)

lemma map_filter_append: "List.map_filter id (xs @ ys) = List.map_filter id xs @ List.map_filter id ys"
  by (simp add: List.map_filter_def)

lemma hand_out_is_take:
  assumes "\<forall>t \<in> set (ln_waiting (abs_sem s)). \<not> aborted t" and "sm_head s \<le> length (sm_queue s)"
  shows "abs_sem (fst (hand_out mx aborted s)) =
      \<lparr>ln_active = sm_active s + int (length (take (nat (mx - sm_active s)) (ln_waiting (abs_sem s)))),
       ln_waiting = drop (nat (mx - sm_active s)) (ln_waiting (abs_sem s))\<rparr>
    \<and> snd (hand_out mx aborted s) = take (nat (mx - sm_active s)) (ln_waiting (abs_sem s))
    \<and> sm_head (fst (hand_out mx aborted s)) \<le> length (sm_queue (fst (hand_out mx aborted s)))"
  using assms
proof (induction mx aborted s rule: hand_out.induct)
  case (1 mx aborted s)
  show ?case
  proof (cases "sm_active s < mx \<and> sm_head s < length (sm_queue s)")
    case False
    then have "nat (mx - sm_active s) = 0 \<or> ln_waiting (abs_sem s) = []"
      using "1.prems"(2) by (auto simp: abs_sem_def List.map_filter_def)
    with False "1.prems"(2) show ?thesis by (subst (1 2 3 4) hand_out.simps) (auto simp: abs_sem_def)
  next
    case True
    define s1 where "s1 = s\<lparr>sm_queue := (sm_queue s)[sm_head s := None], sm_head := sm_head s + 1\<rparr>"
    have d: "drop (sm_head s) (sm_queue s) = (sm_queue s ! sm_head s) # drop (sm_head s1) (sm_queue s1)"
      using True by (simp add: s1_def Cons_nth_drop_Suc drop_update_cancel)
    have h1: "sm_head s1 \<le> length (sm_queue s1)" "sm_active s1 = sm_active s" using True by (simp_all add: s1_def)
    show ?thesis
    proof (cases "sm_queue s ! sm_head s")
      case None
      have w: "abs_sem s1 = abs_sem s" by (simp add: abs_sem_def d map_filter_Cons None h1)
      have e: "hand_out mx aborted s = hand_out mx aborted s1"
        by (subst hand_out.simps) (use True None in \<open>simp add: s1_def\<close>)
      have "\<forall>t \<in> set (ln_waiting (abs_sem s1)). \<not> aborted t" using "1.prems"(1) w by simp
      from "1.IH"(1)[OF True refl s1_def None this h1(1)] show ?thesis by (simp add: e w h1)
    next
      case (Some t)
      define s2 where "s2 = s1\<lparr>sm_active := sm_active s1 + 1\<rparr>"
      have w: "ln_waiting (abs_sem s) = t # ln_waiting (abs_sem s2)"
        by (simp add: abs_sem_def d map_filter_Cons Some s2_def)
      have a: "\<not> aborted t" "\<forall>t \<in> set (ln_waiting (abs_sem s2)). \<not> aborted t" using "1.prems"(1) w by simp_all
      have e: "hand_out mx aborted s = (fst (hand_out mx aborted s2), t # snd (hand_out mx aborted s2))"
        by (subst hand_out.simps) (use True Some a in \<open>simp add: s1_def s2_def split_beta Let_def\<close>)
      have n: "nat (mx - sm_active s) = Suc (nat (mx - sm_active s2))" using True h1 by (simp add: s2_def nat_diff_distrib' Suc_nat_eq_nat_zadd1)
      have h2: "sm_head s2 \<le> length (sm_queue s2)" "sm_active s2 = sm_active s + 1" using h1 by (simp_all add: s2_def)
      have "\<forall>t \<in> set (ln_waiting (abs_sem (s1\<lparr>sm_active := sm_active s1 + 1\<rparr>))). \<not> aborted t"
        using a(2) by (simp add: s2_def)
      note ih = "1.IH"(3)[OF True refl s1_def Some a(1) this, folded s2_def, OF h2(1)]
      show ?thesis unfolding e w n using ih h2 by simp
    qed
  qed
qed

lemma trim_queue_keeps: "sm_head s \<le> length (sm_queue s) \<Longrightarrow> abs_sem (trim_queue s) = abs_sem s"
  "sm_head s \<le> length (sm_queue s) \<Longrightarrow> sm_head (trim_queue s) \<le> length (sm_queue (trim_queue s))"
  by (auto simp: trim_queue_def abs_sem_def List.map_filter_def)

lemma map_filter_none: "\<forall>x \<in> set xs. x = None \<Longrightarrow> List.map_filter id xs = []"
  by (induction xs) (auto simp: map_filter_Cons List.map_filter_simps)

text \<open>What holds of a semaphore: the entries before the head are holes, and a call waits once.\<close>

definition sem_ok :: "semaphore \<Rightarrow> bool" where
  "sem_ok s \<longleftrightarrow> sm_head s \<le> length (sm_queue s) \<and> (\<forall>x \<in> set (take (sm_head s) (sm_queue s)). x = None)
     \<and> distinct (ln_waiting (abs_sem s))"

lemma waiting_whole: "sem_ok s \<Longrightarrow> ln_waiting (abs_sem s) = List.map_filter id (sm_queue s)"
  using map_filter_append[of "take (sm_head s) (sm_queue s)" "drop (sm_head s) (sm_queue s)"]
  by (simp add: sem_ok_def abs_sem_def map_filter_none)

lemma hand_out_holes:
  "\<forall>x \<in> set (take (sm_head s) (sm_queue s)). x = None \<Longrightarrow> sm_head s \<le> length (sm_queue s) \<Longrightarrow>
     \<forall>x \<in> set (take (sm_head (fst (hand_out mx aborted s))) (sm_queue (fst (hand_out mx aborted s)))). x = None"
proof (induction mx aborted s rule: hand_out.induct)
  case (1 mx aborted s)
  show ?case
  proof (cases "sm_active s < mx \<and> sm_head s < length (sm_queue s)")
    case False
    then show ?thesis using "1.prems" by (subst (1 2) hand_out.simps) auto
  next
    case True
    define s1 where "s1 = s\<lparr>sm_queue := (sm_queue s)[sm_head s := None], sm_head := sm_head s + 1\<rparr>"
    have h: "\<forall>x \<in> set (take (sm_head s1) (sm_queue s1)). x = None" "sm_head s1 \<le> length (sm_queue s1)"
      using True "1.prems"(1) by (simp_all add: s1_def take_Suc_conv_app_nth)
    show ?thesis
    proof (cases "sm_queue s ! sm_head s")
      case None
      have "hand_out mx aborted s = hand_out mx aborted s1"
        by (subst hand_out.simps) (use True None in \<open>simp add: s1_def\<close>)
      with "1.IH"(1)[OF True refl s1_def None h] show ?thesis by simp
    next
      case (Some t)
      show ?thesis
      proof (cases "aborted t")
        case a: True
        have "hand_out mx aborted s = hand_out mx aborted s1"
          by (subst hand_out.simps) (use True Some a in \<open>simp add: s1_def\<close>)
        with "1.IH"(2)[OF True refl s1_def Some a h] show ?thesis by simp
      next
        case a: False
        have "fst (hand_out mx aborted s) = fst (hand_out mx aborted (s1\<lparr>sm_active := sm_active s1 + 1\<rparr>))"
          by (subst hand_out.simps) (use True Some a in \<open>simp add: s1_def split_beta Let_def\<close>)
        with "1.IH"(3)[OF True refl s1_def Some a] h show ?thesis by simp
      qed
    qed
  qed
qed

lemma trim_queue_holes:
  "\<forall>x \<in> set (take (sm_head s) (sm_queue s)). x = None \<Longrightarrow> \<forall>x \<in> set (take (sm_head (trim_queue s)) (sm_queue (trim_queue s))). x = None"
  by (auto simp: trim_queue_def)

lemma release_refines:
  assumes "sem_ok s" and "\<forall>t \<in> set (ln_waiting (abs_sem s)). \<not> aborted t"
  shows "abs_sem (fst (release limit aborted s)) = fst (line_release limit (abs_sem s))"
    and "snd (release limit aborted s) = snd (line_release limit (abs_sem s))"
    and "sem_ok (fst (release limit aborted s))"
proof -
  let ?s = "s\<lparr>sm_active := sm_active s - 1\<rparr>" and ?free = "nat (max 1 limit - (sm_active s - 1))"
  have w: "ln_waiting (abs_sem ?s) = ln_waiting (abs_sem s)" by (simp add: abs_sem_def)
  note t = hand_out_is_take[of ?s aborted "max 1 limit", unfolded w, OF assms(2)]
  from assms(1) have h: "sm_head ?s \<le> length (sm_queue ?s)" by (simp add: sem_ok_def)
  note t = conjunct1[OF t[OF h]] conjunct1[OF conjunct2[OF t[OF h]]] conjunct2[OF conjunct2[OF t[OF h]]]
  have r: "release limit aborted s = (trim_queue (fst (hand_out (max 1 limit) aborted ?s)), snd (hand_out (max 1 limit) aborted ?s))"
    by (simp add: release_def split_beta)
  show a: "abs_sem (fst (release limit aborted s)) = fst (line_release limit (abs_sem s))"
    by (simp add: r trim_queue_keeps(1)[OF t(3)] t(1) line_release_def Let_def) (simp add: abs_sem_def)
  show "snd (release limit aborted s) = snd (line_release limit (abs_sem s))"
    by (simp add: r t(2) line_release_def Let_def) (simp add: abs_sem_def)
  have "\<forall>x \<in> set (take (sm_head (fst (release limit aborted s))) (sm_queue (fst (release limit aborted s)))). x = None"
    unfolding r fst_conv using assms(1) h by (intro trim_queue_holes hand_out_holes) (auto simp: sem_ok_def)
  moreover have "distinct (ln_waiting (abs_sem (fst (release limit aborted s))))"
    using assms(1) by (simp add: a line_release_def Let_def sem_ok_def distinct_drop)
  ultimately show "sem_ok (fst (release limit aborted s))"
    using trim_queue_keeps(2)[OF t(3)] by (simp add: sem_ok_def r)
qed

lemma acquire_refines:
  assumes "sem_ok s" and "t \<notin> set (ln_waiting (abs_sem s))"
  shows "fst (acquire limit b t s) = fst (line_acquire limit b t (abs_sem s))"
    and "abs_sem (snd (acquire limit b t s)) = snd (line_acquire limit b t (abs_sem s))"
    and "sem_ok (snd (acquire limit b t s))"
  using assms by (auto simp: acquire_def line_acquire_def abs_sem_def sem_ok_def map_filter_append List.map_filter_simps)

lemma punch_spec:
  "length (snd (punch t q)) = length q" "fst (punch t q) \<longleftrightarrow> Some t \<in> set q"
  "distinct (List.map_filter id q) \<Longrightarrow> List.map_filter id (snd (punch t q)) = filter (\<lambda>u. u \<noteq> t) (List.map_filter id q)"
  "i < length q \<Longrightarrow> q ! i = None \<Longrightarrow> snd (punch t q) ! i = None"
proof -
  show "length (snd (punch t q)) = length q" "fst (punch t q) \<longleftrightarrow> Some t \<in> set q"
    by (induction q) (auto split: prod.split)
  have none: "filter (\<lambda>u. u \<noteq> t) xs = xs" if "t \<notin> set xs" for xs :: "nat list"
    using that by (induction xs) auto
  show "distinct (List.map_filter id q) \<Longrightarrow> List.map_filter id (snd (punch t q)) = filter (\<lambda>u. u \<noteq> t) (List.map_filter id q)"
    by (induction q) (auto simp: map_filter_Cons List.map_filter_simps none split: prod.split option.splits)
  show "i < length q \<Longrightarrow> q ! i = None \<Longrightarrow> snd (punch t q) ! i = None"
    by (induction q arbitrary: i) (auto split: prod.split simp: nth_Cons split: nat.split)
qed

lemma on_abort_refines:
  assumes "sem_ok s"
  shows "fst (on_abort t s) = fst (line_abort t (abs_sem s))"
    and "abs_sem (snd (on_abort t s)) = snd (line_abort t (abs_sem s))"
    and "sem_ok (snd (on_abort t s))"
proof -
  have q: "on_abort t s = (fst (punch t (sm_queue s)), s\<lparr>sm_queue := snd (punch t (sm_queue s))\<rparr>)"
    by (simp add: on_abort_def split_beta)
  have in_q: "Some t \<in> set q \<longleftrightarrow> t \<in> set (List.map_filter id q)" for q :: "nat option list"
    by (induction q) (auto simp: map_filter_Cons List.map_filter_simps split: option.splits)
  show "fst (on_abort t s) = fst (line_abort t (abs_sem s))"
    by (simp add: q line_abort_def punch_spec(2) in_q waiting_whole[OF assms])
  have holes: "\<forall>x \<in> set (take (sm_head s) (snd (punch t (sm_queue s)))). x = None"
  proof
    fix x assume "x \<in> set (take (sm_head s) (snd (punch t (sm_queue s))))"
    then obtain i where i: "i < sm_head s" "i < length (sm_queue s)" "x = snd (punch t (sm_queue s)) ! i"
      by (auto simp: in_set_conv_nth punch_spec(1))
    then have "sm_queue s ! i \<in> set (take (sm_head s) (sm_queue s))" by (auto simp: in_set_conv_nth)
    with assms have "sm_queue s ! i = None" by (simp add: sem_ok_def)
    with i punch_spec(4) show "x = None" by simp
  qed
  then have whole: "List.map_filter id (drop (sm_head s) (snd (punch t (sm_queue s)))) = List.map_filter id (snd (punch t (sm_queue s)))"
    using map_filter_append[of "take (sm_head s) (snd (punch t (sm_queue s)))" "drop (sm_head s) (snd (punch t (sm_queue s)))"]
    by (simp add: map_filter_none)
  have d: "distinct (List.map_filter id (sm_queue s))" using assms waiting_whole[OF assms] by (simp add: sem_ok_def)
  show a: "abs_sem (snd (on_abort t s)) = snd (line_abort t (abs_sem s))"
    using waiting_whole[OF assms] by (simp add: q line_abort_def abs_sem_def whole punch_spec(3)[OF d])
  show "sem_ok (snd (on_abort t s))"
    using assms holes by (simp add: sem_ok_def a) (simp add: q line_abort_def punch_spec(1))
qed

end
