(* ===== verification/Semaphore_Laws.thy ===== *)
theory Semaphore_Laws
  imports Semaphore
begin

section \<open>Runs of a semaphore\<close>

text \<open>
  All calls of one semaphore, in every interleaving. A call waits in the queue, goes on once its
  promise is resolved, holds its slot while the operation runs and gives it back in the
  \<^verbatim>\<open>finally\<close> block. \<open>L\<close> is the set of limits the function may answer.
\<close>

datatype call_phase = Waits | Resolved | Holds | Rejected | Over

record sem_system =
  ss_sem :: semaphore
  ss_calls :: "call_phase list"
  ss_aborted :: "nat list"

definition empty_system :: sem_system where
  "empty_system = \<lparr>ss_sem = createSemaphore, ss_calls = [], ss_aborted = []\<rparr>"

abbreviation phase_is :: "nat \<Rightarrow> call_phase \<Rightarrow> sem_system \<Rightarrow> bool" where
  "phase_is t ph s \<equiv> t < length (ss_calls s) \<and> ss_calls s ! t = ph"

definition resolve_calls :: "nat list \<Rightarrow> call_phase list \<Rightarrow> call_phase list" where
  "resolve_calls ts cs = fold (\<lambda>t cs. cs[t := Resolved]) ts cs"

text \<open>A call arrives, with its signal aborted or not.\<close>

definition arrive :: "int \<Rightarrow> bool \<Rightarrow> sem_system \<Rightarrow> sem_system" where
  "arrive limit b s =
     (let t = length (ss_calls s) in
      case acquire limit b t (ss_sem s) of (a, sem) \<Rightarrow>
        \<lparr>ss_sem = sem,
         ss_calls = ss_calls s @ [case a of Refused \<Rightarrow> Rejected | Granted \<Rightarrow> Resolved | Enqueued \<Rightarrow> Waits],
         ss_aborted = (if b then t # ss_aborted s else ss_aborted s)\<rparr>)"

text \<open>A call gives its slot back and ends.\<close>

definition leave :: "int \<Rightarrow> nat \<Rightarrow> call_phase \<Rightarrow> sem_system \<Rightarrow> sem_system" where
  "leave limit t ph s =
     (case release limit (\<lambda>u. u \<in> set (ss_aborted s)) (ss_sem s) of (sem, ts) \<Rightarrow>
        s\<lparr>ss_sem := sem, ss_calls := resolve_calls ts ((ss_calls s)[t := ph])\<rparr>)"

text \<open>A signal aborts: the listeners of its waiting calls run. A resolved call has no listener.\<close>

definition reject_call :: "nat \<Rightarrow> sem_system \<Rightarrow> sem_system" where
  "reject_call t s =
     (if phase_is t Waits s then
        (case on_abort t (ss_sem s) of (found, sem) \<Rightarrow>
           s\<lparr>ss_sem := sem, ss_calls := (if found then (ss_calls s)[t := Rejected] else ss_calls s)\<rparr>)
      else s)"

definition abort_signal :: "nat list \<Rightarrow> sem_system \<Rightarrow> sem_system" where
  "abort_signal ts s = fold reject_call ts (s\<lparr>ss_aborted := ts @ ss_aborted s\<rparr>)"

text \<open>The steps of the calls themselves.\<close>

inductive sem_internal :: "int set \<Rightarrow> sem_system \<Rightarrow> sem_system \<Rightarrow> bool" for L where
  goes_on: "phase_is t Resolved s \<Longrightarrow> sem_internal L s (s\<lparr>ss_calls := (ss_calls s)[t := Holds]\<rparr>)"
| gives_up: "phase_is t Resolved s \<Longrightarrow> t \<in> set (ss_aborted s) \<Longrightarrow> limit \<in> L \<Longrightarrow> sem_internal L s (leave limit t Rejected s)"
| finishes: "phase_is t Holds s \<Longrightarrow> limit \<in> L \<Longrightarrow> sem_internal L s (leave limit t Over s)"

inductive sem_reach :: "int set \<Rightarrow> sem_system \<Rightarrow> bool" for L where
  start: "sem_reach L empty_system"
| arrives: "sem_reach L s \<Longrightarrow> limit \<in> L \<Longrightarrow> sem_reach L (arrive limit b s)"
| aborts: "sem_reach L s \<Longrightarrow> \<forall>t \<in> set ts. t < length (ss_calls s) \<Longrightarrow> sem_reach L (abort_signal ts s)"
| steps: "sem_reach L s \<Longrightarrow> sem_internal L s t \<Longrightarrow> sem_reach L t"

inductive_cases sem_internalE: "sem_internal L s t"

subsection \<open>The invariant\<close>

definition waiting_calls :: "call_phase list \<Rightarrow> nat list" where
  "waiting_calls cs = filter (\<lambda>t. cs ! t = Waits) [0..<length cs]"

definition busy :: "call_phase \<Rightarrow> bool" where
  "busy ph \<longleftrightarrow> ph = Resolved \<or> ph = Holds"

definition busy_count :: "call_phase list \<Rightarrow> nat" where
  "busy_count cs = length (filter busy cs)"

definition sem_core :: "int set \<Rightarrow> sem_system \<Rightarrow> bool" where
  "sem_core L s \<longleftrightarrow>
     sem_ok (ss_sem s)
     \<and> ln_waiting (abs_sem (ss_sem s)) = waiting_calls (ss_calls s)
     \<and> sm_active (ss_sem s) = int (busy_count (ss_calls s))
     \<and> (\<forall>m. (\<forall>l \<in> L. l \<le> m) \<longrightarrow> sm_active (ss_sem s) \<le> max 1 m)
     \<and> (\<forall>m. (\<forall>l \<in> L. m \<le> l) \<longrightarrow> waiting_calls (ss_calls s) \<noteq> [] \<longrightarrow> max 1 m \<le> sm_active (ss_sem s))
     \<and> (waiting_calls (ss_calls s) \<noteq> [] \<longrightarrow> 1 \<le> sm_active (ss_sem s))"

lemma sem_core_aborted [simp]: "sem_core L (s\<lparr>ss_aborted := ts\<rparr>) = sem_core L s"
  by (simp add: sem_core_def)

lemma sem_coreI:
  assumes "sem_ok (ss_sem s)" "ln_waiting (abs_sem (ss_sem s)) = waiting_calls (ss_calls s)"
    "sm_active (ss_sem s) = int (busy_count (ss_calls s))"
    "\<And>m. \<forall>l \<in> L. l \<le> m \<Longrightarrow> sm_active (ss_sem s) \<le> max 1 m"
    "\<And>m. \<forall>l \<in> L. m \<le> l \<Longrightarrow> waiting_calls (ss_calls s) \<noteq> [] \<Longrightarrow> max 1 m \<le> sm_active (ss_sem s)"
    "waiting_calls (ss_calls s) \<noteq> [] \<Longrightarrow> 1 \<le> sm_active (ss_sem s)"
  shows "sem_core L s"
  using assms by (simp add: sem_core_def)

lemma sem_coreD:
  assumes "sem_core L s"
  shows "sem_ok (ss_sem s)" "ln_waiting (abs_sem (ss_sem s)) = waiting_calls (ss_calls s)"
    "sm_active (ss_sem s) = int (busy_count (ss_calls s))"
    "\<forall>l \<in> L. l \<le> m \<Longrightarrow> sm_active (ss_sem s) \<le> max 1 m"
    "\<forall>l \<in> L. m \<le> l \<Longrightarrow> waiting_calls (ss_calls s) \<noteq> [] \<Longrightarrow> max 1 m \<le> sm_active (ss_sem s)"
    "waiting_calls (ss_calls s) \<noteq> [] \<Longrightarrow> 1 \<le> sm_active (ss_sem s)"
  using assms unfolding sem_core_def by blast+

text \<open>No call whose signal is aborted waits.\<close>

definition sem_inv :: "int set \<Rightarrow> sem_system \<Rightarrow> bool" where
  "sem_inv L s \<longleftrightarrow> sem_core L s \<and> (\<forall>t \<in> set (ss_aborted s). t < length (ss_calls s) \<and> ss_calls s ! t \<noteq> Waits)"

lemma in_waiting_calls: "t \<in> set (waiting_calls cs) \<longleftrightarrow> t < length cs \<and> cs ! t = Waits"
  by (auto simp: waiting_calls_def)

lemma distinct_waiting_calls: "distinct (waiting_calls cs)"
  by (simp add: waiting_calls_def)

lemma waiting_calls_snoc: "waiting_calls (cs @ [ph]) = waiting_calls cs @ (if ph = Waits then [length cs] else [])"
proof -
  have "filter (\<lambda>t. (cs @ [ph]) ! t = Waits) [0..<length cs] = filter (\<lambda>t. cs ! t = Waits) [0..<length cs]"
    by (rule filter_cong) (auto simp: nth_append)
  then show ?thesis by (simp add: waiting_calls_def)
qed

lemma waiting_calls_update:
  assumes "t < length cs" and "ph \<noteq> Waits"
  shows "waiting_calls (cs[t := ph]) = filter (\<lambda>u. u \<noteq> t) (waiting_calls cs)"
proof -
  have "filter (\<lambda>u. cs[t := ph] ! u = Waits) [0..<length cs] = filter (\<lambda>u. cs ! u = Waits \<and> u \<noteq> t) [0..<length cs]"
    by (rule filter_cong) (use assms in \<open>auto simp: nth_list_update\<close>)
  then show ?thesis by (simp add: waiting_calls_def)
qed

lemma busy_count_update:
  "t < length cs \<Longrightarrow> int (busy_count (cs[t := ph])) =
     int (busy_count cs) + (if busy ph then 1 else 0) - (if busy (cs ! t) then 1 else 0)"
proof (induction cs arbitrary: t)
  case (Cons c cs)
  show ?case
  proof (cases t)
    case (Suc u)
    with Cons.prems Cons.IH[of u] show ?thesis by (simp add: busy_count_def split: if_splits)
  qed (simp add: busy_count_def)
qed simp

lemma resolve_calls_keeps:
  "\<forall>t \<in> set ts. t < length cs \<and> cs ! t = Waits \<Longrightarrow> distinct ts \<Longrightarrow>
     length (resolve_calls ts cs) = length cs
     \<and> waiting_calls (resolve_calls ts cs) = filter (\<lambda>u. u \<notin> set ts) (waiting_calls cs)
     \<and> int (busy_count (resolve_calls ts cs)) = int (busy_count cs) + int (length ts)
     \<and> (\<forall>u < length cs. resolve_calls ts cs ! u = (if u \<in> set ts then Resolved else cs ! u))"
proof (induction ts arbitrary: cs)
  case (Cons t ts)
  have t: "t < length cs" "cs ! t = Waits" "t \<notin> set ts" "distinct ts" using Cons.prems by auto
  have "\<forall>u \<in> set ts. u < length (cs[t := Resolved]) \<and> cs[t := Resolved] ! u = Waits"
    using Cons.prems by (auto simp: nth_list_update)
  note ih = Cons.IH[OF this t(4)]
  have r: "resolve_calls (t # ts) cs = resolve_calls ts (cs[t := Resolved])" by (simp add: resolve_calls_def)
  show ?case
    using ih t waiting_calls_update[OF t(1), of Resolved] busy_count_update[OF t(1), of Resolved]
    by (auto simp: r busy_def nth_list_update intro!: filter_cong)
qed (simp add: resolve_calls_def)

subsection \<open>Its steps\<close>

lemma arrive_inv:
  assumes inv: "sem_inv L s" and "limit \<in> L"
  shows "sem_inv L (arrive limit b s)"
proof -
  let ?n = "length (ss_calls s)"
  from inv have c: "sem_core L s" by (simp add: sem_inv_def)
  note d = sem_coreD[OF c]
  have "?n \<notin> set (ln_waiting (abs_sem (ss_sem s)))" by (simp add: d(2) in_waiting_calls)
  note r = acquire_refines[OF d(1) this, of limit b]
  obtain a sem where as: "acquire limit b ?n (ss_sem s) = (a, sem)" by fastforce
  have ar: "arrive limit b s = \<lparr>ss_sem = sem,
      ss_calls = ss_calls s @ [case a of Refused \<Rightarrow> Rejected | Granted \<Rightarrow> Resolved | Enqueued \<Rightarrow> Waits],
      ss_aborted = (if b then ?n # ss_aborted s else ss_aborted s)\<rparr>"
    by (simp add: arrive_def Let_def as)
  have l: "a = fst (line_acquire limit b ?n (abs_sem (ss_sem s)))" "abs_sem sem = snd (line_acquire limit b ?n (abs_sem (ss_sem s)))"
    "sem_ok sem" using r by (simp_all add: as)
  have act: "sm_active sem = ln_active (abs_sem sem)" "sm_active (ss_sem s) = ln_active (abs_sem (ss_sem s))"
    by (simp_all add: abs_sem_def)
  consider "b" "a = Refused" "abs_sem sem = abs_sem (ss_sem s)"
    | "\<not> b" "a = Granted" "sm_active (ss_sem s) < max 1 limit" "abs_sem sem = (abs_sem (ss_sem s))\<lparr>ln_active := sm_active (ss_sem s) + 1\<rparr>"
    | "\<not> b" "a = Enqueued" "\<not> sm_active (ss_sem s) < max 1 limit"
      "abs_sem sem = (abs_sem (ss_sem s))\<lparr>ln_waiting := ln_waiting (abs_sem (ss_sem s)) @ [?n]\<rparr>"
    using l by (auto simp: line_acquire_def act(2) split: if_splits)
  then have "sem_core L (arrive limit b s)"
  proof cases
    case 1
    show ?thesis
      unfolding ar by (rule sem_coreI)
        (use 1 l(3) d act in \<open>simp_all add: waiting_calls_snoc busy_count_def busy_def\<close>)
  next
    case 2
    have "max 1 limit \<le> max 1 m" if "\<forall>l \<in> L. l \<le> m" for m using that assms(2) by (auto simp: max_def)
    with 2 have "sm_active (ss_sem s) + 1 \<le> max 1 m" if "\<forall>l \<in> L. l \<le> m" for m using that by fastforce
    moreover have "max 1 m \<le> sm_active (ss_sem s) + 1" if "\<forall>l \<in> L. m \<le> l" "waiting_calls (ss_calls s) \<noteq> []" for m
      using d(5)[OF that] by simp
    ultimately show ?thesis
      unfolding ar by (intro sem_coreI) (use 2 l(3) d act in \<open>simp_all add: waiting_calls_snoc busy_count_def busy_def\<close>)
  next
    case 3
    have "max 1 m \<le> max 1 limit" if "\<forall>l \<in> L. m \<le> l" for m using that assms(2) by (auto simp: max_def)
    with 3 have "max 1 m \<le> sm_active (ss_sem s)" if "\<forall>l \<in> L. m \<le> l" for m using that by fastforce
    moreover have "1 \<le> sm_active (ss_sem s)" using 3(3) by simp
    ultimately show ?thesis
      unfolding ar by (intro sem_coreI) (use 3 l(3) d act in \<open>simp_all add: waiting_calls_snoc busy_count_def busy_def\<close>)
  qed
  moreover have "t < length (ss_calls (arrive limit b s)) \<and> ss_calls (arrive limit b s) ! t \<noteq> Waits"
    if "t \<in> set (ss_aborted (arrive limit b s))" for t
  proof (cases "t \<in> set (ss_aborted s)")
    case True
    with inv show ?thesis by (auto simp: sem_inv_def ar nth_append)
  next
    case False
    with that have "b" "t = ?n" by (auto simp: ar split: if_splits)
    with l(1) have "a = Refused" by (simp add: line_acquire_def)
    then show ?thesis unfolding ar \<open>t = ?n\<close> by simp
  qed
  ultimately show ?thesis by (simp add: sem_inv_def)
qed

lemma filter_after_take: "distinct xs \<Longrightarrow> filter (\<lambda>u. u \<notin> set (take n xs)) xs = drop n xs"
proof (induction xs arbitrary: n)
  case (Cons x xs)
  show ?case
  proof (cases n)
    case (Suc m)
    have "filter (\<lambda>u. u \<notin> set (take n (x # xs))) (x # xs) = filter (\<lambda>u. u \<notin> set (take m xs)) xs"
      using Cons.prems Suc by (auto intro: filter_cong)
    with Cons Suc show ?thesis by simp
  qed simp
qed simp

lemma leave_inv:
  assumes inv: "sem_inv L s" and "limit \<in> L" and t: "t < length (ss_calls s)" "busy (ss_calls s ! t)"
    and ph: "ph \<noteq> Waits" "\<not> busy ph"
  shows "sem_inv L (leave limit t ph s)"
    and "ss_calls (leave limit t ph s) = resolve_calls (take (nat (max 1 limit - (sm_active (ss_sem s) - 1))) (waiting_calls (ss_calls s)))
      ((ss_calls s)[t := ph])"
proof -
  from inv have c: "sem_core L s" by (simp add: sem_inv_def)
  note d = sem_coreD[OF c]
  let ?W = "waiting_calls (ss_calls s)" and ?A = "sm_active (ss_sem s)" and ?cs = "(ss_calls s)[t := ph]"
  let ?free = "nat (max 1 limit - (?A - 1))"
  let ?ts = "take ?free ?W"
  have na: "\<forall>u \<in> set (ln_waiting (abs_sem (ss_sem s))). \<not> u \<in> set (ss_aborted s)"
    using inv by (auto simp: d(2) in_waiting_calls sem_inv_def)
  note r = release_refines[OF d(1), of "\<lambda>u. u \<in> set (ss_aborted s)" limit, OF na]
  obtain sem ts where rel: "release limit (\<lambda>u. u \<in> set (ss_aborted s)) (ss_sem s) = (sem, ts)" by fastforce
  have a: "ln_active (abs_sem (ss_sem s)) = ?A" by (simp add: abs_sem_def)
  have ts: "ts = ?ts" and ok: "sem_ok sem" and ab: "abs_sem sem = \<lparr>ln_active = ?A - 1 + int (length ?ts), ln_waiting = drop ?free ?W\<rparr>"
    using r by (simp_all add: rel line_release_def Let_def a d(2))
  have act: "sm_active sem = ?A - 1 + int (length ?ts)" using arg_cong[OF ab, of ln_active] by (simp add: abs_sem_def)
  have tw: "ss_calls s ! t \<noteq> Waits" using t(2) by (auto simp: busy_def)
  have W: "waiting_calls ?cs = ?W"
    using waiting_calls_update[OF t(1) ph(1)] tw by (auto simp: filter_id_conv in_waiting_calls)
  have "set ?ts \<subseteq> set ?W" by (rule set_take_subset)
  then have tsw: "\<forall>u \<in> set ?ts. u < length ?cs \<and> ?cs ! u = Waits"
    using tw by (metis in_waiting_calls length_list_update nth_list_update_neq subsetD)
  note k = resolve_calls_keeps[OF tsw distinct_take[OF distinct_waiting_calls]]
  have drop_W: "filter (\<lambda>u. u \<notin> set ?ts) ?W = drop ?free ?W"
    by (rule filter_after_take[OF distinct_waiting_calls])
  show calls: "ss_calls (leave limit t ph s) = resolve_calls ?ts ?cs" by (simp add: leave_def rel ts)
  have sys: "ss_sem (leave limit t ph s) = sem" "ss_aborted (leave limit t ph s) = ss_aborted s" by (simp_all add: leave_def rel)
  have wait': "waiting_calls (ss_calls (leave limit t ph s)) = drop ?free ?W" using k by (simp only: calls W drop_W)
  have "sem_core L (leave limit t ph s)"
  proof (rule sem_coreI)
    show "sem_ok (ss_sem (leave limit t ph s))" by (simp add: sys ok)
    show "ln_waiting (abs_sem (ss_sem (leave limit t ph s))) = waiting_calls (ss_calls (leave limit t ph s))"
      by (simp add: sys ab wait')
    show "sm_active (ss_sem (leave limit t ph s)) = int (busy_count (ss_calls (leave limit t ph s)))"
      using k busy_count_update[OF t(1), of ph] t(2) ph(2) by (simp add: sys act calls d(3))
  next
    fix m assume m: "\<forall>l \<in> L. l \<le> m"
    then have "max 1 limit \<le> max 1 m" using assms(2) by (auto simp: max_def)
    moreover have "length ?ts \<le> ?free" by simp
    then have "?A - 1 + int (length ?ts) \<le> max (max 1 limit) (?A - 1)" by linarith
    ultimately have "?A - 1 + int (length ?ts) \<le> max 1 m" using d(4)[OF m] by linarith
    then show "sm_active (ss_sem (leave limit t ph s)) \<le> max 1 m" by (simp only: sys act)
  next
    assume "waiting_calls (ss_calls (leave limit t ph s)) \<noteq> []"
    then have "length ?ts = ?free" by (simp add: wait' min_def)
    then have full: "max 1 limit \<le> ?A - 1 + int (length ?ts)" by linarith
    then show "1 \<le> sm_active (ss_sem (leave limit t ph s))" by (simp add: sys act)
    fix m assume "\<forall>l \<in> L. m \<le> l"
    then have "max 1 m \<le> max 1 limit" using assms(2) by (auto simp: max_def)
    with full show "max 1 m \<le> sm_active (ss_sem (leave limit t ph s))" unfolding sys act by (rule order_trans[rotated])
  qed
  moreover have "u < length (ss_calls (leave limit t ph s)) \<and> ss_calls (leave limit t ph s) ! u \<noteq> Waits"
    if "u \<in> set (ss_aborted s)" for u
  proof -
    have u: "u < length (ss_calls s)" "ss_calls s ! u \<noteq> Waits" using inv that by (auto simp: sem_inv_def)
    then have "?cs ! u \<noteq> Waits" using ph(1) by (cases "u = t") auto
    with u k show ?thesis by (simp add: calls)
  qed
  ultimately show "sem_inv L (leave limit t ph s)" by (simp add: sem_inv_def sys)
qed

lemma reject_call_core:
  assumes c: "sem_core L s"
  shows "sem_core L (reject_call t s)"
    and "length (ss_calls (reject_call t s)) = length (ss_calls s)" "ss_aborted (reject_call t s) = ss_aborted s"
    and "u < length (ss_calls s) \<Longrightarrow> ss_calls (reject_call t s) ! u =
      (if u = t \<and> ss_calls s ! u = Waits then Rejected else ss_calls s ! u)"
proof -
  note d = sem_coreD[OF c]
  have "sem_core L (reject_call t s) \<and> length (ss_calls (reject_call t s)) = length (ss_calls s)
    \<and> ss_aborted (reject_call t s) = ss_aborted s
    \<and> (\<forall>u < length (ss_calls s). ss_calls (reject_call t s) ! u =
        (if u = t \<and> ss_calls s ! u = Waits then Rejected else ss_calls s ! u))"
  proof (cases "phase_is t Waits s")
    case True
    note r = on_abort_refines[OF d(1), of t]
    obtain found sem where oa: "on_abort t (ss_sem s) = (found, sem)" by fastforce
    have f: "found" using r(1) True by (simp add: oa line_abort_def d(2) in_waiting_calls)
    have ab: "abs_sem sem = \<lparr>ln_active = sm_active (ss_sem s), ln_waiting = filter (\<lambda>u. u \<noteq> t) (waiting_calls (ss_calls s))\<rparr>"
      using r(2) d(2) by (simp add: oa line_abort_def) (simp add: abs_sem_def)
    have act: "sm_active sem = sm_active (ss_sem s)" using arg_cong[OF ab, of ln_active] by (simp add: abs_sem_def)
    have e: "reject_call t s = s\<lparr>ss_sem := sem, ss_calls := (ss_calls s)[t := Rejected]\<rparr>"
      using True f by (simp add: reject_call_def oa)
    have w: "waiting_calls ((ss_calls s)[t := Rejected]) = filter (\<lambda>u. u \<noteq> t) (waiting_calls (ss_calls s))"
      using True by (simp add: waiting_calls_update)
    have "int (busy_count ((ss_calls s)[t := Rejected])) = int (busy_count (ss_calls s))"
      using True by (simp add: busy_count_update busy_def)
    moreover have "filter (\<lambda>u. u \<noteq> t) (waiting_calls (ss_calls s)) \<noteq> [] \<Longrightarrow> waiting_calls (ss_calls s) \<noteq> []" by auto
    ultimately have "sem_core L (reject_call t s)"
      unfolding e by (intro sem_coreI) (use r(3) d in \<open>simp_all add: oa ab act w\<close>)
    then show ?thesis using True by (simp add: e nth_list_update)
  next
    case False
    then have "reject_call t s = s" unfolding reject_call_def by (rule if_not_P)
    with False c show ?thesis by auto
  qed
  then show "sem_core L (reject_call t s)" "length (ss_calls (reject_call t s)) = length (ss_calls s)"
    "ss_aborted (reject_call t s) = ss_aborted s"
    "u < length (ss_calls s) \<Longrightarrow> ss_calls (reject_call t s) ! u =
      (if u = t \<and> ss_calls s ! u = Waits then Rejected else ss_calls s ! u)" by blast+
qed

lemma reject_calls_core:
  "sem_core L s \<Longrightarrow> sem_core L (fold reject_call ts s) \<and> length (ss_calls (fold reject_call ts s)) = length (ss_calls s)
     \<and> ss_aborted (fold reject_call ts s) = ss_aborted s
     \<and> (\<forall>u < length (ss_calls s). ss_calls (fold reject_call ts s) ! u =
          (if u \<in> set ts \<and> ss_calls s ! u = Waits then Rejected else ss_calls s ! u))"
proof (induction ts arbitrary: s)
  case (Cons t ts)
  note r = reject_call_core[OF Cons.prems, where t = t]
  note ih = Cons.IH[OF r(1)]
  have "ss_calls (fold reject_call (t # ts) s) ! u =
      (if u \<in> set (t # ts) \<and> ss_calls s ! u = Waits then Rejected else ss_calls s ! u)" if "u < length (ss_calls s)" for u
    using ih r(2) r(4)[OF that] that by auto
  with ih r(2,3) show ?case by simp
qed simp

lemma abort_signal_inv:
  assumes "sem_inv L s" and "\<forall>t \<in> set ts. t < length (ss_calls s)"
  shows "sem_inv L (abort_signal ts s)" "length (ss_calls (abort_signal ts s)) = length (ss_calls s)"
proof -
  let ?s = "s\<lparr>ss_aborted := ts @ ss_aborted s\<rparr>"
  have "sem_core L ?s" using assms(1) by (simp add: sem_inv_def)
  note r = reject_calls_core[OF this, of ts]
  then show "sem_inv L (abort_signal ts s)" "length (ss_calls (abort_signal ts s)) = length (ss_calls s)"
    using assms by (auto simp: sem_inv_def abort_signal_def split: if_splits)
qed

lemma internal_inv:
  assumes "sem_internal L s t" and "sem_inv L s"
  shows "sem_inv L t"
  using assms
proof cases
  case (goes_on u)
  have c: "sem_core L s" using assms(2) by (simp add: sem_inv_def)
  have w: "waiting_calls ((ss_calls s)[u := Holds]) = waiting_calls (ss_calls s)"
    using goes_on(2) waiting_calls_update[of u "ss_calls s" Holds] by (auto simp: filter_id_conv in_waiting_calls)
  have "int (busy_count ((ss_calls s)[u := Holds])) = int (busy_count (ss_calls s))"
    using goes_on(2) by (simp add: busy_count_update busy_def)
  then have "sem_core L t"
    unfolding goes_on(1) by (intro sem_coreI) (use sem_coreD[OF c] in \<open>simp_all add: w\<close>)
  moreover have "(ss_calls s)[u := Holds] ! v \<noteq> Waits" if "ss_calls s ! v \<noteq> Waits" for v
    using that goes_on(2) by (cases "u = v") auto
  ultimately show ?thesis using assms(2) by (auto simp: sem_inv_def goes_on(1))
qed (use assms(2) leave_inv(1) in \<open>auto simp: busy_def\<close>)

lemma sem_reach_inv: "sem_reach L s \<Longrightarrow> sem_inv L s"
proof (induction rule: sem_reach.induct)
  case start
  then show ?case
    by (auto simp: sem_inv_def sem_core_def empty_system_def createSemaphore_def sem_ok_def abs_sem_def
        waiting_calls_def busy_count_def List.map_filter_simps)
qed (auto intro: arrive_inv abort_signal_inv internal_inv)

subsection \<open>Every call ends\<close>

definition call_work :: "call_phase \<Rightarrow> nat" where
  "call_work ph = (case ph of Waits \<Rightarrow> 2 | Resolved \<Rightarrow> 2 | Holds \<Rightarrow> 1 | _ \<Rightarrow> 0)"

definition sem_work :: "sem_system \<Rightarrow> nat" where
  "sem_work s = sum_list (map call_work (ss_calls s))"

definition sem_quiet :: "sem_system \<Rightarrow> bool" where
  "sem_quiet s \<longleftrightarrow> (\<forall>ph \<in> set (ss_calls s). ph = Rejected \<or> ph = Over)"

lemma work_update:
  "t < length cs \<Longrightarrow> int (sum_list (map call_work (cs[t := ph]))) =
     int (sum_list (map call_work cs)) + int (call_work ph) - int (call_work (cs ! t))"
proof (induction cs arbitrary: t)
  case (Cons c cs)
  then show ?case by (cases t) auto
qed simp

lemma work_resolve:
  "\<forall>t \<in> set ts. t < length cs \<and> cs ! t = Waits \<Longrightarrow> distinct ts \<Longrightarrow>
     sum_list (map call_work (resolve_calls ts cs)) = sum_list (map call_work cs)"
proof (induction ts arbitrary: cs)
  case (Cons t ts)
  have "\<forall>u \<in> set ts. u < length (cs[t := Resolved]) \<and> cs[t := Resolved] ! u = Waits"
    using Cons.prems by (auto simp: nth_list_update)
  moreover have "sum_list (map call_work (cs[t := Resolved])) = sum_list (map call_work cs)"
    using work_update[of t cs Resolved] Cons.prems(1) by (simp add: call_work_def)
  ultimately show ?case using Cons.IH[of "cs[t := Resolved]"] Cons.prems(2) by (simp add: resolve_calls_def)
qed (simp add: resolve_calls_def)

lemma leave_work:
  assumes "sem_inv L s" "limit \<in> L" "t < length (ss_calls s)" "busy (ss_calls s ! t)" "ph \<noteq> Waits" "\<not> busy ph"
  shows "sem_work (leave limit t ph s) < sem_work s"
proof -
  let ?ts = "take (nat (max 1 limit - (sm_active (ss_sem s) - 1))) (waiting_calls (ss_calls s))"
  have "\<forall>u \<in> set ?ts. u < length ((ss_calls s)[t := ph]) \<and> (ss_calls s)[t := ph] ! u = Waits"
  proof
    fix u assume "u \<in> set ?ts"
    then have u: "u < length (ss_calls s)" "ss_calls s ! u = Waits" by (auto dest!: in_set_takeD simp: in_waiting_calls)
    with assms(4) have "u \<noteq> t" by (auto simp: busy_def)
    with u show "u < length ((ss_calls s)[t := ph]) \<and> (ss_calls s)[t := ph] ! u = Waits" by simp
  qed
  from work_resolve[OF this distinct_take[OF distinct_waiting_calls]]
  have "sem_work (leave limit t ph s) = sum_list (map call_work ((ss_calls s)[t := ph]))"
    by (simp add: sem_work_def leave_inv(2)[OF assms])
  moreover have "call_work ph = 0" "0 < call_work (ss_calls s ! t)"
    using assms(4,5,6) by (auto simp: call_work_def busy_def split: call_phase.split)
  ultimately show ?thesis using work_update[OF assms(3), of ph] by (simp add: sem_work_def)
qed

lemma internal_work: "sem_internal L s t \<Longrightarrow> sem_inv L s \<Longrightarrow> sem_work t < sem_work s"
proof (induction rule: sem_internal.induct)
  case (goes_on u s)
  then show ?case using work_update[of u "ss_calls s" Holds] by (simp add: sem_work_def call_work_def)
qed (auto intro!: leave_work simp: busy_def)

lemma step_or_quiet:
  assumes inv: "sem_inv L s" and "L \<noteq> {}" and "\<not> sem_quiet s"
  shows "\<exists>t. sem_internal L s t"
proof -
  have c: "sem_core L s" using inv by (simp add: sem_inv_def)
  from assms(3) obtain t where t: "t < length (ss_calls s)" "ss_calls s ! t \<noteq> Rejected" "ss_calls s ! t \<noteq> Over"
    by (auto simp: sem_quiet_def in_set_conv_nth)
  obtain u where "u < length (ss_calls s)" "busy (ss_calls s ! u)"
  proof (cases "busy (ss_calls s ! t)")
    case False
    with t have "t \<in> set (waiting_calls (ss_calls s))" by (cases "ss_calls s ! t") (auto simp: in_waiting_calls busy_def)
    with sem_coreD(3,6)[OF c] have "filter busy (ss_calls s) \<noteq> []" by (fastforce simp: busy_count_def)
    with that show thesis by (auto simp: filter_empty_conv in_set_conv_nth)
  qed (use t that in blast)
  with assms(2) show ?thesis using sem_internal.intros unfolding busy_def by blast
qed

interpretation sem: settling "sem_internal L" "\<lambda>s. sem_inv L s \<and> L \<noteq> {}" sem_work sem_quiet for L
  by unfold_locales (auto intro: internal_inv internal_work step_or_quiet)

lemma sem_work_bound: "sem_work s \<le> 2 * length (ss_calls s)"
proof -
  have "call_work ph \<le> 2" for ph by (simp add: call_work_def split: call_phase.split)
  then have "sum_list (map call_work cs) \<le> sum_list (map (\<lambda>_. 2) cs)" for cs by (intro sum_list_mono) simp
  then show ?thesis by (simp add: sem_work_def sum_list_triv mult.commute)
qed

subsection \<open>Properties\<close>



text \<open>Three calls at a semaphore of one slot; the second gives up its wait.\<close>

definition sample_calls :: sem_system where
  "sample_calls = abort_signal [1] (arrive 1 False (arrive 1 False (arrive 1 False empty_system)))"

lemma sample_calls_reach: "sem_reach {1} sample_calls"
  unfolding sample_calls_def
  by (intro sem_reach.aborts sem_reach.arrives sem_reach.start) (auto simp: arrive_def Let_def split: prod.split)



subsection \<open>A release inside the dispatch of an abort\<close>

text \<open>
  The listeners of a signal run one after the other. When one of them releases a slot, \<^verbatim>\<open>release\<close>
  skips the call whose signal is aborted and makes a hole of its entry; the call's own listener, which
  runs later, then does not find it. Its promise is neither resolved nor rejected.
\<close>

lemma skipped_call_hangs:
  "let s = snd (acquire 1 False 1 (snd (acquire 1 False 0 createSemaphore))); (s', ts) = release 1 (\<lambda>t. t = 1) s
   in ts = [] \<and> fst (on_abort 1 s) \<and> \<not> fst (on_abort 1 s')"
  by code_simp

end
