(* ===== verification/Map_Concurrent.thy ===== *)
theory Map_Concurrent
  imports Settling
begin

section \<open>Bounded concurrent mapping\<close>

text \<open>
  \<^verbatim>\<open>mapConcurrent\<close> of \<^verbatim>\<open>utils/promise.utils.ts\<close>: a few workers take the items in order and
  wait for the mapper; \<^verbatim>\<open>Promise.all\<close> settles with the first failure or when all workers have
  ended. An item may be \<^verbatim>\<open>undefined\<close>, which is skipped. The mapper is a function from the index to the
  outcome it will settle with, a failure or a result. After a failure the other workers go on.
\<close>

datatype 'e worker = Ready | Mapping nat | Ended | Failed

record ('e, 'r) mapping_run =
  mr_next :: nat
  mr_workers :: "'e worker list"
  mr_results :: "'r option list"
  mr_aborted :: bool
  mr_failure :: "'e option"
  mr_called :: "nat list"

definition concurrency_invalid :: domain_error where
  "concurrency_invalid = DomainError Internal ''concurrency.invalid''"

text \<open>The call up to its first wait; the limit is an integer or no integer at all.\<close>

definition mapConcurrent :: "'a option list \<Rightarrow> int option \<Rightarrow> bool \<Rightarrow> ('e, 'r) mapping_run result" where
  "mapConcurrent items concurrency aborted =
     (case concurrency of None \<Rightarrow> Throw concurrency_invalid
      | Some c \<Rightarrow>
          if c < 1 then Throw concurrency_invalid
          else Return \<lparr>mr_next = 0, mr_workers = replicate (min (nat c) (length items)) Ready,
            mr_results = replicate (length items) None, mr_aborted = aborted, mr_failure = None, mr_called = []\<rparr>)"

text \<open>One round of a worker's loop, up to the mapper's promise or the end.\<close>

definition worker_round :: "'a option list \<Rightarrow> 'e \<Rightarrow> nat \<Rightarrow> ('e, 'r) mapping_run \<Rightarrow> ('e, 'r) mapping_run" where
  "worker_round items reason k s =
     (if length items \<le> mr_next s then s\<lparr>mr_workers := (mr_workers s)[k := Ended]\<rparr>
      else if mr_aborted s then
        s\<lparr>mr_workers := (mr_workers s)[k := Failed],
          mr_failure := (case mr_failure s of None \<Rightarrow> Some reason | Some e \<Rightarrow> Some e)\<rparr>
      else
        (let index = mr_next s; s1 = s\<lparr>mr_next := index + 1\<rparr> in
         case items ! index of
           None \<Rightarrow> s1
         | Some _ \<Rightarrow> s1\<lparr>mr_workers := (mr_workers s)[k := Mapping index], mr_called := mr_called s @ [index]\<rparr>))"

definition mapper_settled :: "(nat \<Rightarrow> 'e + 'r) \<Rightarrow> nat \<Rightarrow> nat \<Rightarrow> ('e, 'r) mapping_run \<Rightarrow> ('e, 'r) mapping_run" where
  "mapper_settled f k index s =
     (case f index of
        Inr r \<Rightarrow> s\<lparr>mr_workers := (mr_workers s)[k := Ready], mr_results := (mr_results s)[index := Some r]\<rparr>
      | Inl e \<Rightarrow> s\<lparr>mr_workers := (mr_workers s)[k := Failed],
          mr_failure := (case mr_failure s of None \<Rightarrow> Some e | Some e' \<Rightarrow> Some e')\<rparr>)"

text \<open>What \<^verbatim>\<open>Promise.all\<close> has settled with.\<close>

definition mapped :: "('e, 'r) mapping_run \<Rightarrow> ('e + 'r option list) option" where
  "mapped s =
     (case mr_failure s of Some e \<Rightarrow> Some (Inl e)
      | None \<Rightarrow> if \<forall>w \<in> set (mr_workers s). w = Ended then Some (Inr (mr_results s)) else None)"

inductive map_step :: "'a option list \<Rightarrow> (nat \<Rightarrow> 'e + 'r) \<Rightarrow> 'e \<Rightarrow> ('e, 'r) mapping_run \<Rightarrow> ('e, 'r) mapping_run \<Rightarrow> bool"
  for items f reason where
  round: "k < length (mr_workers s) \<Longrightarrow> mr_workers s ! k = Ready \<Longrightarrow> map_step items f reason s (worker_round items reason k s)"
| settled: "k < length (mr_workers s) \<Longrightarrow> mr_workers s ! k = Mapping i \<Longrightarrow> map_step items f reason s (mapper_settled f k i s)"

text \<open>Runs of a call; its signal may abort at any time.\<close>

inductive map_reach :: "'a option list \<Rightarrow> int \<Rightarrow> (nat \<Rightarrow> 'e + 'r) \<Rightarrow> 'e \<Rightarrow> ('e, 'r) mapping_run \<Rightarrow> bool"
  for items c f reason where
  called: "mapConcurrent items (Some c) b = Return s \<Longrightarrow> map_reach items c f reason s"
| aborted: "map_reach items c f reason s \<Longrightarrow> map_reach items c f reason (s\<lparr>mr_aborted := True\<rparr>)"
| stepped: "map_reach items c f reason s \<Longrightarrow> map_step items f reason s t \<Longrightarrow> map_reach items c f reason t"

inductive_cases map_stepE: "map_step items f reason s t"

subsection \<open>The invariant\<close>

text \<open>The indices whose mapper has settled.\<close>

definition settled_at :: "'a option list \<Rightarrow> ('e, 'r) mapping_run \<Rightarrow> nat \<Rightarrow> bool" where
  "settled_at items s i \<longleftrightarrow> i < mr_next s \<and> items ! i \<noteq> None \<and> Mapping i \<notin> set (mr_workers s)"

definition result_of :: "(nat \<Rightarrow> 'e + 'r) \<Rightarrow> nat \<Rightarrow> 'r option" where
  "result_of f i = (case f i of Inr r \<Rightarrow> Some r | Inl _ \<Rightarrow> None)"

definition shape_inv :: "'a option list \<Rightarrow> int \<Rightarrow> ('e, 'r) mapping_run \<Rightarrow> bool" where
  "shape_inv items c s \<longleftrightarrow>
     1 \<le> c \<and> length (mr_workers s) = min (nat c) (length items)
     \<and> length (mr_results s) = length items \<and> mr_next s \<le> length items
     \<and> mr_called s = filter (\<lambda>i. items ! i \<noteq> None) [0..<mr_next s]
     \<and> (Ended \<in> set (mr_workers s) \<longrightarrow> mr_next s = length items)
     \<and> (Failed \<in> set (mr_workers s) \<longrightarrow> mr_failure s \<noteq> None)"

definition workers_inv :: "'a option list \<Rightarrow> ('e, 'r) mapping_run \<Rightarrow> bool" where
  "workers_inv items s \<longleftrightarrow>
     (\<forall>k i. k < length (mr_workers s) \<longrightarrow> mr_workers s ! k = Mapping i \<longrightarrow> i < mr_next s \<and> items ! i \<noteq> None)
     \<and> (\<forall>k l i. k < length (mr_workers s) \<longrightarrow> l < length (mr_workers s) \<longrightarrow>
          mr_workers s ! k = Mapping i \<longrightarrow> mr_workers s ! l = Mapping i \<longrightarrow> k = l)"

definition outcome_inv :: "'a option list \<Rightarrow> (nat \<Rightarrow> 'e + 'r) \<Rightarrow> 'e \<Rightarrow> ('e, 'r) mapping_run \<Rightarrow> bool" where
  "outcome_inv items f reason s \<longleftrightarrow>
     (\<forall>i < length items. mr_results s ! i = (if settled_at items s i then result_of f i else None))
     \<and> (\<forall>i e. settled_at items s i \<longrightarrow> f i = Inl e \<longrightarrow> mr_failure s \<noteq> None)
     \<and> (\<forall>e. mr_failure s = Some e \<longrightarrow> (e = reason \<and> mr_aborted s) \<or> (\<exists>i. settled_at items s i \<and> f i = Inl e))"

definition map_inv :: "'a option list \<Rightarrow> int \<Rightarrow> (nat \<Rightarrow> 'e + 'r) \<Rightarrow> 'e \<Rightarrow> ('e, 'r) mapping_run \<Rightarrow> bool" where
  "map_inv items c f reason s \<longleftrightarrow> shape_inv items c s \<and> workers_inv items s \<and> outcome_inv items f reason s"

lemma set_update_mem:
  "k < length ws \<Longrightarrow> w \<noteq> v \<Longrightarrow> w \<in> set (ws[k := v]) \<longleftrightarrow> (\<exists>l < length ws. l \<noteq> k \<and> ws ! l = w)"
  by (auto simp: in_set_conv_nth nth_list_update)

lemma set_update_other: "k < length ws \<Longrightarrow> ws ! k \<noteq> w \<Longrightarrow> w \<noteq> v \<Longrightarrow> w \<in> set (ws[k := v]) \<longleftrightarrow> w \<in> set ws"
  by (metis in_set_conv_nth set_update_mem)

lemma outcome_inv_cong:
  assumes "outcome_inv items f reason s" and "\<And>i. settled_at items t i = settled_at items s i"
    and "mr_results t = mr_results s" "mr_failure t = mr_failure s" "mr_aborted t = mr_aborted s"
  shows "outcome_inv items f reason t"
  using assms(1) by (simp add: outcome_inv_def assms(2-5))

text \<open>The worker at \<open>k\<close>, which is \<open>Ready\<close>, becomes one that maps nothing.\<close>

lemma settled_at_idle:
  assumes "k < length (mr_workers s)" and "mr_workers s ! k = Ready" and "\<forall>i. w \<noteq> Mapping i"
    and "mr_workers t = (mr_workers s)[k := w]" "mr_next t = mr_next s"
  shows "settled_at items t i = settled_at items s i"
  using set_update_other[OF assms(1), of "Mapping i" w] assms by (auto simp: settled_at_def)

lemma workers_inv_idle:
  assumes "workers_inv items s" and "\<forall>i. w \<noteq> Mapping i"
    and "mr_workers t = (mr_workers s)[k := w]" "mr_next t = mr_next s"
  shows "workers_inv items t"
proof -
  have l: "length (mr_workers t) = length (mr_workers s)" using assms(3) by simp
  have m: "mr_workers t ! l = Mapping i \<Longrightarrow> l < length (mr_workers s) \<Longrightarrow> l \<noteq> k \<and> mr_workers s ! l = Mapping i" for l i
    using assms(2,3) by (cases "l = k") auto
  have "mr_next t = mr_next s" by (rule assms(4))
  with assms(1) m l show ?thesis unfolding workers_inv_def by metis
qed

lemma worker_round_inv:
  assumes inv: "map_inv items c f reason s" and k: "k < length (mr_workers s)" "mr_workers s ! k = Ready"
  shows "map_inv items c f reason (worker_round items reason k s)"
proof -
  have sh: "shape_inv items c s" and wk: "workers_inv items s" and oc: "outcome_inv items f reason s"
    using inv by (simp_all add: map_inv_def)
  consider (ends) "length items \<le> mr_next s" | (aborts) "mr_next s < length items" "mr_aborted s"
    | (skips) "mr_next s < length items" "\<not> mr_aborted s" "items ! mr_next s = None"
    | (calls) x where "mr_next s < length items" "\<not> mr_aborted s" "items ! mr_next s = Some x"
    by fastforce
  then show ?thesis
  proof cases
    case ends
    let ?t = "s\<lparr>mr_workers := (mr_workers s)[k := Ended]\<rparr>"
    have e: "worker_round items reason k s = ?t" using ends by (simp add: worker_round_def)
    have st: "settled_at items ?t i = settled_at items s i" for i by (rule settled_at_idle[OF k]) simp_all
    have "workers_inv items ?t" by (rule workers_inv_idle[OF wk]) simp_all
    moreover have "outcome_inv items f reason ?t" using oc by (simp add: outcome_inv_def st)
    moreover have "shape_inv items c ?t"
      using sh ends k set_update_other[OF k(1), of Failed Ended] by (auto simp: shape_inv_def)
    ultimately show ?thesis by (simp add: map_inv_def e)
  next
    case aborts
    let ?t = "s\<lparr>mr_workers := (mr_workers s)[k := Failed],
      mr_failure := (case mr_failure s of None \<Rightarrow> Some reason | Some e \<Rightarrow> Some e)\<rparr>"
    have e: "worker_round items reason k s = ?t" using aborts by (simp add: worker_round_def)
    have st: "settled_at items (s\<lparr>mr_workers := (mr_workers s)[k := Failed], mr_failure := x\<rparr>) i = settled_at items s i" for i x
      by (rule settled_at_idle[OF k]) simp_all
    have "workers_inv items ?t" by (rule workers_inv_idle[OF wk]) simp_all
    moreover have "outcome_inv items f reason ?t" using oc aborts(2) by (auto simp: outcome_inv_def st split: option.split)
    moreover have "shape_inv items c ?t"
      using sh k set_update_other[OF k(1), of Ended Failed] by (auto simp: shape_inv_def split: option.split)
    ultimately show ?thesis by (simp add: map_inv_def e)
  next
    case skips
    let ?t = "s\<lparr>mr_next := mr_next s + 1\<rparr>"
    have e: "worker_round items reason k s = ?t" using skips by (simp add: worker_round_def Let_def)
    have st: "settled_at items ?t i = settled_at items s i" for i
      using skips(3) by (auto simp: settled_at_def less_Suc_eq)
    have "workers_inv items ?t" using wk by (auto simp: workers_inv_def less_Suc_eq)
    moreover have "outcome_inv items f reason ?t" by (rule outcome_inv_cong[OF oc st]) simp_all
    moreover have "shape_inv items c ?t" using sh skips by (auto simp: shape_inv_def)
    ultimately show ?thesis by (simp add: map_inv_def e)
  next
    case calls
    let ?n = "mr_next s"
    let ?t = "s\<lparr>mr_next := ?n + 1, mr_workers := (mr_workers s)[k := Mapping ?n], mr_called := mr_called s @ [?n]\<rparr>"
    have e: "worker_round items reason k s = ?t" using calls by (simp add: worker_round_def Let_def)
    have m: "(mr_workers s)[k := Mapping ?n] ! l = (if l = k then Mapping ?n else mr_workers s ! l)" for l
      using k(1) by (simp add: nth_list_update)
    have fresh: "mr_workers s ! l \<noteq> Mapping ?n" if "l < length (mr_workers s)" for l
      using wk that unfolding workers_inv_def by blast
    have "Mapping i \<in> set ((mr_workers s)[k := Mapping ?n]) \<longleftrightarrow> i = ?n \<or> Mapping i \<in> set (mr_workers s)" for i
      using set_update_other[OF k(1), of "Mapping i" "Mapping ?n"] k by (cases "i = ?n") (auto simp: set_update_memI)
    then have st: "settled_at items ?t i = settled_at items s i" for i
      by (auto simp: settled_at_def less_Suc_eq)
    have "workers_inv items ?t"
      using wk fresh calls(3) unfolding workers_inv_def by (auto simp: m less_Suc_eq split: if_splits)
    moreover have "outcome_inv items f reason ?t" by (rule outcome_inv_cong[OF oc st]) simp_all
    moreover have "shape_inv items c ?t"
      using sh calls k set_update_other[OF k(1), of Ended "Mapping ?n"] set_update_other[OF k(1), of Failed "Mapping ?n"]
      by (auto simp: shape_inv_def)
    ultimately show ?thesis by (simp add: map_inv_def e)
  qed
qed

lemma mapper_settled_inv:
  assumes inv: "map_inv items c f reason s" and k: "k < length (mr_workers s)" "mr_workers s ! k = Mapping i"
  shows "map_inv items c f reason (mapper_settled f k i s)"
proof -
  have sh: "shape_inv items c s" and wk: "workers_inv items s" and oc: "outcome_inv items f reason s"
    using inv by (simp_all add: map_inv_def)
  have i: "i < mr_next s" "items ! i \<noteq> None" using wk k unfolding workers_inv_def by blast+
  then have il: "i < length items" using sh by (simp add: shape_inv_def)
  have only: "l = k" if "l < length (mr_workers s)" "mr_workers s ! l = Mapping i" for l
    using wk that k unfolding workers_inv_def by blast
  have not_settled: "\<not> settled_at items s i" using k by (auto simp: settled_at_def in_set_conv_nth)
  have mem: "Mapping j \<in> set ((mr_workers s)[k := w]) \<longleftrightarrow> j \<noteq> i \<and> Mapping j \<in> set (mr_workers s)"
    if "\<forall>j. w \<noteq> Mapping j" for j w
  proof (cases "j = i")
    case True
    with only k(1) show ?thesis using set_update_mem[OF k(1), of "Mapping j" w] that by metis
  next
    case False
    then show ?thesis using set_update_other[OF k(1), of "Mapping j" w] k(2) that by (metis worker.inject)
  qed
  have st: "settled_at items t j \<longleftrightarrow> settled_at items s j \<or> j = i"
    if "\<forall>j. w \<noteq> Mapping j" "mr_workers t = (mr_workers s)[k := w]" "mr_next t = mr_next s" for t w j
    using mem[OF that(1)] i not_settled by (auto simp: settled_at_def that(2,3))
  show ?thesis
  proof (cases "f i")
    case (Inr r)
    let ?t = "s\<lparr>mr_workers := (mr_workers s)[k := Ready], mr_results := (mr_results s)[i := Some r]\<rparr>"
    have e: "mapper_settled f k i s = ?t" using Inr by (simp add: mapper_settled_def)
    have st': "settled_at items ?t j \<longleftrightarrow> settled_at items s j \<or> j = i" for j by (rule st[of Ready]) simp_all
    have "workers_inv items ?t" by (rule workers_inv_idle[OF wk]) simp_all
    moreover have "outcome_inv items f reason ?t"
      unfolding outcome_inv_def st'
    proof (intro conjI allI impI)
      fix j assume j: "j < length items"
      show "mr_results ?t ! j = (if settled_at items s j \<or> j = i then result_of f j else None)"
        using oc j il sh Inr by (auto simp: outcome_inv_def shape_inv_def nth_list_update result_of_def)
    qed (use oc Inr in \<open>auto simp: outcome_inv_def\<close>)
    moreover have "shape_inv items c ?t"
      using sh k set_update_other[OF k(1), of Ended Ready] set_update_other[OF k(1), of Failed Ready]
      by (auto simp: shape_inv_def)
    ultimately show ?thesis by (simp add: map_inv_def e)
  next
    case (Inl x)
    let ?t = "s\<lparr>mr_workers := (mr_workers s)[k := Failed],
      mr_failure := (case mr_failure s of None \<Rightarrow> Some x | Some e' \<Rightarrow> Some e')\<rparr>"
    have e: "mapper_settled f k i s = ?t" using Inl by (simp add: mapper_settled_def)
    have st': "settled_at items ?t j \<longleftrightarrow> settled_at items s j \<or> j = i" for j by (rule st[of Failed]) simp_all
    have fl: "mr_failure ?t = (case mr_failure s of None \<Rightarrow> Some x | Some e' \<Rightarrow> Some e')" "mr_results ?t = mr_results s"
      "mr_aborted ?t = mr_aborted s" by simp_all
    have "workers_inv items ?t" by (rule workers_inv_idle[OF wk]) simp_all
    moreover have "outcome_inv items f reason ?t"
      unfolding outcome_inv_def st' fl
    proof (intro conjI allI impI)
      fix j assume j: "j < length items"
      show "mr_results s ! j = (if settled_at items s j \<or> j = i then result_of f j else None)"
        using oc j not_settled Inl by (auto simp: outcome_inv_def result_of_def)
    next
      fix e assume "(case mr_failure s of None \<Rightarrow> Some x | Some e' \<Rightarrow> Some e') = Some e"
      with oc Inl show "e = reason \<and> mr_aborted s \<or> (\<exists>j. (settled_at items s j \<or> j = i) \<and> f j = Inl e)"
        by (cases "mr_failure s") (auto simp: outcome_inv_def)
    qed (auto split: option.split)
    moreover have "shape_inv items c ?t"
      using sh k set_update_other[OF k(1), of Ended Failed] by (auto simp: shape_inv_def split: option.split)
    ultimately show ?thesis by (simp add: map_inv_def e)
  qed
qed

lemma map_reach_inv: "map_reach items c f reason s \<Longrightarrow> map_inv items c f reason s"
proof (induction rule: map_reach.induct)
  case (called b s)
  then have c: "1 \<le> c" and s: "s = \<lparr>mr_next = 0, mr_workers = replicate (min (nat c) (length items)) Ready,
            mr_results = replicate (length items) None, mr_aborted = b, mr_failure = None, mr_called = []\<rparr>"
    by (auto simp: mapConcurrent_def split: if_splits)
  show ?case
    by (simp add: s c map_inv_def shape_inv_def workers_inv_def outcome_inv_def settled_at_def)
next
  case (aborted s)
  have "settled_at items (s\<lparr>mr_aborted := True\<rparr>) i = settled_at items s i" for i by (simp add: settled_at_def)
  with aborted.IH show ?case by (auto simp: map_inv_def shape_inv_def workers_inv_def outcome_inv_def)
next
  case (stepped s t)
  from stepped(2) show ?case
    by cases (use stepped.IH worker_round_inv mapper_settled_inv in auto)
qed

subsection \<open>Every call settles\<close>

definition worker_work :: "'e worker \<Rightarrow> nat" where
  "worker_work w = (case w of Ready \<Rightarrow> 1 | Mapping _ \<Rightarrow> 2 | _ \<Rightarrow> 0)"

definition map_work :: "'a option list \<Rightarrow> ('e, 'r) mapping_run \<Rightarrow> nat" where
  "map_work items s = 2 * (length items - mr_next s) + sum_list (map worker_work (mr_workers s))"

definition map_quiet :: "('e, 'r) mapping_run \<Rightarrow> bool" where
  "map_quiet s \<longleftrightarrow> (\<forall>w \<in> set (mr_workers s). w = Ended \<or> w = Failed)"

lemma worker_work_update:
  "k < length ws \<Longrightarrow> int (sum_list (map worker_work (ws[k := w]))) =
     int (sum_list (map worker_work ws)) + int (worker_work w) - int (worker_work (ws ! k))"
proof (induction ws arbitrary: k)
  case (Cons v ws)
  then show ?case by (cases k) auto
qed simp

lemma map_step_work:
  assumes "map_step items f reason s t"
  shows "map_work items t < map_work items s"
  using assms
proof cases
  case (round k)
  note u = worker_work_update[OF round(2)]
  show ?thesis
    using round(3) u[of Ended] u[of Failed] u[of "Mapping (mr_next s)"]
    by (auto simp: round(1) worker_round_def Let_def map_work_def worker_work_def split: option.split)
next
  case (settled k i)
  note u = worker_work_update[OF settled(2)]
  show ?thesis
    using settled(3) u[of Ready] u[of Failed]
    by (auto simp: settled(1) mapper_settled_def map_work_def worker_work_def split: sum.split)
qed

lemma map_step_inv: "map_inv items c f reason s \<Longrightarrow> map_step items f reason s t \<Longrightarrow> map_inv items c f reason t"
  by (erule map_stepE) (auto intro: worker_round_inv mapper_settled_inv)

lemma map_step_or_quiet: "\<not> map_quiet s \<Longrightarrow> \<exists>t. map_step items f reason s t"
proof -
  assume "\<not> map_quiet s"
  then obtain k where k: "k < length (mr_workers s)" "mr_workers s ! k \<noteq> Ended" "mr_workers s ! k \<noteq> Failed"
    by (auto simp: map_quiet_def in_set_conv_nth)
  then show ?thesis by (cases "mr_workers s ! k") (auto intro: map_step.intros)
qed

interpretation cmap: settling "map_step items f reason" "map_inv items c f reason" "map_work items" map_quiet
  for items :: "'a option list" and c and f :: "nat \<Rightarrow> 'e + 'r" and reason
  by unfold_locales (auto intro: map_step_inv map_step_work map_step_or_quiet)

lemma map_work_bound:
  fixes s :: "('e, 'r) mapping_run"
  assumes "map_inv items c f reason s"
  shows "map_work items s \<le> 4 * length items"
proof -
  have "worker_work w \<le> 2" for w :: "'e worker" by (simp add: worker_work_def split: worker.split)
  then have "sum_list (map worker_work (mr_workers s)) \<le> sum_list (map (\<lambda>_. 2) (mr_workers s))"
    by (intro sum_list_mono) simp
  also have "\<dots> \<le> 2 * length items" using assms by (simp add: sum_list_triv map_inv_def shape_inv_def)
  finally show ?thesis by (simp add: map_work_def)
qed

subsection \<open>Properties\<close>

text \<open>The results of mapping the items one after the other.\<close>

definition sequential_results :: "'a option list \<Rightarrow> (nat \<Rightarrow> 'e + 'r) \<Rightarrow> 'r option list" where
  "sequential_results items f = map (\<lambda>i. if items ! i = None then None else result_of f i) [0..<length items]"

lemma mapped_ended:
  assumes inv: "map_inv items c f reason s" and m: "mapped s = Some (Inr rs)"
  shows "rs = sequential_results items f" and "i < length items \<Longrightarrow> items ! i \<noteq> None \<Longrightarrow> f i \<noteq> Inl e"
proof -
  have sh: "shape_inv items c s" and oc: "outcome_inv items f reason s" using inv by (simp_all add: map_inv_def)
  from m have r: "rs = mr_results s" "mr_failure s = None" "\<forall>w \<in> set (mr_workers s). w = Ended"
    by (auto simp: mapped_def split: option.splits if_splits)
  have n: "mr_next s = length items"
  proof (cases "items = []")
    case False
    then have "0 < length (mr_workers s)" using sh by (simp add: shape_inv_def)
    then have w: "mr_workers s ! 0 \<in> set (mr_workers s)" by (rule nth_mem)
    with r(3) have "mr_workers s ! 0 = Ended" by (rule bspec)
    with w have "Ended \<in> set (mr_workers s)" by simp
    with sh show ?thesis by (simp add: shape_inv_def)
  qed (use sh in \<open>simp add: shape_inv_def\<close>)
  have st: "settled_at items s i \<longleftrightarrow> i < length items \<and> items ! i \<noteq> None" for i
  proof -
    have "Mapping i \<notin> set (mr_workers s)" using r(3) by blast
    with n show ?thesis by (simp add: settled_at_def)
  qed
  show "rs = sequential_results items f"
  proof (rule nth_equalityI)
    show "length rs = length (sequential_results items f)" using sh by (simp add: r(1) sequential_results_def shape_inv_def)
    fix i assume "i < length rs"
    then have i: "i < length items" using sh by (simp add: r(1) shape_inv_def)
    then have "rs ! i = (if settled_at items s i then result_of f i else None)" using oc by (simp add: r(1) outcome_inv_def)
    with i show "rs ! i = sequential_results items f ! i" by (simp add: sequential_results_def st)
  qed
  show "i < length items \<Longrightarrow> items ! i \<noteq> None \<Longrightarrow> f i \<noteq> Inl e"
    using oc r(2) by (auto simp: outcome_inv_def st)
qed

text \<open>
  C40. However the mappers of a call settle, and whenever its signal aborts: each defined item is
  given to the mapper once and in order, at most \<open>c\<close> mappers run at a time, and the call ends after
  at most four steps per item with an answer. When it resolves, the results are those of mapping the
  items one after the other and no mapper has failed; when it rejects, it rejects with the failure of
  a mapper it called or the reason of the abort. Without either it resolves.
\<close>

theorem mapConcurrent_is_map:
  assumes "map_reach items c f reason s"
  shows "mr_called s = filter (\<lambda>i. items ! i \<noteq> None) [0..<mr_next s]
    \<and> card {i. Mapping i \<in> set (mr_workers s)} \<le> nat c
    \<and> (\<forall>rs. mapped s = Some (Inr rs) \<longrightarrow> rs = sequential_results items f \<and>
        (\<forall>i e. i < length items \<and> items ! i \<noteq> None \<longrightarrow> f i \<noteq> Inl e))
    \<and> (\<forall>e. mapped s = Some (Inl e) \<longrightarrow> e = reason \<and> mr_aborted s \<or> (\<exists>i \<in> set (mr_called s). f i = Inl e))
    \<and> (\<forall>n t. (map_step items f reason ^^ n) s t \<longrightarrow> n \<le> 4 * length items)
    \<and> (\<forall>n t. (map_step items f reason ^^ n) s t \<and> (\<nexists>u. map_step items f reason t u) \<longrightarrow> mapped t \<noteq> None)"
proof (intro conjI allI impI)
  note inv = map_reach_inv[OF assms]
  have sh: "shape_inv items c s" and oc: "outcome_inv items f reason s" using inv by (simp_all add: map_inv_def)
  show called: "mr_called s = filter (\<lambda>i. items ! i \<noteq> None) [0..<mr_next s]" using sh by (simp add: shape_inv_def)
  have "Mapping ` {i. Mapping i \<in> set (mr_workers s)} \<subseteq> set (mr_workers s)" by auto
  then have "card {i. Mapping i \<in> set (mr_workers s)} \<le> length (mr_workers s)"
    using card_mono[OF finite_set] card_length[of "mr_workers s"]
    by (metis (no_types, lifting) card_image inj_onI order_trans worker.inject)
  then show "card {i. Mapping i \<in> set (mr_workers s)} \<le> nat c" using sh by (simp add: shape_inv_def)
  show "rs = sequential_results items f" if "mapped s = Some (Inr rs)" for rs by (rule mapped_ended(1)[OF inv that])
  show "f i \<noteq> Inl e" if "mapped s = Some (Inr rs)" "i < length items \<and> items ! i \<noteq> None" for rs i e
    using mapped_ended(2)[OF inv that(1)] that(2) by simp
  show "e = reason \<and> mr_aborted s \<or> (\<exists>i \<in> set (mr_called s). f i = Inl e)" if "mapped s = Some (Inl e)" for e
  proof -
    from that have "mr_failure s = Some e" by (auto simp: mapped_def split: option.splits if_splits)
    with oc have "e = reason \<and> mr_aborted s \<or> (\<exists>i. settled_at items s i \<and> f i = Inl e)" by (simp add: outcome_inv_def)
    then show ?thesis by (auto simp: called settled_at_def)
  qed
  show "n \<le> 4 * length items" if "(map_step items f reason ^^ n) s t" for n t
    using cmap.steps_bounded[OF that inv] map_work_bound[OF inv] by linarith
  fix n t assume run: "(map_step items f reason ^^ n) s t \<and> (\<nexists>u. map_step items f reason t u)"
  then have q: "map_quiet t" and i: "map_inv items c f reason t"
    using cmap.stuck_is_quiet[OF _ inv] cmap.invar_steps[OF _ inv] by blast+
  then show "mapped t \<noteq> None"
    by (auto simp: mapped_def map_quiet_def map_inv_def shape_inv_def split: option.split)
qed

text \<open>Three items, one of them undefined, and two workers; the mapper doubles the index.\<close>

definition sample_mapped_items :: "unit option list" where
  "sample_mapped_items = [Some (), None, Some ()]"

definition sample_mapper :: "nat \<Rightarrow> unit + nat" where
  "sample_mapper i = Inr (2 * i)"

definition sample_mapping :: "(unit, nat) mapping_run" where
  "sample_mapping = worker_round sample_mapped_items () 0 \<lparr>mr_next = 0, mr_workers = [Ready, Ready], mr_results = [None, None, None],
     mr_aborted = False, mr_failure = None, mr_called = []\<rparr>"

lemma sample_mapping_reach: "map_reach sample_mapped_items 2 sample_mapper () sample_mapping"
  unfolding sample_mapping_def
  by (rule map_reach.stepped[OF map_reach.called[of _ _ False] map_step.round])
    (simp_all add: mapConcurrent_def sample_mapped_items_def numeral_2_eq_2 numeral_3_eq_3)

theorem mapConcurrent_is_map_witness:
  "mr_called sample_mapping = [0] \<and> card {i. Mapping i \<in> set (mr_workers sample_mapping)} \<le> nat 2 \<and>
   (\<exists>n t. (map_step sample_mapped_items sample_mapper () ^^ n) sample_mapping t \<and> n \<le> 12 \<and> mapped t \<noteq> None)"
proof -
  note c = mapConcurrent_is_map[OF sample_mapping_reach]
  obtain n t where run: "(map_step sample_mapped_items sample_mapper () ^^ n) sample_mapping t"
    "\<nexists>u. map_step sample_mapped_items sample_mapper () t u"
    using cmap.settles[OF map_reach_inv[OF sample_mapping_reach]] by blast
  have "n \<le> 12" using c run(1) by (auto simp: sample_mapped_items_def)
  moreover have "mapped t \<noteq> None" using c run by blast
  moreover have "mr_called sample_mapping = [0]" by code_simp
  ultimately show ?thesis using c run(1) by blast
qed

end
