(* ===== verification/Spec2Isabelle.thy ===== *)
theory Spec2Isabelle
  imports Cache_Loads Queue_Safety Session_Selection Session_Capacity Package_Extraction Url_Guard Quick_Connect_Safety Seek_Settling Hls_Buffer
    Settings_Safety Watch_State Smart_Play_Laws Worker_Policy_Laws Worker_Pool_Laws Worker_Intake Resource_Allocation
    Semaphore_Laws Map_Concurrent
begin

text \<open>
  A verification development of the ReelVault media server, the TypeScript sources under
  \<^verbatim>\<open>src/src\<close>. It translates the decision and state-keeping code of the server into
  definitions and proves what makes that code correct. A path below is relative to
  \<^verbatim>\<open>src/src\<close>.

  \<^bold>\<open>The program.\<close> A request reaches a service (\<^verbatim>\<open>services\<close>), which reads and writes the
  database through repositories (\<^verbatim>\<open>repositories\<close>) and the settings through the settings
  store (\<^verbatim>\<open>config\<close>). Long work is put into the job queue (\<^verbatim>\<open>repositories/worker-jobs\<close>,
  \<^verbatim>\<open>worker-operation\<close>) and claimed from there by the workers. To play a file, a session is
  decided (\<^verbatim>\<open>modules/streaming/decisions\<close>), reserved and started
  (\<^verbatim>\<open>modules/streaming/runtime\<close>), moved (\<^verbatim>\<open>seeking\<close>, \<^verbatim>\<open>buffer\<close>) and, at the end, its
  progress is saved (\<^verbatim>\<open>services/playback\<close>), from which the next suggestion is computed.
  Plugins arrive as archives fetched from foreign hosts (\<^verbatim>\<open>utils/url-guard.utils.ts\<close>,
  \<^verbatim>\<open>plugins/catalog/plugin-package\<close>).

  \<^bold>\<open>The theories.\<close>

  \<^item> \<open>Prelude\<close>: domain errors, results as sums, the \<^verbatim>\<open>Map\<close> and \<^verbatim>\<open>Set\<close> of JavaScript, list
    helpers, the locales of a keyed store. \<open>Js_String\<close>, \<open>Js_Number\<close>, \<open>Json\<close>, \<open>Paths\<close>: what the
    source uses of strings, numbers, \<^verbatim>\<open>JSON\<close> and \<^verbatim>\<open>node:path\<close>. \<open>Settling\<close>: the locale of
    processes that come to rest.
  \<^item> \<open>Memory_Cache\<close>, \<open>Cache_Laws\<close>, \<open>Cache_Loads\<close>: \<^verbatim>\<open>utils/memory.cache.ts\<close>. Reachable caches
    keep their limits; a write evicts exactly a least-recently-used prefix; concurrent loads of a
    key are one load.
  \<^item> \<open>Worker_Tables\<close>, \<open>Worker_Jobs\<close>: the tables of the job queue and every writer of
    \<^verbatim>\<open>repositories/worker-jobs\<close> and \<^verbatim>\<open>worker-operation\<close>. \<open>Queue_Moves\<close> and \<open>Queue_Claims\<close>
    refine the writers to abstract moves of rows between statuses, \<open>Queue_Intake\<close> has the steps that
    are no moves, \<open>Queue_Laws\<close> and \<open>Queue_Safety\<close> the properties of all runs: exact counters,
    dedupe keys, final jobs, safe claims, exact cascades, retention.
  \<^item> \<open>Worker_Policy\<close>, \<open>Worker_Policy_Laws\<close>: \<^verbatim>\<open>workers/utils/worker-policy.utils.ts\<close>, retry delays,
    cron expressions and the next run of a worker, on the calendar and with the zone as a
    parameter. The search day by day finds the instant a search minute by minute would find, in
    every zone with a fixed offset. \<open>Worker_Pool\<close>, \<open>Worker_Pool_Safety\<close>, \<open>Worker_Pool_Laws\<close>:
    \<^verbatim>\<open>workers/core/worker-pool.service.ts\<close> on top of the tables of the queue, from the poll
    that claims a job to the timers that end it. The counted slots are the held ones, a claim has one
    outcome, and every slot is given back. \<open>Worker_Intake\<close>: \<^verbatim>\<open>worker-queue.service.ts\<close> and
    \<^verbatim>\<open>worker-operation.service.ts\<close>, the enqueue of a job under an operation of its own, all or
    nothing.
  \<^item> \<open>Server_Rescue\<close>: \<^verbatim>\<open>system/server-rescue.service.ts\<close>, which pauses the background work of a
    drowning server and resumes it exactly when its checks say so. \<open>Resource_Allocation\<close>: the budgets
    of \<^verbatim>\<open>config/system-resources\<close>, the pressure and the allocation of \<^verbatim>\<open>system/resource-allocator\<close>
    and the concurrency of a registered worker with its bounds.
  \<^item> \<open>Semaphore\<close>, \<open>Semaphore_Laws\<close>, \<open>Map_Concurrent\<close>: \<^verbatim>\<open>utils/promise.utils.ts\<close>. The semaphore,
    whose array with holes implements a line of waiting calls, counts exactly and keeps no call
    waiting; the bounded concurrent map is a map.
  \<^item> \<open>Stream_Preferences\<close>, \<open>Playback_Decision\<close>, \<open>Session_Selection\<close>:
    \<^verbatim>\<open>modules/streaming/decisions\<close>, from the languages of a profile to the decision what is
    copied and what is encoded, with the server's limits.
  \<^item> \<open>Session_Store\<close>, \<open>Session_Runtime\<close>: the state of the running sessions and the manager, one
    event for each uninterrupted part of an asynchronous method. \<open>Session_Safety\<close> and
    \<open>Session_Capacity\<close>: sessions end once, are not resumed, expire by silence only, and respect the
    capacity.
  \<^item> \<open>Keyed_Mutex\<close>, \<open>Seek_Scheduler\<close>, \<open>Seek_Settling\<close>: \<^verbatim>\<open>utils/concurrency.utils.ts\<close> and
    \<^verbatim>\<open>modules/streaming/seeking\<close>. Every seek is answered once, and the seeks of a session are
    serialized. \<open>Hls_Buffer\<close>: \<^verbatim>\<open>modules/streaming/buffer\<close>, which answers a seek from the
    segments on disk.
  \<^item> \<open>Tar_Extractor\<close>, \<open>Tar_Refinement\<close>, \<open>Tar_Safety\<close>, \<open>Package_Extraction\<close>:
    \<^verbatim>\<open>plugins/catalog/plugin-package\<close>. The chunked reader implements one that reads bytes, and
    no archive writes outside its root or over its limit.
  \<^item> \<open>Ip_Address\<close>, \<open>Url_Guard\<close>: \<^verbatim>\<open>utils/url-guard.utils.ts\<close>, downloads that only ever reach
    public addresses.
  \<^item> \<open>Quick_Connect\<close>, \<open>Quick_Connect_Safety\<close>: \<^verbatim>\<open>services/auth/quick-connect.service.ts\<close>, one
    session for a pairing code, for the right user.
  \<^item> \<open>Settings\<close>: \<^verbatim>\<open>config/value-codecs.utils.ts\<close>, \<^verbatim>\<open>config/system-settings.utils.ts\<close>, the
    twelve tables of \<^verbatim>\<open>config/definitions\<close> and the overrides of the rate limits.
    \<open>Settings_Service\<close>: the store, the repository and the service with its database failures.
    \<open>Settings_Safety\<close>: in every run a setting is well typed, and the memory and the table agree as
    long as no update was torn.
  \<^item> \<open>Playback_Progress\<close>, \<open>Watch_State\<close>: \<^verbatim>\<open>services/playback/playback-progress.service.ts\<close> and
    its repositories on explicit tables; the bulk update against repeated single ones.
    \<open>Smart_Play\<close>, \<open>Smart_Play_Laws\<close>: \<^verbatim>\<open>services/playback/smart-play.resolver.ts\<close>, what to play
    next.

  \<^bold>\<open>How the code is modelled.\<close> A class or an object type is a record, a union a datatype, a method
  a function from the old state to the new one and its result. An error is \<open>Throw\<close> of a domain
  error; a handler that fails still returns the state it leaves. Code with an \<^verbatim>\<open>await\<close> is cut
  there: each part between two waits is one step, and a theorem about runs holds for every
  interleaving of the steps. A database transaction is one function on the tables. The clock, random
  draws, and whatever comes from the network, a child process or a library are arguments of the
  definitions, so a theorem holds for every answer they may give; the hypotheses a theorem needs of
  them stand in its statement.

  Numbers: instants and counters are \<open>int\<close>, as the code keeps them far below the exact range of a
  double; addresses and bytes are words; positions and rates are rationals; a number that is read
  from text and printed again is the shortest decimal that denotes it. Strings are their UTF-8
  bytes, and the case-insensitive operations act on ASCII, which all keys and codes the server
  compares are.

  \<^bold>\<open>Fuel and termination.\<close> All definitions are total. \<open>json_value\<close> recurses on fuel and
  \<open>json_parse\<close> supplies one more than twice the length of the text; \<open>json_value_enough\<close> shows that
  no text needs more. Four loops are \<^theory_text>\<open>partial_function\<close>s, where \<open>None\<close> means that the loop
  does not end: \<open>cascade_levels\<close> (rows of a table could form a cycle), \<open>push_loop\<close> of the tar
  reader, \<open>fetch_loop\<close> with its redirects and \<open>locate\<close>, the search of a plugin in a directory
  tree. That they return is part of a property of each: on every reachable queue, on every archive,
  within the code's own redirect limit, and on every tree of bounded depth. Liveness is stated with an explicit bound on the steps the
  runtime takes by itself: nine for an execution of the pool, and likewise for the seeks, the semaphore
  and the concurrent map. \<open>run_intake\<close> ends because each of its phases has a smaller rank than the
  one before.

  \<^bold>\<open>Not modelled.\<close> The HTTP layer (\<^verbatim>\<open>api\<close>) and the start of the server: routing and the
  wiring of the parts. The SQL of the reading repositories: projections and joins whose meaning is
  the database's. The integrations (\<^verbatim>\<open>ffmpeg\<close>, \<^verbatim>\<open>ffprobe\<close>, \<^verbatim>\<open>sharp\<close>,
  \<^verbatim>\<open>better-auth\<close>): command lines and calls into foreign programs. The scanner, the metadata
  sidecars, the plugins' life cycle and the other services of the administration and the catalog,
  which mostly move data between the file system, the database and foreign providers. The bodies
  of the background jobs, which call those services. The performance tools and scripts. The notes of the components in the manifest say what is left out
  inside the parts that are modelled.

  \<^bold>\<open>Gaps the proofs showed.\<close> Each is a lemma on a concrete input: \<open>throwing_loader_blocks_its_key\<close>
  (\<open>Cache_Loads\<close>), \<open>link_below_link_escapes\<close> and \<open>long_name_is_unbounded\<close> (\<open>Tar_Safety\<close>),
  \<open>torn_update_diverges\<close> and \<open>partial_reset_breaks_session_order\<close> (\<open>Settings_Safety\<close>),
  \<open>bulk_clears_more_of_the_watchlist\<close> (\<open>Watch_State\<close>), \<open>stale_slot_leaks\<close>
  (\<open>Worker_Pool_Laws\<close>), \<open>skipped_call_hangs\<close> (\<open>Semaphore_Laws\<close>), \<open>disabled_while_rescuing\<close> and
  \<open>pause_counts_as_breach\<close> (\<open>Server_Rescue\<close>), \<open>guaranteed_cores_exceed_ceiling\<close>
  (\<open>Resource_Allocation\<close>), \<open>set_accounts_for_every_value\<close> (\<open>Cache_Laws\<close>).
\<close>

end
